(* ===== verification/Prelude.thy ===== *)
theory Prelude
  imports Main
begin

text \<open>
  Shared vocabulary of the development.

  The first part gives the two result types of the Rust code a name: a fallible pure
  computation is a sum (\<open>Inl\<close> the error), a fallible operation on a store is a function from
  the store to a result and the next store.  \<open>op_bind\<close> is the question-mark operator,
  \<open>transaction\<close> is a database transaction that is rolled back when its body returns an error.

  The second part has the list and option facts the components share: keyed lookup in tables,
  updates of selected rows, uniqueness of a key over a filtered table.

  The last part renders integers the way \<^verbatim>\<open>format!\<close> does.
\<close>

named_theorems op_simps \<open>evaluation of store operations\<close>
named_theorems table_simps \<open>rows of a table after an insert or an update\<close>

section \<open>Results and store operations\<close>

type_synonym ('e, 'a) res = "'e + 'a"
type_synonym ('s, 'e, 'a) op = "'s \<Rightarrow> ('e + 'a) \<times> 's"

definition is_ok :: "'e + 'a \<Rightarrow> bool" where
  "is_ok r = (case r of Inl _ \<Rightarrow> False | Inr _ \<Rightarrow> True)"

definition res_bind :: "'e + 'a \<Rightarrow> ('a \<Rightarrow> 'e + 'b) \<Rightarrow> 'e + 'b" where
  "res_bind r f = (case r of Inl e \<Rightarrow> Inl e | Inr a \<Rightarrow> f a)"

text \<open>Collecting an iterator of results stops at the first error.\<close>

fun res_collect :: "('a \<Rightarrow> 'e + 'b) \<Rightarrow> 'a list \<Rightarrow> 'e + 'b list" where
  "res_collect f [] = Inr []"
| "res_collect f (x # xs) =
     (case f x of Inl e \<Rightarrow> Inl e
      | Inr y \<Rightarrow> (case res_collect f xs of Inl e \<Rightarrow> Inl e | Inr ys \<Rightarrow> Inr (y # ys)))"

text \<open>The transpose of an optional fallible value.\<close>

definition opt_transpose :: "('a \<Rightarrow> 'e + 'b) \<Rightarrow> 'a option \<Rightarrow> 'e + 'b option" where
  "opt_transpose f v =
     (case v of None \<Rightarrow> Inr None
      | Some x \<Rightarrow> (case f x of Inl e \<Rightarrow> Inl e | Inr y \<Rightarrow> Inr (Some y)))"

definition op_return :: "'a \<Rightarrow> ('s, 'e, 'a) op" where
  "op_return a = (\<lambda>s. (Inr a, s))"

definition op_fail :: "'e \<Rightarrow> ('s, 'e, 'a) op" where
  "op_fail e = (\<lambda>s. (Inl e, s))"

definition op_lift :: "'e + 'a \<Rightarrow> ('s, 'e, 'a) op" where
  "op_lift r = (\<lambda>s. (r, s))"

definition op_read :: "('s \<Rightarrow> 'e + 'a) \<Rightarrow> ('s, 'e, 'a) op" where
  "op_read f = (\<lambda>s. (f s, s))"

definition op_get :: "('s \<Rightarrow> 'a) \<Rightarrow> ('s, 'e, 'a) op" where
  "op_get f = (\<lambda>s. (Inr (f s), s))"

definition op_bind :: "('s, 'e, 'a) op \<Rightarrow> ('a \<Rightarrow> ('s, 'e, 'b) op) \<Rightarrow> ('s, 'e, 'b) op" where
  "op_bind m k = (\<lambda>s. case m s of (Inl e, s') \<Rightarrow> (Inl e, s') | (Inr a, s') \<Rightarrow> k a s')"

definition transaction :: "('s, 'e, 'a) op \<Rightarrow> ('s, 'e, 'a) op" where
  "transaction m = (\<lambda>s. case m s of (Inl e, s') \<Rightarrow> (Inl e, s) | (Inr a, s') \<Rightarrow> (Inr a, s'))"

lemma op_basic_simps [op_simps]:
  "op_return a s = (Inr a, s)"
  "op_fail e s = (Inl e, s)"
  "op_lift r s = (r, s)"
  "op_read f s = (f s, s)"
  "op_get g s = (Inr (g s), s)"
  by (simp_all add: op_return_def op_fail_def op_lift_def op_read_def op_get_def)

lemma op_bind_Inr [op_simps]: "m s = (Inr a, s') \<Longrightarrow> op_bind m k s = k a s'"
  by (simp add: op_bind_def)

lemma op_bind_Inl [op_simps]: "m s = (Inl e, s') \<Longrightarrow> op_bind m k s = (Inl e, s')"
  by (simp add: op_bind_def)

lemma op_bind_return [simp]: "op_bind m op_return = m"
  by (rule ext) (auto simp: op_bind_def op_return_def split: prod.splits sum.splits)

lemma op_bind_assoc: "op_bind (op_bind m k) h = op_bind m (\<lambda>a. op_bind (k a) h)"
  by (rule ext) (auto simp: op_bind_def split: prod.splits sum.splits)

lemma op_bind_Inr_cases:
  assumes "op_bind m k s = (Inr b, t)"
  obtains a s' where "m s = (Inr a, s')" "k a s' = (Inr b, t)"
  using assms by (auto simp: op_bind_def split: prod.splits sum.splits)

lemma transaction_Inr [op_simps]: "m s = (Inr a, t) \<Longrightarrow> transaction m s = (Inr a, t)"
  by (simp add: transaction_def)

lemma transaction_Inl [op_simps]: "m s = (Inl e, t) \<Longrightarrow> transaction m s = (Inl e, s)"
  by (simp add: transaction_def)

lemmas op_eval = op_bind_def transaction_def op_basic_simps

lemma transaction_Inr_iff: "transaction m s = (Inr a, t) \<longleftrightarrow> m s = (Inr a, t)"
  by (auto simp: transaction_def split: prod.splits sum.splits)

lemma transaction_rollback: "fst (transaction m s) = Inl e \<Longrightarrow> snd (transaction m s) = s"
  by (auto simp: transaction_def split: prod.splits sum.splits)

lemma res_collect_Inr_iff:
  "res_collect f xs = Inr ys \<longleftrightarrow> list_all2 (\<lambda>x y. f x = Inr y) xs ys"
proof (induction xs arbitrary: ys)
  case Nil
  then show ?case by auto
next
  case (Cons x xs)
  show ?case
  proof (cases "f x")
    case (Inl e)
    then show ?thesis by (auto simp: list_all2_Cons1)
  next
    case (Inr y)
    have "res_collect f (x # xs) = Inr ys \<longleftrightarrow> (\<exists>zs. ys = y # zs \<and> res_collect f xs = Inr zs)"
      using Inr by (auto split: sum.splits)
    then show ?thesis using Inr Cons by (auto simp: list_all2_Cons1)
  qed
qed

lemma res_collect_total:
  assumes "\<And>x. x \<in> set xs \<Longrightarrow> f x = Inr (g x)"
  shows "res_collect f xs = Inr (map g xs)"
  using assms by (induction xs) auto

section \<open>Tables as lists of rows\<close>

definition update_where :: "('r \<Rightarrow> bool) \<Rightarrow> ('r \<Rightarrow> 'r) \<Rightarrow> 'r list \<Rightarrow> 'r list" where
  "update_where P f rs = map (\<lambda>r. if P r then f r else r) rs"

definition count_where :: "('r \<Rightarrow> bool) \<Rightarrow> 'r list \<Rightarrow> nat" where
  "count_where P rs = length (filter P rs)"

lemma length_update_where [simp]: "length (update_where P f rs) = length rs"
  by (simp add: update_where_def)

lemma map_update_where [table_simps]:
  assumes "\<And>r. k (f r) = k r"
  shows "map k (update_where P f rs) = map k rs"
  using assms by (auto simp: update_where_def)

lemma set_update_where: "set (update_where P f rs) = (\<lambda>r. if P r then f r else r) ` set rs"
  by (simp add: update_where_def)

lemma update_where_none: "(\<And>r. r \<in> set rs \<Longrightarrow> \<not> P r) \<Longrightarrow> update_where P f rs = rs"
  by (auto simp: update_where_def intro: map_idI)

lemma count_where_zero: "count_where P rs = 0 \<longleftrightarrow> (\<forall>r \<in> set rs. \<not> P r)"
  by (auto simp: count_where_def filter_empty_conv)

text \<open>A key that is unique over a table selects at most one row.\<close>

lemma distinct_key_eq:
  "\<lbrakk>distinct (map k rs); r \<in> set rs; r' \<in> set rs; k r = k r'\<rbrakk> \<Longrightarrow> r = r'"
  by (auto simp: distinct_map dest: inj_onD)

lemma distinct_filter_key_eq:
  "\<lbrakk>distinct (map k (filter P rs)); r \<in> set rs; r' \<in> set rs; P r; P r'; k r = k r'\<rbrakk> \<Longrightarrow> r = r'"
  by (rule distinct_key_eq [of k "filter P rs"]) auto

lemma count_where_key:
  assumes "distinct (map k rs)" "r \<in> set rs" "k r = x" "P r"
    and "\<And>r'. P r' \<Longrightarrow> k r' = x"
  shows "count_where P rs = 1"
  using assms(1,2)
proof (induction rs)
  case Nil
  then show ?case by simp
next
  case (Cons a rs)
  show ?case
  proof (cases "a = r")
    case True
    have "\<not> P r'" if "r' \<in> set rs" for r'
    proof
      assume "P r'"
      then have "k r' = k a" using assms(3,5) True by simp
      then show False using Cons.prems(1) that by (auto simp: image_iff)
    qed
    then have "\<forall>r' \<in> set rs. \<not> P r'" by blast
    then show ?thesis
      using True assms(4) by (simp add: count_where_def filter_empty_conv)
  next
    case False
    then have "r \<in> set rs" using Cons.prems(2) by simp
    moreover have "\<not> P a"
    proof
      assume "P a"
      then have "k a = k r" using assms(3,5) by simp
      then show False using Cons.prems(1) \<open>r \<in> set rs\<close> by (auto simp: image_iff)
    qed
    ultimately show ?thesis
      using Cons by (simp add: count_where_def)
  qed
qed

text \<open>Uniqueness of a key over the rows that satisfy a condition, after an update.\<close>

lemma distinct_map_filter_subset:
  assumes "distinct (map k (filter P rs))" "\<And>r. r \<in> set rs \<Longrightarrow> Q r \<Longrightarrow> P r"
  shows "distinct (map k (filter Q rs))"
proof -
  have eq: "filter Q rs = filter Q (filter P rs)"
    using assms(2) by (induction rs) auto
  have "distinct (map k (filter Q (filter P rs)))"
    using assms(1) by (rule distinct_map_filter)
  then show ?thesis by (simp only: eq)
qed

lemma distinct_filter_iff:
  assumes "distinct (map i rs)"
  shows "distinct (map k (filter P rs)) \<longleftrightarrow>
    (\<forall>r \<in> set rs. \<forall>r' \<in> set rs. P r \<and> P r' \<and> k r = k r' \<longrightarrow> i r = i r')"
proof
  assume d: "distinct (map k (filter P rs))"
  show "\<forall>r \<in> set rs. \<forall>r' \<in> set rs. P r \<and> P r' \<and> k r = k r' \<longrightarrow> i r = i r'"
    using distinct_filter_key_eq [OF d] by blast
next
  assume h: "\<forall>r \<in> set rs. \<forall>r' \<in> set rs. P r \<and> P r' \<and> k r = k r' \<longrightarrow> i r = i r'"
  have "inj_on k (set (filter P rs))"
    using h distinct_key_eq [OF assms] by (auto intro!: inj_onI)
  moreover have "distinct rs" using assms distinct_map by blast
  ultimately show "distinct (map k (filter P rs))"
    by (simp add: distinct_map)
qed

lemma find_Some_iff_mem: "find P xs = Some x \<Longrightarrow> x \<in> set xs \<and> P x"
  by (induction xs) (auto split: if_splits)

lemma find_None_mem: "find P xs = None \<longleftrightarrow> (\<forall>x \<in> set xs. \<not> P x)"
  by (induction xs) auto

lemma find_key:
  assumes "distinct (map k rs)" "r \<in> set rs"
  shows "find (\<lambda>r'. k r' = k r) rs = Some r"
proof (cases "find (\<lambda>r'. k r' = k r) rs")
  case None
  then show ?thesis using assms(2) by (auto simp: find_None_mem)
next
  case (Some r')
  then have "r' \<in> set rs" "k r' = k r" by (auto dest: find_Some_iff_mem)
  with assms Some show ?thesis by (auto dest: distinct_key_eq)
qed

lemma find_unique:
  assumes "\<And>x. x \<in> set xs \<Longrightarrow> P x \<Longrightarrow> x = y" "y \<in> set xs" "P y"
  shows "find P xs = Some y"
proof (cases "find P xs")
  case None
  then show ?thesis using assms by (auto simp: find_None_mem)
next
  case (Some z)
  from find_Some_iff_mem [OF Some] have "z = y" using assms(1) by blast
  with Some show ?thesis by simp
qed

section \<open>Rendering numbers\<close>

fun dec_digits :: "nat \<Rightarrow> nat list" where
  "dec_digits n = (if n < 10 then [n] else dec_digits (n div 10) @ [n mod 10])"

declare dec_digits.simps [simp del]

definition nat_digits :: "nat \<Rightarrow> string" where
  "nat_digits n = map (\<lambda>d. char_of (48 + d)) (dec_digits n)"

definition int_to_string :: "int \<Rightarrow> string" where
  "int_to_string i = (if i < 0 then CHR ''-'' # nat_digits (nat (- i)) else nat_digits (nat i))"

end
