(* ===== verification/JsonValue.thy ===== *)
theory JsonValue
  imports Prelude
begin

text \<open>
  The document type of the JSON library the daemon and the scanner exchange data in
  (\<^verbatim>\<open>serde_json::Value\<close>): its constructors and the accessors the code calls on it.  The type of
  strings is a parameter, so that the daemon side can use plain strings and the encoder of the
  scanner can use lists of code points.  An object keeps its keys in insertion order; a key
  occurs once.  Numbers that are not integers are kept as their rendering.
\<close>

datatype json_number = NInt int | NFloat string

datatype 's json_value =
    JNull
  | JBool bool
  | JNumber json_number
  | JString 's
  | JArray "'s json_value list"
  | JObject "('s \<times> 's json_value) list"

definition as_object :: "'s json_value \<Rightarrow> ('s \<times> 's json_value) list option" where
  "as_object v = (case v of JObject m \<Rightarrow> Some m | _ \<Rightarrow> None)"

definition as_array :: "'s json_value \<Rightarrow> 's json_value list option" where
  "as_array v = (case v of JArray xs \<Rightarrow> Some xs | _ \<Rightarrow> None)"

definition as_str :: "'s json_value \<Rightarrow> 's option" where
  "as_str v = (case v of JString s \<Rightarrow> Some s | _ \<Rightarrow> None)"

definition as_u64 :: "'s json_value \<Rightarrow> nat option" where
  "as_u64 v = (case v of JNumber (NInt i) \<Rightarrow> if 0 \<le> i \<and> i < 2 ^ 64 then Some (nat i) else None | _ \<Rightarrow> None)"

definition is_string :: "'s json_value \<Rightarrow> bool" where
  "is_string v = (case v of JString _ \<Rightarrow> True | _ \<Rightarrow> False)"

definition is_null :: "'s json_value \<Rightarrow> bool" where
  "is_null v = (case v of JNull \<Rightarrow> True | _ \<Rightarrow> False)"

definition is_boolean :: "'s json_value \<Rightarrow> bool" where
  "is_boolean v = (case v of JBool _ \<Rightarrow> True | _ \<Rightarrow> False)"

text \<open>Looking a key up in anything but an object finds nothing; indexing yields null there.\<close>

definition json_get :: "'s \<Rightarrow> 's json_value \<Rightarrow> 's json_value option" where
  "json_get k v = (case v of JObject m \<Rightarrow> map_of m k | _ \<Rightarrow> None)"

definition json_index :: "'s json_value \<Rightarrow> 's \<Rightarrow> 's json_value" where
  "json_index v k = (case json_get k v of None \<Rightarrow> JNull | Some x \<Rightarrow> x)"

lemmas json_access_defs = as_object_def as_array_def as_str_def as_u64_def is_string_def
  is_null_def is_boolean_def json_get_def json_index_def

end
