(* ===== verification/JobModel.thy ===== *)
theory JobModel
  imports JsonValue
begin

text \<open>
  The value types of the daemon state (\<^verbatim>\<open>remy-cc/src/state.rs\<close>): job priority and status with their
  database encodings, the error type with its fatality rule and rendering, the request and result
  structures, and the job lifecycle \<open>allowed_transition\<close>.

  The lemmas show that the database encodings are inverse to the decoders, that succeeded, failed,
  cancelled and superseded are exactly the states without a successor, and that the lifecycle of a
  job is the reflexive-transitive closure of the transition table.
\<close>

section \<open>Priority and status\<close>

datatype JobPriority = Background | Interactive

datatype JobStatus =
    Pending | Running | CancelRequested | Succeeded | Failed | Cancelled | Superseded

datatype sqlite_code =
    DatabaseCorrupt | NotADatabase | SystemIoFailure | CannotOpen | ConstraintViolation | OtherCode

text \<open>A database error carries its rendering; only its code is inspected.\<close>

datatype sqlite_error = SqliteFailure sqlite_code string | OtherSqliteError string

datatype StateError =
    Sqlite sqlite_error
  | Io string
  | InvalidInput string
  | NotFound int
  | NotCancellable JobStatus
  | InvalidTransition JobStatus JobStatus
  | Corrupt string

fun is_fatal :: "StateError \<Rightarrow> bool" where
  "is_fatal (Corrupt _) = True"
| "is_fatal (Io _) = True"
| "is_fatal (Sqlite (SqliteFailure code _)) =
     (code \<in> {DatabaseCorrupt, NotADatabase, SystemIoFailure, CannotOpen})"
| "is_fatal (Sqlite (OtherSqliteError _)) = False"
| "is_fatal (InvalidInput _) = False"
| "is_fatal (NotFound _) = False"
| "is_fatal (NotCancellable _) = False"
| "is_fatal (InvalidTransition _ _) = False"

fun priority_as_db :: "JobPriority \<Rightarrow> int" where
  "priority_as_db Background = 0"
| "priority_as_db Interactive = 1"

definition priority_from_db :: "int \<Rightarrow> StateError + JobPriority" where
  "priority_from_db value =
     (if value = 0 then Inr Background
      else if value = 1 then Inr Interactive
      else Inl (Corrupt (''invalid priority '' @ int_to_string value)))"

fun as_db :: "JobStatus \<Rightarrow> string" where
  "as_db Pending = ''pending''"
| "as_db Running = ''running''"
| "as_db CancelRequested = ''cancel_requested''"
| "as_db Succeeded = ''succeeded''"
| "as_db Failed = ''failed''"
| "as_db Cancelled = ''cancelled''"
| "as_db Superseded = ''superseded''"

definition from_db :: "string \<Rightarrow> StateError + JobStatus" where
  "from_db value =
     (if value = ''pending'' then Inr Pending
      else if value = ''running'' then Inr Running
      else if value = ''cancel_requested'' then Inr CancelRequested
      else if value = ''succeeded'' then Inr Succeeded
      else if value = ''failed'' then Inr Failed
      else if value = ''cancelled'' then Inr Cancelled
      else if value = ''superseded'' then Inr Superseded
      else Inl (Corrupt (''invalid job status '' @ value)))"

fun sqlite_error_to_string :: "sqlite_error \<Rightarrow> string" where
  "sqlite_error_to_string (SqliteFailure _ msg) = msg"
| "sqlite_error_to_string (OtherSqliteError msg) = msg"

fun state_error_to_string :: "StateError \<Rightarrow> string" where
  "state_error_to_string (Sqlite e) = ''state database error: '' @ sqlite_error_to_string e"
| "state_error_to_string (Io e) = ''state file error: '' @ e"
| "state_error_to_string (InvalidInput m) = ''invalid state input: '' @ m"
| "state_error_to_string (NotFound i) = ''job '' @ int_to_string i @ '' not found''"
| "state_error_to_string (NotCancellable s) = ''job in state '' @ as_db s @ '' is not cancellable''"
| "state_error_to_string (InvalidTransition a b) =
     ''invalid job transition: '' @ as_db a @ '' -> '' @ as_db b"
| "state_error_to_string (Corrupt m) = ''state database is corrupt: '' @ m"

definition all_statuses :: "JobStatus list" where
  "all_statuses = [Pending, Running, CancelRequested, Succeeded, Failed, Cancelled, Superseded]"

section \<open>Structures\<close>

record Job =
  job_id :: int
  job_project_id :: int
  job_project_path :: string
  job_target_db_path :: string
  job_job_type :: string
  job_file_path :: string
  job_priority :: JobPriority
  job_provider :: string
  job_status :: JobStatus
  job_progress_current :: "int option"
  job_progress_total :: "int option"
  job_progress_message :: "string option"
  job_result :: "string json_value option"
  job_error :: "string json_value option"
  job_created_at :: int
  job_started_at :: "int option"
  job_finished_at :: "int option"
  job_superseded_by :: "int option"

record SubmitJob =
  sj_project_path :: string
  sj_db_path :: string
  sj_file_path :: string
  sj_priority :: JobPriority

record ListJobs =
  lj_project_path :: "string option"
  lj_file_path :: "string option"
  lj_status :: "JobStatus option"
  lj_job_type :: "string option"
  lj_limit :: nat

record ProgressUpdate =
  pu_current :: int
  pu_total :: int
  pu_message :: string

record RecoveryReport =
  requeued :: nat
  cancelled :: nat
  superseded :: nat

definition PROVIDER_RUST :: string where "PROVIDER_RUST = ''rust''"
definition JOB_TYPE_INCREMENTAL :: string where "JOB_TYPE_INCREMENTAL = ''incremental_scan''"
definition JOB_TYPE_FULL_SCAN :: string where "JOB_TYPE_FULL_SCAN = ''full_scan''"
definition FULL_SCAN_DEDUPE_KEY :: string where "FULL_SCAN_DEDUPE_KEY = ''full_scan''"
definition STATE_SCHEMA_VERSION :: nat where "STATE_SCHEMA_VERSION = 2"

section \<open>The lifecycle of a job\<close>

fun allowed_transition :: "JobStatus \<Rightarrow> JobStatus \<Rightarrow> bool" where
  "allowed_transition Pending Running = True"
| "allowed_transition Pending Cancelled = True"
| "allowed_transition Pending Superseded = True"
| "allowed_transition Running Pending = True"
| "allowed_transition Running Succeeded = True"
| "allowed_transition Running Failed = True"
| "allowed_transition Running CancelRequested = True"
| "allowed_transition Running Superseded = True"
| "allowed_transition CancelRequested Cancelled = True"
| "allowed_transition _ _ = False"

definition terminal :: "JobStatus \<Rightarrow> bool" where
  "terminal s \<longleftrightarrow> s \<in> {Succeeded, Failed, Cancelled, Superseded}"

definition executing :: "JobStatus \<Rightarrow> bool" where
  "executing s \<longleftrightarrow> s \<in> {Running, CancelRequested}"

text \<open>The specification of a job's history: any number of allowed transitions.\<close>

inductive lifecycle :: "JobStatus \<Rightarrow> JobStatus \<Rightarrow> bool" where
  stay: "lifecycle s s"
| move: "lifecycle s t \<Longrightarrow> allowed_transition t u \<Longrightarrow> lifecycle s u"

inductive_cases lifecycle_from_pending: "lifecycle Pending s"

lemma as_db_inj [simp]: "as_db a = as_db b \<longleftrightarrow> a = b"
  by (cases a; cases b) simp_all

lemma from_db_as_db [simp]: "from_db (as_db s) = Inr s"
  by (cases s) (simp_all add: from_db_def)

lemma from_db_Inr: "from_db v = Inr s \<Longrightarrow> v = as_db s"
  by (auto simp: from_db_def split: if_splits)

lemma priority_from_db_as_db [simp]: "priority_from_db (priority_as_db p) = Inr p"
  by (cases p) (simp_all add: priority_from_db_def)

lemma priority_as_db_range: "priority_as_db p \<in> {0, 1}"
  by (cases p) simp_all

lemma all_statuses_complete [simp]: "s \<in> set all_statuses"
  by (cases s) (simp_all add: all_statuses_def)

text \<open>From here on a status column is compared through the encoder, never through its text.\<close>

declare as_db.simps [simp del]

lemma job_types_distinct [simp]:
  "JOB_TYPE_INCREMENTAL \<noteq> JOB_TYPE_FULL_SCAN" "JOB_TYPE_FULL_SCAN \<noteq> JOB_TYPE_INCREMENTAL"
  by (simp_all add: JOB_TYPE_INCREMENTAL_def JOB_TYPE_FULL_SCAN_def)

lemma terminal_iff_no_successor: "terminal s \<longleftrightarrow> (\<forall>t. \<not> allowed_transition s t)"
proof (cases s)
  case Pending
  then have "\<exists>t. allowed_transition s t" by (intro exI [of _ Running]) simp
  with Pending show ?thesis by (simp add: terminal_def)
next
  case Running
  then have "\<exists>t. allowed_transition s t" by (intro exI [of _ Pending]) simp
  with Running show ?thesis by (simp add: terminal_def)
next
  case CancelRequested
  then have "\<exists>t. allowed_transition s t" by (intro exI [of _ Cancelled]) simp
  with CancelRequested show ?thesis by (simp add: terminal_def)
qed (simp_all add: terminal_def)

lemma allowed_from_terminal: "terminal s \<Longrightarrow> \<not> allowed_transition s t"
  by (simp add: terminal_iff_no_successor)

lemma not_terminal_cases: "\<not> terminal s \<longleftrightarrow> s = Pending \<or> executing s"
  by (cases s) (auto simp: terminal_def executing_def)

lemma lifecycle_step: "allowed_transition s t \<Longrightarrow> lifecycle s t"
  by (rule lifecycle.move [OF lifecycle.stay])

lemma lifecycle_trans: "lifecycle t u \<Longrightarrow> lifecycle s t \<Longrightarrow> lifecycle s u"
  by (induction rule: lifecycle.induct) (auto intro: lifecycle.move)

lemma lifecycle_terminal: "lifecycle s t \<Longrightarrow> terminal s \<Longrightarrow> t = s"
  by (induction rule: lifecycle.induct) (auto dest: allowed_from_terminal)

text \<open>Nothing but a running job is reported as succeeded or failed.\<close>

lemma lifecycle_finished: "lifecycle s t \<Longrightarrow> t \<in> {Succeeded, Failed} \<Longrightarrow> s = t \<or> lifecycle s Running"
proof (induction rule: lifecycle.induct)
  case (stay s)
  then show ?case by simp
next
  case (move s t u)
  then have "t = Running" by (cases t; cases u) auto
  with move show ?case by simp
qed

lemma cancel_requested_only_cancels:
  "lifecycle s t \<Longrightarrow> s = CancelRequested \<Longrightarrow> t \<in> {CancelRequested, Cancelled}"
proof (induction rule: lifecycle.induct)
  case (stay s)
  then show ?case by simp
next
  case (move s t u)
  then show ?case by (cases u) auto
qed

section \<open>Codecs\<close>

text \<open>
  What the store relies on when it writes a value in one column and reads it back: the decoder
  inverts the encoder.  The status and priority columns provide it; the payload columns need it of
  the JSON library.
\<close>

locale codec =
  fixes encode :: "'a \<Rightarrow> 'c"
    and decode :: "'c \<Rightarrow> 'e + 'a"
  assumes decode_encode: "decode (encode x) = Inr x"
begin

lemma encode_inject: "encode x = encode y \<longleftrightarrow> x = y"
  by (metis Inr_inject decode_encode)

lemma decode_total: "v \<in> range encode \<Longrightarrow> \<exists>x. decode v = Inr x \<and> v = encode x"
  using decode_encode by blast

end

interpretation status_codec: codec as_db from_db
  by unfold_locales simp

interpretation priority_codec: codec priority_as_db priority_from_db
  by unfold_locales simp

end
