(* ===== verification/StateDb.thy ===== *)
theory StateDb
  imports JobModel
begin

text \<open>
  The state database of the daemon: the tables of \<^verbatim>\<open>remy-cc/src/state.rs\<close> as lists of rows in
  rowid order, the CHECK constraints, unique indexes and foreign keys of the schema as executable
  predicates, and the statements the store executes (an insert, an update of selected rows, the
  upsert of a project).  A statement that would leave a row outside the schema fails with a
  constraint error and changes nothing, as the database engine does.

  \<open>schema_ok\<close> is the conjunction of all constraints; every statement keeps it by construction, so
  the content of the development is in the lemmas of \<open>StateStore\<close> that the guards of the code
  leave no statement that can fail on them.  Status and priority are kept in their database
  encoding; payload columns keep the encoded text.
\<close>

section \<open>Tables\<close>

record project_row =
  pr_id :: int
  pr_project_key :: string
  pr_project_path :: string
  pr_db_path :: string
  pr_created_at :: int
  pr_last_seen_at :: int

record job_row =
  jr_id :: int
  jr_project_id :: int
  jr_job_type :: string
  jr_target_db_path :: string
  jr_file_path :: string
  jr_priority :: int
  jr_provider :: string
  jr_status :: string
  jr_progress_current :: "int option"
  jr_progress_total :: "int option"
  jr_progress_message :: "string option"
  jr_result_json :: "string option"
  jr_error_json :: "string option"
  jr_created_at :: int
  jr_started_at :: "int option"
  jr_finished_at :: "int option"
  jr_dedupe_key :: string
  jr_superseded_by :: "int option"

record PublishedProvider =
  pp_provider :: string
  pp_daemon_version :: string
  pp_verified_at :: int
  pp_probe_summary :: string

record db =
  projects :: "project_row list"
  jobs :: "job_row list"
  published :: "PublishedProvider option"

type_synonym 'a dbop = "(db, StateError, 'a) op"

section \<open>Constraints\<close>

definition has_status :: "JobStatus \<Rightarrow> job_row \<Rightarrow> bool" where
  "has_status s r \<longleftrightarrow> jr_status r = as_db s"

definition is_executing :: "job_row \<Rightarrow> bool" where
  "is_executing r \<longleftrightarrow> has_status Running r \<or> has_status CancelRequested r"

text \<open>The CHECK clauses of the jobs table, in the order of the schema.\<close>

definition check_columns :: "job_row \<Rightarrow> bool" where
  "check_columns r \<longleftrightarrow>
     jr_job_type r \<in> {JOB_TYPE_INCREMENTAL, JOB_TYPE_FULL_SCAN} \<and>
     jr_priority r \<in> {0, 1} \<and>
     jr_provider r \<in> {''python'', PROVIDER_RUST} \<and>
     jr_status r \<in> set (map as_db all_statuses) \<and>
     (case jr_progress_current r of None \<Rightarrow> True | Some c \<Rightarrow> 0 \<le> c) \<and>
     (case jr_progress_total r of None \<Rightarrow> True | Some t \<Rightarrow> 0 \<le> t) \<and>
     0 \<le> jr_created_at r"

definition check_progress :: "job_row \<Rightarrow> bool" where
  "check_progress r \<longleftrightarrow>
     (case jr_progress_total r of None \<Rightarrow> True
      | Some t \<Rightarrow> (case jr_progress_current r of None \<Rightarrow> False | Some c \<Rightarrow> c \<le> t))"

definition check_timestamps :: "job_row \<Rightarrow> bool" where
  "check_timestamps r \<longleftrightarrow>
     (has_status Pending r \<and> jr_started_at r = None \<and> jr_finished_at r = None) \<or>
     ((has_status Running r \<or> has_status CancelRequested r) \<and>
        jr_started_at r \<noteq> None \<and> jr_finished_at r = None) \<or>
     ((has_status Succeeded r \<or> has_status Failed r) \<and>
        jr_started_at r \<noteq> None \<and> jr_finished_at r \<noteq> None) \<or>
     ((has_status Cancelled r \<or> has_status Superseded r) \<and> jr_finished_at r \<noteq> None)"

definition check_payload :: "job_row \<Rightarrow> bool" where
  "check_payload r \<longleftrightarrow>
     \<not> (jr_result_json r \<noteq> None \<and> jr_error_json r \<noteq> None) \<and>
     ((has_status Succeeded r \<and> jr_result_json r \<noteq> None \<and> jr_error_json r = None) \<or>
      (has_status Failed r \<and> jr_result_json r = None \<and> jr_error_json r \<noteq> None) \<or>
      (\<not> has_status Succeeded r \<and> \<not> has_status Failed r \<and>
         jr_result_json r = None \<and> jr_error_json r = None))"

definition check_superseded :: "job_row \<Rightarrow> bool" where
  "check_superseded r \<longleftrightarrow>
     (has_status Superseded r \<and> jr_superseded_by r \<noteq> None) \<or>
     (\<not> has_status Superseded r \<and> jr_superseded_by r = None)"

definition job_check :: "job_row \<Rightarrow> bool" where
  "job_check r \<longleftrightarrow> check_columns r \<and> check_progress r \<and> check_timestamps r \<and>
     check_payload r \<and> check_superseded r"

definition project_check :: "project_row \<Rightarrow> bool" where
  "project_check p \<longleftrightarrow> 0 \<le> pr_created_at p \<and> pr_created_at p \<le> pr_last_seen_at p"

definition provider_check :: "PublishedProvider \<Rightarrow> bool" where
  "provider_check p \<longleftrightarrow> pp_provider p \<in> {''python'', PROVIDER_RUST} \<and> 0 \<le> pp_verified_at p"

text \<open>The two partial unique indexes of the jobs table.\<close>

definition job_key :: "job_row \<Rightarrow> int \<times> string \<times> string" where
  "job_key r = (jr_project_id r, jr_job_type r, jr_dedupe_key r)"

definition jobs_one_pending :: "job_row list \<Rightarrow> bool" where
  "jobs_one_pending rs \<longleftrightarrow> distinct (map job_key (filter (has_status Pending) rs))"

definition jobs_one_executing :: "job_row list \<Rightarrow> bool" where
  "jobs_one_executing rs \<longleftrightarrow> distinct (map job_key (filter is_executing rs))"

definition foreign_keys_ok :: "project_row list \<Rightarrow> job_row list \<Rightarrow> bool" where
  "foreign_keys_ok ps rs \<longleftrightarrow>
     list_all (\<lambda>r. jr_project_id r \<in> set (map pr_id ps) \<and>
        (case jr_superseded_by r of None \<Rightarrow> True | Some i \<Rightarrow> i \<in> set (map jr_id rs))) rs"

definition jobs_ok :: "project_row list \<Rightarrow> job_row list \<Rightarrow> bool" where
  "jobs_ok ps rs \<longleftrightarrow>
     distinct (map jr_id rs) \<and> list_all job_check rs \<and>
     jobs_one_pending rs \<and> jobs_one_executing rs \<and> foreign_keys_ok ps rs"

definition projects_ok :: "project_row list \<Rightarrow> bool" where
  "projects_ok ps \<longleftrightarrow>
     distinct (map pr_id ps) \<and> distinct (map pr_project_key ps) \<and> list_all project_check ps"

definition schema_ok :: "db \<Rightarrow> bool" where
  "schema_ok d \<longleftrightarrow> projects_ok (projects d) \<and> jobs_ok (projects d) (jobs d) \<and>
     (case published d of None \<Rightarrow> True | Some p \<Rightarrow> provider_check p)"

definition empty_db :: db where
  "empty_db = \<lparr>projects = [], jobs = [], published = None\<rparr>"

section \<open>Statements\<close>

definition constraint_error :: StateError where
  "constraint_error = Sqlite (SqliteFailure ConstraintViolation ''constraint failed'')"

text \<open>A new row gets the largest rowid of the table plus one.\<close>

definition next_rowid :: "int list \<Rightarrow> int" where
  "next_rowid is = fold max is 0 + 1"

definition insert_job :: "job_row \<Rightarrow> int dbop" where
  "insert_job r d =
     (let rowid = next_rowid (map jr_id (jobs d));
          rs = jobs d @ [r\<lparr>jr_id := rowid\<rparr>]
      in if jobs_ok (projects d) rs then (Inr rowid, d\<lparr>jobs := rs\<rparr>) else (Inl constraint_error, d))"

definition update_jobs :: "(job_row \<Rightarrow> bool) \<Rightarrow> (job_row \<Rightarrow> job_row) \<Rightarrow> nat dbop" where
  "update_jobs P f d =
     (let rs = update_where P f (jobs d)
      in if jobs_ok (projects d) rs then (Inr (count_where P (jobs d)), d\<lparr>jobs := rs\<rparr>)
         else (Inl constraint_error, d))"

definition select_job :: "(job_row \<Rightarrow> bool) \<Rightarrow> db \<Rightarrow> int option" where
  "select_job P d = map_option jr_id (find P (jobs d))"

definition find_job :: "int \<Rightarrow> db \<Rightarrow> job_row option" where
  "find_job i d = find (\<lambda>r. jr_id r = i) (jobs d)"

definition find_project :: "int \<Rightarrow> db \<Rightarrow> project_row option" where
  "find_project i d = find (\<lambda>p. pr_id p = i) (projects d)"

text \<open>The row of a job that has not been claimed, with the column defaults of the schema.\<close>

definition new_job_row :: "int \<Rightarrow> string \<Rightarrow> string \<Rightarrow> string \<Rightarrow> int \<Rightarrow> JobStatus \<Rightarrow> int \<Rightarrow> string \<Rightarrow> job_row" where
  "new_job_row project_id job_type target_db_path file_path priority status created_at dedupe_key =
     \<lparr>jr_id = 0, jr_project_id = project_id, jr_job_type = job_type,
      jr_target_db_path = target_db_path, jr_file_path = file_path, jr_priority = priority,
      jr_provider = ''python'', jr_status = as_db status,
      jr_progress_current = None, jr_progress_total = None, jr_progress_message = None,
      jr_result_json = None, jr_error_json = None, jr_created_at = created_at,
      jr_started_at = None, jr_finished_at = None, jr_dedupe_key = dedupe_key,
      jr_superseded_by = None\<rparr>"

definition upsert_project :: "string \<Rightarrow> string \<Rightarrow> string \<Rightarrow> int \<Rightarrow> unit dbop" where
  "upsert_project key path db_path now d =
     (let ps = (if \<exists>p \<in> set (projects d). pr_project_key p = key
                then update_where (\<lambda>p. pr_project_key p = key)
                       (\<lambda>p. p\<lparr>pr_project_path := path, pr_db_path := db_path, pr_last_seen_at := now\<rparr>)
                       (projects d)
                else projects d @
                  [\<lparr>pr_id = next_rowid (map pr_id (projects d)), pr_project_key = key,
                    pr_project_path = path, pr_db_path = db_path,
                    pr_created_at = now, pr_last_seen_at = now\<rparr>])
      in if projects_ok ps then (Inr (), d\<lparr>projects := ps\<rparr>) else (Inl constraint_error, d))"

section \<open>Facts about rows and statements\<close>

lemma has_status_unique: "has_status s r \<Longrightarrow> has_status t r \<longleftrightarrow> s = t"
  by (auto simp: has_status_def)

lemma has_status_update [simp]: "has_status s (r\<lparr>jr_status := as_db t\<rparr>) \<longleftrightarrow> s = t"
  by (auto simp: has_status_def)

lemma job_check_has_status: "job_check r \<Longrightarrow> \<exists>s. has_status s r"
  by (auto simp: job_check_def check_columns_def has_status_def)

lemma fold_max_ge: "x \<in> set is \<Longrightarrow> x \<le> fold max is (a::int)" and fold_max_init: "a \<le> fold max is a"
proof -
  have *: "a \<le> fold max js a" for a :: int and js
  proof (induction js arbitrary: a)
    case Nil
    then show ?case by simp
  next
    case (Cons j js)
    have "a \<le> max j a" by simp
    also have "\<dots> \<le> fold max js (max j a)" by (rule Cons.IH)
    finally show ?case by simp
  qed
  then show "a \<le> fold max is a" .
  show "x \<in> set is \<Longrightarrow> x \<le> fold max is a"
  proof (induction "is" arbitrary: a)
    case Nil
    then show ?case by simp
  next
    case (Cons i "is")
    show ?case
    proof (cases "x = i")
      case True
      have "i \<le> max i a" by simp
      also have "\<dots> \<le> fold max is (max i a)" by (rule *)
      finally show ?thesis using True by simp
    next
      case False
      then show ?thesis using Cons by simp
    qed
  qed
qed

lemma next_rowid_fresh: "next_rowid is \<notin> set is"
proof
  assume "next_rowid is \<in> set is"
  from fold_max_ge [OF this, of 0] show False by (simp add: next_rowid_def)
qed

lemma next_rowid_pos: "0 < next_rowid is"
  using fold_max_init [of 0 "is"] by (simp add: next_rowid_def)

lemma schema_okD:
  assumes "schema_ok d"
  shows "distinct (map jr_id (jobs d))" "\<And>r. r \<in> set (jobs d) \<Longrightarrow> job_check r"
    "distinct (map pr_id (projects d))"
    "\<And>r. r \<in> set (jobs d) \<Longrightarrow> jr_project_id r \<in> pr_id ` set (projects d)"
    "\<And>r i. r \<in> set (jobs d) \<Longrightarrow> jr_superseded_by r = Some i \<Longrightarrow> i \<in> jr_id ` set (jobs d)"
  using assms
  by (fastforce simp: schema_ok_def jobs_ok_def projects_ok_def foreign_keys_ok_def list_all_iff
      split: option.splits)+

lemma schema_ok_empty: "schema_ok empty_db"
  by (simp add: schema_ok_def empty_db_def projects_ok_def jobs_ok_def jobs_one_pending_def
      jobs_one_executing_def foreign_keys_ok_def)

lemma find_job_mem: "find_job i d = Some r \<Longrightarrow> r \<in> set (jobs d) \<and> jr_id r = i"
  unfolding find_job_def by (drule find_Some_iff_mem) simp

lemma find_job_row: "schema_ok d \<Longrightarrow> r \<in> set (jobs d) \<Longrightarrow> find_job (jr_id r) d = Some r"
  unfolding find_job_def by (rule find_key) (auto dest: schema_okD)

lemma find_project_of_job:
  assumes "schema_ok d" "r \<in> set (jobs d)"
  shows "\<exists>p. find_project (jr_project_id r) d = Some p \<and> pr_id p = jr_project_id r"
proof -
  from schema_okD(4) [OF assms] obtain p where "p \<in> set (projects d)" "pr_id p = jr_project_id r"
    by auto
  then show ?thesis
    using find_key [of pr_id "projects d" p] schema_okD(3) [OF assms(1)]
    by (auto simp: find_project_def)
qed

lemma schema_ok_jobs_update: "schema_ok d \<Longrightarrow> jobs_ok (projects d) rs \<Longrightarrow> schema_ok (d\<lparr>jobs := rs\<rparr>)"
  by (simp add: schema_ok_def)

lemma update_jobs_schema: "schema_ok d \<Longrightarrow> update_jobs P f d = (r, d') \<Longrightarrow> schema_ok d'"
  by (auto simp: update_jobs_def Let_def schema_ok_jobs_update split: if_splits)

lemma insert_job_schema: "schema_ok d \<Longrightarrow> insert_job row d = (r, d') \<Longrightarrow> schema_ok d'"
  by (auto simp: insert_job_def Let_def schema_ok_jobs_update split: if_splits)

lemma find_update_where:
  assumes "\<And>r. k (f r) = k r"
  shows "find (\<lambda>r. k r = i) (update_where P f rs) =
    map_option (\<lambda>r. if P r then f r else r) (find (\<lambda>r. k r = i) rs)"
  using assms by (induction rs) (auto simp: update_where_def)

lemma foreign_keys_ok_update:
  assumes "foreign_keys_ok ps rs" "\<And>r. jr_id (f r) = jr_id r" "\<And>r. jr_project_id (f r) = jr_project_id r"
    and "\<And>r. r \<in> set rs \<Longrightarrow> P r \<Longrightarrow>
      (case jr_superseded_by (f r) of None \<Rightarrow> True | Some i \<Rightarrow> i \<in> jr_id ` set rs)"
  shows "foreign_keys_ok ps (update_where P f rs)"
proof -
  let ?rs = "update_where P f rs"
  have ids: "set (map jr_id ?rs) = set (map jr_id rs)"
    by (simp only: map_update_where [of jr_id f, OF assms(2)])
  have "jr_project_id r \<in> set (map pr_id ps) \<and>
      (case jr_superseded_by r of None \<Rightarrow> True | Some i \<Rightarrow> i \<in> set (map jr_id ?rs))"
    if "r \<in> set ?rs" for r
  proof -
    from that obtain q where q: "q \<in> set rs" "r = (if P q then f q else q)"
      by (auto simp: set_update_where)
    have old: "jr_project_id q \<in> set (map pr_id ps)"
        "case jr_superseded_by q of None \<Rightarrow> True | Some i \<Rightarrow> i \<in> set (map jr_id rs)"
      using assms(1) q(1) unfolding foreign_keys_ok_def list_all_iff by blast+
    show ?thesis
    proof (cases "P q")
      case True
      then have "case jr_superseded_by r of None \<Rightarrow> True | Some i \<Rightarrow> i \<in> set (map jr_id rs)"
        using assms(4) [of q] q unfolding list.set_map by simp
      with True q old(1) show ?thesis unfolding ids by (simp del: list.set_map add: assms(3))
    next
      case False
      with q old show ?thesis unfolding ids by (simp del: list.set_map)
    qed
  qed
  then show ?thesis unfolding foreign_keys_ok_def list_all_iff by blast
qed

text \<open>
  An update that rewrites rows inside the schema and puts no second row under a pending or an
  executing key is accepted by the constraints.
\<close>

lemma jobs_ok_update:
  assumes ok: "jobs_ok ps rs"
    and id: "\<And>r. jr_id (f r) = jr_id r" and key: "\<And>r. job_key (f r) = job_key r"
    and check: "\<And>r. r \<in> set rs \<Longrightarrow> P r \<Longrightarrow> job_check (f r)"
    and sup: "\<And>r. r \<in> set rs \<Longrightarrow> P r \<Longrightarrow>
      (case jr_superseded_by (f r) of None \<Rightarrow> True | Some i \<Rightarrow> i \<in> jr_id ` set rs)"
    and pend: "\<And>r r'. r \<in> set rs \<Longrightarrow> r' \<in> set rs \<Longrightarrow> P r \<Longrightarrow> has_status Pending (f r) \<Longrightarrow>
      job_key r = job_key r' \<Longrightarrow> has_status Pending (if P r' then f r' else r') \<Longrightarrow> jr_id r = jr_id r'"
    and exec: "\<And>r r'. r \<in> set rs \<Longrightarrow> r' \<in> set rs \<Longrightarrow> P r \<Longrightarrow> is_executing (f r) \<Longrightarrow>
      job_key r = job_key r' \<Longrightarrow> is_executing (if P r' then f r' else r') \<Longrightarrow> jr_id r = jr_id r'"
  shows "jobs_ok ps (update_where P f rs)"
proof -
  let ?u = "\<lambda>r. if P r then f r else r"
  have dist: "distinct (map jr_id rs)" using ok by (simp add: jobs_ok_def)
  have dist': "distinct (map jr_id (update_where P f rs))"
    using dist by (simp add: map_update_where [of jr_id, OF id])
  have keyu: "job_key (?u r) = job_key r" "jr_id (?u r) = jr_id r" for r
    by (simp_all add: key id)
  have uniq: "distinct (map job_key (filter S (update_where P f rs)))"
    if old: "distinct (map job_key (filter S rs))"
      and new: "\<And>r r'. r \<in> set rs \<Longrightarrow> r' \<in> set rs \<Longrightarrow> P r \<Longrightarrow> S (f r) \<Longrightarrow>
        job_key r = job_key r' \<Longrightarrow> S (?u r') \<Longrightarrow> jr_id r = jr_id r'" for S
  proof -
    have "jr_id (?u r) = jr_id (?u r')"
      if "r \<in> set rs" "r' \<in> set rs" "S (?u r)" "S (?u r')" "job_key (?u r) = job_key (?u r')" for r r'
    proof (cases "P r")
      case True
      then show ?thesis using new [of r r'] that by (simp add: key id)
    next
      case notr: False
      show ?thesis
      proof (cases "P r'")
        case True
        then show ?thesis using new [of r' r] that notr by (simp add: key id)
      next
        case False
        then show ?thesis
          using distinct_filter_key_eq [OF old, of r r'] that notr by simp
      qed
    qed
    then have "\<forall>r \<in> set rs. \<forall>r' \<in> set rs. S (?u r) \<and> S (?u r') \<and> job_key (?u r) = job_key (?u r') \<longrightarrow>
        jr_id (?u r) = jr_id (?u r')" by blast
    then show ?thesis
      unfolding distinct_filter_iff [OF dist'] set_update_where by (simp only: ball_simps)
  qed
  have "jr_project_id (f r) = jr_project_id r" for r
    using key [of r] by (simp add: job_key_def)
  then have fk: "foreign_keys_ok ps (update_where P f rs)"
    using foreign_keys_ok_update [of ps rs f P] ok id sup by (simp add: jobs_ok_def)
  have "list_all job_check (update_where P f rs)"
    using ok check by (auto simp: jobs_ok_def list_all_iff set_update_where)
  moreover have "jobs_one_pending (update_where P f rs)"
    unfolding jobs_one_pending_def
  proof (rule uniq)
    show "distinct (map job_key (filter (has_status Pending) rs))"
      using ok by (simp add: jobs_ok_def jobs_one_pending_def)
  qed (rule pend)
  moreover have "jobs_one_executing (update_where P f rs)"
    unfolding jobs_one_executing_def
  proof (rule uniq)
    show "distinct (map job_key (filter is_executing rs))"
      using ok by (simp add: jobs_ok_def jobs_one_executing_def)
  qed (rule exec)
  ultimately show ?thesis
    using dist' fk by (simp add: jobs_ok_def)
qed

text \<open>Appending a row under a fresh rowid.\<close>

lemma jobs_ok_insert:
  assumes ok: "jobs_ok ps rs" and id: "jr_id r = next_rowid (map jr_id rs)"
    and check: "job_check r" and proj: "jr_project_id r \<in> pr_id ` set ps"
    and sup: "\<And>i. jr_superseded_by r = Some i \<Longrightarrow> i \<in> jr_id ` set rs"
    and pend: "has_status Pending r \<Longrightarrow> (\<And>r'. r' \<in> set rs \<Longrightarrow> has_status Pending r' \<Longrightarrow> job_key r' \<noteq> job_key r)"
    and exec: "\<not> is_executing r"
  shows "jobs_ok ps (rs @ [r])"
proof -
  have "jr_id r \<notin> set (map jr_id rs)" using id next_rowid_fresh by metis
  then have "distinct (map jr_id (rs @ [r]))" using ok by (auto simp: jobs_ok_def)
  moreover have "jobs_one_pending (rs @ [r])"
  proof (cases "has_status Pending r")
    case True
    then have "job_key r \<notin> job_key ` set (filter (has_status Pending) rs)"
      using pend by force
    with True ok show ?thesis by (simp add: jobs_ok_def jobs_one_pending_def)
  next
    case False
    with ok show ?thesis by (simp add: jobs_ok_def jobs_one_pending_def)
  qed
  moreover have "jobs_one_executing (rs @ [r])"
    using ok exec by (simp add: jobs_ok_def jobs_one_executing_def)
  moreover have "foreign_keys_ok ps (rs @ [r])"
    using ok proj sup by (fastforce simp: jobs_ok_def foreign_keys_ok_def list_all_iff split: option.splits)
  ultimately show ?thesis
    using ok check by (simp add: jobs_ok_def)
qed

end
