(* ===== verification/Paths.thy ===== *)
theory Paths
  imports Prelude
begin

text \<open>
  The part of the standard library's path and string functions the program relies on, for the
  platforms on which the separator is a slash: splitting and joining strings, the component view
  of a path, its file name, parent and extension.  The lemmas relate splitting and joining and say
  when the component view of a path consists of plain names only.
\<close>

section \<open>Splitting and joining\<close>

fun split_on :: "'c \<Rightarrow> 'c list \<Rightarrow> 'c list list" where
  "split_on c [] = [[]]"
| "split_on c (x # xs) =
     (if x = c then [] # split_on c xs
      else (case split_on c xs of [] \<Rightarrow> [[x]] | p # ps \<Rightarrow> (x # p) # ps))"

fun join_with :: "'c list \<Rightarrow> 'c list list \<Rightarrow> 'c list" where
  "join_with sep [] = []"
| "join_with sep [p] = p"
| "join_with sep (p # q # ps) = p @ sep @ join_with sep (q # ps)"

definition starts_with :: "'c list \<Rightarrow> 'c list \<Rightarrow> bool" where
  "starts_with p s \<longleftrightarrow> take (length p) s = p"

definition ends_with :: "'c list \<Rightarrow> 'c list \<Rightarrow> bool" where
  "ends_with p s \<longleftrightarrow> starts_with (rev p) (rev s)"

definition strip_prefix :: "'c list \<Rightarrow> 'c list \<Rightarrow> 'c list option" where
  "strip_prefix p s = (if starts_with p s then Some (drop (length p) s) else None)"

definition strip_suffix :: "'c list \<Rightarrow> 'c list \<Rightarrow> 'c list option" where
  "strip_suffix p s = (if ends_with p s then Some (take (length s - length p) s) else None)"

lemma split_on_nonempty [simp]: "split_on c xs \<noteq> []"
  by (induction xs) (auto split: list.splits)

lemma join_split_on: "join_with [c] (split_on c xs) = xs"
proof (induction xs)
  case Nil
  then show ?case by simp
next
  case (Cons x xs)
  then show ?case
    by (cases "split_on c xs" rule: list.exhaust; cases "tl (split_on c xs)") auto
qed

lemma split_on_no_sep: "p \<in> set (split_on c xs) \<Longrightarrow> c \<notin> set p"
  by (induction xs arbitrary: p) (auto split: if_splits list.splits)

lemma split_on_id: "c \<notin> set xs \<Longrightarrow> split_on c xs = [xs]"
  by (induction xs) auto

lemma split_on_append_sep: "c \<notin> set p \<Longrightarrow> split_on c (p @ c # xs) = p # split_on c xs"
  by (induction p) auto

lemma split_on_join:
  "ps \<noteq> [] \<Longrightarrow> (\<forall>p \<in> set ps. c \<notin> set p) \<Longrightarrow> split_on c (join_with [c] ps) = ps"
  by (induction "[c]" ps rule: join_with.induct) (auto simp: split_on_id split_on_append_sep)

lemma starts_with_append: "starts_with p s \<longleftrightarrow> (\<exists>t. s = p @ t)"
  unfolding starts_with_def by (metis append_eq_conv_conj append_take_drop_id)

lemma ends_with_append: "ends_with p s \<longleftrightarrow> (\<exists>t. s = t @ p)"
  unfolding ends_with_def starts_with_append by (metis rev_append rev_rev_ident)

lemma strip_prefix_Some: "strip_prefix p s = Some t \<longleftrightarrow> s = p @ t"
  by (auto simp: strip_prefix_def starts_with_append)

lemma strip_suffix_Some: "strip_suffix p s = Some t \<longleftrightarrow> s = t @ p"
  by (auto simp: strip_suffix_def ends_with_append)

section \<open>Path components\<close>

datatype component = RootDir | CurDir | ParentDir | Normal string

definition is_absolute :: "string \<Rightarrow> bool" where
  "is_absolute s \<longleftrightarrow> starts_with ''/'' s"

text \<open>Empty pieces and later dots are dropped; a leading dot of a relative path is kept.\<close>

definition piece_component :: "string \<Rightarrow> component option" where
  "piece_component p =
     (if p = [] \<or> p = ''.'' then None else if p = ''..'' then Some ParentDir else Some (Normal p))"

definition path_components :: "string \<Rightarrow> component list" where
  "path_components s =
     (let ps = split_on CHR ''/'' s in
      if is_absolute s then RootDir # List.map_filter piece_component ps
      else (if hd ps = ''.'' then CurDir # List.map_filter piece_component (tl ps)
            else List.map_filter piece_component ps))"

definition file_name :: "component list \<Rightarrow> string option" where
  "file_name cs = (if cs = [] then None else (case last cs of Normal n \<Rightarrow> Some n | _ \<Rightarrow> None))"

text \<open>The text after the last dot of the file name, unless that dot is its first character.\<close>

definition split_last :: "'c \<Rightarrow> 'c list \<Rightarrow> ('c list \<times> 'c list) option" where
  "split_last c s =
     (if c \<in> set s
      then Some (rev (tl (dropWhile (\<lambda>x. x \<noteq> c) (rev s))), rev (takeWhile (\<lambda>x. x \<noteq> c) (rev s)))
      else None)"

definition path_extension :: "string \<Rightarrow> string option" where
  "path_extension s =
     (case file_name (path_components s) of None \<Rightarrow> None
      | Some n \<Rightarrow>
          (case split_last CHR ''.'' n of None \<Rightarrow> None
           | Some (before, after) \<Rightarrow> if before = [] then None else Some after))"

fun component_text :: "component \<Rightarrow> string" where
  "component_text RootDir = []"
| "component_text CurDir = ''.''"
| "component_text ParentDir = ''..''"
| "component_text (Normal n) = n"

definition render_path :: "component list \<Rightarrow> string" where
  "render_path cs = (if cs = [RootDir] then ''/'' else join_with ''/'' (map component_text cs))"

definition path_push :: "string \<Rightarrow> string \<Rightarrow> string" where
  "path_push base name = (if ends_with ''/'' base then base @ name else base @ ''/'' @ name)"

definition ascii_lower :: "char \<Rightarrow> char" where
  "ascii_lower c =
     (let n = of_char c :: nat in if 65 \<le> n \<and> n \<le> 90 then char_of (n + 32) else c)"

lemma split_last_Some:
  "split_last c s = Some (a, b) \<Longrightarrow> s = a @ c # b \<and> c \<notin> set b"
proof -
  assume "split_last c s = Some (a, b)"
  then have c: "c \<in> set s"
    and a: "a = rev (tl (dropWhile (\<lambda>x. x \<noteq> c) (rev s)))"
    and b: "b = rev (takeWhile (\<lambda>x. x \<noteq> c) (rev s))"
    by (auto simp: split_last_def split: if_splits)
  let ?d = "dropWhile (\<lambda>x. x \<noteq> c) (rev s)"
  have ne: "?d \<noteq> []" using c by (simp add: dropWhile_eq_Nil_conv)
  have hd: "hd ?d = c" using hd_dropWhile [OF ne] by simp
  have "rev s = takeWhile (\<lambda>x. x \<noteq> c) (rev s) @ ?d" by simp
  also have "?d = c # tl ?d" using ne hd by (metis list.collapse)
  finally have "s = rev (tl ?d) @ c # rev (takeWhile (\<lambda>x. x \<noteq> c) (rev s))"
    by (metis append.assoc append_Cons append_Nil rev.simps(2) rev_append rev_rev_ident)
  moreover have "c \<notin> set b" using b by (auto dest: set_takeWhileD)
  ultimately show ?thesis using a b by simp
qed

lemma map_filter_pieces_normal:
  assumes "\<forall>p \<in> set ps. p \<noteq> [] \<and> p \<noteq> ''.'' \<and> p \<noteq> ''..''"
  shows "List.map_filter piece_component ps = map Normal ps"
  using assms by (induction ps) (auto simp: piece_component_def List.map_filter_simps)

text \<open>Joining plain names gives a relative path with exactly those components.\<close>

lemma path_components_join:
  assumes "ps \<noteq> []" "\<forall>p \<in> set ps. p \<noteq> [] \<and> p \<noteq> ''.'' \<and> p \<noteq> ''..'' \<and> CHR ''/'' \<notin> set p"
  shows "path_components (join_with ''/'' ps) = map Normal ps"
proof -
  have split: "split_on CHR ''/'' (join_with ''/'' ps) = ps"
    using assms by (intro split_on_join) auto
  obtain p rest where ps: "ps = p # rest" using assms(1) by (cases ps) auto
  obtain x p' where p: "p = x # p'" "x \<noteq> CHR ''/''" using assms(2) ps by (cases p) auto
  have "\<not> is_absolute (join_with ''/'' ps)"
    using p ps by (cases rest) (auto simp: is_absolute_def starts_with_def)
  moreover have "List.map_filter piece_component ps = map Normal ps"
    using assms(2) by (intro map_filter_pieces_normal) blast
  moreover have "hd ps \<noteq> ''.''" using assms by auto
  ultimately show ?thesis
    by (simp only: path_components_def split Let_def if_False)
qed

end
