(* ===== verification/SortBy.thy ===== *)
theory SortBy
  imports Prelude
begin

text \<open>
  A stable insertion sort by a comparison, the reference for the ORDER BY clauses and the sorts of
  the program, and the contract of the comparisons: a total preorder, under which the result is
  sorted and its first element is a least one.
\<close>

fun insert_by :: "('r \<Rightarrow> 'r \<Rightarrow> bool) \<Rightarrow> 'r \<Rightarrow> 'r list \<Rightarrow> 'r list" where
  "insert_by le x [] = [x]"
| "insert_by le x (y # ys) = (if le x y then x # y # ys else y # insert_by le x ys)"

fun sort_by :: "('r \<Rightarrow> 'r \<Rightarrow> bool) \<Rightarrow> 'r list \<Rightarrow> 'r list" where
  "sort_by le [] = []"
| "sort_by le (x # xs) = insert_by le x (sort_by le xs)"

lemma set_insert_by [simp]: "set (insert_by le x xs) = insert x (set xs)"
  by (induction xs) auto

lemma set_sort_by [simp]: "set (sort_by le xs) = set xs"
  by (induction xs) auto

lemma length_sort_by [simp]: "length (sort_by le xs) = length xs"
proof -
  have "length (insert_by le x ys) = Suc (length ys)" for x and ys :: "'a list"
    by (induction ys) auto
  then show ?thesis by (induction xs) auto
qed

lemma sort_by_empty [simp]: "sort_by le xs = [] \<longleftrightarrow> xs = []"
  using length_sort_by [of le xs] by (metis length_0_conv)

locale total_preorder =
  fixes le :: "'r \<Rightarrow> 'r \<Rightarrow> bool"
  assumes total: "le a b \<or> le b a"
    and transitive: "le a b \<Longrightarrow> le b c \<Longrightarrow> le a c"
begin

lemma sorted_insert_by: "sorted_wrt le ys \<Longrightarrow> sorted_wrt le (insert_by le x ys)"
proof (induction ys)
  case Nil
  then show ?case by simp
next
  case (Cons y ys)
  show ?case
  proof (cases "le x y")
    case True
    then show ?thesis using Cons.prems by (auto intro: transitive)
  next
    case False
    then have "le y x" using total by blast
    then show ?thesis using Cons False by auto
  qed
qed

lemma sorted_sort_by: "sorted_wrt le (sort_by le xs)"
  by (induction xs) (auto intro: sorted_insert_by)

lemma sort_by_head:
  assumes "sort_by le xs = y # ys"
  shows "y \<in> set xs" "\<And>x. x \<in> set xs \<Longrightarrow> le y x"
proof -
  have s: "set xs = set (y # ys)" using set_sort_by [of le xs] assms by simp
  then show "y \<in> set xs" by simp
  fix x assume "x \<in> set xs"
  moreover have "sorted_wrt le (y # ys)" using sorted_sort_by [of xs] assms by simp
  ultimately show "le y x" using s total [of y y] by auto
qed

end

end
