(* ===== verification/StateStore.thy ===== *)
theory StateStore
  imports StateDb Paths SortBy
begin

text \<open>
  The operations of \<^verbatim>\<open>StateStore\<close> in \<^verbatim>\<open>remy-cc/src/state.rs\<close>, each the whole function with its
  guards, its early returns and the statements it executes: submission with deduplication and
  absorption by a pending full scan, claiming, progress, completion, cancellation, listing, the
  published provider and crash recovery.  Paths are normalised as the code does it for platforms
  with slash separators.

  What the code calls outside its own sources is the record \<open>env\<close>: the clock, the file system
  queries and the JSON text encoder.  A clock reading is nanoseconds relative to the Unix epoch.
\<close>

record env =
  clock_nanos :: int
  fs_is_dir :: "string \<Rightarrow> bool"
  fs_exists :: "string \<Rightarrow> bool"
  fs_canonicalize :: "string \<Rightarrow> string + string"
  json_to_string :: "string json_value \<Rightarrow> string + string"
  json_from_str :: "string \<Rightarrow> string + string json_value"

section \<open>Clock and paths\<close>

definition now_millis :: "env \<Rightarrow> StateError + int" where
  "now_millis e =
     (if clock_nanos e < 0 then Inl (Corrupt ''clock is before Unix epoch'')
      else let millis = clock_nanos e div 1000000 in
        if millis < 2 ^ 63 then Inr millis
        else Inl (Corrupt ''clock value exceeds SQLite INTEGER''))"

definition display_path :: "string \<Rightarrow> string" where "display_path p = p"

definition project_key :: "string \<Rightarrow> string" where "project_key p = p"

definition canonicalize :: "env \<Rightarrow> string \<Rightarrow> StateError + string" where
  "canonicalize e p = (case fs_canonicalize e p of Inl m \<Rightarrow> Inl (Io m) | Inr q \<Rightarrow> Inr q)"

definition normalize_project_filter :: "env \<Rightarrow> string \<Rightarrow> StateError + string" where
  "normalize_project_filter e value =
     (if \<not> is_absolute value then Inl (InvalidInput ''project_path filter must be absolute'')
      else res_bind
        (if fs_exists e value then res_bind (canonicalize e value) (\<lambda>p. Inr (display_path p))
         else Inr value)
        (\<lambda>normalized. Inr (project_key normalized)))"

definition normalize_existing_project :: "env \<Rightarrow> string \<Rightarrow> StateError + string" where
  "normalize_existing_project e value =
     (if \<not> is_absolute value \<or> \<not> fs_is_dir e value
      then Inl (InvalidInput ''project_path must be an existing absolute directory'')
      else res_bind (canonicalize e value) (\<lambda>p. Inr (display_path p)))"

text \<open>The loop that walks up to the nearest existing ancestor, on the reversed components.\<close>

fun existing_ancestor ::
    "env \<Rightarrow> component list \<Rightarrow> string list \<Rightarrow> StateError + (component list \<times> string list)" where
  "existing_ancestor e [] suffix =
     (if fs_exists e [] then Inr ([], suffix)
      else Inl (InvalidInput ''db_path has no existing parent''))"
| "existing_ancestor e (c # cs) suffix =
     (if fs_exists e (render_path (rev (c # cs))) then Inr (rev (c # cs), suffix)
      else (case c of
          Normal name \<Rightarrow> existing_ancestor e cs (suffix @ [name])
        | _ \<Rightarrow> Inl (InvalidInput ''db_path has no existing parent'')))"

definition normalize_database_path :: "env \<Rightarrow> string \<Rightarrow> StateError + string" where
  "normalize_database_path e value =
     (if \<not> is_absolute value then Inl (InvalidInput ''db_path must be absolute'')
      else res_bind (existing_ancestor e (rev (path_components value)) []) (\<lambda>(existing, suffix).
        res_bind (canonicalize e (render_path existing)) (\<lambda>base.
          Inr (display_path (foldl path_push base (rev suffix))))))"

definition SOURCE_EXTENSIONS :: "string list" where
  "SOURCE_EXTENSIONS =
     [''py'', ''c'', ''h'', ''cpp'', ''hpp'', ''cc'', ''cxx'', ''hh'', ''hxx'', ''ts'', ''tsx'', ''rs'']"

definition normal_part :: "component \<Rightarrow> StateError + string" where
  "normal_part c = (case c of Normal part \<Rightarrow> Inr part
     | _ \<Rightarrow> Inl (InvalidInput ''file_path may contain only normal relative components''))"

definition normalize_source_path :: "string \<Rightarrow> StateError + string" where
  "normalize_source_path value =
     (if is_absolute value \<or> value = []
      then Inl (InvalidInput ''file_path must be a non-empty relative path'')
      else res_bind (res_collect normal_part (path_components value)) (\<lambda>parts.
        let normalized = join_with ''/'' parts;
            extension = map_option (map ascii_lower) (path_extension normalized)
        in if extension \<in> Some ` set SOURCE_EXTENSIONS then Inr normalized
           else Inl (InvalidInput ''file_path has an unsupported source extension'')))"

section \<open>Loading a job\<close>

definition parse_json :: "env \<Rightarrow> string option \<Rightarrow> string \<Rightarrow> StateError + string json_value option" where
  "parse_json e value field =
     opt_transpose (\<lambda>raw. case json_from_str e raw of
         Inl m \<Rightarrow> Inl (Corrupt (''invalid '' @ field @ '': '' @ m)) | Inr v \<Rightarrow> Inr v) value"

definition row_to_job :: "env \<Rightarrow> project_row \<Rightarrow> job_row \<Rightarrow> StateError + Job" where
  "row_to_job e p r =
     res_bind (priority_from_db (jr_priority r)) (\<lambda>priority.
     res_bind (from_db (jr_status r)) (\<lambda>status.
     res_bind (parse_json e (jr_result_json r) ''result_json'') (\<lambda>result.
     res_bind (parse_json e (jr_error_json r) ''error_json'') (\<lambda>error.
       Inr \<lparr>job_id = jr_id r, job_project_id = jr_project_id r,
            job_project_path = pr_project_path p, job_target_db_path = jr_target_db_path r,
            job_job_type = jr_job_type r, job_file_path = jr_file_path r,
            job_priority = priority, job_provider = jr_provider r, job_status = status,
            job_progress_current = jr_progress_current r, job_progress_total = jr_progress_total r,
            job_progress_message = jr_progress_message r, job_result = result, job_error = error,
            job_created_at = jr_created_at r, job_started_at = jr_started_at r,
            job_finished_at = jr_finished_at r, job_superseded_by = jr_superseded_by r\<rparr>))))"

definition load_job :: "env \<Rightarrow> int \<Rightarrow> Job dbop" where
  "load_job e i = op_read (\<lambda>d.
     case find_job i d of None \<Rightarrow> Inl (NotFound i)
     | Some r \<Rightarrow> (case find_project (jr_project_id r) d of None \<Rightarrow> Inl (NotFound i)
                  | Some p \<Rightarrow> row_to_job e p r))"

section \<open>The lifecycle step\<close>

definition transition_job :: "int \<Rightarrow> JobStatus \<Rightarrow> JobStatus \<Rightarrow> int \<Rightarrow> int option \<Rightarrow> bool dbop" where
  "transition_job i from to now superseded_by =
     (let target = (\<lambda>r. jr_id r = i \<and> jr_status r = as_db from) in
      if \<not> allowed_transition from to then op_fail (InvalidTransition from to)
      else op_bind
        (if (from, to) = (Pending, Running) then
           update_jobs target (\<lambda>r. r\<lparr>jr_status := as_db to, jr_started_at := Some now\<rparr>)
         else if (from, to) = (Running, Pending) then
           update_jobs target (\<lambda>r. r\<lparr>jr_status := as_db to, jr_started_at := None,
             jr_finished_at := None, jr_progress_current := None, jr_progress_total := None,
             jr_progress_message := None\<rparr>)
         else if (from, to) = (Running, CancelRequested) then
           update_jobs target (\<lambda>r. r\<lparr>jr_status := as_db to\<rparr>)
         else if (from, to) \<in> {(Pending, Cancelled), (CancelRequested, Cancelled)} then
           update_jobs target (\<lambda>r. r\<lparr>jr_status := as_db to, jr_finished_at := Some now\<rparr>)
         else if (from, to) \<in> {(Pending, Superseded), (Running, Superseded)} then
           update_jobs target (\<lambda>r. r\<lparr>jr_status := as_db to, jr_finished_at := Some now,
             jr_superseded_by := superseded_by\<rparr>)
         else if (from, to) = (Running, Succeeded) then
           op_fail (InvalidInput ''succeeded transition requires a result payload'')
         else if (from, to) = (Running, Failed) then
           op_fail (InvalidInput ''failed transition requires an error payload'')
         else op_fail (InvalidTransition from to))
        (\<lambda>changed. op_return (changed = 1)))"

section \<open>Submission\<close>

type_synonym SubmitResult = "Job \<times> bool"

definition submit :: "env \<Rightarrow> SubmitJob \<Rightarrow> SubmitResult dbop" where
  "submit e request =
     op_bind (op_lift (normalize_existing_project e (sj_project_path request))) (\<lambda>project_path.
     let key = project_key project_path in
     op_bind (op_lift (normalize_database_path e (sj_db_path request))) (\<lambda>db_path.
     op_bind (op_lift (normalize_source_path (sj_file_path request))) (\<lambda>file_path.
     let dedupe_key = ''incremental_scan:'' @ file_path in
     op_bind (op_lift (now_millis e)) (\<lambda>now.
     transaction (
       op_bind (upsert_project key project_path db_path now) (\<lambda>_.
       op_bind (op_get (\<lambda>d. map_option pr_id (find (\<lambda>p. pr_project_key p = key) (projects d)))) (\<lambda>pid.
       case pid of
         None \<Rightarrow> op_fail (Sqlite (OtherSqliteError ''Query returned no rows''))
       | Some project_id \<Rightarrow>
         op_bind (op_get (select_job (\<lambda>r. jr_project_id r = project_id \<and>
             jr_job_type r = JOB_TYPE_FULL_SCAN \<and> jr_status r = as_db Pending))) (\<lambda>absorbing.
         case absorbing of
           Some full_scan_id \<Rightarrow>
             op_bind (insert_job
               ((new_job_row project_id JOB_TYPE_INCREMENTAL db_path file_path
                   (priority_as_db (sj_priority request)) Superseded now dedupe_key)
                 \<lparr>jr_finished_at := Some now, jr_superseded_by := Some full_scan_id\<rparr>)) (\<lambda>rowid.
             op_bind (load_job e rowid) (\<lambda>job. op_return (job, True)))
         | None \<Rightarrow>
             op_bind (op_get (select_job (\<lambda>r. jr_project_id r = project_id \<and>
                 jr_job_type r = JOB_TYPE_INCREMENTAL \<and> jr_dedupe_key r = dedupe_key \<and>
                 jr_status r = as_db Pending))) (\<lambda>existing.
             op_bind
               (case existing of
                  Some i \<Rightarrow>
                    op_bind (update_jobs (\<lambda>r. jr_id r = i)
                      (\<lambda>r. r\<lparr>jr_priority := max (jr_priority r) (priority_as_db (sj_priority request))\<rparr>))
                      (\<lambda>_. op_return (i, False))
                | None \<Rightarrow>
                    op_bind (insert_job
                      (new_job_row project_id JOB_TYPE_INCREMENTAL db_path file_path
                        (priority_as_db (sj_priority request)) Pending now dedupe_key))
                      (\<lambda>rowid. op_return (rowid, True)))
               (\<lambda>(i, created). op_bind (load_job e i) (\<lambda>job. op_return (job, created))))))))))))"

definition submit_full_scan :: "env \<Rightarrow> int \<Rightarrow> SubmitResult dbop" where
  "submit_full_scan e project_id =
     op_bind (op_lift (now_millis e)) (\<lambda>now.
     transaction (
       op_bind (op_get (find_project project_id)) (\<lambda>project.
       case project of
         None \<Rightarrow> op_fail (InvalidInput (''project '' @ int_to_string project_id @ '' is not registered''))
       | Some p \<Rightarrow>
         op_bind (op_get (select_job (\<lambda>r. jr_project_id r = project_id \<and>
             jr_job_type r = JOB_TYPE_FULL_SCAN \<and>
             jr_status r \<in> {as_db Pending, as_db Running, as_db CancelRequested}))) (\<lambda>existing.
         case existing of
           Some i \<Rightarrow> op_bind (load_job e i) (\<lambda>job. op_return (job, False))
         | None \<Rightarrow>
             op_bind (insert_job (new_job_row project_id JOB_TYPE_FULL_SCAN (pr_db_path p) ''.'' 0
               Pending now FULL_SCAN_DEDUPE_KEY)) (\<lambda>full_scan_id.
             op_bind (update_jobs (\<lambda>r. jr_project_id r = project_id \<and>
                 jr_job_type r = JOB_TYPE_INCREMENTAL \<and> jr_status r = as_db Pending)
               (\<lambda>r. r\<lparr>jr_status := as_db Superseded, jr_finished_at := Some now,
                      jr_superseded_by := Some full_scan_id\<rparr>)) (\<lambda>_.
             op_bind (load_job e full_scan_id) (\<lambda>job. op_return (job, True))))))))"

section \<open>Queries and the published provider\<close>

definition get :: "env \<Rightarrow> int \<Rightarrow> Job dbop" where
  "get e i = load_job e i"

definition project_ids :: "int list dbop" where
  "project_ids = op_get (\<lambda>d. sort (map pr_id (projects d)))"

definition published_provider :: "PublishedProvider option dbop" where
  "published_provider = op_get published"

definition publish_provider :: "env \<Rightarrow> string \<Rightarrow> string \<Rightarrow> string \<Rightarrow> PublishedProvider dbop" where
  "publish_provider e provider daemon_version probe_summary =
     (if provider \<noteq> PROVIDER_RUST
      then op_fail (InvalidInput (''unsupported provider '' @ provider))
      else op_bind (op_lift (now_millis e)) (\<lambda>now d.
        let row = \<lparr>pp_provider = provider, pp_daemon_version = daemon_version,
                   pp_verified_at = now, pp_probe_summary = probe_summary\<rparr>
        in if provider_check row then (Inr row, d\<lparr>published := Some row\<rparr>)
           else (Inl constraint_error, d)))"

text \<open>Rows in descending order of creation time and id.\<close>

definition newest_first :: "job_row \<Rightarrow> job_row \<Rightarrow> bool" where
  "newest_first a b \<longleftrightarrow> jr_created_at b < jr_created_at a \<or>
     (jr_created_at a = jr_created_at b \<and> jr_id b \<le> jr_id a)"

definition list_rows :: "string option \<Rightarrow> string option \<Rightarrow> string option \<Rightarrow> string option \<Rightarrow> nat \<Rightarrow> db \<Rightarrow> int list" where
  "list_rows key file_path status job_type limit d =
     map jr_id (take limit (sort_by newest_first
       (filter (\<lambda>r. case find_project (jr_project_id r) d of None \<Rightarrow> False
          | Some p \<Rightarrow> (key = None \<or> key = Some (pr_project_key p)) \<and>
              (file_path = None \<or> file_path = Some (jr_file_path r)) \<and>
              (status = None \<or> status = Some (jr_status r)) \<and>
              (job_type = None \<or> job_type = Some (jr_job_type r))) (jobs d))))"

definition clamp_limit :: "nat \<Rightarrow> nat" where
  "clamp_limit n = max 1 (min 200 n)"

definition list_jobs :: "env \<Rightarrow> ListJobs \<Rightarrow> Job list dbop" where
  "list_jobs e flt = op_read (\<lambda>d.
     let limit = clamp_limit (lj_limit flt) in
     res_bind (opt_transpose (normalize_project_filter e) (lj_project_path flt)) (\<lambda>key.
     res_bind (opt_transpose normalize_source_path (lj_file_path flt)) (\<lambda>file_path.
     let status = map_option as_db (lj_status flt); job_type = lj_job_type flt in
     if job_type \<notin> {None, Some JOB_TYPE_INCREMENTAL, Some JOB_TYPE_FULL_SCAN}
     then Inl (InvalidInput (''unsupported job_type '' @ the job_type))
     else res_collect (\<lambda>i. fst (load_job e i d)) (list_rows key file_path status job_type limit d))))"

definition default_list :: ListJobs where
  "default_list = \<lparr>lj_project_path = None, lj_file_path = None, lj_status = None,
     lj_job_type = None, lj_limit = 0\<rparr>"

definition recent_failed :: "env \<Rightarrow> nat \<Rightarrow> Job list dbop" where
  "recent_failed e limit =
     list_jobs e (default_list\<lparr>lj_status := Some Failed, lj_limit := clamp_limit limit\<rparr>)"

section \<open>Claiming, progress and completion\<close>

definition promote :: "env \<Rightarrow> int \<Rightarrow> JobPriority \<Rightarrow> (Job \<times> bool) dbop" where
  "promote e i priority =
     op_bind (update_jobs
       (\<lambda>r. jr_id r = i \<and> jr_status r = as_db Pending \<and> jr_priority r < priority_as_db priority)
       (\<lambda>r. r\<lparr>jr_priority := max (jr_priority r) (priority_as_db priority)\<rparr>)) (\<lambda>n.
     op_bind (get e i) (\<lambda>job. op_return (job, n = 1)))"

definition claimable :: "db \<Rightarrow> job_row \<Rightarrow> bool" where
  "claimable d j \<longleftrightarrow> jr_status j = as_db Pending \<and>
     \<not> (\<exists>active \<in> set (jobs d). jr_project_id active = jr_project_id j \<and>
         jr_job_type active = jr_job_type j \<and> jr_dedupe_key active = jr_dedupe_key j \<and>
         jr_status active \<in> {as_db Running, as_db CancelRequested})"

definition claim_order :: "job_row \<Rightarrow> job_row \<Rightarrow> bool" where
  "claim_order a b \<longleftrightarrow> jr_priority b < jr_priority a \<or>
     (jr_priority a = jr_priority b \<and>
        (jr_created_at a < jr_created_at b \<or>
           (jr_created_at a = jr_created_at b \<and> jr_id a \<le> jr_id b)))"

definition next_claim :: "db \<Rightarrow> int option" where
  "next_claim d =
     (case sort_by claim_order (filter (claimable d) (jobs d)) of [] \<Rightarrow> None | j # _ \<Rightarrow> Some (jr_id j))"

definition claim_next_pending :: "env \<Rightarrow> string \<Rightarrow> Job option dbop" where
  "claim_next_pending e provider =
     (if provider \<noteq> PROVIDER_RUST
      then op_fail (InvalidInput (''unsupported provider '' @ provider))
      else op_bind (op_lift (now_millis e)) (\<lambda>now.
      transaction (
        op_bind (op_get next_claim) (\<lambda>next.
        case next of
          None \<Rightarrow> op_return None
        | Some i \<Rightarrow>
          op_bind (transition_job i Pending Running now None) (\<lambda>changed.
          if \<not> changed
          then op_fail (Corrupt (''pending job '' @ int_to_string i @ '' changed during claim''))
          else op_bind (update_jobs (\<lambda>r. jr_id r = i)
              (\<lambda>r. r\<lparr>jr_provider := provider, jr_progress_current := Some 0,
                     jr_progress_total := Some 3,
                     jr_progress_message := Some ''runtime_validation''\<rparr>)) (\<lambda>_.
            op_bind (load_job e i) (\<lambda>job. op_return (Some job))))))))"

definition update_progress :: "env \<Rightarrow> int \<Rightarrow> ProgressUpdate \<Rightarrow> Job dbop" where
  "update_progress e i update =
     (if pu_current update < 0 \<or> pu_total update < 0 \<or> pu_total update < pu_current update
      then op_fail (InvalidInput ''progress must satisfy 0 <= current <= total'')
      else op_bind (update_jobs
          (\<lambda>r. jr_id r = i \<and> jr_status r \<in> {as_db Running, as_db CancelRequested} \<and>
               (case jr_progress_current r of None \<Rightarrow> True | Some c \<Rightarrow> c \<le> pu_current update))
          (\<lambda>r. r\<lparr>jr_progress_current := Some (pu_current update),
                 jr_progress_total := Some (pu_total update),
                 jr_progress_message := Some (pu_message update)\<rparr>)) (\<lambda>changed.
        if changed \<noteq> 1
        then op_bind (get e i) (\<lambda>current.
               op_fail (InvalidTransition (job_status current) (job_status current)))
        else get e i))"

definition complete :: "env \<Rightarrow> int \<Rightarrow> JobStatus \<Rightarrow> string json_value \<Rightarrow> Job dbop" where
  "complete e i status payload =
     (if status \<notin> {Succeeded, Failed}
      then op_fail (InvalidInput ''completion status must be succeeded or failed'')
      else op_bind (op_lift (now_millis e)) (\<lambda>now.
      op_bind (op_lift (case json_to_string e payload of Inl m \<Rightarrow> Inl (InvalidInput m) | Inr t \<Rightarrow> Inr t)) (\<lambda>encoded.
      transaction (
        op_bind (load_job e i) (\<lambda>current.
        if job_status current \<noteq> Running
        then op_fail (InvalidTransition (job_status current) status)
        else
          let result = (if status = Succeeded then Some encoded else None);
              error = (if status = Succeeded then None else Some encoded)
          in op_bind (update_jobs (\<lambda>r. jr_id r = i \<and> jr_status r = as_db Running)
              (\<lambda>r. r\<lparr>jr_status := as_db status, jr_progress_current := Some 3,
                     jr_progress_total := Some 3, jr_progress_message := Some ''finalizing'',
                     jr_result_json := result, jr_error_json := error,
                     jr_finished_at := Some now\<rparr>)) (\<lambda>changed.
            if changed \<noteq> 1
            then op_fail (Corrupt (''running job '' @ int_to_string i @ '' changed during completion''))
            else load_job e i))))))"

definition complete_success :: "env \<Rightarrow> int \<Rightarrow> string json_value \<Rightarrow> Job dbop" where
  "complete_success e i result = complete e i Succeeded result"

definition complete_failure :: "env \<Rightarrow> int \<Rightarrow> string json_value \<Rightarrow> Job dbop" where
  "complete_failure e i error = complete e i Failed error"

section \<open>Cancellation and recovery\<close>

definition confirm_cancelled :: "env \<Rightarrow> int \<Rightarrow> Job dbop" where
  "confirm_cancelled e i =
     op_bind (op_lift (now_millis e)) (\<lambda>now.
     transaction (
       op_bind (load_job e i) (\<lambda>current.
       if job_status current \<noteq> CancelRequested
       then op_fail (InvalidTransition (job_status current) Cancelled)
       else op_bind (transition_job i CancelRequested Cancelled now None) (\<lambda>_. load_job e i))))"

definition cancel :: "env \<Rightarrow> int \<Rightarrow> (Job \<times> bool) dbop" where
  "cancel e i =
     op_bind (op_lift (now_millis e)) (\<lambda>now.
     transaction (
       op_bind (load_job e i) (\<lambda>current.
       op_bind
         (case job_status current of
            Pending \<Rightarrow> transition_job i Pending Cancelled now None
          | Running \<Rightarrow> transition_job i Running CancelRequested now None
          | CancelRequested \<Rightarrow> op_return False
          | Cancelled \<Rightarrow> op_return False
          | s \<Rightarrow> op_fail (NotCancellable s))
         (\<lambda>changed. op_bind (load_job e i) (\<lambda>job. op_return (job, changed))))))"

text \<open>One iteration of each loop of the recovery, then the loops over the selected rows.\<close>

definition recover_running :: "int \<Rightarrow> job_row \<Rightarrow> RecoveryReport \<Rightarrow> RecoveryReport dbop" where
  "recover_running now r report =
     op_bind (op_get (select_job (\<lambda>s. jr_project_id s = jr_project_id r \<and>
         jr_job_type s = jr_job_type r \<and> jr_dedupe_key s = jr_dedupe_key r \<and>
         jr_status s = as_db Pending))) (\<lambda>successor.
     case successor of
       Some successor_id \<Rightarrow>
         op_bind (transition_job (jr_id r) Running Superseded now (Some successor_id)) (\<lambda>changed.
           op_return (if changed then report\<lparr>superseded := superseded report + 1\<rparr> else report))
     | None \<Rightarrow>
         op_bind (transition_job (jr_id r) Running Pending now None) (\<lambda>changed.
           op_return (if changed then report\<lparr>requeued := requeued report + 1\<rparr> else report)))"

definition recover_cancelled :: "int \<Rightarrow> job_row \<Rightarrow> RecoveryReport \<Rightarrow> RecoveryReport dbop" where
  "recover_cancelled now r report =
     op_bind (transition_job (jr_id r) CancelRequested Cancelled now None) (\<lambda>changed.
       op_return (if changed then report\<lparr>cancelled := cancelled report + 1\<rparr> else report))"

fun for_rows :: "('r \<Rightarrow> 'a \<Rightarrow> 'a dbop) \<Rightarrow> 'r list \<Rightarrow> 'a \<Rightarrow> 'a dbop" where
  "for_rows body [] acc = op_return acc"
| "for_rows body (r # rs) acc = op_bind (body r acc) (for_rows body rs)"

definition recover :: "env \<Rightarrow> RecoveryReport dbop" where
  "recover e =
     op_bind (op_lift (now_millis e)) (\<lambda>now.
     transaction (
       op_bind (op_get (\<lambda>d. filter (\<lambda>r. jr_status r = as_db Running) (jobs d))) (\<lambda>running.
       op_bind (for_rows (recover_running now) running \<lparr>requeued = 0, cancelled = 0, superseded = 0\<rparr>) (\<lambda>report.
       op_bind (op_get (\<lambda>d. filter (\<lambda>r. jr_status r = as_db CancelRequested) (jobs d))) (\<lambda>cancelling.
       for_rows (recover_cancelled now) cancelling report)))))"

end
