(* ===== verification/StateLifecycle.thy ===== *)
theory StateLifecycle
  imports StateStore
begin

text \<open>
  Every operation of the state store moves every job along its lifecycle and nothing else: rows
  are never deleted or reordered, the identity of a job (project, type, file, target, creation
  time) never changes, priorities never drop, and a status only moves along allowed transitions.

  The relation \<open>evolves\<close> states this for a whole database.  \<open>op_evolves\<close> lifts it to operations,
  with one rule per combinator, so each operation of the store is a short derivation.  The locale
  \<open>lifecycle_store\<close> is what a client of the store relies on; it is interpreted on all operations
  of the store at once.
\<close>

section \<open>Evolution of rows and databases\<close>

definition row_evolves :: "job_row \<Rightarrow> job_row \<Rightarrow> bool" where
  "row_evolves r r' \<longleftrightarrow>
     jr_id r' = jr_id r \<and> job_key r' = job_key r \<and>
     jr_target_db_path r' = jr_target_db_path r \<and> jr_file_path r' = jr_file_path r \<and>
     jr_created_at r' = jr_created_at r \<and> jr_priority r \<le> jr_priority r' \<and>
     (\<forall>s. has_status s r \<longrightarrow> (\<exists>s'. has_status s' r' \<and> lifecycle s s'))"

definition evolves :: "db \<Rightarrow> db \<Rightarrow> bool" where
  "evolves d d' \<longleftrightarrow> (\<exists>rs new. jobs d' = rs @ new \<and> list_all2 row_evolves (jobs d) rs)"

definition status_of :: "db \<Rightarrow> int \<Rightarrow> JobStatus option" where
  "status_of d i =
     (case find_job i d of None \<Rightarrow> None
      | Some r \<Rightarrow> (case from_db (jr_status r) of Inl _ \<Rightarrow> None | Inr s \<Rightarrow> Some s))"

lemma row_evolves_refl [simp]: "row_evolves r r"
  by (auto simp: row_evolves_def intro: lifecycle.stay)

lemma row_evolves_trans: "row_evolves r r' \<Longrightarrow> row_evolves r' r'' \<Longrightarrow> row_evolves r r''"
  by (auto simp: row_evolves_def) (meson lifecycle_trans)

lemma evolves_refl [simp]: "evolves d d"
  unfolding evolves_def by (intro exI [of _ "jobs d"] exI [of _ "[]"]) (simp add: list.rel_refl)

lemma evolves_same_jobs: "jobs d' = jobs d \<Longrightarrow> evolves d d'"
  unfolding evolves_def by (intro exI [of _ "jobs d"] exI [of _ "[]"]) (simp add: list.rel_refl)

lemma evolves_trans: "evolves d d' \<Longrightarrow> evolves d' d'' \<Longrightarrow> evolves d d''"
proof -
  assume "evolves d d'" "evolves d' d''"
  then obtain rs new rs' new' where
      1: "jobs d' = rs @ new" "list_all2 row_evolves (jobs d) rs" and
      2: "jobs d'' = rs' @ new'" "list_all2 row_evolves (rs @ new) rs'"
    by (auto simp: evolves_def)
  from 2(2) obtain u v where uv: "rs' = u @ v" "list_all2 row_evolves rs u"
    by (auto simp: list_all2_append1)
  have "list_all2 row_evolves (jobs d) u"
    by (rule list_all2_trans [OF _ 1(2) uv(2)]) (rule row_evolves_trans)
  then show ?thesis
    using 2(1) uv(1) unfolding evolves_def by (intro exI [of _ u] exI [of _ "v @ new'"]) simp
qed

lemma evolves_row:
  assumes "evolves d d'" "r \<in> set (jobs d)"
  shows "\<exists>r' \<in> set (jobs d'). row_evolves r r'"
proof -
  from assms(1) obtain rs new where
      1: "jobs d' = rs @ new" "list_all2 row_evolves (jobs d) rs"
    by (auto simp: evolves_def)
  from assms(2) obtain n where n: "n < length (jobs d)" "jobs d ! n = r"
    by (auto simp: in_set_conv_nth)
  then have "row_evolves r (rs ! n)" using 1(2) by (auto dest: list_all2_nthD)
  moreover have "rs ! n \<in> set (jobs d')" using 1 n list_all2_lengthD [OF 1(2)] by auto
  ultimately show ?thesis by blast
qed

lemma status_of_row: "schema_ok d \<Longrightarrow> r \<in> set (jobs d) \<Longrightarrow> has_status s r \<Longrightarrow> status_of d (jr_id r) = Some s"
  by (simp add: status_of_def find_job_row has_status_def)

lemma status_of_SomeD: "status_of d i = Some s \<Longrightarrow> \<exists>r \<in> set (jobs d). jr_id r = i \<and> has_status s r"
  by (auto simp: status_of_def has_status_def split: option.splits sum.splits
      dest: find_job_mem from_db_Inr)

lemma status_of_known: "schema_ok d \<Longrightarrow> r \<in> set (jobs d) \<Longrightarrow> \<exists>s. status_of d (jr_id r) = Some s"
  by (meson job_check_has_status schema_okD(2) status_of_row)

lemma evolves_status:
  assumes "evolves d d'" "schema_ok d'" "status_of d i = Some s"
  shows "\<exists>s'. status_of d' i = Some s' \<and> lifecycle s s'"
proof -
  from status_of_SomeD [OF assms(3)] obtain r where r: "r \<in> set (jobs d)" "jr_id r = i" "has_status s r"
    by blast
  from evolves_row [OF assms(1) r(1)] obtain r' where r': "r' \<in> set (jobs d')" "row_evolves r r'"
    by blast
  then obtain s' where "has_status s' r'" "lifecycle s s'"
    using r(3) by (auto simp: row_evolves_def)
  then show ?thesis
    using r r' assms(2) status_of_row [of d' r' s'] by (auto simp: row_evolves_def)
qed

section \<open>Operations that evolve the database\<close>

definition op_evolves :: "'a dbop \<Rightarrow> bool" where
  "op_evolves m \<longleftrightarrow> (\<forall>d r d'. schema_ok d \<longrightarrow> m d = (r, d') \<longrightarrow> schema_ok d' \<and> evolves d d')"

named_theorems evolve \<open>introduction rules for op_evolves\<close>

lemma op_evolves_basic [evolve, simp]:
  "op_evolves (op_return a)" "op_evolves (op_fail x)" "op_evolves (op_lift r)"
  "op_evolves (op_read f)" "op_evolves (op_get g)"
  by (auto simp: op_evolves_def op_basic_simps)

lemma op_evolves_bind [evolve]:
  assumes "op_evolves m" "\<And>a. op_evolves (k a)"
  shows "op_evolves (op_bind m k)"
  unfolding op_evolves_def
proof (intro allI impI)
  fix d r d'
  assume d: "schema_ok d" and eq: "op_bind m k d = (r, d')"
  obtain x d1 where m: "m d = (x, d1)" by (cases "m d")
  with assms(1) d have 1: "schema_ok d1" "evolves d d1" by (auto simp: op_evolves_def)
  show "schema_ok d' \<and> evolves d d'"
  proof (cases x)
    case (Inl e)
    with m eq 1 show ?thesis by (simp add: op_bind_def)
  next
    case (Inr a)
    with m eq have "k a d1 = (r, d')" by (simp add: op_bind_def)
    with assms(2) [of a] 1 show ?thesis by (auto simp: op_evolves_def intro: evolves_trans)
  qed
qed

lemma op_evolves_transaction [evolve]:
  assumes "op_evolves m"
  shows "op_evolves (transaction m)"
  unfolding op_evolves_def
proof (intro allI impI)
  fix d r d'
  assume "schema_ok d" "transaction m d = (r, d')"
  then show "schema_ok d' \<and> evolves d d'"
    using assms by (cases "m d") (auto simp: op_evolves_def transaction_def split: sum.splits)
qed

lemma op_evolves_update_jobs [evolve]:
  assumes "\<And>r. P r \<Longrightarrow> row_evolves r (f r)"
  shows "op_evolves (update_jobs P f)"
  unfolding op_evolves_def
proof (intro allI impI conjI)
  fix d r d'
  assume d: "schema_ok d" and eq: "update_jobs P f d = (r, d')"
  show "schema_ok d'" by (rule update_jobs_schema [OF d eq])
  have "list_all2 row_evolves (jobs d) (update_where P f (jobs d))"
    using assms by (auto simp: update_where_def list_all2_conv_all_nth)
  then have "evolves d (d\<lparr>jobs := update_where P f (jobs d)\<rparr>)"
    unfolding evolves_def by (intro exI [of _ "update_where P f (jobs d)"] exI [of _ "[]"]) simp
  then show "evolves d d'"
    using eq by (auto simp: update_jobs_def Let_def split: if_splits)
qed

lemma op_evolves_insert_job [evolve]: "op_evolves (insert_job row)"
proof -
  have "evolves d (d\<lparr>jobs := jobs d @ [r]\<rparr>)" for d r
    unfolding evolves_def by (intro exI [of _ "jobs d"] exI [of _ "[r]"]) (simp add: list.rel_refl)
  then show ?thesis
    unfolding op_evolves_def
    by (auto simp: insert_job_def Let_def schema_ok_jobs_update split: if_splits)
qed

lemma foreign_keys_ok_more_projects:
  "foreign_keys_ok ps rs \<Longrightarrow> pr_id ` set ps \<subseteq> pr_id ` set qs \<Longrightarrow> foreign_keys_ok qs rs"
  by (fastforce simp: foreign_keys_ok_def list_all_iff)

lemma upsert_project_ids:
  assumes "upsert_project key path db_path now d = (r, d')"
  shows "pr_id ` set (projects d) \<subseteq> pr_id ` set (projects d') \<and> jobs d' = jobs d \<and>
    published d' = published d"
proof -
  let ?f = "\<lambda>p. p\<lparr>pr_project_path := path, pr_db_path := db_path, pr_last_seen_at := now\<rparr>"
  have "map pr_id (update_where P ?f ps) = map pr_id ps" for P and ps :: "project_row list"
    by (rule map_update_where) simp
  then have "pr_id ` set (update_where P ?f ps) = pr_id ` set ps" for P and ps :: "project_row list"
    unfolding list.set_map [symmetric] by (rule arg_cong)
  then show ?thesis
    using assms by (auto simp: upsert_project_def Let_def split: if_splits)
qed

lemma op_evolves_upsert_project [evolve]: "op_evolves (upsert_project key path db_path now)"
  unfolding op_evolves_def
proof (intro allI impI conjI)
  fix d r d'
  assume d: "schema_ok d" and eq: "upsert_project key path db_path now d = (r, d')"
  note ids = upsert_project_ids [OF eq]
  have "projects_ok (projects d')"
    using d eq by (auto simp: upsert_project_def Let_def schema_ok_def split: if_splits)
  with d ids show "schema_ok d'"
    by (auto simp: schema_ok_def jobs_ok_def intro: foreign_keys_ok_more_projects)
  show "evolves d d'"
    using ids by (simp add: evolves_same_jobs)
qed

lemma op_evolves_if [evolve]: "(c \<Longrightarrow> op_evolves m) \<Longrightarrow> (\<not> c \<Longrightarrow> op_evolves n) \<Longrightarrow> op_evolves (if c then m else n)"
  by simp

lemma op_evolves_option [evolve]:
  "op_evolves m \<Longrightarrow> (\<And>x. op_evolves (k x)) \<Longrightarrow> op_evolves (case v of None \<Rightarrow> m | Some x \<Rightarrow> k x)"
  by (cases v) simp_all

lemma op_evolves_pair [evolve]: "(\<And>x y. op_evolves (k x y)) \<Longrightarrow> op_evolves (case v of (x, y) \<Rightarrow> k x y)"
  by (cases v) simp

lemma op_evolves_Let [evolve]: "op_evolves (k v) \<Longrightarrow> op_evolves (let x = v in k x)"
  by simp

lemma op_evolves_for_rows [evolve]: "(\<And>r a. op_evolves (body r a)) \<Longrightarrow> op_evolves (for_rows body rs acc)"
  by (induction rs arbitrary: acc) (auto intro: op_evolves_bind)

lemma row_evolves_status:
  assumes "has_status s r" "has_status s' r'" "lifecycle s s'"
    "jr_id r' = jr_id r" "job_key r' = job_key r" "jr_target_db_path r' = jr_target_db_path r"
    "jr_file_path r' = jr_file_path r" "jr_created_at r' = jr_created_at r" "jr_priority r \<le> jr_priority r'"
  shows "row_evolves r r'"
  using assms by (auto simp: row_evolves_def has_status_unique)

lemma row_evolves_same_status:
  assumes "jr_status r' = jr_status r"
    "jr_id r' = jr_id r" "job_key r' = job_key r" "jr_target_db_path r' = jr_target_db_path r"
    "jr_file_path r' = jr_file_path r" "jr_created_at r' = jr_created_at r" "jr_priority r \<le> jr_priority r'"
  shows "row_evolves r r'"
  using assms by (auto simp: row_evolves_def has_status_def intro: lifecycle.stay)

lemma op_evolves_transition_job [evolve]: "op_evolves (transition_job i src dst now succ_id)"
  unfolding transition_job_def Let_def
  by (intro evolve; rule row_evolves_status [of src _ dst])
    (auto simp: has_status_def job_key_def lifecycle_step)

lemma op_evolves_load_job [evolve]: "op_evolves (load_job e i)"
  by (simp add: load_job_def)

lemma op_evolves_get [evolve]: "op_evolves (get e i)"
  by (simp add: get_def op_evolves_load_job)

lemma submit_evolves: "op_evolves (submit e request)"
  unfolding submit_def Let_def
  by (intro evolve) (rule row_evolves_same_status; simp add: job_key_def)

lemma submit_full_scan_evolves: "op_evolves (submit_full_scan e p)"
  unfolding submit_full_scan_def
  by (intro evolve; rule row_evolves_status [of Pending _ Superseded])
    (auto simp: has_status_def job_key_def intro: lifecycle_step)

lemma promote_evolves: "op_evolves (promote e i p)"
  unfolding promote_def by (intro evolve) (rule row_evolves_same_status; simp add: job_key_def)

lemma claim_next_pending_evolves: "op_evolves (claim_next_pending e p)"
  unfolding claim_next_pending_def
  by (intro evolve) (rule row_evolves_same_status; simp add: job_key_def)

lemma update_progress_evolves: "op_evolves (update_progress e i u)"
  unfolding update_progress_def
  by (intro evolve) (rule row_evolves_same_status; simp add: job_key_def)

lemma complete_evolves: "op_evolves (complete e i s v)"
proof -
  have life: "lifecycle Running s" if "s = Succeeded \<or> s = Failed"
    using that by (auto intro: lifecycle_step)
  show ?thesis
    unfolding complete_def Let_def
    by (intro evolve; rule row_evolves_status [of Running _ s]) (auto simp: has_status_def job_key_def life)
qed

lemma confirm_cancelled_evolves: "op_evolves (confirm_cancelled e i)"
  unfolding confirm_cancelled_def by (intro evolve)

lemma cancel_evolves: "op_evolves (cancel e i)"
proof -
  have "op_evolves (case s of Pending \<Rightarrow> transition_job i Pending Cancelled now None
      | Running \<Rightarrow> transition_job i Running CancelRequested now None
      | CancelRequested \<Rightarrow> op_return False | Cancelled \<Rightarrow> op_return False
      | s \<Rightarrow> op_fail (NotCancellable s))" for s now
    by (cases s) (auto intro: evolve)
  note this [evolve]
  show ?thesis unfolding cancel_def by (intro evolve)
qed

lemma recover_evolves: "op_evolves (recover e)"
  unfolding recover_def recover_running_def recover_cancelled_def by (intro evolve)

lemma publish_provider_evolves: "op_evolves (publish_provider e p v s)"
  by (auto simp: publish_provider_def op_evolves_def schema_ok_def op_bind_def op_basic_simps Let_def
      split: sum.splits if_splits intro: evolves_same_jobs)

lemma list_jobs_evolves: "op_evolves (list_jobs e f)"
  by (simp add: list_jobs_def)

section \<open>What a client of the store relies on\<close>

text \<open>
  A client sees the statuses of jobs and a set of operations.  The contract: the operations keep
  the invariant, and every job they find stays known and moves along its lifecycle.
\<close>

locale lifecycle_store =
  fixes inv :: "'d \<Rightarrow> bool"
    and status :: "'d \<Rightarrow> int \<Rightarrow> JobStatus option"
    and ops :: "('d \<Rightarrow> 'd) set"
  assumes ops_inv: "f \<in> ops \<Longrightarrow> inv d \<Longrightarrow> inv (f d)"
    and ops_life: "f \<in> ops \<Longrightarrow> inv d \<Longrightarrow> status d i = Some s \<Longrightarrow>
      \<exists>s'. status (f d) i = Some s' \<and> lifecycle s s'"
begin

lemma run_inv: "set fs \<subseteq> ops \<Longrightarrow> inv d \<Longrightarrow> inv (fold id fs d)"
  by (induction fs arbitrary: d) (auto intro: ops_inv)

lemma run_life:
  "set fs \<subseteq> ops \<Longrightarrow> inv d \<Longrightarrow> status d i = Some s \<Longrightarrow>
    \<exists>s'. status (fold id fs d) i = Some s' \<and> lifecycle s s'"
proof (induction fs arbitrary: d s)
  case Nil
  then show ?case by (auto intro: lifecycle.stay)
next
  case (Cons f fs)
  then obtain t where "status (f d) i = Some t" "lifecycle s t"
    using ops_life [of f d i s] by auto
  moreover have "inv (f d)" using Cons.prems by (auto intro: ops_inv)
  ultimately show ?case using Cons.IH [of "f d" t] Cons.prems(1) by (auto intro: lifecycle_trans)
qed

lemma terminal_stable:
  "set fs \<subseteq> ops \<Longrightarrow> inv d \<Longrightarrow> status d i = Some s \<Longrightarrow> terminal s \<Longrightarrow> status (fold id fs d) i = Some s"
  using run_life [of fs d i s] lifecycle_terminal by auto

lemma cancel_is_final:
  "set fs \<subseteq> ops \<Longrightarrow> inv d \<Longrightarrow> status d i = Some CancelRequested \<Longrightarrow>
    status (fold id fs d) i \<in> {Some CancelRequested, Some Cancelled}"
  using run_life [of fs d i CancelRequested] cancel_requested_only_cancels by fastforce

end

text \<open>The operations of the store, as functions on the database.\<close>

definition store_ops :: "(db \<Rightarrow> db) set" where
  "store_ops =
     {\<lambda>d. snd (submit e q d) | e q. True} \<union> {\<lambda>d. snd (submit_full_scan e p d) | e p. True} \<union>
     {\<lambda>d. snd (promote e i p d) | e i p. True} \<union> {\<lambda>d. snd (claim_next_pending e p d) | e p. True} \<union>
     {\<lambda>d. snd (update_progress e i u d) | e i u. True} \<union>
     {\<lambda>d. snd (complete_success e i v d) | e i v. True} \<union>
     {\<lambda>d. snd (complete_failure e i v d) | e i v. True} \<union>
     {\<lambda>d. snd (confirm_cancelled e i d) | e i. True} \<union> {\<lambda>d. snd (cancel e i d) | e i. True} \<union>
     {\<lambda>d. snd (recover e d) | e. True} \<union> {\<lambda>d. snd (publish_provider e p v s d) | e p v s. True}"

lemmas store_evolves = submit_evolves submit_full_scan_evolves promote_evolves
  claim_next_pending_evolves update_progress_evolves complete_evolves confirm_cancelled_evolves
  cancel_evolves recover_evolves publish_provider_evolves list_jobs_evolves op_evolves_get

lemma op_evolves_snd: "op_evolves m \<Longrightarrow> schema_ok d \<Longrightarrow> schema_ok (snd (m d)) \<and> evolves d (snd (m d))"
  unfolding op_evolves_def by (metis prod.collapse)

lemma store_ops_evolve: "f \<in> store_ops \<Longrightarrow> schema_ok d \<Longrightarrow> schema_ok (f d) \<and> evolves d (f d)"
  unfolding store_ops_def complete_success_def complete_failure_def
  by (elim UnE CollectE exE conjE; hypsubst; rule op_evolves_snd; (rule store_evolves | assumption))

interpretation state_store: lifecycle_store schema_ok status_of store_ops
proof
  fix f d i s
  assume f: "f \<in> store_ops" and d: "schema_ok d"
  note ev = store_ops_evolve [OF f d]
  then show "schema_ok (f d)" by blast
  assume "status_of d i = Some s"
  with ev show "\<exists>s'. status_of (f d) i = Some s' \<and> lifecycle s s'"
    by (blast intro: evolves_status)
qed

end
