(* ===== verification/StateGuards.thy ===== *)
theory StateGuards
  imports StateLifecycle
begin

text \<open>
  The guards of the state store are sufficient for its schema: started on a database inside the
  schema, with a clock in range and a JSON encoder that decodes what it encodes, no statement of
  an operation fails on a CHECK constraint, a unique index or a foreign key, no stored row is
  reported as corrupt, and the two "changed during" internal errors are unreachable.  Each lemma
  gives the exact database an operation leaves behind.
\<close>

section \<open>Rows as jobs\<close>

definition json_ok :: "env \<Rightarrow> string json_value \<Rightarrow> bool" where
  "json_ok e v \<longleftrightarrow> (case json_to_string e v of Inl _ \<Rightarrow> False | Inr t \<Rightarrow> json_from_str e t = Inr v)"

definition payload_ok :: "env \<Rightarrow> db \<Rightarrow> bool" where
  "payload_ok e d \<longleftrightarrow> (\<forall>r \<in> set (jobs d). \<forall>t. jr_result_json r = Some t \<or> jr_error_json r = Some t \<longrightarrow>
     (\<exists>v. json_from_str e t = Inr v))"

definition store_ok :: "env \<Rightarrow> db \<Rightarrow> bool" where
  "store_ok e d \<longleftrightarrow> schema_ok d \<and> payload_ok e d"

text \<open>The job structure a caller gets is the row of the job.\<close>

definition row_view :: "job_row \<Rightarrow> Job \<Rightarrow> bool" where
  "row_view r j \<longleftrightarrow>
     job_id j = jr_id r \<and> job_project_id j = jr_project_id r \<and>
     job_target_db_path j = jr_target_db_path r \<and> job_job_type j = jr_job_type r \<and>
     job_file_path j = jr_file_path r \<and> priority_as_db (job_priority j) = jr_priority r \<and>
     job_provider j = jr_provider r \<and> has_status (job_status j) r \<and>
     job_progress_current j = jr_progress_current r \<and> job_progress_total j = jr_progress_total r \<and>
     job_progress_message j = jr_progress_message r \<and> job_created_at j = jr_created_at r \<and>
     job_started_at j = jr_started_at r \<and> job_finished_at j = jr_finished_at r \<and>
     job_superseded_by j = jr_superseded_by r"

lemma priority_from_db_ok: "v \<in> {0, 1} \<Longrightarrow> \<exists>p. priority_from_db v = Inr p \<and> priority_as_db p = v"
  by (auto simp: priority_from_db_def)

lemma row_to_job_ok:
  assumes "job_check r"
    and "\<And>t. jr_result_json r = Some t \<Longrightarrow> \<exists>v. json_from_str e t = Inr v"
    and "\<And>t. jr_error_json r = Some t \<Longrightarrow> \<exists>v. json_from_str e t = Inr v"
  shows "\<exists>j. row_to_job e p r = Inr j \<and> row_view r j"
proof -
  from assms(1) obtain s where s: "has_status s r" using job_check_has_status by blast
  have "jr_priority r \<in> {0, 1}" using assms(1) by (simp add: job_check_def check_columns_def)
  then obtain pr where pr: "priority_from_db (jr_priority r) = Inr pr" "priority_as_db pr = jr_priority r"
    using priority_from_db_ok by blast
  have parse: "\<exists>v. parse_json e x f = Inr v" if "\<And>t. x = Some t \<Longrightarrow> \<exists>v. json_from_str e t = Inr v" for x f
    using that by (cases x) (auto simp: parse_json_def opt_transpose_def split: sum.splits)
  obtain a b where "parse_json e (jr_result_json r) ''result_json'' = Inr a"
      "parse_json e (jr_error_json r) ''error_json'' = Inr b"
    using parse [of "jr_result_json r"] parse [of "jr_error_json r"] assms(2,3) by metis
  with pr s show ?thesis
    by (simp add: row_to_job_def res_bind_def row_view_def has_status_def)
qed

lemma load_job_ok:
  assumes "store_ok e d" "r \<in> set (jobs d)"
  shows "\<exists>j. load_job e (jr_id r) d = (Inr j, d) \<and> row_view r j"
proof -
  have d: "schema_ok d" using assms(1) by (simp add: store_ok_def)
  obtain p where p: "find_project (jr_project_id r) d = Some p"
    using find_project_of_job [OF d assms(2)] by blast
  have "\<exists>j. row_to_job e p r = Inr j \<and> row_view r j"
    using assms schema_okD(2) [OF d assms(2)] by (intro row_to_job_ok) (auto simp: store_ok_def payload_ok_def)
  then show ?thesis
    by (auto simp: load_job_def op_basic_simps find_job_row [OF d assms(2)] p)
qed

lemma load_job_missing: "\<forall>r \<in> set (jobs d). jr_id r \<noteq> i \<Longrightarrow> load_job e i d = (Inl (NotFound i), d)"
  by (simp add: load_job_def op_basic_simps find_job_def find_None_mem [THEN iffD2])

lemma load_job_cases:
  assumes "store_ok e d"
  obtains (missing) "\<forall>r \<in> set (jobs d). jr_id r \<noteq> i" "load_job e i d = (Inl (NotFound i), d)"
  | (found) r j where "r \<in> set (jobs d)" "jr_id r = i" "load_job e i d = (Inr j, d)" "row_view r j"
  using load_job_missing [of d i e] load_job_ok [OF assms] by metis

section \<open>Changing one row\<close>

definition set_row :: "int \<Rightarrow> (job_row \<Rightarrow> job_row) \<Rightarrow> db \<Rightarrow> db" where
  "set_row i f d = d\<lparr>jobs := update_where (\<lambda>r. jr_id r = i) f (jobs d)\<rparr>"

lemma set_row_select [simp]:
  "projects (set_row i f d) = projects d" "published (set_row i f d) = published d"
  by (simp_all add: set_row_def)

lemma jobs_set_row:
  assumes "schema_ok d" "r \<in> set (jobs d)"
  shows "set (jobs (set_row (jr_id r) f d)) = insert (f r) {r' \<in> set (jobs d). r' \<noteq> r}"
proof -
  have "jr_id r' = jr_id r \<longleftrightarrow> r' = r" if "r' \<in> set (jobs d)" for r'
    using distinct_key_eq [OF schema_okD(1) [OF assms(1)] that assms(2)] by auto
  then show ?thesis
    using assms(2) by (auto simp: set_row_def set_update_where image_iff)
qed

lemma update_one:
  assumes d: "schema_ok d" and r: "r \<in> set (jobs d)"
    and P: "\<And>r'. r' \<in> set (jobs d) \<Longrightarrow> P r' \<longleftrightarrow> r' = r"
    and keep: "\<And>x. jr_id (f x) = jr_id x" "\<And>x. job_key (f x) = job_key x"
    and check: "job_check (f r)"
    and sup: "\<And>k. jr_superseded_by (f r) = Some k \<Longrightarrow> k \<in> jr_id ` set (jobs d)"
    and pend: "has_status Pending (f r) \<Longrightarrow> has_status Pending r \<or>
      (\<forall>r' \<in> set (jobs d). job_key r' = job_key r \<longrightarrow> \<not> has_status Pending r')"
    and exec: "is_executing (f r) \<Longrightarrow> is_executing r \<or>
      (\<forall>r' \<in> set (jobs d). job_key r' = job_key r \<longrightarrow> \<not> is_executing r')"
  shows "update_jobs P f d = (Inr 1, set_row (jr_id r) f d) \<and> schema_ok (set_row (jr_id r) f d)"
proof -
  have same: "jr_id r' = jr_id r \<longleftrightarrow> r' = r" if "r' \<in> set (jobs d)" for r'
    using distinct_key_eq [OF schema_okD(1) [OF d] that r] by auto
  have upd: "update_where P f (jobs d) = update_where (\<lambda>r'. jr_id r' = jr_id r) f (jobs d)"
    by (auto simp: update_where_def P same)
  have ok: "jobs_ok (projects d) (jobs d)" using d by (simp add: schema_ok_def)
  have pend_old: "distinct (map job_key (filter (has_status Pending) (jobs d)))"
    and exec_old: "distinct (map job_key (filter is_executing (jobs d)))"
    using ok by (simp_all add: jobs_ok_def jobs_one_pending_def jobs_one_executing_def)
  have "jobs_ok (projects d) (update_where P f (jobs d))"
  proof (rule jobs_ok_update [OF ok keep])
    fix x assume x: "x \<in> set (jobs d)" "P x"
    then have [simp]: "x = r" using P by blast
    show "job_check (f x)" using check by simp
    show "case jr_superseded_by (f x) of None \<Rightarrow> True | Some i \<Rightarrow> i \<in> jr_id ` set (jobs d)"
      using sup by (simp split: option.split)
    fix y assume y: "y \<in> set (jobs d)" and key: "job_key x = job_key y"
    {
      assume "has_status Pending (f x)" and ypend: "has_status Pending (if P y then f y else y)"
      show "jr_id x = jr_id y"
      proof (cases "y = r")
        case False
        then have "has_status Pending y" using ypend P y by simp
        then have "has_status Pending r"
          using pend \<open>has_status Pending (f x)\<close> y key by force
        then have "r = y"
          using distinct_filter_key_eq [OF pend_old r y] \<open>has_status Pending y\<close> key by simp
        then show ?thesis by simp
      qed simp
    }
    {
      assume "is_executing (f x)" and yexec: "is_executing (if P y then f y else y)"
      show "jr_id x = jr_id y"
      proof (cases "y = r")
        case False
        then have "is_executing y" using yexec P y by simp
        then have "is_executing r"
          using exec \<open>is_executing (f x)\<close> y key by force
        then have "r = y"
          using distinct_filter_key_eq [OF exec_old r y] \<open>is_executing y\<close> key by simp
        then show ?thesis by simp
      qed simp
    }
  qed
  moreover have "count_where P (jobs d) = 1"
  proof -
    have "filter P (jobs d) = filter (\<lambda>r'. jr_id r' = jr_id r) (jobs d)"
      by (rule filter_cong) (simp_all add: P same)
    moreover have "count_where (\<lambda>r'. jr_id r' = jr_id r) (jobs d) = 1"
      by (rule count_where_key [OF schema_okD(1) [OF d] r refl]) simp_all
    ultimately show ?thesis by (simp add: count_where_def)
  qed
  ultimately show ?thesis
    using schema_ok_jobs_update [OF d] by (simp add: update_jobs_def upd set_row_def)
qed

section \<open>Lifecycle steps\<close>

text \<open>The row a transition writes.\<close>

definition transition_row :: "JobStatus \<Rightarrow> JobStatus \<Rightarrow> int \<Rightarrow> int option \<Rightarrow> job_row \<Rightarrow> job_row" where
  "transition_row src dst now k r =
     (if dst = Running then r\<lparr>jr_status := as_db dst, jr_started_at := Some now\<rparr>
      else if dst = Pending then r\<lparr>jr_status := as_db dst, jr_started_at := None,
        jr_finished_at := None, jr_progress_current := None, jr_progress_total := None,
        jr_progress_message := None\<rparr>
      else if dst = CancelRequested then r\<lparr>jr_status := as_db dst\<rparr>
      else if dst = Cancelled then r\<lparr>jr_status := as_db dst, jr_finished_at := Some now\<rparr>
      else r\<lparr>jr_status := as_db dst, jr_finished_at := Some now, jr_superseded_by := k\<rparr>)"

lemma transition_row_fields [simp]:
  "jr_id (transition_row src dst now k r) = jr_id r"
  "job_key (transition_row src dst now k r) = job_key r"
  "has_status s (transition_row src dst now k r) \<longleftrightarrow> s = dst"
  "jr_result_json (transition_row src dst now k r) = jr_result_json r"
  "jr_error_json (transition_row src dst now k r) = jr_error_json r"
  "jr_priority (transition_row src dst now k r) = jr_priority r"
  by (auto simp: transition_row_def job_key_def has_status_def)

lemma transition_job_eq:
  assumes "allowed_transition src dst" "dst \<notin> {Succeeded, Failed}"
  shows "transition_job i src dst now k =
    op_bind (update_jobs (\<lambda>r. jr_id r = i \<and> has_status src r) (transition_row src dst now k))
      (\<lambda>n. op_return (n = 1))"
  using assms
  by (cases src; cases dst) (simp_all add: transition_job_def transition_row_def [abs_def] has_status_def)

lemma transition_row_check:
  assumes "job_check r" "has_status src r" "allowed_transition src dst" "dst \<notin> {Succeeded, Failed}"
    and "dst = Superseded \<Longrightarrow> k \<noteq> None"
  shows "job_check (transition_row src dst now k r)"
  using assms
  by (cases src; cases dst)
    (simp_all add: transition_row_def job_check_def check_columns_def check_progress_def
      check_timestamps_def check_payload_def check_superseded_def has_status_def cong: option.case_cong)

lemma is_executing_transition [simp]: "is_executing (transition_row src dst now k r) \<longleftrightarrow> executing dst"
  by (auto simp: is_executing_def executing_def)

lemma is_executing_status: "has_status s r \<Longrightarrow> is_executing r \<longleftrightarrow> executing s"
  by (auto simp: is_executing_def executing_def has_status_unique)

lemma transition_job_ok:
  assumes d: "schema_ok d" and r: "r \<in> set (jobs d)" "has_status src r"
    and allowed: "allowed_transition src dst" "dst \<notin> {Succeeded, Failed}"
    and sup: "dst = Superseded \<Longrightarrow> \<exists>i. k = Some i \<and> i \<in> jr_id ` set (jobs d)"
    and pend: "dst = Pending \<Longrightarrow> \<forall>r' \<in> set (jobs d). job_key r' = job_key r \<longrightarrow> \<not> has_status Pending r'"
    and exec: "dst = Running \<Longrightarrow> \<forall>r' \<in> set (jobs d). job_key r' = job_key r \<longrightarrow> \<not> is_executing r'"
  shows "transition_job (jr_id r) src dst now k d = (Inr True, set_row (jr_id r) (transition_row src dst now k) d) \<and>
    schema_ok (set_row (jr_id r) (transition_row src dst now k) d)"
proof -
  let ?f = "transition_row src dst now k"
  have check: "job_check r" by (rule schema_okD(2) [OF d r(1)])
  have old_sup: "jr_superseded_by r = None" if "src \<noteq> Superseded"
    using check r(2) that by (auto simp: job_check_def check_superseded_def has_status_unique)
  have src: "src \<noteq> Superseded" using allowed(1) by (cases src) auto
  have "update_jobs (\<lambda>r'. jr_id r' = jr_id r \<and> has_status src r') ?f d = (Inr 1, set_row (jr_id r) ?f d) \<and>
      schema_ok (set_row (jr_id r) ?f d)"
  proof (rule update_one [OF d r(1)])
    fix r' assume "r' \<in> set (jobs d)"
    then show "(jr_id r' = jr_id r \<and> has_status src r') \<longleftrightarrow> r' = r"
      using distinct_key_eq [OF schema_okD(1) [OF d] _ r(1)] r(2) by blast
  next
    show "job_check (?f r)" by (rule transition_row_check [OF check r(2) allowed]) (use sup in auto)
  next
    fix i assume "jr_superseded_by (?f r) = Some i"
    then show "i \<in> jr_id ` set (jobs d)"
      using sup allowed old_sup [OF src] by (cases dst) (auto simp: transition_row_def)
  next
    assume "has_status Pending (?f r)"
    then show "has_status Pending r \<or> (\<forall>r' \<in> set (jobs d). job_key r' = job_key r \<longrightarrow> \<not> has_status Pending r')"
      using pend by simp
  next
    assume "is_executing (?f r)"
    then have "dst = Running \<or> src = Running"
      using allowed(1) by (cases src; cases dst) (auto simp: executing_def)
    then show "is_executing r \<or> (\<forall>r' \<in> set (jobs d). job_key r' = job_key r \<longrightarrow> \<not> is_executing r')"
      using exec r(2) by (auto simp: is_executing_def)
  qed simp_all
  then show ?thesis
    by (simp add: transition_job_eq [OF allowed] op_eval)
qed

lemma payload_ok_set_row:
  assumes "payload_ok e d" "\<And>x. jr_result_json (f x) = jr_result_json x" "\<And>x. jr_error_json (f x) = jr_error_json x"
  shows "payload_ok e (set_row i f d)"
  using assms by (auto simp: payload_ok_def set_row_def set_update_where split: if_splits)

lemma store_ok_transition:
  "store_ok e d \<Longrightarrow> schema_ok (set_row i (transition_row src dst now k) d) \<Longrightarrow>
    store_ok e (set_row i (transition_row src dst now k) d)"
  by (simp add: store_ok_def payload_ok_set_row)

lemma load_after_set:
  assumes "schema_ok d" "r \<in> set (jobs d)" "store_ok e (set_row (jr_id r) f d)" "jr_id (f r) = jr_id r"
  shows "\<exists>j. load_job e (jr_id r) (set_row (jr_id r) f d) = (Inr j, set_row (jr_id r) f d) \<and> row_view (f r) j"
proof -
  have "f r \<in> set (jobs (set_row (jr_id r) f d))" using jobs_set_row [OF assms(1,2), of f] by simp
  from load_job_ok [OF assms(3) this] show ?thesis by (simp add: assms(4))
qed

lemma store_okD: "store_ok e d \<Longrightarrow> schema_ok d" "store_ok e d \<Longrightarrow> payload_ok e d"
  by (simp_all add: store_ok_def)

text \<open>A transition followed by loading the job, the common tail of the operations.\<close>

lemma transition_and_load:
  assumes e: "store_ok e d" and r: "r \<in> set (jobs d)" "has_status src r"
    and allowed: "allowed_transition src dst" "dst \<notin> {Succeeded, Failed}"
    and sup: "dst = Superseded \<Longrightarrow> \<exists>i. k = Some i \<and> i \<in> jr_id ` set (jobs d)"
    and pend: "dst = Pending \<Longrightarrow> \<forall>r' \<in> set (jobs d). job_key r' = job_key r \<longrightarrow> \<not> has_status Pending r'"
    and exec: "dst = Running \<Longrightarrow> \<forall>r' \<in> set (jobs d). job_key r' = job_key r \<longrightarrow> \<not> is_executing r'"
  obtains d' j where "d' = set_row (jr_id r) (transition_row src dst now k) d"
    "transition_job (jr_id r) src dst now k d = (Inr True, d')" "store_ok e d'"
    "load_job e (jr_id r) d' = (Inr j, d')" "row_view (transition_row src dst now k r) j"
proof -
  let ?d = "set_row (jr_id r) (transition_row src dst now k) d"
  note t = transition_job_ok [OF store_okD(1) [OF e] r allowed sup pend exec, of now]
  have ok: "store_ok e ?d" using store_ok_transition [OF e] t by blast
  show ?thesis
    using that [of ?d] t ok load_after_set [OF store_okD(1) [OF e] r(1) ok] by auto
qed

lemma row_view_status: "row_view r j \<Longrightarrow> has_status s r \<Longrightarrow> job_status j = s"
  by (auto simp: row_view_def has_status_def)

section \<open>Cancellation\<close>

lemma cancel_missing:
  assumes "now_millis e = Inr now" "\<forall>r \<in> set (jobs d). jr_id r \<noteq> i"
  shows "cancel e i d = (Inl (NotFound i), d)"
  by (simp add: cancel_def op_eval assms(1) load_job_missing [OF assms(2)])

lemma cancel_moves:
  assumes e: "store_ok e d" and now: "now_millis e = Inr now" and r: "r \<in> set (jobs d)" "has_status s r"
    and sd: "(s, t) \<in> {(Pending, Cancelled), (Running, CancelRequested)}"
  shows "\<exists>j. cancel e (jr_id r) d = (Inr (j, True), set_row (jr_id r) (transition_row s t now None) d) \<and>
    row_view (transition_row s t now None r) j \<and> store_ok e (set_row (jr_id r) (transition_row s t now None) d)"
proof -
  have allowed: "allowed_transition s t" "t \<notin> {Succeeded, Failed}" using sd by auto
  have no: "t \<noteq> Superseded" "t \<noteq> Pending" "t \<noteq> Running" using sd by auto
  obtain j0 where j0: "load_job e (jr_id r) d = (Inr j0, d)" "row_view r j0"
    using load_job_ok [OF e r(1)] by blast
  have st: "job_status j0 = s" using j0(2) r(2) by (rule row_view_status)
  obtain d' j where d': "d' = set_row (jr_id r) (transition_row s t now None) d"
      "transition_job (jr_id r) s t now None d = (Inr True, d')" "store_ok e d'"
      "load_job e (jr_id r) d' = (Inr j, d')" "row_view (transition_row s t now None r) j"
    using transition_and_load [OF e r allowed, of None now thesis] no by blast
  have "cancel e (jr_id r) d = (Inr (j, True), d')"
    using sd st d'(2,4) by (auto simp: cancel_def op_eval now j0(1))
  with d' show ?thesis by blast
qed

lemma cancel_idle:
  assumes e: "store_ok e d" and now: "now_millis e = Inr now" and r: "r \<in> set (jobs d)" "has_status s r"
    and s: "s \<in> {CancelRequested, Cancelled}"
  shows "\<exists>j. cancel e (jr_id r) d = (Inr (j, False), d) \<and> row_view r j"
proof -
  obtain j where j: "load_job e (jr_id r) d = (Inr j, d)" "row_view r j"
    using load_job_ok [OF e r(1)] by blast
  have "job_status j = s" using j(2) r(2) by (rule row_view_status)
  with s j show ?thesis by (auto simp: cancel_def op_eval now)
qed

lemma cancel_refused:
  assumes e: "store_ok e d" and now: "now_millis e = Inr now" and r: "r \<in> set (jobs d)" "has_status s r"
    and s: "s \<in> {Succeeded, Failed, Superseded}"
  shows "cancel e (jr_id r) d = (Inl (NotCancellable s), d)"
proof -
  obtain j where j: "load_job e (jr_id r) d = (Inr j, d)" "row_view r j"
    using load_job_ok [OF e r(1)] by blast
  have "job_status j = s" using j(2) r(2) by (rule row_view_status)
  with s j show ?thesis by (auto simp: cancel_def op_eval now)
qed

lemma confirm_cancelled_ok:
  assumes e: "store_ok e d" and now: "now_millis e = Inr now" and r: "r \<in> set (jobs d)" "has_status CancelRequested r"
  shows "\<exists>j. confirm_cancelled e (jr_id r) d =
      (Inr j, set_row (jr_id r) (transition_row CancelRequested Cancelled now None) d) \<and>
    row_view (transition_row CancelRequested Cancelled now None r) j \<and>
    store_ok e (set_row (jr_id r) (transition_row CancelRequested Cancelled now None) d)"
proof -
  obtain j0 where j0: "load_job e (jr_id r) d = (Inr j0, d)" "row_view r j0"
    using load_job_ok [OF e r(1)] by blast
  have st: "job_status j0 = CancelRequested" using j0(2) r(2) by (rule row_view_status)
  obtain d' j where d': "d' = set_row (jr_id r) (transition_row CancelRequested Cancelled now None) d"
      "transition_job (jr_id r) CancelRequested Cancelled now None d = (Inr True, d')" "store_ok e d'"
      "load_job e (jr_id r) d' = (Inr j, d')" "row_view (transition_row CancelRequested Cancelled now None r) j"
    using transition_and_load [OF e r, of Cancelled None now thesis] by simp
  have "confirm_cancelled e (jr_id r) d = (Inr j, d')"
    using st d'(2,4) by (simp add: confirm_cancelled_def op_eval now j0(1))
  with d' show ?thesis by blast
qed

section \<open>Completion\<close>

definition completion_row :: "JobStatus \<Rightarrow> string \<Rightarrow> int \<Rightarrow> job_row \<Rightarrow> job_row" where
  "completion_row s encoded now r =
     r\<lparr>jr_status := as_db s, jr_progress_current := Some 3, jr_progress_total := Some 3,
       jr_progress_message := Some ''finalizing'',
       jr_result_json := (if s = Succeeded then Some encoded else None),
       jr_error_json := (if s = Succeeded then None else Some encoded), jr_finished_at := Some now\<rparr>"

lemma completion_row_fields [simp]:
  "jr_id (completion_row s t now r) = jr_id r" "job_key (completion_row s t now r) = job_key r"
  "has_status u (completion_row s t now r) \<longleftrightarrow> u = s" "jr_superseded_by (completion_row s t now r) = jr_superseded_by r"
  by (auto simp: completion_row_def job_key_def has_status_def)

lemma completion_row_check:
  assumes "job_check r" "has_status Running r" "s \<in> {Succeeded, Failed}"
  shows "job_check (completion_row s t now r)"
  using assms
  by (auto simp: completion_row_def job_check_def check_columns_def check_progress_def
      check_timestamps_def check_payload_def check_superseded_def has_status_def)

lemma complete_ok:
  assumes e: "store_ok e d" and json: "json_ok e payload" and now: "now_millis e = Inr now"
    and r: "r \<in> set (jobs d)" "has_status Running r" and s: "s \<in> {Succeeded, Failed}"
  shows "\<exists>j t. json_to_string e payload = Inr t \<and>
    complete e (jr_id r) s payload d = (Inr j, set_row (jr_id r) (completion_row s t now) d) \<and>
    row_view (completion_row s t now r) j \<and> store_ok e (set_row (jr_id r) (completion_row s t now) d)"
proof -
  have d: "schema_ok d" by (rule store_okD(1) [OF e])
  obtain t where t: "json_to_string e payload = Inr t" "json_from_str e t = Inr payload"
    using json by (auto simp: json_ok_def split: sum.splits)
  let ?f = "completion_row s t now"
  have check: "job_check r" by (rule schema_okD(2) [OF d r(1)])
  have "update_jobs (\<lambda>r'. jr_id r' = jr_id r \<and> has_status Running r') ?f d = (Inr 1, set_row (jr_id r) ?f d) \<and>
      schema_ok (set_row (jr_id r) ?f d)"
  proof (rule update_one [OF d r(1)])
    fix r' assume "r' \<in> set (jobs d)"
    then show "(jr_id r' = jr_id r \<and> has_status Running r') \<longleftrightarrow> r' = r"
      using distinct_key_eq [OF schema_okD(1) [OF d] _ r(1)] r(2) by blast
  next
    show "job_check (?f r)" by (rule completion_row_check [OF check r(2) s])
  next
    fix i assume "jr_superseded_by (?f r) = Some i"
    then show "i \<in> jr_id ` set (jobs d)" using schema_okD(5) [OF d r(1)] by simp
  qed (use s in \<open>auto simp: is_executing_def\<close>)
  then have upd: "update_jobs (\<lambda>r'. jr_id r' = jr_id r \<and> jr_status r' = as_db Running) ?f d =
      (Inr 1, set_row (jr_id r) ?f d)" and d': "schema_ok (set_row (jr_id r) ?f d)"
    by (simp_all add: has_status_def)
  have "payload_ok e (set_row (jr_id r) ?f d)"
    using store_okD(2) [OF e] t(2)
    by (auto simp: payload_ok_def set_row_def set_update_where completion_row_def split: if_splits)
  then have ok: "store_ok e (set_row (jr_id r) ?f d)" using d' by (simp add: store_ok_def)
  obtain j0 where j0: "load_job e (jr_id r) d = (Inr j0, d)" "row_view r j0"
    using load_job_ok [OF e r(1)] by blast
  have st: "job_status j0 = Running" using j0(2) r(2) by (rule row_view_status)
  obtain j where j: "load_job e (jr_id r) (set_row (jr_id r) ?f d) = (Inr j, set_row (jr_id r) ?f d)"
      "row_view (?f r) j"
    using load_after_set [OF d r(1) ok] by auto
  have "complete e (jr_id r) s payload d = (Inr j, set_row (jr_id r) ?f d)"
    using s st upd j(1) unfolding completion_row_def
    by (auto simp: complete_def op_eval now t(1) j0(1) Let_def)
  with j ok t(1) show ?thesis by blast
qed

lemma complete_refused:
  assumes e: "store_ok e d" and json: "json_ok e payload" and now: "now_millis e = Inr now"
    and r: "r \<in> set (jobs d)" "has_status u r" "u \<noteq> Running" and s: "s \<in> {Succeeded, Failed}"
  shows "complete e (jr_id r) s payload d = (Inl (InvalidTransition u s), d)"
proof -
  obtain t where t: "json_to_string e payload = Inr t" using json by (auto simp: json_ok_def split: sum.splits)
  obtain j0 where j0: "load_job e (jr_id r) d = (Inr j0, d)" "row_view r j0"
    using load_job_ok [OF e r(1)] by blast
  have st: "job_status j0 = u" using j0(2) r(2) by (rule row_view_status)
  then show ?thesis using s r(3) by (auto simp: complete_def op_eval now t j0(1))
qed

end
