(* ===== verification/StateClaim.thy ===== *)
theory StateClaim
  imports StateGuards
begin

text \<open>
  The queue side of the state store: which job a claim takes and what it writes, progress reports
  and promotions.  A claim takes the job that the declarative order puts first among the pending
  jobs no executing job has the key of, and it never fails on a database inside the schema.
\<close>

section \<open>The first row of an order\<close>

interpretation claim_sort: total_preorder claim_order
  by unfold_locales (auto simp: claim_order_def)

interpretation list_sort: total_preorder newest_first
  by unfold_locales (auto simp: newest_first_def)

lemma next_claim_None: "next_claim d = None \<longleftrightarrow> (\<forall>r \<in> set (jobs d). \<not> claimable d r)"
proof -
  have "next_claim d = None \<longleftrightarrow> sort_by claim_order (filter (claimable d) (jobs d)) = []"
    by (cases "sort_by claim_order (filter (claimable d) (jobs d))") (simp_all add: next_claim_def)
  then show ?thesis by (simp add: filter_empty_conv)
qed

lemma next_claim_Some:
  assumes "next_claim d = Some i"
  shows "\<exists>r \<in> set (jobs d). jr_id r = i \<and> claimable d r \<and>
    (\<forall>r' \<in> set (jobs d). claimable d r' \<longrightarrow> claim_order r r')"
proof -
  from assms obtain r rs where s: "sort_by claim_order (filter (claimable d) (jobs d)) = r # rs" "jr_id r = i"
    by (auto simp: next_claim_def split: list.splits)
  from claim_sort.sort_by_head [OF s(1)] s(2) show ?thesis by auto
qed

section \<open>Claiming\<close>

definition claim_row :: "int \<Rightarrow> job_row \<Rightarrow> job_row" where
  "claim_row now r = r\<lparr>jr_status := as_db Running, jr_started_at := Some now,
     jr_provider := PROVIDER_RUST, jr_progress_current := Some 0, jr_progress_total := Some 3,
     jr_progress_message := Some ''runtime_validation''\<rparr>"

lemma claim_row_fields [simp]:
  "jr_id (claim_row now r) = jr_id r" "job_key (claim_row now r) = job_key r"
  "has_status s (claim_row now r) \<longleftrightarrow> s = Running" "is_executing (claim_row now r)"
  "jr_priority (claim_row now r) = jr_priority r" "jr_started_at (claim_row now r) = Some now"
  by (auto simp: claim_row_def job_key_def has_status_def is_executing_def)

lemma set_row_set_row:
  assumes "\<And>x. jr_id (f x) = jr_id x"
  shows "set_row i g (set_row i f d) = set_row i (\<lambda>r. g (f r)) d"
  using assms by (auto simp: set_row_def update_where_def)

text \<open>An update that keeps status, key and the payload columns of one row.\<close>

lemma update_keep:
  assumes e: "store_ok e d" and r: "r \<in> set (jobs d)"
    and P: "\<And>r'. r' \<in> set (jobs d) \<Longrightarrow> P r' \<longleftrightarrow> r' = r"
    and keep: "\<And>x. jr_id (f x) = jr_id x" "\<And>x. job_key (f x) = job_key x" "\<And>x. jr_status (f x) = jr_status x"
      "\<And>x. jr_superseded_by (f x) = jr_superseded_by x"
      "\<And>x. jr_result_json (f x) = jr_result_json x" "\<And>x. jr_error_json (f x) = jr_error_json x"
    and check: "job_check (f r)"
  shows "update_jobs P f d = (Inr 1, set_row (jr_id r) f d) \<and> store_ok e (set_row (jr_id r) f d)"
proof -
  note d = store_okD(1) [OF e]
  have st: "has_status s (f x) = has_status s x" "is_executing (f x) = is_executing x" for s x
    by (simp_all add: has_status_def is_executing_def keep)
  have "update_jobs P f d = (Inr 1, set_row (jr_id r) f d) \<and> schema_ok (set_row (jr_id r) f d)"
    using schema_okD(5) [OF d r] by (intro update_one [OF d r P keep(1,2) check]) (simp_all add: st keep)
  moreover have "payload_ok e (set_row (jr_id r) f d)"
    by (rule payload_ok_set_row [OF store_okD(2) [OF e] keep(5,6)])
  ultimately show ?thesis by (simp add: store_ok_def)
qed

lemma claim_none:
  assumes "now_millis e = Inr now" "\<forall>r \<in> set (jobs d). \<not> claimable d r"
  shows "claim_next_pending e PROVIDER_RUST d = (Inr None, d)"
  using assms(2) by (simp add: claim_next_pending_def op_eval assms(1) next_claim_None [THEN iffD2])

lemma claim_some:
  assumes e: "store_ok e d" and now: "now_millis e = Inr now" and r: "r \<in> set (jobs d)" "claimable d r"
    and first: "next_claim d = Some (jr_id r)"
  shows "\<exists>j. claim_next_pending e PROVIDER_RUST d = (Inr (Some j), set_row (jr_id r) (claim_row now) d) \<and>
    row_view (claim_row now r) j \<and> store_ok e (set_row (jr_id r) (claim_row now) d)"
proof -
  note d = store_okD(1) [OF e]
  have pending: "has_status Pending r" using r(2) by (simp add: claimable_def has_status_def)
  have idle: "\<forall>r' \<in> set (jobs d). job_key r' = job_key r \<longrightarrow> \<not> is_executing r'"
    using r(2) by (auto simp: claimable_def job_key_def is_executing_def has_status_def)
  let ?d = "set_row (jr_id r) (transition_row Pending Running now None) d"
  let ?g = "\<lambda>r. r\<lparr>jr_provider := PROVIDER_RUST, jr_progress_current := Some 0, jr_progress_total := Some 3,
    jr_progress_message := Some ''runtime_validation''\<rparr>"
  let ?t = "transition_row Pending Running now None r"
  have t: "transition_job (jr_id r) Pending Running now None d = (Inr True, ?d)" "schema_ok ?d"
    using transition_job_ok [OF d r(1) pending, of Running None now] idle by auto
  then have e': "store_ok e ?d" using store_ok_transition [OF e] by blast
  have mem: "?t \<in> set (jobs ?d)" using jobs_set_row [OF d r(1)] by simp
  have eq: "?g (transition_row Pending Running now None x) = claim_row now x" for x
    by (simp add: transition_row_def claim_row_def)
  have "job_check ?t" by (rule schema_okD(2) [OF t(2) mem])
  then have check: "job_check (?g ?t)"
    by (simp add: job_check_def check_columns_def check_progress_def check_timestamps_def
        check_payload_def check_superseded_def has_status_def)
  have "update_jobs (\<lambda>r'. jr_id r' = jr_id r) ?g ?d = (Inr 1, set_row (jr_id ?t) ?g ?d) \<and>
      store_ok e (set_row (jr_id ?t) ?g ?d)"
  proof (rule update_keep [OF e' mem])
    fix r' assume "r' \<in> set (jobs ?d)"
    then show "(jr_id r' = jr_id r) = (r' = ?t)"
      using distinct_key_eq [OF schema_okD(1) [OF t(2)] _ mem] by (metis transition_row_fields(1))
  qed (use check in \<open>simp_all add: job_key_def\<close>)
  then have g: "update_jobs (\<lambda>r'. jr_id r' = jr_id r) ?g ?d = (Inr 1, set_row (jr_id r) (claim_row now) d)"
      "store_ok e (set_row (jr_id r) (claim_row now) d)"
    by (simp_all add: set_row_set_row eq)
  obtain j where j: "load_job e (jr_id r) (set_row (jr_id r) (claim_row now) d) =
      (Inr j, set_row (jr_id r) (claim_row now) d)" "row_view (claim_row now r) j"
    using load_after_set [OF d r(1) g(2)] by auto
  have "claim_next_pending e PROVIDER_RUST d = (Inr (Some j), set_row (jr_id r) (claim_row now) d)"
    using t(1) g(1) j(1) by (simp add: claim_next_pending_def op_eval now first)
  with g(2) j(2) show ?thesis by blast
qed

section \<open>Promotion and progress\<close>

lemma promote_raises:
  assumes e: "store_ok e d" and r: "r \<in> set (jobs d)" "has_status Pending r" and p: "jr_priority r < priority_as_db p"
  shows "\<exists>j d'. promote e (jr_id r) p d = (Inr (j, True), d') \<and> store_ok e d' \<and> job_priority j = p \<and>
    d' = set_row (jr_id r) (\<lambda>r. r\<lparr>jr_priority := max (jr_priority r) (priority_as_db p)\<rparr>) d"
proof -
  note d = store_okD(1) [OF e]
  let ?f = "\<lambda>r. r\<lparr>jr_priority := max (jr_priority r) (priority_as_db p)\<rparr>"
  have "job_check r" by (rule schema_okD(2) [OF d r(1)])
  moreover have "max (jr_priority r) (priority_as_db p) \<in> {0, 1}"
    using p calculation by (cases p) (auto simp: job_check_def check_columns_def)
  ultimately have check: "job_check (?f r)"
    by (simp add: job_check_def check_columns_def check_progress_def check_timestamps_def
        check_payload_def check_superseded_def has_status_def del: insert_iff cong: option.case_cong)
  have u: "update_jobs (\<lambda>r'. jr_id r' = jr_id r \<and> jr_status r' = as_db Pending \<and> jr_priority r' < priority_as_db p) ?f d =
      (Inr 1, set_row (jr_id r) ?f d) \<and> store_ok e (set_row (jr_id r) ?f d)"
  proof (rule update_keep [OF e r(1)])
    fix r' assume "r' \<in> set (jobs d)"
    then show "(jr_id r' = jr_id r \<and> jr_status r' = as_db Pending \<and> jr_priority r' < priority_as_db p) = (r' = r)"
      using distinct_key_eq [OF schema_okD(1) [OF d] _ r(1)] r(2) p by (auto simp: has_status_def)
  qed (use check in \<open>simp_all add: job_key_def\<close>)
  then obtain j where j: "load_job e (jr_id r) (set_row (jr_id r) ?f d) = (Inr j, set_row (jr_id r) ?f d)"
      "row_view (?f r) j"
    using load_after_set [OF d r(1), of e ?f] by auto
  have "job_priority j = p"
    using j(2) p by (cases p; cases "job_priority j") (auto simp: row_view_def)
  moreover have "promote e (jr_id r) p d = (Inr (j, True), set_row (jr_id r) ?f d)"
    using u j(1) by (simp add: promote_def op_eval get_def)
  ultimately show ?thesis using u by blast
qed

definition progress_row :: "ProgressUpdate \<Rightarrow> job_row \<Rightarrow> job_row" where
  "progress_row u r = r\<lparr>jr_progress_current := Some (pu_current u), jr_progress_total := Some (pu_total u),
     jr_progress_message := Some (pu_message u)\<rparr>"

lemma update_progress_ok:
  assumes e: "store_ok e d" and r: "r \<in> set (jobs d)" "is_executing r"
    and u: "0 \<le> pu_current u" "pu_current u \<le> pu_total u"
    and mono: "\<And>c. jr_progress_current r = Some c \<Longrightarrow> c \<le> pu_current u"
  shows "\<exists>j. update_progress e (jr_id r) u d = (Inr j, set_row (jr_id r) (progress_row u) d) \<and>
    row_view (progress_row u r) j \<and> store_ok e (set_row (jr_id r) (progress_row u) d)"
proof -
  note d = store_okD(1) [OF e]
  have "job_check r" by (rule schema_okD(2) [OF d r(1)])
  then have check: "job_check (progress_row u r)"
    using u by (auto simp: progress_row_def job_check_def check_columns_def check_progress_def
        check_timestamps_def check_payload_def check_superseded_def has_status_def)
  let ?P = "\<lambda>r'. jr_id r' = jr_id r \<and> jr_status r' \<in> {as_db Running, as_db CancelRequested} \<and>
    (case jr_progress_current r' of None \<Rightarrow> True | Some c \<Rightarrow> c \<le> pu_current u)"
  have up: "update_jobs ?P (progress_row u) d = (Inr 1, set_row (jr_id r) (progress_row u) d) \<and>
      store_ok e (set_row (jr_id r) (progress_row u) d)"
  proof (rule update_keep [OF e r(1)])
    have "?P r" using r(2) mono by (auto simp: is_executing_def has_status_def split: option.split)
    then show "?P r' = (r' = r)" if "r' \<in> set (jobs d)" for r'
      using distinct_key_eq [OF schema_okD(1) [OF d] that r(1)] by blast
  qed (use check in \<open>simp_all add: job_key_def progress_row_def\<close>)
  then obtain j where j: "load_job e (jr_id r) (set_row (jr_id r) (progress_row u) d) =
      (Inr j, set_row (jr_id r) (progress_row u) d)" "row_view (progress_row u r) j"
    using load_after_set [OF d r(1), of e "progress_row u"] by (auto simp: progress_row_def)
  have "update_progress e (jr_id r) u d = (Inr j, set_row (jr_id r) (progress_row u) d)"
    using up j(1) u unfolding update_progress_def progress_row_def by (simp add: op_eval get_def)
  with up j show ?thesis by blast
qed

end
