(* ===== verification/StateSubmit.thy ===== *)
theory StateSubmit
  imports StateClaim
begin

text \<open>
  Submission.  A submitted file is either absorbed by the pending full scan of its project, merged
  into the pending job of the same file, or queued as a new job; a full scan is refused while one
  is active and otherwise supersedes every pending file job of its project.  Each case comes with
  the exact table it leaves.
\<close>

section \<open>Registering the project\<close>

lemma upsert_ok:
  assumes d: "schema_ok d" and now: "0 \<le> now"
    and clock: "\<And>p. p \<in> set (projects d) \<Longrightarrow> pr_project_key p = key \<Longrightarrow> pr_created_at p \<le> now"
  shows "\<exists>d1 p. upsert_project key path db_path now d = (Inr (), d1) \<and> schema_ok d1 \<and> jobs d1 = jobs d \<and>
    find (\<lambda>p. pr_project_key p = key) (projects d1) = Some p \<and> p \<in> set (projects d1) \<and> pr_project_path p = path \<and>
    pr_db_path p = db_path \<and> pr_last_seen_at p = now"
proof -
  let ?f = "\<lambda>p. p\<lparr>pr_project_path := path, pr_db_path := db_path, pr_last_seen_at := now\<rparr>"
  let ?new = "\<lparr>pr_id = next_rowid (map pr_id (projects d)), pr_project_key = key,
    pr_project_path = path, pr_db_path = db_path, pr_created_at = now, pr_last_seen_at = now\<rparr>"
  let ?old = "\<exists>p \<in> set (projects d). pr_project_key p = key"
  let ?ps = "if ?old then update_where (\<lambda>p. pr_project_key p = key) ?f (projects d) else projects d @ [?new]"
  have P: "projects_ok (projects d)" using d by (simp add: schema_ok_def)
  have ok: "projects_ok ?ps"
  proof (cases ?old)
    case True
    have "map pr_id (update_where (\<lambda>p. pr_project_key p = key) ?f (projects d)) = map pr_id (projects d)"
      "map pr_project_key (update_where (\<lambda>p. pr_project_key p = key) ?f (projects d)) = map pr_project_key (projects d)"
      by (rule map_update_where, simp)+
    then show ?thesis
      using True P clock by (auto simp: projects_ok_def list_all_iff set_update_where project_check_def)
  next
    case False
    then show ?thesis
      using P now next_rowid_fresh [of "map pr_id (projects d)"]
      by (auto simp: projects_ok_def project_check_def)
  qed
  then have eq: "upsert_project key path db_path now d = (Inr (), d\<lparr>projects := ?ps\<rparr>)"
    by (simp add: upsert_project_def)
  have "\<exists>p. find (\<lambda>p. pr_project_key p = key) ?ps = Some p \<and> pr_project_path p = path \<and>
      pr_db_path p = db_path \<and> pr_last_seen_at p = now"
  proof (cases ?old)
    case True
    then obtain p where "find (\<lambda>p. pr_project_key p = key) (projects d) = Some p"
      by (cases "find (\<lambda>p. pr_project_key p = key) (projects d)") (auto simp: find_None_mem)
    moreover from this have "pr_project_key p = key" by (auto dest: find_Some_iff_mem)
    moreover have "find (\<lambda>p. pr_project_key p = key) (update_where (\<lambda>p. pr_project_key p = key) ?f (projects d)) =
        map_option (\<lambda>p. if pr_project_key p = key then ?f p else p) (find (\<lambda>p. pr_project_key p = key) (projects d))"
      by (rule find_update_where) simp
    ultimately show ?thesis using True by simp
  next
    case False
    have "find P (xs @ [x]) = Some x" if "\<forall>y \<in> set xs. \<not> P y" "P x" for P and xs :: "project_row list" and x
      using that by (induction xs) auto
    then have "find (\<lambda>p. pr_project_key p = key) (projects d @ [?new]) = Some ?new" using False by auto
    then show ?thesis using False by simp
  qed
  then obtain p where p: "find (\<lambda>p. pr_project_key p = key) ?ps = Some p" "pr_project_path p = path"
      "pr_db_path p = db_path" "pr_last_seen_at p = now" by blast
  have "p \<in> set ?ps" using find_Some_iff_mem [OF p(1)] by (rule conjunct1)
  moreover have "schema_ok (d\<lparr>projects := ?ps\<rparr>)"
    using op_evolves_upsert_project eq d unfolding op_evolves_def by blast
  ultimately show ?thesis
    using eq p by (intro exI [of _ "d\<lparr>projects := ?ps\<rparr>"] exI [of _ p]) (simp del: find_None_mem)
qed

section \<open>Appending a row\<close>

definition append_row :: "job_row \<Rightarrow> db \<Rightarrow> db" where
  "append_row r d = d\<lparr>jobs := jobs d @ [r\<lparr>jr_id := next_rowid (map jr_id (jobs d))\<rparr>]\<rparr>"

lemma append_row_select [simp]:
  "projects (append_row r d) = projects d" "published (append_row r d) = published d"
  by (simp_all add: append_row_def)

lemma new_row_fields [simp]:
  "job_key (r\<lparr>jr_id := i\<rparr>) = job_key r" "has_status s (r\<lparr>jr_id := i\<rparr>) = has_status s r"
  "is_executing (r\<lparr>jr_id := i\<rparr>) = is_executing r" "job_check (r\<lparr>jr_id := i\<rparr>) = job_check r"
  by (simp_all add: job_key_def has_status_def is_executing_def job_check_def check_columns_def
      check_progress_def check_timestamps_def check_payload_def check_superseded_def
      cong: option.case_cong)

lemma insert_job_ok:
  assumes e: "store_ok e d" and check: "job_check r" and proj: "jr_project_id r \<in> pr_id ` set (projects d)"
    and sup: "\<And>i. jr_superseded_by r = Some i \<Longrightarrow> i \<in> jr_id ` set (jobs d)"
    and pend: "has_status Pending r \<Longrightarrow> (\<And>r'. r' \<in> set (jobs d) \<Longrightarrow> has_status Pending r' \<Longrightarrow> job_key r' \<noteq> job_key r)"
    and exec: "\<not> is_executing r" and json: "jr_result_json r = None" "jr_error_json r = None"
  shows "insert_job r d = (Inr (next_rowid (map jr_id (jobs d))), append_row r d) \<and> store_ok e (append_row r d)"
proof -
  let ?r = "r\<lparr>jr_id := next_rowid (map jr_id (jobs d))\<rparr>"
  have "jobs_ok (projects d) (jobs d @ [?r])"
    by (rule jobs_ok_insert)
      (use store_okD(1) [OF e] check proj sup pend exec in \<open>auto simp: schema_ok_def\<close>)
  moreover from this have "schema_ok (append_row r d)"
    unfolding append_row_def by (rule schema_ok_jobs_update [OF store_okD(1) [OF e]])
  moreover have "payload_ok e (append_row r d)"
    using store_okD(2) [OF e] json by (auto simp: payload_ok_def append_row_def)
  ultimately show ?thesis by (simp add: insert_job_def append_row_def store_ok_def Let_def)
qed

lemma load_appended:
  assumes "store_ok e (append_row r d)"
  shows "\<exists>j. load_job e (next_rowid (map jr_id (jobs d))) (append_row r d) = (Inr j, append_row r d) \<and>
    row_view (r\<lparr>jr_id := next_rowid (map jr_id (jobs d))\<rparr>) j"
  using load_job_ok [OF assms, of "r\<lparr>jr_id := next_rowid (map jr_id (jobs d))\<rparr>"]
  by (simp add: append_row_def)

section \<open>Submitting a file\<close>

definition queued_row :: "int \<Rightarrow> string \<Rightarrow> string \<Rightarrow> JobPriority \<Rightarrow> int \<Rightarrow> job_row" where
  "queued_row pid db_path file_path p now =
     new_job_row pid JOB_TYPE_INCREMENTAL db_path file_path (priority_as_db p) Pending now (''incremental_scan:'' @ file_path)"

definition absorbed_row :: "int \<Rightarrow> string \<Rightarrow> string \<Rightarrow> JobPriority \<Rightarrow> int \<Rightarrow> int \<Rightarrow> job_row" where
  "absorbed_row pid db_path file_path p now k =
     (new_job_row pid JOB_TYPE_INCREMENTAL db_path file_path (priority_as_db p) Superseded now (''incremental_scan:'' @ file_path))
       \<lparr>jr_finished_at := Some now, jr_superseded_by := Some k\<rparr>"

definition merged_row :: "JobPriority \<Rightarrow> job_row \<Rightarrow> job_row" where
  "merged_row p r = r\<lparr>jr_priority := max (jr_priority r) (priority_as_db p)\<rparr>"

definition pending_full :: "int \<Rightarrow> job_row \<Rightarrow> bool" where
  "pending_full pid r \<longleftrightarrow> jr_project_id r = pid \<and> jr_job_type r = JOB_TYPE_FULL_SCAN \<and> has_status Pending r"

definition pending_file :: "int \<Rightarrow> string \<Rightarrow> job_row \<Rightarrow> bool" where
  "pending_file pid file r \<longleftrightarrow> job_key r = (pid, JOB_TYPE_INCREMENTAL, ''incremental_scan:'' @ file) \<and> has_status Pending r"

lemma select_pending_full:
  "select_job (\<lambda>r. jr_project_id r = pid \<and> jr_job_type r = JOB_TYPE_FULL_SCAN \<and> jr_status r = as_db Pending) =
    select_job (pending_full pid)"
  by (simp add: pending_full_def [abs_def] has_status_def)

lemma select_pending_file:
  "select_job (\<lambda>r. jr_project_id r = pid \<and> jr_job_type r = JOB_TYPE_INCREMENTAL \<and>
     jr_dedupe_key r = ''incremental_scan:'' @ file \<and> jr_status r = as_db Pending) = select_job (pending_file pid file)"
  by (simp add: pending_file_def [abs_def] has_status_def job_key_def conj_assoc)

text \<open>The statements after the project row is known.\<close>

definition submit_file :: "env \<Rightarrow> int \<Rightarrow> string \<Rightarrow> string \<Rightarrow> JobPriority \<Rightarrow> int \<Rightarrow> SubmitResult dbop" where
  "submit_file e pid db_path file_path p now =
     op_bind (op_get (select_job (pending_full pid))) (\<lambda>absorbing.
     case absorbing of
       Some k \<Rightarrow> op_bind (insert_job (absorbed_row pid db_path file_path p now k)) (\<lambda>rowid.
         op_bind (load_job e rowid) (\<lambda>job. op_return (job, True)))
     | None \<Rightarrow> op_bind (op_get (select_job (pending_file pid file_path))) (\<lambda>existing.
         op_bind (case existing of
             Some i \<Rightarrow> op_bind (update_jobs (\<lambda>r. jr_id r = i) (merged_row p)) (\<lambda>_. op_return (i, False))
           | None \<Rightarrow> op_bind (insert_job (queued_row pid db_path file_path p now)) (\<lambda>rowid. op_return (rowid, True)))
           (\<lambda>(i, created). op_bind (load_job e i) (\<lambda>job. op_return (job, created)))))"

lemma submit_via_file:
  assumes "normalize_existing_project e (sj_project_path q) = Inr project_path"
    "normalize_database_path e (sj_db_path q) = Inr db_path"
    "normalize_source_path (sj_file_path q) = Inr file_path" "now_millis e = Inr now"
  shows "submit e q =
    transaction (op_bind (upsert_project (project_key project_path) project_path db_path now) (\<lambda>_.
      op_bind (op_get (\<lambda>d. map_option pr_id (find (\<lambda>p. pr_project_key p = project_key project_path) (projects d)))) (\<lambda>pid.
      case pid of None \<Rightarrow> op_fail (Sqlite (OtherSqliteError ''Query returned no rows''))
      | Some pid \<Rightarrow> submit_file e pid db_path file_path (sj_priority q) now)))"
proof -
  have lift: "op_bind (op_lift (Inr a)) k = k a" for a and k :: "'a \<Rightarrow> 'b dbop"
    by (rule ext) (simp add: op_eval)
  show ?thesis
    unfolding submit_def submit_file_def assms lift absorbed_row_def queued_row_def merged_row_def Let_def
      select_pending_full select_pending_file ..
qed

lemma select_job_None: "select_job P d = None \<longleftrightarrow> (\<forall>r \<in> set (jobs d). \<not> P r)"
  by (simp add: select_job_def find_None_mem)

lemma select_job_Some: "select_job P d = Some i \<Longrightarrow> \<exists>r \<in> set (jobs d). jr_id r = i \<and> P r"
  by (auto simp: select_job_def dest: find_Some_iff_mem)

lemma new_rows_check:
  assumes "0 \<le> now"
  shows "job_check (queued_row pid db file p now)" "job_check (absorbed_row pid db file p now k)"
  using assms
  by (cases p; simp add: queued_row_def absorbed_row_def new_job_row_def job_check_def check_columns_def
      check_progress_def check_timestamps_def check_payload_def check_superseded_def has_status_def
      PROVIDER_RUST_def all_statuses_def)+

lemma new_rows_fields [simp]:
  "job_key (queued_row pid db file p now) = (pid, JOB_TYPE_INCREMENTAL, ''incremental_scan:'' @ file)"
  "job_key (absorbed_row pid db file p now k) = (pid, JOB_TYPE_INCREMENTAL, ''incremental_scan:'' @ file)"
  "has_status s (queued_row pid db file p now) \<longleftrightarrow> s = Pending"
  "has_status s (absorbed_row pid db file p now k) \<longleftrightarrow> s = Superseded"
  "jr_superseded_by (queued_row pid db file p now) = None"
  "jr_superseded_by (absorbed_row pid db file p now k) = Some k"
  "jr_project_id (queued_row pid db file p now) = pid"
  "jr_project_id (absorbed_row pid db file p now k) = pid"
  "jr_result_json (queued_row pid db file p now) = None" "jr_error_json (queued_row pid db file p now) = None"
  "jr_result_json (absorbed_row pid db file p now k) = None" "jr_error_json (absorbed_row pid db file p now k) = None"
  by (auto simp: queued_row_def absorbed_row_def new_job_row_def job_key_def has_status_def)

lemma submit_file_absorbed:
  assumes e: "store_ok e d" and pid: "pid \<in> pr_id ` set (projects d)" and now: "0 \<le> now"
    and full: "select_job (pending_full pid) d = Some k"
  shows "\<exists>j. submit_file e pid db_path file p now d = (Inr (j, True), append_row (absorbed_row pid db_path file p now k) d) \<and>
    store_ok e (append_row (absorbed_row pid db_path file p now k) d) \<and>
    job_status j = Superseded \<and> job_superseded_by j = Some k"
proof -
  let ?r = "absorbed_row pid db_path file p now k"
  have ins: "insert_job ?r d = (Inr (next_rowid (map jr_id (jobs d))), append_row ?r d) \<and> store_ok e (append_row ?r d)"
    using select_job_Some [OF full] pid
    by (intro insert_job_ok [OF e new_rows_check(2) [OF now]]) (auto simp: is_executing_def)
  obtain j where j: "load_job e (next_rowid (map jr_id (jobs d))) (append_row ?r d) = (Inr j, append_row ?r d)"
      "row_view (?r\<lparr>jr_id := next_rowid (map jr_id (jobs d))\<rparr>) j"
    using load_appended ins by blast
  have "job_status j = Superseded" using row_view_status [OF j(2), of Superseded] by simp
  moreover have "submit_file e pid db_path file p now d = (Inr (j, True), append_row ?r d)"
    using ins j(1) full by (simp add: submit_file_def op_eval)
  ultimately show ?thesis using ins j(2) by (auto simp: row_view_def)
qed

lemma submit_file_queued:
  assumes e: "store_ok e d" and pid: "pid \<in> pr_id ` set (projects d)" and now: "0 \<le> now"
    and full: "select_job (pending_full pid) d = None" and nofile: "select_job (pending_file pid file) d = None"
  shows "\<exists>j. submit_file e pid db_path file p now d = (Inr (j, True), append_row (queued_row pid db_path file p now) d) \<and>
    store_ok e (append_row (queued_row pid db_path file p now) d) \<and> job_status j = Pending"
proof -
  let ?r = "queued_row pid db_path file p now"
  have ins: "insert_job ?r d = (Inr (next_rowid (map jr_id (jobs d))), append_row ?r d) \<and> store_ok e (append_row ?r d)"
    using nofile pid by (intro insert_job_ok [OF e new_rows_check(1) [OF now]])
      (auto simp: is_executing_def select_job_None pending_file_def)
  obtain j where j: "load_job e (next_rowid (map jr_id (jobs d))) (append_row ?r d) = (Inr j, append_row ?r d)"
      "row_view (?r\<lparr>jr_id := next_rowid (map jr_id (jobs d))\<rparr>) j"
    using load_appended ins by blast
  have "job_status j = Pending" using row_view_status [OF j(2), of Pending] by simp
  moreover have "submit_file e pid db_path file p now d = (Inr (j, True), append_row ?r d)"
    using ins j(1) full nofile
    by (simp add: submit_file_def op_eval)
  ultimately show ?thesis using ins by blast
qed

lemma merged_row_fields [simp]:
  "jr_id (merged_row p r) = jr_id r" "job_key (merged_row p r) = job_key r" "jr_status (merged_row p r) = jr_status r"
  "jr_superseded_by (merged_row p r) = jr_superseded_by r"
  "jr_result_json (merged_row p r) = jr_result_json r" "jr_error_json (merged_row p r) = jr_error_json r"
  "jr_priority (merged_row p r) = max (jr_priority r) (priority_as_db p)"
  by (simp_all add: merged_row_def job_key_def)

lemma merged_row_check:
  assumes "job_check r" shows "job_check (merged_row p r)"
proof -
  have "max (jr_priority r) (priority_as_db p) \<in> {0, 1}"
    using assms by (cases p) (auto simp: job_check_def check_columns_def)
  then show ?thesis
    using assms by (simp add: merged_row_def job_check_def check_columns_def check_progress_def check_timestamps_def
        check_payload_def check_superseded_def has_status_def del: insert_iff cong: option.case_cong)
qed

lemma submit_file_merged:
  assumes e: "store_ok e d" and r: "r \<in> set (jobs d)" "pending_file pid file r"
    and full: "select_job (pending_full pid) d = None"
  shows "\<exists>j. submit_file e pid db_path file p now d = (Inr (j, False), set_row (jr_id r) (merged_row p) d) \<and>
    store_ok e (set_row (jr_id r) (merged_row p) d) \<and> row_view (merged_row p r) j"
proof -
  note d = store_okD(1) [OF e]
  have uniq: "r' = r" if "r' \<in> set (jobs d)" "pending_file pid file r'" for r'
    using that r d distinct_filter_key_eq [of job_key "has_status Pending" "jobs d" r' r]
    by (simp add: schema_ok_def jobs_ok_def jobs_one_pending_def pending_file_def)
  then have sel: "select_job (pending_file pid file) d = Some (jr_id r)"
    using find_unique [of "jobs d" "pending_file pid file" r, OF uniq r] by (simp add: select_job_def)
  have u: "update_jobs (\<lambda>r'. jr_id r' = jr_id r) (merged_row p) d = (Inr 1, set_row (jr_id r) (merged_row p) d) \<and>
      store_ok e (set_row (jr_id r) (merged_row p) d)"
  proof (rule update_keep [OF e r(1)])
    show "(jr_id r' = jr_id r) = (r' = r)" if "r' \<in> set (jobs d)" for r'
      using distinct_key_eq [OF schema_okD(1) [OF d] that r(1)] by blast
  qed (simp_all add: merged_row_check [OF schema_okD(2) [OF d r(1)]])
  obtain j where j: "load_job e (jr_id r) (set_row (jr_id r) (merged_row p) d) = (Inr j, set_row (jr_id r) (merged_row p) d)"
      "row_view (merged_row p r) j"
    using load_after_set [OF d r(1), of e "merged_row p"] u by auto
  have "submit_file e pid db_path file p now d = (Inr (j, False), set_row (jr_id r) (merged_row p) d)"
    using u j(1) full sel by (simp add: submit_file_def op_eval)
  with u j(2) show ?thesis by blast
qed

end
