(* ===== verification/StateFullScan.thy ===== *)
theory StateFullScan
  imports StateSubmit
begin

text \<open>
  Full scans.  A project has at most one full scan that is pending or executing, whatever sequence
  of operations runs; and while a full scan of a project is pending, no file job of the project is
  pending beside it, as long as no recovery runs.  The locale \<open>row_invariant\<close> gathers what the two
  invariants need of the statements; its lemmas cover the operations that only rewrite rows.
\<close>

section \<open>Submitting a full scan\<close>

definition full_row :: "project_row \<Rightarrow> int \<Rightarrow> job_row" where
  "full_row p now = new_job_row (pr_id p) JOB_TYPE_FULL_SCAN (pr_db_path p) ''.'' 0 Pending now FULL_SCAN_DEDUPE_KEY"

definition pending_incremental :: "int \<Rightarrow> job_row \<Rightarrow> bool" where
  "pending_incremental pid r \<longleftrightarrow> jr_project_id r = pid \<and> jr_job_type r = JOB_TYPE_INCREMENTAL \<and> has_status Pending r"

definition active_full :: "int \<Rightarrow> job_row \<Rightarrow> bool" where
  "active_full pid r \<longleftrightarrow> jr_project_id r = pid \<and> jr_job_type r = JOB_TYPE_FULL_SCAN \<and>
     (has_status Pending r \<or> is_executing r)"

text \<open>The table after a full scan has been queued.\<close>

definition absorb_into :: "project_row \<Rightarrow> int \<Rightarrow> db \<Rightarrow> db" where
  "absorb_into p now d =
     (let k = next_rowid (map jr_id (jobs d)); d' = append_row (full_row p now) d
      in d'\<lparr>jobs := update_where (pending_incremental (pr_id p)) (transition_row Pending Superseded now (Some k)) (jobs d')\<rparr>)"

lemma job_types_differ [simp]: "JOB_TYPE_FULL_SCAN \<noteq> JOB_TYPE_INCREMENTAL" "JOB_TYPE_INCREMENTAL \<noteq> JOB_TYPE_FULL_SCAN"
  by (simp_all add: JOB_TYPE_FULL_SCAN_def JOB_TYPE_INCREMENTAL_def)

lemma full_row_fields [simp]:
  "job_key (full_row p now) = (pr_id p, JOB_TYPE_FULL_SCAN, FULL_SCAN_DEDUPE_KEY)"
  "has_status s (full_row p now) \<longleftrightarrow> s = Pending" "jr_superseded_by (full_row p now) = None"
  "jr_project_id (full_row p now) = pr_id p" "jr_job_type (full_row p now) = JOB_TYPE_FULL_SCAN"
  "jr_result_json (full_row p now) = None" "jr_error_json (full_row p now) = None"
  by (auto simp: full_row_def new_job_row_def job_key_def has_status_def)

lemma full_row_check: "0 \<le> now \<Longrightarrow> job_check (full_row p now)"
  by (simp add: full_row_def new_job_row_def job_check_def check_columns_def
      check_progress_def check_timestamps_def check_payload_def check_superseded_def has_status_def
      PROVIDER_RUST_def all_statuses_def)

lemma select_active_full:
  "select_job (\<lambda>r. jr_project_id r = pid \<and> jr_job_type r = JOB_TYPE_FULL_SCAN \<and>
     jr_status r \<in> {as_db Pending, as_db Running, as_db CancelRequested}) = select_job (active_full pid)"
  by (simp add: active_full_def [abs_def] has_status_def is_executing_def)

lemma absorb_update:
  "update_jobs (\<lambda>r. jr_project_id r = pid \<and> jr_job_type r = JOB_TYPE_INCREMENTAL \<and> jr_status r = as_db Pending)
     (\<lambda>r. r\<lparr>jr_status := as_db Superseded, jr_finished_at := Some now, jr_superseded_by := Some k\<rparr>) =
   update_jobs (pending_incremental pid) (transition_row Pending Superseded now (Some k))"
  by (simp add: pending_incremental_def [abs_def] has_status_def transition_row_def [abs_def])

lemmas submit_full_scan_eq = submit_full_scan_def [unfolded select_active_full absorb_update]

lemma submit_full_scan_unregistered:
  assumes "now_millis e = Inr now" "find_project pid d = None"
  shows "submit_full_scan e pid d = (Inl (InvalidInput (''project '' @ int_to_string pid @ '' is not registered'')), d)"
  using assms(2) by (simp add: submit_full_scan_def op_eval assms(1))

lemma submit_full_scan_existing:
  assumes e: "store_ok e d" and now: "now_millis e = Inr now" and p: "find_project pid d = Some p"
    and r: "r \<in> set (jobs d)" and sel: "select_job (active_full pid) d = Some (jr_id r)"
  shows "\<exists>j. submit_full_scan e pid d = (Inr (j, False), d) \<and> row_view r j"
proof -
  obtain j where "load_job e (jr_id r) d = (Inr j, d)" "row_view r j" using load_job_ok [OF e r] by blast
  then show ?thesis
    using sel by (auto simp: submit_full_scan_eq op_eval now p)
qed

lemma submit_full_scan_queued:
  assumes e: "store_ok e d" and now: "now_millis e = Inr now" "0 \<le> now" and p: "find_project pid d = Some p"
    and sel: "select_job (active_full pid) d = None"
  shows "\<exists>j. submit_full_scan e pid d = (Inr (j, True), absorb_into p now d) \<and> store_ok e (absorb_into p now d) \<and>
    job_status j = Pending \<and> job_job_type j = JOB_TYPE_FULL_SCAN"
proof -
  let ?k = "next_rowid (map jr_id (jobs d))"
  let ?d = "append_row (full_row p now) d"
  let ?f = "transition_row Pending Superseded now (Some ?k)"
  have pid: "pr_id p = pid" "pid \<in> pr_id ` set (projects d)"
    using p by (auto simp: find_project_def dest: find_Some_iff_mem)
  have ins: "insert_job (full_row p now) d = (Inr ?k, ?d) \<and> store_ok e ?d"
    using sel pid now(2)
    by (intro insert_job_ok [OF e full_row_check])
      (auto simp: is_executing_def select_job_None active_full_def job_key_def)
  note d1 = store_okD(1) [OF conjunct2 [OF ins]]
  have new: "full_row p now\<lparr>jr_id := ?k\<rparr> \<in> set (jobs ?d)" by (simp add: append_row_def)
  have old: "has_status Pending x" if "pending_incremental pid x" for x using that by (simp add: pending_incremental_def)
  have "jobs_ok (projects ?d) (update_where (pending_incremental pid) ?f (jobs ?d))"
  proof (rule jobs_ok_update)
    show "jobs_ok (projects ?d) (jobs ?d)" using d1 by (simp add: schema_ok_def)
    show "job_check (?f x)" if "x \<in> set (jobs ?d)" "pending_incremental pid x" for x
      by (rule transition_row_check [OF schema_okD(2) [OF d1 that(1)] old [OF that(2)]]) simp_all
    show "case jr_superseded_by (?f x) of None \<Rightarrow> True | Some i \<Rightarrow> i \<in> jr_id ` set (jobs ?d)"
      if "x \<in> set (jobs ?d)" "pending_incremental pid x" for x
      using new by (force simp: transition_row_def)
  qed (simp_all add: executing_def)
  then have upd: "update_jobs (pending_incremental pid) ?f ?d =
      (Inr (count_where (pending_incremental pid) (jobs ?d)), absorb_into p now d)"
    and d2: "schema_ok (absorb_into p now d)"
    using d1 by (simp_all add: update_jobs_def absorb_into_def Let_def pid schema_ok_jobs_update)
  have "payload_ok e (absorb_into p now d)"
    using store_okD(2) [OF conjunct2 [OF ins]]
    by (auto simp: payload_ok_def absorb_into_def Let_def set_update_where split: if_splits)
  with d2 have e2: "store_ok e (absorb_into p now d)" by (simp add: store_ok_def)
  have "full_row p now\<lparr>jr_id := ?k\<rparr> \<in> set (jobs (absorb_into p now d))"
    using new by (force simp: absorb_into_def Let_def set_update_where pending_incremental_def)
  from load_job_ok [OF e2 this] obtain j where
      j: "load_job e ?k (absorb_into p now d) = (Inr j, absorb_into p now d)"
        "row_view (full_row p now\<lparr>jr_id := ?k\<rparr>) j" by auto
  have "job_status j = Pending" using row_view_status [OF j(2), of Pending] by simp
  moreover have "submit_full_scan e pid d = (Inr (j, True), absorb_into p now d)"
    using sel ins upd j(1) p
    by (simp add: submit_full_scan_eq op_eval now(1) full_row_def pid(1))
  ultimately show ?thesis using e2 j(2) by (auto simp: row_view_def)
qed

section \<open>Invariants of sequences of operations\<close>

definition keeps :: "(db \<Rightarrow> bool) \<Rightarrow> 'a dbop \<Rightarrow> bool" where
  "keeps J m \<longleftrightarrow> (\<forall>d. J d \<longrightarrow> J (snd (m d)))"

named_theorems keeping \<open>introduction rules for keeps\<close>

lemma keeps_basic [keeping, simp]:
  "keeps J (op_return a)" "keeps J (op_fail x)" "keeps J (op_lift r)" "keeps J (op_read f)" "keeps J (op_get g)"
  by (auto simp: keeps_def op_basic_simps)

lemma keeps_bind [keeping]: "keeps J m \<Longrightarrow> (\<And>a. keeps J (k a)) \<Longrightarrow> keeps J (op_bind m k)"
  unfolding keeps_def by (auto simp: op_bind_def split: prod.split sum.split)

lemma keeps_transaction [keeping]: "keeps J m \<Longrightarrow> keeps J (transaction m)"
  unfolding keeps_def by (auto simp: transaction_def split: prod.split sum.split)

lemma keeps_if [keeping]: "(c \<Longrightarrow> keeps J m) \<Longrightarrow> (\<not> c \<Longrightarrow> keeps J n) \<Longrightarrow> keeps J (if c then m else n)"
  by simp

lemma keeps_option [keeping]: "keeps J m \<Longrightarrow> (\<And>x. keeps J (k x)) \<Longrightarrow> keeps J (case v of None \<Rightarrow> m | Some x \<Rightarrow> k x)"
  by (cases v) simp_all

lemma keeps_for_rows [keeping]: "(\<And>r a. keeps J (body r a)) \<Longrightarrow> keeps J (for_rows body rs acc)"
  by (induction rs arbitrary: acc) (auto intro: keeps_bind)

lemma keeps_load [keeping]: "keeps J (load_job e i)" "keeps J (get e i)"
  by (simp_all add: load_job_def get_def)

text \<open>
  An invariant that survives every update which moves rows along their lifecycle without putting
  one back in the queue.
\<close>

locale row_invariant =
  fixes J :: "db \<Rightarrow> bool"
  assumes keeps_update: "(\<And>r. P r \<Longrightarrow> row_evolves r (f r) \<and> (has_status Pending (f r) \<longrightarrow> has_status Pending r)) \<Longrightarrow>
      keeps J (update_jobs P f)"
    and same_jobs: "J d \<Longrightarrow> schema_ok d' \<Longrightarrow> jobs d' = jobs d \<Longrightarrow> J d'"
    and schema: "J d \<Longrightarrow> schema_ok d"
begin

lemma keeps_transition: "dst \<noteq> Pending \<Longrightarrow> keeps J (transition_job i src dst now k)"
  unfolding transition_job_def Let_def
  by (intro keeping keeps_update conjI; (rule row_evolves_status [of src _ dst])?)
    (auto simp: has_status_def job_key_def lifecycle_step)

lemma keeps_same_status:
  "(\<And>r. jr_status (f r) = jr_status r \<and> jr_id (f r) = jr_id r \<and> job_key (f r) = job_key r \<and>
     jr_target_db_path (f r) = jr_target_db_path r \<and> jr_file_path (f r) = jr_file_path r \<and>
     jr_created_at (f r) = jr_created_at r \<and> jr_priority r \<le> jr_priority (f r)) \<Longrightarrow> keeps J (update_jobs P f)"
  by (rule keeps_update) (auto intro: row_evolves_same_status simp: has_status_def)

lemma keeps_promote: "keeps J (promote e i p)"
  unfolding promote_def by (intro keeping keeps_same_status) (simp add: job_key_def)

lemma keeps_claim: "keeps J (claim_next_pending e p)"
  unfolding claim_next_pending_def
  by (intro keeping keeps_same_status keeps_transition) (simp_all add: job_key_def)

lemma keeps_progress: "keeps J (update_progress e i u)"
  unfolding update_progress_def by (intro keeping keeps_same_status) (simp add: job_key_def)

lemma keeps_complete: "keeps J (complete e i s v)"
proof -
  have life: "lifecycle Running s" if "s = Succeeded \<or> s = Failed"
    using that by (auto intro: lifecycle_step)
  show ?thesis
    unfolding complete_def Let_def
    by (intro keeping keeps_update conjI; (rule row_evolves_status [of Running _ s])?)
      (auto simp: has_status_def job_key_def life)
qed

lemma keeps_confirm: "keeps J (confirm_cancelled e i)"
  unfolding confirm_cancelled_def by (intro keeping keeps_transition) simp

lemma keeps_cancel: "keeps J (cancel e i)"
proof -
  have "keeps J (case s of Pending \<Rightarrow> transition_job i Pending Cancelled now None
      | Running \<Rightarrow> transition_job i Running CancelRequested now None
      | CancelRequested \<Rightarrow> op_return False | Cancelled \<Rightarrow> op_return False
      | s \<Rightarrow> op_fail (NotCancellable s))" for s now
    by (cases s) (auto intro: keeps_transition)
  then show ?thesis unfolding cancel_def by (intro keeping)
qed

lemma keeps_publish: "keeps J (publish_provider e p v s)"
  unfolding keeps_def
proof (intro allI impI)
  fix d assume d: "J d"
  let ?d = "snd (publish_provider e p v s d)"
  have "schema_ok ?d" using op_evolves_snd [OF publish_provider_evolves schema [OF d]] by blast
  moreover have "jobs ?d = jobs d"
    by (auto simp: publish_provider_def op_eval Let_def split: sum.split)
  ultimately show "J ?d" by (rule same_jobs [OF d])
qed

lemma keeps_upsert: "keeps J (upsert_project key path db_path now)"
  unfolding keeps_def
proof (intro allI impI)
  fix d assume d: "J d"
  let ?d = "snd (upsert_project key path db_path now d)"
  have "schema_ok ?d" using op_evolves_snd [OF op_evolves_upsert_project schema [OF d]] by blast
  moreover have "jobs ?d = jobs d"
    using upsert_project_ids [of key path db_path now d "fst (upsert_project key path db_path now d)" ?d] by simp
  ultimately show "J ?d" by (rule same_jobs [OF d])
qed

lemmas keeps_ops = keeps_promote keeps_claim keeps_progress keeps_complete keeps_confirm keeps_cancel keeps_publish

end

section \<open>The two invariants\<close>

definition one_full_scan :: "db \<Rightarrow> bool" where
  "one_full_scan d \<longleftrightarrow> (\<forall>r \<in> set (jobs d). \<forall>r' \<in> set (jobs d).
     active_full (jr_project_id r) r \<and> active_full (jr_project_id r) r' \<longrightarrow> r = r')"

definition folded :: "db \<Rightarrow> bool" where
  "folded d \<longleftrightarrow> (\<forall>f \<in> set (jobs d). \<forall>r \<in> set (jobs d).
     pending_full (jr_project_id f) f \<longrightarrow> \<not> pending_incremental (jr_project_id f) r)"

lemma active_before:
  assumes "row_evolves r r'" "job_check r" "active_full pid r'"
  shows "active_full pid r"
proof -
  from job_check_has_status [OF assms(2)] obtain s where s: "has_status s r" by blast
  then obtain t where t: "has_status t r'" "lifecycle s t" using assms(1) by (auto simp: row_evolves_def)
  have "\<not> terminal t" using assms(3) t(1) by (auto simp: active_full_def is_executing_def has_status_unique terminal_def)
  then have "\<not> terminal s" using t(2) lifecycle_terminal by auto
  then have "s \<in> {Pending, Running, CancelRequested}" by (cases s) (auto simp: terminal_def)
  then show ?thesis
    using s assms(1,3) by (auto simp: active_full_def row_evolves_def job_key_def is_executing_def)
qed

lemma one_full_scan_update:
  assumes d: "schema_ok d" "one_full_scan d" and ev: "\<And>r. P r \<Longrightarrow> row_evolves r (f r)"
  shows "one_full_scan (d\<lparr>jobs := update_where P f (jobs d)\<rparr>)"
proof -
  let ?u = "\<lambda>r. if P r then f r else r"
  have rows: "jobs (d\<lparr>jobs := update_where P f (jobs d)\<rparr>) = map ?u (jobs d)" by (simp add: update_where_def)
  have ev': "row_evolves r (?u r)" for r using ev by simp
  have proj: "jr_project_id (?u r) = jr_project_id r" for r
    using ev' [of r] by (auto simp: row_evolves_def job_key_def)
  have "?u r = ?u r'"
    if "r \<in> set (jobs d)" "r' \<in> set (jobs d)" "active_full (jr_project_id r) (?u r)" "active_full (jr_project_id r) (?u r')" for r r'
  proof -
    have "active_full (jr_project_id r) r" "active_full (jr_project_id r) r'"
      using that active_before [OF ev'] schema_okD(2) [OF d(1)] by blast+
    then have "r = r'" using d(2) that unfolding one_full_scan_def by blast
    then show ?thesis by simp
  qed
  then show ?thesis unfolding one_full_scan_def rows list.set_map ball_simps proj by blast
qed

lemma folded_update:
  assumes d: "folded d" and ev: "\<And>r. P r \<Longrightarrow> row_evolves r (f r) \<and> (has_status Pending (f r) \<longrightarrow> has_status Pending r)"
  shows "folded (d\<lparr>jobs := update_where P f (jobs d)\<rparr>)"
proof -
  let ?u = "\<lambda>r. if P r then f r else r"
  have rows: "jobs (d\<lparr>jobs := update_where P f (jobs d)\<rparr>) = map ?u (jobs d)" by (simp add: update_where_def)
  have ev': "row_evolves r (?u r)" "has_status Pending (?u r) \<Longrightarrow> has_status Pending r" for r using ev by (auto split: if_splits)
  have same: "jr_project_id (?u r) = jr_project_id r" "jr_job_type (?u r) = jr_job_type r" for r
    using ev'(1) [of r] by (auto simp: row_evolves_def job_key_def)
  have "\<not> pending_incremental (jr_project_id f) (?u r)"
    if "f \<in> set (jobs d)" "r \<in> set (jobs d)" "pending_full (jr_project_id f) (?u f)" for f r
    using d that ev'(2) unfolding folded_def pending_incremental_def pending_full_def same by blast
  then show ?thesis unfolding folded_def rows list.set_map ball_simps same by blast
qed

interpretation full_scan_inv: row_invariant "\<lambda>d. schema_ok d \<and> one_full_scan d"
proof
  fix P f assume ev: "\<And>r. P r \<Longrightarrow> row_evolves r (f r) \<and> (has_status Pending (f r) \<longrightarrow> has_status Pending r)"
  then show "keeps (\<lambda>d. schema_ok d \<and> one_full_scan d) (update_jobs P f)"
    by (auto simp: keeps_def update_jobs_def Let_def schema_ok_jobs_update intro!: one_full_scan_update)
qed (auto simp: one_full_scan_def)

interpretation folded_inv: row_invariant "\<lambda>d. schema_ok d \<and> folded d"
proof
  fix P f assume ev: "\<And>r. P r \<Longrightarrow> row_evolves r (f r) \<and> (has_status Pending (f r) \<longrightarrow> has_status Pending r)"
  then show "keeps (\<lambda>d. schema_ok d \<and> folded d) (update_jobs P f)"
    by (auto simp: keeps_def update_jobs_def Let_def schema_ok_jobs_update intro!: folded_update)
qed (auto simp: folded_def)

section \<open>Submissions keep the invariants\<close>

lemma insert_job_outcome: "snd (insert_job r d) = d \<or> snd (insert_job r d) = append_row r d"
  by (simp add: insert_job_def append_row_def Let_def)

lemma load_job_same [simp]: "snd (load_job e i d) = d"
  by (simp add: load_job_def op_basic_simps)

lemma bind_snd_cases: "snd (op_bind m k d) = snd (m d) \<or> (\<exists>a. snd (op_bind m k d) = snd (k a (snd (m d))))"
  by (auto simp: op_bind_def split: prod.split sum.split)

lemma load_and_return [simp]: "snd (op_bind (load_job e i) (\<lambda>j. op_return (g j)) d) = d"
  using bind_snd_cases [of "load_job e i" "\<lambda>j. op_return (g j)" d] by (auto simp: op_basic_simps)

lemma keepsD: "keeps J m \<Longrightarrow> J d \<Longrightarrow> J (snd (m d))"
  by (simp add: keeps_def)

text \<open>An invariant that also survives the rows a submission appends is kept by submissions.\<close>

lemma keeps_submit_file:
  assumes "row_invariant J"
    and absorbed: "\<And>d k. J d \<Longrightarrow> schema_ok (append_row (absorbed_row pid db file p now k) d) \<Longrightarrow>
      J (append_row (absorbed_row pid db file p now k) d)"
    and queued: "\<And>d. J d \<Longrightarrow> schema_ok (append_row (queued_row pid db file p now) d) \<Longrightarrow>
      \<forall>r \<in> set (jobs d). \<not> pending_full pid r \<Longrightarrow> J (append_row (queued_row pid db file p now) d)"
  shows "keeps J (submit_file e pid db file p now)"
  unfolding keeps_def
proof (intro allI impI)
  fix d assume J: "J d"
  note d = row_invariant.schema [OF assms(1) J]
  have ins: "J (snd (insert_job r d))" if "schema_ok (append_row r d) \<Longrightarrow> J (append_row r d)" for r
    using insert_job_outcome [of r d] that J insert_job_schema [OF d, of r] by (metis prod.collapse)
  show "J (snd (submit_file e pid db file p now d))"
  proof (cases "select_job (pending_full pid) d")
    case (Some k)
    then have "submit_file e pid db file p now d =
        op_bind (insert_job (absorbed_row pid db file p now k)) (\<lambda>i. op_bind (load_job e i) (\<lambda>j. op_return (j, True))) d"
      by (simp add: submit_file_def op_basic_simps op_bind_def [of "op_get _"])
    then show ?thesis
      using bind_snd_cases [of "insert_job (absorbed_row pid db file p now k)" "\<lambda>i. op_bind (load_job e i) (\<lambda>j. op_return (j, True))" d]
        ins [OF absorbed [OF J]] by auto
  next
    case None
    let ?m = "case select_job (pending_file pid file) d of
        Some i \<Rightarrow> op_bind (update_jobs (\<lambda>r. jr_id r = i) (merged_row p)) (\<lambda>_. op_return (i, False))
      | None \<Rightarrow> op_bind (insert_job (queued_row pid db file p now)) (\<lambda>i. op_return (i, True))"
    have "submit_file e pid db file p now d = op_bind ?m (\<lambda>(i, created). op_bind (load_job e i) (\<lambda>j. op_return (j, created))) d"
      using None by (simp add: submit_file_def op_basic_simps op_bind_def [of "op_get _"])
    then have "snd (submit_file e pid db file p now d) = snd (?m d)"
      using bind_snd_cases [of ?m "\<lambda>(i, created). op_bind (load_job e i) (\<lambda>j. op_return (j, created))" d] by auto
    moreover have "J (snd (?m d))"
    proof (cases "select_job (pending_file pid file) d")
      case no_file: None
      have "J (snd (insert_job (queued_row pid db file p now) d))"
        using None by (intro ins queued [OF J]) (simp_all add: select_job_None)
      then show ?thesis
        using bind_snd_cases [of "insert_job (queued_row pid db file p now)" "\<lambda>i. op_return (i, True)" d]
        by (auto simp: no_file op_basic_simps)
    next
      case (Some i)
      have "keeps J (update_jobs (\<lambda>r. jr_id r = i) (merged_row p))"
        by (rule row_invariant.keeps_same_status [OF assms(1)]) (simp add: merged_row_def job_key_def)
      then have "keeps J (op_bind (update_jobs (\<lambda>r. jr_id r = i) (merged_row p)) (\<lambda>_. op_return (i, False)))"
        by (intro keeping)
      then show ?thesis using J Some by (simp add: keepsD)
    qed
    ultimately show ?thesis by simp
  qed
qed

lemma keeps_submit:
  assumes inv: "row_invariant J" and inner: "\<And>pid db file p now. keeps J (submit_file e pid db file p now)"
  shows "keeps J (submit e q)"
proof (cases "\<exists>a b c n. normalize_existing_project e (sj_project_path q) = Inr a \<and>
    normalize_database_path e (sj_db_path q) = Inr b \<and> normalize_source_path (sj_file_path q) = Inr c \<and> now_millis e = Inr n")
  case True
  then show ?thesis
    by (elim exE conjE, simp only: submit_via_file)
      (intro keeping inner row_invariant.keeps_upsert [OF inv])
next
  case False
  have "snd (submit e q d) = d" for d
    using False unfolding submit_def Let_def op_bind_def [of "op_lift _"] op_basic_simps
    by (auto split: sum.splits)
  then show ?thesis by (simp add: keeps_def)
qed

lemma full_row_new [simp]:
  "active_full pid (full_row p now\<lparr>jr_id := i\<rparr>) \<longleftrightarrow> pid = pr_id p"
  "pending_full pid (full_row p now\<lparr>jr_id := i\<rparr>) \<longleftrightarrow> pid = pr_id p"
  "\<not> pending_incremental pid (full_row p now\<lparr>jr_id := i\<rparr>)"
  by (auto simp: active_full_def pending_full_def pending_incremental_def)

lemma file_row_new [simp]:
  "\<not> active_full pid (queued_row q db file p now\<lparr>jr_id := i\<rparr>)" "\<not> active_full pid (absorbed_row q db file p now k\<lparr>jr_id := i\<rparr>)"
  "\<not> pending_full pid (queued_row q db file p now\<lparr>jr_id := i\<rparr>)" "\<not> pending_full pid (absorbed_row q db file p now k\<lparr>jr_id := i\<rparr>)"
  "\<not> pending_incremental pid (absorbed_row q db file p now k\<lparr>jr_id := i\<rparr>)"
  "pending_incremental pid (queued_row q db file p now\<lparr>jr_id := i\<rparr>) \<longleftrightarrow> pid = q"
  "jr_job_type (queued_row q db file p now) = JOB_TYPE_INCREMENTAL"
  by (auto simp: active_full_def pending_full_def pending_incremental_def queued_row_def absorbed_row_def new_job_row_def has_status_def)

lemma submit_one_full_scan: "keeps (\<lambda>d. schema_ok d \<and> one_full_scan d) (submit e q)"
proof (rule keeps_submit [OF full_scan_inv.row_invariant_axioms], rule keeps_submit_file [OF full_scan_inv.row_invariant_axioms])
qed (auto simp: one_full_scan_def append_row_def)

lemma submit_folded: "keeps (\<lambda>d. schema_ok d \<and> folded d) (submit e q)"
proof (rule keeps_submit [OF folded_inv.row_invariant_axioms], rule keeps_submit_file [OF folded_inv.row_invariant_axioms])
qed (auto simp: folded_def append_row_def pending_full_def)

lemma submit_full_scan_outcome:
  "snd (submit_full_scan e pid d) = d \<or>
   (\<exists>p now. find_project pid d = Some p \<and> select_job (active_full pid) d = None \<and>
     snd (submit_full_scan e pid d) = absorb_into p now d)"
proof (cases "now_millis e")
  case (Inl m)
  then show ?thesis by (simp add: submit_full_scan_eq op_eval)
next
  case now: (Inr now)
  show ?thesis
  proof (cases "find_project pid d")
    case None
    then show ?thesis using now by (simp add: submit_full_scan_eq op_eval)
  next
    case (Some p)
    then have pid: "pr_id p = pid" by (auto simp: find_project_def dest: find_Some_iff_mem)
    show ?thesis
    proof (cases "select_job (active_full pid) d")
      case None
      have "snd (submit_full_scan e pid d) = d \<or> snd (submit_full_scan e pid d) = absorb_into p now d"
        using now Some None pid
        by (auto simp: submit_full_scan_eq op_eval insert_job_def update_jobs_def absorb_into_def append_row_def
            full_row_def load_job_def Let_def split: prod.splits sum.splits if_splits)
      then show ?thesis using Some None by blast
    next
      case (Some i)
      then show ?thesis using now \<open>find_project pid d = Some p\<close>
        by (simp add: submit_full_scan_eq op_eval load_job_def split: sum.split)
    qed
  qed
qed

lemma absorb_into_rows:
  "set (jobs (absorb_into p now d)) =
    insert (full_row p now\<lparr>jr_id := next_rowid (map jr_id (jobs d))\<rparr>)
      ((\<lambda>r. if pending_incremental (pr_id p) r
          then transition_row Pending Superseded now (Some (next_rowid (map jr_id (jobs d)))) r else r) ` set (jobs d))"
  by (auto simp: absorb_into_def append_row_def Let_def set_update_where)

lemma superseded_row [simp]:
  "\<not> active_full pid (transition_row Pending Superseded now k r)" "\<not> pending_full pid (transition_row Pending Superseded now k r)"
  "\<not> pending_incremental pid (transition_row Pending Superseded now k r)"
  by (simp_all add: active_full_def pending_full_def pending_incremental_def executing_def)

lemma submit_full_scan_keeps:
  assumes "schema_ok d"
  shows "one_full_scan d \<Longrightarrow> one_full_scan (snd (submit_full_scan e pid d))"
    "folded d \<Longrightarrow> folded (snd (submit_full_scan e pid d))"
proof -
  have "one_full_scan (absorb_into p now d)" if "one_full_scan d" "select_job (active_full pid) d = None" "pr_id p = pid" for p now
  proof -
    have no: "\<not> active_full (pr_id p) r" if "r \<in> set (jobs d)" for r
      using that \<open>select_job (active_full pid) d = None\<close> \<open>pr_id p = pid\<close> by (simp add: select_job_None)
    have proj: "active_full q r \<Longrightarrow> jr_project_id r = q" for q r by (simp add: active_full_def)
    show ?thesis
      using that(1) no unfolding one_full_scan_def absorb_into_rows by (auto dest: proj split: if_splits)
  qed
  moreover have "folded (absorb_into p now d)" if "folded d" "select_job (active_full pid) d = None" "pr_id p = pid" for p now
  proof -
    have no: "\<not> pending_full (pr_id p) r" if "r \<in> set (jobs d)" for r
      using that \<open>select_job (active_full pid) d = None\<close> \<open>pr_id p = pid\<close>
      by (auto simp: select_job_None pending_full_def active_full_def)
    show ?thesis
      using that(1) no unfolding folded_def absorb_into_rows by (auto split: if_splits)
  qed
  moreover have "find_project pid d = Some p \<Longrightarrow> pr_id p = pid" for p
    by (auto simp: find_project_def dest: find_Some_iff_mem)
  ultimately show "one_full_scan d \<Longrightarrow> one_full_scan (snd (submit_full_scan e pid d))"
      "folded d \<Longrightarrow> folded (snd (submit_full_scan e pid d))"
    using submit_full_scan_outcome [of e pid d] by auto
qed

lemma recover_one_full_scan: "keeps (\<lambda>d. schema_ok d \<and> one_full_scan d) (recover e)"
proof -
  have upd: "keeps (\<lambda>d. schema_ok d \<and> one_full_scan d) (update_jobs P f)" if "\<And>r. P r \<Longrightarrow> row_evolves r (f r)" for P f
    using that by (auto simp: keeps_def update_jobs_def Let_def schema_ok_jobs_update intro!: one_full_scan_update)
  have "keeps (\<lambda>d. schema_ok d \<and> one_full_scan d) (transition_job i src dst now k)" for i src dst now k
    unfolding transition_job_def Let_def
    by (intro keeping upd; rule row_evolves_status [of src _ dst])
      (auto simp: has_status_def job_key_def lifecycle_step)
  then show ?thesis
    unfolding recover_def recover_running_def recover_cancelled_def by (intro keeping)
qed

text \<open>The operations without the recovery that runs when the daemon starts.\<close>

definition live_ops :: "(db \<Rightarrow> db) set" where
  "live_ops =
     {\<lambda>d. snd (submit e q d) | e q. True} \<union> {\<lambda>d. snd (submit_full_scan e p d) | e p. True} \<union>
     {\<lambda>d. snd (promote e i p d) | e i p. True} \<union> {\<lambda>d. snd (claim_next_pending e p d) | e p. True} \<union>
     {\<lambda>d. snd (update_progress e i u d) | e i u. True} \<union>
     {\<lambda>d. snd (complete_success e i v d) | e i v. True} \<union>
     {\<lambda>d. snd (complete_failure e i v d) | e i v. True} \<union>
     {\<lambda>d. snd (confirm_cancelled e i d) | e i. True} \<union> {\<lambda>d. snd (cancel e i d) | e i. True} \<union>
     {\<lambda>d. snd (publish_provider e p v s d) | e p v s. True}"

lemma store_ops_live: "f \<in> store_ops \<longleftrightarrow> f \<in> live_ops \<or> (\<exists>e. f = (\<lambda>d. snd (recover e d)))"
  unfolding store_ops_def live_ops_def by (simp only: Un_iff mem_Collect_eq disj_ac simp_thms)

lemma live_ops_keep:
  assumes inv: "row_invariant J" and submit: "\<And>e q. keeps J (submit e q)"
    and full: "\<And>e p. keeps J (submit_full_scan e p)" and f: "f \<in> live_ops" and d: "J d"
  shows "J (f d)"
  using f row_invariant.keeps_ops [OF inv] submit full d
  unfolding live_ops_def complete_success_def complete_failure_def keeps_def by auto

lemma store_op_one_full_scan:
  assumes "f \<in> store_ops" "schema_ok d" "one_full_scan d"
  shows "one_full_scan (f d)"
proof -
  have full: "keeps (\<lambda>d. schema_ok d \<and> one_full_scan d) (submit_full_scan e p)" for e p
    using submit_full_scan_keeps(1) op_evolves_snd [OF submit_full_scan_evolves] by (auto simp: keeps_def)
  note live = live_ops_keep [OF full_scan_inv.row_invariant_axioms submit_one_full_scan full]
  show ?thesis
    using assms store_ops_live [of f] live [of f d] keepsD [OF recover_one_full_scan, of d] by auto
qed

lemma live_op_folded:
  assumes "f \<in> live_ops" "schema_ok d" "folded d"
  shows "folded (f d)"
proof -
  have full: "keeps (\<lambda>d. schema_ok d \<and> folded d) (submit_full_scan e p)" for e p
    using submit_full_scan_keeps(2) op_evolves_snd [OF submit_full_scan_evolves] by (auto simp: keeps_def)
  show ?thesis
    using live_ops_keep [OF folded_inv.row_invariant_axioms submit_folded full assms(1), of d] assms by auto
qed

lemma one_full_scan_run:
  assumes "set fs \<subseteq> store_ops" "schema_ok d" "one_full_scan d"
  shows "one_full_scan (fold id fs d)"
  using assms
proof (induction fs arbitrary: d)
  case (Cons f fs)
  then have "schema_ok (f d)" "one_full_scan (f d)"
    using store_ops_evolve [of f d] store_op_one_full_scan [of f d] by auto
  then show ?case using Cons by simp
qed simp

lemma folded_run:
  assumes "set fs \<subseteq> live_ops" "schema_ok d" "folded d"
  shows "folded (fold id fs d)"
  using assms
proof (induction fs arbitrary: d)
  case (Cons f fs)
  then have "schema_ok (f d)" "folded (f d)"
    using store_ops_evolve [of f d] store_ops_live [of f] live_op_folded [of f d] by auto
  then show ?case using Cons by simp
qed simp

end
