(* ===== verification/StateRecovery.thy ===== *)
theory StateRecovery
  imports StateGuards
begin

text \<open>
  Crash recovery.  The code walks over the running rows and then over the rows with a pending
  cancellation, one statement at a time, each seeing the effect of the earlier ones.  Because an
  executing row is alone under its key, the result is the pointwise map \<open>recover_row\<close> over the
  table before recovery, and the report counts the three kinds of rows.
\<close>

section \<open>What recovery does to one row\<close>

definition successor :: "db \<Rightarrow> job_row \<Rightarrow> int option" where
  "successor d r = select_job (\<lambda>s. job_key s = job_key r \<and> has_status Pending s) d"

definition recover_row :: "int \<Rightarrow> db \<Rightarrow> job_row \<Rightarrow> job_row" where
  "recover_row now d r =
     (if has_status Running r then
        (case successor d r of
           Some k \<Rightarrow> transition_row Running Superseded now (Some k) r
         | None \<Rightarrow> transition_row Running Pending now None r)
      else if has_status CancelRequested r then transition_row CancelRequested Cancelled now None r
      else r)"

definition requeues :: "db \<Rightarrow> job_row \<Rightarrow> bool" where
  "requeues d r \<longleftrightarrow> has_status Running r \<and> successor d r = None"

definition yields :: "db \<Rightarrow> job_row \<Rightarrow> bool" where
  "yields d r \<longleftrightarrow> has_status Running r \<and> successor d r \<noteq> None"

lemma recover_row_fields [simp]: "jr_id (recover_row now d r) = jr_id r" "job_key (recover_row now d r) = job_key r"
  by (simp_all add: recover_row_def split: option.split)

lemma recover_row_idle: "\<not> is_executing r \<Longrightarrow> recover_row now d r = r"
  by (simp add: recover_row_def is_executing_def)

lemma recover_row_not_executing: "\<not> is_executing (recover_row now d r)"
  by (auto simp: recover_row_def executing_def is_executing_def split: option.split)

section \<open>A database in the middle of recovery\<close>

definition partly :: "db \<Rightarrow> (job_row \<Rightarrow> job_row) \<Rightarrow> job_row set \<Rightarrow> db" where
  "partly d F D = d\<lparr>jobs := update_where (\<lambda>r. r \<in> D) F (jobs d)\<rparr>"

lemma partly_empty [simp]: "partly d F {} = d"
  by (simp add: partly_def update_where_def)

lemma partly_mem: "r \<in> set (jobs d) \<Longrightarrow> r \<notin> D \<Longrightarrow> r \<in> set (jobs (partly d F D))"
  by (force simp: partly_def set_update_where)

lemma partly_step:
  assumes d: "schema_ok d" and r: "r \<in> set (jobs d)" "r \<notin> D"
    and F: "\<And>x. jr_id (F x) = jr_id x" and f: "f r = F r"
  shows "set_row (jr_id r) f (partly d F D) = partly d F (insert r D)"
proof -
  have "jr_id x = jr_id r \<longleftrightarrow> x = r" if "x \<in> set (jobs d)" for x
    using distinct_key_eq [OF schema_okD(1) [OF d] that r(1)] by blast
  then show ?thesis
    using r f F by (auto simp: set_row_def partly_def update_where_def)
qed

lemma for_rows_partly:
  assumes d: "schema_ok d" and F: "\<And>x. jr_id (F x) = jr_id x"
    and step: "\<And>D r rep. I (partly d F D) \<Longrightarrow> D \<subseteq> A \<Longrightarrow> r \<in> B \<Longrightarrow> r \<notin> D \<Longrightarrow>
      \<exists>f. body r rep (partly d F D) = (Inr (g r rep), set_row (jr_id r) f (partly d F D)) \<and> f r = F r \<and>
        I (set_row (jr_id r) f (partly d F D))"
    and A: "A \<subseteq> set (jobs d)" and B: "B \<subseteq> A"
  shows "set rs \<subseteq> B \<Longrightarrow> distinct rs \<Longrightarrow> D \<subseteq> A \<Longrightarrow> D \<inter> set rs = {} \<Longrightarrow> I (partly d F D) \<Longrightarrow>
    for_rows body rs rep (partly d F D) = (Inr (fold g rs rep), partly d F (D \<union> set rs)) \<and>
    I (partly d F (D \<union> set rs))"
proof (induction rs arbitrary: D rep)
  case Nil
  then show ?case by (simp add: op_basic_simps)
next
  case (Cons r rs)
  have r: "r \<in> B" "r \<notin> D" using Cons.prems by auto
  from step [OF Cons.prems(5,3) r, of rep] obtain f where
      f: "body r rep (partly d F D) = (Inr (g r rep), set_row (jr_id r) f (partly d F D))" "f r = F r"
        "I (set_row (jr_id r) f (partly d F D))" by blast
  have eq: "set_row (jr_id r) f (partly d F D) = partly d F (insert r D)"
    by (rule partly_step) (use d r F f(2) A B in auto)
  have "for_rows body rs (g r rep) (partly d F (insert r D)) =
      (Inr (fold g rs (g r rep)), partly d F (insert r D \<union> set rs)) \<and> I (partly d F (insert r D \<union> set rs))"
    by (rule Cons.IH) (use Cons.prems r f(3) eq B in auto)
  then show ?case using f(1) eq by (simp add: op_eval)
qed

text \<open>The rows that carry a status or a successor are the same in the middle of recovery.\<close>

lemma find_map_stable: "(\<And>x. x \<in> set xs \<Longrightarrow> P (g x) \<longleftrightarrow> P x) \<Longrightarrow> (\<And>x. x \<in> set xs \<Longrightarrow> P x \<Longrightarrow> g x = x) \<Longrightarrow>
    find P (map g xs) = find P xs"
  by (induction xs) auto

lemma executing_alone:
  "schema_ok d \<Longrightarrow> r \<in> set (jobs d) \<Longrightarrow> r' \<in> set (jobs d) \<Longrightarrow> is_executing r \<Longrightarrow> is_executing r' \<Longrightarrow>
    job_key r = job_key r' \<Longrightarrow> r = r'"
  using distinct_filter_key_eq [of job_key is_executing "jobs d" r r']
  by (simp add: schema_ok_def jobs_ok_def jobs_one_executing_def)

lemma successor_partly:
  assumes d: "schema_ok d" and r: "r \<in> set (jobs d)" "is_executing r" "r \<notin> D"
    and D: "D \<subseteq> {r \<in> set (jobs d). is_executing r}"
  shows "successor (partly d (recover_row now d) D) r = successor d r"
proof -
  have other: "job_key x \<noteq> job_key r" if "x \<in> D" for x
    using executing_alone [OF d r(1) _ r(2), of x] that D r(3) by auto
  have "find (\<lambda>s. job_key s = job_key r \<and> has_status Pending s)
      (map (\<lambda>x. if x \<in> D then recover_row now d x else x) (jobs d)) =
    find (\<lambda>s. job_key s = job_key r \<and> has_status Pending s) (jobs d)"
    by (rule find_map_stable) (auto simp: other)
  then show ?thesis by (simp add: successor_def select_job_def partly_def update_where_def)
qed

lemma successor_Some:
  assumes "successor d r = Some k"
  shows "\<exists>p \<in> set (jobs d). jr_id p = k \<and> job_key p = job_key r \<and> has_status Pending p"
  using assms by (auto simp: successor_def select_job_def dest: find_Some_iff_mem)

lemma successor_None: "successor d r = None \<longleftrightarrow> (\<forall>p \<in> set (jobs d). job_key p = job_key r \<longrightarrow> \<not> has_status Pending p)"
  by (auto simp: successor_def select_job_def find_None_mem)

section \<open>The two loops\<close>

definition report_running :: "db \<Rightarrow> job_row \<Rightarrow> RecoveryReport \<Rightarrow> RecoveryReport" where
  "report_running d r rep = (if successor d r = None then rep\<lparr>requeued := requeued rep + 1\<rparr>
     else rep\<lparr>superseded := superseded rep + 1\<rparr>)"

lemma recover_running_eq:
  "recover_running now r rep d =
    (case successor d r of
      Some k \<Rightarrow> op_bind (transition_job (jr_id r) Running Superseded now (Some k))
        (\<lambda>changed. op_return (if changed then rep\<lparr>superseded := superseded rep + 1\<rparr> else rep)) d
    | None \<Rightarrow> op_bind (transition_job (jr_id r) Running Pending now None)
        (\<lambda>changed. op_return (if changed then rep\<lparr>requeued := requeued rep + 1\<rparr> else rep)) d)"
proof -
  have "select_job (\<lambda>s. jr_project_id s = jr_project_id r \<and> jr_job_type s = jr_job_type r \<and>
      jr_dedupe_key s = jr_dedupe_key r \<and> jr_status s = as_db Pending) d = successor d r"
    unfolding successor_def by (rule arg_cong [where f = "\<lambda>P. select_job P d"]) (auto simp: job_key_def has_status_def)
  then show ?thesis
    by (simp add: recover_running_def op_eval split: option.split)
qed

lemma recover_running_step:
  assumes e: "store_ok e d1" and r: "r \<in> set (jobs d1)" "has_status Running r"
    and succ: "successor d1 r = successor d r"
  shows "\<exists>f. recover_running now r rep d1 = (Inr (report_running d r rep), set_row (jr_id r) f d1) \<and>
    f r = recover_row now d r \<and> store_ok e (set_row (jr_id r) f d1)"
proof (cases "successor d r")
  case None
  have none: "\<forall>r' \<in> set (jobs d1). job_key r' = job_key r \<longrightarrow> \<not> has_status Pending r'"
    using None succ successor_None [of d1 r] by auto
  note t = transition_job_ok [OF store_okD(1) [OF e] r, of Pending None now, simplified, OF none]
  have "recover_running now r rep d1 =
      (Inr (report_running d r rep), set_row (jr_id r) (transition_row Running Pending now None) d1)"
    using t None succ by (simp add: recover_running_eq op_eval report_running_def)
  moreover have "transition_row Running Pending now None r = recover_row now d r"
    using None r(2) by (simp add: recover_row_def)
  ultimately show ?thesis using t store_ok_transition [OF e] by blast
next
  case (Some k)
  obtain p where p: "p \<in> set (jobs d1)" "jr_id p = k" using successor_Some [of d1 r k] Some succ by auto
  then have k: "\<exists>i. Some k = Some i \<and> i \<in> jr_id ` set (jobs d1)" by blast
  note t = transition_job_ok [OF store_okD(1) [OF e] r, of Superseded "Some k" now, simplified, OF k [simplified]]
  have "recover_running now r rep d1 =
      (Inr (report_running d r rep), set_row (jr_id r) (transition_row Running Superseded now (Some k)) d1)"
    using t Some succ by (simp add: recover_running_eq op_eval report_running_def)
  moreover have "transition_row Running Superseded now (Some k) r = recover_row now d r"
    using Some r(2) by (simp add: recover_row_def)
  ultimately show ?thesis using t store_ok_transition [OF e] by blast
qed

lemma recover_cancelled_step:
  assumes e: "store_ok e d1" and r: "r \<in> set (jobs d1)" "has_status CancelRequested r"
  shows "\<exists>f. recover_cancelled now r rep d1 = (Inr (rep\<lparr>cancelled := cancelled rep + 1\<rparr>), set_row (jr_id r) f d1) \<and>
    f r = recover_row now d r \<and> store_ok e (set_row (jr_id r) f d1)"
proof -
  note t = transition_job_ok [OF store_okD(1) [OF e] r, of Cancelled None now, simplified]
  have "recover_cancelled now r rep d1 = (Inr (rep\<lparr>cancelled := cancelled rep + 1\<rparr>),
      set_row (jr_id r) (transition_row CancelRequested Cancelled now None) d1)"
    using t by (simp add: recover_cancelled_def op_eval)
  moreover have "transition_row CancelRequested Cancelled now None r = recover_row now d r"
    using r(2) has_status_unique [OF r(2), of Running] by (simp add: recover_row_def)
  ultimately show ?thesis using t store_ok_transition [OF e] by blast
qed

lemma fold_report_running:
  "fold (report_running d) rs rep =
    rep\<lparr>requeued := requeued rep + count_where (\<lambda>r. successor d r = None) rs,
      superseded := superseded rep + count_where (\<lambda>r. successor d r \<noteq> None) rs\<rparr>"
  by (induction rs arbitrary: rep) (auto simp: report_running_def count_where_def)

lemma fold_report_cancelled:
  "fold (\<lambda>r rep. rep\<lparr>cancelled := cancelled rep + 1\<rparr>) rs rep = rep\<lparr>cancelled := cancelled rep + length rs\<rparr>"
  by (induction rs arbitrary: rep) auto

theorem recover_pointwise:
  assumes e: "store_ok e d" and now: "now_millis e = Inr now"
  shows "recover e d =
    (Inr \<lparr>requeued = count_where (requeues d) (jobs d), cancelled = count_where (has_status CancelRequested) (jobs d),
       superseded = count_where (yields d) (jobs d)\<rparr>, d\<lparr>jobs := map (recover_row now d) (jobs d)\<rparr>) \<and>
    store_ok e (d\<lparr>jobs := map (recover_row now d) (jobs d)\<rparr>)"
proof -
  note d = store_okD(1) [OF e]
  let ?F = "recover_row now d"
  let ?run = "filter (has_status Running) (jobs d)"
  let ?can = "filter (has_status CancelRequested) (jobs d)"
  let ?A = "{r \<in> set (jobs d). is_executing r}"
  let ?rep0 = "\<lparr>requeued = 0, cancelled = 0, superseded = 0\<rparr>"
  have dist: "distinct (jobs d)" using schema_okD(1) [OF d] distinct_map by blast
  have 1: "for_rows (recover_running now) ?run ?rep0 (partly d ?F {}) =
      (Inr (fold (report_running d) ?run ?rep0), partly d ?F ({} \<union> set ?run)) \<and>
    store_ok e (partly d ?F ({} \<union> set ?run))"
  proof (rule for_rows_partly [OF d, where A = "set ?run" and B = "set ?run"])
    fix D r rep assume *: "store_ok e (partly d ?F D)" "D \<subseteq> set ?run" "r \<in> set ?run" "r \<notin> D"
    then have "r \<in> set (jobs d)" "has_status Running r" "is_executing r" "D \<subseteq> ?A" by (auto simp: is_executing_def)
    with * show "\<exists>f. recover_running now r rep (partly d ?F D) =
        (Inr (report_running d r rep), set_row (jr_id r) f (partly d ?F D)) \<and> f r = ?F r \<and>
      store_ok e (set_row (jr_id r) f (partly d ?F D))"
      using successor_partly [OF d] by (intro recover_running_step) (auto intro: partly_mem)
  qed (use dist e in auto)
  let ?d1 = "partly d ?F (set ?run)"
  have can: "filter (\<lambda>r. jr_status r = as_db CancelRequested) (jobs ?d1) = ?can"
  proof -
    have "has_status CancelRequested (if r \<in> set ?run then ?F r else r) = has_status CancelRequested r \<and>
        (has_status CancelRequested r \<longrightarrow> (if r \<in> set ?run then ?F r else r) = r)" for r
      by (auto simp: recover_row_def has_status_unique split: option.split)
    then have "filter (has_status CancelRequested) (map (\<lambda>r. if r \<in> set ?run then ?F r else r) xs) =
        filter (has_status CancelRequested) xs" for xs
      by (induction xs) (auto simp del: set_filter)
    then show ?thesis by (simp add: partly_def update_where_def has_status_def [abs_def])
  qed
  have 2: "for_rows (recover_cancelled now) ?can rep ?d1 =
      (Inr (fold (\<lambda>r rep. rep\<lparr>cancelled := cancelled rep + 1\<rparr>) ?can rep), partly d ?F (set ?run \<union> set ?can)) \<and>
    store_ok e (partly d ?F (set ?run \<union> set ?can))" for rep
  proof (rule for_rows_partly [OF d, where A = ?A and B = "set ?can"])
    fix D r rep assume *: "store_ok e (partly d ?F D)" "r \<in> set ?can" "r \<notin> D"
    show "\<exists>f. recover_cancelled now r rep (partly d ?F D) =
        (Inr (rep\<lparr>cancelled := cancelled rep + 1\<rparr>), set_row (jr_id r) f (partly d ?F D)) \<and> f r = ?F r \<and>
      store_ok e (set_row (jr_id r) f (partly d ?F D))"
      using * by (intro recover_cancelled_step) (auto intro: partly_mem)
  qed (use dist 1 in \<open>auto simp: is_executing_def has_status_unique\<close>)
  have "set ?run \<union> set ?can = ?A" by (auto simp: is_executing_def)
  then have end_db: "partly d ?F (set ?run \<union> set ?can) = d\<lparr>jobs := map ?F (jobs d)\<rparr>"
    by (auto simp: partly_def update_where_def recover_row_idle)
  have "recover e d = (Inr (fold (\<lambda>r rep. rep\<lparr>cancelled := cancelled rep + 1\<rparr>) ?can
      (fold (report_running d) ?run ?rep0)), d\<lparr>jobs := map ?F (jobs d)\<rparr>)"
    using 1 2 [of "fold (report_running d) ?run ?rep0", unfolded end_db] can
    by (simp add: recover_def op_eval now has_status_def [abs_def])
  moreover have "count_where (\<lambda>r. successor d r = None) ?run = count_where (requeues d) (jobs d)"
      "count_where (\<lambda>r. successor d r \<noteq> None) ?run = count_where (yields d) (jobs d)"
    by (simp_all add: count_where_def requeues_def yields_def conj_commute cong: filter_cong)
  ultimately show ?thesis
    using 2 [of ?rep0, unfolded end_db]
    by (simp only: fold_report_running fold_report_cancelled) (simp add: count_where_def)
qed

end
