(* ===== verification/StateProperties.thy ===== *)
theory StateProperties
  imports StateFullScan StateRecovery
begin

text \<open>
  The properties of the state store, each stated over the operations themselves, with the
  concrete database and environment at which the conditional ones are applied.
\<close>

section \<open>A concrete store\<close>

definition sample_env :: env where
  "sample_env = \<lparr>clock_nanos = 5000000, fs_is_dir = (\<lambda>p. True), fs_exists = (\<lambda>p. p = ''/''),
     fs_canonicalize = (\<lambda>p. Inr p), json_to_string = (\<lambda>v. Inr ''{}''), json_from_str = (\<lambda>t. Inr (JObject []))\<rparr>"

definition sample_project :: project_row where
  "sample_project = \<lparr>pr_id = 1, pr_project_key = ''/p'', pr_project_path = ''/p'', pr_db_path = ''/p.db'',
     pr_created_at = 1, pr_last_seen_at = 2\<rparr>"

definition sample_row :: "int \<Rightarrow> string \<Rightarrow> JobStatus \<Rightarrow> int \<Rightarrow> job_row" where
  "sample_row i file_path s created =
     (new_job_row 1 JOB_TYPE_INCREMENTAL ''/p.db'' file_path 0 s created (''incremental_scan:'' @ file_path))\<lparr>jr_id := i\<rparr>"

definition sample_db :: db where
  "sample_db = \<lparr>projects = [sample_project],
     jobs = [(sample_row 1 ''a.py'' Running 1)\<lparr>jr_started_at := Some 2, jr_progress_current := Some 0, jr_progress_total := Some 3\<rparr>,
       sample_row 2 ''a.py'' Pending 2,
       (sample_row 3 ''b.py'' Running 2)\<lparr>jr_started_at := Some 3\<rparr>,
       (sample_row 4 ''c.py'' CancelRequested 1)\<lparr>jr_started_at := Some 3\<rparr>,
       sample_row 5 ''d.py'' Pending 3,
       (sample_row 6 ''e.py'' Cancelled 1)\<lparr>jr_finished_at := Some 4\<rparr>],
     published = None\<rparr>"

definition sample_request :: SubmitJob where
  "sample_request = \<lparr>sj_project_path = ''/p'', sj_db_path = ''/p.db'', sj_file_path = ''f.py'', sj_priority = Interactive\<rparr>"

lemmas sample_defs = sample_env_def sample_project_def sample_row_def sample_db_def new_job_row_def

lemma sample_now: "now_millis sample_env = Inr 5"
  by (simp add: now_millis_def sample_env_def)

lemma sample_schema: "schema_ok sample_db"
  by code_simp

lemma sample_store_ok: "store_ok sample_env sample_db"
  by (simp add: store_ok_def sample_schema payload_ok_def sample_env_def)

lemma sample_rows:
  "sample_row 2 ''a.py'' Pending 2 \<in> set (jobs sample_db)"
  "sample_row 5 ''d.py'' Pending 3 \<in> set (jobs sample_db)"
  "(sample_row 3 ''b.py'' Running 2)\<lparr>jr_started_at := Some 3\<rparr> \<in> set (jobs sample_db)"
  by (simp_all add: sample_db_def)

lemma sample_row_status [simp]:
  "has_status s (sample_row i f t c) \<longleftrightarrow> s = t" "jr_id (sample_row i f t c) = i"
  "has_status s ((sample_row i f t c)\<lparr>jr_started_at := x\<rparr>) \<longleftrightarrow> s = t"
  by (auto simp: sample_row_def new_job_row_def has_status_def)

lemma sample_json: "json_ok sample_env (JObject [])"
  by (simp add: json_ok_def sample_env_def)

lemma now_millis_nonneg: "now_millis e = Inr now \<Longrightarrow> 0 \<le> now"
  by (auto simp: now_millis_def Let_def split: if_splits)

section \<open>Lifecycle\<close>

text \<open>
  C1. Whatever sequence of store operations runs, on whatever clock, file system and payload
  encoder, the database stays inside its schema and every known job stays known and has moved
  along its lifecycle; a job in a terminal status keeps it, and a job whose cancellation has been
  requested can only become cancelled.
\<close>

theorem store_run_lifecycle:
  assumes "set fs \<subseteq> store_ops" "schema_ok d" "status_of d i = Some s"
  shows "schema_ok (fold id fs d) \<and>
    (\<exists>s'. status_of (fold id fs d) i = Some s' \<and> lifecycle s s' \<and> (terminal s \<longrightarrow> s' = s) \<and>
      (s = CancelRequested \<longrightarrow> s' \<in> {CancelRequested, Cancelled}))"
  using state_store.run_inv [OF assms(1,2)] state_store.run_life [OF assms]
    state_store.terminal_stable [OF assms] state_store.cancel_is_final [OF assms(1,2), of i] assms(3)
  by auto

theorem store_run_lifecycle_witness:
  "status_of (fold id [\<lambda>d. snd (recover sample_env d), \<lambda>d. snd (cancel sample_env 4 d)] sample_db) 4
     \<in> {Some CancelRequested, Some Cancelled}"
proof -
  have ops: "set [\<lambda>d. snd (recover sample_env d), \<lambda>d. snd (cancel sample_env 4 d)] \<subseteq> store_ops"
    unfolding store_ops_def by auto
  have "status_of sample_db 4 = Some CancelRequested" by code_simp
  from store_run_lifecycle [OF ops sample_schema this] show ?thesis by auto
qed

section \<open>Recovery\<close>

text \<open>
  C2. Crash recovery succeeds on every database inside the schema and rewrites each row on its
  own: a running job yields to the pending job of the same key when there is one and is requeued
  otherwise, a job with a requested cancellation is cancelled, every other row is untouched; the
  report counts the three groups and no job is left executing.
\<close>

theorem recover_exact:
  assumes "store_ok e d" "now_millis e = Inr now"
  shows "recover e d =
      (Inr \<lparr>requeued = count_where (requeues d) (jobs d), cancelled = count_where (has_status CancelRequested) (jobs d),
         superseded = count_where (yields d) (jobs d)\<rparr>, d\<lparr>jobs := map (recover_row now d) (jobs d)\<rparr>) \<and>
    store_ok e (snd (recover e d)) \<and> \<not> list_ex is_executing (jobs (snd (recover e d)))"
  using recover_pointwise [OF assms] by (simp add: list_ex_iff recover_row_not_executing)

theorem recover_exact_witness:
  "fst (recover sample_env sample_db) = Inr \<lparr>requeued = 1, cancelled = 1, superseded = 1\<rparr> \<and>
   \<not> list_ex is_executing (jobs (snd (recover sample_env sample_db)))"
proof -
  have "count_where (requeues sample_db) (jobs sample_db) = 1"
    "count_where (has_status CancelRequested) (jobs sample_db) = 1"
    "count_where (yields sample_db) (jobs sample_db) = 1" by code_simp+
  then show ?thesis using recover_exact [OF sample_store_ok sample_now] by (metis fst_conv)
qed

section \<open>Claiming\<close>

text \<open>A job that may start: it is pending, and no executing job of its project has its type and key.\<close>

definition startable :: "db \<Rightarrow> job_row \<Rightarrow> bool" where
  "startable d r \<longleftrightarrow> jr_status r = as_db Pending \<and>
     list_all (\<lambda>a. jr_status a \<in> {as_db Running, as_db CancelRequested} \<longrightarrow>
        (jr_project_id a, jr_job_type a, jr_dedupe_key a) \<noteq> (jr_project_id r, jr_job_type r, jr_dedupe_key r)) (jobs d)"

lemma startable_claimable: "startable d r \<longleftrightarrow> claimable d r"
  by (auto simp: startable_def claimable_def list_all_iff)

text \<open>
  C3. A claim takes a startable job with the highest priority and among those the oldest, by its
  number when two are as old, and leaves exactly that row changed: running, started now, owned by the
  rust provider with its progress reset; it never fails on a constraint and the database stays
  inside its schema.
\<close>

theorem claim_takes_first:
  assumes "store_ok e d" "now_millis e = Inr now" "r0 \<in> set (jobs d)" "startable d r0"
  shows "\<exists>r j. r \<in> set (jobs d) \<and> startable d r \<and>
    (\<forall>r' \<in> set (jobs d). startable d r' \<longrightarrow> jr_priority r' \<le> jr_priority r \<and>
       (jr_priority r' = jr_priority r \<longrightarrow> jr_created_at r \<le> jr_created_at r' \<and>
          (jr_created_at r' = jr_created_at r \<longrightarrow> jr_id r \<le> jr_id r'))) \<and>
    claim_next_pending e PROVIDER_RUST d = (Inr (Some j), set_row (jr_id r) (claim_row now) d) \<and>
    row_view (claim_row now r) j \<and> store_ok e (set_row (jr_id r) (claim_row now) d)"
proof -
  obtain i where "next_claim d = Some i"
    using next_claim_None [of d] assms(3,4) by (cases "next_claim d") (auto simp: startable_claimable)
  from next_claim_Some [OF this] this obtain r where r: "r \<in> set (jobs d)" "claimable d r"
      "\<forall>r' \<in> set (jobs d). claimable d r' \<longrightarrow> claim_order r r'" "next_claim d = Some (jr_id r)" by auto
  have "\<forall>r' \<in> set (jobs d). startable d r' \<longrightarrow> jr_priority r' \<le> jr_priority r \<and>
       (jr_priority r' = jr_priority r \<longrightarrow> jr_created_at r \<le> jr_created_at r' \<and>
          (jr_created_at r' = jr_created_at r \<longrightarrow> jr_id r \<le> jr_id r'))"
    using r(3) by (auto simp: startable_claimable claim_order_def)
  with claim_some [OF assms(1,2) r(1,2,4)] r(1,2) show ?thesis unfolding startable_claimable by blast
qed

theorem claim_takes_first_witness:
  "\<exists>j. fst (claim_next_pending sample_env PROVIDER_RUST sample_db) = Inr (Some j)"
proof -
  have "startable sample_db (sample_row 5 ''d.py'' Pending 3)" by code_simp
  from claim_takes_first [OF sample_store_ok sample_now sample_rows(2) this] show ?thesis by auto
qed

text \<open>
  C4. A claim answers nothing, and changes nothing, exactly when every pending job waits for an
  executing job of the same key: claiming is total, so a queue with a startable job never stalls.
\<close>

theorem claim_none_iff:
  assumes "store_ok e d" "now_millis e = Inr now"
  shows "claim_next_pending e PROVIDER_RUST d = (Inr None, d) \<longleftrightarrow> (\<forall>r \<in> set (jobs d). \<not> startable d r)"
proof
  assume none: "claim_next_pending e PROVIDER_RUST d = (Inr None, d)"
  show "\<forall>r \<in> set (jobs d). \<not> startable d r"
  proof (cases "next_claim d")
    case None
    then show ?thesis by (simp add: next_claim_None startable_claimable)
  next
    case (Some i)
    from next_claim_Some [OF this] this obtain r where "r \<in> set (jobs d)" "claimable d r" "next_claim d = Some (jr_id r)"
      by auto
    from claim_some [OF assms this] none show ?thesis by auto
  qed
qed (use claim_none [OF assms(2)] in \<open>simp add: startable_claimable\<close>)

theorem claim_none_iff_witness: "claim_next_pending sample_env PROVIDER_RUST sample_db \<noteq> (Inr None, sample_db)"
proof -
  have "startable sample_db (sample_row 5 ''d.py'' Pending 3)" by code_simp
  then show ?thesis using claim_none_iff [OF sample_store_ok sample_now] sample_rows(2) by blast
qed

section \<open>Completion and cancellation\<close>

text \<open>
  Completing a running job stores the payload in the column of its outcome, clears the other
  one, finishes the progress, and touches no other row; completing a job in any other status is
  refused with that status and changes nothing.
\<close>

theorem complete_exact:
  assumes "store_ok e d" "json_ok e payload" "now_millis e = Inr now" "s \<in> {Succeeded, Failed}"
    and "r \<in> set (jobs d)" "has_status u r"
  shows "if u = Running
    then \<exists>j t. json_to_string e payload = Inr t \<and>
      complete e (jr_id r) s payload d = (Inr j, set_row (jr_id r) (completion_row s t now) d) \<and>
      row_view (completion_row s t now r) j \<and> store_ok e (set_row (jr_id r) (completion_row s t now) d)
    else complete e (jr_id r) s payload d = (Inl (InvalidTransition u s), d)"
  using complete_ok [OF assms(1-3,5) _ assms(4)] complete_refused [OF assms(1-3,5,6) _ assms(4)] assms(6)
  by auto

theorem complete_exact_witness:
  "complete sample_env 5 Succeeded (JObject []) sample_db = (Inl (InvalidTransition Pending Succeeded), sample_db) \<and>
   (\<exists>j. fst (complete sample_env 3 Failed (JObject []) sample_db) = Inr j)"
  using complete_exact [OF sample_store_ok sample_json sample_now _ sample_rows(2), of Succeeded Pending]
    complete_exact [OF sample_store_ok sample_json sample_now _ sample_rows(3), of Failed Running] by auto

text \<open>
  Cancelling: a pending job is cancelled at once, a running job gets its cancellation
  requested, a job already cancelled or about to be is answered without a change, and a job that
  succeeded, failed or was superseded is refused; only the row of the job changes.
\<close>

theorem cancel_exact:
  assumes "store_ok e d" "now_millis e = Inr now" "r \<in> set (jobs d)" "has_status s r"
  shows "if s \<in> {Pending, Running} then
      \<exists>j. cancel e (jr_id r) d = (Inr (j, True), set_row (jr_id r)
          (transition_row s (if s = Pending then Cancelled else CancelRequested) now None) d) \<and>
        job_status j = (if s = Pending then Cancelled else CancelRequested)
    else if s \<in> {CancelRequested, Cancelled} then \<exists>j. cancel e (jr_id r) d = (Inr (j, False), d) \<and> job_status j = s
    else cancel e (jr_id r) d = (Inl (NotCancellable s), d)"
proof (cases s)
  case Pending
  with cancel_moves [OF assms, of Cancelled] show ?thesis
    by (auto dest: row_view_status [of _ _ Cancelled])
next
  case Running
  with cancel_moves [OF assms, of CancelRequested] show ?thesis
    by (auto dest: row_view_status [of _ _ CancelRequested])
next
  case CancelRequested
  with cancel_idle [OF assms] assms(4) show ?thesis by (auto dest: row_view_status)
next
  case Cancelled
  with cancel_idle [OF assms] assms(4) show ?thesis by (auto dest: row_view_status)
qed (use cancel_refused [OF assms] in auto)

theorem cancel_exact_witness: "\<exists>j. fst (cancel sample_env 5 sample_db) = Inr (j, True) \<and> job_status j = Cancelled"
  using cancel_exact [OF sample_store_ok sample_now sample_rows(2), of Pending] by auto

text \<open>
  A progress report for an executing job that is well formed and does not go back is stored,
  and only there; a report with a negative or too large count is refused.
\<close>

theorem progress_exact:
  assumes "store_ok e d" "r \<in> set (jobs d)" "is_executing r"
    and "\<And>c. jr_progress_current r = Some c \<Longrightarrow> c \<le> pu_current u"
  shows "if 0 \<le> pu_current u \<and> pu_current u \<le> pu_total u
    then \<exists>j. update_progress e (jr_id r) u d = (Inr j, set_row (jr_id r) (progress_row u) d) \<and>
      row_view (progress_row u r) j \<and> store_ok e (set_row (jr_id r) (progress_row u) d)
    else update_progress e (jr_id r) u d = (Inl (InvalidInput ''progress must satisfy 0 <= current <= total''), d)"
proof (cases "0 \<le> pu_current u \<and> pu_current u \<le> pu_total u")
  case True
  with update_progress_ok [OF assms(1-3) _ _ assms(4)] show ?thesis by auto
next
  case False
  then show ?thesis by (auto simp: update_progress_def op_basic_simps)
qed

theorem progress_exact_witness:
  "\<exists>j. fst (update_progress sample_env 3 \<lparr>pu_current = 1, pu_total = 3, pu_message = ''scan''\<rparr> sample_db) = Inr j"
proof -
  have "is_executing ((sample_row 3 ''b.py'' Running 2)\<lparr>jr_started_at := Some 3\<rparr>)" by (simp add: is_executing_def)
  from progress_exact [OF sample_store_ok sample_rows(3) this, of "\<lparr>pu_current = 1, pu_total = 3, pu_message = ''scan''\<rparr>"]
  show ?thesis by (auto simp: sample_row_def new_job_row_def)
qed

section \<open>Submission\<close>

text \<open>
  C5. Submitting a file of a project whose paths are accepted always succeeds when the clock has
  not gone back behind the registration of the project: the project row is created or refreshed,
  and the file is recorded as superseded when a full scan of the project is pending, merged into
  the pending job of the same file with the higher of the two priorities, or queued as a new
  pending job; in each case the database stays inside its schema.
\<close>

theorem submit_exact:
  assumes "store_ok e d" "now_millis e = Inr now"
    and "normalize_existing_project e (sj_project_path q) = Inr path"
    and "normalize_database_path e (sj_db_path q) = Inr db_path"
    and "normalize_source_path (sj_file_path q) = Inr source"
    and "\<And>p. p \<in> set (projects d) \<Longrightarrow> pr_project_key p = project_key path \<Longrightarrow> pr_created_at p \<le> now"
  shows "\<exists>d1 p j created d'. submit e q d = (Inr (j, created), d') \<and> store_ok e d' \<and>
    upsert_project (project_key path) path db_path now d = (Inr (), d1) \<and>
    p \<in> set (projects d1) \<and> pr_project_key p = project_key path \<and> pr_db_path p = db_path \<and>
    (case select_job (pending_full (pr_id p)) d of
       Some k \<Rightarrow> created \<and> d' = append_row (absorbed_row (pr_id p) db_path source (sj_priority q) now k) d1 \<and>
         job_status j = Superseded \<and> job_superseded_by j = Some k
     | None \<Rightarrow> (case find (pending_file (pr_id p) source) (jobs d) of
         Some r \<Rightarrow> \<not> created \<and> d' = set_row (jr_id r) (merged_row (sj_priority q)) d1 \<and> job_id j = jr_id r
       | None \<Rightarrow> created \<and> d' = append_row (queued_row (pr_id p) db_path source (sj_priority q) now) d1 \<and>
           job_status j = Pending))"
proof -
  note now = now_millis_nonneg [OF assms(2)]
  obtain d1 p where up: "upsert_project (project_key path) path db_path now d = (Inr (), d1)" "schema_ok d1"
      "jobs d1 = jobs d" "find (\<lambda>p. pr_project_key p = project_key path) (projects d1) = Some p"
      "p \<in> set (projects d1)" "pr_db_path p = db_path"
    using upsert_ok [OF store_okD(1) [OF assms(1)] now assms(6)] by blast
  have e1: "store_ok e d1" using up assms(1) by (simp add: store_ok_def payload_ok_def)
  have pid: "pr_id p \<in> pr_id ` set (projects d1)" using up(5) by simp
  have key: "pr_project_key p = project_key path" using find_Some_iff_mem [OF up(4)] by simp
  have sel: "select_job P d1 = select_job P d" for P by (simp add: select_job_def up(3))
  have eq: "submit e q d = transaction (submit_file e (pr_id p) db_path source (sj_priority q) now) d1"
    if "fst (submit_file e (pr_id p) db_path source (sj_priority q) now d1) = Inr x" for x
    using that up by (auto simp: submit_via_file [OF assms(3,4,5,2)] op_eval split: prod.splits sum.splits)
  show ?thesis
  proof (cases "select_job (pending_full (pr_id p)) d")
    case (Some k)
    with submit_file_absorbed [OF e1 pid now, of k db_path source "sj_priority q"] eq up(1,5,6) key sel show ?thesis
      by (fastforce simp: transaction_def)
  next
    case full: None
    show ?thesis
    proof (cases "find (pending_file (pr_id p) source) (jobs d)")
      case None
      then have "select_job (pending_file (pr_id p) source) d1 = None" by (simp add: select_job_def up(3))
      with submit_file_queued [OF e1 pid now _ this, of db_path "sj_priority q"] eq up(1,5,6) key sel full None
      show ?thesis by (fastforce simp: transaction_def)
    next
      case (Some r)
      then have r: "r \<in> set (jobs d1)" "pending_file (pr_id p) source r"
        using find_Some_iff_mem [OF Some] by (simp_all add: up(3))
      obtain j where j: "submit_file e (pr_id p) db_path source (sj_priority q) now d1 =
          (Inr (j, False), set_row (jr_id r) (merged_row (sj_priority q)) d1)"
          "store_ok e (set_row (jr_id r) (merged_row (sj_priority q)) d1)" "row_view (merged_row (sj_priority q) r) j"
        using submit_file_merged [OF e1 r, of db_path "sj_priority q" now] full sel by auto
      have "submit e q d = (Inr (j, False), set_row (jr_id r) (merged_row (sj_priority q)) d1)"
        using eq j(1) by (simp add: transaction_def)
      moreover have "job_id j = jr_id r" using j(3) by (simp add: row_view_def)
      ultimately show ?thesis using j(2) up(1,5,6) key full Some
        by (intro exI [of _ d1] exI [of _ p] exI [of _ j] exI [of _ False] exI) (simp, blast?)
    qed
  qed
qed

theorem submit_exact_witness: "\<exists>x. fst (submit sample_env sample_request sample_db) = Inr x"
proof -
  have "normalize_existing_project sample_env (sj_project_path sample_request) = Inr ''/p''"
    "normalize_database_path sample_env (sj_db_path sample_request) = Inr ''/p.db''"
    "normalize_source_path (sj_file_path sample_request) = Inr ''f.py''" by code_simp+
  from submit_exact [OF sample_store_ok sample_now this] show ?thesis
    by (auto simp: sample_db_def sample_project_def)
qed

text \<open>
  C6. Requesting a full scan of a registered project is answered with the active full scan when
  there is one, without a change; otherwise a pending full scan is queued and every pending file
  job of the project is superseded by it, in one step that leaves the database inside its schema.
\<close>

theorem full_scan_exact:
  assumes "store_ok e d" "now_millis e = Inr now" "find_project pid d = Some p"
  shows "case find (active_full pid) (jobs d) of
      Some r \<Rightarrow> \<exists>j. submit_full_scan e pid d = (Inr (j, False), d) \<and> row_view r j
    | None \<Rightarrow> \<exists>j. submit_full_scan e pid d = (Inr (j, True), absorb_into p now d) \<and>
        store_ok e (absorb_into p now d) \<and> job_status j = Pending \<and> job_job_type j = JOB_TYPE_FULL_SCAN \<and>
        \<not> list_ex (pending_incremental pid) (jobs (absorb_into p now d))"
proof (cases "find (active_full pid) (jobs d)")
  case None
  have "pr_id p = pid" using assms(3) by (auto simp: find_project_def dest: find_Some_iff_mem)
  then have "\<not> list_ex (pending_incremental pid) (jobs (absorb_into p now d))"
    by (auto simp: list_ex_iff absorb_into_rows)
  moreover have "select_job (active_full pid) d = None" using None by (simp add: select_job_def)
  ultimately show ?thesis
    using submit_full_scan_queued [OF assms(1,2) now_millis_nonneg [OF assms(2)] assms(3)] None by simp
next
  case (Some r)
  then have "r \<in> set (jobs d)" by (auto dest: find_Some_iff_mem)
  moreover have "select_job (active_full pid) d = Some (jr_id r)" using Some by (simp add: select_job_def)
  ultimately show ?thesis using submit_full_scan_existing [OF assms] Some by simp
qed

theorem full_scan_exact_witness:
  "snd (submit_full_scan sample_env 1 sample_db) = absorb_into sample_project 5 sample_db"
proof -
  have p: "find_project 1 sample_db = Some sample_project" by (simp add: find_project_def sample_db_def sample_project_def)
  have "find (active_full 1) (jobs sample_db) = None" by code_simp
  then show ?thesis using full_scan_exact [OF sample_store_ok sample_now p] by auto
qed

text \<open>
  C7. At most one full scan of a project is pending or executing, after any sequence of store
  operations that starts where this holds.
\<close>

theorem one_active_full_scan:
  assumes "set fs \<subseteq> store_ops" "schema_ok d" "one_full_scan d"
  shows "one_full_scan (fold id fs d)"
  by (rule one_full_scan_run [OF assms])

theorem one_active_full_scan_witness:
  "one_full_scan (fold id [\<lambda>d. snd (submit_full_scan sample_env 1 d), \<lambda>d. snd (submit_full_scan sample_env 1 d)] sample_db)"
proof (rule one_active_full_scan [OF _ sample_schema])
  show "set [\<lambda>d. snd (submit_full_scan sample_env 1 d), \<lambda>d. snd (submit_full_scan sample_env 1 d)] \<subseteq> store_ops"
    unfolding store_ops_def by auto
  show "one_full_scan sample_db" by code_simp
qed

text \<open>
  While no recovery runs, a pending full scan leaves no file job of its project pending
  beside it: the fold of file jobs into a pending full scan is kept by every live operation.
\<close>

theorem fold_kept_live:
  assumes "set fs \<subseteq> live_ops" "schema_ok d" "folded d"
  shows "folded (fold id fs d)"
  by (rule folded_run [OF assms])

theorem fold_kept_live_witness:
  "folded (fold id [\<lambda>d. snd (submit_full_scan sample_env 1 d), \<lambda>d. snd (submit sample_env sample_request d)] sample_db)"
proof (rule fold_kept_live [OF _ sample_schema])
  show "set [\<lambda>d. snd (submit_full_scan sample_env 1 d), \<lambda>d. snd (submit sample_env sample_request d)] \<subseteq> live_ops"
    unfolding live_ops_def by auto
  show "folded sample_db" by code_simp
qed

lemma recover_row_pending: "has_status Pending (recover_row now d r) \<longleftrightarrow> has_status Pending r \<or> requeues d r"
proof (cases "is_executing r")
  case True
  then have "\<not> has_status Pending r" using has_status_unique by (auto simp: is_executing_def)
  then show ?thesis
      by (cases "has_status Running r"; cases "has_status CancelRequested r"; cases "successor d r")
        (simp_all add: recover_row_def requeues_def)
next
  case False
  then show ?thesis by (simp add: recover_row_idle requeues_def is_executing_def)
qed

lemma recover_row_key [simp]: "jr_project_id (recover_row now d r) = jr_project_id r"
  "jr_job_type (recover_row now d r) = jr_job_type r"
  using recover_row_fields(2) [of now d r] by (simp_all add: job_key_def)

text \<open>
  C8. Exactly when recovery breaks that fold: after it a full scan waits beside a file job of its
  project if and only if the table before held a full scan and a file job of one project, each of
  them pending or running without a pending successor.  So a file job that ran when the daemon
  stopped, or a file job queued behind a full scan that ran, ends up pending beside the full scan,
  from a database in which the fold held; a live submission would have absorbed it.  The witness is
  such a history from an empty database.
\<close>

theorem recovery_unfolds:
  assumes "store_ok e d" "now_millis e = Inr now"
  shows "folded (snd (recover e d)) \<longleftrightarrow>
    \<not> (\<exists>f \<in> set (jobs d). \<exists>r \<in> set (jobs d). jr_project_id f = jr_project_id r \<and>
        jr_job_type f = JOB_TYPE_FULL_SCAN \<and> jr_job_type r = JOB_TYPE_INCREMENTAL \<and>
        (has_status Pending f \<or> requeues d f) \<and> (has_status Pending r \<or> requeues d r))"
  unfolding recover_pointwise [OF assms, THEN conjunct1]
  by (auto simp: folded_def pending_full_def pending_incremental_def recover_row_pending)

theorem recovery_unfolds_witness:
  "let d = snd (submit_full_scan sample_env 1 (snd (claim_next_pending sample_env PROVIDER_RUST
       (snd (submit sample_env sample_request empty_db)))))
   in schema_ok d \<and> folded d \<and> \<not> folded (snd (recover sample_env d))"
proof -
  let ?d = "snd (submit_full_scan sample_env 1 (snd (claim_next_pending sample_env PROVIDER_RUST
       (snd (submit sample_env sample_request empty_db)))))"
  have s: "schema_ok ?d" "folded ?d" by code_simp+
  then have "store_ok sample_env ?d" by (simp add: store_ok_def payload_ok_def sample_env_def)
  moreover have "list_ex (\<lambda>f. list_ex (\<lambda>r. jr_project_id f = jr_project_id r \<and>
        jr_job_type f = JOB_TYPE_FULL_SCAN \<and> jr_job_type r = JOB_TYPE_INCREMENTAL \<and>
        (has_status Pending f \<or> requeues ?d f) \<and> (has_status Pending r \<or> requeues ?d r)) (jobs ?d)) (jobs ?d)"
    by code_simp
  ultimately have "\<not> folded (snd (recover sample_env ?d))"
    using recovery_unfolds [of sample_env ?d 5] sample_now unfolding list_ex_iff by blast
  with s show ?thesis unfolding Let_def by blast
qed
end
