(* ===== verification/Text.thy ===== *)
theory Text
  imports Paths
begin

text \<open>
  Text as the standard library hands it over: strings are sequences of UTF-8 bytes, one \<open>char\<close> per
  byte.  Validity of UTF-8, the lossy decoding that replaces every maximal invalid prefix, lines,
  trimming, substring search and replacement.
\<close>

section \<open>UTF-8\<close>

definition byte :: "char \<Rightarrow> nat" where "byte c = of_char c"

definition is_cont :: "char \<Rightarrow> bool" where "is_cont c \<longleftrightarrow> 128 \<le> byte c \<and> byte c \<le> 191"

text \<open>How many bytes follow a leading byte, and which second byte it allows.\<close>

definition utf8_need :: "char \<Rightarrow> nat option" where
  "utf8_need c =
     (if byte c < 128 then Some 0 else if 194 \<le> byte c \<and> byte c \<le> 223 then Some 1
      else if 224 \<le> byte c \<and> byte c \<le> 239 then Some 2
      else if 240 \<le> byte c \<and> byte c \<le> 244 then Some 3 else None)"

definition second_ok :: "char \<Rightarrow> char \<Rightarrow> bool" where
  "second_ok c d =
     (if byte c = 224 then 160 \<le> byte d \<and> byte d \<le> 191
      else if byte c = 237 then 128 \<le> byte d \<and> byte d \<le> 159
      else if byte c = 240 then 144 \<le> byte d \<and> byte d \<le> 191
      else if byte c = 244 then 128 \<le> byte d \<and> byte d \<le> 143 else is_cont d)"

definition good_tail :: "char \<Rightarrow> char list \<Rightarrow> nat" where
  "good_tail c bs = (case bs of [] \<Rightarrow> 0
     | d # ds \<Rightarrow> if second_ok c d then Suc (length (takeWhile is_cont ds)) else 0)"

text \<open>The length of the first character, or of the maximal invalid prefix.\<close>

definition utf8_step :: "char \<Rightarrow> char list \<Rightarrow> nat + nat" where
  "utf8_step c bs = (case utf8_need c of None \<Rightarrow> Inl 0
     | Some n \<Rightarrow> let k = good_tail c (take n bs) in if k = n then Inr n else Inl k)"

fun utf8_valid :: "string \<Rightarrow> bool" where
  "utf8_valid [] = True"
| "utf8_valid (c # bs) = (case utf8_step c bs of Inl _ \<Rightarrow> False | Inr n \<Rightarrow> utf8_valid (drop n bs))"

definition replacement :: string where
  "replacement = [char_of (239::nat), char_of (191::nat), char_of (189::nat)]"

fun from_utf8_lossy :: "string \<Rightarrow> string" where
  "from_utf8_lossy [] = []"
| "from_utf8_lossy (c # bs) = (case utf8_step c bs of
     Inl k \<Rightarrow> replacement @ from_utf8_lossy (drop k bs)
   | Inr n \<Rightarrow> (c # take n bs) @ from_utf8_lossy (drop n bs))"

fun utf8_chars :: "string \<Rightarrow> string list" where
  "utf8_chars [] = []"
| "utf8_chars (c # bs) = (case utf8_step c bs of
     Inl k \<Rightarrow> (c # take k bs) # utf8_chars (drop k bs)
   | Inr n \<Rightarrow> (c # take n bs) # utf8_chars (drop n bs))"

section \<open>Lines, trimming and substrings\<close>

definition newline :: char where "newline = char_of (10::nat)"

definition carriage_return :: char where "carriage_return = char_of (13::nat)"

fun split_inclusive :: "string \<Rightarrow> string list" where
  "split_inclusive [] = []"
| "split_inclusive (c # cs) =
     (if c = newline then [c] # split_inclusive cs
      else (case split_inclusive cs of [] \<Rightarrow> [[c]] | p # ps \<Rightarrow> (c # p) # ps))"

definition strip_eol :: "string \<Rightarrow> string" where
  "strip_eol l = (case strip_suffix [newline] l of None \<Rightarrow> l
     | Some m \<Rightarrow> (case strip_suffix [carriage_return] m of None \<Rightarrow> m | Some n \<Rightarrow> n))"

definition str_lines :: "string \<Rightarrow> string list" where
  "str_lines s = map strip_eol (split_inclusive s)"

text \<open>The Unicode characters with the White_Space property, in UTF-8.\<close>

definition whitespace_chars :: "nat list list" where
  "whitespace_chars = map (\<lambda>n. [n]) [9, 10, 11, 12, 13, 32] @
     [[194, 133], [194, 160], [225, 154, 128]] @
     map (\<lambda>n. [226, 128, n]) [128, 129, 130, 131, 132, 133, 134, 135, 136, 137, 138, 168, 169, 175] @
     [[226, 129, 159], [227, 128, 128]]"

definition is_whitespace :: "string \<Rightarrow> bool" where
  "is_whitespace ch \<longleftrightarrow> map byte ch \<in> set whitespace_chars"

definition trim :: "string \<Rightarrow> string" where
  "trim s = concat (rev (dropWhile is_whitespace (rev (dropWhile is_whitespace (utf8_chars s)))))"

fun contains_str :: "string \<Rightarrow> string \<Rightarrow> bool" where
  "contains_str p [] = (p = [])"
| "contains_str p (c # cs) = (starts_with p (c # cs) \<or> contains_str p cs)"

function replace_nonempty :: "string \<Rightarrow> string \<Rightarrow> string \<Rightarrow> string" where
  "replace_nonempty p r [] = []"
| "replace_nonempty p r (c # cs) =
     (if starts_with p (c # cs) \<and> p \<noteq> [] then r @ replace_nonempty p r (drop (length p) (c # cs))
      else c # replace_nonempty p r cs)"
  by pat_completeness auto
termination
  by (relation "measure (\<lambda>(p, r, s). length s)") (auto simp: Suc_le_eq)

definition str_replace :: "string \<Rightarrow> string \<Rightarrow> string \<Rightarrow> string" where
  "str_replace p r s =
     (if p = [] then r @ concat (map (\<lambda>ch. ch @ r) (utf8_chars s)) else replace_nonempty p r s)"

section \<open>Facts\<close>

lemma from_utf8_lossy_valid: "utf8_valid s \<Longrightarrow> from_utf8_lossy s = s"
proof (induction s rule: utf8_valid.induct)
  case (2 c bs)
  then show ?case by (cases "utf8_step c bs") auto
qed simp

lemma concat_utf8_chars: "concat (utf8_chars s) = s"
proof (induction s rule: utf8_chars.induct)
  case (2 c bs)
  then show ?case by (cases "utf8_step c bs") auto
qed simp

lemma utf8_valid_ascii: "(\<forall>c \<in> set s. byte c < 128) \<Longrightarrow> utf8_valid s"
  by (induction s) (auto simp: utf8_step_def utf8_need_def good_tail_def)

lemma concat_split_inclusive: "concat (split_inclusive s) = s"
  by (induction s) (auto split: list.splits)

lemma contains_str_append: "contains_str p s \<longleftrightarrow> (\<exists>a b. s = a @ p @ b)"
proof (induction s)
  case Nil
  then show ?case by simp
next
  case (Cons c cs)
  show ?case
  proof
    assume "contains_str p (c # cs)"
    then consider "starts_with p (c # cs)" | "contains_str p cs" by auto
    then show "\<exists>a b. c # cs = a @ p @ b"
    proof cases
      case 1
      then show ?thesis unfolding starts_with_append by (metis append_Nil)
    next
      case 2
      then show ?thesis using Cons by (metis append_Cons)
    qed
  next
    assume "\<exists>a b. c # cs = a @ p @ b"
    then obtain a b where ab: "c # cs = a @ p @ b" by blast
    show "contains_str p (c # cs)"
    proof (cases a)
      case Nil
      then have "starts_with p (c # cs)" unfolding starts_with_append using ab by auto
      then show ?thesis by simp
    next
      case (Cons x xs)
      then have "cs = xs @ p @ b" using ab by simp
      then show ?thesis using Cons.IH by auto
    qed
  qed
qed

lemma replace_absent: "\<not> contains_str p s \<Longrightarrow> replace_nonempty p r s = s"
  by (induction p r s rule: replace_nonempty.induct) auto

text \<open>Replacing by a character the pattern does not have leaves no occurrence behind.\<close>

lemma replace_starts:
  "x \<notin> set q \<Longrightarrow> starts_with q (replace_nonempty p [x] s) \<Longrightarrow> starts_with q s"
proof (induction p "[x]" s arbitrary: q rule: replace_nonempty.induct)
  case (1 p)
  then show ?case by simp
next
  case (2 p c cs)
  show ?case
  proof (cases "starts_with p (c # cs) \<and> p \<noteq> []")
    case True
    then have "starts_with q (x # replace_nonempty p [x] (drop (length p) (c # cs)))" using "2.prems"(2) by simp
    then have "q = []" using "2.prems"(1) by (cases q) (auto simp: starts_with_def)
    then show ?thesis by (simp add: starts_with_def)
  next
    case False
    then have *: "starts_with q (c # replace_nonempty p [x] cs)" using "2.prems"(2) by auto
    show ?thesis
    proof (cases q)
      case (Cons d ds)
      then have "c = d" "starts_with ds (replace_nonempty p [x] cs)" using * by (auto simp: starts_with_def)
      then show ?thesis using "2.hyps"(2) [OF False, of ds] "2.prems"(1) Cons by (auto simp: starts_with_def)
    qed (simp add: starts_with_def)
  qed
qed

lemma replace_removes:
  assumes "x \<notin> set p" "p \<noteq> []"
  shows "\<not> contains_str p (replace_nonempty p [x] s)"
  using assms
proof (induction p "[x]" s rule: replace_nonempty.induct)
  case (1 p)
  then show ?case by simp
next
  case (2 p c cs)
  show ?case
  proof (cases "starts_with p (c # cs)")
    case True
    have "\<not> starts_with p (x # t)" for t using "2.prems" by (cases p) (auto simp: starts_with_def)
    then show ?thesis using "2.hyps"(1) True "2.prems" by simp
  next
    case False
    then have eq: "replace_nonempty p [x] (c # cs) = c # replace_nonempty p [x] cs" by simp
    have "\<not> starts_with p (c # replace_nonempty p [x] cs)"
      using replace_starts [of x p p "c # cs"] False "2.prems" eq by auto
    then show ?thesis using "2.hyps"(2) False "2.prems" eq by simp
  qed
qed

end
