(* ===== verification/Worker.thy ===== *)
theory Worker
  imports StateStore Text
begin

text \<open>
  The supervisor of a scanner process, \<^verbatim>\<open>remy-cc/src/worker.rs\<close>: bounded capture of its output,
  the polling loops that wait for the scan lock and for the end of the process, the judgement of
  the output, and the error values stored with a failed job.

  A running process is what the supervisor observes of it: the sequence of polls (each with what
  the process, the cancellation flag and the clock answered), the bytes of the two pipes, and how
  the reader threads ended.  A loop over polls that are not enough to decide is \<open>None\<close>.
\<close>

datatype io_kind = InvalidInputKind | InvalidData | TimedOut | OtherKind

datatype io_error = IoError io_kind string

fun io_error_kind :: "io_error \<Rightarrow> io_kind" where "io_error_kind (IoError k _) = k"

fun io_error_to_string :: "io_error \<Rightarrow> string" where "io_error_to_string (IoError _ m) = m"

datatype WorkerOutcome = WSucceeded "string json_value" | WFailed "string json_value"

datatype WorkerEvent = Progress int int string | Complete int WorkerOutcome

record Captured =
  cap_bytes :: string
  cap_truncated :: bool

definition OUTPUT_LIMIT :: nat where "OUTPUT_LIMIT = 64 * 1024"

section \<open>Error values\<close>

definition error_value ::
    "string \<Rightarrow> string \<Rightarrow> int option \<Rightarrow> string \<Rightarrow> string \<Rightarrow> bool \<Rightarrow> string json_value list \<Rightarrow> string json_value" where
  "error_value kind message exit_code stage stderr stderr_truncated details =
     JObject [(''schema_version'', JNumber (NInt 1)), (''kind'', JString kind),
       (''message'', JString message),
       (''exit_code'', case exit_code of None \<Rightarrow> JNull | Some c \<Rightarrow> JNumber (NInt c)),
       (''stage'', JString stage), (''stderr'', JString stderr),
       (''stderr_truncated'', JBool stderr_truncated), (''details'', JArray details)]"

definition supervisor_kind :: "io_error \<Rightarrow> string \<times> string" where
  "supervisor_kind error =
     (let message = io_error_to_string error in
      if contains_str ''target_db_unavailable'' message then (''target_db_unavailable'', ''runtime_validation'')
      else if contains_str ''worker configuration'' message then (''config_invalid'', ''runtime_validation'')
      else if contains_str ''lock_timeout'' message then (''lock_timeout'', ''waiting_for_scan_lock'')
      else if contains_str ''scan_timeout'' message then (''scan_timeout'', ''scanning'')
      else if contains_str ''invalid_output'' message \<or> io_error_kind error = InvalidData
        then (''invalid_output'', ''finalizing'')
      else (''spawn_failed'', ''runtime_validation''))"

definition supervisor_error :: "io_error \<Rightarrow> string json_value" where
  "supervisor_error error =
     (let (kind, stage) = supervisor_kind error
      in error_value kind (io_error_to_string error) None stage [] False [])"

text \<open>The home directory is the value of the environment variable, when set.\<close>

definition sanitize :: "string option \<Rightarrow> string \<Rightarrow> string" where
  "sanitize home message =
     (case home of None \<Rightarrow> message | Some h \<Rightarrow> str_replace (from_utf8_lossy h) ''~'' message)"

section \<open>Bounded capture\<close>

definition capture_chunk :: "Captured \<Rightarrow> string \<Rightarrow> Captured" where
  "capture_chunk c chunk =
     (let remaining = OUTPUT_LIMIT - length (cap_bytes c)
      in \<lparr>cap_bytes = cap_bytes c @ take (min (length chunk) remaining) chunk,
          cap_truncated = (cap_truncated c \<or> remaining < length chunk)\<rparr>)"

text \<open>The chunks a pipe delivers; an empty read ends the stream.\<close>

definition read_pipe :: "string list \<Rightarrow> Captured" where
  "read_pipe chunks = foldl capture_chunk \<lparr>cap_bytes = [], cap_truncated = False\<rparr> (takeWhile (\<lambda>c. c \<noteq> []) chunks)"

definition from_slice :: "env \<Rightarrow> string \<Rightarrow> string json_value option" where
  "from_slice e bs = (if utf8_valid bs then (case json_from_str e bs of Inl _ \<Rightarrow> None | Inr v \<Rightarrow> Some v) else None)"

definition json_str_field :: "string \<Rightarrow> string json_value \<Rightarrow> string option" where
  "json_str_field k v = Option.bind (json_get k v) as_str"

definition is_lock_line :: "env \<Rightarrow> string \<Rightarrow> bool" where
  "is_lock_line e line = (case from_slice e line of None \<Rightarrow> False
     | Some v \<Rightarrow> json_str_field ''type'' v = Some ''progress'' \<and> json_str_field ''stage'' v = Some ''lock_acquired'')"

text \<open>The captured output and one progress event per line that announces the lock.\<close>

definition read_stdout :: "env \<Rightarrow> int \<Rightarrow> string \<Rightarrow> Captured \<times> WorkerEvent list" where
  "read_stdout e jid bytes =
     (let lines = split_inclusive bytes
      in (foldl capture_chunk \<lparr>cap_bytes = [], cap_truncated = False\<rparr> lines,
          map (\<lambda>_. Progress jid 2 ''scanning'') (filter (is_lock_line e) lines)))"

section \<open>Waiting\<close>

type_synonym ExitStatus = "int option"

record poll =
  poll_lock :: bool
  poll_exit :: "io_error + ExitStatus option"
  poll_cancel :: bool
  poll_kill :: "io_error + unit"
  poll_reap :: "io_error + ExitStatus"
  poll_late :: bool

definition cancelled_kill :: "poll \<Rightarrow> io_error + ExitStatus option" where
  "cancelled_kill p =
     (if poll_cancel p
      then res_bind (poll_kill p) (\<lambda>_. res_bind (poll_reap p) (\<lambda>s. Inr (Some s)))
      else Inr None)"

text \<open>One turn of a waiting loop: what it returns with, or nothing when it sleeps.\<close>

definition wait_turn :: "string \<Rightarrow> poll \<Rightarrow> (io_error + ExitStatus) option" where
  "wait_turn kind p =
     (case poll_exit p of
        Inl x \<Rightarrow> Some (Inl x)
      | Inr (Some status) \<Rightarrow> Some (Inr status)
      | Inr None \<Rightarrow>
          (case cancelled_kill p of
             Inl x \<Rightarrow> Some (Inl x)
           | Inr (Some status) \<Rightarrow> Some (Inr status)
           | Inr None \<Rightarrow>
               if poll_late p
               then Some (res_bind (poll_kill p) (\<lambda>_. Inl (IoError TimedOut kind)))
               else None))"

fun wait_until :: "string \<Rightarrow> poll list \<Rightarrow> (io_error + ExitStatus) option" where
  "wait_until kind [] = None"
| "wait_until kind (p # ps) = (case wait_turn kind p of Some r \<Rightarrow> Some r | None \<Rightarrow> wait_until kind ps)"

fun wait_for_lock :: "poll list \<Rightarrow> (io_error + ExitStatus option) option" where
  "wait_for_lock [] = None"
| "wait_for_lock (p # ps) =
     (if poll_lock p then Some (Inr None)
      else (case wait_turn ''lock_timeout'' p of
          Some (Inl x) \<Rightarrow> Some (Inl x)
        | Some (Inr status) \<Rightarrow> Some (Inr (Some status))
        | None \<Rightarrow> wait_for_lock ps))"

record join_poll =
  join_done :: bool
  join_late :: bool

fun join_reader :: "string \<Rightarrow> join_poll list \<Rightarrow> 'a option \<Rightarrow> (io_error + 'a) option" where
  "join_reader name [] r = None"
| "join_reader name (p # ps) r =
     (if join_done p
      then Some (case r of None \<Rightarrow> Inl (IoError OtherKind (name @ '' reader panicked'')) | Some c \<Rightarrow> Inr c)
      else if join_late p then Some (Inl (IoError TimedOut (name @ '' finalization timed out'')))
      else join_reader name ps r)"

section \<open>Judging the output\<close>

definition valid_progress_line :: "string json_value \<Rightarrow> bool" where
  "valid_progress_line value =
     (case as_object value of None \<Rightarrow> False
      | Some obj \<Rightarrow>
          list_all (\<lambda>(k, _). k \<in> {''type'', ''stage'', ''elapsed_ms'', ''files''}) obj \<and>
          json_str_field ''stage'' value \<in> Some ` {''lock_acquired'', ''parse_done'', ''postprocess_done''})"

definition has_exact_keys :: "string json_value \<Rightarrow> string list \<Rightarrow> bool" where
  "has_exact_keys value expected =
     (case as_object value of None \<Rightarrow> False
      | Some obj \<Rightarrow> length obj = length expected \<and> list_all (\<lambda>k. k \<in> fst ` set obj) expected)"

definition valid_string_array :: "string json_value \<Rightarrow> bool" where
  "valid_string_array value = (case as_array value of None \<Rightarrow> False | Some items \<Rightarrow> list_all is_string items)"

definition opt_holds :: "('a \<Rightarrow> bool) \<Rightarrow> 'a option \<Rightarrow> bool" where
  "opt_holds P x = (case x of None \<Rightarrow> False | Some a \<Rightarrow> P a)"

definition valid_error_array :: "string json_value \<Rightarrow> bool" where
  "valid_error_array value =
     (case as_array value of None \<Rightarrow> False
      | Some items \<Rightarrow> list_all (\<lambda>item.
          has_exact_keys item [''stage'', ''path'', ''message''] \<and>
          opt_holds is_string (json_get ''stage'' item) \<and>
          opt_holds (\<lambda>p. is_null p \<or> is_string p) (json_get ''path'' item) \<and>
          opt_holds is_string (json_get ''message'' item)) items)"

definition valid_scan_result :: "string json_value \<Rightarrow> bool" where
  "valid_scan_result result \<longleftrightarrow>
     json_str_field ''outcome'' result \<in> Some ` {''success'', ''partial'', ''failed''} \<and>
     Option.bind (json_get ''schema_version'' result) as_u64 = Some 1 \<and>
     valid_string_array (json_index result ''successful_paths'') \<and>
     valid_string_array (json_index result ''failed_paths'') \<and>
     valid_string_array (json_index result ''deleted_paths'') \<and>
     is_boolean (json_index result ''postprocess_complete'') \<and>
     valid_error_array (json_index result ''errors'')"

definition scan_result_keys :: "string list" where
  "scan_result_keys = [''type'', ''schema_version'', ''outcome'', ''successful_paths'', ''failed_paths'',
     ''deleted_paths'', ''postprocess_complete'', ''errors'']"

text \<open>The loop over the lines: an input error, an early verdict, or the final value.\<close>

fun judge_lines ::
    "env \<Rightarrow> int option \<Rightarrow> string \<Rightarrow> bool \<Rightarrow> string list \<Rightarrow> string json_value option \<Rightarrow>
       io_error + (WorkerOutcome + string json_value option)" where
  "judge_lines e code stderr trunc [] final = Inr (Inr final)"
| "judge_lines e code stderr trunc (line # lines) final =
     (case json_from_str e line of
        Inl m \<Rightarrow> Inl (IoError InvalidData m)
      | Inr value \<Rightarrow>
          if json_str_field ''type'' value = Some ''progress'' \<and> final = None then
            if \<not> valid_progress_line value
            then Inr (Inl (WFailed (error_value ''invalid_output'' ''worker emitted an unknown progress stage''
                   code ''finalizing'' [] False [])))
            else judge_lines e code stderr trunc lines final
          else if json_str_field ''type'' value = Some ''scan_result'' \<and> final = None \<and>
              has_exact_keys value scan_result_keys
            then judge_lines e code stderr trunc lines (Some value)
          else Inr (Inl (WFailed (error_value ''invalid_output'' ''worker emitted an invalid event sequence''
                 code ''finalizing'' stderr trunc []))))"

definition evaluate :: "env \<Rightarrow> string option \<Rightarrow> ExitStatus \<Rightarrow> Captured \<Rightarrow> Captured \<Rightarrow> io_error + WorkerOutcome" where
  "evaluate e home code stdout stderr =
     (let err = sanitize home (from_utf8_lossy (cap_bytes stderr)); trunc = cap_truncated stderr in
      if cap_truncated stdout
      then Inr (WFailed (error_value ''invalid_output'' ''worker stdout exceeded 65536 bytes'' code
             ''finalizing'' err trunc []))
      else if \<not> utf8_valid (cap_bytes stdout) then Inl (IoError InvalidData ''invalid_output'')
      else (case judge_lines e code err trunc (str_lines (cap_bytes stdout)) None of
          Inl x \<Rightarrow> Inl x
        | Inr (Inl verdict) \<Rightarrow> Inr verdict
        | Inr (Inr None) \<Rightarrow>
            Inr (WFailed (error_value ''invalid_output'' ''worker emitted no scan_result'' code
              ''finalizing'' err trunc []))
        | Inr (Inr (Some result)) \<Rightarrow>
            if \<not> valid_scan_result result
            then Inr (WFailed (error_value ''invalid_output'' ''worker scan_result fields are invalid'' code
                   ''finalizing'' [] False []))
            else if (code, json_str_field ''outcome'' result) \<in>
                {(Some 0, Some ''success''), (Some 2, Some ''partial'')}
            then Inr (WSucceeded result)
            else Inr (WFailed (error_value ''worker_failed'' ''scanner worker failed'' code ''scanning'' err trunc
                   (case Option.bind (json_get ''errors'' result) as_array of None \<Rightarrow> [] | Some xs \<Rightarrow> xs)))))"

section \<open>Supervision\<close>

record PConfig =
  full_scan_timeout :: nat
  struct_scan_timeout :: nat
  scan_lock_timeout :: string

text \<open>
  What the supervisor meets outside its own code, for one job.  The polls of a process depend on
  the timeout that fixes the deadline of the loop.
\<close>

record process =
  proc_lock_polls :: "string \<Rightarrow> poll list"
  proc_scan_polls :: "nat \<Rightarrow> poll list"
  proc_stdout :: string
  proc_stderr :: "string list"
  proc_join_stdout :: "join_poll list"
  proc_join_stderr :: "join_poll list"

record host =
  host_project_dir :: bool
  host_db_parent :: bool
  host_create_parent :: "io_error + unit"
  host_config :: "string + PConfig"
  host_spawn :: "string list \<Rightarrow> io_error + process"
  host_home :: "string option"

definition validate_target_db :: "host \<Rightarrow> io_error + unit" where
  "validate_target_db h =
     (if \<not> host_db_parent h then Inl (IoError InvalidInputKind ''target database has no parent'')
      else (case host_create_parent h of
          Inl x \<Rightarrow> Inl (IoError (io_error_kind x) (''target_db_unavailable: '' @ io_error_to_string x))
        | Inr _ \<Rightarrow> Inr ()))"

definition worker_args :: "Job \<Rightarrow> string \<Rightarrow> string list" where
  "worker_args job lock_timeout =
     [''scan'', ''--root'', job_project_path job, ''--db'', job_target_db_path job,
      ''--result-json'', ''--progress-json'', ''--lock-timeout'', lock_timeout] @
     (if job_job_type job = JOB_TYPE_FULL_SCAN then [] else [''--files'', job_file_path job])"

text \<open>The end of a started process; \<open>None\<close> while it is still being waited for.\<close>

definition finish_process :: "env \<Rightarrow> host \<Rightarrow> Job \<Rightarrow> PConfig \<Rightarrow> process \<Rightarrow> (io_error + WorkerOutcome) option" where
  "finish_process e h job c p =
     (let scan_timeout = (if job_job_type job = JOB_TYPE_FULL_SCAN then full_scan_timeout c else struct_scan_timeout c) in
     Option.bind (wait_for_lock (proc_lock_polls p (scan_lock_timeout c))) (\<lambda>locked.
     Option.bind (case locked of
         Inl x \<Rightarrow> Some (Inl x)
       | Inr (Some status) \<Rightarrow> Some (Inr status)
       | Inr None \<Rightarrow> wait_until ''scan_timeout'' (proc_scan_polls p scan_timeout)) (\<lambda>ended.
     case ended of Inl x \<Rightarrow> Some (Inl x)
     | Inr status \<Rightarrow>
       Option.bind (join_reader ''stdout'' (proc_join_stdout p)
           (Some (fst (read_stdout e (job_id job) (proc_stdout p))))) (\<lambda>out.
       case out of Inl x \<Rightarrow> Some (Inl x)
       | Inr stdout \<Rightarrow>
         Option.bind (join_reader ''stderr'' (proc_join_stderr p) (Some (read_pipe (proc_stderr p)))) (\<lambda>err.
         case err of Inl x \<Rightarrow> Some (Inl x)
         | Inr stderr \<Rightarrow> Some (evaluate e (host_home h) status stdout stderr))))))"

definition supervise_inner :: "env \<Rightarrow> host \<Rightarrow> Job \<Rightarrow> (io_error + WorkerOutcome) option" where
  "supervise_inner e h job =
     (if \<not> host_project_dir h
      then Some (Inr (WFailed (error_value ''project_unavailable'' ''project directory is unavailable''
             None ''runtime_validation'' [] False [])))
      else (case validate_target_db h of Inl x \<Rightarrow> Some (Inl x)
        | Inr _ \<Rightarrow>
          (case host_config h of
             Inl m \<Rightarrow> Some (Inl (IoError InvalidData (''worker configuration invalid: '' @ m)))
           | Inr c \<Rightarrow>
             (case host_spawn h (worker_args job (scan_lock_timeout c)) of
                Inl x \<Rightarrow> Some (Inl x)
              | Inr p \<Rightarrow> finish_process e h job c p))))"

text \<open>The event a supervisor ends with.\<close>

definition supervise :: "env \<Rightarrow> host \<Rightarrow> Job \<Rightarrow> WorkerEvent option" where
  "supervise e h job =
     map_option (\<lambda>r. Complete (job_id job)
       (case r of Inl x \<Rightarrow> WFailed (supervisor_error x) | Inr outcome \<Rightarrow> outcome)) (supervise_inner e h job)"

section \<open>The capture is a prefix\<close>

lemma capture_fold:
  "foldl capture_chunk \<lparr>cap_bytes = take OUTPUT_LIMIT s, cap_truncated = (OUTPUT_LIMIT < length s)\<rparr> chunks =
    \<lparr>cap_bytes = take OUTPUT_LIMIT (s @ concat chunks), cap_truncated = (OUTPUT_LIMIT < length (s @ concat chunks))\<rparr>"
proof (induction chunks arbitrary: s)
  case Nil
  then show ?case by simp
next
  case (Cons c cs)
  have "capture_chunk \<lparr>cap_bytes = take OUTPUT_LIMIT s, cap_truncated = (OUTPUT_LIMIT < length s)\<rparr> c =
      \<lparr>cap_bytes = take OUTPUT_LIMIT (s @ c), cap_truncated = (OUTPUT_LIMIT < length (s @ c))\<rparr>"
    by (cases "length s \<le> OUTPUT_LIMIT") (auto simp: capture_chunk_def Let_def min_def)
  then show ?case using Cons [of "s @ c"] by simp
qed

lemma capture_all:
  "foldl capture_chunk \<lparr>cap_bytes = [], cap_truncated = False\<rparr> chunks =
    \<lparr>cap_bytes = take OUTPUT_LIMIT (concat chunks), cap_truncated = (OUTPUT_LIMIT < length (concat chunks))\<rparr>"
  using capture_fold [of "[]" chunks] by simp

section \<open>What a success means\<close>

text \<open>A well-formed run: progress lines, then one scan result as the last line.\<close>

definition progress_value :: "string json_value \<Rightarrow> bool" where
  "progress_value v \<longleftrightarrow> json_str_field ''type'' v = Some ''progress'' \<and> valid_progress_line v"

definition result_value :: "string json_value \<Rightarrow> bool" where
  "result_value v \<longleftrightarrow> json_str_field ''type'' v = Some ''scan_result'' \<and> has_exact_keys v scan_result_keys"

lemma judge_after_terminal: "judge_lines e code err trunc ls (Some v) = Inr (Inr t) \<longleftrightarrow> ls = [] \<and> t = Some v"
  by (cases ls) (auto split: sum.splits)

lemma judge_step:
  "json_from_str e l = Inr x \<Longrightarrow> judge_lines e code err trunc (l # ls) None = Inr (Inr t) \<longleftrightarrow>
    (progress_value x \<and> judge_lines e code err trunc ls None = Inr (Inr t)) \<or>
    (result_value x \<and> judge_lines e code err trunc ls (Some x) = Inr (Inr t))"
  by (auto simp: progress_value_def result_value_def)

lemma judge_lines_result:
  "judge_lines e code err trunc ls None = Inr (Inr (Some v)) \<longleftrightarrow>
    (\<exists>ps. list_all2 (\<lambda>l x. json_from_str e l = Inr x) ls (ps @ [v]) \<and> list_all progress_value ps \<and> result_value v)"
proof (induction ls)
  case Nil
  then show ?case by simp
next
  case (Cons l ls)
  show ?case
  proof (cases "json_from_str e l")
    case (Inl m)
    then show ?thesis by (auto simp: list_all2_Cons1)
  next
    case (Inr x)
    let ?r = "\<lambda>ps. list_all2 (\<lambda>l x. json_from_str e l = Inr x) (l # ls) (ps @ [v]) \<and> list_all progress_value ps \<and> result_value v"
    have split: "(\<exists>ps. ?r ps) \<longleftrightarrow> (ls = [] \<and> x = v \<and> result_value v) \<or>
      (progress_value x \<and> (\<exists>ps. list_all2 (\<lambda>l x. json_from_str e l = Inr x) ls (ps @ [v]) \<and> list_all progress_value ps \<and> result_value v))"
      (is "?a \<longleftrightarrow> ?b")
    proof
      assume ?a
      then obtain ps where ps: "?r ps" by blast
      then show ?b using Inr by (cases ps) auto
    next
      assume ?b
      then show ?a
      proof (elim disjE conjE exE)
        assume "ls = []" "x = v" "result_value v"
        then show ?a using Inr by (intro exI [of _ "[]"]) simp
      next
        fix ps assume "progress_value x" "list_all2 (\<lambda>l x. json_from_str e l = Inr x) ls (ps @ [v])"
          "list_all progress_value ps" "result_value v"
        then show ?a using Inr by (intro exI [of _ "x # ps"]) simp
      qed
    qed
    show ?thesis
      unfolding split judge_step [OF Inr] Cons judge_after_terminal by auto
  qed
qed

text \<open>
  C30. The supervisor reports success with a value exactly when the captured output was complete
  UTF-8 text whose lines are JSON: well-formed progress events, then one scan result with the
  expected keys as the last line, with valid fields, and an exit code that matches its outcome
  (0 for success, 2 for partial); every other output is a failure or an input error.
\<close>

theorem evaluate_success_iff:
  "evaluate e home code out err = Inr (WSucceeded v) \<longleftrightarrow>
    \<not> cap_truncated out \<and> utf8_valid (cap_bytes out) \<and>
    (\<exists>ps. list_all2 (\<lambda>l x. json_from_str e l = Inr x) (str_lines (cap_bytes out)) (ps @ [v]) \<and>
       list_all progress_value ps \<and> result_value v) \<and>
    valid_scan_result v \<and>
    (code, json_str_field ''outcome'' v) \<in> {(Some 0, Some ''success''), (Some 2, Some ''partial'')}"
proof -
  have no_success: "judge_lines e code er trunc ls t \<noteq> Inr (Inl (WSucceeded w))" for er trunc ls t w
    by (induction e code er trunc ls t rule: judge_lines.induct) (auto split: sum.splits)
  show ?thesis
    unfolding judge_lines_result [where e = e and code = code and trunc = "cap_truncated err" and
        err = "sanitize home (from_utf8_lossy (cap_bytes err))", symmetric]
    using no_success [of "sanitize home (from_utf8_lossy (cap_bytes err))" "cap_truncated err" "str_lines (cap_bytes out)" None v]
    by (auto simp: evaluate_def Let_def split: sum.splits option.splits if_splits)
qed

section \<open>Waiting ends\<close>

lemma wait_turn_late: "poll_late p \<Longrightarrow> wait_turn kind p \<noteq> None"
  by (auto simp: wait_turn_def split: sum.split option.split)

lemma wait_turn_cancel:
  "poll_cancel p \<Longrightarrow> poll_exit p = Inr None \<Longrightarrow> poll_kill p = Inr () \<Longrightarrow> poll_reap p = Inr status \<Longrightarrow>
    wait_turn kind p = Some (Inr status)"
  by (simp add: wait_turn_def cancelled_kill_def res_bind_def)

lemma wait_until_late: "list_ex poll_late ps \<Longrightarrow> wait_until kind ps \<noteq> None"
proof (induction ps)
  case (Cons p ps)
  then show ?case using wait_turn_late [of p kind] by (auto split: option.split)
qed simp

lemma wait_for_lock_late: "list_ex poll_late ps \<Longrightarrow> wait_for_lock ps \<noteq> None"
proof (induction ps)
  case (Cons p ps)
  then show ?case using wait_turn_late [of p "''lock_timeout''"] by (auto split: option.split sum.split)
qed simp

lemma wait_until_timeout:
  assumes "wait_until kind ps = Some (Inl (IoError TimedOut kind'))"
    and "list_all (\<lambda>p. poll_exit p \<in> range Inr \<and> poll_kill p = Inr () \<and> (\<exists>s. poll_reap p = Inr s)) ps"
  shows "kind' = kind \<and> list_ex (\<lambda>p. poll_late p \<and> \<not> poll_cancel p \<and> poll_exit p = Inr None) ps"
  using assms
proof (induction ps)
  case (Cons p ps)
  show ?case
  proof (cases "wait_turn kind p")
    case None
    then show ?thesis using Cons by simp
  next
    case (Some r)
    then have "wait_turn kind p = Some (Inl (IoError TimedOut kind'))" using Cons.prems by simp
    then show ?thesis
      using Cons.prems(2) by (auto simp: wait_turn_def cancelled_kill_def res_bind_def split: option.splits if_splits)
  qed
qed simp

lemma join_reader_late: "list_ex join_late ps \<Longrightarrow> join_reader name ps r \<noteq> None"
  by (induction ps) auto

section \<open>Properties of the supervisor\<close>

text \<open>
  However a pipe chops its bytes, the capture of a stream is its first 64 KiB and the
  truncation flag says whether there was more; both readers agree.
\<close>

theorem capture_exact:
  "read_pipe chunks =
      \<lparr>cap_bytes = take 65536 (concat (takeWhile (\<lambda>c. c \<noteq> []) chunks)),
       cap_truncated = (65536 < length (concat (takeWhile (\<lambda>c. c \<noteq> []) chunks)))\<rparr> \<and>
   fst (read_stdout e i bytes) = \<lparr>cap_bytes = take 65536 bytes, cap_truncated = (65536 < length bytes)\<rparr>"
proof -
  have limit: "OUTPUT_LIMIT = 65536" by (simp add: OUTPUT_LIMIT_def)
  show ?thesis
    unfolding read_pipe_def read_stdout_def Let_def fst_conv capture_all concat_split_inclusive limit by simp
qed

text \<open>
  C32. A supervisor always reports back: once each of its loops has been polled past its deadline,
  it has ended with exactly one completion event for its own job.
\<close>

theorem supervise_reports:
  assumes "\<And>c p t. host_config h = Inr c \<Longrightarrow> host_spawn h (worker_args job (scan_lock_timeout c)) = Inr p \<Longrightarrow>
      list_ex poll_late (proc_lock_polls p (scan_lock_timeout c)) \<and> list_ex poll_late (proc_scan_polls p t) \<and>
      list_ex join_late (proc_join_stdout p) \<and> list_ex join_late (proc_join_stderr p)"
  shows "\<exists>outcome. supervise e h job = Some (Complete (job_id job) outcome)"
proof -
  have "finish_process e h job c p \<noteq> None" if c: "host_config h = Inr c"
    and p: "host_spawn h (worker_args job (scan_lock_timeout c)) = Inr p" for c p
  proof -
    define t where "t = (if job_job_type job = JOB_TYPE_FULL_SCAN then full_scan_timeout c else struct_scan_timeout c)"
    note late = assms [OF c p, of t]
    obtain locked where "wait_for_lock (proc_lock_polls p (scan_lock_timeout c)) = Some locked"
      using late wait_for_lock_late [of "proc_lock_polls p (scan_lock_timeout c)"] by blast
    moreover obtain ended where "wait_until ''scan_timeout'' (proc_scan_polls p t) = Some ended"
      using late wait_until_late [of "proc_scan_polls p t" "''scan_timeout''"] by blast
    moreover obtain out where
      "join_reader ''stdout'' (proc_join_stdout p) (Some (fst (read_stdout e (job_id job) (proc_stdout p)))) = Some out"
      using late join_reader_late [of "proc_join_stdout p"] by blast
    moreover obtain err where
      "join_reader ''stderr'' (proc_join_stderr p) (Some (read_pipe (proc_stderr p))) = Some err"
      using late join_reader_late [of "proc_join_stderr p"] by blast
    ultimately show ?thesis
      unfolding finish_process_def Let_def t_def [symmetric] by (simp split: sum.split option.split)
  qed
  then have "supervise_inner e h job \<noteq> None"
    by (auto simp: supervise_inner_def split: sum.split)
  then show ?thesis by (auto simp: supervise_def)
qed

definition sample_host :: host where
  "sample_host = \<lparr>host_project_dir = True, host_db_parent = True, host_create_parent = Inr (),
     host_config = Inr \<lparr>full_scan_timeout = 600, struct_scan_timeout = 60, scan_lock_timeout = ''30''\<rparr>,
     host_spawn = (\<lambda>args. Inr \<lparr>proc_lock_polls = (\<lambda>_. [\<lparr>poll_lock = False, poll_exit = Inr None, poll_cancel = False,
         poll_kill = Inr (), poll_reap = Inr None, poll_late = True\<rparr>]),
       proc_scan_polls = (\<lambda>_. [\<lparr>poll_lock = False, poll_exit = Inr None, poll_cancel = False,
         poll_kill = Inr (), poll_reap = Inr None, poll_late = True\<rparr>]),
       proc_stdout = [], proc_stderr = [], proc_join_stdout = [\<lparr>join_done = True, join_late = True\<rparr>],
       proc_join_stderr = [\<lparr>join_done = True, join_late = True\<rparr>]\<rparr>),
     host_home = None\<rparr>"

theorem supervise_reports_witness:
  "\<forall>e job. \<exists>outcome. supervise e sample_host job = Some (Complete (job_id job) outcome)"
  by (intro allI supervise_reports) (auto simp: sample_host_def)

text \<open>
  The standard error text stored with a failed job does not contain the home directory of
  the user, when that is a proper UTF-8 path without a tilde.
\<close>

theorem sanitize_hides_home:
  assumes "utf8_valid h" "h \<noteq> []" "CHR ''~'' \<notin> set h"
  shows "\<not> contains_str h (sanitize (Some h) message)"
  using replace_removes [of "CHR ''~''" h message] assms
  by (simp add: sanitize_def str_replace_def from_utf8_lossy_valid)

theorem sanitize_hides_home_witness:
  "\<not> contains_str ''/home/u'' (sanitize (Some ''/home/u'') ''open /home/u/p failed'')"
proof (rule sanitize_hides_home)
  show "utf8_valid ''/home/u''" by code_simp
qed simp_all

end
