(* ===== verification/Scheduler.thy ===== *)
theory Scheduler
  imports StateProperties Worker
begin

text \<open>
  The job scheduler, \<^verbatim>\<open>remy-cc/src/scheduler.rs\<close>: the single owner of the store, a loop over
  commands with one execution slot.  A step takes a command, applies it to the store and then
  dispatches when the slot is free.  The threads around it are the parameters of a step: the
  environment of the command and of the dispatch, and whether the worker thread could be started;
  the commands a dispatch sends to the scheduler itself are recorded.
\<close>

datatype Command =
    CSubmit SubmitJob
  | CSubmitFullScan int
  | CPromote int JobPriority
  | CGet int
  | CCancel int
  | CList ListJobs
  | CStatus
  | CWorker WorkerEvent
  | CShutdown

datatype Reply =
    RSubmit "StateError + SubmitResult"
  | RPromote "StateError + (Job \<times> bool)"
  | RGet "StateError + Job"
  | RCancel "StateError + (Job \<times> bool)"
  | RList "StateError + Job list"
  | RStatus "StateError + (Job list \<times> Job list)"

record ActiveJob =
  aj_job_id :: int
  aj_cancel :: bool

record sched =
  sc_store :: db
  sc_active :: "ActiveJob option"
  sc_running :: bool
  sc_sent :: "Command list"

section \<open>Dispatching\<close>

definition spawn_failed :: "io_error \<Rightarrow> string json_value" where
  "spawn_failed error =
     JObject [(''schema_version'', JNumber (NInt 1)), (''kind'', JString ''spawn_failed''),
       (''message'', JString (io_error_to_string error)), (''exit_code'', JNull),
       (''stage'', JString ''runtime_validation''), (''stderr'', JString []),
       (''stderr_truncated'', JBool False), (''details'', JArray [])]"

definition dispatch :: "env \<Rightarrow> (Job \<Rightarrow> io_error + unit) \<Rightarrow> (sched, StateError, unit) op" where
  "dispatch e spawn s =
     (if sc_active s \<noteq> None then (Inr (), s)
      else (case claim_next_pending e PROVIDER_RUST (sc_store s) of
          (Inl x, d) \<Rightarrow> (Inl x, s\<lparr>sc_store := d\<rparr>)
        | (Inr None, d) \<Rightarrow> (Inr (), s\<lparr>sc_store := d\<rparr>)
        | (Inr (Some job), d) \<Rightarrow>
            let s' = s\<lparr>sc_store := d, sc_active := Some \<lparr>aj_job_id = job_id job, aj_cancel = False\<rparr>\<rparr> in
            (case spawn job of
               Inr _ \<Rightarrow> (Inr (), s')
             | Inl x \<Rightarrow> (Inr (), s'\<lparr>sc_sent := sc_sent s' @
                 [CWorker (Complete (job_id job) (WFailed (spawn_failed x)))]\<rparr>))))"

section \<open>Worker events\<close>

definition finish_active :: "int \<Rightarrow> sched \<Rightarrow> sched" where
  "finish_active i s =
     (case sc_active s of
        Some a \<Rightarrow> if aj_job_id a = i then s\<lparr>sc_active := None\<rparr> else s
      | None \<Rightarrow> s)"

definition complete_worker :: "env \<Rightarrow> int \<Rightarrow> WorkerOutcome \<Rightarrow> unit dbop" where
  "complete_worker e i outcome =
     op_bind (get e i) (\<lambda>current.
     case job_status current of
       CancelRequested \<Rightarrow> op_bind (confirm_cancelled e i) (\<lambda>_. op_return ())
     | Running \<Rightarrow> (case outcome of
           WSucceeded result \<Rightarrow> op_bind (complete_success e i result) (\<lambda>_. op_return ())
         | WFailed error \<Rightarrow> op_bind (complete_failure e i error) (\<lambda>_. op_return ()))
     | _ \<Rightarrow> op_return ())"

definition handle_worker :: "env \<Rightarrow> WorkerEvent \<Rightarrow> (sched, StateError, unit) op" where
  "handle_worker e event s =
     (case event of
        Progress i current message \<Rightarrow>
          (case update_progress e i \<lparr>pu_current = current, pu_total = 3, pu_message = message\<rparr> (sc_store s) of
             (Inr _, d) \<Rightarrow> (Inr (), s\<lparr>sc_store := d\<rparr>)
           | (Inl (InvalidTransition _ _), d) \<Rightarrow> (Inr (), s\<lparr>sc_store := d\<rparr>)
           | (Inl (NotFound _), d) \<Rightarrow> (Inr (), s\<lparr>sc_store := d\<rparr>)
           | (Inl x, d) \<Rightarrow> (Inl x, s\<lparr>sc_store := d\<rparr>))
      | Complete i outcome \<Rightarrow>
          (case complete_worker e i outcome (sc_store s) of
             (Inl x, d) \<Rightarrow> (Inl x, s\<lparr>sc_store := d\<rparr>)
           | (Inr _, d) \<Rightarrow> (Inr (), finish_active i (s\<lparr>sc_store := d\<rparr>))))"

section \<open>Commands\<close>

definition status_reply :: "env \<Rightarrow> db \<Rightarrow> StateError + (Job list \<times> Job list)" where
  "status_reply e d =
     (let active = fst (list_jobs e (default_list\<lparr>lj_status := Some Running, lj_limit := 200\<rparr>) d);
          cancelling = fst (list_jobs e (default_list\<lparr>lj_status := Some CancelRequested, lj_limit := 200\<rparr>) d)
      in res_bind active (\<lambda>jobs. res_bind cancelling (\<lambda>more.
         res_bind (fst (recent_failed e 10 d)) (\<lambda>failed. Inr (jobs @ more, failed)))))"

text \<open>The cancellation flag of the active worker is raised when its job was asked to stop.\<close>

definition raise_flag :: "int \<Rightarrow> StateError + (Job \<times> bool) \<Rightarrow> ActiveJob option \<Rightarrow> ActiveJob option" where
  "raise_flag i result active =
     (case (result, active) of
        (Inr (job, changed), Some a) \<Rightarrow>
          if changed \<and> job_status job = CancelRequested \<and> aj_job_id a = i
          then Some (a\<lparr>aj_cancel := True\<rparr>) else active
      | _ \<Rightarrow> active)"

definition on_store :: "('a \<Rightarrow> Reply) \<Rightarrow> 'a \<times> db \<Rightarrow> sched \<Rightarrow> Reply option \<times> (StateError + unit) \<times> sched" where
  "on_store reply r s = (Some (reply (fst r)), Inr (), s\<lparr>sc_store := snd r\<rparr>)"

definition apply_command :: "env \<Rightarrow> Command \<Rightarrow> sched \<Rightarrow> Reply option \<times> (StateError + unit) \<times> sched" where
  "apply_command e command s =
     (case command of
        CSubmit request \<Rightarrow> on_store RSubmit (submit e request (sc_store s)) s
      | CSubmitFullScan p \<Rightarrow> on_store RSubmit (submit_full_scan e p (sc_store s)) s
      | CPromote i p \<Rightarrow> on_store RPromote (promote e i p (sc_store s)) s
      | CGet i \<Rightarrow> on_store RGet (get e i (sc_store s)) s
      | CCancel i \<Rightarrow>
          (let r = cancel e i (sc_store s)
           in on_store RCancel r (s\<lparr>sc_active := raise_flag i (fst r) (sc_active s)\<rparr>))
      | CList flt \<Rightarrow> on_store RList (list_jobs e flt (sc_store s)) s
      | CStatus \<Rightarrow> (Some (RStatus (status_reply e (sc_store s))), Inr (), s)
      | CWorker event \<Rightarrow> (case handle_worker e event s of (r, s') \<Rightarrow> (None, r, s'))
      | CShutdown \<Rightarrow> (None, Inr (), s))"

text \<open>One turn of the loop, and the start before the first command.\<close>

definition sched_step ::
    "env \<Rightarrow> env \<Rightarrow> (Job \<Rightarrow> io_error + unit) \<Rightarrow> Command \<Rightarrow> sched \<Rightarrow> Reply option \<times> sched" where
  "sched_step e e' spawn command s =
     (if \<not> sc_running s then (None, s)
      else if command = CShutdown then (None, s\<lparr>sc_running := False\<rparr>)
      else (case apply_command e command s of
          (reply, Inl _, s1) \<Rightarrow> (reply, s1\<lparr>sc_running := False\<rparr>)
        | (reply, Inr _, s1) \<Rightarrow>
            (case dispatch e' spawn s1 of
               (Inl _, s2) \<Rightarrow> (reply, s2\<lparr>sc_running := False\<rparr>)
             | (Inr _, s2) \<Rightarrow> (reply, s2))))"

definition sched_start :: "env \<Rightarrow> (Job \<Rightarrow> io_error + unit) \<Rightarrow> db \<Rightarrow> sched" where
  "sched_start e spawn d =
     (case dispatch e spawn \<lparr>sc_store = d, sc_active = None, sc_running = True, sc_sent = []\<rparr> of
        (Inl _, s) \<Rightarrow> s\<lparr>sc_running := False\<rparr>
      | (Inr _, s) \<Rightarrow> s)"

inductive sched_reach :: "sched \<Rightarrow> bool" where
  start: "schema_ok d \<Longrightarrow> \<not> list_ex is_executing (jobs d) \<Longrightarrow> sched_reach (sched_start e spawn d)"
| step: "sched_reach s \<Longrightarrow> sched_reach (snd (sched_step e e' spawn command s))"

section \<open>What is executing\<close>

definition exec_of :: "db \<Rightarrow> (int \<times> JobStatus) set" where
  "exec_of d = {(jr_id r, s) | r s. r \<in> set (jobs d) \<and> has_status s r \<and> executing s}"

lemma exec_of_iff: "(i, s) \<in> exec_of d \<longleftrightarrow> (\<exists>r \<in> set (jobs d). jr_id r = i \<and> has_status s r \<and> executing s)"
  by (auto simp: exec_of_def)

lemma exec_of_empty: "exec_of d = {} \<longleftrightarrow> \<not> list_ex is_executing (jobs d)"
  by (auto simp: exec_of_def list_ex_iff is_executing_def executing_def)

lemma exec_of_same_jobs: "jobs d' = jobs d \<Longrightarrow> exec_of d' = exec_of d"
  by (simp add: exec_of_def)

lemma exec_of_row:
  assumes "schema_ok d" "r \<in> set (jobs d)" "has_status t r"
  shows "(jr_id r, s) \<in> exec_of d \<longleftrightarrow> s = t \<and> executing s"
proof -
  have "x = r" if "x \<in> set (jobs d)" "jr_id x = jr_id r" for x
    by (rule distinct_key_eq [OF schema_okD(1) [OF assms(1)] that(1) assms(2) that(2)])
  then show ?thesis unfolding exec_of_iff using assms(2,3) has_status_unique [OF assms(3), of s] by blast
qed

lemma exec_set_row:
  assumes "schema_ok d" "r \<in> set (jobs d)" "\<And>x. jr_id (f x) = jr_id x"
  shows "exec_of (set_row (jr_id r) f d) =
    {x \<in> exec_of d. fst x \<noteq> jr_id r} \<union> {(jr_id r, s) | s. has_status s (f r) \<and> executing s}"
proof -
  have same: "jr_id x = jr_id r \<longleftrightarrow> x = r" if "x \<in> set (jobs d)" for x
    using distinct_key_eq [OF schema_okD(1) [OF assms(1)] that assms(2)] by auto
  have "(i, s) \<in> exec_of (set_row (jr_id r) f d) \<longleftrightarrow>
      (i, s) \<in> exec_of d \<and> i \<noteq> jr_id r \<or> i = jr_id r \<and> has_status s (f r) \<and> executing s" for i s
    unfolding exec_of_iff jobs_set_row [OF assms(1,2)] using same assms(3) by auto
  then show ?thesis by auto
qed

lemma set_row_at:
  assumes "schema_ok d" "r \<in> set (jobs d)" "r' \<in> set (jobs (set_row (jr_id r) f d))" "jr_id r' = jr_id r"
  shows "r' = f r"
proof -
  have "x = r" if "x \<in> set (jobs d)" "jr_id x = jr_id r" for x
    by (rule distinct_key_eq [OF schema_okD(1) [OF assms(1)] that(1) assms(2) that(2)])
  then show ?thesis using assms(3,4) unfolding jobs_set_row [OF assms(1,2)] by blast
qed

lemma status_after:
  assumes "schema_ok d" "r \<in> set (jobs d)"
    and "\<exists>x \<in> set (jobs (set_row (jr_id r) f d)). jr_id x = jr_id r \<and> has_status t x"
  shows "has_status t (f r)"
  using assms(3) set_row_at [OF assms(1,2)] by blast

text \<open>A statement that selects at most the row with one id.\<close>

lemma update_single:
  assumes d: "schema_ok d" and u: "update_jobs P f d = (Inr n, d')" and P: "\<And>x. P x \<Longrightarrow> jr_id x = i"
  shows "(n = 0 \<and> d' = d) \<or> (n = 1 \<and> (\<exists>r \<in> set (jobs d). P r \<and> jr_id r = i \<and> d' = set_row i f d))"
proof (cases "\<exists>r \<in> set (jobs d). P r")
  case True
  then obtain r where r: "r \<in> set (jobs d)" "P r" by blast
  have same: "P x \<longleftrightarrow> jr_id x = i" if "x \<in> set (jobs d)" for x
    using that P distinct_key_eq [OF schema_okD(1) [OF d] that r(1)] r(2) by metis
  then have "update_where P f (jobs d) = update_where (\<lambda>x. jr_id x = i) f (jobs d)"
    by (auto simp: update_where_def)
  moreover have "count_where P (jobs d) = 1"
    using count_where_key [of jr_id "jobs d" r i P] schema_okD(1) [OF d] r P by blast
  ultimately show ?thesis
    using u r P by (auto simp: update_jobs_def Let_def set_row_def split: if_splits)
next
  case False
  then have "update_where P f (jobs d) = jobs d" "count_where P (jobs d) = 0"
    by (auto simp: update_where_none count_where_zero)
  then show ?thesis using u by (auto simp: update_jobs_def Let_def split: if_splits)
qed

lemma transition_exec:
  assumes d: "schema_ok d" and t: "transition_job i src dst now k d = (Inr b, d')"
  shows "if b then (\<exists>r \<in> set (jobs d). jr_id r = i \<and> has_status src r) \<and>
      exec_of d' = {x \<in> exec_of d. fst x \<noteq> i} \<union> (if executing dst then {(i, dst)} else {}) else d' = d"
proof -
  have allowed: "allowed_transition src dst" "dst \<notin> {Succeeded, Failed}"
    using t by (auto simp: transition_job_def Let_def op_eval split: if_splits)
  obtain n where n: "update_jobs (\<lambda>r. jr_id r = i \<and> has_status src r) (transition_row src dst now k) d = (Inr n, d')"
      "b = (n = 1)"
    using t by (auto simp: transition_job_eq [OF allowed] op_eval split: prod.splits sum.splits)
  have "n = 0 \<and> d' = d \<or> n = 1 \<and> (\<exists>r \<in> set (jobs d). (jr_id r = i \<and> has_status src r) \<and> jr_id r = i \<and>
      d' = set_row i (transition_row src dst now k) d)"
    by (rule update_single [OF d n(1)]) simp
  then show ?thesis using exec_set_row [OF d, where f = "transition_row src dst now k"] n(2) by auto
qed

lemma load_job_Inr:
  assumes "load_job e i d = (Inr j, d')"
  shows "d' = d \<and> job_id j = i \<and> (\<exists>r \<in> set (jobs d). jr_id r = i \<and> has_status (job_status j) r)"
proof -
  have body: "d' = d" "(case find_job i d of None \<Rightarrow> Inl (NotFound i) | Some r \<Rightarrow>
      (case find_project (jr_project_id r) d of None \<Rightarrow> Inl (NotFound i) | Some p \<Rightarrow> row_to_job e p r)) = Inr j"
    using assms unfolding load_job_def op_basic_simps by blast+
  obtain r where r: "find_job i d = Some r" using body(2) by (cases "find_job i d") simp_all
  obtain p where p: "find_project (jr_project_id r) d = Some p"
    using body(2) r by (cases "find_project (jr_project_id r) d") simp_all
  have rp: "find_job i d = Some r" "row_to_job e p r = Inr j" "d' = d" using body r p by simp_all
  have bind: "res_bind m k = Inr b \<longleftrightarrow> (\<exists>a. m = Inr a \<and> k a = Inr b)" for m :: "'x + 'a" and k :: "'a \<Rightarrow> 'x + 'b" and b
    by (cases m) (simp_all add: res_bind_def)
  have "job_id j = jr_id r" "from_db (jr_status r) = Inr (job_status j)"
    using rp(2) unfolding row_to_job_def bind by auto
  moreover have "r \<in> set (jobs d)" "jr_id r = i" using find_job_mem [OF rp(1)] by auto
  ultimately show ?thesis using rp(3) from_db_Inr unfolding has_status_def by metis
qed

lemma load_job_Inl: "load_job e i d = (Inl x, d') \<Longrightarrow> d' = d"
  by (simp add: load_job_def op_basic_simps)

lemma transaction_Inl_same: "transaction m d = (Inl x, d') \<Longrightarrow> d' = d"
  by (auto simp: transaction_def split: prod.splits sum.splits)

section \<open>Operations that leave the executing jobs alone\<close>

definition exec_inv :: "(int \<times> JobStatus) set \<Rightarrow> db \<Rightarrow> bool" where
  "exec_inv X d \<longleftrightarrow> schema_ok d \<and> exec_of d = X"

named_theorems quiet \<open>statements that keep exec_inv\<close>

lemma quiet_update [quiet]:
  assumes "\<And>r. P r \<Longrightarrow> jr_id (f r) = jr_id r \<and> is_executing (f r) = is_executing r \<and>
    (is_executing r \<longrightarrow> jr_status (f r) = jr_status r)"
  shows "keeps (exec_inv X) (update_jobs P f)"
proof -
  let ?u = "\<lambda>r. if P r then f r else r"
  have same: "jr_id (?u r) = jr_id r \<and> (has_status s (?u r) \<and> executing s \<longleftrightarrow> has_status s r \<and> executing s)" for r s
    using assms [of r] is_executing_status [of s r] is_executing_status [of s "f r"]
    by (auto simp: has_status_def)
  have "exec_of (d\<lparr>jobs := update_where P f (jobs d)\<rparr>) = exec_of d" for d
  proof -
    have rows: "jobs (d\<lparr>jobs := update_where P f (jobs d)\<rparr>) = map ?u (jobs d)" by (simp add: update_where_def)
    have "(i, s) \<in> exec_of (d\<lparr>jobs := update_where P f (jobs d)\<rparr>) \<longleftrightarrow> (i, s) \<in> exec_of d" for i s
      unfolding exec_of_iff rows list.set_map bex_simps by (rule bex_cong) (simp_all only: same)
    then show ?thesis by (intro set_eqI) (metis surj_pair)
  qed
  then show ?thesis
    by (auto simp: keeps_def exec_inv_def update_jobs_def Let_def schema_ok_jobs_update)
qed

lemma quiet_insert [quiet]: "\<not> is_executing row \<Longrightarrow> keeps (exec_inv X) (insert_job row)"
  unfolding keeps_def exec_inv_def
proof (intro allI impI)
  fix d assume row: "\<not> is_executing row" and d: "schema_ok d \<and> exec_of d = X"
  have "exec_of (append_row row d) = exec_of d"
    using row by (auto simp: exec_of_def append_row_def is_executing_def executing_def)
  then show "schema_ok (snd (insert_job row d)) \<and> exec_of (snd (insert_job row d)) = X"
    using d insert_job_outcome [of row d] insert_job_schema [of d row] by (metis prod.collapse)
qed

lemma quiet_upsert [quiet]: "keeps (exec_inv X) (upsert_project key path db_path now)"
proof -
  have "jobs (snd (upsert_project key path db_path now d)) = jobs d" for d
    using upsert_project_ids [of key path db_path now d "fst (upsert_project key path db_path now d)"] by simp
  then show ?thesis
    using op_evolves_snd [OF op_evolves_upsert_project] by (auto simp: keeps_def exec_inv_def exec_of_def)
qed

lemma keeps_pair [keeping]: "(\<And>x y. keeps J (k x y)) \<Longrightarrow> keeps J (case v of (x, y) \<Rightarrow> k x y)"
  by (cases v) simp

lemma not_executing_rows [simp]:
  "\<not> is_executing (new_job_row p t db fp prio Pending now k)"
  "\<not> is_executing ((new_job_row p t db fp prio Superseded now k)\<lparr>jr_finished_at := x, jr_superseded_by := y\<rparr>)"
  by (simp_all add: is_executing_def has_status_def new_job_row_def)

lemma quiet_submit: "keeps (exec_inv X) (submit e q)"
  unfolding submit_def Let_def
  by (intro keeping quiet not_executing_rows) (simp add: is_executing_def has_status_def)

lemma quiet_full_scan: "keeps (exec_inv X) (submit_full_scan e p)"
  unfolding submit_full_scan_def
  by (intro keeping quiet not_executing_rows) (auto simp: is_executing_def has_status_def)

lemma quiet_promote: "keeps (exec_inv X) (promote e i p)"
  unfolding promote_def by (intro keeping quiet) (simp add: is_executing_def has_status_def)

lemma quiet_progress: "keeps (exec_inv X) (update_progress e i u)"
  unfolding update_progress_def by (intro keeping quiet) (simp add: is_executing_def has_status_def)

lemma quiet_list: "keeps J (list_jobs e f)" "keeps J (get e i)"
  by (simp_all add: list_jobs_def get_def load_job_def)

section \<open>Operations on the executing jobs\<close>

lemma claim_exec:
  assumes d: "schema_ok d" and c: "claim_next_pending e PROVIDER_RUST d = (res, d')"
  shows "case res of Inl _ \<Rightarrow> d' = d | Inr None \<Rightarrow> d' = d \<and> \<not> list_ex (claimable d) (jobs d)
    | Inr (Some j) \<Rightarrow> exec_of d' = insert (job_id j, Running) (exec_of d) \<and> (\<forall>s. (job_id j, s) \<notin> exec_of d)"
proof (cases res)
  case (Inl x)
  then show ?thesis
    using c by (cases "now_millis e") (auto simp: claim_next_pending_def op_bind_def [of "op_lift _"] op_basic_simps
        dest: transaction_Inl_same)
next
  case (Inr jo)
  then obtain now where now: "now_millis e = Inr now"
    using c by (cases "now_millis e") (auto simp: claim_next_pending_def op_bind_def [of "op_lift _"] op_basic_simps)
  show ?thesis
  proof (cases "next_claim d")
    case None
    then have "(res, d') = (Inr None, d)" using c now by (simp add: claim_next_pending_def op_eval)
    moreover have "\<not> list_ex (claimable d) (jobs d)" using None by (auto simp: list_ex_iff next_claim_None)
    ultimately show ?thesis by simp
  next
    case (Some i)
    let ?g = "\<lambda>r. r\<lparr>jr_provider := PROVIDER_RUST, jr_progress_current := Some 0, jr_progress_total := Some 3,
      jr_progress_message := Some ''runtime_validation''\<rparr>"
    have "(op_bind (transition_job i Pending Running now None) (\<lambda>changed.
        if \<not> changed then op_fail (Corrupt (''pending job '' @ int_to_string i @ '' changed during claim''))
        else op_bind (update_jobs (\<lambda>r. jr_id r = i) ?g) (\<lambda>_.
          op_bind (load_job e i) (\<lambda>job. op_return (Some job))))) d = (Inr jo, d')"
      using c Inr now Some by (auto simp: claim_next_pending_def op_bind_def [of "op_lift _"]
          op_bind_def [of "op_get _"] op_basic_simps transaction_Inr_iff)
    then obtain changed d1 where 1: "transition_job i Pending Running now None d = (Inr changed, d1)"
      and rest: "(if \<not> changed then op_fail (Corrupt (''pending job '' @ int_to_string i @ '' changed during claim''))
        else op_bind (update_jobs (\<lambda>r. jr_id r = i) ?g) (\<lambda>_.
          op_bind (load_job e i) (\<lambda>job. op_return (Some job)))) d1 = (Inr jo, d')"
      by (rule op_bind_Inr_cases)
    have ch: "changed" using rest by (cases changed) (simp_all add: op_basic_simps)
    have "op_bind (update_jobs (\<lambda>r. jr_id r = i) ?g) (\<lambda>_. op_bind (load_job e i) (\<lambda>job. op_return (Some job))) d1 = (Inr jo, d')"
      using rest ch by simp
    then obtain n d2 where 2: "update_jobs (\<lambda>r. jr_id r = i) ?g d1 = (Inr n, d2)"
      "op_bind (load_job e i) (\<lambda>job. op_return (Some job)) d2 = (Inr jo, d')"
      by (rule op_bind_Inr_cases)
    from 2(2) obtain j d3 where 3: "load_job e i d2 = (Inr j, d3)" "Some j = jo" "d3 = d'"
      by (rule op_bind_Inr_cases) (auto simp: op_basic_simps)
    have "d1 = snd (transition_job i Pending Running now None d)" using 1 by simp
    then have d1: "schema_ok d1" using op_evolves_snd [OF op_evolves_transition_job d] by simp
    have "keeps (exec_inv (exec_of d1)) (update_jobs (\<lambda>r. jr_id r = i) ?g)"
      by (rule quiet_update) (simp add: is_executing_def has_status_def)
    from keepsD [OF this, of d1] have ex2: "exec_of d2 = exec_of d1" using d1 2(1) by (simp add: exec_inv_def)
    have "d' = d2" "jo = Some j" "job_id j = i"
      using load_job_Inr [OF 3(1)] 3(2,3) by auto
    moreover have "\<exists>r \<in> set (jobs d). jr_id r = i \<and> has_status Pending r"
        "exec_of d1 = {x \<in> exec_of d. fst x \<noteq> i} \<union> {(i, Running)}"
      using transition_exec [OF d 1] ch by (auto simp: executing_def)
    moreover have "(i, s) \<notin> exec_of d" for s
      using calculation(4) exec_of_row [OF d, of _ Pending s] by (auto simp: executing_def)
    ultimately show ?thesis using Inr ex2 by auto
  qed
qed

lemma bind_lift_Inr: "op_bind (op_lift r) k d = (Inr b, d') \<longleftrightarrow> (\<exists>a. r = Inr a \<and> k a d = (Inr b, d'))"
  by (cases r) (simp_all add: op_bind_def op_basic_simps)

lemma confirm_exec:
  assumes d: "schema_ok d" and c: "confirm_cancelled e i d = (Inr j, d')"
  shows "exec_of d' = {x \<in> exec_of d. fst x \<noteq> i}"
proof -
  obtain now where now: "now_millis e = Inr now" "op_bind (load_job e i) (\<lambda>current.
       if job_status current \<noteq> CancelRequested then op_fail (InvalidTransition (job_status current) Cancelled)
       else op_bind (transition_job i CancelRequested Cancelled now None) (\<lambda>_. load_job e i)) d = (Inr j, d')"
    using c unfolding confirm_cancelled_def bind_lift_Inr transaction_Inr_iff by blast
  from now(2) obtain cur d0 where 0: "load_job e i d = (Inr cur, d0)"
    "(if job_status cur \<noteq> CancelRequested then op_fail (InvalidTransition (job_status cur) Cancelled)
       else op_bind (transition_job i CancelRequested Cancelled now None) (\<lambda>_. load_job e i)) d0 = (Inr j, d')"
    by (rule op_bind_Inr_cases)
  have cur: "job_status cur = CancelRequested" "d0 = d" "\<exists>r \<in> set (jobs d). jr_id r = i \<and> has_status CancelRequested r"
    using load_job_Inr [OF 0(1)] 0(2) by (auto simp: op_basic_simps split: if_splits)
  then have "op_bind (transition_job i CancelRequested Cancelled now None) (\<lambda>_. load_job e i) d = (Inr j, d')"
    using 0(2) by simp
  then obtain b d1 where t: "transition_job i CancelRequested Cancelled now None d = (Inr b, d1)" "load_job e i d1 = (Inr j, d')"
    by (rule op_bind_Inr_cases)
  have "d' = d1" using load_job_Inr [OF t(2)] by simp
  moreover have "exec_of d1 = {x \<in> exec_of d. fst x \<noteq> i}"
  proof (cases b)
    case True
    then show ?thesis using transition_exec [OF d t(1)] by (simp add: executing_def)
  next
    case False
    from cur(3) obtain r where r: "r \<in> set (jobs d)" "jr_id r = i" "has_status CancelRequested r" by blast
    have "transition_job i CancelRequested Cancelled now None d =
        (Inr True, set_row (jr_id r) (transition_row CancelRequested Cancelled now None) d)"
      using transition_job_ok [OF d r(1,3), of Cancelled None now] r(2) by simp
    then show ?thesis using t(1) False by simp
  qed
  ultimately show ?thesis by simp
qed

lemma complete_exec:
  assumes d: "schema_ok d" and c: "complete e i s v d = (Inr j, d')"
  shows "exec_of d' = {x \<in> exec_of d. fst x \<noteq> i}"
proof -
  have s: "s \<in> {Succeeded, Failed}"
    using c by (rule_tac ccontr) (simp add: complete_def op_basic_simps)
  obtain now encoded where now: "op_bind (load_job e i) (\<lambda>current.
        if job_status current \<noteq> Running then op_fail (InvalidTransition (job_status current) s)
        else op_bind (update_jobs (\<lambda>r. jr_id r = i \<and> jr_status r = as_db Running) (completion_row s encoded now)) (\<lambda>changed.
            if changed \<noteq> 1
            then op_fail (Corrupt (''running job '' @ int_to_string i @ '' changed during completion''))
            else load_job e i)) d = (Inr j, d')"
    using c s unfolding complete_def Let_def completion_row_def [abs_def] if_not_P [of "s \<notin> {Succeeded, Failed}"]
    by (auto simp: bind_lift_Inr transaction_Inr_iff split: if_splits)
  from now obtain cur d0 where 0: "load_job e i d = (Inr cur, d0)"
    "(if job_status cur \<noteq> Running then op_fail (InvalidTransition (job_status cur) s)
        else op_bind (update_jobs (\<lambda>r. jr_id r = i \<and> jr_status r = as_db Running) (completion_row s encoded now)) (\<lambda>changed.
            if changed \<noteq> 1
            then op_fail (Corrupt (''running job '' @ int_to_string i @ '' changed during completion''))
            else load_job e i)) d0 = (Inr j, d')"
    by (rule op_bind_Inr_cases)
  have "job_status cur = Running" "d0 = d"
    using load_job_Inr [OF 0(1)] 0(2) by (auto simp: op_basic_simps split: if_splits)
  then have "op_bind (update_jobs (\<lambda>r. jr_id r = i \<and> jr_status r = as_db Running) (completion_row s encoded now)) (\<lambda>changed.
      if changed \<noteq> 1 then op_fail (Corrupt (''running job '' @ int_to_string i @ '' changed during completion''))
      else load_job e i) d = (Inr j, d')"
    using 0(2) by simp
  then obtain n d1 where u: "update_jobs (\<lambda>r. jr_id r = i \<and> jr_status r = as_db Running) (completion_row s encoded now) d = (Inr n, d1)"
    "(if n \<noteq> 1 then op_fail (Corrupt (''running job '' @ int_to_string i @ '' changed during completion''))
      else load_job e i) d1 = (Inr j, d')"
    by (rule op_bind_Inr_cases)
  have n: "n = 1" "d' = d1" using u(2) load_job_Inr [of e i d1 j d'] by (auto simp: op_basic_simps split: if_splits)
  have "(n = 0 \<and> d1 = d) \<or> (n = 1 \<and> (\<exists>r \<in> set (jobs d). (jr_id r = i \<and> jr_status r = as_db Running) \<and> jr_id r = i \<and>
      d1 = set_row i (completion_row s encoded now) d))"
    by (rule update_single [OF d u(1)]) simp
  then obtain r where r: "r \<in> set (jobs d)" "jr_id r = i" "d1 = set_row i (completion_row s encoded now) d"
    using n(1) by auto
  have "exec_of d1 = {x \<in> exec_of d. fst x \<noteq> i} \<union> {(i, t) | t. has_status t (completion_row s encoded now r) \<and> executing t}"
    using exec_set_row [OF d r(1), of "completion_row s encoded now"] r(2,3) by simp
  then show ?thesis using s n(2) by (auto simp: executing_def)
qed

lemma cancel_exec:
  assumes d: "schema_ok d" and c: "cancel e i d = (Inr (j, changed), d')"
  shows "if changed \<and> job_status j = CancelRequested
    then (i, Running) \<in> exec_of d \<and> exec_of d' = insert (i, CancelRequested) {x \<in> exec_of d. fst x \<noteq> i}
    else exec_of d' = exec_of d"
proof -
  let ?m = "\<lambda>now cur. case job_status cur of
            Pending \<Rightarrow> transition_job i Pending Cancelled now None
          | Running \<Rightarrow> transition_job i Running CancelRequested now None
          | CancelRequested \<Rightarrow> op_return False
          | Cancelled \<Rightarrow> op_return False
          | s \<Rightarrow> op_fail (NotCancellable s)"
  obtain now where now: "op_bind (load_job e i) (\<lambda>cur. op_bind (?m now cur) (\<lambda>changed. op_bind (load_job e i)
      (\<lambda>job. op_return (job, changed)))) d = (Inr (j, changed), d')"
    using c unfolding cancel_def bind_lift_Inr transaction_Inr_iff by blast
  from now obtain cur d0 where 0: "load_job e i d = (Inr cur, d0)"
    "op_bind (?m now cur) (\<lambda>changed. op_bind (load_job e i) (\<lambda>job. op_return (job, changed))) d0 = (Inr (j, changed), d')"
    by (rule op_bind_Inr_cases)
  then obtain r where r: "d0 = d" "r \<in> set (jobs d)" "jr_id r = i" "has_status (job_status cur) r"
    using load_job_Inr [OF 0(1)] by blast
  from 0(2) obtain b d1 where 1: "?m now cur d0 = (Inr b, d1)"
    "op_bind (load_job e i) (\<lambda>job. op_return (job, b)) d1 = (Inr (j, changed), d')"
    by (rule op_bind_Inr_cases)
  from 1(2) obtain j0 d2 where 2: "load_job e i d1 = (Inr j0, d2)" "j0 = j" "b = changed" "d2 = d'"
    by (rule op_bind_Inr_cases) (auto simp: op_basic_simps)
  have d': "d1 = d'" using load_job_Inr [OF 2(1)] 2(4) by simp
  have load: "job_id j = i" "\<exists>r \<in> set (jobs d'). jr_id r = i \<and> has_status (job_status j) r"
    using load_job_Inr [OF 2(1)] 2(2) d' by auto
  have exec: "(i, t) \<in> exec_of d \<longleftrightarrow> t = job_status cur \<and> executing t" for t
    using exec_of_row [OF d r(2,4), of t] r(3) by simp
  show ?thesis
  proof (cases "job_status cur")
    case Pending
    then have t: "transition_job i Pending Cancelled now None d = (Inr changed, d')" using 1(1) r(1) 2(3) d' by simp
    have "(i, t) \<notin> exec_of d" for t using exec [of t] Pending by (simp add: executing_def)
    then have none: "{x \<in> exec_of d. fst x \<noteq> i} = exec_of d" by auto
    have "d' = set_row (jr_id r) (transition_row Pending Cancelled now None) d"
      using transition_job_ok [OF d r(2), of Pending Cancelled None now] r(3,4) Pending t by auto
    then have "\<exists>x \<in> set (jobs (set_row (jr_id r) (transition_row Pending Cancelled now None) d)).
        jr_id x = jr_id r \<and> has_status (job_status j) x"
      using load(2) r(3) by simp
    from status_after [OF d r(2) this] have "job_status j = Cancelled" by simp
    then show ?thesis using transition_exec [OF d t] none by (auto simp: executing_def split: if_splits)
  next
    case Running
    then have t: "transition_job i Running CancelRequested now None d = (Inr changed, d')" using 1(1) r(1) 2(3) d' by simp
    have ok: "changed" "d' = set_row i (transition_row Running CancelRequested now None) d"
      using transition_job_ok [OF d r(2), of Running CancelRequested None now] r(3,4) Running t by auto
    then have "\<exists>x \<in> set (jobs (set_row (jr_id r) (transition_row Running CancelRequested now None) d)).
        jr_id x = jr_id r \<and> has_status (job_status j) x"
      using load(2) r(3) by simp
    from status_after [OF d r(2) this] have "job_status j = CancelRequested" by simp
    then show ?thesis using transition_exec [OF d t] ok(1) exec Running by (auto simp: executing_def)
  qed (use 1(1) r(1) 2(3) d' in \<open>auto simp: op_basic_simps\<close>)
qed

section \<open>The slot\<close>

definition slot_of :: "ActiveJob option \<Rightarrow> (int \<times> JobStatus) set" where
  "slot_of active = (case active of None \<Rightarrow> {}
     | Some a \<Rightarrow> {(aj_job_id a, if aj_cancel a then CancelRequested else Running)})"

text \<open>While the loop runs, the executing jobs of the store are the one in the slot.\<close>

definition sched_inv :: "sched \<Rightarrow> bool" where
  "sched_inv s \<longleftrightarrow> schema_ok (sc_store s) \<and> (sc_running s \<longrightarrow> exec_of (sc_store s) = slot_of (sc_active s))"

definition sched_ok :: "sched \<Rightarrow> bool" where
  "sched_ok s \<longleftrightarrow> exec_inv (slot_of (sc_active s)) (sc_store s)"

lemma complete_worker_cases:
  assumes d: "schema_ok d" and c: "complete_worker e i outcome d = (res, d')"
  shows "schema_ok d' \<and> (case res of Inl _ \<Rightarrow> True | Inr _ \<Rightarrow> exec_of d' = {x \<in> exec_of d. fst x \<noteq> i})"
proof -
  obtain r0 d0 where g: "get e i d = (r0, d0)" by (cases "get e i d")
  show ?thesis
  proof (cases r0)
    case (Inl x)
    then show ?thesis using c g d load_job_Inl [of e i d x d0] by (auto simp: complete_worker_def op_bind_def get_def)
  next
    case (Inr cur)
    then have l: "d0 = d" "\<exists>r \<in> set (jobs d). jr_id r = i \<and> has_status (job_status cur) r"
      using load_job_Inr [of e i d cur d0] g by (auto simp: get_def)
    from l(2) obtain r where r: "r \<in> set (jobs d)" "jr_id r = i" "has_status (job_status cur) r" by blast
    have row: "(i, t) \<in> exec_of d \<longleftrightarrow> t = job_status cur \<and> executing t" for t
      using exec_of_row [OF d r(1,3), of t] r(2) by simp
    have idle: ?thesis if "\<not> executing (job_status cur)" "res = Inr ()" "d' = d"
    proof -
      have "(i, t) \<notin> exec_of d" for t using row [of t] that(1) by auto
      then have "{x \<in> exec_of d. fst x \<noteq> i} = exec_of d" by auto
      then show ?thesis using that d by simp
    qed
    have sub: ?thesis if m: "op_bind m (\<lambda>_. op_return ()) d = (res, d')" and ev: "op_evolves m"
      and ex: "\<And>a d1. m d = (Inr a, d1) \<Longrightarrow> exec_of d1 = {x \<in> exec_of d. fst x \<noteq> i}" for m :: "Job dbop"
    proof -
      obtain r1 d1 where m1: "m d = (r1, d1)" by (cases "m d")
      have "schema_ok d1" using op_evolves_snd [OF ev d] m1 by simp
      then show ?thesis using m m1 ex by (cases r1) (auto simp: op_bind_def op_basic_simps)
    qed
    have body: "(case job_status cur of
       CancelRequested \<Rightarrow> op_bind (confirm_cancelled e i) (\<lambda>_. op_return ())
     | Running \<Rightarrow> (case outcome of
           WSucceeded result \<Rightarrow> op_bind (complete_success e i result) (\<lambda>_. op_return ())
         | WFailed error \<Rightarrow> op_bind (complete_failure e i error) (\<lambda>_. op_return ()))
     | _ \<Rightarrow> op_return ()) d = (res, d')"
      using c g Inr l(1) by (simp add: complete_worker_def op_bind_def [of "get e i"])
    show ?thesis
    proof (cases "job_status cur")
      case Running
      then show ?thesis
        using body sub [OF _ complete_evolves complete_exec [OF d]]
        by (cases outcome) (simp_all add: complete_success_def complete_failure_def)
    next
      case CancelRequested
      then show ?thesis using body sub [OF _ confirm_cancelled_evolves confirm_exec [OF d]] by simp
    qed (use body idle in \<open>simp_all add: op_basic_simps executing_def\<close>)
  qed
qed

lemma slot_fst: "(i, t) \<in> slot_of a \<longleftrightarrow> (\<exists>b. a = Some b \<and> aj_job_id b = i \<and> t = (if aj_cancel b then CancelRequested else Running))"
  by (cases a) (auto simp: slot_of_def)

lemma finish_slot: "slot_of (sc_active (finish_active i s)) = {x \<in> slot_of (sc_active s). fst x \<noteq> i}"
  by (auto simp: finish_active_def slot_of_def split: option.split)

lemma finish_store [simp]: "sc_store (finish_active i s) = sc_store s" "sc_running (finish_active i s) = sc_running s"
  by (auto simp: finish_active_def split: option.split)

lemma handle_worker_ok:
  assumes s: "sched_ok s" and h: "handle_worker e ev s = (res, s')"
  shows "schema_ok (sc_store s') \<and> (is_ok res \<longrightarrow> sched_ok s') \<and> sc_running s' = sc_running s"
proof (cases ev)
  case (Progress i current message)
  let ?r = "update_progress e i \<lparr>pu_current = current, pu_total = 3, pu_message = message\<rparr> (sc_store s)"
  have "exec_inv (slot_of (sc_active s)) (snd ?r)"
    using keepsD [OF quiet_progress] s by (simp add: sched_ok_def)
  moreover have "s' = s\<lparr>sc_store := snd ?r\<rparr>"
    using h Progress by (auto simp: handle_worker_def split: prod.splits sum.splits StateError.splits)
  ultimately show ?thesis by (simp add: sched_ok_def exec_inv_def)
next
  case (Complete i outcome)
  have d: "schema_ok (sc_store s)" "exec_of (sc_store s) = slot_of (sc_active s)"
    using s by (simp_all add: sched_ok_def exec_inv_def)
  obtain r0 d0 where c: "complete_worker e i outcome (sc_store s) = (r0, d0)"
    by (cases "complete_worker e i outcome (sc_store s)")
  note cw = complete_worker_cases [OF d(1) c]
  show ?thesis
  proof (cases r0)
    case (Inl x)
    then show ?thesis using h Complete c cw by (auto simp: handle_worker_def is_ok_def)
  next
    case (Inr u)
    then have "s' = finish_active i (s\<lparr>sc_store := d0\<rparr>)" using h Complete c by (auto simp: handle_worker_def)
    moreover have "exec_of d0 = {x \<in> slot_of (sc_active s). fst x \<noteq> i}" using cw Inr d(2) by simp
    ultimately show ?thesis using cw finish_slot [of i "s\<lparr>sc_store := d0\<rparr>"] by (simp add: sched_ok_def exec_inv_def)
  qed
qed

lemma cancel_ok:
  assumes s: "sched_ok s" and c: "cancel e i (sc_store s) = (res, d')"
  shows "exec_inv (slot_of (raise_flag i res (sc_active s))) d'"
proof -
  have d: "schema_ok (sc_store s)" "exec_of (sc_store s) = slot_of (sc_active s)"
    using s by (simp_all add: sched_ok_def exec_inv_def)
  have d': "schema_ok d'" using op_evolves_snd [OF cancel_evolves d(1), of e i] c by simp
  show ?thesis
  proof (cases res)
    case (Inl x)
    then have "d' = sc_store s"
      using c by (cases "now_millis e") (auto simp: cancel_def op_bind_def [of "op_lift _"] op_basic_simps dest: transaction_Inl_same)
    then show ?thesis using s Inl by (simp add: raise_flag_def sched_ok_def)
  next
    case (Inr p)
    obtain j b where p: "p = (j, b)" by (cases p)
    note ce = cancel_exec [OF d(1) c [unfolded Inr p]]
    show ?thesis
    proof (cases "b \<and> job_status j = CancelRequested")
      case True
      then have run: "(i, Running) \<in> slot_of (sc_active s)"
          "exec_of d' = insert (i, CancelRequested) {x \<in> slot_of (sc_active s). fst x \<noteq> i}"
        using ce d(2) by auto
      then obtain a where a: "sc_active s = Some a" "aj_job_id a = i" by (auto simp: slot_fst)
      have none: "{x \<in> slot_of (sc_active s). fst x \<noteq> i} = {}" using a by (auto simp: slot_of_def)
      have "exec_of d' = {(i, CancelRequested)}" using run(2) unfolding none .
      then show ?thesis using a True Inr p d' by (simp add: raise_flag_def slot_of_def exec_inv_def)
    next
      case False
      then have "raise_flag i res (sc_active s) = sc_active s" using Inr p by (auto simp: raise_flag_def split: option.split)
      then show ?thesis using ce False d(2) d' by (simp add: exec_inv_def)
    qed
  qed
qed

lemma apply_command_ok:
  assumes s: "sched_ok s" and a: "apply_command e c s = (reply, res, s')"
  shows "schema_ok (sc_store s') \<and> (is_ok res \<longrightarrow> sched_ok s') \<and> sc_running s' = sc_running s"
proof -
  have q: "schema_ok (sc_store s') \<and> (is_ok res \<longrightarrow> sched_ok s') \<and> sc_running s' = sc_running s"
    if "s' = s\<lparr>sc_store := snd (m (sc_store s))\<rparr>" "keeps (exec_inv (slot_of (sc_active s))) m" for m :: "'z dbop"
    using keepsD [OF that(2)] s that(1) by (simp add: sched_ok_def exec_inv_def)
  show ?thesis
  proof (cases c)
    case (CCancel i)
    obtain r0 d0 where r: "cancel e i (sc_store s) = (r0, d0)" by (cases "cancel e i (sc_store s)")
    then show ?thesis
      using a CCancel cancel_ok [OF s r] by (auto simp: apply_command_def on_store_def Let_def sched_ok_def exec_inv_def)
  next
    case (CWorker ev)
    then show ?thesis using a handle_worker_ok [OF s, of e ev]
      by (auto simp: apply_command_def split: prod.splits)
  qed (use a s q [OF _ quiet_submit] q [OF _ quiet_full_scan] q [OF _ quiet_promote] q [OF _ quiet_list(1)] q [OF _ quiet_list(2)]
      in \<open>auto simp: apply_command_def on_store_def sched_ok_def exec_inv_def\<close>)
qed

lemma dispatch_ok:
  assumes s: "sched_ok s" and h: "dispatch e spawn s = (res, s')"
  shows "sched_ok s' \<and> sc_running s' = sc_running s \<and>
    (is_ok res \<and> sc_active s' = None \<longrightarrow> \<not> list_ex (has_status Pending) (jobs (sc_store s')))"
proof (cases "sc_active s")
  case (Some a)
  then show ?thesis using s h by (auto simp: dispatch_def)
next
  case None
  have d: "schema_ok (sc_store s)" "exec_of (sc_store s) = {}"
    using s None by (simp_all add: sched_ok_def exec_inv_def slot_of_def)
  obtain r0 d0 where c: "claim_next_pending e PROVIDER_RUST (sc_store s) = (r0, d0)"
    by (cases "claim_next_pending e PROVIDER_RUST (sc_store s)")
  have d0: "schema_ok d0" using op_evolves_snd [OF claim_next_pending_evolves d(1), of e PROVIDER_RUST] c by simp
  note ce = claim_exec [OF d(1) c]
  have claim: "claimable dd r = has_status Pending r" if "exec_of dd = {}" "r \<in> set (jobs dd)" for dd r
    using that exec_of_empty [of dd] by (auto simp: claimable_def has_status_def list_ex_iff is_executing_def)
  show ?thesis
  proof (cases r0)
    case (Inl x)
    then show ?thesis using h None c ce d d0 by (auto simp: dispatch_def is_ok_def sched_ok_def exec_inv_def slot_of_def)
  next
    case (Inr jo)
    show ?thesis
    proof (cases jo)
      case None
      then have "d0 = sc_store s" "\<not> list_ex (has_status Pending) (jobs d0)"
        using ce Inr claim [OF d(2)] by (auto simp: list_ex_iff)
      then show ?thesis using h \<open>sc_active s = None\<close> c s Inr None by (auto simp: dispatch_def sched_ok_def)
    next
      case (Some j)
      then have "exec_of d0 = {(job_id j, Running)}" using ce Inr d(2) by simp
      moreover have "sc_store s' = d0 \<and> sc_active s' = Some \<lparr>aj_job_id = job_id j, aj_cancel = False\<rparr> \<and> sc_running s' = sc_running s"
        using h None c Inr Some by (cases "spawn j") (auto simp: dispatch_def Let_def)
      ultimately show ?thesis using d0 by (simp add: sched_ok_def exec_inv_def slot_of_def)
    qed
  qed
qed

section \<open>Reachable states\<close>

lemma sched_start_inv:
  assumes "schema_ok d" "\<not> list_ex is_executing (jobs d)"
  shows "sched_inv (sched_start e spawn d)" "sc_running (sched_start e spawn d) \<Longrightarrow> sc_active (sched_start e spawn d) = None \<Longrightarrow>
    \<not> list_ex (has_status Pending) (jobs (sc_store (sched_start e spawn d)))"
proof -
  let ?s = "\<lparr>sc_store = d, sc_active = None, sc_running = True, sc_sent = []\<rparr>"
  have ok: "sched_ok ?s" using assms exec_of_empty [of d] by (simp add: sched_ok_def exec_inv_def slot_of_def)
  obtain r s where r: "dispatch e spawn ?s = (r, s)" by (cases "dispatch e spawn ?s")
  note dispatch_ok [OF ok r]
  then show "sched_inv (sched_start e spawn d)" "sc_running (sched_start e spawn d) \<Longrightarrow> sc_active (sched_start e spawn d) = None \<Longrightarrow>
      \<not> list_ex (has_status Pending) (jobs (sc_store (sched_start e spawn d)))"
    using r by (auto simp: sched_start_def sched_inv_def sched_ok_def exec_inv_def is_ok_def split: sum.splits)
qed

lemma sched_step_inv:
  assumes "sched_inv s"
  shows "sched_inv (snd (sched_step e e' spawn c s)) \<and>
    (sc_running s \<and> sc_running (snd (sched_step e e' spawn c s)) \<and> sc_active (snd (sched_step e e' spawn c s)) = None \<longrightarrow>
      \<not> list_ex (has_status Pending) (jobs (sc_store (snd (sched_step e e' spawn c s)))))"
proof (cases "sc_running s \<and> c \<noteq> CShutdown")
  case False
  then show ?thesis using assms by (auto simp: sched_step_def sched_inv_def)
next
  case True
  then have ok: "sched_ok s" using assms by (simp add: sched_inv_def sched_ok_def exec_inv_def)
  obtain reply r1 s1 where 1: "apply_command e c s = (reply, r1, s1)" by (cases "apply_command e c s") auto
  note a = apply_command_ok [OF ok 1]
  show ?thesis
  proof (cases r1)
    case (Inl x)
    then show ?thesis using True 1 a by (simp add: sched_step_def sched_inv_def)
  next
    case (Inr u)
    then have ok1: "sched_ok s1" "sc_running s1" using a True by (simp_all add: is_ok_def)
    obtain r2 s2 where 2: "dispatch e' spawn s1 = (r2, s2)" by (cases "dispatch e' spawn s1")
    note dispatch_ok [OF ok1(1) 2]
    then show ?thesis
      using True 1 2 Inr ok1(2)
      by (auto simp: sched_step_def sched_inv_def sched_ok_def exec_inv_def is_ok_def split: sum.splits)
  qed
qed

lemma sched_reach_inv: "sched_reach s \<Longrightarrow> sched_inv s"
  by (induction rule: sched_reach.induct) (auto simp: sched_start_inv(1) sched_step_inv)

lemma sched_reach_idle:
  "sched_reach s \<Longrightarrow> sc_running s \<Longrightarrow> sc_active s = None \<Longrightarrow> \<not> list_ex (has_status Pending) (jobs (sc_store s))"
proof (induction rule: sched_reach.induct)
  case (start d e spawn)
  then show ?case using sched_start_inv(2) by blast
next
  case (step s e e' spawn command)
  have "sc_running s"
    using step.prems(1) by (auto simp: sched_step_def split: if_splits)
  then show ?case using sched_step_inv [OF sched_reach_inv [OF step.hyps]] step.prems by blast
qed

section \<open>Properties of the scheduler\<close>

definition idle_db :: db where
  "idle_db = \<lparr>projects = [sample_project], jobs = [sample_row 1 ''a.py'' Pending 1], published = None\<rparr>"

definition sample_sched :: sched where
  "sample_sched = sched_start sample_env (\<lambda>_. Inr ()) idle_db"

lemma sample_sched_reach: "sched_reach sample_sched"
  unfolding sample_sched_def by (rule sched_reach.start) code_simp+

lemma sample_sched_running: "sc_running sample_sched"
  by code_simp

text \<open>
  C29. In every reachable state of a running scheduler at most one job executes: the executing
  jobs of the store are exactly the job in the slot, it is marked as cancelling exactly when the
  cancellation flag of its worker is raised, and the store is inside its schema.
\<close>

theorem single_slot:
  assumes "sched_reach s" "sc_running s"
  shows "schema_ok (sc_store s) \<and>
    exec_of (sc_store s) = (case sc_active s of None \<Rightarrow> {}
      | Some a \<Rightarrow> {(aj_job_id a, if aj_cancel a then CancelRequested else Running)})"
  using sched_reach_inv [OF assms(1)] assms(2) by (simp add: sched_inv_def slot_of_def)

theorem single_slot_witness: "exec_of (sc_store sample_sched) = {(1, Running)}"
proof -
  have "sc_active sample_sched = Some \<lparr>aj_job_id = 1, aj_cancel = False\<rparr>" by code_simp
  then show ?thesis using single_slot [OF sample_sched_reach sample_sched_running] by simp
qed

text \<open>
  The scheduler never idles beside work: whenever a running scheduler has a free slot, no job
  of any project is pending.
\<close>

theorem work_conserving:
  assumes "sched_reach s" "sc_running s" "sc_active s = None"
  shows "\<not> list_ex (has_status Pending) (jobs (sc_store s))"
  by (rule sched_reach_idle [OF assms])

theorem work_conserving_witness:
  "\<not> list_ex (has_status Pending) (jobs (sc_store (sched_start sample_env (\<lambda>_. Inr ()) empty_db)))"
proof (rule work_conserving)
  show "sched_reach (sched_start sample_env (\<lambda>_. Inr ()) empty_db)"
    by (rule sched_reach.start) code_simp+
qed code_simp+

text \<open>
  A completion that arrives after its job has reached a terminal state changes nothing in the
  store: late events are dropped and never overwrite a result.
\<close>

theorem late_completion_dropped:
  assumes "sched_reach s" "sc_running s" "status_of (sc_store s) i = Some t" "terminal t"
  shows "sc_store (snd (handle_worker e (Complete i outcome) s)) = sc_store s"
proof -
  let ?d = "sc_store s"
  have "complete_worker e i outcome ?d = (r0, d0) \<Longrightarrow> d0 = ?d" for r0 d0
  proof -
    assume c: "complete_worker e i outcome ?d = (r0, d0)"
    obtain g d1 where g: "get e i ?d = (g, d1)" by (cases "get e i ?d")
    show "d0 = ?d"
    proof (cases g)
      case (Inl x)
      then show ?thesis using c g load_job_Inl [of e i ?d x d1] by (auto simp: complete_worker_def op_bind_def get_def)
    next
      case (Inr cur)
      from load_job_Inr [of e i ?d cur d1] g Inr obtain r where
          r: "d1 = ?d" "r \<in> set (jobs ?d)" "jr_id r = i" "has_status (job_status cur) r" by (auto simp: get_def)
      have "schema_ok ?d" using sched_reach_inv [OF assms(1)] by (simp add: sched_inv_def)
      from status_of_row [OF this r(2,4)] r(3) assms(3) have "job_status cur = t" by simp
      then show ?thesis
        using c g Inr r(1) assms(4) by (cases t) (auto simp: complete_worker_def op_eval terminal_def)
    qed
  qed
  then show ?thesis by (auto simp: handle_worker_def split: prod.split sum.split)
qed

definition done_sched :: sched where
  "done_sched = sched_start sample_env (\<lambda>_. Inr ())
     \<lparr>projects = [sample_project], jobs = [(sample_row 1 ''e.py'' Cancelled 1)\<lparr>jr_finished_at := Some 4\<rparr>], published = None\<rparr>"

theorem late_completion_dropped_witness:
  "sc_store (snd (handle_worker sample_env (Complete 1 (WSucceeded (JObject []))) done_sched)) = sc_store done_sched"
proof (rule late_completion_dropped [where t = Cancelled])
  show "sched_reach done_sched" unfolding done_sched_def by (rule sched_reach.start) code_simp+
  show "sc_running done_sched" "status_of (sc_store done_sched) 1 = Some Cancelled" by code_simp+
qed (simp add: terminal_def)

end
