(* ===== verification/Server.thy ===== *)
theory Server
  imports Scheduler "HOL-Library.Word"
begin

text \<open>
  The protocol and the connection handler of the daemon, \<^verbatim>\<open>remy-cc/src/protocol.rs\<close> and
  \<^verbatim>\<open>remy-cc/src/server.rs\<close>.  A connection is the bytes the peer sends; each line is one request,
  answered by one response.  Decoding a request is a parameter (the derived decoder of the JSON
  library), as is the configuration UI the daemon can open; between two lines other threads may
  have sent commands to the scheduler, which is the \<open>cx_before\<close> of a line.
\<close>

definition PROTOCOL_VERSION :: nat where "PROTOCOL_VERSION = 6"

definition MAX_LINE_BYTES :: nat where "MAX_LINE_BYTES = 65536"

datatype Request =
    Hello nat string
  | Ping string
  | Shutdown string
  | ReqSubmitJob nat nat string string string string JobPriority
  | PromoteJob nat nat string int JobPriority
  | GetJob nat nat string int
  | CancelJob nat nat string int
  | ReqListJobs nat nat string "string option" "string option" "JobStatus option" "string option" "nat option"
  | StatusSnapshot nat nat string
  | OpenConfigUi nat nat string string "string option"

fun token :: "Request \<Rightarrow> string" where
  "token (Hello _ t) = t"
| "token (Ping t) = t"
| "token (Shutdown t) = t"
| "token (ReqSubmitJob _ _ t _ _ _ _) = t"
| "token (PromoteJob _ _ t _ _) = t"
| "token (GetJob _ _ t _) = t"
| "token (CancelJob _ _ t _) = t"
| "token (ReqListJobs _ _ t _ _ _ _ _) = t"
| "token (StatusSnapshot _ _ t) = t"
| "token (OpenConfigUi _ _ t _ _) = t"

fun business_versions :: "Request \<Rightarrow> (nat \<times> nat) option" where
  "business_versions (ReqSubmitJob p s _ _ _ _ _) = Some (p, s)"
| "business_versions (PromoteJob p s _ _ _) = Some (p, s)"
| "business_versions (GetJob p s _ _) = Some (p, s)"
| "business_versions (CancelJob p s _ _) = Some (p, s)"
| "business_versions (ReqListJobs p s _ _ _ _ _ _) = Some (p, s)"
| "business_versions (StatusSnapshot p s _) = Some (p, s)"
| "business_versions (OpenConfigUi p s _ _ _) = Some (p, s)"
| "business_versions (Hello _ _) = None"
| "business_versions (Ping _) = None"
| "business_versions (Shutdown _) = None"

record JobFilters =
  jf_project_path :: "string option"
  jf_file_path :: "string option"
  jf_status :: "JobStatus option"
  jf_job_type :: "string option"

record ScannerStatus =
  ss_desired :: string
  ss_published :: "PublishedProvider option"
  ss_diagnostic :: "string option"

record UiStatus =
  ui_pid :: nat
  ui_port :: nat
  ui_mode :: string
  ui_target :: "string option"

datatype Response =
    RespHello nat nat string
  | Ack
  | Submitted Job bool
  | Promoted Job bool
  | RespJob Job
  | RespCancelled Job bool
  | JobList "Job list" nat JobFilters
  | Status "Job list" "Job list" ScannerStatus "UiStatus option"
  | ConfigUi string string
  | RespError string string

definition hello_response :: "string \<Rightarrow> Response" where
  "hello_response daemon_version = RespHello PROTOCOL_VERSION STATE_SCHEMA_VERSION daemon_version"

fun state_error_code :: "StateError \<Rightarrow> string" where
  "state_error_code (InvalidInput _) = ''invalid_request''"
| "state_error_code (NotFound _) = ''not_found''"
| "state_error_code (NotCancellable _) = ''not_cancellable''"
| "state_error_code (InvalidTransition _ _) = ''invalid_transition''"
| "state_error_code (Sqlite _) = ''storage_error''"
| "state_error_code (Io _) = ''storage_error''"
| "state_error_code (Corrupt _) = ''storage_error''"

definition state_error_response :: "StateError \<Rightarrow> Response" where
  "state_error_response error = RespError (state_error_code error) (state_error_to_string error)"

section \<open>Asking the scheduler\<close>

record line_context =
  cx_before :: "sched \<Rightarrow> sched"
  cx_env :: env
  cx_dispatch_env :: env
  cx_spawn :: "Job \<Rightarrow> io_error + unit"

text \<open>
  A request over the channel: refused when the scheduler thread has ended, otherwise answered by
  the reply of one step.
\<close>

definition request_sched :: "line_context \<Rightarrow> Command \<Rightarrow> (Reply \<Rightarrow> (StateError + 'a) option) \<Rightarrow> sched \<Rightarrow> (StateError + 'a) \<times> sched" where
  "request_sched cx command project s =
     (let s0 = cx_before cx s in
      if \<not> sc_running s0 then (Inl (Corrupt ''scheduler channel is closed''), s0)
      else (case sched_step (cx_env cx) (cx_dispatch_env cx) (cx_spawn cx) command s0 of
          (None, s1) \<Rightarrow> (Inl (Corrupt ''scheduler reply channel is closed''), s1)
        | (Some reply, s1) \<Rightarrow>
            ((case project reply of None \<Rightarrow> Inl (Corrupt ''scheduler reply channel is closed'') | Some r \<Rightarrow> r), s1)))"

fun submit_reply where "submit_reply (RSubmit r) = Some r" | "submit_reply _ = None"
fun promote_reply where "promote_reply (RPromote r) = Some r" | "promote_reply _ = None"
fun get_reply where "get_reply (RGet r) = Some r" | "get_reply _ = None"
fun cancel_reply where "cancel_reply (RCancel r) = Some r" | "cancel_reply _ = None"
fun list_reply where "list_reply (RList r) = Some r" | "list_reply _ = None"
fun snapshot_reply where "snapshot_reply (RStatus r) = Some r" | "snapshot_reply _ = None"

section \<open>One request\<close>

datatype OpenOutcome =
    Ready string string
  | Conflict string "string option" nat nat
  | SpawnFailed string

record daemon =
  dm_token :: string
  dm_version :: string
  dm_scanner :: ScannerStatus
  dm_ui_status :: "UiStatus option"
  dm_ui_open :: "string \<Rightarrow> string option \<Rightarrow> OpenOutcome"
  dm_decode :: "string \<Rightarrow> Request option"

text \<open>What a line leads to: answers and going on, an end of the connection, or a fatal error.\<close>

datatype line_end = Next | EndContinue | EndShutdown | Fatal StateError

text \<open>A reply of the scheduler, turned into a response or a fatal error of the server.\<close>

definition answer :: "('a \<Rightarrow> Response) \<Rightarrow> (StateError + 'a) \<times> sched \<Rightarrow> Response list \<times> line_end \<times> sched" where
  "answer ok r =
     (case fst r of
        Inr a \<Rightarrow> ([ok a], Next, snd r)
      | Inl x \<Rightarrow> if is_fatal x then ([], Fatal x, snd r) else ([state_error_response x], Next, snd r))"

definition open_response :: "OpenOutcome \<Rightarrow> Response" where
  "open_response outcome =
     (case outcome of
        Ready url t \<Rightarrow> ConfigUi url t
      | Conflict mode target pid port \<Rightarrow> RespError ''ui_conflict''
          (''config UI already running with mode='' @ mode @ '' target='' @
           (case target of None \<Rightarrow> ''-'' | Some t \<Rightarrow> t) @ '' (pid '' @ nat_digits pid @ '', port '' @
           nat_digits port @ '')'')
      | SpawnFailed diagnostic \<Rightarrow> RespError ''ui_spawn_failed'' diagnostic)"

definition serve_request :: "daemon \<Rightarrow> line_context \<Rightarrow> Request \<Rightarrow> sched \<Rightarrow> Response list \<times> line_end \<times> sched" where
  "serve_request dm cx request s =
     (case request of
        Hello _ _ \<Rightarrow> ([hello_response (dm_version dm)], Next, s)
      | Ping _ \<Rightarrow> ([Ack], Next, s)
      | Shutdown _ \<Rightarrow> ([Ack], EndShutdown, s)
      | ReqSubmitJob _ _ _ project_path db_path file_path priority \<Rightarrow>
          answer (\<lambda>(job, created). Submitted job created)
            (request_sched cx (CSubmit \<lparr>sj_project_path = project_path, sj_db_path = db_path,
               sj_file_path = file_path, sj_priority = priority\<rparr>) submit_reply s)
      | PromoteJob _ _ _ i priority \<Rightarrow>
          answer (\<lambda>(job, changed). Promoted job changed) (request_sched cx (CPromote i priority) promote_reply s)
      | GetJob _ _ _ i \<Rightarrow> answer RespJob (request_sched cx (CGet i) get_reply s)
      | CancelJob _ _ _ i \<Rightarrow>
          answer (\<lambda>(job, changed). RespCancelled job changed) (request_sched cx (CCancel i) cancel_reply s)
      | ReqListJobs _ _ _ project_path file_path status job_type limit \<Rightarrow>
          (let applied_limit = clamp_limit (case limit of None \<Rightarrow> 50 | Some n \<Rightarrow> n) in
           answer (\<lambda>js. JobList js applied_limit \<lparr>jf_project_path = project_path, jf_file_path = file_path,
               jf_status = status, jf_job_type = job_type\<rparr>)
             (request_sched cx (CList \<lparr>lj_project_path = project_path, lj_file_path = file_path,
               lj_status = status, lj_job_type = job_type, lj_limit = applied_limit\<rparr>) list_reply s))
      | StatusSnapshot _ _ _ \<Rightarrow>
          answer (\<lambda>(active, errors). Status active errors (dm_scanner dm) (dm_ui_status dm))
            (request_sched cx CStatus snapshot_reply s)
      | OpenConfigUi _ _ _ mode target \<Rightarrow>
          if \<not> (if mode = ''global'' then target = None else if mode = ''project'' then target \<noteq> None else False)
          then ([RespError ''invalid_request''
                  ''mode must be \"global\" without target or \"project\" with target''], Next, s)
          else ([open_response (dm_ui_open dm mode target)], Next, s))"

definition handle_line :: "daemon \<Rightarrow> line_context \<Rightarrow> string \<Rightarrow> sched \<Rightarrow> Response list \<times> line_end \<times> sched" where
  "handle_line dm cx line s =
     (case dm_decode dm line of
        None \<Rightarrow> ([RespError ''invalid_request'' ''request is not valid protocol JSON''], Next, s)
      | Some request \<Rightarrow>
          if token request \<noteq> dm_token dm
          then ([RespError ''bad_token'' ''session token does not match''], EndContinue, s)
          else (case business_versions request of
              None \<Rightarrow> serve_request dm cx request s
            | Some (protocol_version, state_schema_version) \<Rightarrow>
                if protocol_version \<noteq> PROTOCOL_VERSION
                then ([RespError ''incompatible_protocol''
                        (''client protocol '' @ nat_digits protocol_version @ ''; daemon protocol '' @
                         nat_digits PROTOCOL_VERSION)], Next, s)
                else if state_schema_version \<noteq> STATE_SCHEMA_VERSION
                then ([RespError ''incompatible_state_schema''
                        (''client state schema '' @ nat_digits state_schema_version @ ''; daemon state schema '' @
                         nat_digits STATE_SCHEMA_VERSION)], Next, s)
                else serve_request dm cx request s))"

section \<open>A connection\<close>

datatype ConnectionOutcome = ConnContinue | ConnShutdown

text \<open>
  The lines of the peer within the byte limit; a line that is not UTF-8 is an error, as is the
  unfinished rest when the read times out.
\<close>

definition conn_lines :: "bool \<Rightarrow> string \<Rightarrow> string option list" where
  "conn_lines timed_out bytes =
     (let pieces = split_inclusive (take MAX_LINE_BYTES bytes);
          decode = (\<lambda>l. if utf8_valid l then Some (strip_eol l) else None)
      in if timed_out then map decode (filter (ends_with [newline]) pieces) @ [None] else map decode pieces)"

fun handle_lines ::
    "daemon \<Rightarrow> string option list \<Rightarrow> (nat \<Rightarrow> line_context) \<Rightarrow> nat \<Rightarrow> sched \<Rightarrow>
       Response list \<times> (StateError + ConnectionOutcome) \<times> sched" where
  "handle_lines dm [] cx n s = ([], Inr ConnContinue, s)"
| "handle_lines dm (None # ls) cx n s = ([], Inr ConnContinue, s)"
| "handle_lines dm (Some line # ls) cx n s =
     (case handle_line dm (cx n) line s of
        (rs, Next, s') \<Rightarrow> (case handle_lines dm ls cx (Suc n) s' of (rs', r, s'') \<Rightarrow> (rs @ rs', r, s''))
      | (rs, EndContinue, s') \<Rightarrow> (rs, Inr ConnContinue, s')
      | (rs, EndShutdown, s') \<Rightarrow> (rs, Inr ConnShutdown, s')
      | (rs, Fatal x, s') \<Rightarrow> (rs, Inl x, s'))"

definition handle_connection ::
    "daemon \<Rightarrow> bool \<Rightarrow> string \<Rightarrow> (nat \<Rightarrow> line_context) \<Rightarrow> sched \<Rightarrow>
       Response list \<times> (StateError + ConnectionOutcome) \<times> sched" where
  "handle_connection dm timed_out bytes cx s = handle_lines dm (conn_lines timed_out bytes) cx 0 s"

section \<open>The session token\<close>

definition TOKEN_CHARS :: string where
  "TOKEN_CHARS = ''ABCDEFGHIJKLMNOPQRSTUVWXYZabcdefghijklmnopqrstuvwxyz0123456789-_''"

definition TOKEN_LENGTH :: nat where "TOKEN_LENGTH = 43"

text \<open>Six bits of the hash of a round per character, ten characters per round.\<close>

unbundle bit_operations_syntax

fun token_round :: "nat \<Rightarrow> 64 word \<Rightarrow> string \<Rightarrow> string" where
  "token_round 0 bits t = t"
| "token_round (Suc k) bits t =
     (if length t = TOKEN_LENGTH then t
      else token_round k (drop_bit 6 bits) (t @ [TOKEN_CHARS ! unat (bits AND 63)]))"

text \<open>The loop over rounds: each adds at least one character, so it is bounded by the length.\<close>

lemma token_round_grows:
  "length t < TOKEN_LENGTH \<Longrightarrow> length t < length (token_round (Suc k) bits t) \<and> length (token_round (Suc k) bits t) \<le> TOKEN_LENGTH"
proof -
  have mono: "length t \<le> length (token_round k bits t)" for k bits t
  proof (induction k arbitrary: bits t)
    case (Suc k)
    have "length t \<le> length (t @ [c])" for c by simp
    also have "length (t @ [c]) \<le> length (token_round k (drop_bit 6 bits) (t @ [c]))" for c by (rule Suc)
    finally show ?case by simp
  qed simp
  have bound: "length t \<le> TOKEN_LENGTH \<Longrightarrow> length (token_round k bits t) \<le> TOKEN_LENGTH" for k bits t
    by (induction k arbitrary: bits t) auto
  assume t: "length t < TOKEN_LENGTH"
  let ?t = "t @ [TOKEN_CHARS ! unat (bits AND 63)]"
  have eq: "token_round (Suc k) bits t = token_round k (drop_bit 6 bits) ?t" using t by simp
  have "length t < length ?t" by simp
  also have "length ?t \<le> length (token_round k (drop_bit 6 bits) ?t)" by (rule mono)
  finally show ?thesis unfolding eq using bound [of ?t] t by simp
qed

function token_rounds :: "(64 word \<Rightarrow> 64 word) \<Rightarrow> 64 word \<Rightarrow> string \<Rightarrow> string" where
  "token_rounds hash round t =
     (if TOKEN_LENGTH \<le> length t then t
      else token_rounds hash (round + 1) (token_round 10 (hash round) t))"
  by pat_completeness auto
termination
proof (relation "measure (\<lambda>(h, r, t). TOKEN_LENGTH - length t)")
  fix hash :: "64 word \<Rightarrow> 64 word" and round and t :: string
  assume "\<not> TOKEN_LENGTH \<le> length t"
  then have "length t < length (token_round 10 (hash round) t)"
    using token_round_grows [of t 9 "hash round"] by (simp add: eval_nat_numeral)
  then show "((hash, round + 1, token_round 10 (hash round) t), hash, round, t) \<in> measure (\<lambda>(h, r, t). TOKEN_LENGTH - length t)"
    using \<open>\<not> TOKEN_LENGTH \<le> length t\<close> by simp
qed simp

definition generate_token :: "(64 word \<Rightarrow> 64 word) \<Rightarrow> string" where
  "generate_token hash = token_rounds hash 0 []"

section \<open>Facts about one line\<close>

lemma answer_line:
  "answer ok r = (rs, out, s') \<Longrightarrow> (case out of Fatal x \<Rightarrow> rs = [] \<and> is_fatal x | _ \<Rightarrow> length rs = 1) \<and>
    out \<noteq> EndShutdown \<and> out \<noteq> EndContinue"
  by (auto simp: answer_def split: sum.splits if_splits)

lemma serve_request_one:
  assumes "serve_request dm cx q s = (rs, out, s')"
  shows "(case out of Fatal x \<Rightarrow> rs = [] \<and> is_fatal x | _ \<Rightarrow> length rs = 1) \<and> (out = EndShutdown \<longrightarrow> (\<exists>t. q = Shutdown t)) \<and>
    out \<noteq> EndContinue"
  using assms
  by (cases q) (auto simp: serve_request_def Let_def split: if_splits dest: answer_line)

lemma handle_line_one:
  assumes "handle_line dm cx line s = (rs, out, s')"
  shows "(case out of Fatal x \<Rightarrow> rs = [] \<and> is_fatal x | _ \<Rightarrow> length rs = 1)"
proof -
  have "serve_request dm cx q s = (rs, out, s') \<Longrightarrow> (case out of Fatal x \<Rightarrow> rs = [] \<and> is_fatal x | _ \<Rightarrow> length rs = 1)" for q
    using serve_request_one by blast
  then show ?thesis
    using assms by (auto simp: handle_line_def split: option.splits if_splits)
qed

text \<open>A line that is no request, or a request without the session token or of another version.\<close>

definition incompatible :: "Request \<Rightarrow> bool" where
  "incompatible q = (case business_versions q of None \<Rightarrow> False | Some v \<Rightarrow> v \<noteq> (PROTOCOL_VERSION, STATE_SCHEMA_VERSION))"

definition refused :: "daemon \<Rightarrow> string option \<Rightarrow> bool" where
  "refused dm line = (case line of None \<Rightarrow> True
     | Some l \<Rightarrow> (case dm_decode dm l of None \<Rightarrow> True | Some q \<Rightarrow> token q \<noteq> dm_token dm \<or> incompatible q))"

lemma handle_line_refused:
  "refused dm (Some line) \<Longrightarrow> \<exists>c m out. handle_line dm cx line s = ([RespError c m], out, s) \<and> out \<in> {Next, EndContinue}"
  by (auto simp: refused_def incompatible_def handle_line_def split: option.splits)

lemma handle_lines_refused:
  "list_all (refused dm) ls \<Longrightarrow> handle_lines dm ls cx n s = (rs, out, s') \<Longrightarrow>
    s' = s \<and> out = Inr ConnContinue \<and> list_all (\<lambda>r. \<exists>c m. r = RespError c m) rs"
proof (induction dm ls cx n s arbitrary: rs out s' rule: handle_lines.induct)
  case (3 dm line ls cx n s)
  obtain c m o1 where hl: "handle_line dm (cx n) line s = ([RespError c m], o1, s)" and o1: "o1 = Next \<or> o1 = EndContinue"
    using handle_line_refused [of dm line "cx n" s] "3.prems"(1) by auto
  show ?case
  proof (cases "o1 = Next")
    case True
    obtain rs' out' s'' where rest: "handle_lines dm ls cx (Suc n) s = (rs', out', s'')"
      by (cases "handle_lines dm ls cx (Suc n) s")
    have "s'' = s \<and> out' = Inr ConnContinue \<and> list_all (\<lambda>r. \<exists>c m. r = RespError c m) rs'"
      by (rule "3.IH" [OF hl [symmetric] refl True]) (use "3.prems"(1) rest in simp_all)
    then show ?thesis using "3.prems"(2) hl rest True by auto
  next
    case False
    then show ?thesis using "3.prems"(2) hl o1 by auto
  qed
qed auto

lemma handle_line_shutdown:
  assumes "handle_line dm cx line s = (rs, EndShutdown, s')"
  shows "dm_decode dm line = Some (Shutdown (dm_token dm))"
proof -
  from assms obtain q where q: "dm_decode dm line = Some q" "token q = dm_token dm"
      "serve_request dm cx q s = (rs, EndShutdown, s')"
    by (auto simp: handle_line_def split: option.splits if_splits)
  from serve_request_one [OF q(3)] obtain t where "q = Shutdown t" by blast
  with q show ?thesis by simp
qed

lemma handle_lines_shutdown:
  "handle_lines dm ls cx n s = (rs, Inr ConnShutdown, s') \<Longrightarrow>
    \<exists>l t. Some l \<in> set ls \<and> dm_decode dm l = Some (Shutdown t) \<and> t = dm_token dm"
proof (induction dm ls cx n s arbitrary: rs s' rule: handle_lines.induct)
  case (3 dm line ls cx n s)
  obtain rs1 out1 s1 where hl: "handle_line dm (cx n) line s = (rs1, out1, s1)"
    by (cases "handle_line dm (cx n) line s") auto
  show ?case
  proof (cases out1)
    case Next
    obtain rs' out' s'' where rest: "handle_lines dm ls cx (Suc n) s1 = (rs', out', s'')"
      by (cases "handle_lines dm ls cx (Suc n) s1")
    then have "out' = Inr ConnShutdown" using "3.prems" hl Next by simp
    then have "\<exists>l t. Some l \<in> set ls \<and> dm_decode dm l = Some (Shutdown t) \<and> t = dm_token dm"
      using "3.IH" [OF hl [symmetric] _ Next] rest by auto
    then show ?thesis by auto
  next
    case EndShutdown
    then show ?thesis using hl handle_line_shutdown [of dm "cx n" line s rs1 s1] by auto
  qed (use "3.prems" hl in auto)
qed auto

section \<open>Facts about the token\<close>

lemma token_chars_length: "length TOKEN_CHARS = 64"
  by (simp add: TOKEN_CHARS_def)

lemma masked_index: "unat (bits AND 63 :: 64 word) < length TOKEN_CHARS"
proof -
  have "bits AND 63 \<le> (63 :: 64 word)" by (rule word_and_le1)
  then have "unat (bits AND 63) \<le> unat (63 :: 64 word)" by (simp add: word_le_nat_alt)
  then show ?thesis by (simp add: token_chars_length)
qed

lemma token_round_chars: "set t \<subseteq> set TOKEN_CHARS \<Longrightarrow> set (token_round k bits t) \<subseteq> set TOKEN_CHARS"
  by (induction k arbitrary: bits t) (auto simp: masked_index)

lemma token_rounds_ok:
  "length t \<le> TOKEN_LENGTH \<Longrightarrow> set t \<subseteq> set TOKEN_CHARS \<Longrightarrow>
    length (token_rounds hash r t) = TOKEN_LENGTH \<and> set (token_rounds hash r t) \<subseteq> set TOKEN_CHARS"
proof (induction hash r t rule: token_rounds.induct)
  case (1 hash r t)
  show ?case
  proof (cases "TOKEN_LENGTH \<le> length t")
    case True
    then show ?thesis using "1.prems" by simp
  next
    case False
    then have "length (token_round 10 (hash r) t) \<le> TOKEN_LENGTH"
      using token_round_grows [of t 9 "hash r"] by (simp add: eval_nat_numeral)
    then show ?thesis using "1.IH" [OF False] token_round_chars [OF "1.prems"(2)] False by simp
  qed
qed

declare token_rounds.simps [simp del]

section \<open>Properties of the server\<close>

text \<open>
  C31. A peer that presents no request with the session token and the versions of the daemon
  cannot act on it: whatever bytes it sends, every answer is an error, the scheduler is never
  asked, and the connection ends without shutting the daemon down.
\<close>

theorem refused_no_effect:
  assumes "list_all (refused dm) (conn_lines timed_out bytes)"
    and "handle_connection dm timed_out bytes cx s = (rs, out, s')"
  shows "s' = s \<and> out = Inr ConnContinue \<and> list_all (\<lambda>r. \<exists>c m. r = RespError c m) rs"
  using handle_lines_refused [OF assms(1)] assms(2) by (simp add: handle_connection_def)

definition sample_daemon :: daemon where
  "sample_daemon = \<lparr>dm_token = ''secret'', dm_version = ''1'',
     dm_scanner = \<lparr>ss_desired = PROVIDER_RUST, ss_published = None, ss_diagnostic = None\<rparr>, dm_ui_status = None,
     dm_ui_open = (\<lambda>m t. SpawnFailed m),
     dm_decode = (\<lambda>l. if l = ''stop'' then Some (Shutdown ''guess'')
       else if l = ''quit'' then Some (Shutdown ''secret'')
       else if l = ''old'' then Some (GetJob 5 2 ''secret'' 1) else None)\<rparr>"

definition sample_context :: line_context where
  "sample_context = \<lparr>cx_before = id, cx_env = sample_env, cx_dispatch_env = sample_env, cx_spawn = (\<lambda>_. Inr ())\<rparr>"

lemma conn_lines_short:
  "length bytes \<le> MAX_LINE_BYTES \<Longrightarrow> conn_lines False bytes =
    map (\<lambda>l. if utf8_valid l then Some (strip_eol l) else None) (split_inclusive bytes)"
  by (simp add: conn_lines_def Let_def)

lemma sample_lines: "conn_lines False ''stop'' = [Some ''stop'']" "conn_lines False ''quit'' = [Some ''quit'']"
proof -
  have "map (\<lambda>l. if utf8_valid l then Some (strip_eol l) else None) (split_inclusive ''stop'') = [Some ''stop'']"
    "map (\<lambda>l. if utf8_valid l then Some (strip_eol l) else None) (split_inclusive ''quit'') = [Some ''quit'']"
    by code_simp+
  then show "conn_lines False ''stop'' = [Some ''stop'']" "conn_lines False ''quit'' = [Some ''quit'']"
    by (simp_all add: conn_lines_short MAX_LINE_BYTES_def)
qed

theorem refused_no_effect_witness:
  "snd (snd (handle_connection sample_daemon False ''stop'' (\<lambda>_. sample_context) sample_sched)) = sample_sched"
proof -
  have "list_all (refused sample_daemon) (conn_lines False ''stop'')"
    by (simp add: sample_lines refused_def sample_daemon_def)
  from refused_no_effect [OF this, of "\<lambda>_. sample_context" sample_sched] show ?thesis
    by (cases "handle_connection sample_daemon False ''stop'' (\<lambda>_. sample_context) sample_sched") auto
qed

text \<open>
  Every line that is handled is answered by exactly one response, unless the store failed
  with a fatal error; then there is no response and the error ends the server.
\<close>

theorem one_response_per_line:
  "case handle_line dm cx line s of (rs, out, s') \<Rightarrow>
     (case out of Fatal x \<Rightarrow> rs = [] \<and> is_fatal x | _ \<Rightarrow> length rs = 1)"
  using handle_line_one by (cases "handle_line dm cx line s") fastforce

text \<open>
  The daemon shuts down only on a shutdown request that carries the session token.
\<close>

theorem shutdown_needs_token:
  assumes "handle_connection dm timed_out bytes cx s = (rs, Inr ConnShutdown, s')"
  shows "\<exists>l. Some l \<in> set (conn_lines timed_out bytes) \<and> dm_decode dm l = Some (Shutdown (dm_token dm))"
  using handle_lines_shutdown [of dm "conn_lines timed_out bytes" cx 0 s rs s'] assms
  by (auto simp: handle_connection_def)

theorem shutdown_needs_token_witness:
  "\<exists>l. Some l \<in> set (conn_lines False ''quit'') \<and> dm_decode sample_daemon l = Some (Shutdown ''secret'')"
proof -
  have "handle_connection sample_daemon False ''quit'' (\<lambda>_. sample_context) sample_sched =
      ([Ack], Inr ConnShutdown, sample_sched)"
    by (simp add: handle_connection_def sample_lines handle_line_def serve_request_def sample_daemon_def)
  from shutdown_needs_token [OF this] show ?thesis by (simp add: sample_daemon_def)
qed

text \<open>
  Whatever the hash function returns, the session token has 43 characters, all from the
  64-character alphabet: the masked index is always inside the table and the loop ends.
\<close>

theorem generate_token_ok:
  "length (generate_token hash) = 43 \<and> set (generate_token hash) \<subseteq> set TOKEN_CHARS"
  using token_rounds_ok [of "[]" hash 0] by (simp add: generate_token_def TOKEN_LENGTH_def)

end
