(* ===== verification/Provider.thy ===== *)
theory Provider
  imports Server
begin

text \<open>
  Validation and publication of the scanner provider, \<^verbatim>\<open>remy-cc/src/provider.rs\<close>: publishing at
  startup, the contract the probe scan has to meet, and the bounded wait for a probe process.  The
  probe itself (writing the corpus, running the binary, opening its database) is the \<open>validate\<close>
  argument, as in the code.
\<close>

record SyncOutcome =
  so_status :: ScannerStatus
  so_full_scan_project_ids :: "int list"

definition io_other :: "StateError + 'a \<Rightarrow> io_error + 'a" where
  "io_other r = (case r of Inl x \<Rightarrow> Inl (IoError OtherKind (state_error_to_string x)) | Inr a \<Rightarrow> Inr a)"

definition lift_io :: "'a dbop \<Rightarrow> (db, io_error, 'a) op" where
  "lift_io m d = (case m d of (r, d') \<Rightarrow> (io_other r, d'))"

definition sync_with :: "env \<Rightarrow> string \<Rightarrow> (string + string) \<Rightarrow> (db, io_error, SyncOutcome) op" where
  "sync_with e daemon_version validate =
     op_bind (lift_io published_provider) (\<lambda>published.
     if (case published of None \<Rightarrow> False | Some row \<Rightarrow> pp_provider row = PROVIDER_RUST)
     then op_return \<lparr>so_status = \<lparr>ss_desired = PROVIDER_RUST, ss_published = published, ss_diagnostic = None\<rparr>,
            so_full_scan_project_ids = []\<rparr>
     else (case validate of
         Inl message \<Rightarrow>
           op_return \<lparr>so_status = \<lparr>ss_desired = PROVIDER_RUST, ss_published = published, ss_diagnostic = Some message\<rparr>,
             so_full_scan_project_ids = []\<rparr>
       | Inr probe_summary \<Rightarrow>
           op_bind (lift_io (publish_provider e PROVIDER_RUST daemon_version probe_summary)) (\<lambda>row.
           op_bind (lift_io project_ids) (\<lambda>ids.
           op_return \<lparr>so_status = \<lparr>ss_desired = PROVIDER_RUST, ss_published = Some row, ss_diagnostic = None\<rparr>,
             so_full_scan_project_ids = ids\<rparr>))))"

section \<open>The probe scan\<close>

definition PROBE_FILES :: "string list" where
  "PROBE_FILES = [''probe.py'', ''probe.c'', ''probe.ts'', ''probe.rs'']"

record ProbeOutput =
  po_status_success :: bool
  po_exit_code :: "int option"
  po_stdout :: string
  po_stderr :: string

definition debug_code :: "int option \<Rightarrow> string" where
  "debug_code c = (case c of None \<Rightarrow> ''None'' | Some n \<Rightarrow> ''Some('' @ int_to_string n @ '')'')"

definition parse_scan_result :: "env \<Rightarrow> ProbeOutput \<Rightarrow> string + nat" where
  "parse_scan_result e probe =
     (if \<not> po_status_success probe
      then Inl (''scan probe exited '' @ debug_code (po_exit_code probe) @ '': '' @ trim (po_stderr probe))
      else (case find (\<lambda>line. trim line \<noteq> []) (rev (str_lines (po_stdout probe))) of
          None \<Rightarrow> Inl ''scan probe emitted no output''
        | Some final \<Rightarrow>
            (case json_from_str e final of
               Inl m \<Rightarrow> Inl (''scan probe terminal line is not JSON: '' @ m)
             | Inr value \<Rightarrow>
                 if json_str_field ''type'' value \<noteq> Some ''scan_result'' \<or>
                    Option.bind (json_get ''schema_version'' value) as_u64 \<noteq> Some 1 \<or>
                    json_str_field ''outcome'' value \<noteq> Some ''success''
                 then Inl (''scan probe violated the scan_result contract: '' @
                        (case json_to_string e value of Inl _ \<Rightarrow> [] | Inr t \<Rightarrow> t))
                 else
                   let successful = (case Option.bind (json_get ''successful_paths'' value) as_array of
                         None \<Rightarrow> 0 | Some xs \<Rightarrow> length xs)
                   in if successful \<noteq> length PROBE_FILES
                      then Inl (''scan probe indexed '' @ nat_digits successful @ '' of '' @
                             nat_digits (length PROBE_FILES) @ '' corpus files'')
                      else Inr successful)))"

text \<open>Each poll of the probe: the answer of the process and whether the deadline has passed.\<close>

fun wait_probe :: "((io_error + ExitStatus option) \<times> bool) list \<Rightarrow> (string + ExitStatus) option" where
  "wait_probe [] = None"
| "wait_probe ((state, late) # polls) =
     (case state of
        Inl x \<Rightarrow> Some (Inl (''probe wait failed: '' @ io_error_to_string x))
      | Inr (Some status) \<Rightarrow> Some (Inr status)
      | Inr None \<Rightarrow> if late then Some (Inl ''probe timed out after 120s'') else wait_probe polls)"

section \<open>Properties of publication\<close>

lemma publish_ok:
  assumes "now_millis e = Inr now"
  shows "publish_provider e PROVIDER_RUST v s d =
    (Inr \<lparr>pp_provider = PROVIDER_RUST, pp_daemon_version = v, pp_verified_at = now, pp_probe_summary = s\<rparr>,
     d\<lparr>published := Some \<lparr>pp_provider = PROVIDER_RUST, pp_daemon_version = v, pp_verified_at = now, pp_probe_summary = s\<rparr>\<rparr>)"
  using now_millis_nonneg [OF assms] by (simp add: publish_provider_def op_eval assms provider_check_def Let_def)

lemma sync_published:
  "published d = Some row \<Longrightarrow> pp_provider row = PROVIDER_RUST \<Longrightarrow>
    sync_with e v validate d = (Inr \<lparr>so_status = \<lparr>ss_desired = PROVIDER_RUST, ss_published = Some row, ss_diagnostic = None\<rparr>,
      so_full_scan_project_ids = []\<rparr>, d)"
  by (simp add: sync_with_def op_eval lift_io_def published_provider_def io_other_def)

text \<open>
  Publication at startup: nothing is published when the rust provider already is or when its
  validation fails, and the store is then unchanged; otherwise the validated provider is published
  and a full scan is due for every registered project.  Starting again afterwards is a no-op
  whatever the validation would say, so the full scans are scheduled once.
\<close>

theorem sync_once:
  assumes "now_millis e = Inr now" "sync_with e v validate d = (Inr outcome, d')"
  shows "(case (published d, validate) of
      (Some row, _) \<Rightarrow> pp_provider row = PROVIDER_RUST \<longrightarrow> d' = d \<and> so_full_scan_project_ids outcome = []
    | (None, Inl m) \<Rightarrow> d' = d \<and> ss_diagnostic (so_status outcome) = Some m \<and> so_full_scan_project_ids outcome = []
    | (None, Inr summary) \<Rightarrow> jobs d' = jobs d \<and> projects d' = projects d \<and>
        so_full_scan_project_ids outcome = sort (map pr_id (projects d)) \<and>
        (\<exists>row. published d' = Some row \<and> pp_provider row = PROVIDER_RUST \<and> pp_daemon_version row = v \<and>
           sync_with e2 v2 validate2 d' =
             (Inr \<lparr>so_status = \<lparr>ss_desired = PROVIDER_RUST, ss_published = Some row, ss_diagnostic = None\<rparr>,
                so_full_scan_project_ids = []\<rparr>, d')))"
proof (cases "published d")
  case None
  show ?thesis
  proof (cases validate)
    case (Inl m)
    then show ?thesis
      using assms(2) None by (auto simp: sync_with_def op_eval lift_io_def published_provider_def io_other_def)
  next
    case (Inr summary)
    then have "d' = d\<lparr>published := Some \<lparr>pp_provider = PROVIDER_RUST, pp_daemon_version = v, pp_verified_at = now, pp_probe_summary = summary\<rparr>\<rparr>"
      "so_full_scan_project_ids outcome = sort (map pr_id (projects d))"
      using assms(2) None
      by (auto simp: sync_with_def op_eval lift_io_def published_provider_def io_other_def publish_ok [OF assms(1)] project_ids_def)
    then show ?thesis using None Inr sync_published [of d'] by simp
  qed
next
  case (Some row)
  then show ?thesis using assms(2) sync_published [OF Some, of e v validate] by auto
qed

theorem sync_once_witness:
  "so_full_scan_project_ids (projr (fst (sync_with sample_env ''1'' (Inr ''ok'') sample_db))) = [1]"
proof -
  obtain outcome d' where s: "sync_with sample_env ''1'' (Inr ''ok'') sample_db = (Inr outcome, d')"
    by (simp add: sync_with_def op_eval lift_io_def published_provider_def io_other_def publish_ok [OF sample_now]
        project_ids_def sample_db_def)
  have "published sample_db = None" "map pr_id (projects sample_db) = [1]"
    by (simp_all add: sample_db_def sample_project_def)
  then show ?thesis using sync_once [OF sample_now s] s by simp
qed

text \<open>The last element with a property.\<close>

lemma find_rev_Some: "find P (rev ls) = Some x \<longleftrightarrow> (\<exists>a b. ls = a @ x # b \<and> P x \<and> list_all (\<lambda>y. \<not> P y) b)"
proof (induction ls rule: rev_induct)
  case Nil
  then show ?case by simp
next
  case (snoc y ls)
  show ?case
  proof (cases "P y")
    case True
    have "(\<exists>a b. ls @ [y] = a @ x # b \<and> P x \<and> list_all (\<lambda>y. \<not> P y) b) \<longleftrightarrow> x = y"
    proof
      assume "\<exists>a b. ls @ [y] = a @ x # b \<and> P x \<and> list_all (\<lambda>y. \<not> P y) b"
      then obtain a b where ab: "ls @ [y] = a @ x # b" "list_all (\<lambda>y. \<not> P y) b" by blast
      then show "x = y" using True by (cases b rule: rev_cases) auto
    next
      assume "x = y"
      then show "\<exists>a b. ls @ [y] = a @ x # b \<and> P x \<and> list_all (\<lambda>y. \<not> P y) b"
        using True by (intro exI [of _ ls] exI [of _ "[]"]) simp
    qed
    then show ?thesis using True by auto
  next
    case False
    have "(\<exists>a b. ls @ [y] = a @ x # b \<and> P x \<and> list_all (\<lambda>y. \<not> P y) b) \<longleftrightarrow>
        (\<exists>a b. ls = a @ x # b \<and> P x \<and> list_all (\<lambda>y. \<not> P y) b)" (is "?x \<longleftrightarrow> ?y")
    proof
      assume ?x
      then obtain a b where ab: "ls @ [y] = a @ x # b" "P x" "list_all (\<lambda>y. \<not> P y) b" by blast
      then show ?y using False by (cases b rule: rev_cases) auto
    next
      assume ?y
      then obtain a b where "ls = a @ x # b" "P x" "list_all (\<lambda>y. \<not> P y) b" by blast
      then show ?x using False by (intro exI [of _ a] exI [of _ "b @ [y]"]) simp
    qed
    then show ?thesis using False snoc by simp
  qed
qed

text \<open>
  A probe is accepted only when the process succeeded, the last non-blank line of its output
  is a successful version 1 scan result, and exactly the four files of the probe corpus were
  indexed.
\<close>

theorem probe_accepted_iff:
  "parse_scan_result e probe = Inr n \<longleftrightarrow>
     po_status_success probe \<and> n = 4 \<and>
     (\<exists>before final blank value items. str_lines (po_stdout probe) = before @ final # blank \<and> trim final \<noteq> [] \<and>
        list_all (\<lambda>l. trim l = []) blank \<and> json_from_str e final = Inr value \<and>
        json_str_field ''type'' value = Some ''scan_result'' \<and>
        Option.bind (json_get ''schema_version'' value) as_u64 = Some 1 \<and>
        json_str_field ''outcome'' value = Some ''success'' \<and>
        Option.bind (json_get ''successful_paths'' value) as_array = Some items \<and> length items = 4)"
  (is "?l \<longleftrightarrow> ?r")
proof -
  have four: "length PROBE_FILES = 4" by (simp add: PROBE_FILES_def)
  have "?l \<longleftrightarrow> po_status_success probe \<and> n = 4 \<and>
     (\<exists>final value items. find (\<lambda>line. trim line \<noteq> []) (rev (str_lines (po_stdout probe))) = Some final \<and>
        json_from_str e final = Inr value \<and>
        json_str_field ''type'' value = Some ''scan_result'' \<and>
        Option.bind (json_get ''schema_version'' value) as_u64 = Some 1 \<and>
        json_str_field ''outcome'' value = Some ''success'' \<and>
        Option.bind (json_get ''successful_paths'' value) as_array = Some items \<and> length items = 4)"
    unfolding parse_scan_result_def four Let_def
    by (auto split: option.splits sum.splits)
  also have "\<dots> \<longleftrightarrow> ?r" unfolding find_rev_Some not_not by blast
  finally show ?thesis .
qed

end
