(* ===== verification/CodePoints.thy ===== *)
theory CodePoints
  imports Paths
begin

text \<open>
  Text as sequences of Unicode code points, for the parts of the scanner that look at characters:
  white space, lines, trimming and replacement of characters.
\<close>

type_synonym ucs = "nat list"

text \<open>A literal in source text as code points.\<close>

definition lit :: "string \<Rightarrow> ucs" where
  "lit s = map of_char s"

definition scalar :: "nat \<Rightarrow> bool" where
  "scalar c \<longleftrightarrow> c < 55296 \<or> (57344 \<le> c \<and> c < 1114112)"

text \<open>The code points with the White_Space property.\<close>

definition is_white :: "nat \<Rightarrow> bool" where
  "is_white c \<longleftrightarrow> (9 \<le> c \<and> c \<le> 13) \<or> c = 32 \<or> c = 133 \<or> c = 160 \<or> c = 5760 \<or> (8192 \<le> c \<and> c \<le> 8202) \<or>
     c = 8232 \<or> c = 8233 \<or> c = 8239 \<or> c = 8287 \<or> c = 12288"

text \<open>Python's notion adds the four information separators.\<close>

definition is_python_space :: "nat \<Rightarrow> bool" where
  "is_python_space c \<longleftrightarrow> is_white c \<or> (28 \<le> c \<and> c \<le> 31)"

fun pieces_incl :: "ucs \<Rightarrow> ucs list" where
  "pieces_incl [] = []"
| "pieces_incl (c # cs) =
     (if c = 10 then [c] # pieces_incl cs
      else (case pieces_incl cs of [] \<Rightarrow> [[c]] | p # ps \<Rightarrow> (c # p) # ps))"

definition chop_eol :: "ucs \<Rightarrow> ucs" where
  "chop_eol l = (case strip_suffix [10] l of None \<Rightarrow> l
     | Some m \<Rightarrow> (case strip_suffix [13] m of None \<Rightarrow> m | Some n \<Rightarrow> n))"

definition ucs_lines :: "ucs \<Rightarrow> ucs list" where
  "ucs_lines s = map chop_eol (pieces_incl s)"

definition ucs_trim :: "ucs \<Rightarrow> ucs" where
  "ucs_trim s = rev (dropWhile is_white (rev (dropWhile is_white s)))"

definition trim_end_matches :: "nat \<Rightarrow> ucs \<Rightarrow> ucs" where
  "trim_end_matches c s = rev (dropWhile (\<lambda>x. x = c) (rev s))"

definition replace_char :: "nat \<Rightarrow> ucs \<Rightarrow> ucs \<Rightarrow> ucs" where
  "replace_char c r s = concat (map (\<lambda>x. if x = c then r else [x]) s)"

definition split_once :: "nat \<Rightarrow> ucs \<Rightarrow> (ucs \<times> ucs) option" where
  "split_once c s = (if c \<in> set s then Some (takeWhile (\<lambda>x. x \<noteq> c) s, tl (dropWhile (\<lambda>x. x \<noteq> c) s)) else None)"

section \<open>Facts\<close>

lemma lit_eq: "lit a = lit b \<longleftrightarrow> a = b"
  by (auto simp: lit_def inj_map_eq_map [OF inj_of_char])

lemma concat_pieces_incl: "concat (pieces_incl s) = s"
  by (induction s) (auto split: list.splits)

lemma pieces_incl_line: "10 \<notin> set l \<Longrightarrow> pieces_incl (l @ 10 # rest) = (l @ [10]) # pieces_incl rest"
  by (induction l) auto

lemma chop_eol_line:
  assumes "10 \<notin> set l" "13 \<notin> set l"
  shows "chop_eol (l @ [10]) = l"
proof -
  have 1: "strip_suffix [10] (l @ [10]) = Some l" by (simp add: strip_suffix_Some)
  have "strip_suffix [13] l = None"
    using assms(2) by (auto simp: strip_suffix_def ends_with_append)
  with 1 show ?thesis by (simp add: chop_eol_def)
qed

lemma ucs_lines_line:
  "10 \<notin> set l \<Longrightarrow> 13 \<notin> set l \<Longrightarrow> ucs_lines (l @ 10 # rest) = l # ucs_lines rest"
  by (simp add: ucs_lines_def pieces_incl_line chop_eol_line)

lemma ucs_trim_id:
  assumes "\<forall>c \<in> set s. \<not> is_white c"
  shows "ucs_trim s = s"
proof -
  have keep: "dropWhile is_white t = t" if "\<forall>c \<in> set t. \<not> is_white c" for t
    using that by (cases t) simp_all
  have "dropWhile is_white s = s" "dropWhile is_white (rev s) = rev s" using assms keep [of s] keep [of "rev s"] by simp_all
  then show ?thesis by (simp add: ucs_trim_def)
qed

lemma replace_char_absent: "c \<notin> set s \<Longrightarrow> replace_char c r s = s"
  by (induction s) (auto simp: replace_char_def)

lemma split_once_first: "c \<notin> set a \<Longrightarrow> split_once c (a @ c # b) = Some (a, b)"
  by (induction a) (auto simp: split_once_def)

lemma split_once_Some: "split_once c s = Some (a, b) \<Longrightarrow> s = a @ c # b \<and> c \<notin> set a"
proof -
  assume "split_once c s = Some (a, b)"
  then have h: "c \<in> set s" "a = takeWhile (\<lambda>x. x \<noteq> c) s" "b = tl (dropWhile (\<lambda>x. x \<noteq> c) s)"
    by (auto simp: split_once_def split: if_splits)
  then obtain d where "dropWhile (\<lambda>x. x \<noteq> c) s = c # d"
    by (cases "dropWhile (\<lambda>x. x \<noteq> c) s") (auto simp: dropWhile_eq_Cons_conv dropWhile_eq_Nil_conv)
  then show ?thesis using h takeWhile_dropWhile_id [of "\<lambda>x. x \<noteq> c" s] set_takeWhileD by fastforce
qed

end
