(* ===== verification/Orders.thy ===== *)
theory Orders
  imports SortBy "HOL-Library.List_Lexorder" "HOL-Library.Product_Lexorder" "HOL-Library.Multiset"
begin

text \<open>
  Orderings and ordered collections of the index: the three-valued comparison with its chaining, the
  lexicographic order on text (the order of UTF-8 bytes is the order of code points), ordered sets
  as their sorted lists, and grouping into an ordered map.
\<close>

section \<open>Comparisons\<close>

datatype Ordering = Less | Equal | Greater

definition cmp :: "'a::linorder \<Rightarrow> 'a \<Rightarrow> Ordering" where
  "cmp a b = (if a < b then Less else if a = b then Equal else Greater)"

definition then_with :: "Ordering \<Rightarrow> Ordering \<Rightarrow> Ordering" where
  "then_with o1 o2 = (if o1 = Equal then o2 else o1)"

definition sort_cmp :: "('a \<Rightarrow> 'a \<Rightarrow> Ordering) \<Rightarrow> 'a list \<Rightarrow> 'a list" where
  "sort_cmp c xs = sort_by (\<lambda>a b. c a b \<noteq> Greater) xs"

lemma cmp_simps [simp]:
  "cmp a b = Less \<longleftrightarrow> a < b" "cmp a b = Equal \<longleftrightarrow> a = b" "cmp a b = Greater \<longleftrightarrow> b < a"
  by (auto simp: cmp_def)

lemma cmp_not_Greater [simp]: "cmp a b \<noteq> Greater \<longleftrightarrow> a \<le> b"
  by (auto simp: cmp_def)

lemma then_with_cmp: "then_with (cmp a b) (cmp c d) = cmp (a, c) (b, d)"
  by (auto simp: then_with_def cmp_def)

lemma insert_by_key: "insert_by (\<lambda>a b. k a \<le> k b) x ys = insort_key k x ys"
  by (induction ys) auto

lemma sort_by_key: "sort_by (\<lambda>a b. k a \<le> k b) xs = sort_key k xs"
  by (induction xs) (auto simp: insert_by_key)

lemma sort_cmp_key:
  assumes "\<And>a b. c a b = cmp (k a) (k b)"
  shows "sort_cmp c xs = sort_key k xs"
  unfolding sort_cmp_def assms cmp_not_Greater by (rule sort_by_key)

section \<open>Ordered sets and maps\<close>

text \<open>The elements of an ordered set built from an iterator, in ascending order.\<close>

definition btree_set :: "'a::linorder list \<Rightarrow> 'a list" where
  "btree_set xs = sort (remdups xs)"

lemma set_btree_set [simp]: "set (btree_set xs) = set xs"
  by (simp add: btree_set_def)

lemma distinct_btree_set [simp]: "distinct (btree_set xs)"
  by (simp add: btree_set_def)

lemma sorted_btree_set [simp]: "sorted (btree_set xs)"
  by (simp add: btree_set_def)

lemma btree_set_empty [simp]: "btree_set xs = [] \<longleftrightarrow> xs = []"
  by (metis set_btree_set set_empty)

lemma btree_set_cong: "set xs = set ys \<Longrightarrow> btree_set xs = btree_set ys"
  by (simp add: btree_set_def sorted_list_of_set.idem_if_sorted_distinct sorted_list_of_set_sort_remdups [symmetric])

lemma btree_set_eq_iff: "btree_set xs = btree_set ys \<longleftrightarrow> set xs = set ys"
  by (metis btree_set_cong set_btree_set)

text \<open>Pushing a value onto the list of its key in an ordered map.\<close>

fun btree_push :: "'k::linorder \<Rightarrow> 'v \<Rightarrow> ('k \<times> 'v list) list \<Rightarrow> ('k \<times> 'v list) list" where
  "btree_push k v [] = [(k, [v])]"
| "btree_push k v ((k', vs) # m) =
     (if k < k' then (k, [v]) # (k', vs) # m
      else if k = k' then (k', vs @ [v]) # m
      else (k', vs) # btree_push k v m)"

definition btree_group :: "('v \<Rightarrow> 'k::linorder) \<Rightarrow> 'v list \<Rightarrow> ('k \<times> 'v list) list" where
  "btree_group key vs = foldl (\<lambda>m v. btree_push (key v) v m) [] vs"

lemma keys_btree_push: "fst ` set (btree_push k v m) = insert k (fst ` set m)"
  by (induction k v m rule: btree_push.induct) auto

lemma sorted_btree_push:
  "sorted_wrt (<) (map fst m) \<Longrightarrow> sorted_wrt (<) (map fst (btree_push k v m))"
proof (induction k v m rule: btree_push.induct)
  case (2 k v k' vs m)
  have "k' < y" if "y \<in> fst ` set (btree_push k v m)" "k \<noteq> k'" "\<not> k < k'" for y
    using that 2(2) unfolding keys_btree_push by auto
  then show ?case using 2 by auto
qed simp

lemma map_of_btree_push:
  "sorted_wrt (<) (map fst m) \<Longrightarrow>
   map_of (btree_push k v m) = (map_of m)(k \<mapsto> (case map_of m k of None \<Rightarrow> [v] | Some vs \<Rightarrow> vs @ [v]))"
proof (induction k v m rule: btree_push.induct)
  case (2 k v k' vs m)
  have "map_of m k = None" if "k < k'"
    using 2(2) that by (auto simp: map_of_eq_None_iff)
  then show ?case using 2 by (auto intro!: ext)
qed auto

lemma btree_group_snoc: "btree_group key (vs @ [v]) = btree_push (key v) v (btree_group key vs)"
  by (simp add: btree_group_def)

lemma sorted_btree_group: "sorted_wrt (<) (map fst (btree_group key vs))"
  by (induction vs rule: rev_induct) (simp_all add: btree_group_snoc sorted_btree_push, simp add: btree_group_def)

lemma keys_btree_group: "fst ` set (btree_group key vs) = key ` set vs"
  by (induction vs rule: rev_induct) (simp_all add: btree_group_snoc keys_btree_push, simp add: btree_group_def)

lemma map_of_btree_group:
  "map_of (btree_group key vs) k = (if k \<in> key ` set vs then Some (filter (\<lambda>v. key v = k) vs) else None)"
proof (induction vs rule: rev_induct)
  case (snoc v vs)
  have none: "key v \<notin> key ` set vs \<Longrightarrow> filter (\<lambda>w. key w = key v) vs = []"
    by (auto simp: filter_empty_conv image_iff)
  show ?case using snoc none
    by (auto simp: btree_group_snoc map_of_btree_push [OF sorted_btree_group])
qed (simp add: btree_group_def)

text \<open>Grouping yields the keys in order, each with its values in the order they came.\<close>

lemma btree_group_eq:
  "btree_group key vs = map (\<lambda>k. (k, filter (\<lambda>v. key v = k) vs)) (btree_set (map key vs))"
proof -
  let ?m = "btree_group key vs"
  have s: "sorted_wrt (<) (map fst ?m)" by (rule sorted_btree_group)
  then have "sorted (map fst ?m)" "distinct (map fst ?m)" by (simp_all add: strict_sorted_iff)
  then have keys: "map fst ?m = btree_set (map key vs)"
    using keys_btree_group [of key vs] by (intro sorted_distinct_set_unique) simp_all
  have "map (\<lambda>k. (k, the (map_of ?m k))) (map fst ?m) = ?m"
    using \<open>distinct (map fst ?m)\<close> by (auto intro!: map_idI simp: comp_def)
  then have "?m = map (\<lambda>k. (k, the (map_of ?m k))) (btree_set (map key vs))" by (simp add: keys)
  also have "\<dots> = map (\<lambda>k. (k, filter (\<lambda>v. key v = k) vs)) (btree_set (map key vs))"
    by (auto simp: map_of_btree_group)
  finally show ?thesis .
qed

lemma filter_concat_keyed:
  assumes "distinct ns" "n \<in> set ns" "\<And>m r. m \<in> set ns \<Longrightarrow> r \<in> set (f m) \<Longrightarrow> k r = m"
  shows "filter (\<lambda>r. k r = n) (concat (map f ns)) = f n"
  using assms
proof (induction ns)
  case (Cons m ns)
  have keep: "filter (\<lambda>r. k r = n) (f j) = (if j = n then f n else [])" if "j \<in> set (m # ns)" for j
  proof -
    have "\<forall>r\<in>set (f j). k r = j" using Cons.prems(3) [OF that] by blast
    then show ?thesis by (auto simp: filter_empty_conv intro!: filter_True)
  qed
  have none: "filter (\<lambda>r. k r = n) (concat (map f ns)) = []" if "n \<notin> set ns"
    using Cons.prems(3) that by (auto simp: filter_empty_conv)
  show ?case
  proof (cases "m = n")
    case True
    then show ?thesis using Cons.prems(1) keep [of m] none by simp
  next
    case False
    then show ?thesis using Cons keep [of m] by simp
  qed
qed simp

section \<open>Maps to lists\<close>

text \<open>Extending the list of a key in a map whose order does not matter.\<close>

fun map_extend :: "'k \<Rightarrow> 'v list \<Rightarrow> ('k \<times> 'v list) list \<Rightarrow> ('k \<times> 'v list) list" where
  "map_extend k vs [] = [(k, vs)]"
| "map_extend k vs ((k', ws) # m) = (if k = k' then (k', ws @ vs) # m else (k', ws) # map_extend k vs m)"

definition map_values :: "('k \<times> 'v list) list \<Rightarrow> 'k \<Rightarrow> 'v list" where
  "map_values m k = (case map_of m k of None \<Rightarrow> [] | Some vs \<Rightarrow> vs)"

lemma map_values_Nil [simp]: "map_values [] k = []"
  by (simp add: map_values_def)

lemma map_values_extend: "map_values (map_extend k vs m) n = map_values m n @ (if n = k then vs else [])"
  by (induction k vs m rule: map_extend.induct) (auto simp: map_values_def)

end
