(* ===== verification/Facts.thy ===== *)
theory Facts
  imports CodePoints Orders
begin

text \<open>
  The facts a language parser extracts from one source file, \<^verbatim>\<open>remy-cc/scanner-core/src/facts.rs\<close>.
  Text is a list of code points; line numbers are integers.
\<close>

record SymbolInfo =
  si_name :: ucs
  si_args :: ucs
  si_sym_type :: ucs
  si_lineno :: int
  si_source_segment :: ucs
  si_end_lineno :: "int option"
  si_docstring :: "ucs option"
  si_bases :: "ucs list option"
  si_hash_source_segment :: "ucs option"

definition hash_segment :: "SymbolInfo \<Rightarrow> ucs" where
  "hash_segment s = (case si_hash_source_segment s of None \<Rightarrow> si_source_segment s | Some t \<Rightarrow> t)"

record EdgeInfo =
  ei_caller :: ucs
  ei_callee :: ucs
  ei_line :: int
  ei_call_form :: ucs

record PatternFact =
  pf_pattern_type :: ucs
  pf_signal_name :: "ucs option"
  pf_handler :: "ucs option"
  pf_line :: "int option"
  pf_metadata_json :: "ucs option"

record CacheIdentity =
  ci_contract_version :: ucs
  ci_backend :: ucs
  ci_environment :: ucs

record OccurrenceRow =
  or_symbol :: SymbolInfo
  or_occurrence_index :: int
  or_is_canonical :: bool
  or_conflict_kind :: ucs
  or_selection_reason :: ucs
  or_hash :: ucs

record EdgeRow =
  er_caller :: ucs
  er_callee :: ucs
  er_line :: int
  er_call_form :: ucs

record FileFacts =
  ff_rel_path :: ucs
  ff_struct_hash :: ucs
  ff_language_id :: ucs
  ff_layer :: ucs
  ff_imports_json :: ucs
  ff_import_bindings_json :: ucs
  ff_identity :: CacheIdentity
  ff_canonical_symbols :: "SymbolInfo list"
  ff_occurrences :: "OccurrenceRow list"
  ff_edges :: "EdgeRow list"
  ff_patterns :: "PatternFact list"

datatype FileOutcome = Facts FileFacts | FailedFile ucs ucs

end
