(* ===== verification/PyJson.thy ===== *)
theory PyJson
  imports CodePoints JsonValue SortBy
begin

text \<open>
  The replication of Python's JSON writer, \<^verbatim>\<open>remy-cc/scanner-core/src/pyjson.rs\<close>, on code points:
  the three formats used by the database columns.  The strings it writes are read back by a JSON
  string reader defined here as the reference.
\<close>

section \<open>Hexadecimal digits\<close>

definition hex_digit :: "nat \<Rightarrow> nat" where
  "hex_digit d = (if d < 10 then 48 + d else 87 + d)"

fun hex_pad :: "nat \<Rightarrow> nat \<Rightarrow> ucs" where
  "hex_pad 0 v = []"
| "hex_pad (Suc n) v = hex_digit (v div 16 ^ n) # hex_pad n (v mod 16 ^ n)"

definition to_digit16 :: "nat \<Rightarrow> nat option" where
  "to_digit16 c =
     (if 48 \<le> c \<and> c \<le> 57 then Some (c - 48) else if 97 \<le> c \<and> c \<le> 102 then Some (c - 87)
      else if 65 \<le> c \<and> c \<le> 70 then Some (c - 55) else None)"

fun take_hex :: "nat \<Rightarrow> nat \<Rightarrow> ucs \<Rightarrow> (nat \<times> ucs) option" where
  "take_hex 0 v cs = Some (v, cs)"
| "take_hex (Suc n) v [] = None"
| "take_hex (Suc n) v (c # cs) = (case to_digit16 c of None \<Rightarrow> None | Some d \<Rightarrow> take_hex n (v * 16 + d) cs)"

section \<open>Writing\<close>

definition escape_char :: "bool \<Rightarrow> nat \<Rightarrow> ucs" where
  "escape_char ensure_ascii c =
     (if c = 34 then [92, 34] else if c = 92 then [92, 92] else if c = 10 then [92, 110]
      else if c = 13 then [92, 114] else if c = 9 then [92, 116] else if c = 8 then [92, 98]
      else if c = 12 then [92, 102]
      else if c < 32 then [92, 117] @ hex_pad 4 c
      else if ensure_ascii \<and> 127 < c then
        (if 65535 < c
         then let v = c - 65536; high = 55296 + v div 1024; low = 56320 + v mod 1024
              in [92, 117] @ hex_pad 4 high @ [92, 117] @ hex_pad 4 low
         else [92, 117] @ hex_pad 4 c)
      else [c])"

definition write_string :: "bool \<Rightarrow> ucs \<Rightarrow> ucs" where
  "write_string ensure_ascii s = [34] @ concat (map (escape_char ensure_ascii) s) @ [34]"

definition write_number :: "json_number \<Rightarrow> ucs" where
  "write_number n = (case n of NInt i \<Rightarrow> lit (int_to_string i) | NFloat t \<Rightarrow> lit t)"

fun ucs_le :: "ucs \<Rightarrow> ucs \<Rightarrow> bool" where
  "ucs_le [] _ = True"
| "ucs_le (a # as) [] = False"
| "ucs_le (a # as) (b # bs) = (a < b \<or> (a = b \<and> ucs_le as bs))"

fun write_value :: "ucs \<Rightarrow> ucs \<Rightarrow> bool \<Rightarrow> bool \<Rightarrow> ucs json_value \<Rightarrow> ucs" where
  "write_value item_sep key_sep ensure_ascii sort_keys JNull = lit ''null''"
| "write_value item_sep key_sep ensure_ascii sort_keys (JBool b) = (if b then lit ''true'' else lit ''false'')"
| "write_value item_sep key_sep ensure_ascii sort_keys (JNumber n) = write_number n"
| "write_value item_sep key_sep ensure_ascii sort_keys (JString s) = write_string ensure_ascii s"
| "write_value item_sep key_sep ensure_ascii sort_keys (JArray items) =
     [91] @ join_with item_sep (map (write_value item_sep key_sep ensure_ascii sort_keys) items) @ [93]"
| "write_value item_sep key_sep ensure_ascii sort_keys (JObject entries) =
     (let rendered = map (\<lambda>(k, v). (k, write_value item_sep key_sep ensure_ascii sort_keys v)) entries;
          ordered = (if sort_keys then sort_by (\<lambda>a b. ucs_le (fst a) (fst b)) rendered else rendered)
      in [123] @ join_with item_sep (map (\<lambda>(k, r). write_string ensure_ascii k @ key_sep @ r) ordered) @ [125])"

definition dumps_default :: "ucs json_value \<Rightarrow> ucs" where
  "dumps_default = write_value (lit '', '') (lit '': '') True False"

definition dumps_identity :: "ucs json_value \<Rightarrow> ucs" where
  "dumps_identity = write_value (lit '','') (lit '':'') False True"

definition dumps_summary :: "ucs json_value \<Rightarrow> ucs" where
  "dumps_summary = write_value (lit '', '') (lit '': '') False False"

section \<open>Reading a string\<close>

definition read_escape :: "ucs \<Rightarrow> (nat \<times> ucs) option" where
  "read_escape cs =
     (case cs of [] \<Rightarrow> None
      | c # r \<Rightarrow>
          if c = 34 \<or> c = 92 \<or> c = 47 then Some (c, r) else if c = 110 then Some (10, r)
          else if c = 114 then Some (13, r) else if c = 116 then Some (9, r)
          else if c = 98 then Some (8, r) else if c = 102 then Some (12, r)
          else if c = 117 then
            (case take_hex 4 0 r of None \<Rightarrow> None
             | Some (v, r1) \<Rightarrow>
                 if 55296 \<le> v \<and> v < 56320 then
                   (case r1 of
                      b # u # r2 \<Rightarrow>
                        if b = 92 \<and> u = 117 then
                          (case take_hex 4 0 r2 of None \<Rightarrow> None
                           | Some (w, r3) \<Rightarrow>
                               if 56320 \<le> w \<and> w < 57344 then Some (65536 + (v - 55296) * 1024 + (w - 56320), r3) else None)
                        else None
                    | _ \<Rightarrow> None)
                 else if 56320 \<le> v \<and> v < 57344 then None else Some (v, r1))
          else None)"

text \<open>The characters up to the closing quote; raw control characters are refused.\<close>

lemma take_hex_shorter: "take_hex n v cs = Some (w, r) \<Longrightarrow> length r \<le> length cs"
  by (induction n v cs rule: take_hex.induct) (auto split: option.splits)

lemma read_escape_shorter: "read_escape cs = Some (c, r) \<Longrightarrow> length r < length cs"
  by (auto simp: read_escape_def split: list.splits if_splits option.splits prod.splits dest!: take_hex_shorter)

function read_chars :: "ucs \<Rightarrow> ucs \<Rightarrow> (ucs \<times> ucs) option" where
  "read_chars acc [] = None"
| "read_chars acc (c # cs) =
     (if c = 34 then Some (acc, cs) else if c < 32 then None
      else if c = 92 then (case read_escape cs of None \<Rightarrow> None | Some (d, r) \<Rightarrow> read_chars (acc @ [d]) r)
      else read_chars (acc @ [c]) cs)"
  by pat_completeness auto
termination
  by (relation "measure (\<lambda>(acc, cs). length cs)") (auto dest: read_escape_shorter)

definition read_string :: "ucs \<Rightarrow> (ucs \<times> ucs) option" where
  "read_string cs = (case cs of [] \<Rightarrow> None | c # r \<Rightarrow> if c = 34 then read_chars [] r else None)"

section \<open>Facts\<close>

lemma to_digit16_hex: "d < 16 \<Longrightarrow> to_digit16 (hex_digit d) = Some d"
  by (auto simp: to_digit16_def hex_digit_def)

lemma take_hex_pad: "v < 16 ^ n \<Longrightarrow> take_hex n a (hex_pad n v @ rest) = Some (a * 16 ^ n + v, rest)"
proof (induction n arbitrary: v a)
  case (Suc n)
  have d: "v div 16 ^ n < 16" using Suc.prems by (simp add: less_mult_imp_div_less)
  have "take_hex (Suc n) a (hex_pad (Suc n) v @ rest) =
      Some ((a * 16 + v div 16 ^ n) * 16 ^ n + v mod 16 ^ n, rest)"
    using Suc.IH [of "v mod 16 ^ n" "a * 16 + v div 16 ^ n"] by (simp add: to_digit16_hex [OF d])
  also have "(a * 16 + v div 16 ^ n) * 16 ^ n + v mod 16 ^ n = a * 16 ^ Suc n + v"
    by (simp add: algebra_simps)
  finally show ?case .
qed simp

lemma take_hex_pad4: "v < 65536 \<Longrightarrow> take_hex 4 0 (hex_pad 4 v @ rest) = Some (v, rest)"
  using take_hex_pad [of v 4 0 rest] by simp

lemma hex_digit_range: "d < 16 \<Longrightarrow> 48 \<le> hex_digit d \<and> hex_digit d \<le> 102"
  by (auto simp: hex_digit_def)

lemma hex_pad_range: "v < 16 ^ n \<Longrightarrow> c \<in> set (hex_pad n v) \<Longrightarrow> 48 \<le> c \<and> c \<le> 102"
proof (induction n arbitrary: v)
  case (Suc n)
  have "v div 16 ^ n < 16" using Suc.prems(1) by (simp add: less_mult_imp_div_less)
  then have "48 \<le> hex_digit (v div 16 ^ n) \<and> hex_digit (v div 16 ^ n) \<le> 102" by (rule hex_digit_range)
  moreover have "v mod 16 ^ n < 16 ^ n" by simp
  ultimately show ?case using Suc.prems(2) Suc.IH [of "v mod 16 ^ n"] by auto
qed simp

lemma read_escaped:
  assumes "scalar c"
  shows "read_chars acc (escape_char a c @ rest) = read_chars (acc @ [c]) rest"
proof -
  have u: "read_escape (117 # hex_pad 4 c @ rest) = Some (c, rest)" if "c < 65536"
    using that assms take_hex_pad4 [OF that] by (auto simp: read_escape_def scalar_def)
  have pair: "read_escape (117 # hex_pad 4 (55296 + (c - 65536) div 1024) @ 92 # 117 # hex_pad 4 (56320 + (c - 65536) mod 1024) @ rest) =
      Some (c, rest)" if "65535 < c"
  proof -
    have hi: "(c - 65536) div 1024 < 1024" using assms that by (auto simp: scalar_def)
    have lo: "(c - 65536) mod 1024 < 1024" by simp
    have "65536 + (c - 65536) div 1024 * 1024 + (c - 65536) mod 1024 = c" using that by simp
    then show ?thesis using hi lo by (simp add: read_escape_def take_hex_pad4)
  qed
  show ?thesis
    using u pair by (simp add: escape_char_def Let_def) (simp add: read_escape_def)
qed

lemma read_written_chars:
  "list_all scalar s \<Longrightarrow> read_chars acc (concat (map (escape_char a) s) @ [34] @ rest) = Some (acc @ s, rest)"
  by (induction s arbitrary: acc) (simp_all add: read_escaped)

lemma escape_char_range: "scalar c \<Longrightarrow> x \<in> set (escape_char a c) \<Longrightarrow> 32 \<le> x \<and> (a \<longrightarrow> x \<le> 127)"
proof -
  assume c: "scalar c" and x: "x \<in> set (escape_char a c)"
  have hex: "48 \<le> x \<and> x \<le> 102" if "x \<in> set (hex_pad 4 v)" "v < 65536" for v
    using hex_pad_range [of v 4 x] that by simp
  have "(c - 65536) div 1024 < 1024" using c by (auto simp: scalar_def)
  then show ?thesis
    using x hex by (auto simp: escape_char_def Let_def split: if_splits dest!: hex)
qed

section \<open>Properties of the writer\<close>

text \<open>
  In both encodings every string of Unicode characters is written so that a JSON reader gets
  it back, whatever follows: quotes, backslashes, control characters and, with ASCII output,
  characters beyond the basic plane as surrogate pairs.
\<close>

theorem write_string_roundtrip:
  assumes "list_all scalar s"
  shows "read_string (write_string ensure_ascii s @ rest) = Some (s, rest)"
  using read_written_chars [OF assms, of "[]" ensure_ascii rest] by (simp add: read_string_def write_string_def)

theorem write_string_roundtrip_witness: "read_string (write_string True [97, 34, 10, 128512] @ []) = Some ([97, 34, 10, 128512], [])"
  by (rule write_string_roundtrip) (simp add: scalar_def)

end
