(* ===== verification/IndexDb.thy ===== *)
theory IndexDb
  imports Facts PyJson
begin

text \<open>
  The logic index the scanner writes and the query server reads: the tables of its schema as lists of
  rows, in row order.  Text is a list of code points.  The statements of the sources are functions
  on this record; a statement that violates a constraint of the schema has its own error, and the
  statements of the database engine do not fail otherwise.
\<close>

record file_row =
  f_path :: ucs
  f_struct_hash :: ucs
  f_language :: "ucs option"
  f_layer :: "ucs option"
  f_imports :: "ucs option"
  f_kind_hint :: "ucs option"
  f_actual_kind :: "ucs option"
  f_contract_version :: ucs
  f_backend :: ucs
  f_environment :: ucs
  f_import_bindings :: ucs

record symbol_row =
  s_id :: int
  s_file_path :: ucs
  s_name :: ucs
  s_short_name :: "ucs option"
  s_type :: ucs
  s_args :: "ucs option"
  s_lineno :: "int option"
  s_end_lineno :: "int option"
  s_hash :: "ucs option"
  s_bases :: "ucs option"
  s_name_tokens :: ucs

record occurrence_row =
  o_file_path :: ucs
  o_name :: ucs
  o_index :: int
  o_type :: ucs
  o_args :: "ucs option"
  o_lineno :: "int option"
  o_end_lineno :: "int option"
  o_hash :: ucs
  o_is_canonical :: bool
  o_conflict_kind :: ucs
  o_selection_reason :: ucs

record edge_row =
  e_id :: int
  e_source_file :: ucs
  e_caller :: ucs
  e_callee :: ucs
  e_callee_file :: "ucs option"
  e_callee_qualified :: "ucs option"
  e_line :: "int option"
  e_provenance :: "ucs option"
  e_synthesized_from :: "ucs option"
  e_via :: "ucs option"
  e_call_form :: ucs

record candidate_row =
  c_edge_id :: int
  c_qualified :: ucs
  c_score :: int

record pattern_row =
  p_id :: int
  p_file_path :: ucs
  p_type :: ucs
  p_signal_name :: "ucs option"
  p_handler :: "ucs option"
  p_line :: "int option"
  p_metadata :: "ucs option"

record cluster_row =
  cl_id :: int
  cl_name :: ucs
  cl_label :: "ucs option"
  cl_entry_symbols :: ucs
  cl_file_count :: int

record member_row =
  cm_cluster_id :: int
  cm_file_path :: ucs

record summary_row =
  sv_id :: int
  sv_node_kind :: ucs
  sv_node_ref :: ucs
  sv_version :: int
  sv_summary :: "ucs option"
  sv_status :: ucs
  sv_created_at :: ucs

record counter_row =
  nc_node_kind :: ucs
  nc_node_ref :: ucs
  nc_child_changes :: int
  nc_leaf_count :: int

record document_row =
  d_id :: int
  d_node_kind :: ucs
  d_node_ref :: ucs
  d_language :: "ucs option"
  d_symbol_type :: "ucs option"
  d_file_path :: "ucs option"
  d_name :: "ucs option"
  d_name_tokens :: "ucs option"
  d_signature :: "ucs option"
  d_summary_short :: "ucs option"
  d_summary_full :: "ucs option"
  d_content_hash :: ucs
  d_source_version :: "int option"
  d_updated_at :: ucs

text \<open>The last field holds the next value of every AUTOINCREMENT column, which is larger than any value used before.\<close>

record sequences =
  seq_symbols :: int
  seq_edges :: int
  seq_patterns :: int
  seq_clusters :: int
  seq_summaries :: int
  seq_documents :: int

record index_db =
  i_files :: "file_row list"
  i_symbols :: "symbol_row list"
  i_occurrences :: "occurrence_row list"
  i_edges :: "edge_row list"
  i_candidates :: "candidate_row list"
  i_patterns :: "pattern_row list"
  i_clusters :: "cluster_row list"
  i_members :: "member_row list"
  i_summaries :: "summary_row list"
  i_counters :: "counter_row list"
  i_documents :: "document_row list"
  i_meta :: "(ucs \<times> ucs) list"
  i_seq :: sequences

text \<open>The tables of a new index.\<close>

definition empty_index :: index_db where
  "empty_index = \<lparr>i_files = [], i_symbols = [], i_occurrences = [], i_edges = [], i_candidates = [], i_patterns = [], i_clusters = [], i_members = [],
     i_summaries = [], i_counters = [], i_documents = [], i_meta = [],
     i_seq = \<lparr>seq_symbols = 1, seq_edges = 1, seq_patterns = 1, seq_clusters = 1, seq_summaries = 1, seq_documents = 1\<rparr>\<rparr>"

section \<open>Qualified names\<close>

definition SEP :: ucs where "SEP = [58, 58]"

definition qualify :: "ucs \<Rightarrow> ucs \<Rightarrow> ucs" where
  "qualify file_path name = file_path @ SEP @ name"

definition edge_source :: "edge_row \<Rightarrow> ucs" where
  "edge_source e = qualify (e_source_file e) (e_caller e)"

definition symbol_qualified :: "symbol_row \<Rightarrow> ucs" where
  "symbol_qualified s = qualify (s_file_path s) (s_name s)"

text \<open>The text before and after the first occurrence of a separator.\<close>

fun split_once_str :: "ucs \<Rightarrow> ucs \<Rightarrow> (ucs \<times> ucs) option" where
  "split_once_str sep [] = (if sep = [] then Some ([], []) else None)"
| "split_once_str sep (c # cs) =
     (if starts_with sep (c # cs) then Some ([], drop (length sep) (c # cs))
      else map_option (\<lambda>(a, b). (c # a, b)) (split_once_str sep cs))"

fun contains_ucs :: "ucs \<Rightarrow> ucs \<Rightarrow> bool" where
  "contains_ucs [] needle = (needle = [])"
| "contains_ucs (c # cs) needle = (starts_with needle (c # cs) \<or> contains_ucs cs needle)"

definition symbol_named :: "ucs \<Rightarrow> symbol_row \<Rightarrow> bool" where
  "symbol_named n s \<longleftrightarrow> s_name s = n \<or> s_short_name s = Some n"

definition str_of_int :: "int \<Rightarrow> ucs" where
  "str_of_int i = lit (int_to_string i)"

definition str_of_nat :: "nat \<Rightarrow> ucs" where
  "str_of_nat n = lit (nat_digits n)"

text \<open>The part of a path after its last separator.\<close>

definition rsplit_last :: "nat \<Rightarrow> ucs \<Rightarrow> ucs" where
  "rsplit_last c s = rev (takeWhile (\<lambda>x. x \<noteq> c) (rev s))"

section \<open>Facts\<close>

lemma split_once_str_Some: "split_once_str sep s = Some (a, b) \<Longrightarrow> s = a @ sep @ b"
proof (induction sep s arbitrary: a b rule: split_once_str.induct)
  case (2 sep c cs)
  show ?case
  proof (cases "starts_with sep (c # cs)")
    case True
    then show ?thesis using 2 by (auto simp: starts_with_append)
  next
    case False
    then obtain a' where "split_once_str sep cs = Some (a', b)" "a = c # a'" using 2 by auto
    then show ?thesis using 2 False by auto
  qed
qed (auto split: if_splits)

lemma split_once_str_sep: "split_once_str sep (a @ sep @ b) \<noteq> None"
proof (induction a)
  case Nil
  show ?case by (cases "sep @ b"; cases sep) (auto simp: starts_with_append)
next
  case (Cons c a)
  then show ?case by auto
qed

lemma split_once_qualify: "split_once_str SEP (qualify f n) = Some (a, b) \<Longrightarrow> qualify a b = qualify f n"
  using split_once_str_Some by (fastforce simp: qualify_def)

text \<open>A file path without the separator is found again from a qualified name.\<close>

lemma split_once_qualify_plain:
  assumes "58 \<notin> set f"
  shows "split_once_str SEP (qualify f n) = Some (f, n)"
  using assms by (induction f) (auto simp: qualify_def SEP_def starts_with_def)

end
