(* ===== verification/Projection.thy ===== *)
theory Projection
  imports IndexDb
begin

text \<open>
  The projection of nodes into search documents, \<^verbatim>\<open>remy-cc/scanner-core/src/projection.rs\<close>: the choice
  of the current summary of a node, the document of a node, its refresh and its removal, and the
  marking of a summary as stale.  The reader of the query server, \<^verbatim>\<open>get_latest_summary\<close> of
  \<^verbatim>\<open>remy-cc/src/mcp/common.rs\<close>, walks the same versions.  The decoder of JSON text, the digests and
  the clock are parameters; the clock is a function of the database it is read in.
\<close>

record index_env =
  ie_parse :: "ucs \<Rightarrow> ucs json_value option"
  ie_sha256 :: "ucs \<Rightarrow> ucs"
  ie_md5 :: "ucs \<Rightarrow> ucs"
  ie_now :: "index_db \<Rightarrow> ucs"

section \<open>Summaries\<close>

definition AVAILABLE_STATUSES :: "ucs list" where "AVAILABLE_STATUSES = [lit ''ok'', lit ''oversized_warn'']"
definition SKIPPABLE_STATUSES :: "ucs list" where "SKIPPABLE_STATUSES = [lit ''pending'', lit ''corrupt'', lit ''oversized_hard'']"
definition BARRIER_STATUS :: ucs where "BARRIER_STATUS = lit ''stale''"

record CurrentSummary =
  cs_id :: "int option"
  cs_version :: "int option"
  cs_short :: "ucs option"
  cs_full :: "ucs option"

definition no_summary :: CurrentSummary where
  "no_summary = \<lparr>cs_id = None, cs_version = None, cs_short = None, cs_full = None\<rparr>"

text \<open>The versions of a node, newest first.\<close>

definition versions_desc :: "ucs \<Rightarrow> ucs \<Rightarrow> index_db \<Rightarrow> summary_row list" where
  "versions_desc node_kind node_ref db =
     rev (sort_key sv_version (filter (\<lambda>r. sv_node_kind r = node_kind \<and> sv_node_ref r = node_ref) (i_summaries db)))"

text \<open>The short and the full text of a payload; a blank short text makes the payload unusable.\<close>

definition summary_payload :: "index_env \<Rightarrow> summary_row \<Rightarrow> (ucs \<times> ucs option) option" where
  "summary_payload e r =
     (case Option.bind (Option.bind (sv_summary r) (ie_parse e)) as_object of None \<Rightarrow> None
      | Some payload \<Rightarrow>
          (case Option.bind (map_of payload (lit ''short'')) as_str of None \<Rightarrow> None
           | Some short \<Rightarrow>
               if ucs_trim short = [] then None
               else Some (short, Option.bind (map_of payload (lit ''full'')) as_str)))"

fun walk_summaries :: "index_env \<Rightarrow> summary_row list \<Rightarrow> CurrentSummary" where
  "walk_summaries e [] = no_summary"
| "walk_summaries e (r # rs) =
     (if sv_status r = BARRIER_STATUS then no_summary
      else if sv_status r \<in> set SKIPPABLE_STATUSES then walk_summaries e rs
      else if sv_status r \<notin> set AVAILABLE_STATUSES then walk_summaries e rs
      else case summary_payload e r of None \<Rightarrow> walk_summaries e rs
        | Some (short, full) \<Rightarrow> \<lparr>cs_id = Some (sv_id r), cs_version = Some (sv_version r), cs_short = Some short, cs_full = full\<rparr>)"

definition select_current_summary :: "index_env \<Rightarrow> ucs \<Rightarrow> ucs \<Rightarrow> index_db \<Rightarrow> CurrentSummary" where
  "select_current_summary e node_kind node_ref db = walk_summaries e (versions_desc node_kind node_ref db)"

text \<open>The reader of the query server.\<close>

record Summary =
  su_short :: "ucs option"
  su_full :: "ucs option"
  su_status :: "ucs option"

fun walk_latest :: "index_env \<Rightarrow> ucs option \<Rightarrow> summary_row list \<Rightarrow> Summary option" where
  "walk_latest e latest_status [] = map_option (\<lambda>s. \<lparr>su_short = None, su_full = None, su_status = Some s\<rparr>) latest_status"
| "walk_latest e latest_status (r # rs) =
     (if sv_status r = BARRIER_STATUS then Some \<lparr>su_short = None, su_full = None, su_status = Some BARRIER_STATUS\<rparr>
      else if sv_status r \<in> set SKIPPABLE_STATUSES then walk_latest e latest_status rs
      else if sv_status r \<notin> set AVAILABLE_STATUSES then walk_latest e latest_status rs
      else case summary_payload e r of None \<Rightarrow> walk_latest e latest_status rs
        | Some (short, full) \<Rightarrow> Some \<lparr>su_short = Some short, su_full = full, su_status = Some (sv_status r)\<rparr>)"

definition get_latest_summary :: "index_env \<Rightarrow> ucs \<Rightarrow> ucs \<Rightarrow> index_db \<Rightarrow> Summary option" where
  "get_latest_summary e node_kind node_ref db =
     (let rows = versions_desc node_kind node_ref db
      in walk_latest e (case rows of [] \<Rightarrow> None | r # _ \<Rightarrow> Some (sv_status r)) rows)"

section \<open>Documents\<close>

record FactDocument =
  fd_language :: "ucs option"
  fd_symbol_type :: "ucs option"
  fd_file_path :: "ucs option"
  fd_name :: "ucs option"
  fd_name_tokens :: "ucs option"
  fd_signature :: "ucs option"

definition spaced :: "ucs \<Rightarrow> ucs" where
  "spaced s = map (\<lambda>c. if c = 47 \<or> c = 95 then 32 else c) s"

definition file_at :: "index_db \<Rightarrow> ucs \<Rightarrow> file_row option" where
  "file_at db path = find (\<lambda>f. f_path f = path) (i_files db)"

text \<open>The first row of the join of symbols and files that meets a condition on the symbol.\<close>

definition symbol_fact :: "index_db \<Rightarrow> (symbol_row \<Rightarrow> bool) \<Rightarrow> FactDocument option" where
  "symbol_fact db P =
     (case find (\<lambda>s. P s \<and> file_at db (s_file_path s) \<noteq> None) (i_symbols db) of None \<Rightarrow> None
      | Some s \<Rightarrow> Some \<lparr>fd_language = Option.bind (file_at db (s_file_path s)) f_language, fd_symbol_type = Some (s_type s),
          fd_file_path = Some (s_file_path s), fd_name = Some (s_name s), fd_name_tokens = Some (s_name_tokens s),
          fd_signature = s_args s\<rparr>)"

definition symbol_document :: "ucs \<Rightarrow> index_db \<Rightarrow> FactDocument option" where
  "symbol_document node_ref db =
     (let first = (case split_once_str SEP node_ref of None \<Rightarrow> None
         | Some (file_path, name) \<Rightarrow> symbol_fact db (\<lambda>s. s_file_path s = file_path \<and> s_name s = name))
      in case first of Some d \<Rightarrow> Some d | None \<Rightarrow> symbol_fact db (\<lambda>s. symbol_qualified s = node_ref))"

definition file_document :: "ucs \<Rightarrow> index_db \<Rightarrow> FactDocument option" where
  "file_document node_ref db =
     map_option (\<lambda>f. \<lparr>fd_language = f_language f, fd_symbol_type = None, fd_file_path = Some (f_path f),
        fd_name = Some (rsplit_last 47 (f_path f)), fd_name_tokens = Some (spaced (f_path f)), fd_signature = None\<rparr>) (file_at db node_ref)"

definition cluster_document :: "ucs \<Rightarrow> index_db \<Rightarrow> FactDocument option" where
  "cluster_document node_ref db =
     map_option (\<lambda>c. \<lparr>fd_language = None, fd_symbol_type = None, fd_file_path = None,
        fd_name = Some (case cl_label c of None \<Rightarrow> cl_name c | Some l \<Rightarrow> l), fd_name_tokens = Some (spaced (cl_name c)), fd_signature = None\<rparr>)
       (find (\<lambda>c. cl_name c = node_ref) (i_clusters db))"

definition load_fact_document :: "ucs \<Rightarrow> ucs \<Rightarrow> index_db \<Rightarrow> FactDocument option" where
  "load_fact_document node_kind node_ref db =
     (if node_kind = lit ''symbol'' then symbol_document node_ref db
      else if node_kind = lit ''file'' then file_document node_ref db
      else if node_kind = lit ''cluster'' then cluster_document node_ref db
      else None)"

definition optional :: "ucs option \<Rightarrow> ucs json_value" where
  "optional v = (case v of Some text \<Rightarrow> JString text | None \<Rightarrow> JNull)"

definition document_hash :: "index_env \<Rightarrow> ucs \<Rightarrow> ucs \<Rightarrow> FactDocument \<Rightarrow> CurrentSummary \<Rightarrow> ucs" where
  "document_hash e node_kind node_ref d summary =
     ie_sha256 e (dumps_identity (JObject
       [(lit ''node_kind'', JString node_kind), (lit ''node_ref'', JString node_ref), (lit ''language'', optional (fd_language d)),
        (lit ''symbol_type'', optional (fd_symbol_type d)), (lit ''file_path'', optional (fd_file_path d)),
        (lit ''name'', optional (fd_name d)), (lit ''name_tokens'', optional (fd_name_tokens d)),
        (lit ''signature'', optional (fd_signature d)), (lit ''summary_short'', optional (cs_short summary)),
        (lit ''summary_full'', optional (cs_full summary))]))"

definition is_node :: "ucs \<Rightarrow> ucs \<Rightarrow> document_row \<Rightarrow> bool" where
  "is_node node_kind node_ref r \<longleftrightarrow> d_node_kind r = node_kind \<and> d_node_ref r = node_ref"

definition delete_node :: "ucs \<Rightarrow> ucs \<Rightarrow> index_db \<Rightarrow> index_db" where
  "delete_node node_kind node_ref db = db\<lparr>i_documents := filter (\<lambda>r. \<not> is_node node_kind node_ref r) (i_documents db)\<rparr>"

text \<open>The columns a refresh sets.\<close>

definition fill_document :: "index_env \<Rightarrow> FactDocument \<Rightarrow> CurrentSummary \<Rightarrow> ucs \<Rightarrow> document_row \<Rightarrow> document_row" where
  "fill_document e d summary updated_at r =
     r\<lparr>d_language := fd_language d, d_symbol_type := fd_symbol_type d, d_file_path := fd_file_path d, d_name := fd_name d,
       d_name_tokens := fd_name_tokens d, d_signature := fd_signature d, d_summary_short := cs_short summary,
       d_summary_full := cs_full summary, d_content_hash := document_hash e (d_node_kind r) (d_node_ref r) d summary,
       d_source_version := cs_version summary, d_updated_at := updated_at\<rparr>"

definition new_document :: "int \<Rightarrow> ucs \<Rightarrow> ucs \<Rightarrow> document_row" where
  "new_document k node_kind node_ref =
     \<lparr>d_id = k, d_node_kind = node_kind, d_node_ref = node_ref, d_language = None, d_symbol_type = None, d_file_path = None,
      d_name = None, d_name_tokens = None, d_signature = None, d_summary_short = None, d_summary_full = None,
      d_content_hash = [], d_source_version = None, d_updated_at = []\<rparr>"

definition refresh_node :: "index_env \<Rightarrow> ucs \<Rightarrow> ucs \<Rightarrow> index_db \<Rightarrow> index_db" where
  "refresh_node e node_kind node_ref db =
     (case load_fact_document node_kind node_ref db of None \<Rightarrow> delete_node node_kind node_ref db
      | Some d \<Rightarrow>
          let fill = fill_document e d (select_current_summary e node_kind node_ref db) (ie_now e db)
          in if list_ex (is_node node_kind node_ref) (i_documents db)
             then db\<lparr>i_documents := update_where (is_node node_kind node_ref) fill (i_documents db)\<rparr>
             else db\<lparr>i_documents := i_documents db @ [fill (new_document (seq_documents (i_seq db)) node_kind node_ref)],
                    i_seq := (i_seq db)\<lparr>seq_documents := seq_documents (i_seq db) + 1\<rparr>\<rparr>)"

definition delete_file_nodes :: "ucs \<Rightarrow> ucs list \<Rightarrow> index_db \<Rightarrow> index_db" where
  "delete_file_nodes file_path symbol_refs db = delete_node (lit ''file'') file_path (fold (delete_node (lit ''symbol'')) symbol_refs db)"

definition mark_current_summary_stale :: "index_env \<Rightarrow> ucs \<Rightarrow> ucs \<Rightarrow> index_db \<Rightarrow> bool \<times> index_db" where
  "mark_current_summary_stale e node_kind node_ref db =
     (case cs_id (select_current_summary e node_kind node_ref db) of
        None \<Rightarrow> (False, refresh_node e node_kind node_ref db)
      | Some summary_id \<Rightarrow>
          (True, refresh_node e node_kind node_ref
             (db\<lparr>i_summaries := update_where (\<lambda>r. sv_id r = summary_id) (\<lambda>r. r\<lparr>sv_status := BARRIER_STATUS\<rparr>) (i_summaries db)\<rparr>)))"

section \<open>The row that decides\<close>

text \<open>Both walks stop at the first row that is stale or usable.\<close>

definition usable :: "index_env \<Rightarrow> summary_row \<Rightarrow> bool" where
  "usable e r \<longleftrightarrow> sv_status r \<in> set AVAILABLE_STATUSES \<and> summary_payload e r \<noteq> None"

definition decisive :: "index_env \<Rightarrow> summary_row \<Rightarrow> bool" where
  "decisive e r \<longleftrightarrow> sv_status r = BARRIER_STATUS \<or> usable e r"

definition summary_of :: "index_env \<Rightarrow> summary_row \<Rightarrow> CurrentSummary" where
  "summary_of e r =
     (case summary_payload e r of None \<Rightarrow> no_summary
      | Some (short, full) \<Rightarrow>
          if sv_status r = BARRIER_STATUS then no_summary
          else \<lparr>cs_id = Some (sv_id r), cs_version = Some (sv_version r), cs_short = Some short, cs_full = full\<rparr>)"

lemma statuses_disjoint:
  "t \<in> set AVAILABLE_STATUSES \<Longrightarrow> t \<notin> set SKIPPABLE_STATUSES" "t \<in> set AVAILABLE_STATUSES \<Longrightarrow> t \<noteq> BARRIER_STATUS"
  by (auto simp: AVAILABLE_STATUSES_def SKIPPABLE_STATUSES_def BARRIER_STATUS_def lit_def)

lemma walk_summaries_find:
  "walk_summaries e rs = (case find (decisive e) rs of None \<Rightarrow> no_summary | Some r \<Rightarrow> summary_of e r)"
proof (induction rs)
  case (Cons r rs)
  consider "sv_status r = BARRIER_STATUS" | "sv_status r \<noteq> BARRIER_STATUS" "sv_status r \<notin> set AVAILABLE_STATUSES"
    | "sv_status r \<in> set AVAILABLE_STATUSES" by blast
  then show ?case
    using Cons statuses_disjoint [of "sv_status r"]
    by cases (auto simp: decisive_def usable_def summary_of_def split: option.splits)
qed simp

lemma walk_latest_find:
  "walk_latest e latest rs =
     (case find (decisive e) rs of None \<Rightarrow> map_option (\<lambda>s. \<lparr>su_short = None, su_full = None, su_status = Some s\<rparr>) latest
      | Some r \<Rightarrow> Some \<lparr>su_short = cs_short (summary_of e r), su_full = cs_full (summary_of e r), su_status = Some (sv_status r)\<rparr>)"
proof (induction rs)
  case (Cons r rs)
  consider "sv_status r = BARRIER_STATUS" | "sv_status r \<noteq> BARRIER_STATUS" "sv_status r \<notin> set AVAILABLE_STATUSES"
    | "sv_status r \<in> set AVAILABLE_STATUSES" by blast
  then show ?case
    using Cons statuses_disjoint [of "sv_status r"]
    by cases (auto simp: decisive_def usable_def summary_of_def no_summary_def split: option.splits)
qed simp

lemma find_newest:
  assumes "distinct (map k xs)"
  shows "find P (rev (sort_key k xs)) = Some r \<longleftrightarrow> r \<in> set xs \<and> P r \<and> (\<forall>r' \<in> set xs. P r' \<longrightarrow> k r' \<le> (k r :: int))"
proof -
  have sorted: "sorted_wrt (\<lambda>a b. k b \<le> k a) (rev (sort_key k xs))"
    using sorted_sort_key [of k xs] by (simp add: sorted_map sorted_wrt_rev)
  have first: "find P ys = Some r \<Longrightarrow> sorted_wrt (\<lambda>a b. k b \<le> k a) ys \<Longrightarrow> r' \<in> set ys \<Longrightarrow> P r' \<Longrightarrow> k r' \<le> k r" for ys r r'
    by (induction ys) (auto split: if_splits dest: find_Some_iff_mem)
  show ?thesis
  proof
    assume "find P (rev (sort_key k xs)) = Some r"
    then show "r \<in> set xs \<and> P r \<and> (\<forall>r' \<in> set xs. P r' \<longrightarrow> k r' \<le> k r)"
      using find_Some_iff_mem [of P _ r] first sorted by fastforce
  next
    assume r: "r \<in> set xs \<and> P r \<and> (\<forall>r' \<in> set xs. P r' \<longrightarrow> k r' \<le> k r)"
    then obtain q where q: "find P (rev (sort_key k xs)) = Some q"
      by (cases "find P (rev (sort_key k xs))") (auto simp: find_None_mem)
    then have "q \<in> set xs" "P q" using find_Some_iff_mem [OF q] by auto
    moreover have "k r \<le> k q" using first [OF q sorted] r by simp
    ultimately have "q = r" using r assms by (auto simp: distinct_map inj_on_def)
    then show "find P (rev (sort_key k xs)) = Some r" using q by simp
  qed
qed

definition node_rows :: "ucs \<Rightarrow> ucs \<Rightarrow> index_db \<Rightarrow> summary_row list" where
  "node_rows node_kind node_ref db = filter (\<lambda>r. sv_node_kind r = node_kind \<and> sv_node_ref r = node_ref) (i_summaries db)"

lemma versions_desc_rows: "versions_desc node_kind node_ref db = rev (sort_key sv_version (node_rows node_kind node_ref db))"
  by (simp add: versions_desc_def node_rows_def)

text \<open>The newest deciding row gives the current summary.\<close>

lemma current_from_newest:
  assumes "distinct (map sv_version (node_rows node_kind node_ref db))" "r \<in> set (node_rows node_kind node_ref db)" "decisive e r"
    and "\<forall>r' \<in> set (node_rows node_kind node_ref db). decisive e r' \<longrightarrow> sv_version r' \<le> sv_version r"
  shows "select_current_summary e node_kind node_ref db = summary_of e r"
proof -
  have "find (decisive e) (versions_desc node_kind node_ref db) = Some r"
    unfolding versions_desc_rows using find_newest [OF assms(1)] assms(2-4) by blast
  then show ?thesis by (simp add: select_current_summary_def walk_summaries_find)
qed

lemma current_none:
  assumes "\<forall>r \<in> set (node_rows node_kind node_ref db). \<not> decisive e r"
  shows "select_current_summary e node_kind node_ref db = no_summary"
proof -
  have "find (decisive e) (versions_desc node_kind node_ref db) = None"
    unfolding versions_desc_rows using assms by (auto simp: find_None_mem)
  then show ?thesis by (simp add: select_current_summary_def walk_summaries_find)
qed

text \<open>
  C12.  The summary the scanner projects and the one the query server shows are the same, in both texts, for
  every node; it is the newest usable version, unless a stale version is as new, and then there is none.
\<close>

theorem summary_readers_agree:
  assumes "distinct (map sv_version (node_rows node_kind node_ref db))"
  shows "map_option (\<lambda>s. (su_short s, su_full s)) (get_latest_summary e node_kind node_ref db) =
      (if node_rows node_kind node_ref db = [] then None
       else Some (cs_short (select_current_summary e node_kind node_ref db), cs_full (select_current_summary e node_kind node_ref db))) \<and>
    (cs_id (select_current_summary e node_kind node_ref db) = Some k \<longleftrightarrow>
      (\<exists>r \<in> set (node_rows node_kind node_ref db). sv_id r = k \<and> usable e r \<and>
         (\<forall>r' \<in> set (node_rows node_kind node_ref db). usable e r' \<or> sv_status r' = BARRIER_STATUS \<longrightarrow> sv_version r' \<le> sv_version r)))"
proof (cases "find (decisive e) (versions_desc node_kind node_ref db)")
  case None
  have "rev (sort_key sv_version (node_rows node_kind node_ref db)) = [] \<longleftrightarrow> node_rows node_kind node_ref db = []"
    by (metis rev_is_Nil_conv set_empty set_sort)
  moreover have "\<forall>r \<in> set (node_rows node_kind node_ref db). \<not> decisive e r"
    using None by (auto simp: versions_desc_rows find_None_mem)
  ultimately show ?thesis
    using None by (auto simp: get_latest_summary_def select_current_summary_def walk_summaries_find walk_latest_find Let_def no_summary_def
        versions_desc_rows decisive_def split: list.splits)
next
  case (Some r)
  have r: "r \<in> set (node_rows node_kind node_ref db)" "decisive e r"
    "\<forall>r' \<in> set (node_rows node_kind node_ref db). decisive e r' \<longrightarrow> sv_version r' \<le> sv_version r"
    using Some find_newest [OF assms, of "decisive e" r] by (auto simp: versions_desc_rows)
  have ne: "node_rows node_kind node_ref db \<noteq> []" using r(1) by auto
  have "cs_id (summary_of e r) = Some k \<longleftrightarrow> usable e r \<and> sv_id r = k"
    using r(2) statuses_disjoint [of "sv_status r"]
    by (auto simp: summary_of_def decisive_def usable_def no_summary_def split: option.splits)
  moreover have "(\<exists>q \<in> set (node_rows node_kind node_ref db). sv_id q = k \<and> usable e q \<and>
      (\<forall>r' \<in> set (node_rows node_kind node_ref db). usable e r' \<or> sv_status r' = BARRIER_STATUS \<longrightarrow> sv_version r' \<le> sv_version q)) \<longleftrightarrow>
      usable e r \<and> sv_id r = k" (is "?L \<longleftrightarrow> _")
  proof
    assume ?L
    then obtain q where q: "q \<in> set (node_rows node_kind node_ref db)" "sv_id q = k" "usable e q"
      "\<forall>r' \<in> set (node_rows node_kind node_ref db). usable e r' \<or> sv_status r' = BARRIER_STATUS \<longrightarrow> sv_version r' \<le> sv_version q" by blast
    have "sv_version r \<le> sv_version q" using q(4) r(1,2) by (auto simp: decisive_def)
    moreover have "sv_version q \<le> sv_version r" using r(3) q(1,3) by (auto simp: decisive_def)
    ultimately have "q = r" using q(1) r(1) assms by (auto simp: distinct_map inj_on_def)
    then show "usable e r \<and> sv_id r = k" using q by simp
  qed (use r in \<open>auto simp: decisive_def\<close>)
  ultimately show ?thesis
    using Some ne by (simp add: get_latest_summary_def select_current_summary_def walk_summaries_find walk_latest_find Let_def)
qed


section \<open>Documents mirror the facts\<close>

definition plain_document :: "document_row \<Rightarrow> document_row" where
  "plain_document r = r\<lparr>d_id := 0, d_updated_at := []\<rparr>"

text \<open>The documents of a node, up to their number and their time: one when the index has the node, none otherwise.\<close>

definition expected_documents :: "index_env \<Rightarrow> ucs \<Rightarrow> ucs \<Rightarrow> index_db \<Rightarrow> document_row list" where
  "expected_documents e node_kind node_ref db =
     (case load_fact_document node_kind node_ref db of None \<Rightarrow> []
      | Some d \<Rightarrow> [fill_document e d (select_current_summary e node_kind node_ref db) [] (new_document 0 node_kind node_ref)])"

definition node_documents :: "ucs \<Rightarrow> ucs \<Rightarrow> index_db \<Rightarrow> document_row list" where
  "node_documents node_kind node_ref db = filter (is_node node_kind node_ref) (i_documents db)"

definition mirrored :: "index_env \<Rightarrow> ucs \<Rightarrow> ucs \<Rightarrow> index_db \<Rightarrow> bool" where
  "mirrored e node_kind node_ref db \<longleftrightarrow>
     map plain_document (node_documents node_kind node_ref db) = expected_documents e node_kind node_ref db"

lemma delete_node_frame [simp]:
  "i_files (delete_node k n db) = i_files db" "i_symbols (delete_node k n db) = i_symbols db"
  "i_occurrences (delete_node k n db) = i_occurrences db" "i_edges (delete_node k n db) = i_edges db"
  "i_candidates (delete_node k n db) = i_candidates db" "i_patterns (delete_node k n db) = i_patterns db"
  "i_clusters (delete_node k n db) = i_clusters db" "i_summaries (delete_node k n db) = i_summaries db"
  "i_seq (delete_node k n db) = i_seq db"
  by (simp_all add: delete_node_def)

lemma refresh_node_frame [simp]:
  "i_files (refresh_node e k n db) = i_files db" "i_symbols (refresh_node e k n db) = i_symbols db"
  "i_occurrences (refresh_node e k n db) = i_occurrences db" "i_edges (refresh_node e k n db) = i_edges db"
  "i_candidates (refresh_node e k n db) = i_candidates db" "i_patterns (refresh_node e k n db) = i_patterns db"
  "i_clusters (refresh_node e k n db) = i_clusters db" "i_summaries (refresh_node e k n db) = i_summaries db"
  "seq_summaries (i_seq (refresh_node e k n db)) = seq_summaries (i_seq db)" "seq_edges (i_seq (refresh_node e k n db)) = seq_edges (i_seq db)"
  by (simp_all add: refresh_node_def Let_def split: option.splits)

lemma is_node_fill [simp]: "is_node k n (fill_document e d c t r) = is_node k n r"
  by (simp add: is_node_def fill_document_def)

lemma is_node_new [simp]: "is_node k n (new_document i k' n') \<longleftrightarrow> k' = k \<and> n' = n"
  by (simp add: is_node_def new_document_def)

lemma node_documents_delete:
  "node_documents k n (delete_node k' n' db) = (if k = k' \<and> n = n' then [] else node_documents k n db)"
proof -
  have "is_node k n r \<Longrightarrow> is_node k' n' r \<Longrightarrow> k = k' \<and> n = n'" for r by (auto simp: is_node_def)
  then show ?thesis by (auto simp: node_documents_def delete_node_def filter_empty_conv intro!: filter_cong)
qed

lemma node_documents_refresh_other:
  assumes "(k', n') \<noteq> (k, n)"
  shows "node_documents k' n' (refresh_node e k n db) = node_documents k' n' db"
proof (cases "load_fact_document k n db")
  case None
  then show ?thesis using assms by (auto simp: refresh_node_def node_documents_delete)
next
  case (Some d)
  have out: "is_node k' n' r \<Longrightarrow> \<not> is_node k n r" for r using assms by (auto simp: is_node_def)
  have "filter (is_node k' n') (update_where (is_node k n) (fill_document e d c t) rs) = filter (is_node k' n') rs" for c t rs
    by (induction rs) (use out in \<open>auto simp: update_where_def\<close>)
  then show ?thesis using Some assms by (auto simp: refresh_node_def node_documents_def Let_def)
qed

text \<open>A node has at most one document.\<close>

definition unique_documents :: "index_db \<Rightarrow> bool" where
  "unique_documents db \<longleftrightarrow> distinct (map (\<lambda>r. (d_node_kind r, d_node_ref r)) (i_documents db))"

lemma unique_documents_node:
  assumes "unique_documents db"
  obtains "node_documents k n db = []" | r where "node_documents k n db = [r]" "is_node k n r"
proof -
  have "distinct (map (\<lambda>r. (d_node_kind r, d_node_ref r)) rs) \<Longrightarrow> length (filter (is_node k n) rs) \<le> 1" for rs
  proof (induction rs)
    case (Cons r rs)
    show ?case
    proof (cases "is_node k n r")
      case True
      then have "(k, n) \<notin> (\<lambda>r. (d_node_kind r, d_node_ref r)) ` set rs" using Cons.prems by (auto simp: is_node_def)
      then have "filter (is_node k n) rs = []" by (auto simp: is_node_def filter_empty_conv)
      then show ?thesis by simp
    qed (use Cons in simp)
  qed simp
  then have len: "length (node_documents k n db) \<le> 1" using assms by (simp add: unique_documents_def node_documents_def)
  show thesis
  proof (cases "node_documents k n db")
    case (Cons r rs)
    then have "node_documents k n db = [r]" using len by simp
    moreover have "is_node k n r" using Cons by (metis filter_eq_Cons_iff node_documents_def)
    ultimately show ?thesis by (rule that(2))
  qed (rule that(1))
qed

lemma fill_plain:
  assumes "is_node k n r"
  shows "plain_document (fill_document e d c t r) = fill_document e d c [] (new_document 0 k n)"
  using assms by (cases r) (auto simp: plain_document_def fill_document_def new_document_def is_node_def)

lemma facts_cong:
  assumes "i_files db' = i_files db" "i_symbols db' = i_symbols db" "i_clusters db' = i_clusters db" "i_summaries db' = i_summaries db"
  shows "load_fact_document k n db' = load_fact_document k n db" "select_current_summary e k n db' = select_current_summary e k n db"
    "expected_documents e k n db' = expected_documents e k n db"
proof -
  show "load_fact_document k n db' = load_fact_document k n db"
    unfolding load_fact_document_def symbol_document_def file_document_def cluster_document_def symbol_fact_def file_at_def assms ..
  moreover show "select_current_summary e k n db' = select_current_summary e k n db"
    by (simp add: select_current_summary_def versions_desc_def assms)
  ultimately show "expected_documents e k n db' = expected_documents e k n db" by (simp add: expected_documents_def split: option.split)
qed

lemma expected_refresh [simp]: "expected_documents e k n (refresh_node e k' n' db) = expected_documents e k n db"
  "expected_documents e k n (delete_node k' n' db) = expected_documents e k n db"
  by (rule facts_cong(3); simp)+

lemma refresh_node_mirrored:
  assumes "unique_documents db"
  shows "mirrored e k n (refresh_node e k n db)"
proof (cases "load_fact_document k n db")
  case None
  then have "expected_documents e k n db = []" "refresh_node e k n db = delete_node k n db"
    by (simp_all add: expected_documents_def refresh_node_def)
  then show ?thesis by (simp add: mirrored_def node_documents_delete)
next
  case (Some d)
  let ?c = "select_current_summary e k n db"
  have ex: "list_ex (is_node k n) (i_documents db) \<longleftrightarrow> node_documents k n db \<noteq> []"
    by (auto simp: list_ex_iff node_documents_def filter_empty_conv)
  have upd: "filter (is_node k n) (update_where (is_node k n) (fill_document e d c t) rs) = map (fill_document e d c t) (filter (is_node k n) rs)" for c t rs
    by (induction rs) (auto simp: update_where_def)
  show ?thesis
    using assms
  proof (cases rule: unique_documents_node [of db k n])
    case 1
    then have "node_documents k n (refresh_node e k n db) = [fill_document e d ?c (ie_now e db) (new_document (seq_documents (i_seq db)) k n)]"
      using Some ex by (auto simp: refresh_node_def node_documents_def Let_def)
    then show ?thesis unfolding mirrored_def expected_refresh using Some by (simp add: expected_documents_def fill_plain [of k n])
  next
    case (2 r)
    then have "node_documents k n (refresh_node e k n db) = [fill_document e d ?c (ie_now e db) r]"
      using Some ex by (auto simp: refresh_node_def node_documents_def Let_def upd)
    then show ?thesis unfolding mirrored_def expected_refresh using Some 2 by (simp add: expected_documents_def fill_plain [of k n])
  qed
qed

lemma unique_refresh:
  assumes "unique_documents db"
  shows "unique_documents (refresh_node e k n db)" "unique_documents (delete_node k n db)"
proof -
  show del: "unique_documents (delete_node k n db)"
    using assms by (simp add: unique_documents_def delete_node_def distinct_map_filter)
  have "map (\<lambda>r. (d_node_kind r, d_node_ref r)) (update_where P (fill_document e d c t) rs) = map (\<lambda>r. (d_node_kind r, d_node_ref r)) rs" for P d c t rs
    by (auto simp: update_where_def fill_document_def)
  then show "unique_documents (refresh_node e k n db)"
    using assms del by (auto simp: refresh_node_def unique_documents_def Let_def list_ex_iff is_node_def fill_document_def new_document_def split: option.splits)
qed


section \<open>Stale summaries\<close>

text \<open>The constraints on the table of summaries: its key, its unique columns, and the counter of its key.\<close>

definition summaries_ok :: "index_db \<Rightarrow> bool" where
  "summaries_ok db \<longleftrightarrow> distinct (map sv_id (i_summaries db)) \<and>
     distinct (map (\<lambda>r. (sv_node_kind r, sv_node_ref r, sv_version r)) (i_summaries db)) \<and>
     list_all (\<lambda>r. sv_id r < seq_summaries (i_seq db)) (i_summaries db)"

lemma node_versions_distinct: "summaries_ok db \<Longrightarrow> distinct (map sv_version (node_rows k n db))"
  unfolding summaries_ok_def node_rows_def
  by (auto simp: distinct_map inj_on_def)

lemma sort_key_map_keep: "(\<And>x. k (f x) = k x) \<Longrightarrow> sort_key k (map f xs) = map f (sort_key k xs)"
proof (induction xs)
  case (Cons x xs)
  have "insort_key k (f x) (map f ys) = map f (insort_key k x ys)" for ys
    using Cons.prems by (induction ys) auto
  then show ?case using Cons by simp
qed simp

definition stale_row :: "int \<Rightarrow> summary_row \<Rightarrow> summary_row" where
  "stale_row i r = (if sv_id r = i then r\<lparr>sv_status := BARRIER_STATUS\<rparr> else r)"

lemma stale_row_simps [simp]:
  "sv_id (stale_row i r) = sv_id r" "sv_version (stale_row i r) = sv_version r" "sv_node_kind (stale_row i r) = sv_node_kind r"
  "sv_node_ref (stale_row i r) = sv_node_ref r"
  by (simp_all add: stale_row_def)

definition with_stale :: "int \<Rightarrow> index_db \<Rightarrow> index_db" where
  "with_stale i db = db\<lparr>i_summaries := map (stale_row i) (i_summaries db)\<rparr>"

lemma mark_stale_eq:
  "snd (mark_current_summary_stale e k n db) =
     (case cs_id (select_current_summary e k n db) of None \<Rightarrow> refresh_node e k n db | Some i \<Rightarrow> refresh_node e k n (with_stale i db))"
  by (simp add: mark_current_summary_stale_def with_stale_def update_where_def stale_row_def [abs_def] split: option.split)

lemma versions_desc_stale: "versions_desc k n (with_stale i db) = map (stale_row i) (versions_desc k n db)"
  by (simp add: versions_desc_def with_stale_def filter_map comp_def sort_key_map_keep rev_map)

lemma cs_id_None: "cs_id (select_current_summary e k n db) = None \<Longrightarrow> select_current_summary e k n db = no_summary"
  by (auto simp: select_current_summary_def walk_summaries_find summary_of_def split: option.splits if_splits)

lemma cs_id_Some:
  assumes "cs_id (select_current_summary e k n db) = Some i"
  obtains r where "find (decisive e) (versions_desc k n db) = Some r" "sv_id r = i" "r \<in> set (i_summaries db)" "sv_node_kind r = k" "sv_node_ref r = n"
proof -
  obtain r where r: "find (decisive e) (versions_desc k n db) = Some r" "sv_id r = i"
    using assms by (auto simp: select_current_summary_def walk_summaries_find summary_of_def no_summary_def split: option.splits if_splits)
  then show thesis using that find_Some_iff_mem [OF r(1)] by (auto simp: versions_desc_def)
qed

lemma mark_stale_current:
  assumes "summaries_ok db"
  shows "select_current_summary e k n (snd (mark_current_summary_stale e k n db)) = no_summary"
proof (cases "cs_id (select_current_summary e k n db)")
  case None
  then show ?thesis using cs_id_None [OF None] facts_cong(2) [of "refresh_node e k n db" db] by (simp add: mark_stale_eq)
next
  case (Some i)
  then obtain r where r: "find (decisive e) (versions_desc k n db) = Some r" "sv_id r = i" by (rule cs_id_Some)
  have found: "find (decisive e) (map (stale_row i) rs) = Some (stale_row i r)" if "find (decisive e) rs = Some r" "distinct (map sv_id rs)" for rs
    using that
  proof (induction rs)
    case (Cons q rs)
    show ?case
    proof (cases "decisive e q")
      case True
      then show ?thesis using Cons.prems r(2) by (auto simp: stale_row_def decisive_def)
    next
      case False
      then have rs: "find (decisive e) rs = Some r" using Cons.prems by simp
      then have "r \<in> set rs" using find_Some_iff_mem by fast
      then have "sv_id q \<noteq> i" using Cons.prems r(2) by auto
      then have "stale_row i q = q" by (simp add: stale_row_def)
      then show ?thesis using Cons rs False by simp
    qed
  qed simp
  have "distinct (map sv_id (versions_desc k n db))"
    using assms by (auto simp: versions_desc_def summaries_ok_def distinct_map inj_on_def)
  then have "find (decisive e) (versions_desc k n (with_stale i db)) = Some (stale_row i r)"
    using r(1) found by (simp add: versions_desc_stale)
  then have "select_current_summary e k n (with_stale i db) = no_summary"
    using r(2) by (simp add: select_current_summary_def walk_summaries_find summary_of_def stale_row_def split: option.split)
  then show ?thesis using Some facts_cong(2) [of "refresh_node e k n (with_stale i db)" "with_stale i db"] by (simp add: mark_stale_eq)
qed

lemma mark_stale_other:
  assumes "summaries_ok db" "(k', n') \<noteq> (k, n)"
  shows "select_current_summary e k' n' (snd (mark_current_summary_stale e k n db)) = select_current_summary e k' n' db"
proof (cases "cs_id (select_current_summary e k n db)")
  case None
  then show ?thesis using facts_cong(2) [of "refresh_node e k n db" db] by (simp add: mark_stale_eq)
next
  case (Some i)
  then obtain r where r: "sv_id r = i" "r \<in> set (i_summaries db)" "sv_node_kind r = k" "sv_node_ref r = n" by (rule cs_id_Some)
  have "stale_row i q = q" if "q \<in> set (versions_desc k' n' db)" for q
  proof -
    have q: "q \<in> set (i_summaries db)" "sv_node_kind q = k'" "sv_node_ref q = n'" using that by (auto simp: versions_desc_def)
    then have "q \<noteq> r" using r assms(2) by auto
    then have "sv_id q \<noteq> i" using q(1) r assms(1) by (auto simp: summaries_ok_def distinct_map inj_on_def)
    then show ?thesis by (simp add: stale_row_def)
  qed
  then have "versions_desc k' n' (with_stale i db) = versions_desc k' n' db" unfolding versions_desc_stale by (rule map_idI)
  then have "select_current_summary e k' n' (with_stale i db) = select_current_summary e k' n' db" by (simp add: select_current_summary_def)
  then show ?thesis using Some facts_cong(2) [of "refresh_node e k n (with_stale i db)" "with_stale i db"] by (simp add: mark_stale_eq)
qed

lemma with_stale_frame [simp]:
  "i_files (with_stale i db) = i_files db" "i_symbols (with_stale i db) = i_symbols db" "i_occurrences (with_stale i db) = i_occurrences db"
  "i_edges (with_stale i db) = i_edges db" "i_candidates (with_stale i db) = i_candidates db" "i_patterns (with_stale i db) = i_patterns db"
  "i_clusters (with_stale i db) = i_clusters db" "i_documents (with_stale i db) = i_documents db" "i_seq (with_stale i db) = i_seq db"
  by (simp_all add: with_stale_def)

lemma mark_stale_frame [simp]:
  "i_files (snd (mark_current_summary_stale e k n db)) = i_files db" "i_symbols (snd (mark_current_summary_stale e k n db)) = i_symbols db"
  "i_occurrences (snd (mark_current_summary_stale e k n db)) = i_occurrences db" "i_edges (snd (mark_current_summary_stale e k n db)) = i_edges db"
  "i_candidates (snd (mark_current_summary_stale e k n db)) = i_candidates db" "i_patterns (snd (mark_current_summary_stale e k n db)) = i_patterns db"
  "i_clusters (snd (mark_current_summary_stale e k n db)) = i_clusters db"
  "seq_summaries (i_seq (snd (mark_current_summary_stale e k n db))) = seq_summaries (i_seq db)"
  "seq_edges (i_seq (snd (mark_current_summary_stale e k n db))) = seq_edges (i_seq db)"
  by (simp_all add: mark_stale_eq split: option.split)

lemma mark_stale_summaries:
  "map (\<lambda>r. (sv_id r, sv_node_kind r, sv_node_ref r, sv_version r)) (i_summaries (snd (mark_current_summary_stale e k n db))) =
   map (\<lambda>r. (sv_id r, sv_node_kind r, sv_node_ref r, sv_version r)) (i_summaries db)"
  by (simp add: mark_stale_eq with_stale_def split: option.split)

lemma mark_stale_documents:
  assumes "unique_documents db"
  shows "unique_documents (snd (mark_current_summary_stale e k n db))" "mirrored e k n (snd (mark_current_summary_stale e k n db))"
    and "(k', n') \<noteq> (k, n) \<Longrightarrow> node_documents k' n' (snd (mark_current_summary_stale e k n db)) = node_documents k' n' db"
proof -
  have "unique_documents (with_stale i db)" for i using assms by (simp add: unique_documents_def)
  then show "unique_documents (snd (mark_current_summary_stale e k n db))" "mirrored e k n (snd (mark_current_summary_stale e k n db))"
    using assms by (auto simp: mark_stale_eq unique_refresh refresh_node_mirrored split: option.split)
  have "node_documents k' n' (with_stale i db) = node_documents k' n' db" for i by (simp add: node_documents_def)
  then show "(k', n') \<noteq> (k, n) \<Longrightarrow> node_documents k' n' (snd (mark_current_summary_stale e k n db)) = node_documents k' n' db"
    by (simp add: mark_stale_eq node_documents_refresh_other split: option.split)
qed

text \<open>A node with a stale, a usable and a pending version, in this order.\<close>

definition demo_payload :: ucs where
  "demo_payload = lit ''payload''"

definition demo_env :: index_env where
  "demo_env = \<lparr>ie_parse = (\<lambda>text. if text = demo_payload then Some (JObject [(lit ''short'', JString (lit ''Adds.'')), (lit ''full'', JNull)]) else None),
     ie_sha256 = id, ie_md5 = id, ie_now = (\<lambda>_. lit ''now'')\<rparr>"

definition demo_version :: "int \<Rightarrow> int \<Rightarrow> string \<Rightarrow> summary_row" where
  "demo_version k version st = \<lparr>sv_id = k, sv_node_kind = lit ''symbol'', sv_node_ref = lit ''a'', sv_version = version,
     sv_summary = Some demo_payload, sv_status = lit st, sv_created_at = lit ''now''\<rparr>"

definition demo_summaries :: index_db where
  "demo_summaries = empty_index\<lparr>i_summaries := [demo_version 1 1 ''stale'', demo_version 2 2 ''ok'', demo_version 3 3 ''pending'']\<rparr>"

lemma demo_walk:
  "versions_desc (lit ''symbol'') (lit ''a'') demo_summaries = [demo_version 3 3 ''pending'', demo_version 2 2 ''ok'', demo_version 1 1 ''stale'']"
  by (simp add: versions_desc_def demo_summaries_def demo_version_def sort_key_def)

lemma demo_current:
  "select_current_summary demo_env (lit ''symbol'') (lit ''a'') demo_summaries =
     \<lparr>cs_id = Some 2, cs_version = Some 2, cs_short = Some (lit ''Adds.''), cs_full = None\<rparr>"
  unfolding select_current_summary_def demo_walk
  by (simp add: demo_version_def demo_env_def summary_payload_def BARRIER_STATUS_def SKIPPABLE_STATUSES_def AVAILABLE_STATUSES_def
    as_object_def as_str_def ucs_trim_def is_white_def lit_def)

theorem summary_readers_agree_witness:
  "distinct (map sv_version (node_rows (lit ''symbol'') (lit ''a'') demo_summaries)) \<and>
   map_option (\<lambda>s. (su_short s, su_full s)) (get_latest_summary demo_env (lit ''symbol'') (lit ''a'') demo_summaries) = Some (Some (lit ''Adds.''), None) \<and>
   cs_id (select_current_summary demo_env (lit ''symbol'') (lit ''a'') demo_summaries) = Some 2"
proof -
  have rows: "node_rows (lit ''symbol'') (lit ''a'') demo_summaries = [demo_version 1 1 ''stale'', demo_version 2 2 ''ok'', demo_version 3 3 ''pending'']"
    by (simp add: node_rows_def demo_summaries_def demo_version_def)
  then have "distinct (map sv_version (node_rows (lit ''symbol'') (lit ''a'') demo_summaries))" by (simp add: demo_version_def)
  then show ?thesis using summary_readers_agree [of "lit ''symbol''" "lit ''a''" demo_summaries demo_env] by (simp add: rows demo_current)
qed

end
