(* ===== verification/Resolve.thy ===== *)
theory Resolve
  imports IndexDb
begin

text \<open>
  The resolution of direct call edges, \<^verbatim>\<open>remy-cc/scanner-core/src/postprocess.rs\<close>: import bindings
  derived from the indexed Python files, the three tiers of candidates with their scores, the reset of all
  direct edges by a full scan and the targeted reset by an incremental one.  The decoder of JSON text is
  the parameter \<open>parse\<close>.
\<close>

definition PY_STDLIB_MODULE_NAMES :: "string list" where
  "PY_STDLIB_MODULE_NAMES = [
    ''__future__'', ''_abc'', ''_aix_support'', ''_ast'', ''_asyncio'', ''_bisect'', ''_blake2'', ''_bz2'',
    ''_codecs'', ''_codecs_cn'', ''_codecs_hk'', ''_codecs_iso2022'', ''_codecs_jp'', ''_codecs_kr'',
    ''_codecs_tw'', ''_collections'', ''_collections_abc'', ''_compat_pickle'', ''_compression'',
    ''_contextvars'', ''_crypt'', ''_csv'', ''_ctypes'', ''_curses'', ''_curses_panel'', ''_datetime'',
    ''_dbm'', ''_decimal'', ''_elementtree'', ''_frozen_importlib'', ''_frozen_importlib_external'',
    ''_functools'', ''_gdbm'', ''_hashlib'', ''_heapq'', ''_imp'', ''_io'', ''_json'', ''_locale'',
    ''_lsprof'', ''_lzma'', ''_markupbase'', ''_md5'', ''_msi'', ''_multibytecodec'', ''_multiprocessing'',
    ''_opcode'', ''_operator'', ''_osx_support'', ''_overlapped'', ''_pickle'', ''_posixshmem'',
    ''_posixsubprocess'', ''_py_abc'', ''_pydatetime'', ''_pydecimal'', ''_pyio'', ''_pylong'', ''_queue'',
    ''_random'', ''_scproxy'', ''_sha1'', ''_sha2'', ''_sha3'', ''_signal'', ''_sitebuiltins'', ''_socket'',
    ''_sqlite3'', ''_sre'', ''_ssl'', ''_stat'', ''_statistics'', ''_string'', ''_strptime'', ''_struct'',
    ''_symtable'', ''_thread'', ''_threading_local'', ''_tkinter'', ''_tokenize'', ''_tracemalloc'',
    ''_typing'', ''_uuid'', ''_warnings'', ''_weakref'', ''_weakrefset'', ''_winapi'', ''_wmi'',
    ''_zoneinfo'', ''abc'', ''aifc'', ''antigravity'', ''argparse'', ''array'', ''ast'', ''asyncio'',
    ''atexit'', ''audioop'', ''base64'', ''bdb'', ''binascii'', ''bisect'', ''builtins'', ''bz2'',
    ''cProfile'', ''calendar'', ''cgi'', ''cgitb'', ''chunk'', ''cmath'', ''cmd'', ''code'', ''codecs'',
    ''codeop'', ''collections'', ''colorsys'', ''compileall'', ''concurrent'', ''configparser'',
    ''contextlib'', ''contextvars'', ''copy'', ''copyreg'', ''crypt'', ''csv'', ''ctypes'', ''curses'',
    ''dataclasses'', ''datetime'', ''dbm'', ''decimal'', ''difflib'', ''dis'', ''doctest'', ''email'',
    ''encodings'', ''ensurepip'', ''enum'', ''errno'', ''faulthandler'', ''fcntl'', ''filecmp'',
    ''fileinput'', ''fnmatch'', ''fractions'', ''ftplib'', ''functools'', ''gc'', ''genericpath'',
    ''getopt'', ''getpass'', ''gettext'', ''glob'', ''graphlib'', ''grp'', ''gzip'', ''hashlib'', ''heapq'',
    ''hmac'', ''html'', ''http'', ''idlelib'', ''imaplib'', ''imghdr'', ''importlib'', ''inspect'', ''io'',
    ''ipaddress'', ''itertools'', ''json'', ''keyword'', ''lib2to3'', ''linecache'', ''locale'', ''logging'',
    ''lzma'', ''mailbox'', ''mailcap'', ''marshal'', ''math'', ''mimetypes'', ''mmap'', ''modulefinder'',
    ''msilib'', ''msvcrt'', ''multiprocessing'', ''netrc'', ''nis'', ''nntplib'', ''nt'', ''ntpath'',
    ''nturl2path'', ''numbers'', ''opcode'', ''operator'', ''optparse'', ''os'', ''ossaudiodev'',
    ''pathlib'', ''pdb'', ''pickle'', ''pickletools'', ''pipes'', ''pkgutil'', ''platform'', ''plistlib'',
    ''poplib'', ''posix'', ''posixpath'', ''pprint'', ''profile'', ''pstats'', ''pty'', ''pwd'',
    ''py_compile'', ''pyclbr'', ''pydoc'', ''pydoc_data'', ''pyexpat'', ''queue'', ''quopri'', ''random'',
    ''re'', ''readline'', ''reprlib'', ''resource'', ''rlcompleter'', ''runpy'', ''sched'', ''secrets'',
    ''select'', ''selectors'', ''shelve'', ''shlex'', ''shutil'', ''signal'', ''site'', ''smtplib'',
    ''sndhdr'', ''socket'', ''socketserver'', ''spwd'', ''sqlite3'', ''sre_compile'', ''sre_constants'',
    ''sre_parse'', ''ssl'', ''stat'', ''statistics'', ''string'', ''stringprep'', ''struct'', ''subprocess'',
    ''sunau'', ''symtable'', ''sys'', ''sysconfig'', ''syslog'', ''tabnanny'', ''tarfile'', ''telnetlib'',
    ''tempfile'', ''termios'', ''textwrap'', ''this'', ''threading'', ''time'', ''timeit'', ''tkinter'',
    ''token'', ''tokenize'', ''tomllib'', ''trace'', ''traceback'', ''tracemalloc'', ''tty'', ''turtle'',
    ''turtledemo'', ''types'', ''typing'', ''unicodedata'', ''unittest'', ''urllib'', ''uu'', ''uuid'',
    ''venv'', ''warnings'', ''wave'', ''weakref'', ''webbrowser'', ''winreg'', ''winsound'', ''wsgiref'',
    ''xdrlib'', ''xml'', ''xmlrpc'', ''zipapp'', ''zipfile'', ''zipimport'', ''zlib'', ''zoneinfo'']"

text \<open>The parameters of the stage; the three floating-point ones are added where the settings are loaded.\<close>

record PostprocessConfig =
  filter_small :: bool
  cluster_max_size :: int
  cluster_entry_count :: int
  synth_interface_fanout_cap :: int
  synth_event_fanout_cap :: int
  resolve_fanout_cap :: int
  resolve_score_same_file :: int
  resolve_score_direct_import :: int
  resolve_score_global :: int
  file_kind_min_symbols :: int
  struct_scan_timeout :: int
  full_scan_timeout :: int

record ScanDelta =
  touched_files :: "ucs list"
  delta_names :: "ucs list"
  added_py :: "ucs list"
  removed_py :: "ucs list"

type_synonym parser = "ucs \<Rightarrow> ucs json_value option"

section \<open>Import bindings\<close>

definition parse_array :: "parser \<Rightarrow> ucs \<Rightarrow> ucs json_value list" where
  "parse_array parse text = (case Option.bind (parse text) as_array of None \<Rightarrow> [] | Some items \<Rightarrow> items)"

definition string_items :: "ucs json_value list \<Rightarrow> ucs list" where
  "string_items items = List.map_filter as_str items"

definition binding_module :: "ucs json_value \<Rightarrow> ucs" where
  "binding_module b = (case Option.bind (json_get (lit ''module'') b) as_str of None \<Rightarrow> [] | Some m \<Rightarrow> m)"

definition binding_names :: "ucs json_value \<Rightarrow> ucs list" where
  "binding_names b = (case Option.bind (json_get (lit ''names'') b) as_array of None \<Rightarrow> [] | Some items \<Rightarrow> string_items items)"

definition is_stdlib :: "ucs \<Rightarrow> bool" where
  "is_stdlib module_name \<longleftrightarrow> hd (split_on 46 module_name) \<in> set (map lit PY_STDLIB_MODULE_NAMES)"

definition suffix_forms :: "ucs \<Rightarrow> ucs list" where
  "suffix_forms module_name =
     (let joined = replace_char 46 [47] module_name in [joined @ lit ''.py'', joined @ lit ''/__init__.py''])"

definition matches_suffix :: "ucs list \<Rightarrow> ucs \<Rightarrow> bool" where
  "matches_suffix suffixes path \<longleftrightarrow> list_ex (\<lambda>suffix. path = suffix \<or> ends_with (47 # suffix) path) suffixes"

definition is_py :: "ucs \<Rightarrow> bool" where
  "is_py path \<longleftrightarrow> ends_with (lit ''.py'') path"

definition import_binding_hosts :: "parser \<Rightarrow> index_db \<Rightarrow> ucs list \<Rightarrow> ucs list" where
  "import_binding_hosts parse db changed =
     (if changed = [] then []
      else map f_path (filter (\<lambda>f. f_import_bindings f \<noteq> lit ''[]'' \<and>
          list_ex (\<lambda>b. let module_name = binding_module b in
              module_name \<noteq> [] \<and> \<not> is_stdlib module_name \<and>
              list_ex (matches_suffix (suffix_forms module_name)) changed)
            (parse_array parse (f_import_bindings f)))
        (sort_key f_path (i_files db))))"

record ImportDerivation =
  supplements :: "(ucs \<times> ucs list) list"
  externals :: "(ucs \<times> ucs list) list"

definition suffix_hits :: "ucs list \<Rightarrow> ucs \<Rightarrow> ucs list" where
  "suffix_hits py_paths module_name = filter (matches_suffix (suffix_forms module_name)) py_paths"

definition derive_binding :: "ucs list \<Rightarrow> ucs \<Rightarrow> ucs json_value \<Rightarrow> ImportDerivation \<Rightarrow> ImportDerivation" where
  "derive_binding py_paths source_file b d =
     (let module_name = binding_module b; names = binding_names b
      in if module_name = [] then d
         else if is_stdlib module_name then d\<lparr>externals := map_extend source_file names (externals d)\<rparr>
         else (let hits = suffix_hits py_paths module_name
               in if length hits = 1 then d\<lparr>supplements := map_extend source_file [hd hits] (supplements d)\<rparr>
                  else if hits = [] then d\<lparr>externals := map_extend source_file names (externals d)\<rparr>
                  else d))"

definition derive_row :: "parser \<Rightarrow> ucs list \<Rightarrow> file_row \<Rightarrow> ImportDerivation \<Rightarrow> ImportDerivation" where
  "derive_row parse py_paths f d = fold (derive_binding py_paths (f_path f)) (parse_array parse (f_import_bindings f)) d"

definition derive_import_bindings :: "parser \<Rightarrow> index_db \<Rightarrow> ImportDerivation" where
  "derive_import_bindings parse db =
     (let rows = sort_key f_path (i_files db); py_paths = filter is_py (map f_path rows)
      in fold (derive_row parse py_paths) rows \<lparr>supplements = [], externals = []\<rparr>)"

section \<open>Candidates of an edge\<close>

definition symbols_where :: "index_db \<Rightarrow> (symbol_row \<Rightarrow> bool) \<Rightarrow> ucs list" where
  "symbols_where db P = map symbol_qualified (sort_key (\<lambda>s. (s_file_path s, s_name s)) (filter P (i_symbols db)))"

definition import_list :: "parser \<Rightarrow> index_db \<Rightarrow> ImportDerivation \<Rightarrow> ucs \<Rightarrow> ucs list" where
  "import_list parse db d source_file =
     (let stored = (case Option.bind (find (\<lambda>f. f_path f = source_file) (i_files db)) f_imports of
            None \<Rightarrow> [] | Some text \<Rightarrow> string_items (parse_array parse text))
      in foldl (\<lambda>acc extra. if extra \<in> set acc then acc else acc @ [extra]) stored (map_values (supplements d) source_file))"

text \<open>A row of the joined file matches only when both languages are set and equal.\<close>

definition same_language :: "index_db \<Rightarrow> ucs \<Rightarrow> ucs \<Rightarrow> bool" where
  "same_language db source_file other_file =
     (case Option.bind (find (\<lambda>f. f_path f = source_file) (i_files db)) f_language of None \<Rightarrow> False
      | Some l \<Rightarrow> list_ex (\<lambda>f. f_path f = other_file \<and> f_language f = Some l) (i_files db))"

definition tier_candidates :: "PostprocessConfig \<Rightarrow> parser \<Rightarrow> index_db \<Rightarrow> ImportDerivation \<Rightarrow> ucs \<Rightarrow> ucs \<Rightarrow> (ucs \<times> int) list" where
  "tier_candidates cfg parse db d source_file callee =
     (let imports = import_list parse db d source_file;
          same_file = map (\<lambda>q. (q, resolve_score_same_file cfg))
            (symbols_where db (\<lambda>s. s_file_path s = source_file \<and> symbol_named callee s));
          import_syms = (if imports = [] then [] else symbols_where db (\<lambda>s. s_file_path s \<in> set imports \<and> symbol_named callee s))
      in foldl (\<lambda>acc q. if q \<in> fst ` set acc then acc else acc @ [(q, resolve_score_direct_import cfg)]) same_file import_syms)"

definition global_candidates :: "PostprocessConfig \<Rightarrow> index_db \<Rightarrow> ucs \<Rightarrow> ucs \<Rightarrow> (ucs \<times> int) list" where
  "global_candidates cfg db source_file callee =
     map (\<lambda>q. (q, resolve_score_global cfg))
       (let rows = symbols_where db (\<lambda>s. symbol_named callee s \<and> s_file_path s \<noteq> source_file \<and> same_language db source_file (s_file_path s))
        in if resolve_fanout_cap cfg < 0 then rows else take (nat (resolve_fanout_cap cfg)) rows)"

definition edge_candidates :: "PostprocessConfig \<Rightarrow> parser \<Rightarrow> index_db \<Rightarrow> ImportDerivation \<Rightarrow> edge_row \<Rightarrow> (ucs \<times> int) list" where
  "edge_candidates cfg parse db d e =
     (let tiers = tier_candidates cfg parse db d (e_source_file e) (e_callee e);
          unsorted =
            (if tiers \<noteq> [] then tiers
             else if e_call_form e \<noteq> lit ''attribute'' \<and> e_callee e \<in> set (map_values (externals d) (e_source_file e)) then []
             else global_candidates cfg db (e_source_file e) (e_callee e))
      in sort_cmp (\<lambda>a b. then_with (cmp (snd b) (snd a)) (cmp (fst a) (fst b))) unsorted)"

definition edge_provenance :: "PostprocessConfig \<Rightarrow> edge_row \<Rightarrow> (ucs \<times> int) list \<Rightarrow> ucs" where
  "edge_provenance cfg e candidates =
     (let best = snd (candidates ! 0); tied = (1 < length candidates \<and> best = snd (candidates ! 1))
      in if tied \<or> (e_call_form e = lit ''attribute'' \<and> best < resolve_score_same_file cfg) then lit ''speculative''
         else if best \<ge> resolve_score_direct_import cfg then lit ''definite''
         else lit ''probable'')"

section \<open>Statements\<close>

definition direct :: "edge_row \<Rightarrow> bool" where
  "direct e \<longleftrightarrow> e_provenance e \<noteq> Some (lit ''inferred'')"

definition clear_edge :: "edge_row \<Rightarrow> edge_row" where
  "clear_edge e = e\<lparr>e_callee_qualified := None, e_callee_file := None, e_provenance := None\<rparr>"

definition reset_direct_edge_resolution :: "index_db \<Rightarrow> index_db" where
  "reset_direct_edge_resolution db = db\<lparr>i_candidates := [], i_edges := update_where direct clear_edge (i_edges db)\<rparr>"

definition purge_heuristic_edges :: "index_db \<Rightarrow> index_db" where
  "purge_heuristic_edges db = db\<lparr>i_edges := filter direct (i_edges db)\<rparr>"

definition insert_candidate :: "int \<Rightarrow> ucs \<times> int \<Rightarrow> candidate_row list \<Rightarrow> candidate_row list" where
  "insert_candidate edge_id c rows =
     (if list_ex (\<lambda>r. c_edge_id r = edge_id \<and> c_qualified r = fst c) rows then rows
      else rows @ [\<lparr>c_edge_id = edge_id, c_qualified = fst c, c_score = snd c\<rparr>])"

definition resolved_edge :: "PostprocessConfig \<Rightarrow> (ucs \<times> int) list \<Rightarrow> edge_row \<Rightarrow> edge_row" where
  "resolved_edge cfg candidates e =
     e\<lparr>e_callee_qualified := Some (fst (candidates ! 0)),
       e_callee_file := map_option fst (split_once_str SEP (fst (candidates ! 0))),
       e_provenance := Some (edge_provenance cfg e candidates)\<rparr>"

text \<open>The work for one unresolved edge.\<close>

definition resolve_edge :: "PostprocessConfig \<Rightarrow> parser \<Rightarrow> ImportDerivation \<Rightarrow> edge_row \<Rightarrow> index_db \<Rightarrow> index_db" where
  "resolve_edge cfg parse d e db =
     (let candidates = edge_candidates cfg parse db d e
      in if candidates = [] then db
         else db\<lparr>i_edges := update_where (\<lambda>r. e_id r = e_id e) (resolved_edge cfg candidates) (i_edges db),
                i_candidates := (if 1 < length candidates
                   then fold (insert_candidate (e_id e)) (take (nat (max (resolve_fanout_cap cfg) 0)) candidates) (i_candidates db)
                   else i_candidates db)\<rparr>)"

definition unresolved_key :: "edge_row \<Rightarrow> ucs \<times> ucs \<times> ucs \<times> int \<times> int" where
  "unresolved_key e = (e_source_file e, e_caller e, e_callee e, (case e_line e of None \<Rightarrow> 0 | Some l \<Rightarrow> l), e_id e)"

definition resolve_call_edges_filtered :: "PostprocessConfig \<Rightarrow> parser \<Rightarrow> int list option \<Rightarrow> index_db \<Rightarrow> index_db" where
  "resolve_call_edges_filtered cfg parse only db =
     (let d = derive_import_bindings parse db;
          unresolved = sort_key unresolved_key (filter (\<lambda>e. e_callee_qualified e = None \<and> direct e) (i_edges db));
          chosen = (case only of None \<Rightarrow> unresolved | Some ids \<Rightarrow> filter (\<lambda>e. e_id e \<in> set ids) unresolved)
      in fold (resolve_edge cfg parse d) chosen db)"

definition resolve_call_edges :: "PostprocessConfig \<Rightarrow> parser \<Rightarrow> index_db \<Rightarrow> index_db" where
  "resolve_call_edges cfg parse db = resolve_call_edges_filtered cfg parse None db"

text \<open>The resolution stage of a full scan.\<close>

definition full_resolution :: "PostprocessConfig \<Rightarrow> parser \<Rightarrow> index_db \<Rightarrow> index_db" where
  "full_resolution cfg parse db = resolve_call_edges cfg parse (reset_direct_edge_resolution db)"

text \<open>The edges an incremental scan resolves again, the reset of those edges, and its resolution stage.\<close>

definition target_ids :: "parser \<Rightarrow> ScanDelta \<Rightarrow> index_db \<Rightarrow> int list" where
  "target_ids parse delta db =
     (let import_hosts = import_binding_hosts parse db (added_py delta @ removed_py delta)
      in map e_id (filter (\<lambda>e. direct e \<and>
           (e_source_file e \<in> set (touched_files delta) \<or> e_source_file e \<in> set import_hosts \<or> e_callee e \<in> set (delta_names delta)))
         (i_edges db)))"

definition reset_targets :: "int list \<Rightarrow> index_db \<Rightarrow> index_db" where
  "reset_targets ids db =
     db\<lparr>i_candidates := filter (\<lambda>c. c_edge_id c \<notin> set ids) (i_candidates db),
        i_edges := update_where (\<lambda>e. e_id e \<in> set ids) clear_edge (i_edges db)\<rparr>"

definition incremental_resolution :: "PostprocessConfig \<Rightarrow> parser \<Rightarrow> ScanDelta \<Rightarrow> index_db \<Rightarrow> index_db" where
  "incremental_resolution cfg parse delta db =
     (let ids = target_ids parse delta db
      in resolve_call_edges_filtered cfg parse (Some ids) (reset_targets ids db))"

end
