(* ===== verification/Synth.thy ===== *)
theory Synth
  imports Projection Resolve "HOL-Library.Option_ord"
begin

text \<open>
  The synthesised edges of \<^verbatim>\<open>remy-cc/scanner-core/src/synth.rs\<close>: events, overridden methods, C function
  pointers and Rust traits.  The passes read the tables of symbols and patterns only, so the rows a pass
  reads are taken from the index before it.  The matching of the database engine's LIKE operator
  is written out: it has wild cards and ignores the case of ASCII letters.
\<close>

section \<open>Statements\<close>

definition ascii_lower :: "nat \<Rightarrow> nat" where
  "ascii_lower c = (if 65 \<le> c \<and> c \<le> 90 then c + 32 else c)"

fun sql_like :: "ucs \<Rightarrow> ucs \<Rightarrow> bool" where
  "sql_like [] text = (text = [])"
| "sql_like (p # ps) text =
     (if p = 37 then list_ex (\<lambda>k. sql_like ps (drop k text)) [0..<Suc (length text)]
      else (case text of [] \<Rightarrow> False | c # cs \<Rightarrow> (p = 95 \<or> ascii_lower p = ascii_lower c) \<and> sql_like ps cs))"

record InferredEdge =
  ie_source_file :: ucs
  ie_caller :: ucs
  ie_callee :: ucs
  ie_callee_file :: ucs
  ie_callee_qualified :: ucs
  ie_line :: int
  ie_synthesized_from :: ucs
  ie_via :: ucs

definition inferred :: "edge_row \<Rightarrow> bool" where
  "inferred x \<longleftrightarrow> e_provenance x = Some (lit ''inferred'')"

text \<open>A row of the same identity, the unique index on inferred edges, makes the statement ignore the new one.\<close>

definition insert_inferred :: "InferredEdge \<Rightarrow> index_db \<Rightarrow> index_db" where
  "insert_inferred x db =
     (if list_ex (\<lambda>r. inferred r \<and> e_source_file r = ie_source_file x \<and> e_caller r = ie_caller x \<and>
           e_callee_qualified r = Some (ie_callee_qualified x) \<and> e_via r = Some (ie_via x)) (i_edges db)
      then db
      else db\<lparr>i_edges := i_edges db @ [\<lparr>e_id = seq_edges (i_seq db), e_source_file = ie_source_file x, e_caller = ie_caller x,
                e_callee = ie_callee x, e_callee_file = Some (ie_callee_file x), e_callee_qualified = Some (ie_callee_qualified x),
                e_line = Some (ie_line x), e_provenance = Some (lit ''inferred''), e_synthesized_from = Some (ie_synthesized_from x),
                e_via = Some (ie_via x), e_call_form = lit ''name''\<rparr>],
              i_seq := (i_seq db)\<lparr>seq_edges := seq_edges (i_seq db) + 1\<rparr>\<rparr>)"

text \<open>The keys a pass has seen, with the index it writes.\<close>

type_synonym pass_state = "(ucs \<times> ucs \<times> ucs \<times> ucs) list \<times> index_db"

definition edge_key :: "InferredEdge \<Rightarrow> ucs \<times> ucs \<times> ucs \<times> ucs" where
  "edge_key x = (ie_source_file x, ie_caller x, ie_callee_qualified x, ie_via x)"

definition parse_bases :: "parser \<Rightarrow> ucs \<Rightarrow> ucs list option" where
  "parse_bases parse bases_json = map_option string_items (Option.bind (parse bases_json) as_array)"

definition methods_of :: "index_db \<Rightarrow> ucs \<Rightarrow> ucs \<Rightarrow> symbol_row list" where
  "methods_of db file_path prefix =
     filter (\<lambda>s. s_file_path s = file_path \<and> s_type s = lit ''function'' \<and> sql_like (prefix @ lit ''.%'') (s_name s)) (i_symbols db)"

definition method_shorts :: "index_db \<Rightarrow> ucs \<Rightarrow> ucs \<Rightarrow> ucs list" where
  "method_shorts db file_path prefix = map (\<lambda>s. rsplit_last 46 (s_name s)) (sort_key s_name (methods_of db file_path prefix))"

definition line_or_zero :: "int option \<Rightarrow> int" where
  "line_or_zero line = (case line of None \<Rightarrow> 0 | Some l \<Rightarrow> l)"

definition methods_by_line :: "index_db \<Rightarrow> ucs \<Rightarrow> ucs \<Rightarrow> symbol_row list" where
  "methods_by_line db file_path prefix = sort_key (\<lambda>s. (line_or_zero (s_lineno s), s_name s)) (methods_of db file_path prefix)"

section \<open>Overridden methods\<close>

text \<open>The edges from the methods of one base to the methods of one implementation, up to the cap.\<close>

definition override_edge :: "ucs \<Rightarrow> ucs \<Rightarrow> ucs \<Rightarrow> ucs \<Rightarrow> symbol_row \<Rightarrow> InferredEdge" where
  "override_edge via base_path impl_path impl_type m =
     (let target = impl_type @ [46] @ rsplit_last 46 (s_name m)
      in \<lparr>ie_source_file = base_path, ie_caller = s_name m, ie_callee = target, ie_callee_file = impl_path,
          ie_callee_qualified = qualify impl_path target, ie_line = line_or_zero (s_lineno m),
          ie_synthesized_from = base_path, ie_via = via\<rparr>)"

fun override_loop :: "nat \<Rightarrow> ucs list \<Rightarrow> (symbol_row \<Rightarrow> InferredEdge) \<Rightarrow> symbol_row list \<Rightarrow> nat \<Rightarrow> pass_state \<Rightarrow> pass_state" where
  "override_loop cap shorts edge [] added st = st"
| "override_loop cap shorts edge (m # ms) added st =
     (if cap \<le> added then st
      else if rsplit_last 46 (s_name m) \<notin> set shorts then override_loop cap shorts edge ms added st
      else if edge_key (edge m) \<in> set (fst st) then override_loop cap shorts edge ms added st
      else override_loop cap shorts edge ms (added + 1) (fst st @ [edge_key (edge m)], insert_inferred (edge m) (snd st)))"

definition override_base :: "index_db \<Rightarrow> nat \<Rightarrow> ucs \<Rightarrow> ucs \<Rightarrow> ucs \<Rightarrow> symbol_row \<Rightarrow> pass_state \<Rightarrow> pass_state" where
  "override_base db cap via impl_path impl_type base =
     override_loop cap (method_shorts db impl_path impl_type) (override_edge via (s_file_path base) impl_path impl_type)
       (methods_by_line db (s_file_path base) (s_name base)) 0"

definition interface_class :: "parser \<Rightarrow> index_db \<Rightarrow> nat \<Rightarrow> symbol_row \<Rightarrow> pass_state \<Rightarrow> pass_state" where
  "interface_class parse db cap c st =
     (case Option.bind (s_bases c) (parse_bases parse) of None \<Rightarrow> st
      | Some bases \<Rightarrow>
          if bases = [] \<or> method_shorts db (s_file_path c) (s_name c) = [] then st
          else fold (\<lambda>base_name. fold (override_base db cap (lit ''interface-impl'') (s_file_path c) (s_name c))
                 (sort_key (\<lambda>s. (s_file_path s, s_name s)) (filter (\<lambda>s. s_type s = lit ''class'' \<and> s_short_name s = Some base_name) (i_symbols db))))
               (btree_set bases) st)"

definition synthesize_interface_override_edges :: "parser \<Rightarrow> nat \<Rightarrow> index_db \<Rightarrow> index_db" where
  "synthesize_interface_override_edges parse cap db =
     snd (fold (interface_class parse db cap)
       (sort_key (\<lambda>s. (s_file_path s, s_name s)) (filter (\<lambda>s. s_type s = lit ''class'' \<and> s_bases s \<noteq> None) (i_symbols db))) ([], db))"

text \<open>The trait implementations the Rust parser noted, in the order both of their readers use.\<close>

definition trait_impls :: "index_db \<Rightarrow> (ucs \<times> ucs \<times> ucs) list" where
  "trait_impls db =
     List.map_filter (\<lambda>p. case (p_signal_name p, p_handler p) of (Some s, Some h) \<Rightarrow> Some (p_file_path p, s, h) | _ \<Rightarrow> None)
       (sort_key (\<lambda>p. (p_file_path p, line_or_zero (p_line p), p_signal_name p, p_handler p))
         (filter (\<lambda>p. p_type p = lit ''rust_trait_impl'') (i_patterns db)))"

definition trait_impl :: "index_db \<Rightarrow> nat \<Rightarrow> ucs \<times> ucs \<times> ucs \<Rightarrow> pass_state \<Rightarrow> pass_state" where
  "trait_impl db cap = (\<lambda>(impl_file, trait_name, full_type) st.
     if method_shorts db impl_file full_type = [] then st
     else fold (override_base db cap (lit ''trait-impl'') impl_file full_type)
       (sort_key (\<lambda>s. (s_file_path s, s_name s))
         (filter (\<lambda>s. s_type s = lit ''interface'' \<and> s_short_name s = Some trait_name \<and> sql_like (lit ''%.rs'') (s_file_path s)) (i_symbols db))) st)"

definition synthesize_rust_trait_impl_edges :: "nat \<Rightarrow> index_db \<Rightarrow> index_db" where
  "synthesize_rust_trait_impl_edges cap db = snd (fold (trait_impl db cap) (trait_impls db) ([], db))"

section \<open>Events\<close>

definition emitters :: "index_db \<Rightarrow> ucs \<Rightarrow> pattern_row list" where
  "emitters db emit_type =
     sort_key (\<lambda>p. (line_or_zero (p_line p), p_file_path p, p_signal_name p, p_handler p)) (filter (\<lambda>p. p_type p = emit_type) (i_patterns db))"

definition handlers :: "index_db \<Rightarrow> ucs \<Rightarrow> ucs list \<Rightarrow> pattern_row list" where
  "handlers db connect_type signal_names =
     sort_key (\<lambda>p. (p_signal_name p, line_or_zero (p_line p), p_file_path p, p_handler p))
       (filter (\<lambda>p. p_type p = connect_type \<and> (case p_signal_name p of None \<Rightarrow> False | Some s \<Rightarrow> s \<in> set signal_names)) (i_patterns db))"

definition handler_map :: "pattern_row list \<Rightarrow> (ucs \<times> (ucs \<times> ucs option) list) list" where
  "handler_map rows =
     fold (\<lambda>p m. case p_signal_name p of None \<Rightarrow> m | Some s \<Rightarrow> map_extend s [(p_file_path p, p_handler p)] m) rows []"

definition event_edge :: "ucs \<Rightarrow> pattern_row \<Rightarrow> ucs \<Rightarrow> ucs \<Rightarrow> ucs \<Rightarrow> InferredEdge" where
  "event_edge via p func h_path h_func =
     \<lparr>ie_source_file = p_file_path p, ie_caller = func, ie_callee = h_func, ie_callee_file = h_path,
      ie_callee_qualified = qualify h_path h_func, ie_line = line_or_zero (p_line p), ie_synthesized_from = p_file_path p, ie_via = via\<rparr>"

definition event_target :: "ucs \<Rightarrow> pattern_row \<Rightarrow> ucs \<Rightarrow> ucs \<times> ucs option \<Rightarrow> pass_state \<Rightarrow> pass_state" where
  "event_target via p func = (\<lambda>(h_path, h) st.
     case h of None \<Rightarrow> st
     | Some h_func \<Rightarrow>
         if p_file_path p = h_path \<and> func = h_func then st
         else (let edge = event_edge via p func h_path h_func
               in if edge_key edge \<in> set (fst st) then st else (fst st @ [edge_key edge], insert_inferred edge (snd st))))"

definition event_emitter :: "ucs \<Rightarrow> nat \<Rightarrow> (ucs \<times> (ucs \<times> ucs option) list) list \<Rightarrow> pattern_row \<Rightarrow> pass_state \<Rightarrow> pass_state" where
  "event_emitter via cap targets p st =
     (case (p_signal_name p, p_handler p) of
        (Some signal, Some func) \<Rightarrow>
          (case map_of targets signal of None \<Rightarrow> st
           | Some ts \<Rightarrow> if cap < length ts then st else fold (event_target via p func) ts st)
      | _ \<Rightarrow> st)"

definition synthesize_signal_pattern :: "nat \<Rightarrow> ucs \<times> ucs \<times> ucs \<Rightarrow> index_db \<Rightarrow> index_db" where
  "synthesize_signal_pattern cap = (\<lambda>(emit_type, connect_type, via) db.
     let es = emitters db emit_type; signal_names = btree_set (List.map_filter p_signal_name es)
     in if es = [] \<or> signal_names = [] then db
        else snd (fold (event_emitter via cap (handler_map (handlers db connect_type signal_names))) es ([], db)))"

definition SIGNAL_PATTERNS :: "(ucs \<times> ucs \<times> ucs) list" where
  "SIGNAL_PATTERNS =
     [(lit ''django_signal_send'', lit ''django_signal_connect'', lit ''django-signal''),
      (lit ''pyqt_signal_emit'', lit ''pyqt_signal_connect'', lit ''pyqt-signal''),
      (lit ''observer_emit'', lit ''observer_register'', lit ''observer'')]"

definition synthesize_event_emitter_edges :: "nat \<Rightarrow> index_db \<Rightarrow> index_db" where
  "synthesize_event_emitter_edges cap db = fold (synthesize_signal_pattern cap) SIGNAL_PATTERNS db"

end
