(* ===== verification/Dispatch.thy ===== *)
theory Dispatch
  imports Synth
begin

text \<open>
  Calls through function pointers of C structures, the third pass of \<^verbatim>\<open>synth.rs\<close>, and the order of the
  four passes.
\<close>

definition as_i64 :: "'s json_value \<Rightarrow> int option" where
  "as_i64 v = (case v of JNumber (NInt i) \<Rightarrow> if - (2 ^ 63) \<le> i \<and> i < 2 ^ 63 then Some i else None | _ \<Rightarrow> None)"

definition truthy :: "ucs json_value option \<Rightarrow> bool" where
  "truthy v =
     (case v of None \<Rightarrow> False | Some JNull \<Rightarrow> False | Some (JBool b) \<Rightarrow> b
      | Some (JNumber (NInt i)) \<Rightarrow> i \<noteq> 0 | Some (JNumber (NFloat t)) \<Rightarrow> t \<notin> {''0.0'', ''-0.0''}
      | Some (JString t) \<Rightarrow> t \<noteq> [] | Some (JArray xs) \<Rightarrow> xs \<noteq> [] | Some (JObject m) \<Rightarrow> m \<noteq> [])"

definition get_text :: "string \<Rightarrow> ucs json_value \<Rightarrow> ucs option" where
  "get_text k v = Option.bind (json_get (lit k) v) as_str"

section \<open>Layouts\<close>

type_synonym layouts = "(ucs \<times> ucs json_value list list) list"

definition fnptr_typedefs :: "index_db \<Rightarrow> ucs list" where
  "fnptr_typedefs db = List.map_filter p_signal_name (filter (\<lambda>p. p_type p = lit ''c_fnptr_typedef'') (i_patterns db))"

definition add_layout :: "ucs \<Rightarrow> ucs json_value list \<Rightarrow> layouts \<Rightarrow> layouts" where
  "add_layout signal entries m = map_extend signal (if entries \<noteq> [] \<and> entries \<notin> set (map_values m signal) then [entries] else []) m"

definition layout_row :: "parser \<Rightarrow> pattern_row \<Rightarrow> layouts \<Rightarrow> layouts" where
  "layout_row parse p m =
     (case (p_signal_name p, p_metadata p) of
        (Some signal, Some metadata) \<Rightarrow>
          (case Option.bind (Option.bind (parse metadata) (json_get (lit ''fields''))) as_array of None \<Rightarrow> m
           | Some entries \<Rightarrow> add_layout signal entries m)
      | _ \<Rightarrow> m)"

definition struct_layouts :: "parser \<Rightarrow> index_db \<Rightarrow> layouts" where
  "struct_layouts parse db =
     fold (layout_row parse) (sort_key (\<lambda>p. (p_signal_name p, p_metadata p)) (filter (\<lambda>p. p_type p = lit ''c_struct_layout'') (i_patterns db))) []"

definition field_fnptr :: "ucs list \<Rightarrow> ucs json_value \<Rightarrow> bool" where
  "field_fnptr typedefs field \<longleftrightarrow>
     truthy (json_get (lit ''is_fnptr'') field) \<or> (case get_text ''type'' field of None \<Rightarrow> False | Some t \<Rightarrow> t \<in> set typedefs)"

definition field_matches :: "ucs list \<Rightarrow> ucs option \<Rightarrow> int option \<Rightarrow> ucs json_value \<Rightarrow> bool" where
  "field_matches typedefs field_name slot field \<longleftrightarrow>
     (field_name \<noteq> None \<and> get_text ''name'' field = field_name \<and> field_fnptr typedefs field) \<or>
     (slot \<noteq> None \<and> Option.bind (json_get (lit ''index'') field) as_i64 = slot \<and> field_fnptr typedefs field)"

definition resolve_reg_field :: "ucs list \<Rightarrow> layouts \<Rightarrow> ucs \<Rightarrow> ucs option \<Rightarrow> int option \<Rightarrow> ucs option" where
  "resolve_reg_field typedefs m structure field_name slot =
     Option.bind (find (field_matches typedefs field_name slot) (concat (map_values m structure))) (get_text ''name'')"

text \<open>The structures with a function pointer field of a name.\<close>

definition field_owners :: "ucs list \<Rightarrow> layouts \<Rightarrow> ucs \<Rightarrow> ucs list" where
  "field_owners typedefs m name =
     remdups (map fst (filter (\<lambda>(structure, layout_list). list_ex (\<lambda>field. get_text ''name'' field = Some name \<and> name \<noteq> [] \<and> field_fnptr typedefs field)
       (concat layout_list)) m))"

section \<open>Registrations and calls\<close>

definition register_row :: "parser \<Rightarrow> ucs list \<Rightarrow> layouts \<Rightarrow> pattern_row \<Rightarrow> ((ucs \<times> ucs) \<times> ucs) option" where
  "register_row parse typedefs m p =
     (case (p_signal_name p, p_handler p, p_metadata p) of
        (Some signal, Some handler, Some metadata) \<Rightarrow>
          (case parse metadata of None \<Rightarrow> None
           | Some md \<Rightarrow>
               map_option (\<lambda>field. ((signal, field), handler))
                 (resolve_reg_field typedefs m signal (get_text ''field'' md) (Option.bind (json_get (lit ''slot'') md) as_i64)))
      | _ \<Rightarrow> None)"

text \<open>The handlers registered for a field of a structure, in order; no entry when there is none.\<close>

definition registrations :: "parser \<Rightarrow> ucs list \<Rightarrow> layouts \<Rightarrow> index_db \<Rightarrow> ((ucs \<times> ucs) \<times> ucs) list" where
  "registrations parse typedefs m db =
     List.map_filter (register_row parse typedefs m)
       (sort_key (\<lambda>p. (p_signal_name p, p_handler p, p_metadata p)) (filter (\<lambda>p. p_type p = lit ''c_fnptr_register'') (i_patterns db)))"

definition registered :: "((ucs \<times> ucs) \<times> ucs) list \<Rightarrow> ucs \<times> ucs \<Rightarrow> ucs list" where
  "registered reg k = btree_set (map snd (filter (\<lambda>r. fst r = k) reg))"

definition resolve_symbol :: "index_db \<Rightarrow> ucs \<Rightarrow> ucs option \<Rightarrow> (ucs \<times> ucs) option" where
  "resolve_symbol db name prefer =
     (let rows = map (\<lambda>s. (s_file_path s, s_name s)) (sort_key (\<lambda>s. (s_file_path s, s_name s))
            (filter (\<lambda>s. symbol_named name s \<and> s_type s \<in> set [lit ''function'', lit ''macro'']) (i_symbols db)))
      in case rows of [] \<Rightarrow> None
         | first # _ \<Rightarrow> (case prefer of None \<Rightarrow> Some first
             | Some path \<Rightarrow> (case find (\<lambda>r. fst r = path) rows of Some r \<Rightarrow> Some r | None \<Rightarrow> Some first)))"

definition dispatch_edge :: "pattern_row \<Rightarrow> ucs \<times> ucs \<Rightarrow> ucs \<times> ucs \<Rightarrow> InferredEdge" where
  "dispatch_edge p caller callee =
     \<lparr>ie_source_file = fst caller, ie_caller = snd caller, ie_callee = rsplit_last 46 (snd callee), ie_callee_file = fst callee,
      ie_callee_qualified = qualify (fst callee) (snd callee), ie_line = line_or_zero (p_line p),
      ie_synthesized_from = p_file_path p, ie_via = lit ''c-fnptr-dispatch''\<rparr>"

definition C_FNPTR_TEE_FANOUT_CAP :: nat where "C_FNPTR_TEE_FANOUT_CAP = 300"

fun dispatch_targets :: "index_db \<Rightarrow> pattern_row \<Rightarrow> ucs \<times> ucs \<Rightarrow> ucs list \<Rightarrow> nat \<Rightarrow> pass_state \<Rightarrow> pass_state" where
  "dispatch_targets db p caller [] added st = st"
| "dispatch_targets db p caller (h # hs) added st =
     (if C_FNPTR_TEE_FANOUT_CAP \<le> added then st
      else case resolve_symbol db h None of None \<Rightarrow> dispatch_targets db p caller hs added st
        | Some callee \<Rightarrow>
            if caller = callee \<or> edge_key (dispatch_edge p caller callee) \<in> set (fst st) then dispatch_targets db p caller hs added st
            else dispatch_targets db p caller hs (added + 1)
              (fst st @ [edge_key (dispatch_edge p caller callee)], insert_inferred (dispatch_edge p caller callee) (snd st)))"

definition dispatch_structure :: "parser \<Rightarrow> ucs option \<Rightarrow> ucs list \<Rightarrow> ucs option" where
  "dispatch_structure parse metadata owners =
     (case Option.bind (Option.bind metadata parse) (get_text ''struct_hint'') of
        Some hint \<Rightarrow> if hint \<in> set owners then Some hint else if length owners = 1 then Some (hd owners) else None
      | None \<Rightarrow> if length owners = 1 then Some (hd owners) else None)"

definition dispatch_row :: "parser \<Rightarrow> ucs list \<Rightarrow> layouts \<Rightarrow> ((ucs \<times> ucs) \<times> ucs) list \<Rightarrow> index_db \<Rightarrow> pattern_row \<Rightarrow> pass_state \<Rightarrow> pass_state" where
  "dispatch_row parse typedefs m reg db p st =
     (case (p_signal_name p, p_handler p) of
        (Some field, Some enclosing) \<Rightarrow>
          if field_owners typedefs m field = [] then st
          else (case dispatch_structure parse (p_metadata p) (field_owners typedefs m field) of None \<Rightarrow> st
            | Some structure \<Rightarrow>
                if registered reg (structure, field) = [] then st
                else (case resolve_symbol db enclosing (Some (p_file_path p)) of None \<Rightarrow> st
                  | Some caller \<Rightarrow> dispatch_targets db p caller (registered reg (structure, field)) 0 st))
      | _ \<Rightarrow> st)"

definition synthesize_c_fnptr_dispatch_edges :: "parser \<Rightarrow> index_db \<Rightarrow> index_db" where
  "synthesize_c_fnptr_dispatch_edges parse db =
     (let typedefs = fnptr_typedefs db; m = struct_layouts parse db; reg = registrations parse typedefs m db
      in if reg = [] then db
         else snd (fold (dispatch_row parse typedefs m reg db)
           (sort_key (\<lambda>p. (line_or_zero (p_line p), p_file_path p, p_signal_name p, p_handler p, p_metadata p))
             (filter (\<lambda>p. p_type p = lit ''c_fnptr_dispatch'') (i_patterns db))) ([], db)))"

section \<open>All passes\<close>

definition synth_run_all :: "PostprocessConfig \<Rightarrow> parser \<Rightarrow> index_db \<Rightarrow> index_db" where
  "synth_run_all cfg parse db =
     synthesize_rust_trait_impl_edges (nat (synth_interface_fanout_cap cfg))
       (synthesize_c_fnptr_dispatch_edges parse
         (synthesize_interface_override_edges parse (nat (synth_interface_fanout_cap cfg))
           (synthesize_event_emitter_edges (nat (synth_event_fanout_cap cfg)) db)))"

end
