(* ===== verification/Clusters.thy ===== *)
theory Clusters
  imports Dispatch
begin

text \<open>
  The later stages of \<^verbatim>\<open>postprocess.rs\<close> and \<^verbatim>\<open>clusters.rs\<close>: the bases of Rust types, the kinds of
  files, clusters, and the two orders of stages, of a full and of an incremental scan.  The two comparisons
  of a ratio with a floating-point threshold are parameters, functions of the two counts.
\<close>

section \<open>Bases of Rust types\<close>

definition rust_type :: "symbol_row \<Rightarrow> bool" where
  "rust_type s \<longleftrightarrow> s_type s \<in> set [lit ''struct'', lit ''enum'']"

definition symbol_key :: "symbol_row \<Rightarrow> ucs \<times> ucs" where
  "symbol_key s = (s_file_path s, s_name s)"

definition resolve_rust_impl_target :: "index_db \<Rightarrow> ucs \<Rightarrow> ucs \<Rightarrow> (ucs \<times> ucs) option" where
  "resolve_rust_impl_target db impl_file full_type =
     (let types = filter rust_type (i_symbols db);
          exact = map symbol_key (filter (\<lambda>s. s_file_path s = impl_file \<and> s_name s = full_type) types);
          short = rsplit_last 46 full_type;
          same_file = map symbol_key (sort_key s_name (filter (\<lambda>s. s_file_path s = impl_file \<and> s_short_name s = Some short) types));
          global_rows = map symbol_key (sort_key symbol_key (filter (\<lambda>s. s_short_name s = Some short \<and> sql_like (lit ''%.rs'') (s_file_path s)) types))
      in if length exact = 1 then Some (hd exact)
         else if length same_file = 1 then Some (hd same_file)
         else if same_file \<noteq> [] then None
         else if length global_rows = 1 then Some (hd global_rows) else None)"

definition add_trait :: "index_db \<Rightarrow> ucs \<times> ucs \<times> ucs \<Rightarrow> ((ucs \<times> ucs) \<times> ucs list) list \<Rightarrow> ((ucs \<times> ucs) \<times> ucs list) list" where
  "add_trait db = (\<lambda>(impl_file, trait_name, full_type) merged.
     case resolve_rust_impl_target db impl_file full_type of None \<Rightarrow> merged
     | Some t \<Rightarrow> map_extend t (if trait_name \<in> set (map_values merged t) then [] else [trait_name]) merged)"

definition merged_traits :: "index_db \<Rightarrow> ((ucs \<times> ucs) \<times> ucs list) list" where
  "merged_traits db = fold (add_trait db) (trait_impls db) []"

definition new_bases :: "((ucs \<times> ucs) \<times> ucs list) list \<Rightarrow> symbol_row \<Rightarrow> ucs option" where
  "new_bases merged s =
     (let traits = map_values merged (symbol_key s) in if traits = [] then None else Some (dumps_default (JArray (map JString traits))))"

definition overwrite_bases :: "((ucs \<times> ucs) \<times> ucs list) list \<Rightarrow> symbol_row \<Rightarrow> index_db \<Rightarrow> index_db" where
  "overwrite_bases merged s db =
     (if new_bases merged s \<noteq> s_bases s
      then db\<lparr>i_symbols := update_where (\<lambda>r. symbol_key r = symbol_key s) (\<lambda>r. r\<lparr>s_bases := new_bases merged s\<rparr>) (i_symbols db)\<rparr>
      else db)"

definition overwrite_rust_trait_bases :: "index_db \<Rightarrow> index_db" where
  "overwrite_rust_trait_bases db =
     fold (overwrite_bases (merged_traits db))
       (sort_key symbol_key (filter (\<lambda>s. rust_type s \<and> sql_like (lit ''%.rs'') (s_file_path s)) (i_symbols db))) db"

section \<open>Kinds of files\<close>

record pipeline =
  pl_config :: PostprocessConfig
  pl_index :: index_env
  pl_low_cohesion :: "int \<Rightarrow> int \<Rightarrow> bool"
  pl_sparse :: "int \<Rightarrow> int \<Rightarrow> bool"

definition compute_kind_hint :: "pipeline \<Rightarrow> int \<Rightarrow> int \<Rightarrow> ucs" where
  "compute_kind_hint p sym_count intra_edges =
     (if sym_count < file_kind_min_symbols (pl_config p) then lit ''trivial''
      else if pl_low_cohesion p intra_edges sym_count then lit ''low_cohesion'' else lit ''cohesive'')"

definition kind_of :: "pipeline \<Rightarrow> index_db \<Rightarrow> ucs \<Rightarrow> ucs" where
  "kind_of p db path =
     compute_kind_hint p (int (count_where (\<lambda>s. s_file_path s = path) (i_symbols db)))
       (int (count_where (\<lambda>x. e_source_file x = path \<and> e_callee_file x = Some path) (i_edges db)))"

definition set_kind :: "pipeline \<Rightarrow> ucs \<Rightarrow> index_db \<Rightarrow> index_db" where
  "set_kind p path db =
     db\<lparr>i_files := update_where (\<lambda>f. f_path f = path) (\<lambda>f. f\<lparr>f_kind_hint := Some (kind_of p db path)\<rparr>) (i_files db)\<rparr>"

definition compute_file_kinds_for :: "pipeline \<Rightarrow> ucs list \<Rightarrow> index_db \<Rightarrow> index_db" where
  "compute_file_kinds_for p paths db = fold (set_kind p) paths db"

definition compute_file_kinds :: "pipeline \<Rightarrow> index_db \<Rightarrow> index_db" where
  "compute_file_kinds p db = compute_file_kinds_for p (btree_set (map f_path (i_files db))) db"

section \<open>Clusters\<close>

definition top_group :: "ucs \<Rightarrow> ucs" where
  "top_group path = (if 47 \<in> set path then takeWhile (\<lambda>c. c \<noteq> 47) path else lit ''_root'')"

definition cluster_group :: "ucs \<Rightarrow> ucs" where
  "cluster_group name = takeWhile (\<lambda>c. c \<noteq> 47) name"

definition group_paths :: "(ucs \<Rightarrow> ucs) \<Rightarrow> ucs list \<Rightarrow> (ucs \<times> ucs list) list" where
  "group_paths key_of paths = fold (\<lambda>path. map_extend (key_of path) [path]) paths []"

text \<open>A large group is split by its second path component; files directly below the group keep its name.\<close>

definition sub_group :: "ucs \<Rightarrow> ucs \<Rightarrow> ucs" where
  "sub_group gname path =
     (let parts = split_on 47 path in if 2 < length parts then parts ! 0 @ [47] @ parts ! 1 else gname)"

definition final_groups :: "PostprocessConfig \<Rightarrow> ucs \<times> ucs list \<Rightarrow> (ucs \<times> ucs list) list" where
  "final_groups cfg = (\<lambda>(gname, members).
     if nat (cluster_max_size cfg) < length members then group_paths (sub_group gname) members else [(gname, members)])"

definition internal_edges :: "index_db \<Rightarrow> ucs list \<Rightarrow> int" where
  "internal_edges db paths =
     int (count_where (\<lambda>x. e_source_file x \<in> set paths \<and> (case e_callee_file x of None \<Rightarrow> False | Some f \<Rightarrow> f \<in> set paths)) (i_edges db))"

definition called_from :: "index_db \<Rightarrow> ucs list \<Rightarrow> ucs list" where
  "called_from db paths =
     List.map_filter e_callee_qualified (filter (\<lambda>x. case e_callee_file x of None \<Rightarrow> False | Some f \<Rightarrow> f \<in> set paths) (i_edges db))"

definition entry_symbols :: "PostprocessConfig \<Rightarrow> index_db \<Rightarrow> ucs list \<Rightarrow> ucs list" where
  "entry_symbols cfg db paths =
     (let calls = called_from db paths;
          ranked = sort_key (\<lambda>q. (- int (count_where (\<lambda>c. c = q) calls), q)) (remdups calls);
          chosen = (if cluster_entry_count cfg < 0 then ranked else take (nat (cluster_entry_count cfg)) ranked)
      in if chosen = [] then [paths ! 0 @ lit ''::*''] else chosen)"

definition insert_cluster :: "PostprocessConfig \<Rightarrow> ucs \<Rightarrow> ucs list \<Rightarrow> index_db \<Rightarrow> index_db" where
  "insert_cluster cfg name paths db =
     (let cluster_id = seq_clusters (i_seq db)
      in db\<lparr>i_clusters := i_clusters db @ [\<lparr>cl_id = cluster_id, cl_name = name, cl_label = None,
              cl_entry_symbols = dumps_default (JArray (map JString (entry_symbols cfg db paths))), cl_file_count = int (length paths)\<rparr>],
            i_members := i_members db @ map (\<lambda>path. \<lparr>cm_cluster_id = cluster_id, cm_file_path = path\<rparr>) paths,
            i_counters := (if list_ex (\<lambda>r. nc_node_kind r = lit ''cluster'' \<and> nc_node_ref r = name) (i_counters db) then i_counters db
              else i_counters db @ [\<lparr>nc_node_kind = lit ''cluster'', nc_node_ref = name, nc_child_changes = 0, nc_leaf_count = 0\<rparr>]),
            i_seq := (i_seq db)\<lparr>seq_clusters := seq_clusters (i_seq db) + 1\<rparr>\<rparr>)"

definition members_of :: "index_db \<Rightarrow> ucs \<Rightarrow> ucs list" where
  "members_of db name =
     btree_set (map cm_file_path (filter (\<lambda>m. cm_cluster_id m \<in> cl_id ` {c \<in> set (i_clusters db). cl_name c = name}) (i_members db)))"

definition add_cluster :: "pipeline \<Rightarrow> (ucs \<times> ucs list) list \<Rightarrow> ucs \<times> ucs list \<Rightarrow> index_db \<Rightarrow> index_db" where
  "add_cluster p existing_members = (\<lambda>(name, paths) db.
     if length paths < 2 \<or> pl_sparse p (internal_edges db paths) (int (length paths)) then db
     else (let db1 = insert_cluster (pl_config p) name paths db;
               db2 = (if map_of existing_members name \<noteq> Some (btree_set paths)
                      then snd (mark_current_summary_stale (pl_index p) (lit ''cluster'') name db1) else db1)
           in refresh_node (pl_index p) (lit ''cluster'') name db2))"

definition drop_clusters :: "ucs list \<Rightarrow> index_db \<Rightarrow> index_db" where
  "drop_clusters names db =
     db\<lparr>i_members := filter (\<lambda>m. cm_cluster_id m \<notin> cl_id ` {c \<in> set (i_clusters db). cl_name c \<in> set names}) (i_members db),
        i_clusters := filter (\<lambda>c. cl_name c \<notin> set names) (i_clusters db)\<rparr>"

text \<open>Documents and counters of clusters of the scope that are gone.\<close>

definition sweep_clusters :: "ucs list \<Rightarrow> ucs list \<Rightarrow> index_db \<Rightarrow> index_db" where
  "sweep_clusters scope existing_names db =
     (let current_refs = filter (\<lambda>n. cluster_group n \<in> set scope) (map cl_name (i_clusters db));
          db1 = fold (delete_node (lit ''cluster'')) (filter (\<lambda>n. n \<notin> set current_refs) existing_names) db
      in db1\<lparr>i_counters := filter (\<lambda>r. \<not> (nc_node_kind r = lit ''cluster'' \<and> cluster_group (nc_node_ref r) \<in> set scope \<and> nc_node_ref r \<notin> set current_refs))
           (i_counters db1)\<rparr>)"

definition cluster_candidates :: "PostprocessConfig \<Rightarrow> ucs list \<Rightarrow> index_db \<Rightarrow> (ucs \<times> ucs list) list" where
  "cluster_candidates cfg scope db =
     concat (map (final_groups cfg) (filter (\<lambda>(_, members). 2 \<le> length members)
       (group_paths top_group (filter (\<lambda>path. top_group path \<in> set scope) (map f_path (sort_key f_path (i_files db)))))))"

definition detect_clusters_for :: "pipeline \<Rightarrow> ucs list \<Rightarrow> index_db \<Rightarrow> index_db" where
  "detect_clusters_for p scope db =
     (let existing_names = filter (\<lambda>n. cluster_group n \<in> set scope) (sort (map cl_name (i_clusters db)));
          existing_members = map (\<lambda>n. (n, members_of db n)) existing_names;
          candidates = cluster_candidates (pl_config p) scope db
      in sweep_clusters scope existing_names (fold (add_cluster p existing_members) candidates (drop_clusters existing_names db)))"

definition detect_clusters :: "pipeline \<Rightarrow> index_db \<Rightarrow> index_db" where
  "detect_clusters p db =
     detect_clusters_for p (btree_set (map top_group (map f_path (i_files db)) @ map (\<lambda>c. cluster_group (cl_name c)) (i_clusters db))) db"

section \<open>The stages\<close>

definition postprocess_run :: "pipeline \<Rightarrow> index_db \<Rightarrow> index_db" where
  "postprocess_run p db =
     (let cfg = pl_config p; parse = ie_parse (pl_index p);
          db1 = full_resolution cfg parse db;
          db2 = overwrite_rust_trait_bases (purge_heuristic_edges db1);
          db3 = synth_run_all cfg parse db2
      in detect_clusters p (compute_file_kinds p db3))"

definition snapshot_key :: "edge_row \<Rightarrow> ucs \<times> ucs \<times> ucs" where
  "snapshot_key x = (e_source_file x, case e_callee_file x of None \<Rightarrow> [] | Some f \<Rightarrow> f, case e_callee_qualified x of None \<Rightarrow> [] | Some q \<Rightarrow> q)"

text \<open>The keys of the inferred edges; the snapshot maps a key to the number of its occurrences.\<close>

definition inferred_snapshot :: "index_db \<Rightarrow> (ucs \<times> ucs \<times> ucs) list" where
  "inferred_snapshot db = map snapshot_key (filter inferred (i_edges db))"

definition snapshot_changes :: "(ucs \<times> ucs \<times> ucs) list \<Rightarrow> (ucs \<times> ucs \<times> ucs) list \<Rightarrow> ucs list" where
  "snapshot_changes older newer =
     concat (map (\<lambda>(source_file, callee_file, _). if callee_file = [] then [source_file] else [source_file, callee_file])
       (filter (\<lambda>k. count_where (\<lambda>k'. k' = k) older \<noteq> count_where (\<lambda>k'. k' = k) newer) (older @ newer)))"

definition target_files :: "int list \<Rightarrow> index_db \<Rightarrow> ucs list" where
  "target_files ids db =
     concat (map (\<lambda>x. case e_callee_file x of None \<Rightarrow> [] | Some f \<Rightarrow> [f]) (filter (\<lambda>x. e_id x \<in> set ids) (i_edges db)))"

definition run_incremental :: "pipeline \<Rightarrow> ScanDelta \<Rightarrow> index_db \<Rightarrow> index_db" where
  "run_incremental p delta db =
     (let cfg = pl_config p; parse = ie_parse (pl_index p);
          ids = target_ids parse delta db;
          affected0 = touched_files delta @ target_files ids db @ map e_source_file (filter (\<lambda>x. e_id x \<in> set ids) (i_edges db));
          db1 = incremental_resolution cfg parse delta db;
          affected1 = affected0 @ target_files ids db1;
          db2 = overwrite_rust_trait_bases (purge_heuristic_edges db1);
          db3 = synth_run_all cfg parse db2;
          affected = btree_set (affected1 @ snapshot_changes (inferred_snapshot db1) (inferred_snapshot db3));
          db4 = compute_file_kinds_for p affected db3
      in detect_clusters_for p (btree_set (map top_group affected)) db4)"

end
