(* ===== verification/Emission.thy ===== *)
theory Emission
  imports Clusters
begin

text \<open>
  A pass over the index only appends inferred edges: each of its steps emits a list of edges that depends on the
  keys seen so far and on nothing it wrote, with new and distinct keys.
\<close>

section \<open>Steps that emit\<close>

definition emitting :: "(InferredEdge \<Rightarrow> bool) \<Rightarrow> (pass_state \<Rightarrow> pass_state) \<Rightarrow> bool" where
  "emitting P F \<longleftrightarrow> (\<forall>seen. \<exists>es. (\<forall>x \<in> set es. P x) \<and> distinct (map edge_key es) \<and> set (map edge_key es) \<inter> set seen = {} \<and>
     (\<forall>db. F (seen, db) = (seen @ map edge_key es, fold insert_inferred es db)))"

named_theorems emits

lemma emitting_id [emits]: "emitting P (\<lambda>st. st)"
  unfolding emitting_def by (intro allI exI [of _ "[]"]) simp

lemma emitting_comp [emits]:
  assumes "emitting P F" "emitting P G"
  shows "emitting P (\<lambda>st. G (F st))"
  unfolding emitting_def
proof
  fix seen
  obtain es where es: "\<forall>x \<in> set es. P x" "distinct (map edge_key es)" "set (map edge_key es) \<inter> set seen = {}"
    "\<forall>db. F (seen, db) = (seen @ map edge_key es, fold insert_inferred es db)"
    using assms(1) unfolding emitting_def by blast
  obtain es' where es': "\<forall>x \<in> set es'. P x" "distinct (map edge_key es')" "set (map edge_key es') \<inter> set (seen @ map edge_key es) = {}"
    "\<forall>db. G (seen @ map edge_key es, db) = ((seen @ map edge_key es) @ map edge_key es', fold insert_inferred es' db)"
    using assms(2) unfolding emitting_def by blast
  show "\<exists>es. (\<forall>x \<in> set es. P x) \<and> distinct (map edge_key es) \<and> set (map edge_key es) \<inter> set seen = {} \<and>
     (\<forall>db. G (F (seen, db)) = (seen @ map edge_key es, fold insert_inferred es db))"
    by (rule exI [of _ "es @ es'"]) (use es es' in auto)
qed

lemma emitting_fold:
  assumes "\<And>x. x \<in> set xs \<Longrightarrow> emitting P (f x)"
  shows "emitting P (fold f xs)"
  using assms
proof (induction xs)
  case Nil
  then show ?case using emitting_id [of P] by (simp add: id_def)
next
  case (Cons x xs)
  then show ?case using emitting_comp [of P "f x" "fold f xs"] by (simp add: comp_def)
qed

lemma emitting_new [emits]:
  assumes "P x"
  shows "emitting P (\<lambda>st. if edge_key x \<in> set (fst st) then st else (fst st @ [edge_key x], insert_inferred x (snd st)))"
  unfolding emitting_def
proof
  fix seen
  show "\<exists>es. (\<forall>x \<in> set es. P x) \<and> distinct (map edge_key es) \<and> set (map edge_key es) \<inter> set seen = {} \<and>
     (\<forall>db. (if edge_key x \<in> set (fst (seen, db)) then (seen, db) else (fst (seen, db) @ [edge_key x], insert_inferred x (snd (seen, db)))) =
       (seen @ map edge_key es, fold insert_inferred es db))"
    by (rule exI [of _ "if edge_key x \<in> set seen then [] else [x]"]) (use assms in auto)
qed

lemma emitting_if [emits]: "(\<not> b \<Longrightarrow> emitting P F) \<Longrightarrow> emitting P (\<lambda>st. if b then st else F st)"
  by (cases b) (simp_all add: emitting_id)

lemma emitting_weaken: "emitting P F \<Longrightarrow> (\<And>x. P x \<Longrightarrow> Q x) \<Longrightarrow> emitting Q F"
  unfolding emitting_def by meson

section \<open>The steps of the passes\<close>

lemma override_loop_emits:
  assumes "\<And>m. m \<in> set ms \<Longrightarrow> rsplit_last 46 (s_name m) \<in> set shorts \<Longrightarrow> P (edge m)"
  shows "emitting P (override_loop cap shorts edge ms added)"
  unfolding emitting_def
proof
  fix seen
  show "\<exists>es. (\<forall>x \<in> set es. P x) \<and> distinct (map edge_key es) \<and> set (map edge_key es) \<inter> set seen = {} \<and>
     (\<forall>db. override_loop cap shorts edge ms added (seen, db) = (seen @ map edge_key es, fold insert_inferred es db))"
    using assms
  proof (induction ms arbitrary: added seen)
    case Nil
    then show ?case by (intro exI [of _ "[]"]) simp
  next
    case (Cons m ms)
    have tail: "\<exists>es. (\<forall>x \<in> set es. P x) \<and> distinct (map edge_key es) \<and> set (map edge_key es) \<inter> set seen' = {} \<and>
        (\<forall>db. override_loop cap shorts edge ms added' (seen', db) = (seen' @ map edge_key es, fold insert_inferred es db))" for added' seen'
      using Cons by auto
    consider "cap \<le> added" | "\<not> cap \<le> added" "rsplit_last 46 (s_name m) \<notin> set shorts \<or> edge_key (edge m) \<in> set seen"
      | "\<not> cap \<le> added" "rsplit_last 46 (s_name m) \<in> set shorts" "edge_key (edge m) \<notin> set seen" by blast
    then show ?case
    proof cases
      case 1
      then show ?thesis by (intro exI [of _ "[]"]) simp
    next
      case 2
      then have "override_loop cap shorts edge (m # ms) added (seen, db) = override_loop cap shorts edge ms added (seen, db)" for db by auto
      then show ?thesis using tail [of seen added] by simp
    next
      case 3
      obtain es where es: "\<forall>x \<in> set es. P x" "distinct (map edge_key es)" "set (map edge_key es) \<inter> set (seen @ [edge_key (edge m)]) = {}"
        "\<forall>db. override_loop cap shorts edge ms (added + 1) (seen @ [edge_key (edge m)], db) =
           ((seen @ [edge_key (edge m)]) @ map edge_key es, fold insert_inferred es db)"
        using tail [of "seen @ [edge_key (edge m)]" "added + 1"] by blast
      have "P (edge m)" using Cons.prems [of m] 3(2) by simp
      then show ?thesis using es 3 by (intro exI [of _ "edge m # es"]) auto
    qed
  qed
qed

text \<open>
  The reasons for an edge of the override passes: a method of a base and a method of the same short name of an
  implementation, where the base is a class the implementing class names among its bases, or a trait a noted
  implementation names.
\<close>

definition overrides :: "index_db \<Rightarrow> ucs \<Rightarrow> symbol_row \<Rightarrow> ucs \<Rightarrow> ucs \<Rightarrow> InferredEdge \<Rightarrow> bool" where
  "overrides db via base impl_path impl_type x \<longleftrightarrow>
     (\<exists>m \<in> set (methods_of db (s_file_path base) (s_name base)). \<exists>m' \<in> set (methods_of db impl_path impl_type).
        rsplit_last 46 (s_name m') = rsplit_last 46 (s_name m) \<and> x = override_edge via (s_file_path base) impl_path impl_type m)"

definition interface_facts :: "parser \<Rightarrow> index_db \<Rightarrow> InferredEdge \<Rightarrow> bool" where
  "interface_facts parse db x \<longleftrightarrow>
     (\<exists>c \<in> set (i_symbols db). \<exists>base \<in> set (i_symbols db). \<exists>bases base_name.
        s_type c = lit ''class'' \<and> Option.bind (s_bases c) (parse_bases parse) = Some bases \<and> base_name \<in> set bases \<and>
        s_type base = lit ''class'' \<and> s_short_name base = Some base_name \<and>
        overrides db (lit ''interface-impl'') base (s_file_path c) (s_name c) x)"

definition trait_facts :: "index_db \<Rightarrow> InferredEdge \<Rightarrow> bool" where
  "trait_facts db x \<longleftrightarrow>
     (\<exists>p \<in> set (i_patterns db). \<exists>base \<in> set (i_symbols db). \<exists>trait_name full_type.
        p_type p = lit ''rust_trait_impl'' \<and> p_signal_name p = Some trait_name \<and> p_handler p = Some full_type \<and>
        s_type base = lit ''interface'' \<and> s_short_name base = Some trait_name \<and> sql_like (lit ''%.rs'') (s_file_path base) \<and>
        overrides db (lit ''trait-impl'') base (p_file_path p) full_type x)"

lemma override_base_emits:
  assumes "\<And>x. overrides db via base impl_path impl_type x \<Longrightarrow> P x"
  shows "emitting P (override_base db cap via impl_path impl_type base)"
  unfolding override_base_def
proof (rule override_loop_emits)
  fix m assume m: "m \<in> set (methods_by_line db (s_file_path base) (s_name base))"
    and short: "rsplit_last 46 (s_name m) \<in> set (method_shorts db impl_path impl_type)"
  obtain m' where m': "m' \<in> set (methods_of db impl_path impl_type)" "rsplit_last 46 (s_name m') = rsplit_last 46 (s_name m)"
    using short by (auto simp: method_shorts_def)
  have "m \<in> set (methods_of db (s_file_path base) (s_name base))" using m by (simp add: methods_by_line_def)
  then show "P (override_edge via (s_file_path base) impl_path impl_type m)"
    using m' by (intro assms) (auto simp: overrides_def)
qed

lemma interface_class_emits:
  assumes c: "c \<in> set (i_symbols db)" "s_type c = lit ''class''"
  shows "emitting (interface_facts parse db) (interface_class parse db cap c)"
proof (cases "Option.bind (s_bases c) (parse_bases parse)")
  case None
  then show ?thesis by (simp add: interface_class_def [abs_def] emitting_id)
next
  case (Some bases)
  have facts: "interface_facts parse db x"
    if "base_name \<in> set bases" "base \<in> set (i_symbols db)" "s_type base = lit ''class''" "s_short_name base = Some base_name"
      "overrides db (lit ''interface-impl'') base (s_file_path c) (s_name c) x" for base_name base x
    unfolding interface_facts_def using c Some that by blast
  have step: "emitting (interface_facts parse db) (fold (\<lambda>base_name. fold (override_base db cap (lit ''interface-impl'') (s_file_path c) (s_name c))
      (sort_key (\<lambda>s. (s_file_path s, s_name s)) (filter (\<lambda>s. s_type s = lit ''class'' \<and> s_short_name s = Some base_name) (i_symbols db)))) (btree_set bases))"
  proof (intro emitting_fold override_base_emits)
    fix base_name base x
    assume "base_name \<in> set (btree_set bases)"
      "base \<in> set (sort_key (\<lambda>s. (s_file_path s, s_name s)) (filter (\<lambda>s. s_type s = lit ''class'' \<and> s_short_name s = Some base_name) (i_symbols db)))"
      "overrides db (lit ''interface-impl'') base (s_file_path c) (s_name c) x"
    then show "interface_facts parse db x" using facts [of base_name base x] by simp
  qed
  show ?thesis unfolding interface_class_def [abs_def] Some option.case by (rule emitting_if [OF step])
qed

lemma trait_impl_emits:
  assumes "t \<in> set (trait_impls db)"
  shows "emitting (trait_facts db) (trait_impl db cap t)"
proof -
  obtain impl_file trait_name full_type where t: "t = (impl_file, trait_name, full_type)" by (cases t)
  obtain p where p: "p \<in> set (i_patterns db)" "p_type p = lit ''rust_trait_impl''" "p_signal_name p = Some trait_name" "p_handler p = Some full_type"
    "p_file_path p = impl_file"
    using assms by (auto simp: trait_impls_def t map_filter_def split: option.splits)
  have facts: "trait_facts db x"
    if "base \<in> set (i_symbols db)" "s_type base = lit ''interface''" "s_short_name base = Some trait_name" "sql_like (lit ''%.rs'') (s_file_path base)"
      "overrides db (lit ''trait-impl'') base impl_file full_type x" for base x
    unfolding trait_facts_def using p that by blast
  have step: "emitting (trait_facts db) (fold (override_base db cap (lit ''trait-impl'') impl_file full_type)
      (sort_key (\<lambda>s. (s_file_path s, s_name s)) (filter (\<lambda>s. s_type s = lit ''interface'' \<and> s_short_name s = Some trait_name \<and>
        sql_like (lit ''%.rs'') (s_file_path s)) (i_symbols db))))"
  proof (intro emitting_fold override_base_emits)
    fix base x
    assume "base \<in> set (sort_key (\<lambda>s. (s_file_path s, s_name s)) (filter (\<lambda>s. s_type s = lit ''interface'' \<and> s_short_name s = Some trait_name \<and>
        sql_like (lit ''%.rs'') (s_file_path s)) (i_symbols db)))" "overrides db (lit ''trait-impl'') base impl_file full_type x"
    then show "trait_facts db x" using facts [of base x] by simp
  qed
  show ?thesis unfolding trait_impl_def t prod.case by (rule emitting_if [OF step])
qed

lemma event_target_emits:
  assumes "\<And>h_func. h = Some h_func \<Longrightarrow> \<not> (p_file_path p = h_path \<and> func = h_func) \<Longrightarrow> P (event_edge via p func h_path h_func)"
  shows "emitting P (event_target via p func (h_path, h))"
proof (cases h)
  case None
  then show ?thesis by (simp add: event_target_def emitting_id)
next
  case (Some h_func)
  have run: "event_target via p func (h_path, h) = (\<lambda>st. if p_file_path p = h_path \<and> func = h_func then st
      else if edge_key (event_edge via p func h_path h_func) \<in> set (fst st) then st
        else (fst st @ [edge_key (event_edge via p func h_path h_func)], insert_inferred (event_edge via p func h_path h_func) (snd st)))"
    by (rule ext) (simp add: event_target_def Some Let_def)
  show ?thesis unfolding run by (intro emitting_if emitting_new assms [OF Some])
qed

lemma event_emitter_emits:
  assumes "\<And>signal func h_path h_func ts. p_signal_name p = Some signal \<Longrightarrow> p_handler p = Some func \<Longrightarrow> map_of targets signal = Some ts \<Longrightarrow>
      length ts \<le> cap \<Longrightarrow> (h_path, Some h_func) \<in> set ts \<Longrightarrow> \<not> (p_file_path p = h_path \<and> func = h_func) \<Longrightarrow> P (event_edge via p func h_path h_func)"
  shows "emitting P (event_emitter via cap targets p)"
proof (cases "\<exists>signal func ts. p_signal_name p = Some signal \<and> p_handler p = Some func \<and> map_of targets signal = Some ts")
  case False
  then have "event_emitter via cap targets p = (\<lambda>st. st)" by (intro ext) (auto simp: event_emitter_def split: option.split)
  then show ?thesis by (simp add: emitting_id)
next
  case True
  then obtain signal func ts where eq: "p_signal_name p = Some signal" "p_handler p = Some func" "map_of targets signal = Some ts" by blast
  have "emitting P (fold (event_target via p func) ts)" if "\<not> cap < length ts"
  proof (rule emitting_fold)
    fix t assume t: "t \<in> set ts"
    obtain h_path h where split: "t = (h_path, h)" by (cases t)
    show "emitting P (event_target via p func t)"
      unfolding split by (rule event_target_emits) (use assms eq that t split in auto)
  qed
  then show ?thesis unfolding event_emitter_def [abs_def] eq option.case prod.case by (rule emitting_if)
qed

lemma dispatch_targets_emits:
  assumes "\<And>h callee. h \<in> set hs \<Longrightarrow> resolve_symbol db h None = Some callee \<Longrightarrow> caller \<noteq> callee \<Longrightarrow> P (dispatch_edge p caller callee)"
  shows "emitting P (dispatch_targets db p caller hs added)"
  unfolding emitting_def
proof
  fix seen
  show "\<exists>es. (\<forall>x \<in> set es. P x) \<and> distinct (map edge_key es) \<and> set (map edge_key es) \<inter> set seen = {} \<and>
     (\<forall>d. dispatch_targets db p caller hs added (seen, d) = (seen @ map edge_key es, fold insert_inferred es d))"
    using assms
  proof (induction hs arbitrary: added seen)
    case Nil
    then show ?case by (intro exI [of _ "[]"]) simp
  next
    case (Cons h hs)
    have tail: "\<exists>es. (\<forall>x \<in> set es. P x) \<and> distinct (map edge_key es) \<and> set (map edge_key es) \<inter> set seen' = {} \<and>
        (\<forall>d. dispatch_targets db p caller hs added' (seen', d) = (seen' @ map edge_key es, fold insert_inferred es d))" for added' seen'
      by (rule Cons.IH) (metis Cons.prems list.set_intros(2))
    show ?case
    proof (cases "C_FNPTR_TEE_FANOUT_CAP \<le> added")
      case True
      then show ?thesis by (intro exI [of _ "[]"]) simp
    next
      case room: False
      show ?thesis
      proof (cases "resolve_symbol db h None")
        case None
        then show ?thesis using tail [of seen added] room by simp
      next
        case (Some callee)
        let ?x = "dispatch_edge p caller callee"
        show ?thesis
        proof (cases "caller = callee \<or> edge_key ?x \<in> set seen")
          case True
          then show ?thesis using tail [of seen added] room Some by auto
        next
          case False
          obtain es where es: "\<forall>x \<in> set es. P x" "distinct (map edge_key es)" "set (map edge_key es) \<inter> set (seen @ [edge_key ?x]) = {}"
            "\<forall>d. dispatch_targets db p caller hs (added + 1) (seen @ [edge_key ?x], d) = ((seen @ [edge_key ?x]) @ map edge_key es, fold insert_inferred es d)"
            using tail [of "seen @ [edge_key ?x]" "added + 1"] by blast
          have "P ?x" using Cons.prems [of h callee] False Some by simp
          then show ?thesis using es False room Some by (intro exI [of _ "?x # es"]) auto
        qed
      qed
    qed
  qed
qed

text \<open>
  The reason for an edge of a call through a pointer: a call through a field and a registration of a handler for
  the same field of the structure.  The structure owns the field as a function pointer and is the one the call hints
  at or the only owner; the registration names an entry of its layouts, by name or by position; the edge goes
  from the function around the call to the function registered.
\<close>

definition registers :: "parser \<Rightarrow> index_db \<Rightarrow> pattern_row \<Rightarrow> ucs \<Rightarrow> ucs \<Rightarrow> ucs \<Rightarrow> bool" where
  "registers parse db r struct_name field handler \<longleftrightarrow>
     p_type r = lit ''c_fnptr_register'' \<and> p_signal_name r = Some struct_name \<and> p_handler r = Some handler \<and>
     (\<exists>md. Option.bind (p_metadata r) parse = Some md \<and>
        (\<exists>entry \<in> set (concat (map_values (struct_layouts parse db) struct_name)). get_text ''name'' entry = Some field \<and>
           field_matches (fnptr_typedefs db) (get_text ''field'' md) (Option.bind (json_get (lit ''slot'') md) as_i64) entry))"

definition calls_through :: "parser \<Rightarrow> index_db \<Rightarrow> pattern_row \<Rightarrow> ucs \<Rightarrow> ucs \<Rightarrow> ucs \<Rightarrow> bool" where
  "calls_through parse db p struct_name field enclosing \<longleftrightarrow>
     p_type p = lit ''c_fnptr_dispatch'' \<and> p_signal_name p = Some field \<and> p_handler p = Some enclosing \<and>
     (let owners = field_owners (fnptr_typedefs db) (struct_layouts parse db) field
      in struct_name \<in> set owners \<and>
         (Option.bind (Option.bind (p_metadata p) parse) (get_text ''struct_hint'') = Some struct_name \<or> owners = [struct_name]))"

definition dispatch_facts :: "parser \<Rightarrow> index_db \<Rightarrow> InferredEdge \<Rightarrow> bool" where
  "dispatch_facts parse db x \<longleftrightarrow>
     (\<exists>p \<in> set (i_patterns db). \<exists>r \<in> set (i_patterns db). \<exists>struct_name field enclosing handler caller callee.
        calls_through parse db p struct_name field enclosing \<and> registers parse db r struct_name field handler \<and>
        resolve_symbol db enclosing (Some (p_file_path p)) = Some caller \<and> resolve_symbol db handler None = Some callee \<and>
        caller \<noteq> callee \<and> x = dispatch_edge p caller callee)"

lemma registered_registers:
  assumes "h \<in> set (registered (registrations parse (fnptr_typedefs db) (struct_layouts parse db) db) (struct_name, field))"
  shows "\<exists>r \<in> set (i_patterns db). registers parse db r struct_name field h"
proof -
  let ?reg = "registrations parse (fnptr_typedefs db) (struct_layouts parse db) db"
  have "((struct_name, field), h) \<in> set ?reg" using assms by (auto simp: registered_def)
  then obtain r where r: "r \<in> set (i_patterns db)" "p_type r = lit ''c_fnptr_register''"
    "register_row parse (fnptr_typedefs db) (struct_layouts parse db) r = Some ((struct_name, field), h)"
    by (auto simp: registrations_def map_filter_def)
  then obtain md metadata where md: "p_signal_name r = Some struct_name" "p_handler r = Some h" "p_metadata r = Some metadata" "parse metadata = Some md"
    "resolve_reg_field (fnptr_typedefs db) (struct_layouts parse db) struct_name (get_text ''field'' md) (Option.bind (json_get (lit ''slot'') md) as_i64) = Some field"
    by (auto simp: register_row_def split: option.splits)
  then obtain entry where "find (field_matches (fnptr_typedefs db) (get_text ''field'' md) (Option.bind (json_get (lit ''slot'') md) as_i64))
      (concat (map_values (struct_layouts parse db) struct_name)) = Some entry" "get_text ''name'' entry = Some field"
    by (auto simp: resolve_reg_field_def bind_eq_Some_conv)
  then have "entry \<in> set (concat (map_values (struct_layouts parse db) struct_name))" "get_text ''name'' entry = Some field"
    "field_matches (fnptr_typedefs db) (get_text ''field'' md) (Option.bind (json_get (lit ''slot'') md) as_i64) entry"
    using find_Some_iff_mem by fast+
  with r md show ?thesis unfolding registers_def by (intro bexI [OF _ r(1)]) auto
qed

lemma dispatch_structure_owner:
  assumes "dispatch_structure parse metadata owners = Some struct_name"
  shows "struct_name \<in> set owners \<and> (Option.bind (Option.bind metadata parse) (get_text ''struct_hint'') = Some struct_name \<or> owners = [struct_name])"
proof -
  have "owners = [struct_name]" if "length owners = 1" "struct_name = hd owners" using that by (cases owners) auto
  then show ?thesis using assms by (fastforce simp: dispatch_structure_def split: option.splits if_splits)
qed

lemma resolve_symbol_known: "resolve_symbol db name prefer = Some r \<Longrightarrow> r \<in> symbol_key ` set (i_symbols db)"
proof -
  let ?rows = "map (\<lambda>s. (s_file_path s, s_name s)) (sort_key (\<lambda>s. (s_file_path s, s_name s))
            (filter (\<lambda>s. symbol_named name s \<and> s_type s \<in> set [lit ''function'', lit ''macro'']) (i_symbols db)))"
  assume r: "resolve_symbol db name prefer = Some r"
  have "r \<in> set ?rows"
  proof (cases ?rows)
    case Nil
    then show ?thesis using r by (simp add: resolve_symbol_def Let_def)
  next
    case (Cons first rest)
    then show ?thesis using r find_Some_iff_mem [of _ ?rows r]
      unfolding resolve_symbol_def Let_def Cons by (auto split: option.splits)
  qed
  then show ?thesis unfolding symbol_key_def [abs_def] set_map set_sort set_filter by blast
qed

lemma dispatch_row_emits:
  assumes p: "p \<in> set (i_patterns db)" "p_type p = lit ''c_fnptr_dispatch''"
  shows "emitting (dispatch_facts parse db)
    (dispatch_row parse (fnptr_typedefs db) (struct_layouts parse db) (registrations parse (fnptr_typedefs db) (struct_layouts parse db) db) db p)"
proof -
  let ?t = "fnptr_typedefs db" and ?m = "struct_layouts parse db"
  let ?reg = "registrations parse ?t ?m db"
  show ?thesis
  proof (cases "\<exists>field enclosing struct_name caller. p_signal_name p = Some field \<and> p_handler p = Some enclosing \<and> field_owners ?t ?m field \<noteq> [] \<and>
      dispatch_structure parse (p_metadata p) (field_owners ?t ?m field) = Some struct_name \<and> registered ?reg (struct_name, field) \<noteq> [] \<and>
      resolve_symbol db enclosing (Some (p_file_path p)) = Some caller")
    case False
    then have "dispatch_row parse ?t ?m ?reg db p = (\<lambda>st. st)" by (intro ext) (auto simp: dispatch_row_def split: option.split)
    then show ?thesis by (simp add: emitting_id)
  next
    case True
    then obtain field enclosing struct_name caller where eq: "p_signal_name p = Some field" "p_handler p = Some enclosing" "field_owners ?t ?m field \<noteq> []"
      "dispatch_structure parse (p_metadata p) (field_owners ?t ?m field) = Some struct_name" "registered ?reg (struct_name, field) \<noteq> []"
      "resolve_symbol db enclosing (Some (p_file_path p)) = Some caller" by blast
    have run: "dispatch_row parse ?t ?m ?reg db p = dispatch_targets db p caller (registered ?reg (struct_name, field)) 0"
      by (rule ext) (simp add: dispatch_row_def eq)
    have call: "calls_through parse db p struct_name field enclosing"
      using p(2) eq(1,2) dispatch_structure_owner [OF eq(4)] by (simp add: calls_through_def Let_def)
    show ?thesis unfolding run
    proof (rule dispatch_targets_emits)
      fix h callee assume h: "h \<in> set (registered ?reg (struct_name, field))" "resolve_symbol db h None = Some callee" "caller \<noteq> callee"
      obtain r where "r \<in> set (i_patterns db)" "registers parse db r struct_name field h" using registered_registers [OF h(1)] by blast
      then show "dispatch_facts parse db (dispatch_edge p caller callee)"
        unfolding dispatch_facts_def using p(1) call eq(6) h(2,3) by blast
    qed
  qed
qed

section \<open>The passes\<close>

definition same_facts :: "index_db \<Rightarrow> index_db \<Rightarrow> bool" where
  "same_facts db db' \<longleftrightarrow> i_symbols db' = i_symbols db \<and> i_patterns db' = i_patterns db"

lemma same_facts_reads:
  assumes "same_facts db db'"
  shows "interface_class parse db' = interface_class parse db" "trait_impl db' = trait_impl db" "trait_impls db' = trait_impls db"
    "emitters db' = emitters db" "handlers db' = handlers db" "fnptr_typedefs db' = fnptr_typedefs db" "struct_layouts parse db' = struct_layouts parse db"
    "registrations parse typedefs m db' = registrations parse typedefs m db" "dispatch_row parse typedefs m reg db' = dispatch_row parse typedefs m reg db"
    "resolve_rust_impl_target db' = resolve_rust_impl_target db"
proof -
  have s: "i_symbols db' = i_symbols db" and p: "i_patterns db' = i_patterns db" using assms by (simp_all add: same_facts_def)
  have m: "methods_of db' = methods_of db" by (intro ext) (simp add: methods_of_def s)
  have b: "override_base db' = override_base db"
    by (intro ext) (simp add: override_base_def method_shorts_def methods_by_line_def m)
  have r: "resolve_symbol db' = resolve_symbol db" by (intro ext) (simp add: resolve_symbol_def s)
  have t: "dispatch_targets db' q caller hs added st = dispatch_targets db q caller hs added st" for q caller hs added st
    by (induction hs arbitrary: added st) (simp_all add: r split: option.split)
  show "interface_class parse db' = interface_class parse db" by (intro ext) (unfold interface_class_def b s m method_shorts_def, rule refl)
  show "trait_impl db' = trait_impl db" by (intro ext) (unfold trait_impl_def b s m method_shorts_def, rule refl)
  show "trait_impls db' = trait_impls db" by (simp add: trait_impls_def p)
  show "emitters db' = emitters db" by (intro ext) (simp add: emitters_def p)
  show "handlers db' = handlers db" by (intro ext) (simp add: handlers_def p)
  show "fnptr_typedefs db' = fnptr_typedefs db" by (simp add: fnptr_typedefs_def p)
  show "struct_layouts parse db' = struct_layouts parse db" by (simp add: struct_layouts_def p)
  show "registrations parse typedefs m db' = registrations parse typedefs m db" by (simp add: registrations_def p)
  have t': "dispatch_targets db' = dispatch_targets db" by (intro ext) (rule t)
  show "dispatch_row parse typedefs m reg db' = dispatch_row parse typedefs m reg db" by (intro ext) (unfold dispatch_row_def r t', rule refl)
  show "resolve_rust_impl_target db' = resolve_rust_impl_target db" by (intro ext) (simp add: resolve_rust_impl_target_def s)
qed

lemma insert_inferred_facts [simp]: "i_symbols (fold insert_inferred es db) = i_symbols db" "i_patterns (fold insert_inferred es db) = i_patterns db"
  by (induction es arbitrary: db) (simp_all add: insert_inferred_def)

text \<open>A pass adds a list of edges that the symbols and the patterns determine.\<close>

definition adds_edges :: "(InferredEdge \<Rightarrow> bool) \<Rightarrow> (index_db \<Rightarrow> index_db) \<Rightarrow> index_db \<Rightarrow> bool" where
  "adds_edges P pass db \<longleftrightarrow> (\<exists>es. (\<forall>x \<in> set es. P x) \<and> (\<forall>db'. same_facts db db' \<longrightarrow> pass db' = fold insert_inferred es db'))"

lemma adds_edges_comp:
  assumes "adds_edges P f db" "adds_edges P g db"
  shows "adds_edges P (\<lambda>d. g (f d)) db"
proof -
  obtain es where es: "\<forall>x \<in> set es. P x" "\<forall>db'. same_facts db db' \<longrightarrow> f db' = fold insert_inferred es db'" using assms(1) unfolding adds_edges_def by blast
  obtain es' where es': "\<forall>x \<in> set es'. P x" "\<forall>db'. same_facts db db' \<longrightarrow> g db' = fold insert_inferred es' db'" using assms(2) unfolding adds_edges_def by blast
  have "g (f db') = fold insert_inferred (es @ es') db'" if "same_facts db db'" for db'
  proof -
    have "same_facts db (fold insert_inferred es db')" using that by (simp add: same_facts_def)
    then show ?thesis using es(2) es'(2) that by simp
  qed
  then show ?thesis using es(1) es'(1) unfolding adds_edges_def by (intro exI [of _ "es @ es'"]) auto
qed

lemma adds_edges_weaken: "adds_edges P f db \<Longrightarrow> (\<And>x. P x \<Longrightarrow> Q x) \<Longrightarrow> adds_edges Q f db"
  unfolding adds_edges_def by meson

lemma pass_adds:
  assumes "emitting P F" "\<And>db'. same_facts db db' \<Longrightarrow> pass db' = snd (F ([], db'))"
  shows "adds_edges P pass db"
proof -
  obtain es where es: "\<forall>x \<in> set es. P x" "\<forall>db. F ([], db) = ([] @ map edge_key es, fold insert_inferred es db)"
    using assms(1) unfolding emitting_def by blast
  then show ?thesis unfolding adds_edges_def using assms(2) by (intro exI [of _ es]) simp
qed

text \<open>An event edge joins an emitter to a handler of the same signal, when the signal has no more handlers than the cap.\<close>

definition event_related :: "nat \<Rightarrow> index_db \<Rightarrow> ucs \<Rightarrow> ucs \<Rightarrow> ucs \<Rightarrow> pattern_row \<Rightarrow> pattern_row \<Rightarrow> InferredEdge \<Rightarrow> bool" where
  "event_related cap db emit_type connect_type via p h x \<longleftrightarrow>
     p_type p = emit_type \<and> p_type h = connect_type \<and> p_signal_name p \<noteq> None \<and> p_signal_name h = p_signal_name p \<and>
     p_handler p \<noteq> None \<and> p_handler h \<noteq> None \<and> (p_file_path p, p_handler p) \<noteq> (p_file_path h, p_handler h) \<and>
     count_where (\<lambda>q. p_type q = connect_type \<and> p_signal_name q = p_signal_name p) (i_patterns db) \<le> cap \<and>
     x = event_edge via p (the (p_handler p)) (p_file_path h) (the (p_handler h))"

definition event_facts :: "nat \<Rightarrow> index_db \<Rightarrow> InferredEdge \<Rightarrow> bool" where
  "event_facts cap db x \<longleftrightarrow>
     (\<exists>(emit_type, connect_type, via) \<in> set SIGNAL_PATTERNS. \<exists>p \<in> set (i_patterns db). \<exists>h \<in> set (i_patterns db).
        event_related cap db emit_type connect_type via p h x)"

lemma event_factsI:
  assumes "(emit_type, connect_type, via) \<in> set SIGNAL_PATTERNS" "p \<in> set (i_patterns db)" "h \<in> set (i_patterns db)"
    "event_related cap db emit_type connect_type via p h x"
  shows "event_facts cap db x"
  unfolding event_facts_def using assms by (intro bexI [OF _ assms(1)]) auto

lemma handler_map_values:
  "map_values (handler_map rows) s = map (\<lambda>p. (p_file_path p, p_handler p)) (filter (\<lambda>p. p_signal_name p = Some s) rows)"
proof -
  have "map_values (fold (\<lambda>p m. case p_signal_name p of None \<Rightarrow> m | Some s \<Rightarrow> map_extend s [(p_file_path p, p_handler p)] m) rows m) s =
      map_values m s @ map (\<lambda>p. (p_file_path p, p_handler p)) (filter (\<lambda>p. p_signal_name p = Some s) rows)" for m
    by (induction rows arbitrary: m) (auto simp: map_values_extend split: option.split)
  then show ?thesis by (simp add: handler_map_def)
qed

lemma signal_targets:
  assumes "map_of (handler_map (handlers db connect_type names)) s = Some ts" "s \<in> set names"
  shows "length ts = count_where (\<lambda>q. p_type q = connect_type \<and> p_signal_name q = Some s) (i_patterns db)"
    "t \<in> set ts \<longleftrightarrow> (\<exists>h \<in> set (i_patterns db). p_type h = connect_type \<and> p_signal_name h = Some s \<and> t = (p_file_path h, p_handler h))"
proof -
  let ?rows = "filter (\<lambda>p. p_signal_name p = Some s) (handlers db connect_type names)"
  have ts: "ts = map (\<lambda>p. (p_file_path p, p_handler p)) ?rows"
    using assms(1) handler_map_values [of "handlers db connect_type names" s] by (simp add: map_values_def)
  have "?rows = sort_key (\<lambda>p. (p_signal_name p, line_or_zero (p_line p), p_file_path p, p_handler p))
      (filter (\<lambda>p. p_type p = connect_type \<and> p_signal_name p = Some s) (i_patterns db))"
    unfolding handlers_def filter_sort filter_filter using assms(2) by (intro arg_cong [where f = "sort_key _"] filter_cong) auto
  then show "length ts = count_where (\<lambda>q. p_type q = connect_type \<and> p_signal_name q = Some s) (i_patterns db)"
    "t \<in> set ts \<longleftrightarrow> (\<exists>h \<in> set (i_patterns db). p_type h = connect_type \<and> p_signal_name h = Some s \<and> t = (p_file_path h, p_handler h))"
    by (auto simp: ts count_where_def)
qed

lemma emitters_set: "p \<in> set (emitters db t) \<longleftrightarrow> p \<in> set (i_patterns db) \<and> p_type p = t"
  by (auto simp: emitters_def)

lemma signal_names_set: "s \<in> set (btree_set (List.map_filter p_signal_name es)) \<longleftrightarrow> (\<exists>p \<in> set es. p_signal_name p = Some s)"
  by (force simp: map_filter_def)

lemma signal_pattern_adds:
  assumes "(emit_type, connect_type, via) \<in> set SIGNAL_PATTERNS"
  shows "adds_edges (event_facts cap db) (synthesize_signal_pattern cap (emit_type, connect_type, via)) db"
proof -
  let ?es = "emitters db emit_type" and ?names = "btree_set (List.map_filter p_signal_name (emitters db emit_type))"
  let ?targets = "handler_map (handlers db connect_type ?names)"
  let ?F = "\<lambda>st. if ?es = [] \<or> ?names = [] then st else fold (event_emitter via cap ?targets) ?es st"
  have "emitting (event_facts cap db) (event_emitter via cap ?targets p)" if p: "p \<in> set ?es" for p
  proof (rule event_emitter_emits)
    fix signal func h_path h_func ts
    assume eq: "p_signal_name p = Some signal" "p_handler p = Some func" "map_of ?targets signal = Some ts" "length ts \<le> cap"
      "(h_path, Some h_func) \<in> set ts" "\<not> (p_file_path p = h_path \<and> func = h_func)"
    have s: "signal \<in> set ?names" using p eq(1) signal_names_set by blast
    obtain h where h: "h \<in> set (i_patterns db)" "p_type h = connect_type" "p_signal_name h = Some signal" "(h_path, Some h_func) = (p_file_path h, p_handler h)"
      using signal_targets(2) [OF eq(3) s] eq(5) by blast
    have h': "p_file_path h = h_path" "p_handler h = Some h_func" using h(4) by simp_all
    have "count_where (\<lambda>q. p_type q = connect_type \<and> p_signal_name q = Some signal) (i_patterns db) \<le> cap"
      using signal_targets(1) [OF eq(3) s] eq(4) by simp
    then have "event_related cap db emit_type connect_type via p h (event_edge via p func h_path h_func)"
      using p h(1-3) h' eq by (auto simp: event_related_def emitters_set)
    then show "event_facts cap db (event_edge via p func h_path h_func)"
      using event_factsI [OF assms _ h(1)] p emitters_set by blast
  qed
  then have "emitting (event_facts cap db) ?F" by (intro emitting_if emitting_fold)
  then show ?thesis
  proof (rule pass_adds)
    fix db' assume "same_facts db db'"
    then show "synthesize_signal_pattern cap (emit_type, connect_type, via) db' = snd (?F ([], db'))"
      by (simp add: synthesize_signal_pattern_def same_facts_reads Let_def)
  qed
qed

lemma fold_adds: "(\<And>x. x \<in> set xs \<Longrightarrow> adds_edges P (f x) db) \<Longrightarrow> adds_edges P (fold f xs) db"
proof (induction xs)
  case Nil
  show ?case unfolding adds_edges_def by (intro exI [of _ "[]"]) simp
next
  case (Cons x xs)
  then show ?case using adds_edges_comp [of P "f x" db "fold f xs"] by (simp add: comp_def)
qed

lemma event_pass_adds: "adds_edges (event_facts cap db) (synthesize_event_emitter_edges cap) db"
proof -
  have "synthesize_event_emitter_edges cap = fold (synthesize_signal_pattern cap) SIGNAL_PATTERNS" by (rule ext) (simp add: synthesize_event_emitter_edges_def)
  moreover have "adds_edges (event_facts cap db) (fold (synthesize_signal_pattern cap) SIGNAL_PATTERNS) db"
    by (rule fold_adds) (metis signal_pattern_adds prod_cases3)
  ultimately show ?thesis by simp
qed

lemma override_pass_adds:
  "adds_edges (interface_facts parse db) (synthesize_interface_override_edges parse cap) db" "adds_edges (trait_facts db) (synthesize_rust_trait_impl_edges cap) db"
proof -
  let ?rows = "sort_key (\<lambda>s. (s_file_path s, s_name s)) (filter (\<lambda>s. s_type s = lit ''class'' \<and> s_bases s \<noteq> None) (i_symbols db))"
  have "emitting (interface_facts parse db) (fold (interface_class parse db cap) ?rows)"
    by (intro emitting_fold interface_class_emits) auto
  then show "adds_edges (interface_facts parse db) (synthesize_interface_override_edges parse cap) db"
  proof (rule pass_adds)
    fix db' assume f: "same_facts db db'"
    then have "i_symbols db' = i_symbols db" by (simp add: same_facts_def)
    then show "synthesize_interface_override_edges parse cap db' = snd (fold (interface_class parse db cap) ?rows ([], db'))"
      by (simp add: synthesize_interface_override_edges_def same_facts_reads [OF f])
  qed
  have "emitting (trait_facts db) (fold (trait_impl db cap) (trait_impls db))"
    by (intro emitting_fold trait_impl_emits)
  then show "adds_edges (trait_facts db) (synthesize_rust_trait_impl_edges cap) db"
    by (rule pass_adds) (simp add: synthesize_rust_trait_impl_edges_def same_facts_reads)
qed

lemma dispatch_pass_adds: "adds_edges (dispatch_facts parse db) (synthesize_c_fnptr_dispatch_edges parse) db"
proof -
  let ?t = "fnptr_typedefs db" and ?m = "struct_layouts parse db"
  let ?reg = "registrations parse ?t ?m db"
  let ?rows = "sort_key (\<lambda>p. (line_or_zero (p_line p), p_file_path p, p_signal_name p, p_handler p, p_metadata p))
             (filter (\<lambda>p. p_type p = lit ''c_fnptr_dispatch'') (i_patterns db))"
  have "emitting (dispatch_facts parse db) (\<lambda>st. if ?reg = [] then st else fold (dispatch_row parse ?t ?m ?reg db) ?rows st)"
    by (intro emitting_if emitting_fold dispatch_row_emits) auto
  then show ?thesis
  proof (rule pass_adds)
    fix db' assume f: "same_facts db db'"
    then have "i_patterns db' = i_patterns db" by (simp add: same_facts_def)
    then show "synthesize_c_fnptr_dispatch_edges parse db' = snd ((\<lambda>st. if ?reg = [] then st else fold (dispatch_row parse ?t ?m ?reg db) ?rows st) ([], db'))"
      by (simp add: synthesize_c_fnptr_dispatch_edges_def same_facts_reads [OF f] Let_def)
  qed
qed

text \<open>The reason of an inferred edge.\<close>

definition justified :: "PostprocessConfig \<Rightarrow> parser \<Rightarrow> index_db \<Rightarrow> InferredEdge \<Rightarrow> bool" where
  "justified cfg parse db x \<longleftrightarrow>
     event_facts (nat (synth_event_fanout_cap cfg)) db x \<or> interface_facts parse db x \<or> trait_facts db x \<or> dispatch_facts parse db x"

lemma synth_adds:
  "adds_edges (justified cfg parse db) (synth_run_all cfg parse) db"
  (is "adds_edges ?P _ _")
proof -
  have run: "synth_run_all cfg parse = (\<lambda>d. synthesize_rust_trait_impl_edges (nat (synth_interface_fanout_cap cfg)) (synthesize_c_fnptr_dispatch_edges parse
      (synthesize_interface_override_edges parse (nat (synth_interface_fanout_cap cfg)) (synthesize_event_emitter_edges (nat (synth_event_fanout_cap cfg)) d))))"
    by (rule ext) (simp add: synth_run_all_def)
  have a: "adds_edges ?P (synthesize_event_emitter_edges (nat (synth_event_fanout_cap cfg))) db"
    by (rule adds_edges_weaken [OF event_pass_adds]) (simp add: justified_def)
  have b: "adds_edges ?P (synthesize_interface_override_edges parse (nat (synth_interface_fanout_cap cfg))) db"
    by (rule adds_edges_weaken [OF override_pass_adds(1)]) (simp add: justified_def)
  have c: "adds_edges ?P (synthesize_c_fnptr_dispatch_edges parse) db"
    by (rule adds_edges_weaken [OF dispatch_pass_adds]) (simp add: justified_def)
  have d: "adds_edges ?P (synthesize_rust_trait_impl_edges (nat (synth_interface_fanout_cap cfg))) db"
    by (rule adds_edges_weaken [OF override_pass_adds(2)]) (simp add: justified_def)
  show ?thesis unfolding run by (rule adds_edges_comp [OF adds_edges_comp [OF adds_edges_comp [OF a b] c] d])
qed

end
