(* ===== verification/Languages.thy ===== *)
theory Languages
  imports IndexDb
begin

text \<open>
  The registered languages, \<^verbatim>\<open>remy-cc/scanner-core/src/language.rs\<close>, the identities and the comment
  stripping of the language modules, and the digests and name tokens of \<^verbatim>\<open>hashes.rs\<close>.  The digest
  functions and the ranges of the comments that the Rust grammar reports are parameters.
\<close>

datatype Language = CCpp | Python | Ts | Rust

definition EXTENSIONS :: "(ucs \<times> Language) list" where
  "EXTENSIONS = [(lit ''.c'', CCpp), (lit ''.h'', CCpp), (lit ''.cpp'', CCpp), (lit ''.hpp'', CCpp), (lit ''.cc'', CCpp),
     (lit ''.cxx'', CCpp), (lit ''.hh'', CCpp), (lit ''.hxx'', CCpp), (lit ''.py'', Python), (lit ''.ts'', Ts), (lit ''.tsx'', Ts),
     (lit ''.rs'', Rust)]"

definition better_extension :: "ucs \<Rightarrow> (ucs \<times> Language) option \<Rightarrow> ucs \<times> Language \<Rightarrow> (ucs \<times> Language) option" where
  "better_extension filename best = (\<lambda>(ext, language).
     if ends_with ext filename
     then (case best of Some (prev, _) \<Rightarrow> if length prev \<ge> length ext then best else Some (ext, language) | None \<Rightarrow> Some (ext, language))
     else best)"

definition language_resolve :: "ucs \<Rightarrow> Language option" where
  "language_resolve filename = map_option snd (foldl (better_extension filename) None EXTENSIONS)"

fun language_id :: "Language \<Rightarrow> ucs" where
  "language_id CCpp = lit ''CCppParser''"
| "language_id Python = lit ''PythonParser''"
| "language_id Ts = lit ''TSParser''"
| "language_id Rust = lit ''RustParser''"

definition from_language_id :: "ucs \<Rightarrow> Language option" where
  "from_language_id i =
     (if i = lit ''CCppParser'' then Some CCpp else if i = lit ''PythonParser'' then Some Python
      else if i = lit ''TSParser'' then Some Ts else if i = lit ''RustParser'' then Some Rust else None)"

section \<open>Identities of the parsers\<close>

definition CPP_EXTENSIONS :: "ucs list" where
  "CPP_EXTENSIONS = [lit ''.cpp'', lit ''.hpp'', lit ''.cc'', lit ''.cxx'', lit ''.hh'', lit ''.hxx'']"

definition CPP_HEADER_INDICATORS :: "ucs list" where
  "CPP_HEADER_INDICATORS = [lit ''class '', lit ''namespace '', lit ''template<'', lit ''template <'', lit ''public:'', lit ''private:'',
     lit ''protected:'', lit ''::'']"

definition uses_cpp_grammar :: "ucs \<Rightarrow> ucs \<Rightarrow> bool" where
  "uses_cpp_grammar source file_path \<longleftrightarrow>
     list_ex (\<lambda>ext. ends_with ext file_path) CPP_EXTENSIONS \<or>
     (ends_with (lit ''.h'') file_path \<and> list_ex (contains_ucs source) CPP_HEADER_INDICATORS)"

definition grammar_identity :: "string \<Rightarrow> string \<Rightarrow> string \<Rightarrow> string \<Rightarrow> CacheIdentity" where
  "grammar_identity contract backend grammar_name grammar_version =
     \<lparr>ci_contract_version = lit contract, ci_backend = lit backend,
      ci_environment = dumps_identity (JObject [(lit ''tree-sitter'', JString (lit ''0.25'')), (lit grammar_name, JString (lit grammar_version))])\<rparr>"

definition tree_sitter_identity :: "bool \<Rightarrow> CacheIdentity" where
  "tree_sitter_identity use_cpp =
     (if use_cpp then grammar_identity ''2'' ''cpp-tree-sitter'' ''tree-sitter-cpp'' ''0.23.4''
      else grammar_identity ''2'' ''c-tree-sitter'' ''tree-sitter-c'' ''0.24.2'')"

definition c_identity_candidates :: "ucs \<Rightarrow> CacheIdentity list" where
  "c_identity_candidates file_path =
     (if ends_with (lit ''.h'') file_path then [tree_sitter_identity False, tree_sitter_identity True]
      else [tree_sitter_identity (list_ex (\<lambda>ext. ends_with ext file_path) CPP_EXTENSIONS)])"

definition python_identity :: CacheIdentity where
  "python_identity = grammar_identity ''4'' ''python-tree-sitter'' ''tree-sitter-python'' ''0.25.0''"

definition rust_identity :: CacheIdentity where
  "rust_identity = grammar_identity ''5'' ''rust-tree-sitter'' ''tree-sitter-rust'' ''0.24.2''"

definition ts_identity :: "ucs \<Rightarrow> CacheIdentity" where
  "ts_identity file_path =
     grammar_identity ''3'' (if ends_with (lit ''.tsx'') file_path then ''tsx-tree-sitter'' else ''ts-tree-sitter'') ''tree-sitter-typescript'' ''0.23.2''"

fun identity_candidates :: "Language \<Rightarrow> ucs \<Rightarrow> CacheIdentity list" where
  "identity_candidates CCpp filename = c_identity_candidates filename"
| "identity_candidates Python filename = [python_identity]"
| "identity_candidates Ts filename = [ts_identity filename]"
| "identity_candidates Rust filename = [rust_identity]"

text \<open>The identity a parse of a source at a path is stamped with.\<close>

fun parse_identity :: "Language \<Rightarrow> ucs \<Rightarrow> ucs \<Rightarrow> CacheIdentity" where
  "parse_identity CCpp source file_path = tree_sitter_identity (uses_cpp_grammar source file_path)"
| "parse_identity Python source file_path = python_identity"
| "parse_identity Ts source file_path = ts_identity file_path"
| "parse_identity Rust source file_path = rust_identity"

section \<open>Comments\<close>

text \<open>Removal of every match of a marker up to the end of its line.\<close>

function strip_line_comments :: "ucs \<Rightarrow> ucs \<Rightarrow> ucs" where
  "strip_line_comments marker [] = []"
| "strip_line_comments marker (c # cs) =
     (if starts_with marker (c # cs) then strip_line_comments marker (dropWhile (\<lambda>x. x \<noteq> 10) cs)
      else c # strip_line_comments marker cs)"
  by pat_completeness auto
termination
  by (relation "measure (length \<circ> snd)") (auto simp: le_imp_less_Suc length_dropWhile_le)

text \<open>Removal of every block comment, from its opening to the first closing; an opening without a closing stays.\<close>

function strip_block_comments :: "ucs \<Rightarrow> ucs" where
  "strip_block_comments [] = []"
| "strip_block_comments (c # cs) =
     (if starts_with [47, 42] (c # cs)
      then (case split_once_str [42, 47] (tl cs) of
          Some (_, rest) \<Rightarrow> strip_block_comments rest
        | None \<Rightarrow> c # strip_block_comments cs)
      else c # strip_block_comments cs)"
  by pat_completeness auto
termination
proof (relation "measure length")
  fix c :: nat and cs :: ucs and x a b
  assume "split_once_str [42, 47] (tl cs) = Some x" "(a, b) = x"
  then have "tl cs = a @ [42, 47] @ b" using split_once_str_Some by blast
  then have "length (tl cs) = length a + 2 + length b" by simp
  then show "(b, c # cs) \<in> measure length" by simp
qed auto

definition strip_slash_comments :: "ucs \<Rightarrow> ucs" where
  "strip_slash_comments source_segment = strip_block_comments (strip_line_comments [47, 47] source_segment)"

text \<open>The Rust module drops the comments its grammar reports, the parameter \<open>strip_rust\<close>.\<close>

fun symbol_hash_input :: "(ucs \<Rightarrow> ucs) \<Rightarrow> Language \<Rightarrow> ucs \<Rightarrow> ucs" where
  "symbol_hash_input strip_rust CCpp segment = strip_slash_comments segment"
| "symbol_hash_input strip_rust Python segment = strip_line_comments [35] segment"
| "symbol_hash_input strip_rust Ts segment = strip_slash_comments segment"
| "symbol_hash_input strip_rust Rust segment = strip_rust segment"

section \<open>Digests and tokens\<close>

definition symbol_hash :: "(ucs \<Rightarrow> ucs) \<Rightarrow> ucs \<Rightarrow> ucs" where
  "symbol_hash md5_hex hash_input = md5_hex (filter (\<lambda>c. \<not> is_python_space c) hash_input)"

definition struct_hash :: "(ucs \<Rightarrow> ucs) \<Rightarrow> ucs \<Rightarrow> ucs" where
  "struct_hash md5_hex source = md5_hex source"

fun newlines_loop :: "ucs \<Rightarrow> ucs" where
  "newlines_loop [] = []"
| "newlines_loop [c] = [if c = 13 then 10 else c]"
| "newlines_loop (c # d # cs) =
     (if c = 13 then 10 # newlines_loop (if d = 10 then cs else d # cs) else c # newlines_loop (d # cs))"

definition translate_newlines :: "ucs \<Rightarrow> ucs" where
  "translate_newlines text = (if 13 \<notin> set text then text else newlines_loop text)"

definition is_lower :: "nat \<Rightarrow> bool" where "is_lower c \<longleftrightarrow> 97 \<le> c \<and> c \<le> 122"
definition is_upper :: "nat \<Rightarrow> bool" where "is_upper c \<longleftrightarrow> 65 \<le> c \<and> c \<le> 90"

text \<open>Every lower-case letter followed by an upper-case one; matches do not overlap, and cannot.\<close>

fun split_lower_upper :: "ucs \<Rightarrow> ucs" where
  "split_lower_upper (c # d # cs) =
     (if is_lower c \<and> is_upper d then c # 32 # split_lower_upper (d # cs) else c # split_lower_upper (d # cs))"
| "split_lower_upper cs = cs"

text \<open>A run of upper-case letters before a lower-case one: its last letter starts a word.\<close>

fun split_acronym :: "ucs \<Rightarrow> ucs" where
  "split_acronym (a # b # c # cs) =
     (if is_upper a \<and> is_upper b \<and> is_lower c then a # 32 # b # c # split_acronym cs else a # split_acronym (b # c # cs))"
| "split_acronym cs = cs"

fun squeeze_white :: "bool \<Rightarrow> ucs \<Rightarrow> ucs" where
  "squeeze_white inside [] = []"
| "squeeze_white inside (c # cs) =
     (if is_white c then (if inside then squeeze_white True cs else 32 # squeeze_white True cs) else c # squeeze_white False cs)"

function replace_seps :: "ucs \<Rightarrow> ucs" where
  "replace_seps [] = []"
| "replace_seps (c # cs) = (if starts_with SEP (c # cs) then 32 # replace_seps (tl cs) else c # replace_seps cs)"
  by pat_completeness auto
termination by (relation "measure length") auto

definition tokenize_symbol :: "ucs \<Rightarrow> ucs" where
  "tokenize_symbol name =
     ucs_trim (squeeze_white False (split_acronym (split_lower_upper (replace_seps (replace_char 95 [32] name)))))"


section \<open>Facts\<close>

lemma from_language_id_inverse [simp]: "from_language_id (language_id l) = Some l"
  by (cases l) (simp_all add: from_language_id_def lit_def)

text \<open>A suffix without a separator lies inside the last component of a path.\<close>

lemma starts_with_takeWhile:
  "\<forall>x \<in> set p. Q x \<Longrightarrow> starts_with p (takeWhile Q s) \<longleftrightarrow> starts_with p s"
proof (induction p arbitrary: s)
  case (Cons x p)
  then show ?case by (cases s) (auto simp: starts_with_def)
qed (simp add: starts_with_def)

lemma ends_with_basename: "c \<notin> set p \<Longrightarrow> ends_with p (rsplit_last c s) \<longleftrightarrow> ends_with p s"
  unfolding ends_with_def rsplit_last_def rev_rev_ident by (rule starts_with_takeWhile) auto

lemma extension_basename:
  "list_ex (\<lambda>ext. ends_with ext (rsplit_last 47 path)) CPP_EXTENSIONS \<longleftrightarrow> list_ex (\<lambda>ext. ends_with ext path) CPP_EXTENSIONS"
  "ends_with (lit ''.h'') (rsplit_last 47 path) \<longleftrightarrow> ends_with (lit ''.h'') path"
  "ends_with (lit ''.tsx'') (rsplit_last 47 path) \<longleftrightarrow> ends_with (lit ''.tsx'') path"
  by (simp_all add: CPP_EXTENSIONS_def ends_with_basename lit_def)

text \<open>
  The identity a parse stamps on a file is among the identities its name admits, whatever the source and
  the directory, so a file that was just parsed is never scanned again for its identity.
\<close>

theorem parse_identity_admitted: "parse_identity l source path \<in> set (identity_candidates l (rsplit_last 47 path))"
proof (cases l)
  case CCpp
  then show ?thesis
    by (cases "uses_cpp_grammar source path") (auto simp: c_identity_candidates_def uses_cpp_grammar_def extension_basename)
next
  case Ts
  then show ?thesis by (simp add: ts_identity_def extension_basename)
qed simp_all

text \<open>An edit inside a comment of a Python segment, or of its white space, keeps the digest of the segment.\<close>

lemma strip_comment_edit:
  "10 \<notin> set x \<Longrightarrow> strip_line_comments [35] (a @ 35 # x @ 10 # b) = strip_line_comments [35] (a @ 10 # b)"
proof (induction a rule: length_induct)
  case (1 a)
  have skip: "dropWhile (\<lambda>c. c \<noteq> 10) (x @ 10 # b) = 10 # b" using 1(2) by (induction x) auto
  show ?case
  proof (cases a)
    case Nil
    then show ?thesis using skip by (simp add: starts_with_def)
  next
    case (Cons c t)
    show ?thesis
    proof (cases "10 \<in> set t")
      case True
      then have drop: "dropWhile (\<lambda>c. c \<noteq> 10) (t @ y) = dropWhile (\<lambda>c. c \<noteq> 10) t @ y" for y by (induction t) auto
      have "length (dropWhile (\<lambda>c. c \<noteq> 10) t) < length a" using Cons length_dropWhile_le [of _ t] by (simp add: le_imp_less_Suc)
      then show ?thesis using 1 Cons by (auto simp: starts_with_def drop)
    next
      case False
      then have "dropWhile (\<lambda>c. c \<noteq> 10) (t @ y) = dropWhile (\<lambda>c. c \<noteq> 10) y" for y by (induction t) auto
      then show ?thesis using 1 Cons skip by (auto simp: starts_with_def)
    qed
  qed
qed

lemma python_comment_keeps_hash:
  assumes "10 \<notin> set x" "filter (\<lambda>c. \<not> is_python_space c) w = []"
  shows "symbol_hash md5_hex (symbol_hash_input strip_rust Python (a @ 35 # x @ 10 # b)) = symbol_hash md5_hex (symbol_hash_input strip_rust Python (a @ 10 # b))"
    and "symbol_hash md5_hex (u @ w @ v) = symbol_hash md5_hex (u @ v)"
  using assms by (simp_all add: strip_comment_edit symbol_hash_def)

lemma translate_newlines_clean: "13 \<notin> set (translate_newlines s)"
proof -
  have "13 \<notin> set (newlines_loop s)" by (induction s rule: newlines_loop.induct) auto
  then show ?thesis by (simp add: translate_newlines_def)
qed

end
