(* ===== verification/Writer.thy ===== *)
theory Writer
  imports Projection Languages
begin

text \<open>
  The writes of one file, \<^verbatim>\<open>remy-cc/scanner-core/src/writer.rs\<close>: the short circuit for an unchanged
  file, the replacement of its rows with the summaries and documents of its nodes, and its removal.
  A statement that violates a constraint of the schema fails with an error of its own.
\<close>

datatype db_error = UniqueViolation string | CheckViolation string | NullColumn string | Panicked string

type_synonym 'a ixop = "(index_db, db_error, 'a) op"

definition op_modify :: "('s \<Rightarrow> 's) \<Rightarrow> ('s, 'e, unit) op" where
  "op_modify f s = (Inr (), f s)"

fun op_each :: "('a \<Rightarrow> ('s, 'e, unit) op) \<Rightarrow> 'a list \<Rightarrow> ('s, 'e, unit) op" where
  "op_each f [] = op_return ()"
| "op_each f (x # xs) = op_bind (f x) (\<lambda>_. op_each f xs)"

record FileDelta =
  fl_changed :: bool
  fl_created :: bool
  fl_names :: "ucs list"

definition no_delta :: FileDelta where
  "no_delta = \<lparr>fl_changed = False, fl_created = False, fl_names = []\<rparr>"

section \<open>Statements\<close>

definition file_unchanged :: "FileFacts \<Rightarrow> index_db \<Rightarrow> bool" where
  "file_unchanged facts db =
     (case file_at db (ff_rel_path facts) of None \<Rightarrow> False
      | Some f \<Rightarrow> (f_struct_hash f, f_contract_version f, f_backend f, f_environment f) =
          (ff_struct_hash facts, ci_contract_version (ff_identity facts), ci_backend (ff_identity facts), ci_environment (ff_identity facts)))"

text \<open>The names and digests of the stored symbols of a file; a missing short name is an error.\<close>

definition stored_names :: "ucs \<Rightarrow> index_db \<Rightarrow> db_error + (ucs \<times> ucs \<times> ucs option) list" where
  "stored_names rel_path db =
     res_collect (\<lambda>s. case s_short_name s of None \<Rightarrow> Inl (NullColumn ''short_name'') | Some n \<Rightarrow> Inr (s_name s, n, s_hash s))
       (filter (\<lambda>s. s_file_path s = rel_path) (i_symbols db))"

text \<open>
  The newest version of a symbol node.  The code groups by every node whose reference matches the pattern
  of the file, and looks single references of the file up in the groups.
\<close>

definition latest_version :: "index_db \<Rightarrow> ucs \<Rightarrow> int option" where
  "latest_version db node_ref =
     (case map sv_version (node_rows (lit ''symbol'') node_ref db) of [] \<Rightarrow> None | v # vs \<Rightarrow> Some (foldl max v vs))"

definition fill_file :: "FileFacts \<Rightarrow> file_row \<Rightarrow> file_row" where
  "fill_file facts f =
     f\<lparr>f_struct_hash := ff_struct_hash facts, f_language := Some (ff_language_id facts), f_layer := Some (ff_layer facts),
       f_imports := Some (ff_imports_json facts), f_contract_version := ci_contract_version (ff_identity facts),
       f_backend := ci_backend (ff_identity facts), f_environment := ci_environment (ff_identity facts),
       f_import_bindings := ff_import_bindings_json facts\<rparr>"

definition blank_file :: "ucs \<Rightarrow> file_row" where
  "blank_file path = \<lparr>f_path = path, f_struct_hash = [], f_language = None, f_layer = None, f_imports = None, f_kind_hint = None,
     f_actual_kind = None, f_contract_version = [], f_backend = [], f_environment = [], f_import_bindings = []\<rparr>"

definition upsert_file :: "FileFacts \<Rightarrow> index_db \<Rightarrow> index_db" where
  "upsert_file facts db =
     (if file_at db (ff_rel_path facts) \<noteq> None
      then db\<lparr>i_files := update_where (\<lambda>f. f_path f = ff_rel_path facts) (fill_file facts) (i_files db)\<rparr>
      else db\<lparr>i_files := i_files db @ [fill_file facts (blank_file (ff_rel_path facts))]\<rparr>)"

text \<open>The rows of a file, candidates before the edges they belong to.\<close>

definition clear_file :: "ucs \<Rightarrow> index_db \<Rightarrow> index_db" where
  "clear_file rel_path db =
     db\<lparr>i_symbols := filter (\<lambda>s. s_file_path s \<noteq> rel_path) (i_symbols db),
        i_occurrences := filter (\<lambda>x. o_file_path x \<noteq> rel_path) (i_occurrences db),
        i_candidates := filter (\<lambda>c. c_edge_id c \<notin> e_id ` {x \<in> set (i_edges db). e_source_file x = rel_path}) (i_candidates db),
        i_edges := filter (\<lambda>x. e_source_file x \<noteq> rel_path) (i_edges db),
        i_patterns := filter (\<lambda>p. p_file_path p \<noteq> rel_path) (i_patterns db)\<rparr>"

definition insert_occurrence :: "ucs \<Rightarrow> OccurrenceRow \<Rightarrow> unit ixop" where
  "insert_occurrence rel_path x db =
     (let s = or_symbol x in
      if list_ex (\<lambda>r. o_file_path r = rel_path \<and> o_name r = si_name s \<and> o_index r = or_occurrence_index x) (i_occurrences db)
      then (Inl (UniqueViolation ''symbol_occurrences''), db)
      else if or_is_canonical x \<and> list_ex (\<lambda>r. o_file_path r = rel_path \<and> o_name r = si_name s \<and> o_is_canonical r) (i_occurrences db)
      then (Inl (UniqueViolation ''idx_occurrences_one_canonical''), db)
      else if or_conflict_kind x \<notin> set [lit ''type_variant'', lit ''signature_variant'', lit ''duplicate_definition'']
      then (Inl (CheckViolation ''symbol_occurrences.conflict_kind''), db)
      else (Inr (), db\<lparr>i_occurrences := i_occurrences db @
        [\<lparr>o_file_path = rel_path, o_name = si_name s, o_index = or_occurrence_index x, o_type = si_sym_type s, o_args = Some (si_args s),
          o_lineno = Some (si_lineno s), o_end_lineno = si_end_lineno s, o_hash = or_hash x, o_is_canonical = or_is_canonical x,
          o_conflict_kind = or_conflict_kind x, o_selection_reason = or_selection_reason x\<rparr>]\<rparr>))"

definition insert_symbol :: "(int \<Rightarrow> symbol_row) \<Rightarrow> unit ixop" where
  "insert_symbol row db =
     (let r = row (seq_symbols (i_seq db)) in
      if list_ex (\<lambda>s. s_file_path s = s_file_path r \<and> s_name s = s_name r) (i_symbols db)
      then (Inl (UniqueViolation ''symbols''), db)
      else (Inr (), db\<lparr>i_symbols := i_symbols db @ [r], i_seq := (i_seq db)\<lparr>seq_symbols := seq_symbols (i_seq db) + 1\<rparr>\<rparr>))"

definition insert_summary :: "ucs \<Rightarrow> ucs \<Rightarrow> int \<Rightarrow> ucs \<Rightarrow> ucs \<Rightarrow> unit ixop" where
  "insert_summary node_kind node_ref version payload created_at db =
     (if list_ex (\<lambda>r. sv_node_kind r = node_kind \<and> sv_node_ref r = node_ref \<and> sv_version r = version) (i_summaries db)
      then (Inl (UniqueViolation ''summary_versions''), db)
      else (Inr (), db\<lparr>i_summaries := i_summaries db @
          [\<lparr>sv_id = seq_summaries (i_seq db), sv_node_kind = node_kind, sv_node_ref = node_ref, sv_version = version, sv_summary = Some payload,
            sv_status = lit ''ok'', sv_created_at = created_at\<rparr>],
        i_seq := (i_seq db)\<lparr>seq_summaries := seq_summaries (i_seq db) + 1\<rparr>\<rparr>))"

definition insert_edge :: "ucs \<Rightarrow> EdgeRow \<Rightarrow> index_db \<Rightarrow> index_db" where
  "insert_edge rel_path x db =
     db\<lparr>i_edges := i_edges db @ [\<lparr>e_id = seq_edges (i_seq db), e_source_file = rel_path, e_caller = er_caller x, e_callee = er_callee x,
          e_callee_file = None, e_callee_qualified = None, e_line = Some (er_line x), e_provenance = None, e_synthesized_from = None,
          e_via = None, e_call_form = er_call_form x\<rparr>],
        i_seq := (i_seq db)\<lparr>seq_edges := seq_edges (i_seq db) + 1\<rparr>\<rparr>"

definition insert_pattern :: "ucs \<Rightarrow> PatternFact \<Rightarrow> index_db \<Rightarrow> index_db" where
  "insert_pattern rel_path p db =
     db\<lparr>i_patterns := i_patterns db @ [\<lparr>p_id = seq_patterns (i_seq db), p_file_path = rel_path, p_type = pf_pattern_type p,
          p_signal_name = pf_signal_name p, p_handler = pf_handler p, p_line = pf_line p, p_metadata = pf_metadata_json p\<rparr>],
        i_seq := (i_seq db)\<lparr>seq_patterns := seq_patterns (i_seq db) + 1\<rparr>\<rparr>"

section \<open>The symbols of a file\<close>

definition doc_summary :: "ucs \<Rightarrow> ucs option" where
  "doc_summary docstring =
     (let lines = filter (\<lambda>l. l \<noteq> []) (map ucs_trim (split_on 10 docstring))
      in if lines = [] then None else Some (lit ''[Doc] '' @ join_with [32] (take 3 lines)))"

definition initial_summary :: "bool \<Rightarrow> SymbolInfo \<Rightarrow> ucs option" where
  "initial_summary filter_small symbol =
     (case si_docstring symbol of
        Some docstring \<Rightarrow>
          if docstring \<noteq> [] then doc_summary docstring
          else if filter_small \<and> length (ucs_lines (si_source_segment symbol)) < 3 then Some (lit ''Small utility function.'') else None
      | None \<Rightarrow> if filter_small \<and> length (ucs_lines (si_source_segment symbol)) < 3 then Some (lit ''Small utility function.'') else None)"

definition summary_json :: "ucs \<Rightarrow> ucs" where
  "summary_json short = dumps_summary (JObject [(lit ''short'', JString short), (lit ''full'', JNull)])"

definition bases_json :: "SymbolInfo \<Rightarrow> ucs option" where
  "bases_json symbol =
     (case si_bases symbol of None \<Rightarrow> None | Some bases \<Rightarrow> if bases = [] then None else Some (dumps_default (JArray (map JString bases))))"

definition symbol_row_of :: "index_env \<Rightarrow> (ucs \<Rightarrow> ucs) \<Rightarrow> Language \<Rightarrow> ucs \<Rightarrow> SymbolInfo \<Rightarrow> int \<Rightarrow> symbol_row" where
  "symbol_row_of e strip_rust language rel_path symbol k =
     \<lparr>s_id = k, s_file_path = rel_path, s_name = si_name symbol, s_short_name = Some (rsplit_last 46 (si_name symbol)),
      s_type = si_sym_type symbol, s_args = Some (si_args symbol), s_lineno = Some (si_lineno symbol), s_end_lineno = si_end_lineno symbol,
      s_hash = Some (symbol_hash (ie_md5 e) (symbol_hash_input strip_rust language (hash_segment symbol))), s_bases = bases_json symbol,
      s_name_tokens = tokenize_symbol (si_name symbol)\<rparr>"

text \<open>The summaries of a symbol whose digest changed or that has no version yet.\<close>

definition renew_summary :: "index_env \<Rightarrow> bool \<Rightarrow> ucs \<Rightarrow> int option \<Rightarrow> SymbolInfo \<Rightarrow> ucs \<Rightarrow> unit ixop" where
  "renew_summary e filter_small node_ref existing symbol now_iso =
     op_bind (op_modify (\<lambda>db. if existing \<noteq> None then snd (mark_current_summary_stale e (lit ''symbol'') node_ref db) else db)) (\<lambda>_.
     op_bind (case initial_summary filter_small symbol of None \<Rightarrow> op_return ()
        | Some short \<Rightarrow> insert_summary (lit ''symbol'') node_ref ((case existing of None \<Rightarrow> 0 | Some v \<Rightarrow> v) + 1) (summary_json short) now_iso) (\<lambda>_.
     op_modify (refresh_node e (lit ''symbol'') node_ref)))"

definition write_symbol ::
    "index_env \<Rightarrow> (ucs \<Rightarrow> ucs) \<Rightarrow> bool \<Rightarrow> Language \<Rightarrow> ucs \<Rightarrow> (ucs \<rightharpoonup> ucs option) \<Rightarrow> (ucs \<Rightarrow> int option) \<Rightarrow> ucs \<Rightarrow> SymbolInfo \<Rightarrow> unit ixop" where
  "write_symbol e strip_rust filter_small language rel_path old_hashes existing_versions now_iso symbol =
     (let row = symbol_row_of e strip_rust language rel_path symbol;
          node_ref = qualify rel_path (si_name symbol);
          hash_unchanged = (old_hashes (si_name symbol) = Some (s_hash (row 0)));
          existing = existing_versions node_ref
      in op_bind (insert_symbol row) (\<lambda>_.
         if hash_unchanged \<and> existing \<noteq> None then op_modify (refresh_node e (lit ''symbol'') node_ref)
         else renew_summary e filter_small node_ref existing symbol now_iso))"

section \<open>The operations\<close>

text \<open>What follows the symbols: documents of removed symbols, the document of the file, edges and patterns.\<close>

definition finish_file :: "index_env \<Rightarrow> FileFacts \<Rightarrow> bool \<Rightarrow> ucs list \<Rightarrow> index_db \<Rightarrow> index_db" where
  "finish_file e facts existed old_refs db =
     (let rel_path = ff_rel_path facts;
          new_refs = map (\<lambda>s. qualify rel_path (si_name s)) (ff_canonical_symbols facts);
          db1 = fold (delete_node (lit ''symbol'')) (filter (\<lambda>r. r \<notin> set new_refs) old_refs) db;
          db2 = (if existed \<and> set old_refs \<noteq> set new_refs then snd (mark_current_summary_stale e (lit ''file'') rel_path db1) else db1);
          db3 = refresh_node e (lit ''file'') rel_path db2;
          db4 = fold (insert_edge rel_path) (ff_edges facts) db3
      in fold (insert_pattern rel_path) (ff_patterns facts) db4)"

definition write_symbols :: "index_env \<Rightarrow> (ucs \<Rightarrow> ucs) \<Rightarrow> FileFacts \<Rightarrow> bool \<Rightarrow> (ucs \<times> ucs \<times> ucs option) list \<Rightarrow> (ucs \<Rightarrow> int option) \<Rightarrow> unit ixop" where
  "write_symbols e strip_rust facts filter_small stored existing_versions =
     (case from_language_id (ff_language_id facts) of
        None \<Rightarrow> op_fail (Panicked ''language_id written by scan is always registered'')
      | Some language \<Rightarrow>
          op_bind (op_get (ie_now e)) (\<lambda>now_iso.
          op_each (write_symbol e strip_rust filter_small language (ff_rel_path facts)
            (map_of (rev (map (\<lambda>(name, _, hash). (name, hash)) stored))) existing_versions now_iso) (ff_canonical_symbols facts)))"

definition delta_of :: "FileFacts \<Rightarrow> bool \<Rightarrow> (ucs \<times> ucs \<times> ucs option) list \<Rightarrow> FileDelta" where
  "delta_of facts existed stored =
     \<lparr>fl_changed = True, fl_created = \<not> existed,
      fl_names = btree_set (concat (map (\<lambda>(name, short, _). [name, short]) stored) @
        concat (map (\<lambda>s. [si_name s, rsplit_last 46 (si_name s)]) (ff_canonical_symbols facts)))\<rparr>"

definition write_file_facts :: "index_env \<Rightarrow> (ucs \<Rightarrow> ucs) \<Rightarrow> FileFacts \<Rightarrow> bool \<Rightarrow> FileDelta ixop" where
  "write_file_facts e strip_rust facts filter_small =
     op_bind (op_get (file_unchanged facts)) (\<lambda>unchanged.
     if unchanged then op_return no_delta
     else
       op_bind (op_read (stored_names (ff_rel_path facts))) (\<lambda>stored.
       op_bind (op_get latest_version) (\<lambda>existing_versions.
       op_bind (op_get (\<lambda>db. file_at db (ff_rel_path facts) \<noteq> None)) (\<lambda>existed.
       op_bind (op_modify (\<lambda>db. clear_file (ff_rel_path facts) (upsert_file facts db))) (\<lambda>_.
       op_bind (op_each (insert_occurrence (ff_rel_path facts)) (ff_occurrences facts)) (\<lambda>_.
       op_bind (write_symbols e strip_rust facts filter_small stored existing_versions) (\<lambda>_.
       op_bind (op_modify (finish_file e facts existed (map (\<lambda>(name, _). qualify (ff_rel_path facts) name) stored))) (\<lambda>_.
       op_return (delta_of facts existed stored)))))))))"

definition delete_file :: "ucs \<Rightarrow> FileDelta option ixop" where
  "delete_file rel_path =
     op_bind (op_read (stored_names rel_path)) (\<lambda>stored.
     op_bind (op_modify (delete_file_nodes rel_path (map (\<lambda>(name, _). qualify rel_path name) stored))) (\<lambda>_.
     op_bind (op_modify (clear_file rel_path)) (\<lambda>_.
     op_bind (op_get (\<lambda>db. file_at db rel_path)) (\<lambda>found.
     op_bind (op_modify (\<lambda>db. db\<lparr>i_files := filter (\<lambda>f. f_path f \<noteq> rel_path) (i_files db)\<rparr>)) (\<lambda>_.
     op_return (if found = None then None
       else Some \<lparr>fl_changed = True, fl_created = False, fl_names = btree_set (concat (map (\<lambda>(name, short, _). [name, short]) stored))\<rparr>))))))"

end
