(* ===== verification/Incremental.thy ===== *)
theory Incremental
  imports Resolve
begin

text \<open>
  The targeted resolution of an incremental scan agrees with the resolution of a full scan.  The work for an
  edge reads the files and the symbols only, so each stage is described row by row; an edge that is not
  targeted has the same candidates in the index before the scan and after its writes.
\<close>

section \<open>Derivation of imports, per file\<close>

definition supp_of :: "ucs list \<Rightarrow> ucs json_value \<Rightarrow> ucs list" where
  "supp_of py b =
     (let m = binding_module b; hits = suffix_hits py m
      in if m = [] \<or> is_stdlib m then [] else if length hits = 1 then [hd hits] else [])"

definition ext_of :: "ucs list \<Rightarrow> ucs json_value \<Rightarrow> ucs list" where
  "ext_of py b =
     (let m = binding_module b in if m = [] then [] else if is_stdlib m \<or> suffix_hits py m = [] then binding_names b else [])"

lemma derive_binding_values:
  "map_values (supplements (derive_binding py src b d)) f = map_values (supplements d) f @ (if f = src then supp_of py b else [])"
  "map_values (externals (derive_binding py src b d)) f = map_values (externals d) f @ (if f = src then ext_of py b else [])"
  by (auto simp: derive_binding_def supp_of_def ext_of_def Let_def map_values_extend)

lemma derive_row_values:
  "map_values (supplements (derive_row parse py r d)) f =
     map_values (supplements d) f @ (if f = f_path r then concat (map (supp_of py) (parse_array parse (f_import_bindings r))) else [])"
  "map_values (externals (derive_row parse py r d)) f =
     map_values (externals d) f @ (if f = f_path r then concat (map (ext_of py) (parse_array parse (f_import_bindings r))) else [])"
proof -
  have "map_values (supplements (fold (derive_binding py src) bs d)) f =
      map_values (supplements d) f @ (if f = src then concat (map (supp_of py) bs) else [])" for src bs d
    by (induction bs arbitrary: d) (auto simp: derive_binding_values)
  then show "map_values (supplements (derive_row parse py r d)) f =
     map_values (supplements d) f @ (if f = f_path r then concat (map (supp_of py) (parse_array parse (f_import_bindings r))) else [])"
    by (simp add: derive_row_def)
  have "map_values (externals (fold (derive_binding py src) bs d)) f =
      map_values (externals d) f @ (if f = src then concat (map (ext_of py) bs) else [])" for src bs d
    by (induction bs arbitrary: d) (auto simp: derive_binding_values)
  then show "map_values (externals (derive_row parse py r d)) f =
     map_values (externals d) f @ (if f = f_path r then concat (map (ext_of py) (parse_array parse (f_import_bindings r))) else [])"
    by (simp add: derive_row_def)
qed

definition py_paths :: "index_db \<Rightarrow> ucs list" where
  "py_paths db = filter is_py (map f_path (sort_key f_path (i_files db)))"

lemma derive_values:
  "map_values (supplements (derive_import_bindings parse db)) f =
     concat (map (\<lambda>r. concat (map (supp_of (py_paths db)) (parse_array parse (f_import_bindings r))))
       (filter (\<lambda>r. f_path r = f) (sort_key f_path (i_files db))))"
  "map_values (externals (derive_import_bindings parse db)) f =
     concat (map (\<lambda>r. concat (map (ext_of (py_paths db)) (parse_array parse (f_import_bindings r))))
       (filter (\<lambda>r. f_path r = f) (sort_key f_path (i_files db))))"
proof -
  have "map_values (supplements (fold (derive_row parse py) rows d)) f = map_values (supplements d) f @
      concat (map (\<lambda>r. concat (map (supp_of py) (parse_array parse (f_import_bindings r)))) (filter (\<lambda>r. f_path r = f) rows))" for py rows d
    by (induction rows arbitrary: d) (auto simp: derive_row_values)
  then show "map_values (supplements (derive_import_bindings parse db)) f =
     concat (map (\<lambda>r. concat (map (supp_of (py_paths db)) (parse_array parse (f_import_bindings r))))
       (filter (\<lambda>r. f_path r = f) (sort_key f_path (i_files db))))"
    by (simp add: derive_import_bindings_def py_paths_def Let_def)
  have "map_values (externals (fold (derive_row parse py) rows d)) f = map_values (externals d) f @
      concat (map (\<lambda>r. concat (map (ext_of py) (parse_array parse (f_import_bindings r)))) (filter (\<lambda>r. f_path r = f) rows))" for py rows d
    by (induction rows arbitrary: d) (auto simp: derive_row_values)
  then show "map_values (externals (derive_import_bindings parse db)) f =
     concat (map (\<lambda>r. concat (map (ext_of (py_paths db)) (parse_array parse (f_import_bindings r))))
       (filter (\<lambda>r. f_path r = f) (sort_key f_path (i_files db))))"
    by (simp add: derive_import_bindings_def py_paths_def Let_def)
qed

section \<open>What a scan may change\<close>

text \<open>
  The index before a scan and after its writes: outside the touched files the rows of files and symbols are
  the same, the names of the symbols of touched files are recorded, and so are the Python files that came or went.
\<close>

definition covers :: "ScanDelta \<Rightarrow> index_db \<Rightarrow> index_db \<Rightarrow> bool" where
  "covers delta db0 db \<longleftrightarrow>
     distinct (map f_path (i_files db0)) \<and> distinct (map f_path (i_files db)) \<and>
     filter (\<lambda>f. f_path f \<notin> set (touched_files delta)) (i_files db) = filter (\<lambda>f. f_path f \<notin> set (touched_files delta)) (i_files db0) \<and>
     filter (\<lambda>s. s_file_path s \<notin> set (touched_files delta)) (i_symbols db) = filter (\<lambda>s. s_file_path s \<notin> set (touched_files delta)) (i_symbols db0) \<and>
     list_all (\<lambda>s. s_file_path s \<in> set (touched_files delta) \<longrightarrow>
        s_name s \<in> set (delta_names delta) \<and> (case s_short_name s of None \<Rightarrow> True | Some n \<Rightarrow> n \<in> set (delta_names delta)))
       (i_symbols db @ i_symbols db0) \<and>
     list_all (\<lambda>p. is_py p \<and> p \<notin> f_path ` set (i_files db0) \<longrightarrow> p \<in> set (added_py delta)) (map f_path (i_files db)) \<and>
     list_all (\<lambda>p. is_py p \<and> p \<notin> f_path ` set (i_files db) \<longrightarrow> p \<in> set (removed_py delta)) (map f_path (i_files db0))"

lemma covers_named:
  assumes "covers delta db0 db" "s \<in> set (i_symbols db) \<union> set (i_symbols db0)" "symbol_named callee s" "callee \<notin> set (delta_names delta)"
  shows "s_file_path s \<notin> set (touched_files delta)"
  using assms by (auto simp: covers_def list_all_iff symbol_named_def split: option.splits)

lemma filter_find: "distinct (map k xs) \<Longrightarrow> filter (\<lambda>x. k x = v) xs = (case find (\<lambda>x. k x = v) xs of None \<Rightarrow> [] | Some x \<Rightarrow> [x])"
proof (induction xs)
  case Nil
  then show ?case by simp
next
  case (Cons a xs)
  have "k a \<notin> k ` set xs" using Cons.prems by simp
  then have "filter (\<lambda>x. k x = k a) xs = []" by (metis (mono_tags, lifting) filter_False imageI)
  then show ?case using Cons by auto
qed

lemma find_filter_other: "Q v \<Longrightarrow> find (\<lambda>x. k x = v) (filter (\<lambda>x. Q (k x)) xs) = find (\<lambda>x. k x = v) xs"
  by (induction xs) auto

lemma covers_file:
  assumes "covers delta db0 db" "f \<notin> set (touched_files delta)"
  shows "find (\<lambda>r. f_path r = f) (i_files db) = find (\<lambda>r. f_path r = f) (i_files db0)"
proof -
  have "find (\<lambda>r. f_path r = f) (i_files db) = find (\<lambda>r. f_path r = f) (filter (\<lambda>r. f_path r \<notin> set (touched_files delta)) (i_files db))"
    using find_filter_other [of "\<lambda>p. p \<notin> set (touched_files delta)" f f_path "i_files db"] assms(2) by simp
  also have "\<dots> = find (\<lambda>r. f_path r = f) (i_files db0)"
    using find_filter_other [of "\<lambda>p. p \<notin> set (touched_files delta)" f f_path "i_files db0"] assms by (simp add: covers_def)
  finally show ?thesis .
qed

lemma covers_symbols:
  assumes "covers delta db0 db" "callee \<notin> set (delta_names delta)"
    and "\<And>s. P s \<Longrightarrow> symbol_named callee s" "\<And>s. P0 s \<Longrightarrow> symbol_named callee s"
    and "\<And>s. s_file_path s \<notin> set (touched_files delta) \<Longrightarrow> P s = P0 s"
  shows "symbols_where db P = symbols_where db0 P0"
proof -
  have "filter P (i_symbols db) = filter P (filter (\<lambda>s. s_file_path s \<notin> set (touched_files delta)) (i_symbols db))"
    using covers_named [OF assms(1) _ _ assms(2)] assms(3) by (auto intro!: filter_cong)
  also have "\<dots> = filter P0 (filter (\<lambda>s. s_file_path s \<notin> set (touched_files delta)) (i_symbols db0))"
    using assms(1,5) by (auto simp: covers_def intro!: filter_cong)
  also have "\<dots> = filter P0 (i_symbols db0)"
    using covers_named [OF assms(1) _ _ assms(2)] assms(4) by (auto intro!: filter_cong)
  finally show ?thesis by (simp add: symbols_where_def)
qed

lemma rows_of_path:
  assumes "distinct (map f_path (i_files db))"
  shows "filter (\<lambda>r. f_path r = f) (sort_key f_path (i_files db)) =
    (case find (\<lambda>r. f_path r = f) (i_files db) of None \<Rightarrow> [] | Some r \<Rightarrow> [r])"
proof -
  have "filter (\<lambda>r. f_path r = f) (sort_key f_path (i_files db)) = sort_key f_path (filter (\<lambda>r. f_path r = f) (i_files db))"
    by (rule filter_sort)
  then show ?thesis using filter_find [OF assms] by (auto split: option.splits)
qed

lemma py_paths_sorted:
  assumes "distinct (map f_path (i_files db))"
  shows "sorted (py_paths db)" "distinct (py_paths db)" "set (py_paths db) = {p \<in> f_path ` set (i_files db). is_py p}"
proof -
  have "distinct (map f_path (sort_key f_path (i_files db)))"
    using assms by (metis distinct_map distinct_sort set_sort)
  then show "distinct (py_paths db)" by (simp add: py_paths_def)
  show "sorted (py_paths db)" by (simp add: py_paths_def sorted_wrt_filter)
  show "set (py_paths db) = {p \<in> f_path ` set (i_files db). is_py p}" by (auto simp: py_paths_def)
qed

text \<open>The hits of a module are the same when no file that came or went matches it.\<close>

lemma suffix_hits_same:
  assumes "covers delta db0 db" "\<forall>p \<in> set (added_py delta @ removed_py delta). \<not> matches_suffix (suffix_forms m) p"
  shows "suffix_hits (py_paths db) m = suffix_hits (py_paths db0) m"
proof (rule sorted_distinct_set_unique)
  have d: "distinct (map f_path (i_files db))" "distinct (map f_path (i_files db0))" using assms(1) by (auto simp: covers_def)
  show "sorted (suffix_hits (py_paths db) m)" "sorted (suffix_hits (py_paths db0) m)"
    "distinct (suffix_hits (py_paths db) m)" "distinct (suffix_hits (py_paths db0) m)"
    using d by (simp_all add: suffix_hits_def py_paths_sorted sorted_wrt_filter)
  show "set (suffix_hits (py_paths db) m) = set (suffix_hits (py_paths db0) m)"
    using assms d by (auto simp: suffix_hits_def py_paths_sorted covers_def list_all_iff)
qed

lemma derivation_same:
  assumes c: "covers delta db0 db" and f: "f \<notin> set (touched_files delta)"
    and host: "f \<notin> set (import_binding_hosts parse db (added_py delta @ removed_py delta))"
    and empty: "parse_array parse (lit ''[]'') = []"
  shows "map_values (supplements (derive_import_bindings parse db)) f = map_values (supplements (derive_import_bindings parse db0)) f"
    and "map_values (externals (derive_import_bindings parse db)) f = map_values (externals (derive_import_bindings parse db0)) f"
proof -
  have d: "distinct (map f_path (i_files db))" "distinct (map f_path (i_files db0))" using c by (auto simp: covers_def)
  have same: "supp_of (py_paths db) b = supp_of (py_paths db0) b \<and> ext_of (py_paths db) b = ext_of (py_paths db0) b"
    if r: "find (\<lambda>r. f_path r = f) (i_files db) = Some r" and b: "b \<in> set (parse_array parse (f_import_bindings r))" for r b
  proof (cases "binding_module b = [] \<or> is_stdlib (binding_module b)")
    case True
    then show ?thesis by (auto simp: supp_of_def ext_of_def Let_def)
  next
    case False
    have row: "r \<in> set (i_files db)" "f_path r = f" using find_Some_iff_mem [OF r] by auto
    have ne: "f_import_bindings r \<noteq> lit ''[]''" using b empty by auto
    have "\<not> matches_suffix (suffix_forms (binding_module b)) p" if "p \<in> set (added_py delta @ removed_py delta)" for p
    proof
      assume "matches_suffix (suffix_forms (binding_module b)) p"
      then have "list_ex (\<lambda>b. let module_name = binding_module b in module_name \<noteq> [] \<and> \<not> is_stdlib module_name \<and>
          list_ex (matches_suffix (suffix_forms module_name)) (added_py delta @ removed_py delta)) (parse_array parse (f_import_bindings r))"
        using b False that by (auto simp: list_ex_iff Let_def)
      then have "f \<in> set (import_binding_hosts parse db (added_py delta @ removed_py delta))"
        using row ne that by (auto simp: import_binding_hosts_def)
      then show False using host by blast
    qed
    then have "suffix_hits (py_paths db) (binding_module b) = suffix_hits (py_paths db0) (binding_module b)"
      by (intro suffix_hits_same [OF c]) blast
    then show ?thesis by (simp add: supp_of_def ext_of_def Let_def)
  qed
  have find: "find (\<lambda>r. f_path r = f) (i_files db0) = find (\<lambda>r. f_path r = f) (i_files db)" using covers_file [OF c f] by simp
  show "map_values (supplements (derive_import_bindings parse db)) f = map_values (supplements (derive_import_bindings parse db0)) f"
    "map_values (externals (derive_import_bindings parse db)) f = map_values (externals (derive_import_bindings parse db0)) f"
    unfolding derive_values rows_of_path [OF d(1)] rows_of_path [OF d(2)] find
    using same by (auto split: option.splits intro!: arg_cong [of _ _ concat])
qed

section \<open>An edge that is not targeted\<close>

lemma same_language_same:
  assumes c: "covers delta db0 db" and f: "f \<notin> set (touched_files delta)" "g \<notin> set (touched_files delta)"
  shows "same_language db f g = same_language db0 f g"
proof -
  have sub: "list_ex (\<lambda>r. f_path r = g \<and> Q r) rows = list_ex (\<lambda>r. f_path r = g \<and> Q r) (filter (\<lambda>r. f_path r \<notin> set (touched_files delta)) rows)" for Q rows
    using f(2) by (auto simp: list_ex_iff)
  have "list_ex (\<lambda>r. f_path r = g \<and> Q r) (i_files db) = list_ex (\<lambda>r. f_path r = g \<and> Q r) (i_files db0)" for Q
    using sub [of Q "i_files db"] sub [of Q "i_files db0"] c by (simp add: covers_def)
  then have "list_ex (\<lambda>r. f_path r = g \<and> f_language r = Some l) (i_files db) = list_ex (\<lambda>r. f_path r = g \<and> f_language r = Some l) (i_files db0)" for l .
  then show ?thesis unfolding same_language_def covers_file [OF c f(1)] by (auto split: option.split)
qed

definition targeted :: "parser \<Rightarrow> ScanDelta \<Rightarrow> index_db \<Rightarrow> edge_row \<Rightarrow> bool" where
  "targeted parse delta db e \<longleftrightarrow> direct e \<and>
     (e_source_file e \<in> set (touched_files delta) \<or>
      e_source_file e \<in> set (import_binding_hosts parse db (added_py delta @ removed_py delta)) \<or>
      e_callee e \<in> set (delta_names delta))"

lemma candidates_same:
  assumes c: "covers delta db0 db" and e: "direct e" "\<not> targeted parse delta db e" and empty: "parse_array parse (lit ''[]'') = []"
  shows "edge_candidates cfg parse db (derive_import_bindings parse db) e = edge_candidates cfg parse db0 (derive_import_bindings parse db0) e"
proof -
  let ?f = "e_source_file e" and ?d = "derive_import_bindings parse db" and ?old = "derive_import_bindings parse db0"
  have out: "?f \<notin> set (touched_files delta)" "e_callee e \<notin> set (delta_names delta)"
    "?f \<notin> set (import_binding_hosts parse db (added_py delta @ removed_py delta))"
    using e by (auto simp: targeted_def)
  note same = derivation_same [OF c out(1) out(3) empty]
  note symbols = covers_symbols [OF c out(2)]
  have im: "import_list parse db ?d ?f = import_list parse db0 ?old ?f"
    using covers_file [OF c out(1)] same by (simp add: import_list_def)
  have own: "symbols_where db (\<lambda>s. s_file_path s = ?f \<and> symbol_named (e_callee e) s) = symbols_where db0 (\<lambda>s. s_file_path s = ?f \<and> symbol_named (e_callee e) s)"
    by (rule symbols; simp)
  have imported: "symbols_where db (\<lambda>s. s_file_path s \<in> F \<and> symbol_named (e_callee e) s) = symbols_where db0 (\<lambda>s. s_file_path s \<in> F \<and> symbol_named (e_callee e) s)" for F
    by (rule symbols; simp)
  have tiers: "tier_candidates cfg parse db ?d ?f (e_callee e) = tier_candidates cfg parse db0 ?old ?f (e_callee e)"
    by (simp add: tier_candidates_def Let_def im own imported)
  have "symbols_where db (\<lambda>s. symbol_named (e_callee e) s \<and> s_file_path s \<noteq> ?f \<and> same_language db ?f (s_file_path s)) =
      symbols_where db0 (\<lambda>s. symbol_named (e_callee e) s \<and> s_file_path s \<noteq> ?f \<and> same_language db0 ?f (s_file_path s))"
    by (rule symbols) (auto simp: same_language_same [OF c out(1)])
  then have global: "global_candidates cfg db ?f (e_callee e) = global_candidates cfg db0 ?f (e_callee e)"
    by (simp add: global_candidates_def)
  have names: "map_values (externals ?d) ?f = map_values (externals ?old) ?f" by (rule same(2))
  show ?thesis unfolding edge_candidates_def tiers global names ..
qed

section \<open>The stage, edge by edge\<close>

definition edge_spec :: "PostprocessConfig \<Rightarrow> parser \<Rightarrow> index_db \<Rightarrow> edge_row \<Rightarrow> edge_row" where
  "edge_spec cfg parse db e =
     (let cs = edge_candidates cfg parse db (derive_import_bindings parse db) e
      in if cs = [] then clear_edge e else resolved_edge cfg cs (clear_edge e))"

definition add_candidates :: "PostprocessConfig \<Rightarrow> (ucs \<times> int) list \<Rightarrow> int \<Rightarrow> candidate_row list \<Rightarrow> candidate_row list" where
  "add_candidates cfg cs edge_id rows =
     (if 1 < length cs then fold (insert_candidate edge_id) (take (nat (max (resolve_fanout_cap cfg) 0)) cs) rows else rows)"

definition candidate_spec :: "PostprocessConfig \<Rightarrow> parser \<Rightarrow> index_db \<Rightarrow> edge_row \<Rightarrow> candidate_row list" where
  "candidate_spec cfg parse db e =
     add_candidates cfg (edge_candidates cfg parse db (derive_import_bindings parse db) e) (e_id e) []"

definition rows_for :: "int \<Rightarrow> index_db \<Rightarrow> candidate_row list" where
  "rows_for edge_id db = filter (\<lambda>c. c_edge_id c = edge_id) (i_candidates db)"

lemma edge_candidates_cong:
  assumes "i_files db' = i_files db" "i_symbols db' = i_symbols db"
  shows "edge_candidates cfg parse db' d e = edge_candidates cfg parse db d e"
  unfolding edge_candidates_def tier_candidates_def global_candidates_def symbols_where_def import_list_def same_language_def assms ..

lemma derive_cong: "i_files db' = i_files db \<Longrightarrow> derive_import_bindings parse db' = derive_import_bindings parse db"
  by (simp add: derive_import_bindings_def)

lemma edge_candidates_clear [simp]: "edge_candidates cfg parse db d (clear_edge e) = edge_candidates cfg parse db d e"
  by (simp add: edge_candidates_def clear_edge_def Let_def)

lemma insert_candidate_rows:
  "filter (\<lambda>c. c_edge_id c = i) (insert_candidate j c rows) =
     (if i = j then insert_candidate j c (filter (\<lambda>c. c_edge_id c = i) rows) else filter (\<lambda>c. c_edge_id c = i) rows)"
  by (auto simp: insert_candidate_def list_ex_iff)

lemma add_candidates_rows:
  "filter (\<lambda>c. c_edge_id c = i) (add_candidates cfg cs j rows) =
     (if i = j then add_candidates cfg cs j (filter (\<lambda>c. c_edge_id c = i) rows) else filter (\<lambda>c. c_edge_id c = i) rows)"
proof -
  have "filter (\<lambda>c. c_edge_id c = i) (fold (insert_candidate j) xs rows) =
      (if i = j then fold (insert_candidate j) xs (filter (\<lambda>c. c_edge_id c = i) rows) else filter (\<lambda>c. c_edge_id c = i) rows)" for xs
    by (induction xs arbitrary: rows) (auto simp: insert_candidate_rows)
  then show ?thesis by (cases "i = j") (simp_all add: add_candidates_def)
qed

lemma resolve_edge_frame [simp]:
  "i_files (resolve_edge cfg parse d e db) = i_files db" "i_symbols (resolve_edge cfg parse d e db) = i_symbols db"
  by (simp_all add: resolve_edge_def Let_def)

definition settle :: "PostprocessConfig \<Rightarrow> (ucs \<times> int) list \<Rightarrow> edge_row \<Rightarrow> edge_row" where
  "settle cfg cs e = (if cs = [] then e else resolved_edge cfg cs e)"

lemma settle_id [simp]: "e_id (settle cfg cs e) = e_id e" by (simp add: settle_def resolved_edge_def)

lemma resolve_edge_rows:
  "i_edges (resolve_edge cfg parse d e db) =
     map (\<lambda>r. if e_id r = e_id e then settle cfg (edge_candidates cfg parse db d e) r else r) (i_edges db)"
  "rows_for i (resolve_edge cfg parse d e db) =
     (if i = e_id e then add_candidates cfg (edge_candidates cfg parse db d e) i (rows_for i db) else rows_for i db)"
proof -
  show "i_edges (resolve_edge cfg parse d e db) =
     map (\<lambda>r. if e_id r = e_id e then settle cfg (edge_candidates cfg parse db d e) r else r) (i_edges db)"
    by (auto simp: resolve_edge_def Let_def settle_def update_where_def intro: map_idI [symmetric])
  have "i_candidates (resolve_edge cfg parse d e db) = add_candidates cfg (edge_candidates cfg parse db d e) (e_id e) (i_candidates db)"
    by (simp add: resolve_edge_def Let_def add_candidates_def)
  then show "rows_for i (resolve_edge cfg parse d e db) =
     (if i = e_id e then add_candidates cfg (edge_candidates cfg parse db d e) i (rows_for i db) else rows_for i db)"
    by (simp add: rows_for_def add_candidates_rows)
qed

lemma fold_resolve_rows:
  assumes "distinct (map e_id es)"
  shows "i_edges (fold (resolve_edge cfg parse d) es db) =
      map (\<lambda>r. case find (\<lambda>e. e_id e = e_id r) es of None \<Rightarrow> r | Some e \<Rightarrow> settle cfg (edge_candidates cfg parse db d e) r) (i_edges db)"
    and "rows_for i (fold (resolve_edge cfg parse d) es db) =
      (case find (\<lambda>e. e_id e = i) es of None \<Rightarrow> rows_for i db | Some e \<Rightarrow> add_candidates cfg (edge_candidates cfg parse db d e) i (rows_for i db))"
    and "i_files (fold (resolve_edge cfg parse d) es db) = i_files db" "i_symbols (fold (resolve_edge cfg parse d) es db) = i_symbols db"
proof -
  have out: "find (\<lambda>x. e_id x = e_id e) es = None" if "distinct (map e_id (e # es))" for e es
    using that by (metis (mono_tags, lifting) distinct.simps(2) find_None_mem imageI list.set_map list.simps(9))
  have cong: "edge_candidates cfg parse (resolve_edge cfg parse d e db) d = edge_candidates cfg parse db d" for e db
    by (rule ext, rule edge_candidates_cong) simp_all
  show "i_edges (fold (resolve_edge cfg parse d) es db) =
      map (\<lambda>r. case find (\<lambda>e. e_id e = e_id r) es of None \<Rightarrow> r | Some e \<Rightarrow> settle cfg (edge_candidates cfg parse db d e) r) (i_edges db)"
    using assms
  proof (induction es arbitrary: db)
    case (Cons e es)
    then show ?case using out [OF Cons.prems] by (auto simp: resolve_edge_rows cong split: option.splits)
  qed simp
  show "rows_for i (fold (resolve_edge cfg parse d) es db) =
      (case find (\<lambda>e. e_id e = i) es of None \<Rightarrow> rows_for i db | Some e \<Rightarrow> add_candidates cfg (edge_candidates cfg parse db d e) i (rows_for i db))"
    using assms
  proof (induction es arbitrary: db)
    case (Cons e es)
    then show ?case using out [OF Cons.prems] by (auto simp: resolve_edge_rows cong split: option.splits)
  qed simp
  show "i_files (fold (resolve_edge cfg parse d) es db) = i_files db" "i_symbols (fold (resolve_edge cfg parse d) es db) = i_symbols db"
    by (induction es arbitrary: db) simp_all
qed

lemma find_chosen:
  assumes "distinct (map e_id (i_edges db))"
  shows "find (\<lambda>e. e_id e = i) (sort_key unresolved_key (filter P (i_edges db))) = find (\<lambda>e. P e \<and> e_id e = i) (i_edges db)"
proof -
  let ?es = "sort_key unresolved_key (filter P (i_edges db))"
  have "distinct (map e_id (filter P (i_edges db)))" using assms by (rule distinct_map_filter)
  then have d: "distinct (map e_id ?es)" by (metis distinct_map distinct_sort set_sort)
  have mem: "e \<in> set ?es \<longleftrightarrow> e \<in> set (i_edges db) \<and> P e" for e by auto
  show ?thesis
  proof (cases "find (\<lambda>e. e_id e = i) ?es")
    case None
    then have "find (\<lambda>e. P e \<and> e_id e = i) (i_edges db) = None" using mem by (auto simp: find_None_mem)
    then show ?thesis using None by simp
  next
    case (Some e)
    then have e: "e \<in> set (i_edges db)" "P e" "e_id e = i" using find_Some_iff_mem [OF Some] mem by auto
    then obtain e' where e': "find (\<lambda>e. P e \<and> e_id e = i) (i_edges db) = Some e'"
      by (cases "find (\<lambda>e. P e \<and> e_id e = i) (i_edges db)") (auto simp: find_None_mem)
    have "e' = e" using find_Some_iff_mem [OF e'] e assms by (auto simp: distinct_map inj_on_def)
    then show ?thesis using Some e' by simp
  qed
qed

lemma resolve_filtered_rows:
  assumes d: "distinct (map e_id (i_edges db))"
    and chosen: "\<And>e. e \<in> set (i_edges db) \<Longrightarrow>
      P e \<longleftrightarrow> e_callee_qualified e = None \<and> direct e \<and> (case only of None \<Rightarrow> True | Some ids \<Rightarrow> e_id e \<in> set ids)"
  shows "i_edges (resolve_call_edges_filtered cfg parse only db) =
      map (\<lambda>r. if P r then settle cfg (edge_candidates cfg parse db (derive_import_bindings parse db) r) r else r) (i_edges db)"
    and "rows_for i (resolve_call_edges_filtered cfg parse only db) =
      (case find (\<lambda>e. P e \<and> e_id e = i) (i_edges db) of None \<Rightarrow> rows_for i db
       | Some e \<Rightarrow> add_candidates cfg (edge_candidates cfg parse db (derive_import_bindings parse db) e) i (rows_for i db))"
    and "i_files (resolve_call_edges_filtered cfg parse only db) = i_files db"
    and "i_symbols (resolve_call_edges_filtered cfg parse only db) = i_symbols db"
proof -
  let ?es = "sort_key unresolved_key (filter P (i_edges db))"
  have "filter P (i_edges db) = filter (\<lambda>e. (case only of None \<Rightarrow> True | Some ids \<Rightarrow> e_id e \<in> set ids))
      (filter (\<lambda>e. e_callee_qualified e = None \<and> direct e) (i_edges db))"
    using chosen by (auto intro!: filter_cong)
  then have run: "resolve_call_edges_filtered cfg parse only db = fold (resolve_edge cfg parse (derive_import_bindings parse db)) ?es db"
    by (cases only) (simp_all add: resolve_call_edges_filtered_def filter_sort Let_def)
  have "distinct (map e_id (filter P (i_edges db)))" using d by (rule distinct_map_filter)
  then have es: "distinct (map e_id ?es)" by (metis distinct_map distinct_sort set_sort)
  have hit: "find (\<lambda>e. P e \<and> e_id e = e_id r) (i_edges db) = (if P r then Some r else None)" if r: "r \<in> set (i_edges db)" for r
  proof (cases "find (\<lambda>e. P e \<and> e_id e = e_id r) (i_edges db)")
    case None
    then show ?thesis using r by (auto simp: find_None_mem)
  next
    case (Some e)
    have "e = r" using find_Some_iff_mem [OF Some] r d by (auto simp: distinct_map inj_on_def)
    then show ?thesis using Some find_Some_iff_mem [OF Some] by auto
  qed
  show "i_edges (resolve_call_edges_filtered cfg parse only db) =
      map (\<lambda>r. if P r then settle cfg (edge_candidates cfg parse db (derive_import_bindings parse db) r) r else r) (i_edges db)"
    unfolding run fold_resolve_rows(1) [OF es] find_chosen [OF d] using hit by simp
  show "rows_for i (resolve_call_edges_filtered cfg parse only db) =
      (case find (\<lambda>e. P e \<and> e_id e = i) (i_edges db) of None \<Rightarrow> rows_for i db
       | Some e \<Rightarrow> add_candidates cfg (edge_candidates cfg parse db (derive_import_bindings parse db) e) i (rows_for i db))"
    unfolding run fold_resolve_rows(2) [OF es] find_chosen [OF d] by (rule refl)
  show "i_files (resolve_call_edges_filtered cfg parse only db) = i_files db"
    "i_symbols (resolve_call_edges_filtered cfg parse only db) = i_symbols db"
    unfolding run fold_resolve_rows(3,4) [OF es] by (rule refl)+
qed

lemma clear_edge_simps [simp]: "e_id (clear_edge e) = e_id e" "e_callee_qualified (clear_edge e) = None" "direct (clear_edge e)"
  by (simp_all add: clear_edge_def direct_def)

lemma find_map_clear:
  "find (\<lambda>e. e_id e \<in> S \<and> e_id e = i) (map (\<lambda>e. if T e then clear_edge e else e) es) =
     map_option (\<lambda>e. if T e then clear_edge e else e) (find (\<lambda>e. e_id e \<in> S \<and> e_id e = i) es)"
  by (induction es) auto

text \<open>Clearing the edges of a set and resolving what is unresolved resolves exactly that set.\<close>

lemma reset_resolve_rows:
  assumes d: "distinct (map e_id (i_edges db))" and T: "\<And>e. T e \<Longrightarrow> direct e"
    and db': "i_files db' = i_files db" "i_symbols db' = i_symbols db" "i_edges db' = map (\<lambda>e. if T e then clear_edge e else e) (i_edges db)"
    and only: "only = Some (map e_id (filter T (i_edges db))) \<or> only = None \<and> T = direct"
    and cleared: "\<And>e. e \<in> set (i_edges db) \<Longrightarrow> T e \<Longrightarrow> rows_for (e_id e) db' = []"
  shows "i_edges (resolve_call_edges_filtered cfg parse only db') = map (\<lambda>e. if T e then edge_spec cfg parse db e else e) (i_edges db)"
    and "rows_for i (resolve_call_edges_filtered cfg parse only db') =
      (case find (\<lambda>e. T e \<and> e_id e = i) (i_edges db) of None \<Rightarrow> rows_for i db' | Some e \<Rightarrow> candidate_spec cfg parse db e)"
proof -
  let ?ids = "e_id ` {e \<in> set (i_edges db). T e}" and ?P = "\<lambda>e. e_id e \<in> e_id ` {e \<in> set (i_edges db). T e}"
  have id: "e_id e \<in> ?ids \<longleftrightarrow> T e" if "e \<in> set (i_edges db)" for e
    using that d by (auto simp: distinct_map inj_on_def)
  have d': "distinct (map e_id (i_edges db'))" using d by (simp add: db' comp_def if_distrib cong: if_cong)
  have chosen: "?P e' \<longleftrightarrow> e_callee_qualified e' = None \<and> direct e' \<and> (case only of None \<Rightarrow> True | Some ids \<Rightarrow> e_id e' \<in> set ids)"
    if e': "e' \<in> set (i_edges db')" for e'
  proof -
    obtain e where e: "e \<in> set (i_edges db)" "e' = (if T e then clear_edge e else e)" using e' by (auto simp: db')
    then have "?P e' \<longleftrightarrow> T e" using id by auto
    then show ?thesis using e only T id by (cases "T e") auto
  qed
  have cs: "edge_candidates cfg parse db' (derive_import_bindings parse db') = edge_candidates cfg parse db (derive_import_bindings parse db)"
    by (rule ext) (simp add: derive_cong [OF db'(1)] edge_candidates_cong [OF db'(1,2)])
  show "i_edges (resolve_call_edges_filtered cfg parse only db') = map (\<lambda>e. if T e then edge_spec cfg parse db e else e) (i_edges db)"
    using resolve_filtered_rows(1) [of db' ?P only cfg parse, OF d' chosen] id
    by (simp add: cs db'(3) comp_def edge_spec_def settle_def Let_def cong: if_cong)
  have "find (\<lambda>e. e_id e \<in> ?ids \<and> e_id e = i) (i_edges db) = find (\<lambda>e. T e \<and> e_id e = i) (i_edges db)"
    using id by (auto intro: find_cong)
  then have found: "find (\<lambda>e. ?P e \<and> e_id e = i) (i_edges db') =
      map_option (\<lambda>e. if T e then clear_edge e else e) (find (\<lambda>e. T e \<and> e_id e = i) (i_edges db))"
    unfolding db'(3) find_map_clear by simp
  show "rows_for i (resolve_call_edges_filtered cfg parse only db') =
      (case find (\<lambda>e. T e \<and> e_id e = i) (i_edges db) of None \<Rightarrow> rows_for i db' | Some e \<Rightarrow> candidate_spec cfg parse db e)"
  proof (cases "find (\<lambda>e. T e \<and> e_id e = i) (i_edges db)")
    case None
    then show ?thesis using resolve_filtered_rows(2) [of db' ?P only i cfg parse, OF d' chosen] found by simp
  next
    case (Some e)
    then have "e \<in> set (i_edges db)" "T e" "e_id e = i" using find_Some_iff_mem [OF Some] by auto
    moreover have "rows_for i db' = []" using cleared calculation by blast
    ultimately show ?thesis using resolve_filtered_rows(2) [of db' ?P only i cfg parse, OF d' chosen] found Some
      by (simp add: cs candidate_spec_def)
  qed
qed

lemma full_resolution_rows:
  assumes "distinct (map e_id (i_edges db))"
  shows "i_edges (full_resolution cfg parse db) = map (\<lambda>e. if direct e then edge_spec cfg parse db e else e) (i_edges db)"
    and "rows_for i (full_resolution cfg parse db) =
      (case find (\<lambda>e. direct e \<and> e_id e = i) (i_edges db) of None \<Rightarrow> [] | Some e \<Rightarrow> candidate_spec cfg parse db e)"
proof -
  let ?db = "reset_direct_edge_resolution db"
  have reset: "i_files ?db = i_files db" "i_symbols ?db = i_symbols db" "rows_for j ?db = []"
    "i_edges ?db = map (\<lambda>e. if direct e then clear_edge e else e) (i_edges db)" for j
    by (simp_all add: reset_direct_edge_resolution_def update_where_def rows_for_def)
  note run = reset_resolve_rows [of db direct ?db None, OF assms _ reset(1,2,4)]
  show "i_edges (full_resolution cfg parse db) = map (\<lambda>e. if direct e then edge_spec cfg parse db e else e) (i_edges db)"
    using run(1) reset(3) by (simp add: full_resolution_def resolve_call_edges_def)
  show "rows_for i (full_resolution cfg parse db) =
      (case find (\<lambda>e. direct e \<and> e_id e = i) (i_edges db) of None \<Rightarrow> [] | Some e \<Rightarrow> candidate_spec cfg parse db e)"
    using run(2) reset(3) by (simp add: full_resolution_def resolve_call_edges_def split: option.split)
qed

lemma incremental_resolution_rows:
  assumes "distinct (map e_id (i_edges db))"
  shows "i_edges (incremental_resolution cfg parse delta db) = map (\<lambda>e. if targeted parse delta db e then edge_spec cfg parse db e else e) (i_edges db)"
    and "rows_for i (incremental_resolution cfg parse delta db) =
      (case find (\<lambda>e. targeted parse delta db e \<and> e_id e = i) (i_edges db) of None \<Rightarrow> rows_for i db | Some e \<Rightarrow> candidate_spec cfg parse db e)"
proof -
  let ?T = "targeted parse delta db" and ?ids = "target_ids parse delta db"
  let ?db = "reset_targets ?ids db"
  have ids: "?ids = map e_id (filter ?T (i_edges db))" by (simp add: target_ids_def targeted_def [abs_def] Let_def)
  have id: "e_id e \<in> set ?ids \<longleftrightarrow> ?T e" if "e \<in> set (i_edges db)" for e
    unfolding ids using that assms by (auto simp: distinct_map inj_on_def)
  have edges: "i_edges ?db = map (\<lambda>e. if ?T e then clear_edge e else e) (i_edges db)"
    using id by (simp add: reset_targets_def update_where_def)
  have rows: "rows_for j ?db = (if j \<in> set ?ids then [] else rows_for j db)" for j
    by (auto simp: rows_for_def reset_targets_def filter_empty_conv intro!: filter_cong)
  have frame: "i_files ?db = i_files db" "i_symbols ?db = i_symbols db" by (simp_all add: reset_targets_def)
  have run: "incremental_resolution cfg parse delta db = resolve_call_edges_filtered cfg parse (Some (map e_id (filter ?T (i_edges db)))) ?db"
    by (simp add: incremental_resolution_def ids Let_def)
  have cleared: "rows_for (e_id e) ?db = []" if "e \<in> set (i_edges db)" "?T e" for e using that id rows by simp
  note stage = reset_resolve_rows [of db ?T ?db "Some (map e_id (filter ?T (i_edges db)))", OF assms _ frame edges _ cleared]
  show "i_edges (incremental_resolution cfg parse delta db) = map (\<lambda>e. if ?T e then edge_spec cfg parse db e else e) (i_edges db)"
    unfolding run using stage(1) by (simp add: targeted_def)
  have "rows_for i (incremental_resolution cfg parse delta db) =
      (case find (\<lambda>e. ?T e \<and> e_id e = i) (i_edges db) of None \<Rightarrow> rows_for i ?db | Some e \<Rightarrow> candidate_spec cfg parse db e)"
    unfolding run using stage(2) by (simp add: targeted_def)
  moreover have "rows_for i ?db = rows_for i db" if "find (\<lambda>e. ?T e \<and> e_id e = i) (i_edges db) = None"
    unfolding rows using that by (auto simp: ids find_None_mem)
  ultimately show "rows_for i (incremental_resolution cfg parse delta db) =
      (case find (\<lambda>e. ?T e \<and> e_id e = i) (i_edges db) of None \<Rightarrow> rows_for i db | Some e \<Rightarrow> candidate_spec cfg parse db e)"
    by (simp split: option.split)
qed

section \<open>Agreement with the full scan\<close>

text \<open>An index in which every direct edge carries the result of its resolution.\<close>

definition settled :: "PostprocessConfig \<Rightarrow> parser \<Rightarrow> index_db \<Rightarrow> bool" where
  "settled cfg parse db \<longleftrightarrow>
     distinct (map e_id (i_edges db)) \<and>
     list_all (\<lambda>e. direct e \<longrightarrow> e = edge_spec cfg parse db e \<and> rows_for (e_id e) db = candidate_spec cfg parse db e) (i_edges db) \<and>
     list_all (\<lambda>c. list_ex (\<lambda>e. direct e \<and> e_id e = c_edge_id c) (i_edges db)) (i_candidates db)"

text \<open>The direct edges of untouched files come from the index before the scan, with their candidates.\<close>

definition carried :: "ScanDelta \<Rightarrow> index_db \<Rightarrow> index_db \<Rightarrow> bool" where
  "carried delta db0 db \<longleftrightarrow>
     distinct (map e_id (i_edges db)) \<and>
     list_all (\<lambda>e. direct e \<and> e_source_file e \<notin> set (touched_files delta) \<longrightarrow>
        e \<in> set (i_edges db0) \<and> rows_for (e_id e) db = rows_for (e_id e) db0) (i_edges db) \<and>
     list_all (\<lambda>c. list_ex (\<lambda>e. direct e \<and> e_id e = c_edge_id c) (i_edges db)) (i_candidates db)"

lemma untargeted_settled:
  assumes "settled cfg parse db0" "covers delta db0 db" "carried delta db0 db" "parse_array parse (lit ''[]'') = []"
    and e: "e \<in> set (i_edges db)" "direct e" "\<not> targeted parse delta db e"
  shows "e = edge_spec cfg parse db e" "rows_for (e_id e) db = candidate_spec cfg parse db e"
proof -
  have "e_source_file e \<notin> set (touched_files delta)" using e by (auto simp: targeted_def)
  then have old: "e \<in> set (i_edges db0)" "rows_for (e_id e) db = rows_for (e_id e) db0"
    using assms(3) e by (auto simp: carried_def list_all_iff)
  have cs: "edge_candidates cfg parse db (derive_import_bindings parse db) e = edge_candidates cfg parse db0 (derive_import_bindings parse db0) e"
    by (rule candidates_same [OF assms(2) e(2,3) assms(4)])
  have "e = edge_spec cfg parse db0 e" "rows_for (e_id e) db0 = candidate_spec cfg parse db0 e"
    using assms(1) old(1) e(2) by (auto simp: settled_def list_all_iff)
  then show "e = edge_spec cfg parse db e" "rows_for (e_id e) db = candidate_spec cfg parse db e"
    using old(2) by (simp_all add: edge_spec_def candidate_spec_def cs)
qed

lemma targeted_direct: "targeted parse delta db e \<Longrightarrow> direct e"
  by (simp add: targeted_def)

lemma resolve_frame [simp]:
  "i_files (full_resolution cfg parse db) = i_files db" "i_symbols (full_resolution cfg parse db) = i_symbols db"
proof -
  have "i_files (fold (resolve_edge cfg parse d) es db) = i_files db \<and> i_symbols (fold (resolve_edge cfg parse d) es db) = i_symbols db" for d es db
    by (induction es arbitrary: db) simp_all
  then show "i_files (full_resolution cfg parse db) = i_files db" "i_symbols (full_resolution cfg parse db) = i_symbols db"
    by (simp_all add: full_resolution_def resolve_call_edges_def resolve_call_edges_filtered_def reset_direct_edge_resolution_def Let_def)
qed

lemma incremental_frame [simp]:
  "i_files (incremental_resolution cfg parse delta db) = i_files db" "i_symbols (incremental_resolution cfg parse delta db) = i_symbols db"
proof -
  have "i_files (fold (resolve_edge cfg parse d) es db) = i_files db \<and> i_symbols (fold (resolve_edge cfg parse d) es db) = i_symbols db" for d es db
    by (induction es arbitrary: db) simp_all
  then show "i_files (incremental_resolution cfg parse delta db) = i_files db" "i_symbols (incremental_resolution cfg parse delta db) = i_symbols db"
    by (simp_all add: incremental_resolution_def resolve_call_edges_filtered_def reset_targets_def Let_def)
qed

lemma edge_spec_simps [simp]:
  "e_id (edge_spec cfg parse db e) = e_id e" "direct (edge_spec cfg parse db e)"
  "edge_spec cfg parse db (edge_spec cfg parse db e) = edge_spec cfg parse db e"
  "candidate_spec cfg parse db (edge_spec cfg parse db e) = candidate_spec cfg parse db e"
proof -
  have keep: "edge_candidates cfg parse db d (resolved_edge cfg cs e) = edge_candidates cfg parse db d e" for d cs e
    by (simp add: edge_candidates_def resolved_edge_def Let_def)
  show id: "e_id (edge_spec cfg parse db e) = e_id e" by (simp add: edge_spec_def resolved_edge_def Let_def)
  show "direct (edge_spec cfg parse db e)"
    by (simp add: edge_spec_def resolved_edge_def edge_provenance_def direct_def clear_edge_def Let_def lit_def)
  have same: "edge_candidates cfg parse db d (edge_spec cfg parse db e) = edge_candidates cfg parse db d e" for d
    by (simp add: edge_spec_def keep Let_def)
  show "edge_spec cfg parse db (edge_spec cfg parse db e) = edge_spec cfg parse db e"
    unfolding edge_spec_def [of cfg parse db "edge_spec cfg parse db e"] same
    by (simp add: edge_spec_def resolved_edge_def clear_edge_def edge_provenance_def Let_def)
  show "candidate_spec cfg parse db (edge_spec cfg parse db e) = candidate_spec cfg parse db e"
    by (simp add: candidate_spec_def same id)
qed

lemma spec_cong:
  assumes "i_files db' = i_files db" "i_symbols db' = i_symbols db"
  shows "edge_spec cfg parse db' = edge_spec cfg parse db" "candidate_spec cfg parse db' = candidate_spec cfg parse db"
  by (auto simp: edge_spec_def candidate_spec_def derive_cong [OF assms(1)] edge_candidates_cong [OF assms])

lemma settled_by_rows:
  assumes "distinct (map e_id (i_edges db))" "i_files db' = i_files db" "i_symbols db' = i_symbols db"
    and edges: "i_edges db' = map (\<lambda>e. if direct e then edge_spec cfg parse db e else e) (i_edges db)"
    and rows: "\<And>i. rows_for i db' = (case find (\<lambda>e. direct e \<and> e_id e = i) (i_edges db) of None \<Rightarrow> [] | Some e \<Rightarrow> candidate_spec cfg parse db e)"
  shows "settled cfg parse db'"
proof -
  have row: "rows_for (e_id e) db' = candidate_spec cfg parse db e" if e: "e \<in> set (i_edges db)" "direct e" for e
  proof -
    obtain e' where e': "find (\<lambda>x. direct x \<and> e_id x = e_id e) (i_edges db) = Some e'"
      using e by (cases "find (\<lambda>x. direct x \<and> e_id x = e_id e) (i_edges db)") (auto simp: find_None_mem)
    have "e' = e" using find_Some_iff_mem [OF e'] e assms(1) by (auto simp: distinct_map inj_on_def)
    then show ?thesis using rows e' by simp
  qed
  have own: "\<exists>e \<in> set (i_edges db'). direct e \<and> e_id e = c_edge_id c" if "c \<in> set (i_candidates db')" for c
  proof -
    have "rows_for (c_edge_id c) db' \<noteq> []" using that by (auto simp: rows_for_def filter_empty_conv)
    then obtain e where "find (\<lambda>e. direct e \<and> e_id e = c_edge_id c) (i_edges db) = Some e"
      unfolding rows by (auto split: option.splits)
    then have "e \<in> set (i_edges db)" "direct e" "e_id e = c_edge_id c" by (auto dest: find_Some_iff_mem)
    then have "edge_spec cfg parse db e \<in> set (i_edges db')" "e_id (edge_spec cfg parse db e) = c_edge_id c" by (auto simp: edges)
    then show ?thesis by (meson edge_spec_simps(2))
  qed
  have "distinct (map e_id (i_edges db'))" using assms(1) by (simp add: edges comp_def if_distrib cong: if_cong)
  then show ?thesis
    unfolding settled_def spec_cong [OF assms(2,3)] using row own by (auto simp: edges list_all_iff list_ex_iff)
qed

text \<open>A full resolution settles the index, whatever it held.\<close>

lemma full_resolution_settled:
  assumes "distinct (map e_id (i_edges db))"
  shows "settled cfg parse (full_resolution cfg parse db)"
  by (rule settled_by_rows [OF assms]) (simp_all only: resolve_frame full_resolution_rows [OF assms])

lemma incremental_agrees:
  assumes "settled cfg parse db0" "covers delta db0 db" "carried delta db0 db" "parse_array parse (lit ''[]'') = []"
  shows "i_edges (incremental_resolution cfg parse delta db) = i_edges (full_resolution cfg parse db) \<and>
    rows_for i (incremental_resolution cfg parse delta db) = rows_for i (full_resolution cfg parse db) \<and>
    settled cfg parse (incremental_resolution cfg parse delta db)"
proof -
  have d: "distinct (map e_id (i_edges db))" using assms(3) by (simp add: carried_def)
  note old = untargeted_settled [OF assms]
  have edges: "i_edges (incremental_resolution cfg parse delta db) = i_edges (full_resolution cfg parse db)"
    unfolding full_resolution_rows(1) [OF d] incremental_resolution_rows(1) [OF d]
    using old(1) targeted_direct by auto
  have rows: "rows_for i (incremental_resolution cfg parse delta db) = rows_for i (full_resolution cfg parse db)" for i
  proof (cases "find (\<lambda>e. direct e \<and> e_id e = i) (i_edges db)")
    case None
    then have "find (\<lambda>e. targeted parse delta db e \<and> e_id e = i) (i_edges db) = None" "rows_for i db = []"
      using assms(3) targeted_direct by (auto simp: find_None_mem rows_for_def filter_empty_conv carried_def list_all_iff list_ex_iff)
    then show ?thesis unfolding full_resolution_rows(2) [OF d] incremental_resolution_rows(2) [OF d] using None by simp
  next
    case (Some e)
    then have e: "e \<in> set (i_edges db)" "direct e" "e_id e = i" by (auto dest: find_Some_iff_mem)
    have "find (\<lambda>e. targeted parse delta db e \<and> e_id e = i) (i_edges db) = (if targeted parse delta db e then Some e else None)"
    proof (cases "find (\<lambda>e. targeted parse delta db e \<and> e_id e = i) (i_edges db)")
      case None
      then show ?thesis using e by (auto simp: find_None_mem)
    next
      case (Some e')
      have "e' = e" using find_Some_iff_mem [OF Some] e d by (auto simp: distinct_map inj_on_def)
      then show ?thesis using Some find_Some_iff_mem [OF Some] by auto
    qed
    then show ?thesis unfolding full_resolution_rows(2) [OF d] incremental_resolution_rows(2) [OF d] using Some old(2) [OF e(1,2)] e(3) by simp
  qed
  have "settled cfg parse (incremental_resolution cfg parse delta db)"
    by (rule settled_by_rows [OF d]) (simp_all only: incremental_frame edges rows full_resolution_rows [OF d])
  then show ?thesis using edges rows by simp
qed

text \<open>
  A full resolution settles every direct edge.  Later, from a settled index, the resolution of an incremental
  scan gives the very edge rows and, edge by edge, the very candidate rows that resolving everything again
  would give, and leaves the index settled for the next scan.
\<close>

theorem incremental_resolution_full:
  assumes "settled cfg parse db0" "covers delta db0 db" "carried delta db0 db" "parse_array parse (lit ''[]'') = []"
  shows "i_edges (incremental_resolution cfg parse delta db) = i_edges (full_resolution cfg parse db) \<and>
    rows_for i (incremental_resolution cfg parse delta db) = rows_for i (full_resolution cfg parse db) \<and>
    settled cfg parse (incremental_resolution cfg parse delta db)"
  by (rule incremental_agrees [OF assms])

text \<open>
  An index of three Python files: an edge into a file the scan rewrites, which is targeted, and an imported edge
  which is not.
\<close>

definition demo_file :: "string \<Rightarrow> string \<Rightarrow> file_row" where
  "demo_file path imports = \<lparr>f_path = lit path, f_struct_hash = [], f_language = Some (lit ''python''), f_layer = None,
     f_imports = Some (lit imports), f_kind_hint = None, f_actual_kind = None, f_contract_version = [], f_backend = [], f_environment = [],
     f_import_bindings = lit ''[]''\<rparr>"

definition demo_symbol :: "int \<Rightarrow> string \<Rightarrow> string \<Rightarrow> symbol_row" where
  "demo_symbol k path name = \<lparr>s_id = k, s_file_path = lit path, s_name = lit name, s_short_name = None, s_type = lit ''function'',
     s_args = None, s_lineno = None, s_end_lineno = None, s_hash = None, s_bases = None, s_name_tokens = []\<rparr>"

definition demo_edge :: "int \<Rightarrow> string \<Rightarrow> edge_row" where
  "demo_edge k callee = \<lparr>e_id = k, e_source_file = lit ''a'', e_caller = lit ''m'', e_callee = lit callee, e_callee_file = None,
     e_callee_qualified = None, e_line = None, e_provenance = None, e_synthesized_from = None, e_via = None, e_call_form = lit ''name''\<rparr>"

definition demo_index :: "symbol_row list \<Rightarrow> index_db" where
  "demo_index symbols =
     \<lparr>i_files = [demo_file ''a'' ''c'', demo_file ''b'' [], demo_file ''c'' []], i_symbols = symbols, i_occurrences = [],
      i_edges = [demo_edge 1 ''f'', demo_edge 2 ''h''], i_candidates = [], i_patterns = [], i_clusters = [], i_members = [],
      i_summaries = [], i_counters = [], i_documents = [], i_meta = [],
      i_seq = \<lparr>seq_symbols = 9, seq_edges = 3, seq_patterns = 1, seq_clusters = 1, seq_summaries = 1, seq_documents = 1\<rparr>\<rparr>"

definition demo_config :: PostprocessConfig where
  "demo_config = \<lparr>filter_small = True, cluster_max_size = 20, cluster_entry_count = 5, synth_interface_fanout_cap = 8, synth_event_fanout_cap = 8, resolve_fanout_cap = 5, resolve_score_same_file = 100,
     resolve_score_direct_import = 80, resolve_score_global = 40, file_kind_min_symbols = 3,
     struct_scan_timeout = 60, full_scan_timeout = 600\<rparr>"

definition demo_parse :: parser where
  "demo_parse text = (if text = lit ''c'' then Some (JArray [JString (lit ''c'')]) else None)"

definition demo_before :: index_db where
  "demo_before = full_resolution demo_config demo_parse (demo_index [demo_symbol 1 ''b'' ''f'', demo_symbol 2 ''c'' ''h''])"

definition demo_after :: index_db where
  "demo_after = demo_before\<lparr>i_symbols := [demo_symbol 2 ''c'' ''h'', demo_symbol 3 ''b'' ''f'', demo_symbol 4 ''b'' ''g'']\<rparr>"

definition demo_delta :: ScanDelta where
  "demo_delta = \<lparr>touched_files = [lit ''b''], delta_names = [lit ''f'', lit ''g''], added_py = [], removed_py = []\<rparr>"

lemma demo_holds:
  "settled demo_config demo_parse demo_before" "covers demo_delta demo_before demo_after"
  "carried demo_delta demo_before demo_after" "parse_array demo_parse (lit ''[]'') = []"
  subgoal unfolding demo_before_def by (rule full_resolution_settled) code_simp
  subgoal by code_simp
  subgoal by code_simp
  subgoal by code_simp
  done

theorem incremental_resolution_full_witness:
  "settled demo_config demo_parse demo_before \<and> covers demo_delta demo_before demo_after \<and> carried demo_delta demo_before demo_after \<and>
   parse_array demo_parse (lit ''[]'') = [] \<and>
   i_edges (incremental_resolution demo_config demo_parse demo_delta demo_after) = i_edges (full_resolution demo_config demo_parse demo_after)"
  using incremental_resolution_full [OF demo_holds] demo_holds by blast

end
