(* ===== verification/Selection.thy ===== *)
theory Selection
  imports Facts
begin

text \<open>
  The choice of one symbol per name among the symbols of a file,
  \<^verbatim>\<open>remy-cc/scanner-core/src/selection.rs\<close>: the stable order of symbols, the extent order, the kind
  of a conflict, and the selection with its auditable occurrences.
\<close>

definition TYPE_VARIANT :: ucs where "TYPE_VARIANT = lit ''type_variant''"
definition SIGNATURE_VARIANT :: ucs where "SIGNATURE_VARIANT = lit ''signature_variant''"
definition DUPLICATE_DEFINITION :: ucs where "DUPLICATE_DEFINITION = lit ''duplicate_definition''"

record SelectedOccurrence =
  so_symbol :: SymbolInfo
  so_occurrence_index :: nat
  so_is_canonical :: bool
  so_conflict_kind :: ucs
  so_selection_reason :: ucs

record Selection =
  canonical_symbols :: "SymbolInfo list"
  occurrences :: "SelectedOccurrence list"

fun split_by :: "(nat \<Rightarrow> bool) \<Rightarrow> ucs \<Rightarrow> ucs list" where
  "split_by P [] = [[]]"
| "split_by P (c # cs) =
     (if P c then [] # split_by P cs
      else (case split_by P cs of [] \<Rightarrow> [[c]] | p # ps \<Rightarrow> (c # p) # ps))"

definition normalize_signature :: "ucs \<Rightarrow> ucs" where
  "normalize_signature args = join_with [32] (filter (\<lambda>part. part \<noteq> []) (split_by is_python_space args))"

definition unwrap_or :: "'a \<Rightarrow> 'a option \<Rightarrow> 'a" where
  "unwrap_or d v = (case v of None \<Rightarrow> d | Some x \<Rightarrow> x)"

definition stable_key_cmp :: "SymbolInfo \<Rightarrow> SymbolInfo \<Rightarrow> Ordering" where
  "stable_key_cmp a b =
     then_with (cmp (si_lineno a) (si_lineno b))
     (then_with (cmp (unwrap_or (si_lineno a) (si_end_lineno a)) (unwrap_or (si_lineno b) (si_end_lineno b)))
     (then_with (cmp (si_name a) (si_name b))
     (then_with (cmp (si_sym_type a) (si_sym_type b))
     (then_with (cmp (normalize_signature (si_args a)) (normalize_signature (si_args b)))
     (then_with (cmp (si_source_segment a) (si_source_segment b))
     (then_with (cmp (unwrap_or [] (si_docstring a)) (unwrap_or [] (si_docstring b)))
       (cmp (unwrap_or [] (si_bases a)) (unwrap_or [] (si_bases b)))))))))"

definition extent_span :: "SymbolInfo \<Rightarrow> int" where
  "extent_span s = max (unwrap_or (si_lineno s) (si_end_lineno s) - si_lineno s) 0"

definition source_extent_cmp :: "SymbolInfo \<Rightarrow> SymbolInfo \<Rightarrow> Ordering" where
  "source_extent_cmp a b =
     then_with (cmp (si_source_segment b \<noteq> []) (si_source_segment a \<noteq> []))
     (then_with (cmp (extent_span b) (extent_span a))
     (then_with (cmp (length (si_source_segment b)) (length (si_source_segment a)))
       (stable_key_cmp a b)))"

definition classify :: "SymbolInfo list \<Rightarrow> ucs" where
  "classify symbols =
     (if 1 < length (btree_set (map si_sym_type symbols)) then TYPE_VARIANT
      else if 1 < length (btree_set (map (\<lambda>s. normalize_signature (si_args s)) symbols)) then SIGNATURE_VARIANT
      else DUPLICATE_DEFINITION)"

definition best_extent :: "SymbolInfo list \<Rightarrow> nat" where
  "best_extent ordered =
     foldl (\<lambda>best i. if source_extent_cmp (ordered ! i) (ordered ! best) = Less then i else best) 0 [1..<length ordered]"

definition select_group :: "SymbolInfo list \<Rightarrow> SymbolInfo list \<times> SelectedOccurrence list" where
  "select_group ordered =
     (if length ordered = 1 then ([hd ordered], [])
      else (let conflict_kind = classify ordered;
                (selected_index, selection_reason) =
                  (if conflict_kind = SIGNATURE_VARIANT then (0, lit ''earliest_source_position'')
                   else (best_extent ordered, lit ''max_source_extent_then_position''))
            in ([ordered ! selected_index],
                map (\<lambda>(index, symbol). \<lparr>so_symbol = symbol, so_occurrence_index = index,
                       so_is_canonical = (index = selected_index), so_conflict_kind = conflict_kind,
                       so_selection_reason = selection_reason\<rparr>) (enumerate 0 ordered))))"

definition select_symbols :: "SymbolInfo list \<Rightarrow> Selection" where
  "select_symbols symbols =
     (let groups = btree_group si_name symbols;
          picks = map (\<lambda>(name, group). select_group (sort_cmp stable_key_cmp group)) groups
      in \<lparr>canonical_symbols = sort_cmp stable_key_cmp (concat (map fst picks)),
          occurrences = concat (map snd picks)\<rparr>)"

section \<open>The orders as keys\<close>

definition stable_key :: "SymbolInfo \<Rightarrow> int \<times> int \<times> ucs \<times> ucs \<times> ucs \<times> ucs \<times> ucs \<times> ucs list" where
  "stable_key s = (si_lineno s, unwrap_or (si_lineno s) (si_end_lineno s), si_name s, si_sym_type s,
     normalize_signature (si_args s), si_source_segment s, unwrap_or [] (si_docstring s), unwrap_or [] (si_bases s))"

definition extent_key where
  "extent_key s = (si_source_segment s = [], - extent_span s, - int (length (si_source_segment s)), stable_key s)"

lemma stable_key_cmp_key: "stable_key_cmp a b = cmp (stable_key a) (stable_key b)"
  by (simp only: stable_key_cmp_def stable_key_def then_with_cmp)

lemma source_extent_cmp_key: "source_extent_cmp a b = cmp (extent_key a) (extent_key b)"
proof -
  have "cmp (si_source_segment b \<noteq> []) (si_source_segment a \<noteq> []) = cmp (si_source_segment a = []) (si_source_segment b = [])"
    by (auto simp: cmp_def)
  moreover have "cmp (extent_span b) (extent_span a) = cmp (- extent_span a) (- extent_span b)"
    by (auto simp: cmp_def)
  moreover have "cmp (length (si_source_segment b)) (length (si_source_segment a)) =
      cmp (- int (length (si_source_segment a))) (- int (length (si_source_segment b)))"
    by (auto simp: cmp_def)
  ultimately show ?thesis
    by (simp only: source_extent_cmp_def extent_key_def then_with_cmp stable_key_cmp_key)
qed

lemma sort_stable: "sort_cmp stable_key_cmp xs = sort_key stable_key xs"
  by (rule sort_cmp_key) (rule stable_key_cmp_key)

lemma best_extent_least:
  assumes "ordered \<noteq> []"
  shows "best_extent ordered < length ordered \<and>
    (\<forall>i < length ordered. extent_key (ordered ! best_extent ordered) \<le> extent_key (ordered ! i))"
proof -
  let ?step = "\<lambda>best i. if source_extent_cmp (ordered ! i) (ordered ! best) = Less then i else best"
  have "foldl ?step 0 [1..<n] < n \<and> (\<forall>i < n. extent_key (ordered ! foldl ?step 0 [1..<n]) \<le> extent_key (ordered ! i))"
    if "0 < n" for n
    using that
  proof (induction n)
    case (Suc n)
    show ?case
    proof (cases "n = 0")
      case False
      then have IH: "foldl ?step 0 [1..<n] < n"
        "\<And>i. i < n \<Longrightarrow> extent_key (ordered ! foldl ?step 0 [1..<n]) \<le> extent_key (ordered ! i)"
        using Suc.IH by auto
      have "[1..<Suc n] = [1..<n] @ [n]" using False by simp
      then show ?thesis
        using IH by (auto simp: source_extent_cmp_key less_Suc_eq intro: order.trans less_imp_le)
    qed simp
  qed simp
  then show ?thesis using assms unfolding best_extent_def by blast
qed

section \<open>Conflicts\<close>

text \<open>Two symbols of a group disagree.\<close>

definition differ :: "(SymbolInfo \<Rightarrow> 'k) \<Rightarrow> SymbolInfo list \<Rightarrow> bool" where
  "differ f members \<longleftrightarrow> (\<exists>a \<in> set members. \<exists>b \<in> set members. f a \<noteq> f b)"

lemma several_keys:
  fixes f :: "SymbolInfo \<Rightarrow> 'k::linorder"
  shows "1 < length (btree_set (map f members)) \<longleftrightarrow> differ f members"
proof -
  have "length (btree_set (map f members)) = card (f ` set members)"
    by (metis distinct_btree_set distinct_card set_btree_set set_map)
  moreover have "Suc 0 < card S \<longleftrightarrow> (\<exists>a \<in> S. \<exists>b \<in> S. a \<noteq> b)" if "finite S" for S :: "'k set"
    using card_le_Suc0_iff_eq [OF that] by (auto simp: not_le [symmetric])
  ultimately show ?thesis by (simp add: differ_def)
qed

lemma classify_differ:
  "classify members = (if differ si_sym_type members then TYPE_VARIANT
     else if differ (\<lambda>s. normalize_signature (si_args s)) members then SIGNATURE_VARIANT else DUPLICATE_DEFINITION)"
  by (simp only: classify_def several_keys)

section \<open>Groups\<close>

definition name_group :: "SymbolInfo list \<Rightarrow> ucs \<Rightarrow> SymbolInfo list" where
  "name_group xs n = sort_key stable_key (filter (\<lambda>s. si_name s = n) xs)"

text \<open>The occurrences of a group whose symbol at one position is canonical.\<close>

definition group_occurrences :: "SymbolInfo list \<Rightarrow> nat \<Rightarrow> SelectedOccurrence list" where
  "group_occurrences members k =
     (if length members = 1 then []
      else map (\<lambda>i. \<lparr>so_symbol = members ! i, so_occurrence_index = i, so_is_canonical = (i = k), so_conflict_kind = classify members,
             so_selection_reason = (if classify members = SIGNATURE_VARIANT then lit ''earliest_source_position'' else lit ''max_source_extent_then_position'')\<rparr>)
           [0..<length members])"

lemma select_group_spec:
  assumes "ordered \<noteq> []"
  obtains i where "i < length ordered" "fst (select_group ordered) = [ordered ! i]"
    "classify ordered = SIGNATURE_VARIANT \<Longrightarrow> i = 0"
    "classify ordered \<noteq> SIGNATURE_VARIANT \<Longrightarrow> j < length ordered \<Longrightarrow> extent_key (ordered ! i) \<le> extent_key (ordered ! j)"
    "snd (select_group ordered) = group_occurrences ordered i"
proof (cases "length ordered = 1")
  case True
  then show ?thesis using that [of 0] assms by (auto simp: select_group_def hd_conv_nth group_occurrences_def)
next
  case False
  let ?i = "if classify ordered = SIGNATURE_VARIANT then 0 else best_extent ordered"
  have i: "?i < length ordered" using assms best_extent_least [OF assms] by auto
  have "snd (select_group ordered) = group_occurrences ordered ?i"
    using False by (auto simp: select_group_def group_occurrences_def Let_def enumerate_eq_zip zip_map2 intro!: nth_equalityI)
  moreover have "fst (select_group ordered) = [ordered ! ?i]"
    using False by (auto simp: select_group_def Let_def)
  ultimately show ?thesis
    using that [of ?i] i best_extent_least [OF assms] by simp
qed

lemma group_occurrence_symbols:
  "map so_symbol (group_occurrences members k) = (if length members = 1 then [] else members)"
  "k < length members \<Longrightarrow> map so_symbol (filter so_is_canonical (group_occurrences members k)) = (if length members = 1 then [] else [members ! k])"
proof -
  show "map so_symbol (group_occurrences members k) = (if length members = 1 then [] else members)"
    by (simp add: group_occurrences_def comp_def map_nth)
  have "filter (\<lambda>i. i = k) [0..<n] = [k]" if "k < n" for n
    using that by (induction n) (auto simp: less_Suc_eq filter_empty_conv)
  then show "k < length members \<Longrightarrow> map so_symbol (filter so_is_canonical (group_occurrences members k)) = (if length members = 1 then [] else [members ! k])"
    by (simp add: group_occurrences_def filter_map comp_def)
qed

lemma name_group_facts:
  "set (name_group xs n) = {s \<in> set xs. si_name s = n}" "name_group xs n = [] \<longleftrightarrow> n \<notin> si_name ` set xs"
proof -
  show 1: "set (name_group xs n) = {s \<in> set xs. si_name s = n}" by (simp add: name_group_def)
  have "name_group xs n = [] \<longleftrightarrow> set (name_group xs n) = {}" by simp
  then show "name_group xs n = [] \<longleftrightarrow> n \<notin> si_name ` set xs" unfolding 1 by auto
qed

lemma select_symbols_groups:
  "canonical_symbols (select_symbols xs) =
     sort_key stable_key (concat (map (\<lambda>n. fst (select_group (name_group xs n))) (btree_set (map si_name xs))))"
  "occurrences (select_symbols xs) =
     concat (map (\<lambda>n. snd (select_group (name_group xs n))) (btree_set (map si_name xs)))"
  by (simp_all add: select_symbols_def Let_def btree_group_eq sort_stable comp_def name_group_def)

text \<open>The symbol picked for a name.\<close>

definition picked :: "SymbolInfo list \<Rightarrow> ucs \<Rightarrow> SymbolInfo" where
  "picked xs n = hd (fst (select_group (name_group xs n)))"

lemma picked_spec:
  assumes "n \<in> si_name ` set xs"
  shows "fst (select_group (name_group xs n)) = [picked xs n]" "picked xs n \<in> set (name_group xs n)"
    "si_name (picked xs n) = n"
    "classify (name_group xs n) = SIGNATURE_VARIANT \<Longrightarrow> picked xs n = hd (name_group xs n)"
    "classify (name_group xs n) \<noteq> SIGNATURE_VARIANT \<Longrightarrow> x \<in> set (name_group xs n) \<Longrightarrow>
       extent_key (picked xs n) \<le> extent_key x"
    "map so_symbol (snd (select_group (name_group xs n))) = (if length (name_group xs n) = 1 then [] else name_group xs n)"
    "map so_symbol (filter so_is_canonical (snd (select_group (name_group xs n)))) =
       (if length (name_group xs n) = 1 then [] else [picked xs n])"
    "\<exists>k < length (name_group xs n). name_group xs n ! k = picked xs n \<and>
       snd (select_group (name_group xs n)) = group_occurrences (name_group xs n) k"
proof -
  let ?g = "name_group xs n"
  have ne: "?g \<noteq> []" using assms name_group_facts(2) by blast
  obtain j where j: "x \<in> set ?g \<Longrightarrow> j < length ?g \<and> ?g ! j = x" by (metis in_set_conv_nth)
  from select_group_spec [OF ne, of j] obtain i where
    i: "i < length ?g" "fst (select_group ?g) = [?g ! i]"
      "classify ?g = SIGNATURE_VARIANT \<Longrightarrow> i = 0"
      "classify ?g \<noteq> SIGNATURE_VARIANT \<Longrightarrow> j < length ?g \<Longrightarrow> extent_key (?g ! i) \<le> extent_key (?g ! j)"
      "snd (select_group ?g) = group_occurrences ?g i"
    by blast
  have p: "picked xs n = ?g ! i" by (simp add: picked_def i(2))
  show "fst (select_group ?g) = [picked xs n]" "map so_symbol (snd (select_group ?g)) = (if length ?g = 1 then [] else ?g)"
    "map so_symbol (filter so_is_canonical (snd (select_group ?g))) = (if length ?g = 1 then [] else [picked xs n])"
    using i(2,5) p group_occurrence_symbols(1) [of ?g i] group_occurrence_symbols(2) [OF i(1)] by simp_all
  show "\<exists>k < length ?g. ?g ! k = picked xs n \<and> snd (select_group ?g) = group_occurrences ?g k" using i(1,5) p by auto
  show m: "picked xs n \<in> set ?g" using i(1) p by simp
  then show "si_name (picked xs n) = n" by (simp add: name_group_facts(1))
  show "classify ?g = SIGNATURE_VARIANT \<Longrightarrow> picked xs n = hd ?g" using i(3) p ne by (simp add: hd_conv_nth)
  show "classify ?g \<noteq> SIGNATURE_VARIANT \<Longrightarrow> x \<in> set ?g \<Longrightarrow> extent_key (picked xs n) \<le> extent_key x"
    using i(4) j p by auto
qed

lemma canonical_symbols_picked:
  "canonical_symbols (select_symbols xs) = sort_key stable_key (map (picked xs) (btree_set (map si_name xs)))"
proof -
  have "map (\<lambda>n. fst (select_group (name_group xs n))) (btree_set (map si_name xs)) =
      map (\<lambda>n. [picked xs n]) (btree_set (map si_name xs))"
    using picked_spec(1) by auto
  then show ?thesis by (simp only: select_symbols_groups(1) concat_map_singleton)
qed

lemma occurrences_of_name:
  assumes "n \<in> si_name ` set xs"
  shows "filter (\<lambda>r. si_name (so_symbol r) = n) (occurrences (select_symbols xs)) = snd (select_group (name_group xs n))"
  unfolding select_symbols_groups(2)
proof (rule filter_concat_keyed)
  show "distinct (btree_set (map si_name xs))" "n \<in> set (btree_set (map si_name xs))" using assms by simp_all
  fix m r assume "m \<in> set (btree_set (map si_name xs))" and r: "r \<in> set (snd (select_group (name_group xs m)))"
  then have m: "m \<in> si_name ` set xs" by simp
  have "so_symbol r \<in> set (map so_symbol (snd (select_group (name_group xs m))))" using r by simp
  then have "so_symbol r \<in> set (name_group xs m)"
    unfolding picked_spec(6) [OF m] by (simp split: if_splits)
  then show "si_name (so_symbol r) = m" by (simp add: name_group_facts(1))
qed

section \<open>Properties of the selection\<close>

text \<open>
  C36. The selection keeps one symbol per name that occurs, in the stable order.  The symbol kept for a
  name is the earliest of its group when only signatures differ, and otherwise one of greatest extent.
  A name with several symbols has all of them among its occurrences, in the stable order, numbered from
  zero, with exactly the symbol kept marked as canonical, and each with the kind of the conflict (two of the symbols
  differ in type, or else in signature, or else they are duplicates) and the reason of the choice; a name with one symbol has no
  occurrences.  The occurrences of the names follow each other in the order of the names, and there are no others.
\<close>

theorem select_symbols_exact:
  "sorted (map stable_key (canonical_symbols (select_symbols xs))) \<and>
   distinct (map si_name (canonical_symbols (select_symbols xs))) \<and>
   si_name ` set (canonical_symbols (select_symbols xs)) = si_name ` set xs \<and>
   occurrences (select_symbols xs) =
     concat (map (\<lambda>n. filter (\<lambda>r. si_name (so_symbol r) = n) (occurrences (select_symbols xs))) (btree_set (map si_name xs))) \<and>
   (\<forall>c \<in> set (canonical_symbols (select_symbols xs)).
      let group = name_group xs (si_name c);
          occs = filter (\<lambda>r. si_name (so_symbol r) = si_name c) (occurrences (select_symbols xs));
          kind = (if differ si_sym_type group then TYPE_VARIANT
            else if differ (\<lambda>s. normalize_signature (si_args s)) group then SIGNATURE_VARIANT else DUPLICATE_DEFINITION);
          reason = (if kind = SIGNATURE_VARIANT then lit ''earliest_source_position'' else lit ''max_source_extent_then_position'')
      in c \<in> set group \<and>
         (if kind = SIGNATURE_VARIANT then c = hd group else \<forall>x \<in> set group. extent_key c \<le> extent_key x) \<and>
         map so_symbol occs = (if length group = 1 then [] else group) \<and>
         map so_symbol (filter so_is_canonical occs) = (if length group = 1 then [] else [c]) \<and>
         map so_occurrence_index occs = (if length group = 1 then [] else [0..<length group]) \<and>
         (\<forall>r \<in> set occs. so_conflict_kind r = kind \<and> so_selection_reason r = reason))"
proof -
  let ?c = "canonical_symbols (select_symbols xs)" and ?n = "btree_set (map si_name xs)"
  have names: "map si_name (map (picked xs) ?n) = ?n"
    using picked_spec(3) by (auto intro!: map_idI)
  have c: "?c = sort_key stable_key (map (picked xs) ?n)" by (rule canonical_symbols_picked)
  have "mset (map si_name ?c) = mset ?n" unfolding c by (metis mset_map mset_sort names)
  then have "distinct (map si_name ?c)" and set: "set (map si_name ?c) = set ?n"
    by (metis distinct_btree_set mset_eq_imp_distinct_iff) (metis \<open>mset (map si_name ?c) = mset ?n\<close> set_mset_mset)
  moreover have "sorted (map stable_key ?c)" unfolding c by simp
  moreover have "si_name ` set ?c = si_name ` set xs" using set by simp
  moreover have "occurrences (select_symbols xs) =
      concat (map (\<lambda>n. filter (\<lambda>r. si_name (so_symbol r) = n) (occurrences (select_symbols xs))) ?n)"
  proof -
    have "map (\<lambda>n. filter (\<lambda>r. si_name (so_symbol r) = n) (occurrences (select_symbols xs))) ?n =
        map (\<lambda>n. snd (select_group (name_group xs n))) ?n"
      by (intro map_cong refl occurrences_of_name) simp
    then show ?thesis by (simp only: select_symbols_groups(2) [symmetric])
  qed
  moreover have "let group = name_group xs (si_name c);
          occs = filter (\<lambda>r. si_name (so_symbol r) = si_name c) (occurrences (select_symbols xs));
          kind = classify group;
          reason = (if kind = SIGNATURE_VARIANT then lit ''earliest_source_position'' else lit ''max_source_extent_then_position'')
      in c \<in> set group \<and>
         (if kind = SIGNATURE_VARIANT then c = hd group else \<forall>x \<in> set group. extent_key c \<le> extent_key x) \<and>
         map so_symbol occs = (if length group = 1 then [] else group) \<and>
         map so_symbol (filter so_is_canonical occs) = (if length group = 1 then [] else [c]) \<and>
         map so_occurrence_index occs = (if length group = 1 then [] else [0..<length group]) \<and>
         (\<forall>r \<in> set occs. so_conflict_kind r = kind \<and> so_selection_reason r = reason)"
    if "c \<in> set ?c" for c
  proof -
    from that obtain n where n: "n \<in> si_name ` set xs" "c = picked xs n" unfolding c by auto
    note spec = picked_spec [OF n(1)]
    obtain k where k: "k < length (name_group xs n)" "name_group xs n ! k = picked xs n"
      "snd (select_group (name_group xs n)) = group_occurrences (name_group xs n) k" using spec(8) by blast
    have indices: "map so_occurrence_index (group_occurrences members k) = (if length members = 1 then [] else [0..<length members])" for members
      by (simp add: group_occurrences_def comp_def)
    have labels: "so_conflict_kind r = classify members" "so_selection_reason r =
        (if classify members = SIGNATURE_VARIANT then lit ''earliest_source_position'' else lit ''max_source_extent_then_position'')"
      if "r \<in> set (group_occurrences members k)" for r members
      using that by (auto simp: group_occurrences_def split: if_splits)
    show ?thesis unfolding Let_def n(2) spec(3) occurrences_of_name [OF n(1)] k(3) group_occurrence_symbols indices
      using spec(2,4,5) group_occurrence_symbols(2) [OF k(1)] k(2) labels by simp
  qed
  ultimately show ?thesis unfolding classify_differ by blast
qed

definition sample :: "int \<Rightarrow> int \<Rightarrow> SymbolInfo" where
  "sample line until = \<lparr>si_name = [102], si_args = [], si_sym_type = [99], si_lineno = line, si_source_segment = [120],
     si_end_lineno = Some until, si_docstring = None, si_bases = None, si_hash_source_segment = None\<rparr>"

theorem select_symbols_exact_witness:
  "canonical_symbols (select_symbols [sample 3 4, sample 1 1]) = [sample 3 4] \<and>
   map so_symbol (filter (\<lambda>r. si_name (so_symbol r) = [102]) (occurrences (select_symbols [sample 3 4, sample 1 1]))) =
     [sample 1 1, sample 3 4] \<and>
   map so_occurrence_index (filter (\<lambda>r. si_name (so_symbol r) = [102]) (occurrences (select_symbols [sample 3 4, sample 1 1]))) = [0, 1]"
proof -
  have c: "canonical_symbols (select_symbols [sample 3 4, sample 1 1]) = [sample 3 4]" by code_simp
  have g: "name_group [sample 3 4, sample 1 1] [102] = [sample 1 1, sample 3 4]" by code_simp
  have n: "si_name (sample 3 4) = [102]" by (simp add: sample_def)
  have "sample 3 4 \<in> set (canonical_symbols (select_symbols [sample 3 4, sample 1 1]))" by (simp add: c)
  with select_symbols_exact [of "[sample 3 4, sample 1 1]", THEN conjunct2, THEN conjunct2, THEN conjunct2, THEN conjunct2]
  have "let group = name_group [sample 3 4, sample 1 1] (si_name (sample 3 4));
      occs = filter (\<lambda>r. si_name (so_symbol r) = si_name (sample 3 4)) (occurrences (select_symbols [sample 3 4, sample 1 1]))
    in map so_symbol occs = (if length group = 1 then [] else group) \<and>
       map so_occurrence_index occs = (if length group = 1 then [] else [0..<length group])"
    unfolding Let_def by blast
  then show ?thesis by (simp add: Let_def c n g upt_rec)
qed

text \<open>
  The selection does not depend on the order in which the parser reports the symbols, provided
  that no two of them agree on the whole stable key.
\<close>

theorem select_symbols_deterministic:
  assumes "mset xs = mset ys" "inj_on stable_key (set xs)"
  shows "select_symbols xs = select_symbols ys"
proof -
  have set: "set xs = set ys" using assms(1) by (metis set_mset_mset)
  have "name_group xs n = name_group ys n" for n
    unfolding name_group_def
  proof (rule sort_key_inj_key_eq)
    show "mset (filter (\<lambda>s. si_name s = n) xs) = mset (sort_key stable_key (filter (\<lambda>s. si_name s = n) ys))"
      using assms(1) by (metis mset_filter mset_sort)
    show "inj_on stable_key (set (filter (\<lambda>s. si_name s = n) xs))"
      using assms(2) by (rule inj_on_subset) auto
    show "sorted (map stable_key (sort_key stable_key (filter (\<lambda>s. si_name s = n) ys)))" by simp
  qed
  moreover have "btree_set (map si_name xs) = btree_set (map si_name ys)"
    by (rule btree_set_cong) (simp add: set)
  ultimately show ?thesis by (auto intro!: Selection.equality simp: select_symbols_groups)
qed

theorem select_symbols_deterministic_witness:
  "select_symbols [sample 3 4, sample 1 1] = select_symbols [sample 1 1, sample 3 4]"
  by (rule select_symbols_deterministic) (simp_all add: inj_on_def stable_key_def sample_def)

end
