(* ===== verification/Fnmatch.thy ===== *)
theory Fnmatch
  imports CodePoints
begin

text \<open>
  File name patterns, \<^verbatim>\<open>remy-cc/scanner-core/src/fnmatch.rs\<close>, on platforms where matching is case
  sensitive.  Text is a list of Unicode code points.  The code compiles a pattern to tokens and
  matches with a single backtracking point, the last star; positions in its arrays are suffixes
  here.  The matcher is proved equivalent to the declarative relation \<open>glob\<close>, and the tokens to an
  uncollapsed reference reading of the pattern.
\<close>

datatype Tok = Star | AnyChar | Lit nat | Class bool "(nat \<times> nat) list"

section \<open>Compiling a pattern\<close>

fun class_ranges :: "ucs \<Rightarrow> (nat \<times> nat) list" where
  "class_ranges [] = []"
| "class_ranges [a] = [(a, a)]"
| "class_ranges [a, b] = (if b = 45 then [(a, a), (45, 45)] else (a, a) # class_ranges [b])"
| "class_ranges (a # b # c # r) = (if b = 45 then (a, c) # class_ranges r else (a, a) # class_ranges (b # c # r))"

text \<open>The characters after the opening bracket; the rest after the closing one.\<close>

definition parse_class :: "ucs \<Rightarrow> (Tok \<times> ucs) option" where
  "parse_class cs =
     (let negated = (case cs of [] \<Rightarrow> False | c # _ \<Rightarrow> c = 33);
          cs1 = (if negated then tl cs else cs);
          lead = (case cs1 of [] \<Rightarrow> [] | c # _ \<Rightarrow> if c = 93 then [c] else []);
          cs2 = drop (length lead) cs1;
          body = lead @ takeWhile (\<lambda>c. c \<noteq> 93) cs2
      in (case dropWhile (\<lambda>c. c \<noteq> 93) cs2 of
            [] \<Rightarrow> None
          | _ # rest \<Rightarrow> Some (Class negated (class_ranges body), rest)))"

lemma parse_class_shorter: "parse_class cs = Some (t, rest) \<Longrightarrow> length rest < length cs"
proof -
  assume some: "parse_class cs = Some (t, rest)"
  define cs1 where "cs1 = (if (case cs of [] \<Rightarrow> False | c # _ \<Rightarrow> c = 33) then tl cs else cs)"
  define lead where "lead = (case cs1 of [] \<Rightarrow> [] | c # _ \<Rightarrow> if c = 93 then [c] else [])"
  define ds where "ds = drop (length lead) cs1"
  obtain c where c: "dropWhile (\<lambda>c. c \<noteq> 93) ds = c # rest"
    using some unfolding parse_class_def Let_def cs1_def [symmetric] lead_def [symmetric] ds_def [symmetric]
    by (cases "dropWhile (\<lambda>c. c \<noteq> 93) ds") auto
  have "length ds \<le> length cs" by (simp add: ds_def cs1_def)
  moreover have "length (dropWhile (\<lambda>c. c \<noteq> 93) ds) \<le> length ds" by (rule length_dropWhile_le)
  ultimately show ?thesis using c by simp
qed

function tokenize_from :: "ucs \<Rightarrow> Tok list \<Rightarrow> Tok list" where
  "tokenize_from [] toks = toks"
| "tokenize_from (c # cs) toks =
     (if c = 42 then tokenize_from cs (if toks \<noteq> [] \<and> last toks = Star then toks else toks @ [Star])
      else if c = 63 then tokenize_from cs (toks @ [AnyChar])
      else if c = 91 then
        (case parse_class cs of
           Some (tok, next) \<Rightarrow> tokenize_from next (toks @ [tok])
         | None \<Rightarrow> tokenize_from cs (toks @ [Lit 91]))
      else tokenize_from cs (toks @ [Lit c]))"
  by pat_completeness auto
termination
  by (relation "measure (\<lambda>(cs, toks). length cs)") (auto dest: parse_class_shorter)

definition tokenize :: "ucs \<Rightarrow> Tok list" where
  "tokenize pattern = tokenize_from pattern []"

section \<open>Matching\<close>

definition class_matches :: "bool \<Rightarrow> (nat \<times> nat) list \<Rightarrow> nat \<Rightarrow> bool" where
  "class_matches negated ranges c = (list_ex (\<lambda>(lo, hi). lo \<le> c \<and> c \<le> hi) ranges \<noteq> negated)"

fun tok_matches :: "Tok \<Rightarrow> nat \<Rightarrow> bool" where
  "tok_matches Star c = False"
| "tok_matches AnyChar c = True"
| "tok_matches (Lit d) c = (d = c)"
| "tok_matches (Class negated ranges) c = class_matches negated ranges c"

text \<open>
  The loop: the remaining tokens and characters, and the tokens and characters after the last
  star.  A failed attempt restarts there one character later.
\<close>

function match_loop :: "Tok list \<Rightarrow> ucs \<Rightarrow> (Tok list \<times> ucs) option \<Rightarrow> bool" where
  "match_loop ts [] star = list_all (\<lambda>t. t = Star) ts"
| "match_loop ts (c # cs) star =
     (if ts \<noteq> [] \<and> hd ts = Star then match_loop (tl ts) (c # cs) (Some (tl ts, c # cs))
      else if ts \<noteq> [] \<and> tok_matches (hd ts) c then match_loop (tl ts) cs star
      else (case star of
          Some (st, sn) \<Rightarrow> match_loop st (tl sn) (Some (st, tl sn))
        | None \<Rightarrow> False))"
  by pat_completeness auto

definition loop_measure :: "(Tok list \<times> ucs \<times> (Tok list \<times> ucs) option) \<Rightarrow> nat \<times> nat \<times> nat" where
  "loop_measure = (\<lambda>(ts, ns, star). (case star of None \<Rightarrow> length ts | Some (st, sn) \<Rightarrow> max (length ts) (length st),
     case star of None \<Rightarrow> 0 | Some (st, sn) \<Rightarrow> length sn, length ns))"

termination match_loop
proof (relation "inv_image (less_than <*lex*> less_than <*lex*> less_than) loop_measure")
  show "wf (inv_image (less_than <*lex*> less_than <*lex*> less_than) loop_measure)" by auto
  fix ts :: "Tok list" and c :: nat and cs :: ucs and star :: "(Tok list \<times> ucs) option"
  show "((tl ts, c # cs, Some (tl ts, c # cs)), ts, c # cs, star)
      \<in> inv_image (less_than <*lex*> less_than <*lex*> less_than) loop_measure"
    if "ts \<noteq> [] \<and> hd ts = Star"
    using that by (cases ts) (auto simp: loop_measure_def split: option.split)
  show "((tl ts, cs, star), ts, c # cs, star) \<in> inv_image (less_than <*lex*> less_than <*lex*> less_than) loop_measure"
    by (auto simp: loop_measure_def split: option.split)
  show "((st, tl sn, Some (st, tl sn)), ts, c # cs, star)
      \<in> inv_image (less_than <*lex*> less_than <*lex*> less_than) loop_measure"
    if "star = Some p" "(st, sn) = p" for p st sn
    using that by (cases sn) (auto simp: loop_measure_def max_def split: if_splits)
qed

declare match_loop.simps(2) [simp del]

lemma match_loop_star: "match_loop (Star # ts) (c # cs) star = match_loop ts (c # cs) (Some (ts, c # cs))"
  by (subst match_loop.simps(2)) simp

lemma match_loop_hit: "t \<noteq> Star \<Longrightarrow> tok_matches t c \<Longrightarrow> match_loop (t # ts) (c # cs) star = match_loop ts cs star"
  by (subst match_loop.simps(2)) simp

lemma match_loop_miss:
  "\<not> (ts \<noteq> [] \<and> hd ts = Star) \<Longrightarrow> \<not> (ts \<noteq> [] \<and> tok_matches (hd ts) c) \<Longrightarrow>
    match_loop ts (c # cs) star = (case star of Some (st, sn) \<Rightarrow> match_loop st (tl sn) (Some (st, tl sn)) | None \<Rightarrow> False)"
  by (subst match_loop.simps(2)) auto

definition fnmatchcase :: "ucs \<Rightarrow> ucs \<Rightarrow> bool" where
  "fnmatchcase name pattern = match_loop (tokenize pattern) name None"

definition fnmatch :: "ucs \<Rightarrow> ucs \<Rightarrow> bool" where
  "fnmatch name pattern = fnmatchcase name pattern"

section \<open>The declarative relation\<close>

fun glob :: "Tok list \<Rightarrow> ucs \<Rightarrow> bool" where
  "glob [] s = (s = [])"
| "glob (Star # ts) s = (glob ts s \<or> (case s of [] \<Rightarrow> False | c # cs \<Rightarrow> glob (Star # ts) cs))"
| "glob (t # ts) s = (case s of [] \<Rightarrow> False | c # cs \<Rightarrow> tok_matches t c \<and> glob ts cs)"

lemma glob_tok: "t \<noteq> Star \<Longrightarrow> glob (t # ts) s = (case s of [] \<Rightarrow> False | c # cs \<Rightarrow> tok_matches t c \<and> glob ts cs)"
  by (cases t) auto

lemma glob_star: "glob (Star # ts) s \<longleftrightarrow> (\<exists>a b. s = a @ b \<and> glob ts b)"
proof (induction s)
  case Nil
  then show ?case by auto
next
  case (Cons c cs)
  have "glob (Star # ts) (c # cs) \<longleftrightarrow> glob ts (c # cs) \<or> (\<exists>a b. cs = a @ b \<and> glob ts b)" using Cons by simp
  also have "\<dots> \<longleftrightarrow> (\<exists>a b. c # cs = a @ b \<and> glob ts b)"
  proof
    assume "glob ts (c # cs) \<or> (\<exists>a b. cs = a @ b \<and> glob ts b)"
    then show "\<exists>a b. c # cs = a @ b \<and> glob ts b" by (metis append_Cons append_Nil)
  next
    assume "\<exists>a b. c # cs = a @ b \<and> glob ts b"
    then obtain a b where "c # cs = a @ b" "glob ts b" by blast
    then show "glob ts (c # cs) \<or> (\<exists>a b. cs = a @ b \<and> glob ts b)" by (cases a) auto
  qed
  finally show ?case .
qed

declare glob.simps(2) [simp del]

lemma glob_star_append: "glob (Star # ts) b \<Longrightarrow> glob (Star # ts) (a @ b)"
  by (auto simp: glob_star) (metis append.assoc)

lemma glob_star_star: "glob (Star # Star # ts) s = glob (Star # ts) s"
proof
  assume "glob (Star # Star # ts) s"
  then obtain a b c where "s = (a @ b) @ c" "glob ts c" by (auto simp: glob_star)
  then show "glob (Star # ts) s" unfolding glob_star by blast
next
  assume "glob (Star # ts) s"
  then show "glob (Star # Star # ts) s" unfolding glob_star [of "Star # ts"] by (metis append_Nil)
qed

lemma glob_nil: "glob ts [] = list_all (\<lambda>t. t = Star) ts"
proof (induction ts)
  case (Cons t ts)
  then show ?case by (cases "t = Star") (auto simp: glob_star glob_tok)
qed simp

text \<open>Tokens without a star consume as many characters as there are tokens.\<close>

lemma glob_prefix:
  "Star \<notin> set u \<Longrightarrow> glob (u @ ts) s \<Longrightarrow> length u \<le> length s \<and> glob ts (drop (length u) s)"
proof (induction u arbitrary: s)
  case (Cons t u)
  then show ?case by (cases s) (auto simp: glob_tok)
qed simp

definition tracks :: "Tok list \<Rightarrow> ucs \<Rightarrow> (Tok list \<times> ucs) option \<Rightarrow> bool" where
  "tracks ts ns star = (case star of None \<Rightarrow> True
     | Some (st, sn) \<Rightarrow> \<exists>u v. st = u @ ts \<and> sn = v @ ns \<and> length u = length v \<and> Star \<notin> set u)"

definition retry :: "(Tok list \<times> ucs) option \<Rightarrow> bool" where
  "retry star = (case star of None \<Rightarrow> False | Some (st, sn) \<Rightarrow> glob (Star # st) (tl sn))"

lemma retry_end:
  assumes "tracks ts [] star" "retry star"
  shows "glob ts []"
proof -
  obtain st sn where star: "star = Some (st, sn)" using assms(2) by (cases star) (auto simp: retry_def)
  then obtain u v where uv: "st = u @ ts" "sn = v" "length u = length v" "Star \<notin> set u"
    using assms(1) by (auto simp: tracks_def)
  from assms(2) star obtain a b where ab: "tl sn = a @ b" "glob (u @ ts) b"
    using uv(1) by (auto simp: retry_def glob_star)
  have b: "length u \<le> length b" "glob ts (drop (length u) b)" using glob_prefix [OF uv(4) ab(2)] by auto
  have "length b \<le> length (tl v)" using ab(1) uv(2) by simp
  then have "v = []" using b(1) uv(3) by (cases v) auto
  then show ?thesis using b ab(1) uv(2) by simp
qed

lemma retry_star:
  assumes "tracks (Star # ts) ns star" "retry star"
  shows "glob (Star # ts) ns"
proof -
  obtain st sn where star: "star = Some (st, sn)" using assms(2) by (cases star) (auto simp: retry_def)
  then obtain u v where uv: "st = u @ Star # ts" "sn = v @ ns" "length u = length v" "Star \<notin> set u"
    using assms(1) by (auto simp: tracks_def)
  from assms(2) star obtain a b where ab: "tl sn = a @ b" "glob (u @ Star # ts) b"
    using uv(1) by (auto simp: retry_def glob_star)
  let ?z = "drop (length u) b"
  have z: "length u \<le> length b" "glob (Star # ts) ?z" using glob_prefix [OF uv(4) ab(2)] by auto
  have "tl sn = (a @ take (length u) b) @ ?z" using ab(1) by simp
  moreover have "length (a @ take (length u) b) \<ge> length u" using z(1) by simp
  ultimately obtain w where w: "tl sn = w @ ?z" "length v \<le> length w" using uv(3) by metis
  have "\<exists>x. sn = x @ ?z \<and> length v \<le> length x"
  proof (cases sn)
    case Nil
    then show ?thesis using w by auto
  next
    case (Cons y ys)
    then show ?thesis using w by (intro exI [of _ "y # w"]) simp
  qed
  then obtain x where x: "v @ ns = x @ ?z" "length v \<le> length x" using uv(2) by auto
  then have "ns = drop (length v) x @ ?z" by (metis append_eq_append_conv_if append_eq_conv_conj)
  then show ?thesis using glob_star_append [OF z(2)] by simp
qed

lemma match_loop_glob: "tracks ts ns star \<Longrightarrow> match_loop ts ns star = (glob ts ns \<or> retry star)"
proof (induction ts ns star rule: match_loop.induct)
  case (1 ts star)
  then show ?case using retry_end [of ts star] by (auto simp: glob_nil)
next
  case (2 ts c cs star)
  consider (at_star) ts' where "ts = Star # ts'" | (hit) t ts' where "ts = t # ts'" "t \<noteq> Star" "tok_matches t c"
    | (miss) "\<not> (ts \<noteq> [] \<and> hd ts = Star)" "\<not> (ts \<noteq> [] \<and> tok_matches (hd ts) c)"
    by (cases ts) auto
  then show ?case
  proof cases
    case at_star
    have "tracks ts' (c # cs) (Some (ts', c # cs))" by (simp add: tracks_def)
    then have "match_loop ts (c # cs) star = (glob ts' (c # cs) \<or> retry (Some (ts', c # cs)))"
      using "2.IH"(1) at_star by (simp add: match_loop_star)
    also have "\<dots> = glob (Star # ts') (c # cs)" by (simp add: retry_def glob.simps(2))
    also have "\<dots> = (glob ts (c # cs) \<or> retry star)" using retry_star [of ts' "c # cs" star] "2.prems" at_star by auto
    finally show ?thesis .
  next
    case hit
    have "tracks ts' cs star"
    proof (cases star)
      case (Some p)
      obtain st sn where p: "p = (st, sn)" by (cases p)
      then obtain u v where "st = u @ ts" "sn = v @ c # cs" "length u = length v" "Star \<notin> set u"
        using "2.prems" Some by (auto simp: tracks_def)
      then have "st = (u @ [t]) @ ts' \<and> sn = (v @ [c]) @ cs \<and> length (u @ [t]) = length (v @ [c]) \<and> Star \<notin> set (u @ [t])"
        using hit by simp
      then show ?thesis unfolding tracks_def Some p by auto
    qed (simp add: tracks_def)
    then have "match_loop ts (c # cs) star = (glob ts' cs \<or> retry star)" using "2.IH"(2) hit by (simp add: match_loop_hit)
    then show ?thesis using hit by (simp add: glob_tok)
  next
    case miss
    have no: "\<not> glob ts (c # cs)" using miss by (cases ts) (auto simp: glob_tok)
    show ?thesis
    proof (cases star)
      case None
      then show ?thesis using no by (simp add: retry_def match_loop_miss [OF miss])
    next
      case (Some p)
      obtain st sn where p: "p = (st, sn)" by (cases p)
      have "tracks st (tl sn) (Some (st, tl sn))" by (simp add: tracks_def)
      then have "match_loop ts (c # cs) star = (glob st (tl sn) \<or> retry (Some (st, tl sn)))"
        using "2.IH"(3) [OF miss Some p [symmetric]] Some p by (simp add: match_loop_miss [OF miss])
      also have "\<dots> = glob (Star # st) (tl sn)"
        by (cases "tl sn") (auto simp: retry_def glob.simps(2))
      finally show ?thesis using no Some p by (simp add: retry_def)
    qed
  qed
qed

section \<open>The reference reading of a pattern\<close>

function ref_tokens :: "ucs \<Rightarrow> Tok list" where
  "ref_tokens [] = []"
| "ref_tokens (c # cs) =
     (if c = 42 then Star # ref_tokens cs
      else if c = 63 then AnyChar # ref_tokens cs
      else if c = 91 then
        (case parse_class cs of Some (tok, next) \<Rightarrow> tok # ref_tokens next | None \<Rightarrow> Lit 91 # ref_tokens cs)
      else Lit c # ref_tokens cs)"
  by pat_completeness auto
termination
  by (relation "measure length") (auto dest: parse_class_shorter)

lemma glob_append: "glob (ts @ us) s \<longleftrightarrow> (\<exists>a b. s = a @ b \<and> glob ts a \<and> glob us b)"
proof (induction ts arbitrary: s)
  case Nil
  then show ?case by auto
next
  case (Cons t ts)
  show ?case
  proof (cases "t = Star")
    case True
    then show ?thesis by (simp add: glob_star Cons) (metis append.assoc)
  next
    case False
    have "(\<exists>a b. s = a @ b \<and> glob (t # ts) a \<and> glob us b) \<longleftrightarrow>
        (\<exists>c cs. s = c # cs \<and> tok_matches t c \<and> (\<exists>a b. cs = a @ b \<and> glob ts a \<and> glob us b))" (is "?x \<longleftrightarrow> ?y")
    proof
      assume ?x
      then obtain a b where "s = a @ b" "glob (t # ts) a" "glob us b" by blast
      then show ?y using False by (cases a) (auto simp: glob_tok)
    next
      assume ?y
      then obtain c a b where "s = (c # a) @ b" "tok_matches t c" "glob ts a" "glob us b" by auto
      then show ?x using False by (intro exI [of _ "c # a"] exI [of _ b]) (simp add: glob_tok)
    qed
    then show ?thesis using False by (cases s) (simp_all add: glob_tok Cons)
  qed
qed

lemma tokenize_from_glob: "glob (tokenize_from cs toks) s = glob (toks @ ref_tokens cs) s"
proof (induction cs toks arbitrary: s rule: tokenize_from.induct)
  case (1 toks)
  then show ?case by simp
next
  case (2 c cs toks)
  show ?case
  proof (cases "c = 42")
    case True
    show ?thesis
    proof (cases "toks \<noteq> [] \<and> last toks = Star")
      case dup: True
      then obtain us where us: "toks = us @ [Star]" by (metis append_butlast_last_id)
      have "glob (tokenize_from (c # cs) toks) s = glob (us @ Star # ref_tokens cs) s"
        using "2.IH"(1) True dup us by simp
      also have "\<dots> = glob (us @ Star # Star # ref_tokens cs) s"
        by (simp add: glob_append [of us] glob_star_star)
      finally show ?thesis using True us by simp
    next
      case nodup: False
      then show ?thesis using "2.IH"(1) True by auto
    qed
  next
    case False
    then show ?thesis using "2.IH"(2-5) by (auto split: option.split)
  qed
qed

lemma ref_tokens_literal: "\<forall>c \<in> set p. c \<notin> {42, 63, 91} \<Longrightarrow> ref_tokens p = map Lit p"
  by (induction p) auto

lemma glob_literal: "glob (map Lit p) s \<longleftrightarrow> s = p"
  by (induction p arbitrary: s) (auto simp: glob_tok split: list.split)

lemma fnmatch_ref: "fnmatch name pattern = glob (ref_tokens pattern) name"
  by (simp add: fnmatch_def fnmatchcase_def match_loop_glob tracks_def retry_def tokenize_def tokenize_from_glob)

section \<open>Properties of the matcher\<close>

text \<open>
  C39. Matching with a single backtracking point decides exactly the declarative relation: a star
  stands for any run of characters (separators included), a question mark for one, a bracketed
  class for one of (or none of) its ranges and anything else for itself.
\<close>

theorem fnmatch_correct: "fnmatch name pattern \<longleftrightarrow> glob (ref_tokens pattern) name"
  by (rule fnmatch_ref)

text \<open>
  A pattern without wildcards matches exactly itself, and with a star in front exactly the
  names that end with it.
\<close>

lemma fnmatch_literal:
  assumes "\<forall>c \<in> set pattern. c \<notin> {42, 63, 91}"
  shows "(fnmatch name pattern \<longleftrightarrow> name = pattern) \<and> (fnmatch name (42 # pattern) \<longleftrightarrow> (\<exists>a. name = a @ pattern))"
  by (simp add: fnmatch_ref ref_tokens_literal [OF assms] glob_literal glob_star)

end
