(* ===== verification/ScanConfig.thy ===== *)
theory ScanConfig
  imports Fnmatch
begin

text \<open>
  The scan configuration, \<^verbatim>\<open>remy-cc/scanner-core/src/config.rs\<close>: parsing, exclusion of walked
  entries and of stored paths, and the layer of a file.  Lower-casing follows the Unicode tables of
  the standard library and is an argument of the one function that uses it.
\<close>

record LayerDef =
  ld_name :: ucs
  ld_patterns :: "ucs list"

record ScanConfig =
  exclusions :: "ucs list"
  layers :: "LayerDef list"

definition DEFAULT_EXCLUSIONS :: "ucs list" where
  "DEFAULT_EXCLUSIONS = map lit [''.git/'', ''__pycache__/'', ''venv/'', ''node_modules/'', ''.claude/'', ''dist/'', ''build/'']"

section \<open>Parsing\<close>

definition parse_layer :: "ucs \<Rightarrow> LayerDef option" where
  "parse_layer rest =
     (case split_once 61 rest of None \<Rightarrow> None
      | Some (name, patterns_str) \<Rightarrow>
          let patterns = filter (\<lambda>p. p \<noteq> []) (map ucs_trim (split_on 44 patterns_str)); name = ucs_trim name
          in if name \<noteq> [] \<and> patterns \<noteq> [] then Some \<lparr>ld_name = name, ld_patterns = patterns\<rparr> else None)"

definition parse_line :: "ScanConfig \<Rightarrow> ucs \<Rightarrow> ScanConfig" where
  "parse_line cfg raw =
     (let line = ucs_trim raw in
      if line = [] \<or> starts_with [35] line then cfg
      else (case strip_prefix [33] line of
          Some pattern \<Rightarrow> cfg\<lparr>exclusions := exclusions cfg @ [pattern]\<rparr>
        | None \<Rightarrow>
            (case strip_prefix (lit ''@layer:'') line of
               Some rest \<Rightarrow> (case parse_layer rest of
                   Some l \<Rightarrow> cfg\<lparr>layers := layers cfg @ [l]\<rparr>
                 | None \<Rightarrow> cfg)
             | None \<Rightarrow> cfg)))"

definition config_parse :: "ucs \<Rightarrow> ScanConfig" where
  "config_parse content = foldl parse_line \<lparr>exclusions = [], layers = []\<rparr> (ucs_lines content)"

text \<open>The content of the configuration file, when it can be read as text.\<close>

definition config_load :: "ucs option \<Rightarrow> ScanConfig" where
  "config_load file = (case file of Some content \<Rightarrow> config_parse content
     | None \<Rightarrow> \<lparr>exclusions = DEFAULT_EXCLUSIONS, layers = []\<rparr>)"

section \<open>Exclusion\<close>

definition matches_exclusion :: "ucs \<Rightarrow> ucs \<Rightarrow> bool" where
  "matches_exclusion candidate pattern \<longleftrightarrow>
     fnmatch candidate pattern \<or>
     (case strip_prefix (lit ''**/'') pattern of Some stripped \<Rightarrow> fnmatch candidate stripped | None \<Rightarrow> False)"

definition is_excluded :: "ScanConfig \<Rightarrow> ucs \<Rightarrow> bool \<Rightarrow> bool" where
  "is_excluded cfg rel_path is_dir \<longleftrightarrow>
     rel_path \<noteq> [46] \<and>
     list_ex (\<lambda>pattern.
       let must_be_dir = ends_with [47] pattern; clean_pattern = trim_end_matches 47 pattern;
           basename = last (split_on 47 rel_path)
       in \<not> (must_be_dir \<and> \<not> is_dir) \<and>
          (matches_exclusion basename clean_pattern \<or> matches_exclusion rel_path clean_pattern)) (exclusions cfg)"

definition is_path_excluded :: "ScanConfig \<Rightarrow> ucs \<Rightarrow> bool" where
  "is_path_excluded cfg path =
     (let rel_path = replace_char 92 [47] path; parts = split_on 47 rel_path; basename = last parts
      in list_ex (\<lambda>pattern.
        let must_be_dir = ends_with [47] pattern; clean_pattern = trim_end_matches 47 pattern
        in if must_be_dir
           then list_ex (\<lambda>i. matches_exclusion (parts ! i) clean_pattern \<or>
                  matches_exclusion (join_with [47] (take (i + 1) parts)) clean_pattern) [0..<length parts - 1]
           else matches_exclusion basename clean_pattern \<or> matches_exclusion rel_path clean_pattern)
        (exclusions cfg))"

section \<open>Layers\<close>

fun first_layer :: "ucs list \<Rightarrow> LayerDef list \<Rightarrow> ucs option" where
  "first_layer segments [] = None"
| "first_layer segments (l # ls) =
     (if list_ex (\<lambda>segment. list_ex (\<lambda>pattern. segment = pattern \<or> segment = pattern @ [115]) (ld_patterns l)) segments
      then Some (ld_name l) else first_layer segments ls)"

definition match_file_to_layer :: "(ucs \<Rightarrow> ucs) \<Rightarrow> ScanConfig \<Rightarrow> ucs \<Rightarrow> ucs" where
  "match_file_to_layer to_lowercase cfg rel_path =
     (let lowered = to_lowercase (replace_char 92 [47] rel_path)
      in (case first_layer (split_on 47 lowered) (layers cfg) of Some name \<Rightarrow> name | None \<Rightarrow> lit ''Core''))"

section \<open>Rendering a configuration\<close>

definition render_layer :: "LayerDef \<Rightarrow> ucs" where
  "render_layer l = lit ''@layer:'' @ ld_name l @ [61] @ join_with [44] (ld_patterns l)"

definition render_config :: "ScanConfig \<Rightarrow> ucs" where
  "render_config cfg = concat (map (\<lambda>p. 33 # p @ [10]) (exclusions cfg) @ map (\<lambda>l. render_layer l @ [10]) (layers cfg))"

definition plain :: "ucs \<Rightarrow> bool" where
  "plain s \<longleftrightarrow> list_all (\<lambda>c. \<not> is_white c) s"

definition plain_config :: "ScanConfig \<Rightarrow> bool" where
  "plain_config cfg \<longleftrightarrow> list_all plain (exclusions cfg) \<and>
     list_all (\<lambda>l. plain (ld_name l) \<and> ld_name l \<noteq> [] \<and> 61 \<notin> set (ld_name l) \<and> ld_patterns l \<noteq> [] \<and>
       list_all (\<lambda>p. plain p \<and> p \<noteq> [] \<and> 44 \<notin> set p) (ld_patterns l)) (layers cfg)"

lemma plain_trim: "plain s \<Longrightarrow> ucs_trim s = s"
  by (rule ucs_trim_id) (simp add: plain_def list_all_iff)

lemma plain_no_eol: "plain s \<Longrightarrow> 10 \<notin> set s \<and> 13 \<notin> set s"
proof -
  have "is_white 10" "is_white 13" by (simp_all add: is_white_def)
  moreover assume "plain s"
  ultimately show ?thesis unfolding plain_def list_all_iff by blast
qed

lemma plain_append [simp]: "plain (a @ b) \<longleftrightarrow> plain a \<and> plain b" "plain (c # s) \<longleftrightarrow> \<not> is_white c \<and> plain s" "plain []"
  by (simp_all add: plain_def)

lemma plain_join: "plain sep \<Longrightarrow> list_all plain ps \<Longrightarrow> plain (join_with sep ps)"
  by (induction sep ps rule: join_with.induct) auto

lemma not_white [simp]: "\<not> is_white 33" "\<not> is_white 61" "\<not> is_white 44" "plain (lit ''@layer:'')"
  by (simp_all add: is_white_def plain_def lit_def of_char_def)

lemma parse_exclusion_line:
  assumes "plain p"
  shows "parse_line cfg (33 # p) = cfg\<lparr>exclusions := exclusions cfg @ [p]\<rparr>"
  using assms plain_trim [of "33 # p"] by (simp add: parse_line_def starts_with_def strip_prefix_def)

lemma parse_layer_line:
  assumes "plain (ld_name l)" "ld_name l \<noteq> []" "61 \<notin> set (ld_name l)" "ld_patterns l \<noteq> []"
    and ps: "list_all (\<lambda>p. plain p \<and> p \<noteq> [] \<and> 44 \<notin> set p) (ld_patterns l)"
  shows "parse_line cfg (render_layer l) = cfg\<lparr>layers := layers cfg @ [l]\<rparr>"
proof -
  have pl: "plain (join_with [44] (ld_patterns l))"
    using ps by (intro plain_join) (auto simp: list_all_iff)
  then have plain: "plain (render_layer l)" using assms(1) by (simp add: render_layer_def)
  have head: "\<exists>t. render_layer l = 64 # t" by (simp add: render_layer_def lit_def of_char_def)
  have "split_on 44 (join_with [44] (ld_patterns l)) = ld_patterns l"
    using ps assms(4) by (intro split_on_join) (auto simp: list_all_iff)
  moreover have "map ucs_trim (ld_patterns l) = ld_patterns l"
    using ps by (intro map_idI) (auto simp: list_all_iff plain_trim)
  moreover have "filter (\<lambda>p. p \<noteq> []) (ld_patterns l) = ld_patterns l"
    using ps by (auto simp: filter_id_conv list_all_iff)
  ultimately have layer: "parse_layer (ld_name l @ 61 # join_with [44] (ld_patterns l)) = Some l"
    using assms by (simp add: parse_layer_def split_once_first plain_trim)
  have "strip_prefix (lit ''@layer:'') (render_layer l) = Some (ld_name l @ 61 # join_with [44] (ld_patterns l))"
    by (simp add: strip_prefix_Some render_layer_def)
  then show ?thesis
    using head layer plain_trim [OF plain]
    by (auto simp: parse_line_def Let_def starts_with_def strip_prefix_def [of "[33]"])
qed

lemma parse_lines:
  "foldl parse_line cfg (ucs_lines (concat (map (\<lambda>p. 33 # p @ [10]) es) @ rest)) =
    foldl parse_line (cfg\<lparr>exclusions := exclusions cfg @ es\<rparr>) (ucs_lines rest)" if "list_all plain es"
  using that
proof (induction es arbitrary: cfg)
  case (Cons p ps)
  have "ucs_lines (concat (map (\<lambda>p. 33 # p @ [10]) (p # ps)) @ rest) =
      (33 # p) # ucs_lines (concat (map (\<lambda>p. 33 # p @ [10]) ps) @ rest)"
    using ucs_lines_line [of "33 # p"] plain_no_eol [of p] Cons.prems by simp
  then show ?case using Cons parse_exclusion_line [of p] by simp
qed simp

lemma parse_layer_lines:
  assumes "list_all (\<lambda>l. plain (ld_name l) \<and> ld_name l \<noteq> [] \<and> 61 \<notin> set (ld_name l) \<and> ld_patterns l \<noteq> [] \<and>
       list_all (\<lambda>p. plain p \<and> p \<noteq> [] \<and> 44 \<notin> set p) (ld_patterns l)) ls"
  shows "foldl parse_line cfg (ucs_lines (concat (map (\<lambda>l. render_layer l @ [10]) ls))) =
    cfg\<lparr>layers := layers cfg @ ls\<rparr>"
  using assms
proof (induction ls arbitrary: cfg)
  case Nil
  then show ?case by (simp add: ucs_lines_def)
next
  case (Cons l ls)
  have "plain (join_with [44] (ld_patterns l))"
    using Cons.prems by (intro plain_join) (auto simp: list_all_iff)
  then have "plain (render_layer l)" using Cons.prems by (simp add: render_layer_def)
  then have "ucs_lines (concat (map (\<lambda>l. render_layer l @ [10]) (l # ls))) =
      render_layer l # ucs_lines (concat (map (\<lambda>l. render_layer l @ [10]) ls))"
    using ucs_lines_line [of "render_layer l"] plain_no_eol [of "render_layer l"] by simp
  then show ?case using Cons parse_layer_line [of l cfg] by simp
qed

section \<open>Properties of the configuration\<close>

text \<open>
  A configuration without white space in its parts survives a round trip through its text:
  parsing what is rendered gives the same exclusions and layers in the same order.
\<close>

theorem config_roundtrip:
  assumes "plain_config cfg"
  shows "config_parse (render_config cfg) = cfg"
  using assms parse_lines [of "exclusions cfg" "\<lparr>exclusions = [], layers = []\<rparr>" "concat (map (\<lambda>l. render_layer l @ [10]) (layers cfg))"]
    parse_layer_lines [of "layers cfg" "\<lparr>exclusions = exclusions cfg, layers = []\<rparr>"]
  by (simp add: config_parse_def render_config_def plain_config_def)

theorem config_roundtrip_witness:
  "config_parse (render_config \<lparr>exclusions = [lit ''*.py''], layers = [\<lparr>ld_name = lit ''Api'', ld_patterns = [lit ''api'', lit ''web'']\<rparr>]\<rparr>) =
    \<lparr>exclusions = [lit ''*.py''], layers = [\<lparr>ld_name = lit ''Api'', ld_patterns = [lit ''api'', lit ''web'']\<rparr>]\<rparr>"
  by (rule config_roundtrip) (simp add: plain_config_def plain_def is_white_def lit_def of_char_def)

lemma list_ex_upt: "list_ex P [0..<n] \<longleftrightarrow> (\<exists>i < n. P i)"
  by (auto simp: list_ex_iff)

text \<open>The patterns that only apply to directories.\<close>

definition dir_patterns :: "ScanConfig \<Rightarrow> ScanConfig" where
  "dir_patterns cfg = cfg\<lparr>exclusions := filter (ends_with [47]) (exclusions cfg)\<rparr>"

definition ancestor :: "ucs list \<Rightarrow> nat \<Rightarrow> ucs" where
  "ancestor parts i = join_with [47] (take (i + 1) parts)"

lemma last_split_ancestor:
  assumes "i < length parts" "\<forall>p \<in> set parts. 47 \<notin> set p"
  shows "last (split_on 47 (ancestor parts i)) = parts ! i"
proof -
  have "split_on 47 (ancestor parts i) = take (i + 1) parts"
    unfolding ancestor_def using assms by (intro split_on_join) (auto dest: in_set_takeD)
  moreover have "last (take (i + 1) parts) = parts ! i"
    using assms(1) by (simp add: take_Suc_conv_app_nth)
  ultimately show ?thesis by simp
qed

lemma ancestor_not_dot:
  assumes "i < length parts" "hd parts \<noteq> [46]" "\<forall>p \<in> set parts. 47 \<notin> set p"
  shows "ancestor parts i \<noteq> [46]"
proof
  assume "ancestor parts i = [46]"
  moreover have "split_on 47 (ancestor parts i) = take (i + 1) parts"
    unfolding ancestor_def using assms by (intro split_on_join) (auto dest: in_set_takeD)
  ultimately have "take (i + 1) parts = [[46]]" by simp
  then show False using assms(2) by (cases parts) (auto split: nat.splits)
qed

text \<open>
  C40. A stored path is excluded exactly when the walk would exclude the file itself or a
  directory pattern of the configuration excludes one of the directories above it.
\<close>

theorem path_excluded_iff_walk:
  assumes "92 \<notin> set path" "hd (split_on 47 path) \<noteq> [46]"
  shows "is_path_excluded cfg path \<longleftrightarrow>
    is_excluded cfg path False \<or>
    (\<exists>i < length (split_on 47 path) - 1. is_excluded (dir_patterns cfg) (ancestor (split_on 47 path) i) True)"
proof -
  let ?parts = "split_on 47 path"
  have sep: "\<forall>p \<in> set ?parts. 47 \<notin> set p" by (intro ballI) (rule split_on_no_sep)
  have path: "path \<noteq> [46]"
  proof
    assume "path = [46]"
    then show False using assms(2) by simp
  qed
  have anc: "ancestor ?parts i \<noteq> [46]" "last (split_on 47 (ancestor ?parts i)) = ?parts ! i"
    if "i < length ?parts - 1" for i
    using that ancestor_not_dot [OF _ assms(2) sep] last_split_ancestor [OF _ sep] by auto
  have stored: "is_path_excluded cfg path \<longleftrightarrow> (\<exists>pattern \<in> set (exclusions cfg).
      if ends_with [47] pattern
      then \<exists>i < length ?parts - 1. matches_exclusion (?parts ! i) (trim_end_matches 47 pattern) \<or>
        matches_exclusion (ancestor ?parts i) (trim_end_matches 47 pattern)
      else matches_exclusion (last ?parts) (trim_end_matches 47 pattern) \<or> matches_exclusion path (trim_end_matches 47 pattern))"
    unfolding is_path_excluded_def replace_char_absent [OF assms(1)] Let_def list_ex_upt
    by (simp add: list_ex_iff ancestor_def)
  have dirs: "is_excluded (dir_patterns cfg) (ancestor ?parts i) True \<longleftrightarrow>
      (\<exists>pattern \<in> set (exclusions cfg). ends_with [47] pattern \<and>
        (matches_exclusion (?parts ! i) (trim_end_matches 47 pattern) \<or>
         matches_exclusion (ancestor ?parts i) (trim_end_matches 47 pattern)))" if "i < length ?parts - 1" for i
    using anc [OF that] by (auto simp: is_excluded_def dir_patterns_def Let_def list_ex_iff)
  have file_itself: "is_excluded cfg path False \<longleftrightarrow> (\<exists>pattern \<in> set (exclusions cfg). \<not> ends_with [47] pattern \<and>
      (matches_exclusion (last ?parts) (trim_end_matches 47 pattern) \<or> matches_exclusion path (trim_end_matches 47 pattern)))"
    using path by (auto simp: is_excluded_def Let_def list_ex_iff)
  have dirs': "(\<exists>i < length ?parts - 1. is_excluded (dir_patterns cfg) (ancestor ?parts i) True) \<longleftrightarrow>
      (\<exists>i < length ?parts - 1. \<exists>pattern \<in> set (exclusions cfg). ends_with [47] pattern \<and>
        (matches_exclusion (?parts ! i) (trim_end_matches 47 pattern) \<or>
         matches_exclusion (ancestor ?parts i) (trim_end_matches 47 pattern)))"
    using dirs by blast
  have split: "(\<exists>p \<in> E. if D p then (\<exists>i < n. M i p) else N p) \<longleftrightarrow>
      (\<exists>p \<in> E. \<not> D p \<and> N p) \<or> (\<exists>i < n. \<exists>p \<in> E. D p \<and> M i p)" for E D M N and n :: nat
    by (auto split: if_splits)
  show ?thesis unfolding stored file_itself dirs' split ..
qed

theorem path_excluded_iff_walk_witness:
  "is_path_excluded \<lparr>exclusions = DEFAULT_EXCLUSIONS, layers = []\<rparr> (lit ''a/build/x.py'')"
proof -
  have "92 \<notin> set (lit ''a/build/x.py'')" "hd (split_on 47 (lit ''a/build/x.py'')) \<noteq> [46]" by code_simp+
  from path_excluded_iff_walk [OF this, of "\<lparr>exclusions = DEFAULT_EXCLUSIONS, layers = []\<rparr>"]
  show ?thesis
  proof -
    have "is_excluded (dir_patterns \<lparr>exclusions = DEFAULT_EXCLUSIONS, layers = []\<rparr>) (ancestor (split_on 47 (lit ''a/build/x.py'')) 1) True"
      "1 < length (split_on 47 (lit ''a/build/x.py'')) - 1" by code_simp+
    then show ?thesis
      using path_excluded_iff_walk [of "lit ''a/build/x.py''" "\<lparr>exclusions = DEFAULT_EXCLUSIONS, layers = []\<rparr>"]
        \<open>92 \<notin> set (lit ''a/build/x.py'')\<close> \<open>hd (split_on 47 (lit ''a/build/x.py'')) \<noteq> [46]\<close> by blast
  qed
qed

end
