(* ===== verification/ScanFiles.thy ===== *)
theory ScanFiles
  imports Writer Incremental Selection ScanConfig
begin

text \<open>
  The scans of \<^verbatim>\<open>remy-cc/scanner-core/src/scan.rs\<close> up to the global stages: the facts of one file, the
  paths whose parser identity is out of date, the sweep, the targets and the write loop of an
  incremental scan with the change set it gathers, and the write loop and sweep of a full one.  Reading a
  source, parsing it and the existence of a path are parameters, and so is the order in which the pool
  of workers delivers the outcomes.
\<close>

record ParsedFile =
  pa_identity :: CacheIdentity
  pa_imports :: "ucs list"
  pa_import_bindings_json :: ucs
  pa_symbols :: "SymbolInfo list"
  pa_edges :: "EdgeInfo list"
  pa_patterns :: "PatternFact list"

record scan_env =
  sc_index :: index_env
  sc_strip_rust :: "ucs \<Rightarrow> ucs"
  sc_lower :: "ucs \<Rightarrow> ucs"
  sc_read :: "ucs \<Rightarrow> ucs option"
  sc_parse :: "Language \<Rightarrow> ucs \<Rightarrow> ucs \<Rightarrow> ParsedFile"
  sc_exists :: "ucs \<Rightarrow> bool"
  sc_schedule :: "FileOutcome list \<Rightarrow> FileOutcome list"

section \<open>The facts of a file\<close>

text \<open>Edges are kept once per caller and callee, with the smallest line; the form "name" wins.\<close>

definition add_edge :: "EdgeRow list \<Rightarrow> EdgeInfo \<Rightarrow> EdgeRow list" where
  "add_edge edges edge =
     (if list_ex (\<lambda>x. er_caller x = ei_caller edge \<and> er_callee x = ei_callee edge) edges
      then update_where (\<lambda>x. er_caller x = ei_caller edge \<and> er_callee x = ei_callee edge)
        (\<lambda>x. x\<lparr>er_line := (if ei_line edge < er_line x then ei_line edge else er_line x),
               er_call_form := (if ei_call_form edge = lit ''name'' then lit ''name'' else er_call_form x)\<rparr>) edges
      else edges @ [\<lparr>er_caller = ei_caller edge, er_callee = ei_callee edge, er_line = ei_line edge, er_call_form = ei_call_form edge\<rparr>])"

definition dedup_edges :: "EdgeInfo list \<Rightarrow> EdgeRow list" where
  "dedup_edges edges = foldl add_edge [] edges"

definition occurrence_of :: "scan_env \<Rightarrow> Language \<Rightarrow> SelectedOccurrence \<Rightarrow> OccurrenceRow" where
  "occurrence_of e language x =
     \<lparr>or_symbol = so_symbol x, or_occurrence_index = int (so_occurrence_index x), or_is_canonical = so_is_canonical x,
      or_conflict_kind = so_conflict_kind x, or_selection_reason = so_selection_reason x,
      or_hash = symbol_hash (ie_md5 (sc_index e)) (symbol_hash_input (sc_strip_rust e) language (hash_segment (so_symbol x)))\<rparr>"

definition parse_one :: "scan_env \<Rightarrow> ScanConfig \<Rightarrow> ucs \<times> ucs \<Rightarrow> FileOutcome" where
  "parse_one e cfg = (\<lambda>(rel_path, full_path).
     case sc_read e full_path of None \<Rightarrow> FailedFile rel_path (lit ''Unable to read source file: '' @ rel_path)
     | Some text \<Rightarrow>
         let source = translate_newlines text
         in case language_resolve (rsplit_last 47 full_path) of
              None \<Rightarrow> FailedFile rel_path (lit ''No parser handles source file: '' @ rel_path)
            | Some language \<Rightarrow>
                let parsed = sc_parse e language source full_path; selection = select_symbols (pa_symbols parsed)
                in Facts \<lparr>ff_rel_path = rel_path, ff_struct_hash = struct_hash (ie_md5 (sc_index e)) source,
                     ff_language_id = language_id language, ff_layer = match_file_to_layer (sc_lower e) cfg rel_path,
                     ff_imports_json = dumps_default (JArray (map JString (pa_imports parsed))),
                     ff_import_bindings_json = pa_import_bindings_json parsed, ff_identity = pa_identity parsed,
                     ff_canonical_symbols = canonical_symbols selection,
                     ff_occurrences = map (occurrence_of e language) (occurrences selection),
                     ff_edges = dedup_edges (pa_edges parsed), ff_patterns = pa_patterns parsed\<rparr>)"

section \<open>The incremental scan\<close>

definition file_identity :: "file_row \<Rightarrow> CacheIdentity" where
  "file_identity f = \<lparr>ci_contract_version = f_contract_version f, ci_backend = f_backend f, ci_environment = f_environment f\<rparr>"

definition identity_invalid_paths :: "ScanConfig \<Rightarrow> index_db \<Rightarrow> ucs list" where
  "identity_invalid_paths cfg db =
     map f_path (filter (\<lambda>f. \<not> is_path_excluded cfg (f_path f) \<and>
        (case language_resolve (rsplit_last 47 (f_path f)) of None \<Rightarrow> False
         | Some language \<Rightarrow> file_identity f \<notin> set (identity_candidates language (rsplit_last 47 (f_path f)))))
       (sort_key f_path (i_files db)))"

record scan_state =
  ss_delta :: ScanDelta
  ss_discovered :: "ucs list"
  ss_successful :: "ucs list"
  ss_failed :: "ucs list"
  ss_deleted :: "ucs list"
  ss_errors :: "(ucs \<times> ucs) list"

definition empty_delta :: ScanDelta where
  "empty_delta = \<lparr>touched_files = [], delta_names = [], added_py = [], removed_py = []\<rparr>"

definition start_state :: scan_state where
  "start_state = \<lparr>ss_delta = empty_delta, ss_discovered = [], ss_successful = [], ss_failed = [], ss_deleted = [], ss_errors = []\<rparr>"

fun op_fold :: "('a \<Rightarrow> 'b \<Rightarrow> ('s, 'e, 'b) op) \<Rightarrow> 'a list \<Rightarrow> 'b \<Rightarrow> ('s, 'e, 'b) op" where
  "op_fold f [] acc = op_return acc"
| "op_fold f (x # xs) acc = op_bind (f x acc) (op_fold f xs)"

definition record_removed :: "ucs \<Rightarrow> FileDelta \<Rightarrow> ScanDelta \<Rightarrow> ScanDelta" where
  "record_removed rel fd delta =
     delta\<lparr>touched_files := touched_files delta @ [rel], delta_names := delta_names delta @ fl_names fd,
           removed_py := (if is_py rel then removed_py delta @ [rel] else removed_py delta)\<rparr>"

definition record_written :: "ucs \<Rightarrow> FileDelta \<Rightarrow> ScanDelta \<Rightarrow> ScanDelta" where
  "record_written rel fd delta =
     (if fl_changed fd
      then delta\<lparr>touched_files := touched_files delta @ [rel], delta_names := delta_names delta @ fl_names fd,
                 added_py := (if fl_created fd \<and> is_py rel then added_py delta @ [rel] else added_py delta)\<rparr>
      else delta)"

text \<open>The removal of one path, noted in the change set when there was a row.\<close>

definition remove_path :: "ucs \<Rightarrow> scan_state \<Rightarrow> scan_state ixop" where
  "remove_path rel st =
     op_bind (delete_file rel) (\<lambda>found. op_return (case found of None \<Rightarrow> st
       | Some fd \<Rightarrow> st\<lparr>ss_deleted := ss_deleted st @ [rel], ss_delta := record_removed rel fd (ss_delta st)\<rparr>))"

definition write_outcome :: "scan_env \<Rightarrow> bool \<Rightarrow> FileOutcome \<Rightarrow> scan_state \<Rightarrow> scan_state ixop" where
  "write_outcome e small outcome st =
     (case outcome of
        FailedFile rel message \<Rightarrow> op_return (st\<lparr>ss_errors := ss_errors st @ [(message, rel)], ss_failed := ss_failed st @ [rel]\<rparr>)
      | Facts facts \<Rightarrow>
          op_bind (write_file_facts (sc_index e) (sc_strip_rust e) facts small) (\<lambda>fd.
          op_return (st\<lparr>ss_delta := record_written (ff_rel_path facts) fd (ss_delta st), ss_successful := ss_successful st @ [ff_rel_path facts]\<rparr>)))"

text \<open>The paths to visit, in order, each with its place on disk; the last request of a path counts.\<close>

definition scan_targets :: "ScanConfig \<Rightarrow> (ucs \<Rightarrow> ucs) \<Rightarrow> (ucs \<times> ucs) list \<Rightarrow> ucs list \<Rightarrow> (ucs \<times> ucs) list" where
  "scan_targets cfg join_root requested invalid =
     map (\<lambda>rel. (rel, case map_of (rev requested) rel of Some full \<Rightarrow> full | None \<Rightarrow> join_root rel))
       (filter (\<lambda>rel. \<not> (rel \<in> fst ` set requested \<and> is_path_excluded cfg rel)) (btree_set (map fst requested @ invalid)))"

definition scan_files_writes ::
    "scan_env \<Rightarrow> ScanConfig \<Rightarrow> (ucs \<Rightarrow> ucs) \<Rightarrow> bool \<Rightarrow> (ucs \<times> ucs) list \<Rightarrow> scan_state ixop" where
  "scan_files_writes e cfg join_root small requested =
     op_bind (op_get (\<lambda>db. filter (is_path_excluded cfg) (sort (map f_path (i_files db))))) (\<lambda>excluded.
     op_bind (op_fold remove_path excluded start_state) (\<lambda>st.
     op_bind (op_get (identity_invalid_paths cfg)) (\<lambda>invalid.
     let targets = scan_targets cfg join_root requested invalid;
         present = filter (\<lambda>(_, full). sc_exists e full) targets;
         handled = (\<lambda>(_, full). language_resolve (rsplit_last 47 full) \<noteq> None);
         to_delete = map fst (filter (\<lambda>(_, full). \<not> sc_exists e full) targets);
         st1 = st\<lparr>ss_successful := filter (is_path_excluded cfg) (map fst requested) @ map fst (filter (\<lambda>t. \<not> handled t) present),
                  ss_discovered := map fst targets\<rparr>
     in op_bind (op_fold (\<lambda>rel st. op_bind (remove_path rel st) (\<lambda>st. op_return (st\<lparr>ss_successful := ss_successful st @ [rel]\<rparr>))) to_delete st1) (\<lambda>st2.
        op_fold (write_outcome e small) (sc_schedule e (map (parse_one e cfg) (filter handled present))) st2))))"

section \<open>The full scan\<close>

definition scan_full_writes :: "scan_env \<Rightarrow> ScanConfig \<Rightarrow> bool \<Rightarrow> (ucs \<times> ucs) list \<Rightarrow> scan_state ixop" where
  "scan_full_writes e cfg small files =
     op_bind (op_fold (write_outcome e small) (sc_schedule e (map (parse_one e cfg) files))
       (start_state\<lparr>ss_discovered := map fst files\<rparr>)) (\<lambda>st.
     op_bind (op_get (\<lambda>db. filter (\<lambda>rel. rel \<notin> fst ` set files) (sort (map f_path (i_files db))))) (\<lambda>gone.
     op_fold remove_path gone st))"

end
