(* ===== verification/WriterFacts.thy ===== *)
theory WriterFacts
  imports Writer
begin

text \<open>
  The writes of a file never violate a constraint, keep the index well formed and keep every document a
  mirror of the facts and the summary of its node.
\<close>

section \<open>What an operation leaves alone\<close>

definition same_tables :: "index_db \<Rightarrow> index_db \<Rightarrow> bool" where
  "same_tables db db' \<longleftrightarrow> i_files db' = i_files db \<and> i_occurrences db' = i_occurrences db \<and> i_edges db' = i_edges db \<and>
     i_candidates db' = i_candidates db \<and> i_patterns db' = i_patterns db \<and> i_clusters db' = i_clusters db \<and>
     seq_edges (i_seq db') = seq_edges (i_seq db)"

definition nodes_kept :: "(ucs \<times> ucs) set \<Rightarrow> index_db \<Rightarrow> index_db \<Rightarrow> bool" where
  "nodes_kept S db db' \<longleftrightarrow> (\<forall>k n. (k, n) \<notin> S \<longrightarrow>
     node_documents k n db' = node_documents k n db \<and> node_rows k n db' = node_rows k n db)"

lemma same_tables_trans: "same_tables a b \<Longrightarrow> same_tables b c \<Longrightarrow> same_tables a c"
  by (simp add: same_tables_def)

lemma same_tables_refl [simp]: "same_tables a a" by (simp add: same_tables_def)

lemma nodes_kept_trans: "nodes_kept S a b \<Longrightarrow> nodes_kept T b c \<Longrightarrow> nodes_kept (S \<union> T) a c"
  by (simp add: nodes_kept_def)

lemma nodes_kept_refl [simp]: "nodes_kept S a a" by (simp add: nodes_kept_def)

lemma nodes_kept_mono: "nodes_kept S a b \<Longrightarrow> S \<subseteq> T \<Longrightarrow> nodes_kept T a b" by (auto simp: nodes_kept_def)

lemma refresh_kept: "nodes_kept {(k, n)} db (refresh_node e k n db)" "same_tables db (refresh_node e k n db)"
  by (auto simp: nodes_kept_def same_tables_def node_documents_refresh_other node_rows_def)

lemma delete_kept: "nodes_kept {(k, n)} db (delete_node k n db)" "same_tables db (delete_node k n db)"
  by (auto simp: nodes_kept_def same_tables_def node_documents_delete node_rows_def)

lemma stale_kept:
  assumes "summaries_ok db" "unique_documents db"
  shows "nodes_kept {(k, n)} db (snd (mark_current_summary_stale e k n db))" "same_tables db (snd (mark_current_summary_stale e k n db))"
    "summaries_ok (snd (mark_current_summary_stale e k n db))"
proof -
  have keep: "node_rows k' n' (with_stale i db) = node_rows k' n' db" if other: "(k', n') \<noteq> (k, n)" and cs: "cs_id (select_current_summary e k n db) = Some i" for k' n' i
  proof -
    obtain r where r: "sv_id r = i" "r \<in> set (i_summaries db)" "sv_node_kind r = k" "sv_node_ref r = n" using cs by (rule cs_id_Some)
    have "stale_row i q = q" if "q \<in> set (node_rows k' n' db)" for q
    proof -
      have q: "q \<in> set (i_summaries db)" "sv_node_kind q = k'" "sv_node_ref q = n'" using that by (auto simp: node_rows_def)
      then have "q \<noteq> r" using r other by auto
      then have "sv_id q \<noteq> i" using q(1) r assms(1) by (auto simp: summaries_ok_def distinct_map inj_on_def)
      then show ?thesis by (simp add: stale_row_def)
    qed
    moreover have "node_rows k' n' (with_stale i db) = map (stale_row i) (node_rows k' n' db)"
      by (simp add: node_rows_def with_stale_def filter_map comp_def)
    ultimately show ?thesis by (simp add: map_idI)
  qed
  have rows: "node_rows k' n' (refresh_node e a b x) = node_rows k' n' x" for k' n' a b x by (simp add: node_rows_def)
  show "nodes_kept {(k, n)} db (snd (mark_current_summary_stale e k n db))"
    unfolding nodes_kept_def using mark_stale_documents(3) [OF assms(2)] keep
    by (auto simp: mark_stale_eq rows split: option.splits)
  show "same_tables db (snd (mark_current_summary_stale e k n db))" by (simp add: same_tables_def)
  let ?s = "i_summaries (snd (mark_current_summary_stale e k n db))"
  have eq: "map f ?s = map f (i_summaries db)" if "\<And>r i. f (stale_row i r) = f r" for f :: "summary_row \<Rightarrow> 'z"
    using that by (simp add: mark_stale_eq with_stale_def comp_def split: option.split)
  have ids: "list_all (\<lambda>r. sv_id r < m) rs \<longleftrightarrow> (\<forall>i \<in> set (map sv_id rs). i < m)" for m rs by (auto simp: list_all_iff)
  have "list_all (\<lambda>r. sv_id r < m) ?s = list_all (\<lambda>r. sv_id r < m) (i_summaries db)" for m
    unfolding ids using eq [of sv_id] by simp
  then show "summaries_ok (snd (mark_current_summary_stale e k n db))"
    using assms(1) eq [of sv_id] eq [of "\<lambda>r. (sv_node_kind r, sv_node_ref r, sv_version r)"] by (simp add: summaries_ok_def)
qed

lemma op_bind_modify [op_simps]: "op_bind (op_modify f) k s = k () (f s)"
  by (simp add: op_modify_def op_bind_def)


section \<open>Symbols\<close>

lemma latest_version_max:
  "latest_version db node_ref = None \<longleftrightarrow> node_rows (lit ''symbol'') node_ref db = []"
  "latest_version db node_ref = Some v \<Longrightarrow> r \<in> set (node_rows (lit ''symbol'') node_ref db) \<Longrightarrow> sv_version r \<le> v"
proof -
  show "latest_version db node_ref = None \<longleftrightarrow> node_rows (lit ''symbol'') node_ref db = []"
    by (cases "node_rows (lit ''symbol'') node_ref db") (simp_all add: latest_version_def)
  have base: "v \<le> foldl max v vs" for v :: int and vs
  proof (induction vs arbitrary: v)
    case (Cons a vs)
    show ?case using order_trans [OF max.cobounded1 Cons, of v a] by simp
  qed simp
  have le: "x \<in> set vs \<Longrightarrow> x \<le> foldl max v vs" for x v :: int and vs
  proof (induction vs arbitrary: v)
    case (Cons a vs)
    then show ?case using base [of "max v a" vs] by auto
  qed simp
  show "latest_version db node_ref = Some v \<Longrightarrow> r \<in> set (node_rows (lit ''symbol'') node_ref db) \<Longrightarrow> sv_version r \<le> v"
    using base le by (cases "node_rows (lit ''symbol'') node_ref db") (auto simp: latest_version_def)
qed

lemma node_rows_versions:
  assumes "map (\<lambda>r. (sv_id r, sv_node_kind r, sv_node_ref r, sv_version r)) (i_summaries db') =
      map (\<lambda>r. (sv_id r, sv_node_kind r, sv_node_ref r, sv_version r)) (i_summaries db)"
  shows "map sv_version (node_rows k n db') = map sv_version (node_rows k n db)"
proof -
  have via: "map sv_version (filter (\<lambda>r. sv_node_kind r = k \<and> sv_node_ref r = n) rs) =
      map (\<lambda>(_, _, _, v). v) (filter (\<lambda>(_, a, b, _). a = k \<and> b = n) (map (\<lambda>r. (sv_id r, sv_node_kind r, sv_node_ref r, sv_version r)) rs))" for rs
    by (induction rs) auto
  show ?thesis unfolding node_rows_def via assms ..
qed

lemma insert_summary_ok:
  assumes "summaries_ok db" "unique_documents db" "\<forall>r \<in> set (node_rows k n db). sv_version r < v"
  obtains db' where "insert_summary k n v payload t db = (Inr (), db')" "summaries_ok db'" "unique_documents db'" "i_symbols db' = i_symbols db"
    "same_tables db db'" "nodes_kept {(k, n)} db db'" "seq_symbols (i_seq db') = seq_symbols (i_seq db)"
    "node_rows k n db' = node_rows k n db @ [\<lparr>sv_id = seq_summaries (i_seq db), sv_node_kind = k, sv_node_ref = n, sv_version = v,
       sv_summary = Some payload, sv_status = lit ''ok'', sv_created_at = t\<rparr>]"
proof -
  let ?r = "\<lparr>sv_id = seq_summaries (i_seq db), sv_node_kind = k, sv_node_ref = n, sv_version = v,
       sv_summary = Some payload, sv_status = lit ''ok'', sv_created_at = t\<rparr>"
  let ?db = "db\<lparr>i_summaries := i_summaries db @ [?r], i_seq := (i_seq db)\<lparr>seq_summaries := seq_summaries (i_seq db) + 1\<rparr>\<rparr>"
  have new: "\<not> list_ex (\<lambda>r. sv_node_kind r = k \<and> sv_node_ref r = n \<and> sv_version r = v) (i_summaries db)"
    using assms(3) by (auto simp: list_ex_iff node_rows_def)
  then have run: "insert_summary k n v payload t db = (Inr (), ?db)" by (simp add: insert_summary_def)
  have "summaries_ok ?db"
    using assms(1) new by (auto simp: summaries_ok_def list_all_iff list_ex_iff image_iff)
  moreover have "nodes_kept {(k, n)} db ?db" by (auto simp: nodes_kept_def node_rows_def node_documents_def)
  ultimately show thesis
    using that [OF run] assms(2) by (simp add: same_tables_def unique_documents_def node_rows_def)
qed


text \<open>
  The current summary after a renewal: the initial one, when the decoder reads its payload back, or none;
  never an older one.
\<close>

definition renewed :: "index_env \<Rightarrow> bool \<Rightarrow> SymbolInfo \<Rightarrow> ucs \<Rightarrow> index_db \<Rightarrow> bool" where
  "renewed e filter_small symbol ref db \<longleftrightarrow>
     (case initial_summary filter_small symbol of
        None \<Rightarrow> select_current_summary e (lit ''symbol'') ref db = no_summary
      | Some short \<Rightarrow>
          ie_parse e (summary_json short) = Some (JObject [(lit ''short'', JString short), (lit ''full'', JNull)]) \<longrightarrow>
          cs_short (select_current_summary e (lit ''symbol'') ref db) = Some short)"

lemma renewed_cong: "node_rows (lit ''symbol'') ref db' = node_rows (lit ''symbol'') ref db \<Longrightarrow> renewed e filter_small symbol ref db' = renewed e filter_small symbol ref db"
  by (simp add: renewed_def select_current_summary_def versions_desc_rows split: option.split)

lemma dropWhile_keeps: "c \<in> set s \<Longrightarrow> \<not> P c \<Longrightarrow> c \<in> set (dropWhile P s)"
  by (induction s) auto

lemma trim_keeps_solid: "c \<in> set s \<Longrightarrow> \<not> is_white c \<Longrightarrow> ucs_trim s \<noteq> []"
  using dropWhile_keeps [of c "rev (dropWhile is_white s)" is_white] dropWhile_keeps [of c s is_white] by (auto simp: ucs_trim_def)

lemma initial_summary_solid: "initial_summary filter_small symbol = Some short \<Longrightarrow> ucs_trim short \<noteq> []"
proof -
  assume "initial_summary filter_small symbol = Some short"
  then have "91 \<in> set short \<or> 83 \<in> set short"
    by (auto simp: initial_summary_def doc_summary_def Let_def lit_def split: option.splits if_splits)
  then show ?thesis using trim_keeps_solid [of 91] trim_keeps_solid [of 83] by (auto simp: is_white_def)
qed

lemma summary_payload_json:
  assumes "sv_summary r = Some (summary_json short)" "ie_parse e (summary_json short) = Some (JObject [(lit ''short'', JString short), (lit ''full'', JNull)])"
    "ucs_trim short \<noteq> []"
  shows "summary_payload e r = Some (short, None)"
  using assms by (simp add: summary_payload_def as_object_def as_str_def lit_def)

text \<open>The state in which the node of a symbol stands after its row was written.\<close>

lemma renew_summary_ok:
  assumes "summaries_ok db" "unique_documents db" "existing = latest_version db ref"
  obtains db' where "renew_summary e filter_small ref existing symbol now_iso db = (Inr (), db')"
    "summaries_ok db'" "unique_documents db'" "i_symbols db' = i_symbols db" "same_tables db db'" "nodes_kept {(lit ''symbol'', ref)} db db'"
    "mirrored e (lit ''symbol'') ref db'" "renewed e filter_small symbol ref db'"
proof -
  let ?k = "lit ''symbol''"
  define db1 where "db1 = (if existing \<noteq> None then snd (mark_current_summary_stale e ?k ref db) else db)"
  have "summaries_ok db1 \<and> unique_documents db1 \<and> i_symbols db1 = i_symbols db \<and> same_tables db db1 \<and> nodes_kept {(?k, ref)} db db1"
  proof (cases "existing = None")
    case True
    then show ?thesis
      using assms(1,2) by (simp add: db1_def)
  next
    case False
    then have "db1 = snd (mark_current_summary_stale e ?k ref db)" by (simp add: db1_def)
    then show ?thesis
      using stale_kept [OF assms(1,2)] mark_stale_documents(1) [OF assms(2), of e ?k ref] by simp
  qed
  then have db1: "summaries_ok db1" "unique_documents db1" "i_symbols db1 = i_symbols db" "same_tables db db1" "nodes_kept {(?k, ref)} db db1" by auto
  have versions: "map sv_version (node_rows ?k ref db1) = map sv_version (node_rows ?k ref db)"
    using node_rows_versions [OF mark_stale_summaries] by (simp add: db1_def)
  define v where "v = (case existing of None \<Rightarrow> 0 | Some v \<Rightarrow> v) + 1"
  have newer: "\<forall>r \<in> set (node_rows ?k ref db1). sv_version r < v"
  proof
    fix r assume "r \<in> set (node_rows ?k ref db1)"
    moreover have "sv_version ` set (node_rows ?k ref db1) = sv_version ` set (node_rows ?k ref db)"
      using arg_cong [OF versions, of set] by simp
    ultimately have "sv_version r \<in> sv_version ` set (node_rows ?k ref db)" by blast
    then obtain q where q: "q \<in> set (node_rows ?k ref db)" "sv_version q = sv_version r" by (rule imageE) (rule that; simp)
    have "node_rows ?k ref db \<noteq> []" using q(1) by (rule length_pos_if_in_set [THEN length_greater_0_conv [THEN iffD1]])
    then have "latest_version db ref \<noteq> None" unfolding latest_version_max(1) .
    then obtain w where w: "latest_version db ref = Some w" by (rule not_None_eq [THEN iffD1, THEN exE])
    have "v = w + 1" unfolding v_def assms(3) w by simp
    then show "sv_version r < v" using latest_version_max(2) [OF w q(1)] q(2) by linarith
  qed
  have none: "select_current_summary e ?k ref db1 = no_summary"
  proof (cases "existing = None")
    case True
    then have "node_rows ?k ref db1 = []" using latest_version_max(1) [of db ref] assms(3) by (simp add: db1_def)
    then show ?thesis using current_none by simp
  next
    case False
    then have "db1 = snd (mark_current_summary_stale e ?k ref db)" by (simp add: db1_def)
    then show ?thesis using mark_stale_current [OF assms(1)] by simp
  qed
  obtain db2 where db2: "(case initial_summary filter_small symbol of None \<Rightarrow> op_return ()
        | Some short \<Rightarrow> insert_summary ?k ref v (summary_json short) now_iso) db1 = (Inr (), db2)"
    "summaries_ok db2" "unique_documents db2" "i_symbols db2 = i_symbols db1" "same_tables db1 db2" "nodes_kept {(?k, ref)} db1 db2"
    "renewed e filter_small symbol ref db2"
  proof (cases "initial_summary filter_small symbol")
    case None
    then show thesis using that [of db1] db1 none by (simp add: op_return_def renewed_def)
  next
    case (Some short)
    let ?r = "\<lparr>sv_id = seq_summaries (i_seq db1), sv_node_kind = ?k, sv_node_ref = ref, sv_version = v,
       sv_summary = Some (summary_json short), sv_status = lit ''ok'', sv_created_at = now_iso\<rparr>"
    obtain x where x: "insert_summary ?k ref v (summary_json short) now_iso db1 = (Inr (), x)" "summaries_ok x" "unique_documents x"
        "i_symbols x = i_symbols db1" "same_tables db1 x" "nodes_kept {(?k, ref)} db1 x" "node_rows ?k ref x = node_rows ?k ref db1 @ [?r]"
      by (rule insert_summary_ok [OF db1(1,2) newer])
    have "cs_short (select_current_summary e ?k ref x) = Some short"
      if "ie_parse e (summary_json short) = Some (JObject [(lit ''short'', JString short), (lit ''full'', JNull)])"
    proof -
      have payload: "summary_payload e ?r = Some (short, None)"
        by (rule summary_payload_json [OF _ that initial_summary_solid [OF Some]]) simp
      then have "usable e ?r" by (simp add: usable_def AVAILABLE_STATUSES_def)
      then have "select_current_summary e ?k ref x = summary_of e ?r"
        by (intro current_from_newest [OF node_versions_distinct [OF x(2)]]) (use x(7) newer in \<open>auto simp: decisive_def intro: less_imp_le\<close>)
      moreover have "lit ''ok'' \<noteq> BARRIER_STATUS" by (simp add: BARRIER_STATUS_def lit_def)
      ultimately show ?thesis using payload by (simp add: summary_of_def)
    qed
    then show thesis using that [of x] x Some by (simp add: renewed_def)
  qed
  let ?db = "refresh_node e ?k ref db2"
  have "renew_summary e filter_small ref existing symbol now_iso db =
      op_bind (case initial_summary filter_small symbol of None \<Rightarrow> op_return ()
        | Some short \<Rightarrow> insert_summary ?k ref v (summary_json short) now_iso) (\<lambda>_. op_modify (refresh_node e ?k ref)) db1"
    unfolding renew_summary_def op_bind_modify db1_def v_def ..
  then have run: "renew_summary e filter_small ref existing symbol now_iso db = (Inr (), ?db)"
    using db2(1) by (simp add: op_bind_def op_modify_def)
  have "nodes_kept {(?k, ref)} db ?db"
    using nodes_kept_trans [OF nodes_kept_trans [OF db1(5) db2(6)] refresh_kept(1) [of ?k ref db2 e]] by simp
  moreover have "same_tables db ?db" using same_tables_trans [OF same_tables_trans [OF db1(4) db2(5)] refresh_kept(2)] .
  moreover have "summaries_ok ?db" using db2(2) by (simp add: summaries_ok_def)
  moreover have "renewed e filter_small symbol ref ?db"
    using db2(7) renewed_cong [of ref ?db db2] by (simp add: node_rows_def)
  ultimately show thesis
    using that [OF run] unique_refresh(1) [OF db2(3)] refresh_node_mirrored [OF db2(3)] db2(4) db1(3) by simp
qed

lemma write_symbol_ok:
  assumes inv: "summaries_ok db" "unique_documents db"
    and fresh: "\<not> list_ex (\<lambda>s. s_file_path s = rel \<and> s_name s = si_name symbol) (i_symbols db)"
    and versions: "existing (qualify rel (si_name symbol)) = latest_version db (qualify rel (si_name symbol))"
  obtains db' where "write_symbol e strip_rust filter_small language rel old existing now_iso symbol db = (Inr (), db')"
    "summaries_ok db'" "unique_documents db'" "same_tables db db'"
    "nodes_kept {(lit ''symbol'', qualify rel (si_name symbol))} db db'"
    "i_symbols db' = i_symbols db @ [symbol_row_of e strip_rust language rel symbol (seq_symbols (i_seq db))]"
    "mirrored e (lit ''symbol'') (qualify rel (si_name symbol)) db'"
    "old (si_name symbol) \<noteq> Some (s_hash (symbol_row_of e strip_rust language rel symbol 0)) \<longrightarrow> renewed e filter_small symbol (qualify rel (si_name symbol)) db'"
proof -
  let ?k = "lit ''symbol''" and ?ref = "qualify rel (si_name symbol)" and ?row = "symbol_row_of e strip_rust language rel symbol"
  define db1 where "db1 = db\<lparr>i_symbols := i_symbols db @ [?row (seq_symbols (i_seq db))],
      i_seq := (i_seq db)\<lparr>seq_symbols := seq_symbols (i_seq db) + 1\<rparr>\<rparr>"
  have ins: "insert_symbol ?row db = (Inr (), db1)"
    using fresh by (simp add: insert_symbol_def db1_def symbol_row_of_def Let_def)
  have rows: "node_rows k n db1 = node_rows k n db" "node_documents k n db1 = node_documents k n db" for k n
    by (simp_all add: db1_def node_rows_def node_documents_def)
  have db1: "summaries_ok db1" "unique_documents db1" "same_tables db db1" "nodes_kept {(?k, ?ref)} db db1"
    using inv rows by (simp_all add: db1_def summaries_ok_def unique_documents_def same_tables_def nodes_kept_def)
  have latest: "existing ?ref = latest_version db1 ?ref" using versions rows by (simp add: latest_version_def)
  obtain db2 where db2: "(if old (si_name symbol) = Some (s_hash (?row 0)) \<and> existing ?ref \<noteq> None then op_modify (refresh_node e ?k ?ref)
        else renew_summary e filter_small ?ref (existing ?ref) symbol now_iso) db1 = (Inr (), db2)"
    "summaries_ok db2" "unique_documents db2" "i_symbols db2 = i_symbols db1" "same_tables db1 db2" "nodes_kept {(?k, ?ref)} db1 db2"
    "mirrored e ?k ?ref db2" "old (si_name symbol) \<noteq> Some (s_hash (?row 0)) \<longrightarrow> renewed e filter_small symbol ?ref db2"
  proof (cases "old (si_name symbol) = Some (s_hash (?row 0)) \<and> existing ?ref \<noteq> None")
    case True
    have "summaries_ok (refresh_node e ?k ?ref db1)" using db1(1) by (simp add: summaries_ok_def)
    then show thesis using that [of "refresh_node e ?k ?ref db1"] True db1 refresh_kept unique_refresh refresh_node_mirrored
      by (simp add: op_modify_def)
  next
    case False
    obtain x where "renew_summary e filter_small ?ref (existing ?ref) symbol now_iso db1 = (Inr (), x)"
      "summaries_ok x" "unique_documents x" "i_symbols x = i_symbols db1" "same_tables db1 x" "nodes_kept {(?k, ?ref)} db1 x" "mirrored e ?k ?ref x"
      "renewed e filter_small symbol ?ref x"
      by (rule renew_summary_ok [OF db1(1,2) latest])
    then show thesis using that [of x] False by auto
  qed
  have run: "write_symbol e strip_rust filter_small language rel old existing now_iso symbol db = (Inr (), db2)"
    unfolding write_symbol_def Let_def using ins db2(1) by (simp add: op_bind_def)
  show thesis
    using that [OF run db2(2,3) same_tables_trans [OF db1(3) db2(5)] _ _ db2(7,8)] nodes_kept_trans [OF db1(4) db2(6)] db2(4) by (simp add: db1_def)
qed


section \<open>References of symbols\<close>

text \<open>A path whose qualified names split back: it has no separator, also together with the first colon of one.\<close>

definition plain_path :: "ucs \<Rightarrow> bool" where
  "plain_path p \<longleftrightarrow> \<not> contains_ucs (p @ [58]) SEP"

lemma split_qualify: "plain_path p \<Longrightarrow> split_once_str SEP (qualify p n) = Some (p, n)"
proof (induction p)
  case Nil
  then show ?case by (simp add: qualify_def SEP_def starts_with_def)
next
  case (Cons c p)
  then have "plain_path p" "\<not> starts_with SEP (c # p @ [58])" by (auto simp: plain_path_def)
  moreover from this(2) have "\<not> starts_with SEP (c # p @ SEP @ n)" by (cases p) (auto simp: starts_with_def SEP_def)
  ultimately show ?case using Cons.IH by (simp add: qualify_def)
qed

lemma qualify_inj: "plain_path p \<Longrightarrow> plain_path p' \<Longrightarrow> qualify p n = qualify p' n' \<longleftrightarrow> p = p' \<and> n = n'"
  by (metis option.inject prod.inject split_qualify)

lemma qualify_same [simp]: "qualify p n = qualify p n' \<longleftrightarrow> n = n'"
  by (simp add: qualify_def)

lemma split_once_joined: "split_once_str SEP ref = Some (f, n) \<Longrightarrow> ref = qualify f n"
  using split_once_str_Some by (simp add: qualify_def)

lemma mirrored_cong:
  assumes "load_fact_document k n db' = load_fact_document k n db" "node_rows k n db' = node_rows k n db"
    "node_documents k n db' = node_documents k n db"
  shows "mirrored e k n db' = mirrored e k n db"
proof -
  have "select_current_summary e k n db' = select_current_summary e k n db"
    by (simp add: select_current_summary_def versions_desc_rows assms(2))
  then show ?thesis using assms by (simp add: mirrored_def expected_documents_def split: option.split)
qed

lemma find_append_none: "(\<forall>y \<in> set ys. \<not> P y) \<Longrightarrow> find P (xs @ ys) = find P xs"
  by (induction xs) (auto simp: find_None_mem)

lemma find_filter_implied: "(\<And>x. x \<in> set xs \<Longrightarrow> P x \<Longrightarrow> Q x) \<Longrightarrow> find P (filter Q xs) = find P xs"
  by (induction xs) auto

text \<open>The document of a symbol reference reads only symbols of that qualified name.\<close>

lemma load_symbol_via:
  assumes "\<And>P. (\<And>r. P r \<Longrightarrow> symbol_qualified r = ref) \<Longrightarrow> symbol_fact db' P = symbol_fact db P"
  shows "load_fact_document (lit ''symbol'') ref db' = load_fact_document (lit ''symbol'') ref db"
proof -
  have "symbol_fact db' (\<lambda>s. symbol_qualified s = ref) = symbol_fact db (\<lambda>s. symbol_qualified s = ref)" by (rule assms)
  moreover have "symbol_fact db' (\<lambda>s. s_file_path s = f \<and> s_name s = n) = symbol_fact db (\<lambda>s. s_file_path s = f \<and> s_name s = n)"
    if "split_once_str SEP ref = Some (f, n)" for f n
    by (rule assms) (use split_once_joined [OF that] in \<open>simp add: symbol_qualified_def\<close>)
  ultimately have "symbol_document ref db' = symbol_document ref db" by (auto simp: symbol_document_def Let_def split: option.splits)
  then show ?thesis by (simp add: load_fact_document_def)
qed

lemma load_symbol_append:
  assumes "i_files db' = i_files db" "i_symbols db' = i_symbols db @ rows" "\<forall>r \<in> set rows. symbol_qualified r \<noteq> ref"
  shows "load_fact_document (lit ''symbol'') ref db' = load_fact_document (lit ''symbol'') ref db"
proof -
  have at: "file_at db' = file_at db" by (rule ext) (simp add: file_at_def assms(1))
  have "symbol_fact db' P = symbol_fact db P" if "\<And>r. P r \<Longrightarrow> symbol_qualified r = ref" for P
    unfolding symbol_fact_def assms(2) at using that assms(3) by (subst find_append_none) auto
  then show ?thesis by (rule load_symbol_via)
qed

text \<open>With plain paths only the symbol of that name gives a document.\<close>

lemma symbol_document_none:
  assumes "\<forall>s \<in> set (i_symbols db). symbol_qualified s \<noteq> ref"
  shows "load_fact_document (lit ''symbol'') ref db = None"
proof -
  have "symbol_fact db P = None" if "\<And>r. P r \<Longrightarrow> symbol_qualified r = ref" for P
  proof -
    have "find (\<lambda>s. P s \<and> file_at db (s_file_path s) \<noteq> None) (i_symbols db) = None" using that assms by (auto simp: find_None_mem)
    then show ?thesis by (simp add: symbol_fact_def)
  qed
  then have "symbol_fact db P = symbol_fact (db\<lparr>i_symbols := []\<rparr>) P" if "\<And>r. P r \<Longrightarrow> symbol_qualified r = ref" for P
    using that by (simp add: symbol_fact_def)
  then have "load_fact_document (lit ''symbol'') ref db = load_fact_document (lit ''symbol'') ref (db\<lparr>i_symbols := []\<rparr>)" by (rule load_symbol_via)
  also have "\<dots> = None" by (simp add: load_fact_document_def symbol_document_def symbol_fact_def split: option.split)
  finally show ?thesis .
qed

lemma load_other_file:
  assumes sym: "filter (\<lambda>s. s_file_path s \<noteq> rel) (i_symbols db') = filter (\<lambda>s. s_file_path s \<noteq> rel) (i_symbols db)"
    and files: "\<And>p. p \<noteq> rel \<Longrightarrow> file_at db' p = file_at db p"
    and ref: "\<And>n. ref \<noteq> qualify rel n"
  shows "load_fact_document (lit ''symbol'') ref db' = load_fact_document (lit ''symbol'') ref db"
proof -
  have "symbol_fact db' P = symbol_fact db P" if P: "\<And>r. P r \<Longrightarrow> symbol_qualified r = ref" for P
  proof -
    have out: "P s \<Longrightarrow> s_file_path s \<noteq> rel" for s using P ref by (auto simp: symbol_qualified_def)
    have restrict: "find (\<lambda>s. P s \<and> file_at x (s_file_path s) \<noteq> None) (i_symbols x) =
        find (\<lambda>s. P s \<and> file_at x (s_file_path s) \<noteq> None) (filter (\<lambda>s. s_file_path s \<noteq> rel) (i_symbols x))" for x
      by (rule find_filter_implied [symmetric]) (use out in blast)
    have same_files: "find (\<lambda>s. P s \<and> file_at db' (s_file_path s) \<noteq> None) rows = find (\<lambda>s. P s \<and> file_at db (s_file_path s) \<noteq> None) rows" for rows
      using out files by (auto intro!: find_cong)
    have same: "find (\<lambda>s. P s \<and> file_at db' (s_file_path s) \<noteq> None) (i_symbols db') = find (\<lambda>s. P s \<and> file_at db (s_file_path s) \<noteq> None) (i_symbols db)"
      using restrict [of db'] restrict [of db] same_files [of "filter (\<lambda>s. s_file_path s \<noteq> rel) (i_symbols db)"] sym by (metis (no_types, lifting))
    then show ?thesis using out files
      by (auto simp: symbol_fact_def dest!: find_Some_iff_mem split: option.splits)
  qed
  then show ?thesis by (rule load_symbol_via)
qed


section \<open>The loops\<close>

abbreviation symbol_nodes :: "ucs \<Rightarrow> ucs list \<Rightarrow> (ucs \<times> ucs) set" where
  "symbol_nodes rel names \<equiv> {(lit ''symbol'', qualify rel n) | n. n \<in> set names}"

lemma latest_version_kept:
  "nodes_kept S db db' \<Longrightarrow> (lit ''symbol'', ref) \<notin> S \<Longrightarrow> latest_version db' ref = latest_version db ref"
  by (simp add: nodes_kept_def latest_version_def)

lemma symbol_row_of_simps [simp]:
  "s_file_path (symbol_row_of e sr l rel symbol k) = rel" "s_name (symbol_row_of e sr l rel symbol k) = si_name symbol"
  "s_short_name (symbol_row_of e sr l rel symbol k) = Some (rsplit_last 46 (si_name symbol))"
  "s_id (symbol_row_of e sr l rel symbol k) = k"
  by (simp_all add: symbol_row_of_def)

lemma distinct_map_head: "distinct (map f (a # xs)) \<Longrightarrow> x \<in> set xs \<Longrightarrow> f x \<noteq> f a"
  by (metis distinct.simps(2) image_eqI list.map(2) list.set_map)

lemma write_symbols_loop:
  assumes "summaries_ok db" "unique_documents db" "distinct (map si_name syms)"
    and "\<forall>symbol \<in> set syms. \<not> list_ex (\<lambda>s. s_file_path s = rel \<and> s_name s = si_name symbol) (i_symbols db)"
    and "\<forall>symbol \<in> set syms. existing (qualify rel (si_name symbol)) = latest_version db (qualify rel (si_name symbol))"
  shows "\<exists>db' ks. op_each (write_symbol e sr filter_small language rel old existing now_iso) syms db = (Inr (), db') \<and>
    summaries_ok db' \<and> unique_documents db' \<and> same_tables db db' \<and> nodes_kept (symbol_nodes rel (map si_name syms)) db db' \<and>
    length ks = length syms \<and> i_symbols db' = i_symbols db @ map2 (symbol_row_of e sr language rel) syms ks \<and>
    (\<forall>symbol \<in> set syms. mirrored e (lit ''symbol'') (qualify rel (si_name symbol)) db' \<and>
      (old (si_name symbol) \<noteq> Some (s_hash (symbol_row_of e sr language rel symbol 0)) \<longrightarrow> renewed e filter_small symbol (qualify rel (si_name symbol)) db'))"
  using assms
proof (induction syms arbitrary: db)
  case Nil
  then show ?case by (intro exI [of _ db] exI [of _ "[]"]) (simp add: op_return_def)
next
  case (Cons symbol syms)
  let ?k = "lit ''symbol''" and ?ref = "qualify rel (si_name symbol)"
  obtain db1 where db1: "write_symbol e sr filter_small language rel old existing now_iso symbol db = (Inr (), db1)"
    "summaries_ok db1" "unique_documents db1" "same_tables db db1" "nodes_kept {(?k, ?ref)} db db1"
    "i_symbols db1 = i_symbols db @ [symbol_row_of e sr language rel symbol (seq_symbols (i_seq db))]" "mirrored e ?k ?ref db1"
    "old (si_name symbol) \<noteq> Some (s_hash (symbol_row_of e sr language rel symbol 0)) \<longrightarrow> renewed e filter_small symbol ?ref db1"
    by (rule write_symbol_ok [of db rel symbol existing, where e = e and strip_rust = sr and language = language and filter_small = filter_small and old = old and now_iso = now_iso])
      (use Cons.prems in auto)
  have new: "si_name x \<noteq> si_name symbol" if "x \<in> set syms" for x by (rule distinct_map_head [OF Cons.prems(3) that])
  have fresh: "\<forall>x \<in> set syms. \<not> list_ex (\<lambda>s. s_file_path s = rel \<and> s_name s = si_name x) (i_symbols db1)"
  proof
    fix x assume x: "x \<in> set syms"
    show "\<not> list_ex (\<lambda>s. s_file_path s = rel \<and> s_name s = si_name x) (i_symbols db1)"
      using Cons.prems(4) new [OF x] x by (auto simp: list_ex_iff db1(6))
  qed
  have versions: "\<forall>x \<in> set syms. existing (qualify rel (si_name x)) = latest_version db1 (qualify rel (si_name x))"
    using Cons.prems(5) new latest_version_kept [OF db1(5)] by auto
  obtain db' ks where db': "op_each (write_symbol e sr filter_small language rel old existing now_iso) syms db1 = (Inr (), db')"
    "summaries_ok db'" "unique_documents db'" "same_tables db1 db'" "nodes_kept (symbol_nodes rel (map si_name syms)) db1 db'"
    "length ks = length syms" "i_symbols db' = i_symbols db1 @ map2 (symbol_row_of e sr language rel) syms ks"
    "\<forall>x \<in> set syms. mirrored e ?k (qualify rel (si_name x)) db' \<and>
      (old (si_name x) \<noteq> Some (s_hash (symbol_row_of e sr language rel x 0)) \<longrightarrow> renewed e filter_small x (qualify rel (si_name x)) db')"
    using Cons.IH [OF db1(2,3) _ fresh versions] Cons.prems(3) by auto
  have "load_fact_document ?k ?ref db' = load_fact_document ?k ?ref db1"
  proof (rule load_symbol_append)
    show "i_files db' = i_files db1" using db'(4) by (simp add: same_tables_def)
    show "i_symbols db' = i_symbols db1 @ map2 (symbol_row_of e sr language rel) syms ks" by (rule db'(7))
    show "\<forall>r \<in> set (map2 (symbol_row_of e sr language rel) syms ks). symbol_qualified r \<noteq> ?ref"
      using new by (auto simp: symbol_qualified_def dest!: set_zip_leftD)
  qed
  moreover have "(?k, ?ref) \<notin> symbol_nodes rel (map si_name syms)"
  proof
    assume "(?k, ?ref) \<in> symbol_nodes rel (map si_name syms)"
    then obtain x where "x \<in> set syms" "si_name x = si_name symbol" by auto
    then show False using new by blast
  qed
  ultimately have "mirrored e ?k ?ref db'" and rows: "node_rows ?k ?ref db' = node_rows ?k ?ref db1"
    using mirrored_cong [of ?k ?ref db' db1 e] db'(5) db1(7) by (simp_all add: nodes_kept_def)
  moreover have "old (si_name symbol) \<noteq> Some (s_hash (symbol_row_of e sr language rel symbol 0)) \<longrightarrow> renewed e filter_small symbol ?ref db'"
    using db1(8) renewed_cong [OF rows] by simp
  moreover have "{(?k, ?ref)} \<union> symbol_nodes rel (map si_name syms) = symbol_nodes rel (map si_name (symbol # syms))" by auto
  then have "nodes_kept (symbol_nodes rel (map si_name (symbol # syms))) db db'" using nodes_kept_trans [OF db1(5) db'(5)] by metis
  ultimately show ?case
    using db1 db' same_tables_trans [OF db1(4) db'(4)]
    by (intro exI [of _ db'] exI [of _ "seq_symbols (i_seq db) # ks"]) (simp add: op_bind_def)
qed

definition occurrence_row_of :: "ucs \<Rightarrow> OccurrenceRow \<Rightarrow> occurrence_row" where
  "occurrence_row_of rel x =
     \<lparr>o_file_path = rel, o_name = si_name (or_symbol x), o_index = or_occurrence_index x, o_type = si_sym_type (or_symbol x),
      o_args = Some (si_args (or_symbol x)), o_lineno = Some (si_lineno (or_symbol x)), o_end_lineno = si_end_lineno (or_symbol x),
      o_hash = or_hash x, o_is_canonical = or_is_canonical x, o_conflict_kind = or_conflict_kind x, o_selection_reason = or_selection_reason x\<rparr>"

lemma occurrence_row_of_simps [simp]:
  "o_file_path (occurrence_row_of rel x) = rel" "o_name (occurrence_row_of rel x) = si_name (or_symbol x)"
  "o_index (occurrence_row_of rel x) = or_occurrence_index x" "o_is_canonical (occurrence_row_of rel x) = or_is_canonical x"
  by (simp_all add: occurrence_row_of_def)

definition occurrences_ok :: "OccurrenceRow list \<Rightarrow> bool" where
  "occurrences_ok xs \<longleftrightarrow> distinct (map (\<lambda>x. (si_name (or_symbol x), or_occurrence_index x)) xs) \<and>
     distinct (map (\<lambda>x. si_name (or_symbol x)) (filter or_is_canonical xs)) \<and>
     list_all (\<lambda>x. or_conflict_kind x \<in> set [lit ''type_variant'', lit ''signature_variant'', lit ''duplicate_definition'']) xs"

lemma insert_occurrences_loop:
  assumes "occurrences_ok (before @ xs)" "i_occurrences db = base @ map (occurrence_row_of rel) before" "\<forall>r \<in> set base. o_file_path r \<noteq> rel"
  shows "op_each (insert_occurrence rel) xs db = (Inr (), db\<lparr>i_occurrences := i_occurrences db @ map (occurrence_row_of rel) xs\<rparr>)"
  using assms
proof (induction xs arbitrary: before db)
  case Nil
  then show ?case by (simp add: op_return_def)
next
  case (Cons x xs)
  let ?db = "db\<lparr>i_occurrences := i_occurrences db @ [occurrence_row_of rel x]\<rparr>"
  have key: "(si_name (or_symbol x), or_occurrence_index x) \<notin> (\<lambda>x. (si_name (or_symbol x), or_occurrence_index x)) ` set before"
    using Cons.prems(1) by (auto simp: occurrences_ok_def)
  have canonical: "or_is_canonical x \<Longrightarrow> si_name (or_symbol x) \<notin> (\<lambda>x. si_name (or_symbol x)) ` {y \<in> set before. or_is_canonical y}"
    using Cons.prems(1) by (auto simp: occurrences_ok_def)
  have "\<not> list_ex (\<lambda>r. o_file_path r = rel \<and> o_name r = si_name (or_symbol x) \<and> o_index r = or_occurrence_index x) (i_occurrences db)"
    unfolding Cons.prems(2) using Cons.prems(3) key by (simp add: list_ex_iff bex_Un image_iff) metis
  moreover have "\<not> (or_is_canonical x \<and> list_ex (\<lambda>r. o_file_path r = rel \<and> o_name r = si_name (or_symbol x) \<and> o_is_canonical r) (i_occurrences db))"
    unfolding Cons.prems(2) using Cons.prems(3) canonical by (simp add: list_ex_iff bex_Un image_iff) metis
  moreover have "or_conflict_kind x \<in> set [lit ''type_variant'', lit ''signature_variant'', lit ''duplicate_definition'']"
    using Cons.prems(1) by (simp add: occurrences_ok_def)
  ultimately have step: "insert_occurrence rel x db = (Inr (), ?db)"
    unfolding insert_occurrence_def Let_def occurrence_row_of_def by simp
  have "op_each (insert_occurrence rel) xs ?db = (Inr (), ?db\<lparr>i_occurrences := i_occurrences ?db @ map (occurrence_row_of rel) xs\<rparr>)"
    by (rule Cons.IH [of "before @ [x]"]) (use Cons.prems in simp_all)
  then show ?case using step by (simp add: op_bind_def)
qed


section \<open>Edges and the end of a write\<close>

definition edge_row_of :: "ucs \<Rightarrow> int \<Rightarrow> EdgeRow \<Rightarrow> edge_row" where
  "edge_row_of rel k x = \<lparr>e_id = k, e_source_file = rel, e_caller = er_caller x, e_callee = er_callee x, e_callee_file = None,
     e_callee_qualified = None, e_line = Some (er_line x), e_provenance = None, e_synthesized_from = None, e_via = None,
     e_call_form = er_call_form x\<rparr>"

fun edge_rows :: "ucs \<Rightarrow> int \<Rightarrow> EdgeRow list \<Rightarrow> edge_row list" where
  "edge_rows rel k [] = []"
| "edge_rows rel k (x # xs) = edge_row_of rel k x # edge_rows rel (k + 1) xs"

lemma edge_rows_facts:
  "r \<in> set (edge_rows rel k xs) \<Longrightarrow> e_source_file r = rel \<and> e_provenance r = None \<and> e_callee_qualified r = None \<and> k \<le> e_id r \<and> e_id r < k + int (length xs)"
  "distinct (map e_id (edge_rows rel k xs))"
proof -
  have range: "r \<in> set (edge_rows rel k xs) \<Longrightarrow> e_source_file r = rel \<and> e_provenance r = None \<and> e_callee_qualified r = None \<and> k \<le> e_id r \<and> e_id r < k + int (length xs)" for r k xs
    by (induction xs arbitrary: k) (fastforce simp: edge_row_of_def)+
  then show "r \<in> set (edge_rows rel k xs) \<Longrightarrow> e_source_file r = rel \<and> e_provenance r = None \<and> e_callee_qualified r = None \<and> k \<le> e_id r \<and> e_id r < k + int (length xs)" .
  show "distinct (map e_id (edge_rows rel k xs))"
  proof (induction xs arbitrary: k)
    case (Cons x xs)
    have "k \<notin> e_id ` set (edge_rows rel (k + 1) xs)" for k
    proof
      assume "k \<in> e_id ` set (edge_rows rel (k + 1) xs)"
      then obtain r where "r \<in> set (edge_rows rel (k + 1) xs)" "k = e_id r" by blast
      then show False using range [of r "k + 1" xs] by simp
    qed
    then show ?case using Cons by (simp add: edge_row_of_def)
  qed simp
qed

lemma fold_insert_edge:
  "fold (insert_edge rel) xs db = db\<lparr>i_edges := i_edges db @ edge_rows rel (seq_edges (i_seq db)) xs,
     i_seq := (i_seq db)\<lparr>seq_edges := seq_edges (i_seq db) + int (length xs)\<rparr>\<rparr>"
  by (induction xs arbitrary: db) (simp_all add: insert_edge_def edge_row_of_def algebra_simps)

lemma fold_insert_pattern_frame [simp]:
  "i_files (fold (insert_pattern rel) ps db) = i_files db" "i_symbols (fold (insert_pattern rel) ps db) = i_symbols db"
  "i_occurrences (fold (insert_pattern rel) ps db) = i_occurrences db" "i_edges (fold (insert_pattern rel) ps db) = i_edges db"
  "i_candidates (fold (insert_pattern rel) ps db) = i_candidates db" "i_clusters (fold (insert_pattern rel) ps db) = i_clusters db"
  "i_summaries (fold (insert_pattern rel) ps db) = i_summaries db" "i_documents (fold (insert_pattern rel) ps db) = i_documents db"
  "seq_edges (i_seq (fold (insert_pattern rel) ps db)) = seq_edges (i_seq db)"
  "seq_summaries (i_seq (fold (insert_pattern rel) ps db)) = seq_summaries (i_seq db)"
  by (induction ps arbitrary: db; simp add: insert_pattern_def)+

lemma fold_insert_pattern_rows: "filter (\<lambda>p. p_file_path p \<noteq> rel) (i_patterns (fold (insert_pattern rel) ps db)) = filter (\<lambda>p. p_file_path p \<noteq> rel) (i_patterns db)"
  by (induction ps arbitrary: db) (simp_all add: insert_pattern_def)

lemma fold_delete_node:
  "same_tables db (fold (delete_node k) rs db)" "i_symbols (fold (delete_node k) rs db) = i_symbols db" "i_summaries (fold (delete_node k) rs db) = i_summaries db"
  "i_seq (fold (delete_node k) rs db) = i_seq db"
  "node_documents k' n (fold (delete_node k) rs db) = (if k' = k \<and> n \<in> set rs then [] else node_documents k' n db)"
proof -
  show "same_tables db (fold (delete_node k) rs db)" by (induction rs arbitrary: db) (auto intro: same_tables_trans delete_kept(2))
  show "i_symbols (fold (delete_node k) rs db) = i_symbols db" "i_summaries (fold (delete_node k) rs db) = i_summaries db"
    "i_seq (fold (delete_node k) rs db) = i_seq db" by (induction rs arbitrary: db; simp)+
  show "node_documents k' n (fold (delete_node k) rs db) = (if k' = k \<and> n \<in> set rs then [] else node_documents k' n db)"
    by (induction rs arbitrary: db) (auto simp: node_documents_delete)
qed

lemma unique_fold_delete: "unique_documents db \<Longrightarrow> unique_documents (fold (delete_node k) rs db)"
  by (induction rs arbitrary: db) (auto intro: unique_refresh(2))

lemma finish_file_facts:
  fixes e :: index_env and facts :: FileFacts and existed :: bool and old_refs :: "ucs list"
  assumes "summaries_ok db" "unique_documents db"
  defines "db' \<equiv> finish_file e facts existed old_refs db"
    and "gone \<equiv> filter (\<lambda>r. r \<notin> set (map (\<lambda>s. qualify (ff_rel_path facts) (si_name s)) (ff_canonical_symbols facts))) old_refs"
  shows "i_files db' = i_files db" "i_symbols db' = i_symbols db" "i_occurrences db' = i_occurrences db" "i_candidates db' = i_candidates db"
    "i_clusters db' = i_clusters db" "summaries_ok db'" "unique_documents db'"
    "i_edges db' = i_edges db @ edge_rows (ff_rel_path facts) (seq_edges (i_seq db)) (ff_edges facts)"
    "seq_edges (i_seq db') = seq_edges (i_seq db) + int (length (ff_edges facts))"
    "mirrored e (lit ''file'') (ff_rel_path facts) db'"
    "\<And>k n. (k, n) \<noteq> (lit ''file'', ff_rel_path facts) \<Longrightarrow>
       node_rows k n db' = node_rows k n db \<and> node_documents k n db' = (if k = lit ''symbol'' \<and> n \<in> set gone then [] else node_documents k n db)"
    "filter (\<lambda>p. p_file_path p \<noteq> ff_rel_path facts) (i_patterns db') = filter (\<lambda>p. p_file_path p \<noteq> ff_rel_path facts) (i_patterns db)"
proof -
  let ?rel = "ff_rel_path facts" and ?f = "lit ''file''"
  define db1 where "db1 = fold (delete_node (lit ''symbol'')) gone db"
  have db1: "same_tables db db1" "i_symbols db1 = i_symbols db" "i_summaries db1 = i_summaries db" "i_seq db1 = i_seq db" "unique_documents db1"
    using fold_delete_node unique_fold_delete [OF assms(2)] by (auto simp: db1_def)
  have docs1: "node_documents k n db1 = (if k = lit ''symbol'' \<and> n \<in> set gone then [] else node_documents k n db)" for k n
    unfolding db1_def by (rule fold_delete_node)
  have ok1: "summaries_ok db1" using assms(1) db1 by (simp add: summaries_ok_def)
  define db2 where "db2 = (if existed \<and> set old_refs \<noteq> set (map (\<lambda>s. qualify ?rel (si_name s)) (ff_canonical_symbols facts))
      then snd (mark_current_summary_stale e ?f ?rel db1) else db1)"
  have db2: "same_tables db1 db2 \<and> i_symbols db2 = i_symbols db1 \<and> summaries_ok db2 \<and> unique_documents db2 \<and> nodes_kept {(?f, ?rel)} db1 db2"
  proof (cases "existed \<and> set old_refs \<noteq> set (map (\<lambda>s. qualify ?rel (si_name s)) (ff_canonical_symbols facts))")
    case True
    then have "db2 = snd (mark_current_summary_stale e ?f ?rel db1)" by (simp add: db2_def)
    then show ?thesis using stale_kept [OF ok1 db1(5)] mark_stale_documents(1) [OF db1(5)] by simp
  next
    case False
    then have "db2 = db1" unfolding db2_def by (rule if_not_P)
    then show ?thesis using ok1 db1(5) by simp
  qed
  define db3 where "db3 = refresh_node e ?f ?rel db2"
  have db3: "same_tables db2 db3" "i_symbols db3 = i_symbols db2" "summaries_ok db3" "unique_documents db3" "nodes_kept {(?f, ?rel)} db2 db3" "mirrored e ?f ?rel db3"
    using db2 refresh_kept unique_refresh(1) refresh_node_mirrored by (auto simp: db3_def summaries_ok_def)
  have run: "db' = fold (insert_pattern ?rel) (ff_patterns facts) (fold (insert_edge ?rel) (ff_edges facts) db3)"
    unfolding db'_def finish_file_def Let_def db3_def db2_def db1_def gone_def ..
  note tables = same_tables_trans [OF same_tables_trans [OF db1(1) db2 [THEN conjunct1]] db3(1)]
  show "i_files db' = i_files db" "i_symbols db' = i_symbols db" "i_occurrences db' = i_occurrences db" "i_candidates db' = i_candidates db"
    "i_clusters db' = i_clusters db" "i_edges db' = i_edges db @ edge_rows ?rel (seq_edges (i_seq db)) (ff_edges facts)"
    "seq_edges (i_seq db') = seq_edges (i_seq db) + int (length (ff_edges facts))"
    using tables db1(2) db2 db3(2) by (simp_all add: run fold_insert_edge same_tables_def)
  show "filter (\<lambda>p. p_file_path p \<noteq> ?rel) (i_patterns db') = filter (\<lambda>p. p_file_path p \<noteq> ?rel) (i_patterns db)"
    using tables by (simp add: run fold_insert_pattern_rows fold_insert_edge same_tables_def)
  have docs: "i_documents db' = i_documents db3" "i_summaries db' = i_summaries db3" "i_files db' = i_files db3" "i_symbols db' = i_symbols db3" "i_clusters db' = i_clusters db3"
    by (simp_all add: run fold_insert_edge)
  then show "unique_documents db'" using db3(4) by (simp add: unique_documents_def)
  show "summaries_ok db'" using db3(3) docs by (simp add: summaries_ok_def run fold_insert_edge)
  show "mirrored e ?f ?rel db'"
    using mirrored_cong [of ?f ?rel db' db3 e] facts_cong(1) [of db' db3] docs db3(6) by (simp add: node_rows_def node_documents_def)
  show "node_rows k n db' = node_rows k n db \<and> node_documents k n db' = (if k = lit ''symbol'' \<and> n \<in> set gone then [] else node_documents k n db)"
    if "(k, n) \<noteq> (?f, ?rel)" for k n
  proof -
    have "node_rows k n db' = node_rows k n db3" "node_documents k n db' = node_documents k n db3" using docs by (simp_all add: node_rows_def node_documents_def)
    moreover have "node_rows k n db1 = node_rows k n db" using db1(3) by (simp add: node_rows_def)
    ultimately show ?thesis using db2 db3(5) docs1 that by (simp add: nodes_kept_def)
  qed
qed

end
