(* ===== verification/WriterInvariant.thy ===== *)
theory WriterInvariant
  imports WriterFacts
begin

text \<open>
  The invariant of the index, its preservation by the write and the removal of a file, and the two
  operations as a whole: what they change, what they leave, and that they do not fail.
\<close>

section \<open>Well-formedness\<close>

definition index_ok :: "index_db \<Rightarrow> bool" where
  "index_ok db \<longleftrightarrow>
     distinct (map f_path (i_files db)) \<and>
     distinct (map (\<lambda>s. (s_file_path s, s_name s)) (i_symbols db)) \<and>
     list_all (\<lambda>s. s_short_name s \<noteq> None \<and> plain_path (s_file_path s)) (i_symbols db) \<and>
     summaries_ok db \<and> unique_documents db \<and>
     distinct (map e_id (i_edges db)) \<and> list_all (\<lambda>x. e_id x < seq_edges (i_seq db)) (i_edges db) \<and>
     list_all (\<lambda>c. c_edge_id c \<in> e_id ` set (i_edges db)) (i_candidates db)"

definition facts_ok :: "FileFacts \<Rightarrow> bool" where
  "facts_ok facts \<longleftrightarrow> distinct (map si_name (ff_canonical_symbols facts)) \<and> occurrences_ok (ff_occurrences facts) \<and>
     from_language_id (ff_language_id facts) \<noteq> None \<and> plain_path (ff_rel_path facts)"

text \<open>Every symbol node and every file node has the document its facts and its summary ask for.\<close>

definition all_mirrored :: "index_env \<Rightarrow> index_db \<Rightarrow> bool" where
  "all_mirrored e db \<longleftrightarrow> (\<forall>ref. mirrored e (lit ''symbol'') ref db \<and> mirrored e (lit ''file'') ref db)"

lemma kinds_differ [simp]: "lit ''symbol'' \<noteq> lit ''file''" "lit ''file'' \<noteq> lit ''symbol''"
  by (simp_all add: lit_def)

definition stored_of :: "ucs \<Rightarrow> index_db \<Rightarrow> (ucs \<times> ucs \<times> ucs option) list" where
  "stored_of rel db = map (\<lambda>s. (s_name s, the (s_short_name s), s_hash s)) (filter (\<lambda>s. s_file_path s = rel) (i_symbols db))"

lemma stored_names_ok: "index_ok db \<Longrightarrow> stored_names rel db = Inr (stored_of rel db)"
  unfolding stored_names_def stored_of_def
  by (rule res_collect_total) (auto simp: index_ok_def list_all_iff split: option.splits)

lemma upsert_file_facts:
  assumes "distinct (map f_path (i_files db))"
  shows "distinct (map f_path (i_files (upsert_file facts db)))"
    "filter (\<lambda>f. f_path f \<noteq> ff_rel_path facts) (i_files (upsert_file facts db)) = filter (\<lambda>f. f_path f \<noteq> ff_rel_path facts) (i_files db)"
    "f_path ` set (i_files (upsert_file facts db)) = insert (ff_rel_path facts) (f_path ` set (i_files db))"
proof -
  let ?rel = "ff_rel_path facts"
  have fill: "f_path (fill_file facts f) = f_path f" for f by (simp add: fill_file_def)
  have "distinct (map f_path (i_files (upsert_file facts db))) \<and>
    filter (\<lambda>f. f_path f \<noteq> ?rel) (i_files (upsert_file facts db)) = filter (\<lambda>f. f_path f \<noteq> ?rel) (i_files db) \<and>
    f_path ` set (i_files (upsert_file facts db)) = insert ?rel (f_path ` set (i_files db))"
  proof (cases "file_at db ?rel")
    case None
    then have "?rel \<notin> f_path ` set (i_files db)" by (auto simp: file_at_def find_None_mem)
    then show ?thesis using None assms by (auto simp: upsert_file_def fill blank_file_def)
  next
    case (Some f)
    then have "?rel \<in> f_path ` set (i_files db)" using find_Some_iff_mem [of "\<lambda>f. f_path f = ?rel" "i_files db" f] by (auto simp: file_at_def intro: rev_image_eqI)
    moreover have "map f_path (update_where (\<lambda>f. f_path f = ?rel) (fill_file facts) rs) = map f_path rs" for rs
      by (auto simp: update_where_def fill)
    moreover have "filter (\<lambda>f. f_path f \<noteq> ?rel) (update_where (\<lambda>f. f_path f = ?rel) (fill_file facts) rs) = filter (\<lambda>f. f_path f \<noteq> ?rel) rs" for rs
      by (induction rs) (auto simp: update_where_def fill)
    ultimately show ?thesis using Some assms by (simp add: upsert_file_def insert_absorb) (metis list.set_map)
  qed
  then show "distinct (map f_path (i_files (upsert_file facts db)))"
    "filter (\<lambda>f. f_path f \<noteq> ff_rel_path facts) (i_files (upsert_file facts db)) = filter (\<lambda>f. f_path f \<noteq> ff_rel_path facts) (i_files db)"
    "f_path ` set (i_files (upsert_file facts db)) = insert (ff_rel_path facts) (f_path ` set (i_files db))" by blast+
qed

lemma upsert_file_frame [simp]:
  "i_symbols (upsert_file facts db) = i_symbols db" "i_occurrences (upsert_file facts db) = i_occurrences db" "i_edges (upsert_file facts db) = i_edges db"
  "i_candidates (upsert_file facts db) = i_candidates db" "i_clusters (upsert_file facts db) = i_clusters db" "i_summaries (upsert_file facts db) = i_summaries db"
  "i_documents (upsert_file facts db) = i_documents db" "i_seq (upsert_file facts db) = i_seq db" "i_patterns (upsert_file facts db) = i_patterns db"
  by (simp_all add: upsert_file_def)

lemma file_at_filter: "filter (\<lambda>f. f_path f \<noteq> rel) (i_files db') = filter (\<lambda>f. f_path f \<noteq> rel) (i_files db) \<Longrightarrow> p \<noteq> rel \<Longrightarrow> file_at db' p = file_at db p"
  by (metis (mono_tags, lifting) file_at_def find_filter_implied)

abbreviation name_hash :: "(ucs \<times> ucs \<times> ucs option) list \<Rightarrow> ucs \<rightharpoonup> ucs option" where
  "name_hash stored \<equiv> map_of (rev (map (\<lambda>(name, _, hash). (name, hash)) stored))"

text \<open>The write of a changed file: its effect on every table, and its documents.\<close>

lemma write_run:
  assumes ok: "index_ok db" "facts_ok facts" and changed: "\<not> file_unchanged facts db"
  obtains db' ks language where
    "write_file_facts e sr facts filter_small db = (Inr (delta_of facts (file_at db (ff_rel_path facts) \<noteq> None) (stored_of (ff_rel_path facts) db)), db')"
    "distinct (map f_path (i_files db'))" "f_path ` set (i_files db') = insert (ff_rel_path facts) (f_path ` set (i_files db))"
    "filter (\<lambda>f. f_path f \<noteq> ff_rel_path facts) (i_files db') = filter (\<lambda>f. f_path f \<noteq> ff_rel_path facts) (i_files db)"
    "filter (\<lambda>p. p_file_path p \<noteq> ff_rel_path facts) (i_patterns db') = filter (\<lambda>p. p_file_path p \<noteq> ff_rel_path facts) (i_patterns db)"
    "length ks = length (ff_canonical_symbols facts)" "from_language_id (ff_language_id facts) = Some language"
    "i_symbols db' = filter (\<lambda>s. s_file_path s \<noteq> ff_rel_path facts) (i_symbols db) @
       map2 (symbol_row_of e sr language (ff_rel_path facts)) (ff_canonical_symbols facts) ks"
    "i_edges db' = filter (\<lambda>x. e_source_file x \<noteq> ff_rel_path facts) (i_edges db) @ edge_rows (ff_rel_path facts) (seq_edges (i_seq db)) (ff_edges facts)"
    "i_candidates db' = filter (\<lambda>c. c_edge_id c \<notin> e_id ` {x \<in> set (i_edges db). e_source_file x = ff_rel_path facts}) (i_candidates db)"
    "seq_edges (i_seq db') = seq_edges (i_seq db) + int (length (ff_edges facts))"
    "summaries_ok db'" "unique_documents db'"
    "\<forall>s \<in> set (ff_canonical_symbols facts). mirrored e (lit ''symbol'') (qualify (ff_rel_path facts) (si_name s)) db'"
    "mirrored e (lit ''file'') (ff_rel_path facts) db'"
    "\<And>k n. (k, n) \<noteq> (lit ''file'', ff_rel_path facts) \<Longrightarrow> (k, n) \<notin> symbol_nodes (ff_rel_path facts) (map si_name (ff_canonical_symbols facts)) \<Longrightarrow>
       node_rows k n db' = node_rows k n db \<and>
       node_documents k n db' = (if k = lit ''symbol'' \<and> n \<in> qualify (ff_rel_path facts) ` s_name ` {s \<in> set (i_symbols db). s_file_path s = ff_rel_path facts}
         then [] else node_documents k n db)"
    "\<forall>s \<in> set (ff_canonical_symbols facts). (name_hash (stored_of (ff_rel_path facts) db) (si_name s) \<noteq>
        Some (s_hash (symbol_row_of e sr language (ff_rel_path facts) s 0)) \<longrightarrow> renewed e filter_small s (qualify (ff_rel_path facts) (si_name s)) db')"
proof -
  let ?rel = "ff_rel_path facts" and ?s = "lit ''symbol''" and ?f = "lit ''file''" and ?new = "map si_name (ff_canonical_symbols facts)"
  let ?existed = "file_at db ?rel \<noteq> None" and ?stored = "stored_of ?rel db"
  obtain language where language: "from_language_id (ff_language_id facts) = Some language" using ok(2) by (auto simp: facts_ok_def)
  define db1 where "db1 = clear_file ?rel (upsert_file facts db)"
  have db1: "i_files db1 = i_files (upsert_file facts db)" "i_symbols db1 = filter (\<lambda>s. s_file_path s \<noteq> ?rel) (i_symbols db)"
    "i_occurrences db1 = filter (\<lambda>x. o_file_path x \<noteq> ?rel) (i_occurrences db)" "i_edges db1 = filter (\<lambda>x. e_source_file x \<noteq> ?rel) (i_edges db)"
    "i_candidates db1 = filter (\<lambda>c. c_edge_id c \<notin> e_id ` {x \<in> set (i_edges db). e_source_file x = ?rel}) (i_candidates db)"
    "i_summaries db1 = i_summaries db" "i_documents db1 = i_documents db" "i_seq db1 = i_seq db"
    "i_patterns db1 = filter (\<lambda>p. p_file_path p \<noteq> ?rel) (i_patterns db)"
    by (simp_all add: db1_def clear_file_def)
  define db2 where "db2 = db1\<lparr>i_occurrences := i_occurrences db1 @ map (occurrence_row_of ?rel) (ff_occurrences facts)\<rparr>"
  have occ: "op_each (insert_occurrence ?rel) (ff_occurrences facts) db1 = (Inr (), db2)"
    unfolding db2_def by (rule insert_occurrences_loop [of "[]" _ _ "i_occurrences db1"]) (use ok(2) db1(3) in \<open>auto simp: facts_ok_def\<close>)
  have ok2: "summaries_ok db2" "unique_documents db2"
    using ok(1) db1 by (simp_all add: db2_def index_ok_def summaries_ok_def unique_documents_def)
  have rows2: "node_rows k n db2 = node_rows k n db" "node_documents k n db2 = node_documents k n db" for k n
    using db1 by (simp_all add: db2_def node_rows_def node_documents_def)
  have "\<exists>db3 ks. op_each (write_symbol e sr filter_small language ?rel (map_of (rev (map (\<lambda>(name, _, hash). (name, hash)) ?stored))) (latest_version db) (ie_now e db2))
        (ff_canonical_symbols facts) db2 = (Inr (), db3) \<and>
      summaries_ok db3 \<and> unique_documents db3 \<and> same_tables db2 db3 \<and> nodes_kept (symbol_nodes ?rel ?new) db2 db3 \<and>
      length ks = length (ff_canonical_symbols facts) \<and> i_symbols db3 = i_symbols db2 @ map2 (symbol_row_of e sr language ?rel) (ff_canonical_symbols facts) ks \<and>
      (\<forall>symbol \<in> set (ff_canonical_symbols facts). mirrored e ?s (qualify ?rel (si_name symbol)) db3 \<and>
        (name_hash ?stored (si_name symbol) \<noteq> Some (s_hash (symbol_row_of e sr language ?rel symbol 0)) \<longrightarrow> renewed e filter_small symbol (qualify ?rel (si_name symbol)) db3))"
  proof (rule write_symbols_loop [OF ok2])
    show "distinct (map si_name (ff_canonical_symbols facts))" using ok(2) by (simp add: facts_ok_def)
    show "\<forall>symbol \<in> set (ff_canonical_symbols facts). \<not> list_ex (\<lambda>s. s_file_path s = ?rel \<and> s_name s = si_name symbol) (i_symbols db2)"
      using db1(2) by (auto simp: db2_def list_ex_iff)
    show "\<forall>symbol \<in> set (ff_canonical_symbols facts). latest_version db (qualify ?rel (si_name symbol)) = latest_version db2 (qualify ?rel (si_name symbol))"
      by (simp add: latest_version_def rows2)
  qed
  then obtain db3 ks where loop: "op_each (write_symbol e sr filter_small language ?rel (map_of (rev (map (\<lambda>(name, _, hash). (name, hash)) ?stored))) (latest_version db) (ie_now e db2))
        (ff_canonical_symbols facts) db2 = (Inr (), db3)"
    and db3: "summaries_ok db3" "unique_documents db3" "same_tables db2 db3" "nodes_kept (symbol_nodes ?rel ?new) db2 db3"
      "length ks = length (ff_canonical_symbols facts)" "i_symbols db3 = i_symbols db2 @ map2 (symbol_row_of e sr language ?rel) (ff_canonical_symbols facts) ks"
      "\<forall>symbol \<in> set (ff_canonical_symbols facts). mirrored e ?s (qualify ?rel (si_name symbol)) db3 \<and>
        (name_hash ?stored (si_name symbol) \<noteq> Some (s_hash (symbol_row_of e sr language ?rel symbol 0)) \<longrightarrow> renewed e filter_small symbol (qualify ?rel (si_name symbol)) db3)" by blast
  let ?refs = "map (\<lambda>(name, _). qualify ?rel name) ?stored"
  define db' where "db' = finish_file e facts ?existed ?refs db3"
  note fin = finish_file_facts [OF db3(1,2), where e = e and facts = facts and existed = ?existed and old_refs = ?refs, folded db'_def]
  have run: "write_file_facts e sr facts filter_small db = (Inr (delta_of facts ?existed ?stored), db')"
    unfolding write_file_facts_def write_symbols_def language
    using changed stored_names_ok [OF ok(1)] occ loop by (simp add: op_bind_def op_basic_simps op_modify_def db1_def [symmetric] db'_def)
  have old: "set ?refs = qualify ?rel ` s_name ` {s \<in> set (i_symbols db). s_file_path s = ?rel}"
    by (auto simp: stored_of_def image_iff)
  have keep: "node_rows k n db' = node_rows k n db \<and> node_documents k n db' = (if k = ?s \<and> n \<in> qualify ?rel ` s_name ` {s \<in> set (i_symbols db). s_file_path s = ?rel}
         then [] else node_documents k n db)" if "(k, n) \<noteq> (?f, ?rel)" "(k, n) \<notin> symbol_nodes ?rel ?new" for k n
  proof -
    have "node_rows k n db3 = node_rows k n db \<and> node_documents k n db3 = node_documents k n db" using db3(4) that(2) rows2 by (simp add: nodes_kept_def)
    moreover have "k = ?s \<Longrightarrow> n \<notin> set (map (\<lambda>s. qualify ?rel (si_name s)) (ff_canonical_symbols facts))" using that(2) by auto
    ultimately show ?thesis using fin(11) [OF that(1)] old by auto
  qed
  have mirror: "\<forall>s \<in> set (ff_canonical_symbols facts). mirrored e ?s (qualify ?rel (si_name s)) db' \<and>
      (name_hash ?stored (si_name s) \<noteq> Some (s_hash (symbol_row_of e sr language ?rel s 0)) \<longrightarrow> renewed e filter_small s (qualify ?rel (si_name s)) db')"
  proof
    fix s assume s: "s \<in> set (ff_canonical_symbols facts)"
    have same: "node_rows ?s (qualify ?rel (si_name s)) db' = node_rows ?s (qualify ?rel (si_name s)) db3 \<and>
        node_documents ?s (qualify ?rel (si_name s)) db' = node_documents ?s (qualify ?rel (si_name s)) db3"
      using fin(11) [of ?s "qualify ?rel (si_name s)"] s by auto
    then have "renewed e filter_small s (qualify ?rel (si_name s)) db' = renewed e filter_small s (qualify ?rel (si_name s)) db3" by (intro renewed_cong) simp
    moreover have "mirrored e ?s (qualify ?rel (si_name s)) db' = mirrored e ?s (qualify ?rel (si_name s)) db3"
      using mirrored_cong [of ?s _ db' db3 e] load_symbol_append [of db' db3 "[]"] fin(1,2) same by simp
    ultimately show "mirrored e ?s (qualify ?rel (si_name s)) db' \<and>
      (name_hash ?stored (si_name s) \<noteq> Some (s_hash (symbol_row_of e sr language ?rel s 0)) \<longrightarrow> renewed e filter_small s (qualify ?rel (si_name s)) db')"
      using db3(7) s by blast
  qed
  show thesis
  proof (rule that [OF run])
    show "distinct (map f_path (i_files db'))" "f_path ` set (i_files db') = insert ?rel (f_path ` set (i_files db))"
      "filter (\<lambda>f. f_path f \<noteq> ?rel) (i_files db') = filter (\<lambda>f. f_path f \<noteq> ?rel) (i_files db)"
      using upsert_file_facts [of db facts] ok(1) fin(1) db3(3) db1(1) by (simp_all add: index_ok_def same_tables_def db2_def)
    show "filter (\<lambda>p. p_file_path p \<noteq> ?rel) (i_patterns db') = filter (\<lambda>p. p_file_path p \<noteq> ?rel) (i_patterns db)"
      using fin(12) db3(3) db1(9) by (simp add: same_tables_def db2_def)
    show "length ks = length (ff_canonical_symbols facts)" "from_language_id (ff_language_id facts) = Some language" by fact+
    show "i_symbols db' = filter (\<lambda>s. s_file_path s \<noteq> ?rel) (i_symbols db) @ map2 (symbol_row_of e sr language ?rel) (ff_canonical_symbols facts) ks"
      using fin(2) db3(6) db1(2) by (simp add: db2_def)
    show "i_edges db' = filter (\<lambda>x. e_source_file x \<noteq> ?rel) (i_edges db) @ edge_rows ?rel (seq_edges (i_seq db)) (ff_edges facts)"
      "i_candidates db' = filter (\<lambda>c. c_edge_id c \<notin> e_id ` {x \<in> set (i_edges db). e_source_file x = ?rel}) (i_candidates db)"
      "seq_edges (i_seq db') = seq_edges (i_seq db) + int (length (ff_edges facts))"
      using fin(4,8,9) db3(3) db1 by (simp_all add: same_tables_def db2_def)
  qed (use fin mirror keep in auto)
qed


lemma map2_row_facts:
  assumes "length ks = length syms"
  shows "map (\<lambda>s. (s_file_path s, s_name s)) (map2 (symbol_row_of e sr l rel) syms ks) = map (\<lambda>s. (rel, si_name s)) syms"
    "r \<in> set (map2 (symbol_row_of e sr l rel) syms ks) \<Longrightarrow> s_file_path r = rel \<and> (\<exists>s \<in> set syms. s_name r = si_name s \<and> s_short_name r = Some (rsplit_last 46 (si_name s)))"
proof -
  show "map (\<lambda>s. (s_file_path s, s_name s)) (map2 (symbol_row_of e sr l rel) syms ks) = map (\<lambda>s. (rel, si_name s)) syms"
    using assms by (induction ks syms rule: list_induct2) simp_all
  show "r \<in> set (map2 (symbol_row_of e sr l rel) syms ks) \<Longrightarrow> s_file_path r = rel \<and> (\<exists>s \<in> set syms. s_name r = si_name s \<and> s_short_name r = Some (rsplit_last 46 (si_name s)))"
    by (auto dest: set_zip_leftD)
qed

lemma write_index_ok:
  assumes ok: "index_ok db" "facts_ok facts" and run: "write_file_facts e sr facts filter_small db = (Inr delta, db')"
  shows "index_ok db'"
proof (cases "file_unchanged facts db")
  case True
  then have "db' = db" using run by (auto simp: write_file_facts_def op_bind_def op_basic_simps)
  then show ?thesis using ok(1) by simp
next
  case False
  let ?rel = "ff_rel_path facts"
  obtain ks language where
    files: "distinct (map f_path (i_files db'))"
    and ks: "length ks = length (ff_canonical_symbols facts)"
    and symbols: "i_symbols db' = filter (\<lambda>s. s_file_path s \<noteq> ?rel) (i_symbols db) @ map2 (symbol_row_of e sr language ?rel) (ff_canonical_symbols facts) ks"
    and edges: "i_edges db' = filter (\<lambda>x. e_source_file x \<noteq> ?rel) (i_edges db) @ edge_rows ?rel (seq_edges (i_seq db)) (ff_edges facts)"
    and cands: "i_candidates db' = filter (\<lambda>c. c_edge_id c \<notin> e_id ` {x \<in> set (i_edges db). e_source_file x = ?rel}) (i_candidates db)"
    and seq: "seq_edges (i_seq db') = seq_edges (i_seq db) + int (length (ff_edges facts))"
    and rest: "summaries_ok db'" "unique_documents db'"
    by (rule write_run [OF ok False, of e sr filter_small]) (use run in auto)
  note rows = map2_row_facts [OF ks, where e = e and sr = sr and l = language and rel = ?rel]
  have "distinct (map (\<lambda>s. (s_file_path s, s_name s)) (i_symbols db'))"
    unfolding symbols map_append rows(1) using ok by (auto simp: index_ok_def facts_ok_def distinct_map_filter distinct_map inj_on_def)
  moreover have "list_all (\<lambda>s. s_short_name s \<noteq> None \<and> plain_path (s_file_path s)) (i_symbols db')"
    unfolding symbols list_all_append using ok rows(2) by (auto simp: index_ok_def facts_ok_def list_all_iff)
  moreover have "distinct (map e_id (i_edges db')) \<and> list_all (\<lambda>x. e_id x < seq_edges (i_seq db')) (i_edges db')"
  proof -
    have less: "e_id x < seq_edges (i_seq db)" if "x \<in> set (i_edges db)" for x using that ok(1) by (auto simp: index_ok_def list_all_iff)
    have more: "seq_edges (i_seq db) \<le> e_id x \<and> e_id x < seq_edges (i_seq db')" if "x \<in> set (edge_rows ?rel (seq_edges (i_seq db)) (ff_edges facts))" for x
      using edge_rows_facts(1) [OF that] seq by simp
    have "e_id ` set (filter (\<lambda>x. e_source_file x \<noteq> ?rel) (i_edges db)) \<inter> e_id ` set (edge_rows ?rel (seq_edges (i_seq db)) (ff_edges facts)) = {}"
      using less more by fastforce
    then have "distinct (map e_id (i_edges db'))"
      unfolding edges map_append distinct_append set_map using ok(1) edge_rows_facts(2) by (simp add: index_ok_def distinct_map_filter)
    moreover have "e_id x < seq_edges (i_seq db')" if "x \<in> set (i_edges db')" for x
      using that less more seq by (fastforce simp: edges)
    ultimately show ?thesis by (simp add: list_all_iff)
  qed
  moreover have "list_all (\<lambda>c. c_edge_id c \<in> e_id ` set (i_edges db')) (i_candidates db')"
  proof -
    have "c_edge_id c \<in> e_id ` set (i_edges db')" if c: "c \<in> set (i_candidates db')" for c
    proof -
      obtain x where x: "x \<in> set (i_edges db)" "c_edge_id c = e_id x" using c ok(1) by (auto simp: cands index_ok_def list_all_iff)
      then have "e_source_file x \<noteq> ?rel" using c by (auto simp: cands)
      then have "x \<in> set (i_edges db')" using x(1) by (simp add: edges)
      then show ?thesis using x(2) by simp
    qed
    then show ?thesis by (simp add: list_all_iff)
  qed
  ultimately show ?thesis using files rest by (simp add: index_ok_def)
qed

lemma write_all_mirrored:
  assumes ok: "index_ok db" "facts_ok facts" and run: "write_file_facts e sr facts filter_small db = (Inr delta, db')" and mirror: "all_mirrored e db"
  shows "all_mirrored e db'"
proof (cases "file_unchanged facts db")
  case True
  then have "db' = db" using run by (auto simp: write_file_facts_def op_bind_def op_basic_simps)
  then show ?thesis using mirror by simp
next
  case False
  let ?rel = "ff_rel_path facts" and ?s = "lit ''symbol''" and ?f = "lit ''file''" and ?new = "map si_name (ff_canonical_symbols facts)"
  obtain ks language where
    files: "filter (\<lambda>f. f_path f \<noteq> ?rel) (i_files db') = filter (\<lambda>f. f_path f \<noteq> ?rel) (i_files db)"
    and ks: "length ks = length (ff_canonical_symbols facts)"
    and symbols: "i_symbols db' = filter (\<lambda>s. s_file_path s \<noteq> ?rel) (i_symbols db) @ map2 (symbol_row_of e sr language ?rel) (ff_canonical_symbols facts) ks"
    and mine: "\<forall>s \<in> set (ff_canonical_symbols facts). mirrored e ?s (qualify ?rel (si_name s)) db'" "mirrored e ?f ?rel db'"
    and keep: "\<And>k n. (k, n) \<noteq> (?f, ?rel) \<Longrightarrow> (k, n) \<notin> symbol_nodes ?rel ?new \<Longrightarrow> node_rows k n db' = node_rows k n db \<and>
       node_documents k n db' = (if k = ?s \<and> n \<in> qualify ?rel ` s_name ` {s \<in> set (i_symbols db). s_file_path s = ?rel} then [] else node_documents k n db)"
    by (rule write_run [OF ok False, of e sr filter_small]) (use run in auto)
  note rows = map2_row_facts(2) [OF ks, where e = e and sr = sr and l = language and rel = ?rel]
  have at: "file_at db' p = file_at db p" if "p \<noteq> ?rel" for p using file_at_filter [OF files that] .
  have plain: "plain_path ?rel" "\<forall>s \<in> set (i_symbols db'). plain_path (s_file_path s)" "\<forall>s \<in> set (i_symbols db). plain_path (s_file_path s)"
    using ok write_index_ok [OF ok run] by (auto simp: index_ok_def facts_ok_def list_all_iff)
  have "mirrored e ?s ref db'" for ref
  proof (cases "\<exists>n. ref = qualify ?rel n")
    case False
    have other: "filter (\<lambda>s. s_file_path s \<noteq> ?rel) (i_symbols db') = filter (\<lambda>s. s_file_path s \<noteq> ?rel) (i_symbols db)"
      using rows by (auto simp: symbols filter_empty_conv)
    have "load_fact_document ?s ref db' = load_fact_document ?s ref db"
      by (rule load_other_file [OF other at]) (use False in auto)
    moreover have "node_rows ?s ref db' = node_rows ?s ref db \<and> node_documents ?s ref db' = node_documents ?s ref db"
      using keep [of ?s ref] False by auto
    ultimately show ?thesis using mirrored_cong [of ?s ref db' db e] mirror by (simp add: all_mirrored_def)
  next
    case True
    then obtain n where n: "ref = qualify ?rel n" by blast
    show ?thesis
    proof (cases "n \<in> set ?new")
      case True
      then show ?thesis using mine(1) n by auto
    next
      case new: False
      then have "\<forall>s \<in> set (i_symbols db'). symbol_qualified s \<noteq> ref"
        using plain(1,2) n rows by (auto simp: symbol_qualified_def qualify_inj symbols)
      then have none: "load_fact_document ?s ref db' = None" by (rule symbol_document_none)
      have "node_documents ?s ref db' = []"
      proof (cases "n \<in> s_name ` {s \<in> set (i_symbols db). s_file_path s = ?rel}")
        case True
        then show ?thesis using keep [of ?s ref] new n by auto
      next
        case False
        then have "\<forall>s \<in> set (i_symbols db). symbol_qualified s \<noteq> ref" using plain(1,3) n by (auto simp: symbol_qualified_def qualify_inj)
        then have "load_fact_document ?s ref db = None" by (rule symbol_document_none)
        moreover have "mirrored e ?s ref db" using mirror by (simp add: all_mirrored_def)
        ultimately have "node_documents ?s ref db = []" by (simp add: mirrored_def expected_documents_def)
        then show ?thesis using keep [of ?s ref] new n by auto
      qed
      then show ?thesis using none by (simp add: mirrored_def expected_documents_def)
    qed
  qed
  moreover have "mirrored e ?f ref db'" for ref
  proof (cases "ref = ?rel")
    case False
    have "load_fact_document ?f ref db' = load_fact_document ?f ref db"
      using at [OF False] by (simp add: load_fact_document_def file_document_def)
    then show ?thesis using mirrored_cong [of ?f ref db' db e] keep [of ?f ref] False mirror by (simp add: all_mirrored_def)
  qed (use mine(2) in simp)
  ultimately show ?thesis by (simp add: all_mirrored_def)
qed


section \<open>Removal\<close>

lemma delete_run:
  assumes ok: "index_ok db"
  obtains db' where
    "delete_file rel db = (Inr (if file_at db rel = None then None else Some \<lparr>fl_changed = True, fl_created = False,
       fl_names = btree_set (concat (map (\<lambda>(name, short, _). [name, short]) (stored_of rel db)))\<rparr>), db')"
    "i_files db' = filter (\<lambda>f. f_path f \<noteq> rel) (i_files db)" "i_symbols db' = filter (\<lambda>s. s_file_path s \<noteq> rel) (i_symbols db)"
    "i_edges db' = filter (\<lambda>x. e_source_file x \<noteq> rel) (i_edges db)"
    "i_candidates db' = filter (\<lambda>c. c_edge_id c \<notin> e_id ` {x \<in> set (i_edges db). e_source_file x = rel}) (i_candidates db)"
    "i_patterns db' = filter (\<lambda>p. p_file_path p \<noteq> rel) (i_patterns db)"
    "i_seq db' = i_seq db" "i_summaries db' = i_summaries db" "unique_documents db'"
    "\<And>k n. node_documents k n db' = (if (k, n) = (lit ''file'', rel) \<or> k = lit ''symbol'' \<and> n \<in> qualify rel ` s_name ` {s \<in> set (i_symbols db). s_file_path s = rel}
       then [] else node_documents k n db)"
proof -
  let ?refs = "map (\<lambda>(name, _). qualify rel name) (stored_of rel db)"
  define db1 where "db1 = delete_file_nodes rel ?refs db"
  define db' where "db' = (clear_file rel db1)\<lparr>i_files := filter (\<lambda>f. f_path f \<noteq> rel) (i_files db1)\<rparr>"
  have tables: "same_tables db db1" "i_symbols db1 = i_symbols db" "i_summaries db1 = i_summaries db" "i_seq db1 = i_seq db"
    using same_tables_trans [OF fold_delete_node(1) delete_kept(2)] by (simp_all add: db1_def delete_file_nodes_def fold_delete_node)
  have at: "file_at (clear_file rel db1) rel = file_at db rel" using tables by (simp add: file_at_def clear_file_def same_tables_def)
  have run: "delete_file rel db = (Inr (if file_at db rel = None then None else Some \<lparr>fl_changed = True, fl_created = False,
       fl_names = btree_set (concat (map (\<lambda>(name, short, _). [name, short]) (stored_of rel db)))\<rparr>), db')"
    unfolding delete_file_def using stored_names_ok [OF ok] at
    by (simp add: op_bind_def op_basic_simps op_modify_def db1_def [symmetric] db'_def clear_file_def)
  have docs: "i_documents db' = i_documents db1" by (simp add: db'_def clear_file_def)
  have "unique_documents db1" using ok unique_fold_delete unique_refresh(2) by (simp add: db1_def delete_file_nodes_def index_ok_def)
  then have unique: "unique_documents db'" by (simp add: unique_documents_def docs)
  have refs: "set ?refs = qualify rel ` s_name ` {s \<in> set (i_symbols db). s_file_path s = rel}" by (auto simp: stored_of_def image_iff)
  have "node_documents k n db' = (if (k, n) = (lit ''file'', rel) \<or> k = lit ''symbol'' \<and> n \<in> set ?refs then [] else node_documents k n db)" for k n
  proof -
    have "node_documents k n db' = node_documents k n db1" by (simp add: node_documents_def docs)
    then show ?thesis by (simp add: db1_def delete_file_nodes_def node_documents_delete fold_delete_node(5))
  qed
  then show thesis using that [OF run] tables unique unfolding refs by (simp add: db'_def clear_file_def same_tables_def)
qed

lemma delete_index_ok:
  assumes ok: "index_ok db" and run: "delete_file rel db = (Inr delta, db')"
  shows "index_ok db'"
proof -
  obtain
    files: "i_files db' = filter (\<lambda>f. f_path f \<noteq> rel) (i_files db)" and symbols: "i_symbols db' = filter (\<lambda>s. s_file_path s \<noteq> rel) (i_symbols db)"
    and edges: "i_edges db' = filter (\<lambda>x. e_source_file x \<noteq> rel) (i_edges db)"
    and cands: "i_candidates db' = filter (\<lambda>c. c_edge_id c \<notin> e_id ` {x \<in> set (i_edges db). e_source_file x = rel}) (i_candidates db)"
    and rest: "i_seq db' = i_seq db" "i_summaries db' = i_summaries db" "unique_documents db'"
    by (rule delete_run [OF ok, of rel]) (use run in auto)
  have "c_edge_id c \<in> e_id ` set (i_edges db')" if c: "c \<in> set (i_candidates db')" for c
  proof -
    obtain x where x: "x \<in> set (i_edges db)" "c_edge_id c = e_id x" using c ok by (auto simp: cands index_ok_def list_all_iff)
    then have "e_source_file x \<noteq> rel" using c by (auto simp: cands)
    then have "x \<in> set (i_edges db')" using x(1) by (simp add: edges)
    then show ?thesis using x(2) by simp
  qed
  then show ?thesis
    using ok files symbols edges rest by (auto simp: index_ok_def distinct_map_filter list_all_iff summaries_ok_def)
qed

lemma delete_all_mirrored:
  assumes ok: "index_ok db" and run: "delete_file rel db = (Inr delta, db')" and plain: "plain_path rel" and mirror: "all_mirrored e db"
  shows "all_mirrored e db'"
proof -
  let ?s = "lit ''symbol''" and ?f = "lit ''file''"
  obtain
    files: "i_files db' = filter (\<lambda>f. f_path f \<noteq> rel) (i_files db)" and symbols: "i_symbols db' = filter (\<lambda>s. s_file_path s \<noteq> rel) (i_symbols db)"
    and summaries: "i_summaries db' = i_summaries db"
    and docs: "\<And>k n. node_documents k n db' = (if (k, n) = (?f, rel) \<or> k = ?s \<and> n \<in> qualify rel ` s_name ` {s \<in> set (i_symbols db). s_file_path s = rel}
       then [] else node_documents k n db)"
    by (rule delete_run [OF ok, of rel]) (use run in auto)
  have rows: "node_rows k n db' = node_rows k n db" for k n using summaries by (simp add: node_rows_def)
  have at: "file_at db' p = file_at db p" if "p \<noteq> rel" for p using file_at_filter [of rel db' db p] that files by simp
  have plain': "\<forall>s \<in> set (i_symbols db). plain_path (s_file_path s)" using ok by (auto simp: index_ok_def list_all_iff)
  have "mirrored e ?s ref db'" for ref
  proof (cases "\<exists>n. ref = qualify rel n")
    case False
    have "load_fact_document ?s ref db' = load_fact_document ?s ref db"
      by (rule load_other_file [OF _ at]) (use False symbols in auto)
    moreover have "node_documents ?s ref db' = node_documents ?s ref db" using docs [of ?s ref] False by auto
    ultimately show ?thesis using mirrored_cong [of ?s ref db' db e] rows mirror by (simp add: all_mirrored_def)
  next
    case True
    then obtain n where n: "ref = qualify rel n" by blast
    have "\<forall>s \<in> set (i_symbols db'). symbol_qualified s \<noteq> ref"
      using plain plain' n by (auto simp: symbol_qualified_def qualify_inj symbols)
    then have none: "load_fact_document ?s ref db' = None" by (rule symbol_document_none)
    have "node_documents ?s ref db' = []"
    proof (cases "n \<in> s_name ` {s \<in> set (i_symbols db). s_file_path s = rel}")
      case False
      then have "\<forall>s \<in> set (i_symbols db). symbol_qualified s \<noteq> ref" using plain plain' n by (auto simp: symbol_qualified_def qualify_inj)
      then have "load_fact_document ?s ref db = None" by (rule symbol_document_none)
      moreover have "mirrored e ?s ref db" using mirror by (simp add: all_mirrored_def)
      ultimately have "node_documents ?s ref db = []" by (simp add: mirrored_def expected_documents_def)
      then show ?thesis using docs [of ?s ref] by auto
    qed (use docs [of ?s ref] n in auto)
    then show ?thesis using none by (simp add: mirrored_def expected_documents_def)
  qed
  moreover have "mirrored e ?f ref db'" for ref
  proof (cases "ref = rel")
    case True
    have "file_at db' rel = None" using files by (simp add: file_at_def find_None_mem)
    then show ?thesis using True docs [of ?f rel] by (simp add: mirrored_def expected_documents_def load_fact_document_def file_document_def)
  next
    case False
    have "load_fact_document ?f ref db' = load_fact_document ?f ref db"
      using at [OF False] by (simp add: load_fact_document_def file_document_def)
    then show ?thesis using mirrored_cong [of ?f ref db' db e] rows docs [of ?f ref] False mirror by (simp add: all_mirrored_def)
  qed
  ultimately show ?thesis by (simp add: all_mirrored_def)
qed


lemma write_succeeds:
  assumes "index_ok db" "facts_ok facts"
  shows "\<exists>delta db'. write_file_facts e sr facts small db = (Inr delta, db')"
proof (cases "file_unchanged facts db")
  case True
  then have "write_file_facts e sr facts small db = (Inr no_delta, db)"
    by (simp add: write_file_facts_def op_bind_def op_basic_simps)
  then show ?thesis by blast
next
  case False
  show ?thesis by (rule write_run [OF assms False, of e sr small]) blast
qed

section \<open>Properties\<close>

text \<open>
  C10.  Writing the facts of a file and removing a file never violate a constraint of the schema: on a well-formed
  index they succeed, keep it well formed, and keep the document of every symbol and every file a mirror of
  its facts and of its current summary.
\<close>

theorem index_writes_keep:
  assumes "index_ok db" "facts_ok facts" "all_mirrored e db"
  shows "(\<exists>delta db'. write_file_facts e strip_rust facts filter_small db = (Inr delta, db') \<and> index_ok db' \<and> all_mirrored e db') \<and>
    (\<exists>delta db'. delete_file (ff_rel_path facts) db = (Inr delta, db') \<and> index_ok db' \<and> all_mirrored e db')"
proof
  obtain delta db' where run: "write_file_facts e strip_rust facts filter_small db = (Inr delta, db')"
    using write_succeeds [OF assms(1,2)] by blast
  then show "\<exists>delta db'. write_file_facts e strip_rust facts filter_small db = (Inr delta, db') \<and> index_ok db' \<and> all_mirrored e db'"
    using write_index_ok [OF assms(1,2) run] write_all_mirrored [OF assms(1,2) run assms(3)] by blast
  obtain delta db' where run: "delete_file (ff_rel_path facts) db = (Inr delta, db')"
    by (rule delete_run [OF assms(1), of "ff_rel_path facts"]) (rule that)
  have "plain_path (ff_rel_path facts)" using assms(2) by (simp add: facts_ok_def)
  then show "\<exists>delta db'. delete_file (ff_rel_path facts) db = (Inr delta, db') \<and> index_ok db' \<and> all_mirrored e db'"
    using delete_index_ok [OF assms(1) run] delete_all_mirrored [OF assms(1) run _ assms(3)] run by blast
qed

text \<open>
  C11.  A summary written for an older text of a symbol is not shown any more once the file was written with a
  new text: the current summary of a symbol whose digest differs from the stored one is the one made
  from its new doc string or for a small function, or there is none.
\<close>

theorem no_outdated_summary:
  assumes "index_ok db" "facts_ok facts" "\<not> file_unchanged facts db" "s \<in> set (ff_canonical_symbols facts)"
    and "from_language_id (ff_language_id facts) = Some language"
    and "\<forall>r \<in> set (i_symbols db). s_file_path r = ff_rel_path facts \<and> s_name r = si_name s \<longrightarrow>
      s_hash r \<noteq> Some (symbol_hash (ie_md5 e) (symbol_hash_input strip_rust language (hash_segment s)))"
    and "\<And>short. initial_summary filter_small s = Some short \<Longrightarrow>
      ie_parse e (summary_json short) = Some (JObject [(lit ''short'', JString short), (lit ''full'', JNull)])"
  shows "cs_short (select_current_summary e (lit ''symbol'') (qualify (ff_rel_path facts) (si_name s))
      (snd (write_file_facts e strip_rust facts filter_small db))) = initial_summary filter_small s"
proof -
  obtain db' language' where run: "snd (write_file_facts e strip_rust facts filter_small db) = db'" "from_language_id (ff_language_id facts) = Some language'"
    "\<forall>s \<in> set (ff_canonical_symbols facts). (name_hash (stored_of (ff_rel_path facts) db) (si_name s) \<noteq>
        Some (s_hash (symbol_row_of e strip_rust language' (ff_rel_path facts) s 0)) \<longrightarrow> renewed e filter_small s (qualify (ff_rel_path facts) (si_name s)) db')"
    by (rule write_run [OF assms(1-3), of e strip_rust filter_small]) auto
  have "name_hash (stored_of (ff_rel_path facts) db) (si_name s) \<noteq> Some (s_hash (symbol_row_of e strip_rust language (ff_rel_path facts) s 0))"
  proof
    assume "name_hash (stored_of (ff_rel_path facts) db) (si_name s) = Some (s_hash (symbol_row_of e strip_rust language (ff_rel_path facts) s 0))"
    then have "(si_name s, s_hash (symbol_row_of e strip_rust language (ff_rel_path facts) s 0)) \<in>
        set (map (\<lambda>(name, _, hash). (name, hash)) (stored_of (ff_rel_path facts) db))"
      using map_of_SomeD by fastforce
    then obtain r where "r \<in> set (i_symbols db)" "s_file_path r = ff_rel_path facts" "s_name r = si_name s"
      "s_hash r = s_hash (symbol_row_of e strip_rust language (ff_rel_path facts) s 0)"
      by (auto simp: stored_of_def)
    then show False using assms(6) by (auto simp: symbol_row_of_def)
  qed
  then have "renewed e filter_small s (qualify (ff_rel_path facts) (si_name s)) db'" using run(2,3) assms(4,5) by auto
  then show ?thesis using run(1) assms(7) by (auto simp: renewed_def no_summary_def split: option.splits)
qed

text \<open>The first write of a file with one small function.\<close>


lemma empty_index_ok: "index_ok empty_index" "all_mirrored e empty_index"
proof -
  show "index_ok empty_index" by (simp add: index_ok_def empty_index_def summaries_ok_def unique_documents_def)
  show "all_mirrored e empty_index"
    by (simp add: all_mirrored_def mirrored_def expected_documents_def load_fact_document_def symbol_document_def symbol_fact_def file_document_def
      file_at_def node_documents_def empty_index_def Let_def split: option.split)
qed

definition demo_function :: SymbolInfo where
  "demo_function = \<lparr>si_name = lit ''f'', si_args = lit ''()'', si_sym_type = lit ''function'', si_lineno = 1,
     si_source_segment = lit ''fn f() {}'', si_end_lineno = Some 1, si_docstring = None, si_bases = None, si_hash_source_segment = None\<rparr>"

definition demo_facts :: FileFacts where
  "demo_facts = \<lparr>ff_rel_path = lit ''a.py'', ff_struct_hash = lit ''1'', ff_language_id = lit ''PythonParser'', ff_layer = lit ''Core'',
     ff_imports_json = lit ''[]'', ff_import_bindings_json = lit ''[]'', ff_identity = \<lparr>ci_contract_version = [], ci_backend = [], ci_environment = []\<rparr>,
     ff_canonical_symbols = [demo_function], ff_occurrences = [], ff_edges = [], ff_patterns = []\<rparr>"

lemma demo_facts_ok: "facts_ok demo_facts" "from_language_id (ff_language_id demo_facts) = Some Python" "\<not> file_unchanged demo_facts empty_index"
proof -
  show "from_language_id (ff_language_id demo_facts) = Some Python" by code_simp
  then show "facts_ok demo_facts"
    by (simp add: facts_ok_def) code_simp
  show "\<not> file_unchanged demo_facts empty_index" by code_simp
qed

definition small_env :: index_env where
  "small_env = demo_env\<lparr>ie_parse := (\<lambda>text. if text = summary_json (lit ''Small utility function.'')
     then Some (JObject [(lit ''short'', JString (lit ''Small utility function.'')), (lit ''full'', JNull)]) else None)\<rparr>"

theorem index_writes_keep_witness:
  "index_ok empty_index \<and> facts_ok demo_facts \<and> all_mirrored demo_env empty_index \<and>
   (\<exists>delta db'. write_file_facts demo_env id demo_facts True empty_index = (Inr delta, db') \<and> index_ok db' \<and> all_mirrored demo_env db')"
  using index_writes_keep [OF empty_index_ok(1) demo_facts_ok(1) empty_index_ok(2) [of demo_env], of id True] empty_index_ok demo_facts_ok by blast

lemma demo_initial: "initial_summary True demo_function = Some (lit ''Small utility function.'')"
  by code_simp

theorem no_outdated_summary_witness:
  "cs_short (select_current_summary small_env (lit ''symbol'') (qualify (lit ''a.py'') (lit ''f''))
      (snd (write_file_facts small_env id demo_facts True empty_index))) = Some (lit ''Small utility function.'')"
proof -
  have "cs_short (select_current_summary small_env (lit ''symbol'') (qualify (ff_rel_path demo_facts) (si_name demo_function))
      (snd (write_file_facts small_env id demo_facts True empty_index))) = initial_summary True demo_function"
  proof (rule no_outdated_summary [OF empty_index_ok(1) demo_facts_ok(1,3) _ demo_facts_ok(2)])
    show "demo_function \<in> set (ff_canonical_symbols demo_facts)" by (simp add: demo_facts_def)
    fix short assume "initial_summary True demo_function = Some short"
    then show "ie_parse small_env (summary_json short) = Some (JObject [(lit ''short'', JString short), (lit ''full'', JNull)])"
      by (simp add: demo_initial small_env_def)
  qed (simp add: empty_index_def)
  then show ?thesis by (simp add: demo_initial) (simp add: demo_facts_def demo_function_def)
qed

end
