(* ===== verification/ScanFacts.thy ===== *)
theory ScanFacts
  imports ScanFiles WriterInvariant
begin

text \<open>
  The facts that parsing a file gives meet what the writer needs of them: one symbol per name, distinct
  occurrence indices with at most one canonical occurrence per name, and a registered language.
\<close>

section \<open>Parsed facts\<close>

lemma key_disjoint:
  assumes "distinct (n # ns)" "\<And>m x. m \<in> set (n # ns) \<Longrightarrow> x \<in> set (h m) \<Longrightarrow> key x = m" "x \<in> set (h n)" "y \<in> set (concat (map h ns))"
  shows "key x \<noteq> key y"
proof -
  obtain m where m: "m \<in> set ns" "y \<in> set (h m)" using assms(4) by auto
  then have "key y = m" using assms(2) by simp
  moreover have "key x = n" using assms(2,3) by simp
  ultimately show ?thesis using m(1) assms(1) by auto
qed

lemma distinct_concat_keyed:
  "distinct ns \<Longrightarrow> (\<And>n x. n \<in> set ns \<Longrightarrow> x \<in> set (h n) \<Longrightarrow> key x = n) \<Longrightarrow> (\<And>n. n \<in> set ns \<Longrightarrow> distinct (map g (h n))) \<Longrightarrow>
   distinct (map (\<lambda>x. (key x, g x)) (concat (map h ns)))"
proof (induction ns)
  case (Cons n ns)
  have "distinct (map (\<lambda>x. (key x, g x)) (h n))" using Cons.prems(3) [of n] by (simp add: distinct_map inj_on_def)
  moreover have "distinct (map (\<lambda>x. (key x, g x)) (concat (map h ns)))" using Cons.IH Cons.prems by simp
  moreover have "(\<lambda>x. (key x, g x)) ` set (h n) \<inter> (\<lambda>x. (key x, g x)) ` set (concat (map h ns)) = {}"
    using key_disjoint [OF Cons.prems(1), where h = h and key = key] Cons.prems(2) by blast
  ultimately show ?case by simp
qed simp

lemma distinct_concat_single:
  "distinct ns \<Longrightarrow> (\<And>n x. n \<in> set ns \<Longrightarrow> x \<in> set (h n) \<Longrightarrow> key x = n) \<Longrightarrow> (\<And>n. n \<in> set ns \<Longrightarrow> length (filter P (h n)) \<le> 1) \<Longrightarrow>
   distinct (map key (filter P (concat (map h ns))))"
proof (induction ns)
  case (Cons n ns)
  have "distinct (map key (filter P (h n)))"
    using Cons.prems(3) [of n] by (cases "filter P (h n)") simp_all
  moreover have "distinct (map key (filter P (concat (map h ns))))" using Cons.IH Cons.prems by simp
  moreover have "key ` set (filter P (h n)) \<inter> key ` set (filter P (concat (map h ns))) = {}"
    using key_disjoint [OF Cons.prems(1), where h = h and key = key] Cons.prems(2) unfolding set_filter by blast
  ultimately show ?case by simp
qed simp

lemma select_group_occurrences:
  "distinct (map so_occurrence_index (snd (select_group g)))"
  "x \<in> set (snd (select_group g)) \<Longrightarrow> so_conflict_kind x = classify g"
  by (auto simp: select_group_def Let_def comp_def split_def split: if_splits)

lemma selected_occurrences_ok: "occurrences_ok (map (occurrence_of e language) (occurrences (select_symbols xs)))"
proof -
  let ?ns = "btree_set (map si_name xs)" and ?h = "\<lambda>n. snd (select_group (name_group xs n))"
  have name: "si_name (so_symbol x) = n" if "n \<in> set ?ns" "x \<in> set (?h n)" for n x
  proof -
    have m: "n \<in> si_name ` set xs" using that(1) by simp
    have "so_symbol x \<in> set (map so_symbol (?h n))" using that(2) by simp
    then have "so_symbol x \<in> set (name_group xs n)" unfolding picked_spec(6) [OF m] by (simp split: if_splits)
    then show ?thesis by (simp add: name_group_facts(1))
  qed
  have single: "length (filter so_is_canonical (?h n)) \<le> 1" if "n \<in> set ?ns" for n
  proof -
    have "length (map so_symbol (filter so_is_canonical (?h n))) \<le> 1" using picked_spec(7) [of n xs] that by simp
    then show ?thesis by simp
  qed
  have "distinct (map (\<lambda>x. (si_name (so_symbol x), so_occurrence_index x)) (concat (map ?h ?ns)))"
    by (rule distinct_concat_keyed) (use name select_group_occurrences(1) in auto)
  then have "distinct (map (\<lambda>(n, i). (n, int i)) (map (\<lambda>x. (si_name (so_symbol x), so_occurrence_index x)) (concat (map ?h ?ns))))"
    by (subst distinct_map) (auto simp: inj_on_def)
  then have keys: "distinct (map (\<lambda>x. (si_name (or_symbol x), or_occurrence_index x)) (map (occurrence_of e language) (concat (map ?h ?ns))))"
    by (simp add: comp_def occurrence_of_def)
  have "distinct (map (\<lambda>x. si_name (so_symbol x)) (filter so_is_canonical (concat (map ?h ?ns))))"
    by (rule distinct_concat_single) (use name single in auto)
  then have canonical: "distinct (map (\<lambda>x. si_name (or_symbol x)) (filter or_is_canonical (map (occurrence_of e language) (concat (map ?h ?ns)))))"
    by (simp add: filter_map comp_def occurrence_of_def)
  have "so_conflict_kind x \<in> set [lit ''type_variant'', lit ''signature_variant'', lit ''duplicate_definition'']" if "x \<in> set (concat (map ?h ?ns))" for x
    using that select_group_occurrences(2) by (fastforce simp: classify_def TYPE_VARIANT_def SIGNATURE_VARIANT_def DUPLICATE_DEFINITION_def)
  then show ?thesis
    unfolding select_symbols_groups(2) occurrences_ok_def using keys canonical
    by (auto simp: list_all_iff occurrence_of_def)
qed

lemma canonical_names_distinct: "distinct (map si_name (canonical_symbols (select_symbols xs)))"
proof -
  have "map si_name (map (picked xs) (btree_set (map si_name xs))) = btree_set (map si_name xs)"
    using picked_spec(3) by (auto intro!: map_idI)
  then have "mset (map si_name (canonical_symbols (select_symbols xs))) = mset (btree_set (map si_name xs))"
    unfolding canonical_symbols_picked by (metis mset_map mset_sort)
  then show ?thesis by (metis distinct_btree_set mset_eq_imp_distinct_iff)
qed

lemma parse_one_ok:
  assumes "plain_path rel" "parse_one e cfg (rel, full) = Facts facts"
  shows "facts_ok facts \<and> ff_rel_path facts = rel"
  using assms by (auto simp: parse_one_def facts_ok_def Let_def canonical_names_distinct selected_occurrences_ok split: option.splits)

end
