(* ===== verification/ScanTracking.thy ===== *)
theory ScanTracking
  imports ScanFacts
begin

text \<open>
  The change set of an incremental scan covers every row the scan changed, so that the targeted resolution
  that follows gives what resolving everything would.
\<close>

section \<open>Rows and their files\<close>

text \<open>Symbols, edges and patterns belong to files of the index, whose paths do not hold the separator of references.\<close>

definition rows_owned :: "index_db \<Rightarrow> bool" where
  "rows_owned db \<longleftrightarrow>
     list_all (\<lambda>s. s_file_path s \<in> f_path ` set (i_files db)) (i_symbols db) \<and>
     list_all (\<lambda>x. e_source_file x \<in> f_path ` set (i_files db)) (i_edges db) \<and>
     list_all (\<lambda>p. p_file_path p \<in> f_path ` set (i_files db)) (i_patterns db) \<and>
     list_all (\<lambda>f. plain_path (f_path f)) (i_files db)"

lemma owned_step:
  assumes "rows_owned db"
    and "filter (\<lambda>f. f_path f \<noteq> rel) (i_files db') = filter (\<lambda>f. f_path f \<noteq> rel) (i_files db)"
    and "filter (\<lambda>s. s_file_path s \<noteq> rel) (i_symbols db') = filter (\<lambda>s. s_file_path s \<noteq> rel) (i_symbols db)"
    and "filter (\<lambda>x. e_source_file x \<noteq> rel) (i_edges db') = filter (\<lambda>x. e_source_file x \<noteq> rel) (i_edges db)"
    and "filter (\<lambda>p. p_file_path p \<noteq> rel) (i_patterns db') = filter (\<lambda>p. p_file_path p \<noteq> rel) (i_patterns db)"
    and present: "rel \<in> f_path ` set (i_files db') \<or> rel \<notin> s_file_path ` set (i_symbols db') \<and> rel \<notin> e_source_file ` set (i_edges db') \<and>
      rel \<notin> p_file_path ` set (i_patterns db')"
    and "plain_path rel"
  shows "rows_owned db'"
proof -
  have files: "f \<in> set (i_files db') \<longleftrightarrow> f \<in> set (i_files db)" if "f_path f \<noteq> rel" for f
    using arg_cong [OF assms(2), of set] that by auto
  have symbols: "s \<in> set (i_symbols db') \<longleftrightarrow> s \<in> set (i_symbols db)" if "s_file_path s \<noteq> rel" for s
    using arg_cong [OF assms(3), of set] that by auto
  have edges: "x \<in> set (i_edges db') \<longleftrightarrow> x \<in> set (i_edges db)" if "e_source_file x \<noteq> rel" for x
    using arg_cong [OF assms(4), of set] that by auto
  have patterns: "x \<in> set (i_patterns db') \<longleftrightarrow> x \<in> set (i_patterns db)" if "p_file_path x \<noteq> rel" for x
    using arg_cong [OF assms(5), of set] that by auto
  have path: "p \<in> f_path ` set (i_files db')" if "p \<noteq> rel" "p \<in> f_path ` set (i_files db)" for p
    using that files by (metis (no_types, lifting) image_iff)
  have "s_file_path s \<in> f_path ` set (i_files db')" if "s \<in> set (i_symbols db')" for s
  proof (cases "s_file_path s = rel")
    case True
    then show ?thesis using present that by blast
  next
    case False
    then show ?thesis using path symbols that assms(1) by (simp add: rows_owned_def list_all_iff)
  qed
  moreover have "e_source_file x \<in> f_path ` set (i_files db')" if "x \<in> set (i_edges db')" for x
  proof (cases "e_source_file x = rel")
    case True
    then show ?thesis using present that by blast
  next
    case False
    then show ?thesis using path edges that assms(1) by (simp add: rows_owned_def list_all_iff)
  qed
  moreover have "p_file_path x \<in> f_path ` set (i_files db')" if "x \<in> set (i_patterns db')" for x
  proof (cases "p_file_path x = rel")
    case True
    then show ?thesis using present that by blast
  next
    case False
    then show ?thesis using path patterns that assms(1) by (simp add: rows_owned_def list_all_iff)
  qed
  moreover have "plain_path (f_path f)" if "f \<in> set (i_files db')" for f
    using files [of f] that assms(1,7) by (cases "f_path f = rel") (auto simp: rows_owned_def list_all_iff)
  ultimately show ?thesis by (simp add: rows_owned_def list_all_iff)
qed

section \<open>The change set\<close>

abbreviation names_recorded :: "ucs list \<Rightarrow> symbol_row \<Rightarrow> bool" where
  "names_recorded names s \<equiv> s_name s \<in> set names \<and> (case s_short_name s of None \<Rightarrow> True | Some n \<Rightarrow> n \<in> set names)"

text \<open>What holds of the change set and of the two indices after every write and removal.\<close>

definition tracked :: "ScanDelta \<Rightarrow> index_db \<Rightarrow> index_db \<Rightarrow> bool" where
  "tracked delta db0 db \<longleftrightarrow>
     filter (\<lambda>f. f_path f \<notin> set (touched_files delta)) (i_files db) = filter (\<lambda>f. f_path f \<notin> set (touched_files delta)) (i_files db0) \<and>
     filter (\<lambda>s. s_file_path s \<notin> set (touched_files delta)) (i_symbols db) = filter (\<lambda>s. s_file_path s \<notin> set (touched_files delta)) (i_symbols db0) \<and>
     filter (\<lambda>x. e_source_file x \<notin> set (touched_files delta)) (i_edges db) = filter (\<lambda>x. e_source_file x \<notin> set (touched_files delta)) (i_edges db0) \<and>
     (\<forall>x \<in> set (i_edges db). e_source_file x \<notin> set (touched_files delta) \<longrightarrow> rows_for (e_id x) db = rows_for (e_id x) db0) \<and>
     (\<forall>c \<in> set (i_candidates db). \<exists>x \<in> set (i_edges db). direct x \<and> e_id x = c_edge_id c) \<and>
     (\<forall>s \<in> set (i_symbols db) \<union> set (i_symbols db0). s_file_path s \<in> set (touched_files delta) \<longrightarrow> names_recorded (delta_names delta) s) \<and>
     (\<forall>p \<in> f_path ` set (i_files db) - f_path ` set (i_files db0). is_py p \<longrightarrow> p \<in> set (added_py delta)) \<and>
     (\<forall>p \<in> f_path ` set (i_files db0) - f_path ` set (i_files db). is_py p \<longrightarrow> p \<in> set (removed_py delta))"

lemma filter_one_more:
  "filter (\<lambda>x. k x \<notin> set (ts @ [r])) xs = filter (\<lambda>x. k x \<notin> set ts) (filter (\<lambda>x. k x \<noteq> r) xs)"
  "filter (\<lambda>x. k x \<notin> set (ts @ [r])) xs = filter (\<lambda>x. k x \<noteq> r) (filter (\<lambda>x. k x \<notin> set ts) xs)"
  by (auto intro!: filter_cong)

lemma filter_step:
  assumes "filter (\<lambda>x. k x \<notin> set ts) xs = filter (\<lambda>x. k x \<notin> set ts) xs0" "filter (\<lambda>x. k x \<noteq> r) xs' = filter (\<lambda>x. k x \<noteq> r) xs"
  shows "filter (\<lambda>x. k x \<notin> set (ts @ [r])) xs' = filter (\<lambda>x. k x \<notin> set (ts @ [r])) xs0"
  by (metis filter_one_more assms)

lemma tracked_step:
  assumes t: "tracked delta db0 db" and ids: "distinct (map e_id (i_edges db))"
    and files: "filter (\<lambda>f. f_path f \<noteq> rel) (i_files db') = filter (\<lambda>f. f_path f \<noteq> rel) (i_files db)"
    and symbols: "filter (\<lambda>s. s_file_path s \<noteq> rel) (i_symbols db') = filter (\<lambda>s. s_file_path s \<noteq> rel) (i_symbols db)"
    and edges: "filter (\<lambda>x. e_source_file x \<noteq> rel) (i_edges db') = filter (\<lambda>x. e_source_file x \<noteq> rel) (i_edges db)"
    and cands: "i_candidates db' = filter (\<lambda>c. c_edge_id c \<notin> e_id ` {x \<in> set (i_edges db). e_source_file x = rel}) (i_candidates db)"
    and delta': "touched_files delta' = touched_files delta @ [rel]" "delta_names delta' = delta_names delta @ N"
      "set (added_py delta) \<subseteq> set (added_py delta')" "set (removed_py delta) \<subseteq> set (removed_py delta')"
    and names: "\<And>s. s \<in> set (i_symbols db) \<union> set (i_symbols db') \<Longrightarrow> s_file_path s = rel \<Longrightarrow> names_recorded N s"
    and came: "is_py rel \<Longrightarrow> rel \<notin> f_path ` set (i_files db) \<Longrightarrow> rel \<in> f_path ` set (i_files db') \<Longrightarrow> rel \<in> set (added_py delta')"
    and went: "is_py rel \<Longrightarrow> rel \<in> f_path ` set (i_files db) \<Longrightarrow> rel \<notin> f_path ` set (i_files db') \<Longrightarrow> rel \<in> set (removed_py delta')"
  shows "tracked delta' db0 db'"
proof -
  let ?T = "set (touched_files delta)"
  have T: "set (touched_files delta') = insert rel ?T" using delta'(1) by simp
  have same: "filter (\<lambda>f. f_path f \<notin> set (touched_files delta')) (i_files db') = filter (\<lambda>f. f_path f \<notin> set (touched_files delta')) (i_files db0)"
    "filter (\<lambda>s. s_file_path s \<notin> set (touched_files delta')) (i_symbols db') = filter (\<lambda>s. s_file_path s \<notin> set (touched_files delta')) (i_symbols db0)"
    "filter (\<lambda>x. e_source_file x \<notin> set (touched_files delta')) (i_edges db') = filter (\<lambda>x. e_source_file x \<notin> set (touched_files delta')) (i_edges db0)"
    unfolding delta'(1) using t filter_step [OF _ files] filter_step [OF _ symbols] filter_step [OF _ edges] by (simp_all only: tracked_def)
  have path: "p \<in> f_path ` set (i_files db') \<longleftrightarrow> p \<in> f_path ` set (i_files db)" if "p \<noteq> rel" for p
  proof -
    have "f \<in> set (i_files db') \<longleftrightarrow> f \<in> set (i_files db)" if "f_path f \<noteq> rel" for f using arg_cong [OF files, of set] that by auto
    then show ?thesis using that by (metis (no_types, lifting) image_iff)
  qed
  have sym: "s \<in> set (i_symbols db') \<longleftrightarrow> s \<in> set (i_symbols db)" if "s_file_path s \<noteq> rel" for s using arg_cong [OF symbols, of set] that by auto
  have old: "s \<in> set (i_symbols db0) \<longleftrightarrow> s \<in> set (i_symbols db)" if "s_file_path s \<notin> ?T" for s
  proof -
    have "set (filter (\<lambda>s. s_file_path s \<notin> ?T) (i_symbols db)) = set (filter (\<lambda>s. s_file_path s \<notin> ?T) (i_symbols db0))"
      using t by (simp add: tracked_def)
    then show ?thesis using that by auto
  qed
  have edge: "x \<in> set (i_edges db') \<longleftrightarrow> x \<in> set (i_edges db)" if "e_source_file x \<noteq> rel" for x using arg_cong [OF edges, of set] that by auto
  have rows: "rows_for (e_id x) db' = rows_for (e_id x) db0" if x: "x \<in> set (i_edges db')" "e_source_file x \<notin> insert rel ?T" for x
  proof -
    have m: "x \<in> set (i_edges db)" using edge x by simp
    have "e_id x \<notin> e_id ` {x \<in> set (i_edges db). e_source_file x = rel}" using ids m x(2) by (auto simp: distinct_map inj_on_def)
    then have "rows_for (e_id x) db' = rows_for (e_id x) db" unfolding rows_for_def cands filter_filter by (intro filter_cong) metis+
    then show ?thesis using t m x(2) by (simp add: tracked_def)
  qed
  have own: "\<exists>x \<in> set (i_edges db'). direct x \<and> e_id x = c_edge_id c" if c: "c \<in> set (i_candidates db')" for c
  proof -
    obtain x where x: "x \<in> set (i_edges db)" "direct x" "e_id x = c_edge_id c" using c t cands by (auto simp: tracked_def)
    have "c_edge_id c \<notin> e_id ` {x \<in> set (i_edges db). e_source_file x = rel}" using c by (simp add: cands)
    then have "e_source_file x \<noteq> rel" using x by (metis (mono_tags, lifting) image_eqI mem_Collect_eq)
    then show ?thesis using x edge by blast
  qed
  have recorded: "names_recorded (delta_names delta') s" if s: "s \<in> set (i_symbols db') \<union> set (i_symbols db0)" "s_file_path s \<in> insert rel ?T" for s
  proof (cases "s_file_path s \<in> ?T \<and> (s_file_path s \<noteq> rel \<or> s \<in> set (i_symbols db0))")
    case True
    then have "names_recorded (delta_names delta) s" using t s sym by (auto simp: tracked_def)
    then show ?thesis by (auto simp: delta'(2) split: option.splits)
  next
    case False
    then have "s_file_path s = rel" "s \<in> set (i_symbols db) \<union> set (i_symbols db')" using s old by auto
    from names [OF this(2,1)] show ?thesis by (auto simp: delta'(2) split: option.splits)
  qed
  have "p \<in> set (added_py delta')" if "p \<in> f_path ` set (i_files db')" "p \<notin> f_path ` set (i_files db0)" "is_py p" for p
  proof (cases "p \<in> f_path ` set (i_files db)")
    case True
    then have "p \<in> set (added_py delta)" using that t by (auto simp: tracked_def)
    then show ?thesis using delta'(3) by blast
  next
    case False
    then show ?thesis using came that path by metis
  qed
  moreover have "p \<in> set (removed_py delta')" if "p \<in> f_path ` set (i_files db0)" "p \<notin> f_path ` set (i_files db')" "is_py p" for p
  proof (cases "p \<in> f_path ` set (i_files db)")
    case True
    then show ?thesis using went that path by metis
  next
    case False
    then have "p \<in> set (removed_py delta)" using that t by (auto simp: tracked_def)
    then show ?thesis using delta'(4) by blast
  qed
  ultimately show ?thesis
    unfolding tracked_def using same rows own recorded by (simp add: T)
qed

section \<open>The two operations\<close>

lemma filter_none: "r \<notin> k ` set xs \<Longrightarrow> filter (\<lambda>x. k x \<noteq> r) xs = xs"
  by (auto simp: filter_id_conv)

lemma stored_names_listed:
  assumes "s \<in> set (i_symbols db)" "s_file_path s = rel" "index_ok db"
  shows "names_recorded (concat (map (\<lambda>(name, short, _). [name, short]) (stored_of rel db))) s"
proof -
  obtain short where "s_short_name s = Some short" using assms by (auto simp: index_ok_def list_all_iff)
  then have "(s_name s, short, s_hash s) \<in> set (stored_of rel db)" using assms(1,2) by (auto simp: stored_of_def intro!: image_eqI [where x = s])
  then show ?thesis using \<open>s_short_name s = Some short\<close> by force
qed

lemma write_tracked:
  assumes ok: "index_ok db" "facts_ok facts" "rows_owned db"
    and run: "write_file_facts e sr facts small db = (Inr fd, db')"
  shows "rows_owned db' \<and> (tracked delta db0 db \<longrightarrow> tracked (record_written (ff_rel_path facts) fd delta) db0 db')"
proof (cases "file_unchanged facts db")
  case True
  then have "db' = db" "fd = no_delta" using run by (auto simp: write_file_facts_def op_bind_def op_basic_simps)
  then show ?thesis using ok by (simp add: record_written_def no_delta_def)
next
  case False
  let ?rel = "ff_rel_path facts" and ?stored = "stored_of (ff_rel_path facts) db"
  obtain ks language where
    fd: "fd = delta_of facts (file_at db ?rel \<noteq> None) ?stored"
    and paths: "f_path ` set (i_files db') = insert ?rel (f_path ` set (i_files db))"
    and files: "filter (\<lambda>f. f_path f \<noteq> ?rel) (i_files db') = filter (\<lambda>f. f_path f \<noteq> ?rel) (i_files db)"
    and patterns: "filter (\<lambda>p. p_file_path p \<noteq> ?rel) (i_patterns db') = filter (\<lambda>p. p_file_path p \<noteq> ?rel) (i_patterns db)"
    and ks: "length ks = length (ff_canonical_symbols facts)"
    and symbols: "i_symbols db' = filter (\<lambda>s. s_file_path s \<noteq> ?rel) (i_symbols db) @ map2 (symbol_row_of e sr language ?rel) (ff_canonical_symbols facts) ks"
    and edges: "i_edges db' = filter (\<lambda>x. e_source_file x \<noteq> ?rel) (i_edges db) @ edge_rows ?rel (seq_edges (i_seq db)) (ff_edges facts)"
    and cands: "i_candidates db' = filter (\<lambda>c. c_edge_id c \<notin> e_id ` {x \<in> set (i_edges db). e_source_file x = ?rel}) (i_candidates db)"
    by (rule write_run [OF ok(1,2) False, of e sr small]) (use run in auto)
  let ?new = "map2 (symbol_row_of e sr language ?rel) (ff_canonical_symbols facts) ks"
  note rows = map2_row_facts(2) [OF ks, where e = e and sr = sr and l = language and rel = ?rel]
  have other: "filter (\<lambda>s. s_file_path s \<noteq> ?rel) (i_symbols db') = filter (\<lambda>s. s_file_path s \<noteq> ?rel) (i_symbols db)"
    "filter (\<lambda>x. e_source_file x \<noteq> ?rel) (i_edges db') = filter (\<lambda>x. e_source_file x \<noteq> ?rel) (i_edges db)"
    using rows edge_rows_facts(1) by (auto simp: symbols edges filter_empty_conv)
  have names: "names_recorded (fl_names fd) s" if s: "s \<in> set (i_symbols db) \<union> set (i_symbols db')" "s_file_path s = ?rel" for s
  proof (cases "s \<in> set (i_symbols db)")
    case True
    then show ?thesis using stored_names_listed [OF True s(2) ok(1)] by (auto simp: fd delta_of_def split: option.splits)
  next
    case False
    then have "s \<in> set ?new" using s by (auto simp: symbols)
    from rows [OF this] show ?thesis by (auto simp: fd delta_of_def)
  qed
  have "tracked (record_written ?rel fd delta) db0 db'" if t: "tracked delta db0 db"
  proof (rule tracked_step [OF t _ files other cands])
    show "distinct (map e_id (i_edges db))" using ok(1) by (simp add: index_ok_def)
    show "touched_files (record_written ?rel fd delta) = touched_files delta @ [?rel]"
      "delta_names (record_written ?rel fd delta) = delta_names delta @ fl_names fd"
      "set (added_py delta) \<subseteq> set (added_py (record_written ?rel fd delta))"
      "set (removed_py delta) \<subseteq> set (removed_py (record_written ?rel fd delta))"
      by (auto simp: record_written_def fd delta_of_def)
    assume "is_py ?rel" "?rel \<notin> f_path ` set (i_files db)"
    moreover have "file_at db ?rel = None" using \<open>?rel \<notin> f_path ` set (i_files db)\<close> unfolding file_at_def find_None_mem by (metis image_eqI)
    ultimately show "?rel \<in> set (added_py (record_written ?rel fd delta))" by (simp add: record_written_def fd delta_of_def)
  qed (use names paths in auto)
  moreover have "rows_owned db'"
    by (rule owned_step [OF ok(3) files other patterns]) (use paths ok(2) in \<open>auto simp: facts_ok_def\<close>)
  ultimately show ?thesis by blast
qed

lemma remove_tracked:
  assumes ok: "index_ok db" "rows_owned db" "plain_path rel"
    and run: "delete_file rel db = (Inr r, db')"
  shows "rows_owned db' \<and> (tracked delta db0 db \<longrightarrow> tracked (case r of None \<Rightarrow> delta | Some fd \<Rightarrow> record_removed rel fd delta) db0 db')"
proof -
  let ?names = "concat (map (\<lambda>(name, short, _). [name, short]) (stored_of rel db))"
  obtain
    r: "r = (if file_at db rel = None then None else Some \<lparr>fl_changed = True, fl_created = False, fl_names = btree_set ?names\<rparr>)"
    and files: "i_files db' = filter (\<lambda>f. f_path f \<noteq> rel) (i_files db)" and symbols: "i_symbols db' = filter (\<lambda>s. s_file_path s \<noteq> rel) (i_symbols db)"
    and edges: "i_edges db' = filter (\<lambda>x. e_source_file x \<noteq> rel) (i_edges db)"
    and cands: "i_candidates db' = filter (\<lambda>c. c_edge_id c \<notin> e_id ` {x \<in> set (i_edges db). e_source_file x = rel}) (i_candidates db)"
    and patterns: "i_patterns db' = filter (\<lambda>p. p_file_path p \<noteq> rel) (i_patterns db)"
    by (rule delete_run [OF ok(1), of rel]) (use run in auto)
  have other: "filter (\<lambda>f. f_path f \<noteq> rel) (i_files db') = filter (\<lambda>f. f_path f \<noteq> rel) (i_files db)"
    "filter (\<lambda>s. s_file_path s \<noteq> rel) (i_symbols db') = filter (\<lambda>s. s_file_path s \<noteq> rel) (i_symbols db)"
    "filter (\<lambda>x. e_source_file x \<noteq> rel) (i_edges db') = filter (\<lambda>x. e_source_file x \<noteq> rel) (i_edges db)"
    by (simp_all add: files symbols edges)
  have "rows_owned db'"
    by (rule owned_step [OF ok(2) other _ _ ok(3)]) (auto simp: symbols edges patterns)
  moreover have "tracked (case r of None \<Rightarrow> delta | Some fd \<Rightarrow> record_removed rel fd delta) db0 db'" if t: "tracked delta db0 db"
  proof (cases "file_at db rel")
    case None
    then have gone: "rel \<notin> f_path ` set (i_files db)" by (auto simp: file_at_def find_None_mem)
    from gone have "rel \<notin> s_file_path ` set (i_symbols db)" "rel \<notin> e_source_file ` set (i_edges db)"
      using ok(2) by (auto simp: rows_owned_def list_all_iff)
    then have "i_files db' = i_files db" "i_symbols db' = i_symbols db" "i_edges db' = i_edges db" "i_candidates db' = i_candidates db"
      using gone by (auto simp: files symbols edges cands filter_none filter_id_conv)
    then show ?thesis using t None by (simp add: r tracked_def rows_for_def)
  next
    case (Some f)
    show ?thesis unfolding r Some option.simps if_False
    proof (rule tracked_step [OF t _ other cands, where N = "btree_set ?names"])
      show "distinct (map e_id (i_edges db))" using ok(1) by (simp add: index_ok_def)
      fix s assume "s \<in> set (i_symbols db) \<union> set (i_symbols db')" "s_file_path s = rel"
      then have "s \<in> set (i_symbols db)" "s_file_path s = rel" by (auto simp: symbols)
      from stored_names_listed [OF this ok(1)] show "names_recorded (btree_set ?names) s" by (simp split: option.splits)
    qed (auto simp: record_removed_def files)
  qed
  ultimately show ?thesis by blast
qed

end
