(* ===== verification/ScanRuns.thy ===== *)
theory ScanRuns
  imports ScanTracking
begin

text \<open>
  The write loops of a scan as a whole: they do not fail, keep the index well formed and its documents a mirror
  of it, and an incremental scan hands the resolution a change set that covers what it changed.
\<close>

section \<open>Loops\<close>

lemma op_get_bind: "op_bind (op_get g) k s = k (g s) s"
  by (simp add: op_bind_def op_basic_simps)

lemma op_fold_keeps:
  assumes "\<And>x acc s. x \<in> set xs \<Longrightarrow> I acc s \<Longrightarrow> \<exists>acc' s'. f x acc s = (Inr acc', s') \<and> I acc' s'" "I acc s"
  shows "\<exists>acc' s'. op_fold f xs acc s = (Inr acc', s') \<and> I acc' s'"
  using assms
proof (induction xs arbitrary: acc s)
  case (Cons x xs)
  obtain acc' s' where one: "f x acc s = (Inr acc', s')" "I acc' s'" using Cons.prems(1) [of x, OF _ Cons.prems(2)] by auto
  have "\<exists>acc'' s''. op_fold f xs acc' s' = (Inr acc'', s'') \<and> I acc'' s''" by (rule Cons.IH [OF Cons.prems(1) one(2)]) simp_all
  then show ?case using one(1) by (simp add: op_bind_Inr)
qed (simp add: op_basic_simps)

text \<open>The index is well formed, and in a scan that tracks changes the change set fits the index before it.\<close>

definition scan_ok :: "scan_env \<Rightarrow> bool \<Rightarrow> index_db \<Rightarrow> scan_state \<Rightarrow> index_db \<Rightarrow> bool" where
  "scan_ok e watched db0 st db \<longleftrightarrow> index_ok db \<and> rows_owned db \<and> all_mirrored (sc_index e) db \<and> (watched \<longrightarrow> tracked (ss_delta st) db0 db)"

lemma remove_path_keeps:
  assumes "plain_path rel" "scan_ok e watched db0 st db"
  shows "\<exists>st' db'. remove_path rel st db = (Inr st', db') \<and> scan_ok e watched db0 st' db'"
proof -
  have ok: "index_ok db" "rows_owned db" "watched \<longrightarrow> tracked (ss_delta st) db0 db" "all_mirrored (sc_index e) db" using assms(2) by (simp_all add: scan_ok_def)
  obtain r db' where run: "delete_file rel db = (Inr r, db')" by (rule delete_run [OF ok(1), of rel]) (rule that)
  let ?st = "case r of None \<Rightarrow> st | Some fd \<Rightarrow> st\<lparr>ss_deleted := ss_deleted st @ [rel], ss_delta := record_removed rel fd (ss_delta st)\<rparr>"
  have "ss_delta ?st = (case r of None \<Rightarrow> ss_delta st | Some fd \<Rightarrow> record_removed rel fd (ss_delta st))" by (simp split: option.split)
  moreover have "rows_owned db'" "watched \<longrightarrow> tracked (case r of None \<Rightarrow> ss_delta st | Some fd \<Rightarrow> record_removed rel fd (ss_delta st)) db0 db'"
    using remove_tracked [OF ok(1,2) assms(1) run] ok(3) by blast+
  moreover have "index_ok db'" "all_mirrored (sc_index e) db'"
    using delete_index_ok [OF ok(1) run] delete_all_mirrored [OF ok(1) run assms(1) ok(4)] by simp_all
  ultimately have "scan_ok e watched db0 ?st db'" by (simp add: scan_ok_def)
  moreover have "remove_path rel st db = (Inr ?st, db')" by (simp add: remove_path_def op_bind_Inr [where m = "delete_file rel", OF run] op_basic_simps)
  ultimately show ?thesis by blast
qed

definition outcome_ok :: "FileOutcome \<Rightarrow> bool" where
  "outcome_ok outcome \<longleftrightarrow> (case outcome of FailedFile _ _ \<Rightarrow> True | Facts facts \<Rightarrow> facts_ok facts)"

lemma write_outcome_keeps:
  assumes "outcome_ok outcome" "scan_ok e watched db0 st db"
  shows "\<exists>st' db'. write_outcome e small outcome st db = (Inr st', db') \<and> scan_ok e watched db0 st' db'"
proof (cases outcome)
  case (FailedFile rel message)
  then show ?thesis using assms(2) by (auto simp: write_outcome_def op_basic_simps scan_ok_def)
next
  case (Facts facts)
  have f: "facts_ok facts" using assms(1) Facts by (simp add: outcome_ok_def)
  have ok: "index_ok db" "rows_owned db" "watched \<longrightarrow> tracked (ss_delta st) db0 db" "all_mirrored (sc_index e) db" using assms(2) by (simp_all add: scan_ok_def)
  obtain fd db' where run: "write_file_facts (sc_index e) (sc_strip_rust e) facts small db = (Inr fd, db')"
    using write_succeeds [OF ok(1) f] by blast
  let ?st = "st\<lparr>ss_delta := record_written (ff_rel_path facts) fd (ss_delta st), ss_successful := ss_successful st @ [ff_rel_path facts]\<rparr>"
  have "rows_owned db'" "watched \<longrightarrow> tracked (record_written (ff_rel_path facts) fd (ss_delta st)) db0 db'"
    using write_tracked [OF ok(1) f ok(2) run] ok(3) by blast+
  then have "scan_ok e watched db0 ?st db'"
    using write_index_ok [OF ok(1) f run] write_all_mirrored [OF ok(1) f run ok(4)] by (simp add: scan_ok_def)
  moreover have "write_outcome e small outcome st db = (Inr ?st, db')"
    by (simp add: Facts write_outcome_def op_bind_Inr [where m = "write_file_facts (sc_index e) (sc_strip_rust e) facts small", OF run] op_basic_simps)
  ultimately show ?thesis by blast
qed

lemma parse_outcome_ok: "plain_path (fst t) \<Longrightarrow> outcome_ok (parse_one e cfg t)"
  using parse_one_ok by (cases t) (auto simp: outcome_ok_def split: FileOutcome.split)

lemma write_outcomes_keep:
  assumes "\<And>xs. mset (sc_schedule e xs) = mset xs" "\<forall>t \<in> set files. plain_path (fst t)" "scan_ok e watched db0 st db"
  shows "\<exists>st' db'. op_fold (write_outcome e small) (sc_schedule e (map (parse_one e cfg) files)) st db = (Inr st', db') \<and> scan_ok e watched db0 st' db'"
proof (rule op_fold_keeps [OF write_outcome_keeps assms(3)])
  fix outcome assume "outcome \<in> set (sc_schedule e (map (parse_one e cfg) files))"
  then have "outcome \<in> set (map (parse_one e cfg) files)" using mset_eq_setD [OF assms(1)] by blast
  then show "outcome_ok outcome" using assms(2) parse_outcome_ok by auto
qed

section \<open>The incremental scan\<close>

lemma start_scan_ok:
  assumes "index_ok db0" "rows_owned db0" "all_mirrored (sc_index e) db0" "watched \<Longrightarrow> settled pcfg parse db0"
  shows "scan_ok e watched db0 start_state db0"
  using assms by (auto simp: scan_ok_def tracked_def start_state_def empty_delta_def settled_def list_all_iff list_ex_iff)

lemma scan_ok_paths: "scan_ok e watched db0 st db \<Longrightarrow> p \<in> f_path ` set (i_files db) \<Longrightarrow> plain_path p"
  by (auto simp: scan_ok_def rows_owned_def list_all_iff)

lemma identity_invalid_subset: "p \<in> set (identity_invalid_paths cfg db) \<Longrightarrow> p \<in> f_path ` set (i_files db)"
  by (auto simp: identity_invalid_paths_def)

lemma scan_targets_plain:
  assumes "\<forall>r \<in> set requested. plain_path (fst r)" "\<forall>p \<in> set invalid. plain_path p" "t \<in> set (scan_targets cfg join_root requested invalid)"
  shows "plain_path (fst t)"
  using assms by (auto simp: scan_targets_def)

lemma tracked_hands_over:
  assumes "scan_ok e True db0 st db" "index_ok db0"
  shows "covers (ss_delta st) db0 db" "carried (ss_delta st) db0 db"
proof -
  have t: "tracked (ss_delta st) db0 db" and d: "distinct (map f_path (i_files db))" "distinct (map e_id (i_edges db))" "distinct (map f_path (i_files db0))"
    using assms by (simp_all add: scan_ok_def index_ok_def)
  show "covers (ss_delta st) db0 db" using t d unfolding covers_def tracked_def by (simp add: list_all_iff ball_Un)
  have "x \<in> set (i_edges db0)" if "x \<in> set (i_edges db)" "e_source_file x \<notin> set (touched_files (ss_delta st))" for x
  proof -
    have "x \<in> set (filter (\<lambda>x. e_source_file x \<notin> set (touched_files (ss_delta st))) (i_edges db))" using that by simp
    also have "\<dots> = set (filter (\<lambda>x. e_source_file x \<notin> set (touched_files (ss_delta st))) (i_edges db0))" using t by (simp add: tracked_def)
    finally show ?thesis by simp
  qed
  then show "carried (ss_delta st) db0 db" using t d unfolding carried_def tracked_def by (simp add: list_all_iff list_ex_iff)
qed

lemma scan_files_run:
  assumes start: "scan_ok e watched db0 start_state db0"
    and requested: "\<forall>r \<in> set requested. plain_path (fst r)" and schedule: "\<And>xs. mset (sc_schedule e xs) = mset xs"
  shows "\<exists>st db. scan_files_writes e cfg join_root small requested db0 = (Inr st, db) \<and> scan_ok e watched db0 st db"
proof -
  let ?sweep = "filter (is_path_excluded cfg) (sort (map f_path (i_files db0)))"
  have "\<exists>st db. op_fold remove_path ?sweep start_state db0 = (Inr st, db) \<and> scan_ok e watched db0 st db"
    by (rule op_fold_keeps [OF remove_path_keeps start]) (use scan_ok_paths [OF start] in auto)
  then obtain st db where sweep: "op_fold remove_path ?sweep start_state db0 = (Inr st, db)" and st: "scan_ok e watched db0 st db" by blast
  define targets where "targets = scan_targets cfg join_root requested (identity_invalid_paths cfg db)"
  have plain: "\<forall>t \<in> set targets. plain_path (fst t)"
    unfolding targets_def using scan_targets_plain [OF requested] identity_invalid_subset scan_ok_paths [OF st] by blast
  define present where "present = filter (\<lambda>(_, full). sc_exists e full) targets"
  define handled where "handled = (\<lambda>(_ :: ucs, full). language_resolve (rsplit_last 47 full) \<noteq> None)"
  define to_delete where "to_delete = map fst (filter (\<lambda>(_, full). \<not> sc_exists e full) targets)"
  define st1 where "st1 = st\<lparr>ss_successful := filter (is_path_excluded cfg) (map fst requested) @ map fst (filter (\<lambda>t. \<not> handled t) present),
                  ss_discovered := map fst targets\<rparr>"
  let ?step = "\<lambda>rel st. op_bind (remove_path rel st) (\<lambda>st. op_return (st\<lparr>ss_successful := ss_successful st @ [rel]\<rparr>))"
  have st1: "scan_ok e watched db0 st1 db" using st by (simp add: st1_def scan_ok_def)
  have step: "\<exists>st' db'. ?step rel st db = (Inr st', db') \<and> scan_ok e watched db0 st' db'" if rel: "plain_path rel" and ok: "scan_ok e watched db0 st db" for rel st db
  proof -
    obtain st' db' where one: "remove_path rel st db = (Inr st', db')" "scan_ok e watched db0 st' db'" using remove_path_keeps [OF rel ok] by blast
    then show ?thesis by (auto simp: op_bind_Inr [where m = "remove_path rel st", OF one(1)] op_basic_simps scan_ok_def)
  qed
  have "\<exists>st db'. op_fold ?step to_delete st1 db = (Inr st, db') \<and> scan_ok e watched db0 st db'"
    by (rule op_fold_keeps [OF step st1]) (use plain in \<open>auto simp: to_delete_def\<close>)
  then obtain st2 db2 where removed: "op_fold ?step to_delete st1 db = (Inr st2, db2)" and st2: "scan_ok e watched db0 st2 db2" by blast
  have "\<exists>st' db'. op_fold (write_outcome e small) (sc_schedule e (map (parse_one e cfg) (filter handled present))) st2 db2 = (Inr st', db') \<and> scan_ok e watched db0 st' db'"
    by (rule write_outcomes_keep [OF schedule _ st2]) (use plain in \<open>auto simp: present_def\<close>)
  then obtain st3 db3 where written: "op_fold (write_outcome e small) (sc_schedule e (map (parse_one e cfg) (filter handled present))) st2 db2 = (Inr st3, db3)"
    and st3: "scan_ok e watched db0 st3 db3" by blast
  have "scan_files_writes e cfg join_root small requested db0 = (Inr st3, db3)"
    unfolding scan_files_writes_def Let_def
    by (simp only: op_get_bind op_bind_Inr [where m = "op_fold remove_path _ start_state", OF sweep] targets_def [symmetric] present_def [symmetric]
      handled_def [symmetric] to_delete_def [symmetric] st1_def [symmetric] op_bind_Inr [where m = "op_fold _ to_delete st1", OF removed] written)
  then show ?thesis using st3 by blast
qed


section \<open>The full scan\<close>

lemma op_fold_remove_files:
  assumes "scan_ok e watched db0 st db" "\<forall>rel \<in> set rels. plain_path rel" "op_fold remove_path rels st db = (Inr st', db')"
  shows "f_path ` set (i_files db') = f_path ` set (i_files db) - set rels"
  using assms
proof (induction rels arbitrary: st db)
  case Nil
  then show ?case by (simp add: op_basic_simps)
next
  case (Cons rel rels)
  obtain st1 db1 where one: "remove_path rel st db = (Inr st1, db1)" "scan_ok e watched db0 st1 db1"
    using remove_path_keeps [OF _ Cons.prems(1)] Cons.prems(2) by (metis list.set_intros(1))
  have "i_files db1 = filter (\<lambda>f. f_path f \<noteq> rel) (i_files db)"
  proof -
    have "index_ok db" using Cons.prems(1) by (simp add: scan_ok_def)
    then obtain r db2 where del: "delete_file rel db = (Inr r, db2)" "i_files db2 = filter (\<lambda>f. f_path f \<noteq> rel) (i_files db)"
      by (rule delete_run [of db rel]) (rule that)
    then show ?thesis using one(1) by (simp add: remove_path_def op_bind_Inr [where m = "delete_file rel", OF del(1)] op_basic_simps)
  qed
  then have "f_path ` set (i_files db1) = f_path ` set (i_files db) - {rel}" by auto
  moreover have "op_fold remove_path rels st1 db1 = (Inr st', db')"
    using Cons.prems(3) by (simp add: op_bind_Inr [where m = "remove_path rel st", OF one(1)])
  ultimately show ?case using Cons.IH [OF one(2)] Cons.prems(2) by auto
qed

lemma scan_full_run:
  assumes start: "scan_ok e False db0 start_state db0" and files: "\<forall>t \<in> set files. plain_path (fst t)" and schedule: "\<And>xs. mset (sc_schedule e xs) = mset xs"
  shows "\<exists>st db. scan_full_writes e cfg small files db0 = (Inr st, db) \<and> scan_ok e False db0 st db \<and> f_path ` set (i_files db) \<subseteq> fst ` set files"
proof -
  have start': "scan_ok e False db0 (start_state\<lparr>ss_discovered := map fst files\<rparr>) db0" using start by (simp add: scan_ok_def)
  obtain st db where written: "op_fold (write_outcome e small) (sc_schedule e (map (parse_one e cfg) files)) (start_state\<lparr>ss_discovered := map fst files\<rparr>) db0 = (Inr st, db)"
    and st: "scan_ok e False db0 st db"
    using write_outcomes_keep [OF schedule files start'] by blast
  define gone where "gone = filter (\<lambda>rel. rel \<notin> fst ` set files) (sort (map f_path (i_files db)))"
  have plain: "\<forall>rel \<in> set gone. plain_path rel" using scan_ok_paths [OF st] by (auto simp: gone_def)
  have "\<exists>st' db'. op_fold remove_path gone st db = (Inr st', db') \<and> scan_ok e False db0 st' db'"
    by (rule op_fold_keeps [OF remove_path_keeps st]) (use plain in auto)
  then obtain st' db' where removed: "op_fold remove_path gone st db = (Inr st', db')" and st': "scan_ok e False db0 st' db'" by blast
  have "f_path ` set (i_files db') = f_path ` set (i_files db) - set gone" by (rule op_fold_remove_files [OF st plain removed])
  then have "f_path ` set (i_files db') \<subseteq> fst ` set files" by (auto simp: gone_def)
  moreover have "scan_full_writes e cfg small files db0 = (Inr st', db')"
    unfolding scan_full_writes_def
    by (simp only: op_get_bind op_bind_Inr [where m = "op_fold (write_outcome e small) _ _", OF written] gone_def [symmetric] removed)
  ultimately show ?thesis using st' by blast
qed

end
