(* ===== verification/ScanCycle.thy ===== *)
theory ScanCycle
  imports ScanRuns
begin

text \<open>
  From scan to scan: what a full scan establishes with its resolution, every incremental scan with its
  targeted resolution keeps.
\<close>

section \<open>Resolution and the other tables\<close>

text \<open>A resolution changes the results of edges and the candidates only.\<close>

definition edges_only :: "index_db \<Rightarrow> index_db \<Rightarrow> bool" where
  "edges_only db db' \<longleftrightarrow>
     i_files db' = i_files db \<and> i_symbols db' = i_symbols db \<and> i_clusters db' = i_clusters db \<and> i_summaries db' = i_summaries db \<and>
     i_documents db' = i_documents db \<and> i_patterns db' = i_patterns db \<and> i_seq db' = i_seq db \<and>
     map (\<lambda>x. (e_id x, e_source_file x)) (i_edges db') = map (\<lambda>x. (e_id x, e_source_file x)) (i_edges db)"

lemma update_where_keys:
  "(\<And>x. k (f x) = k x) \<Longrightarrow> map k (update_where P f xs) = map k xs"
  by (simp add: update_where_def)

lemma edges_only_steps:
  "edges_only db (reset_direct_edge_resolution db)" "edges_only db (reset_targets ids db)" "edges_only db (resolve_edge cfg parse d x db)"
  by (simp_all add: edges_only_def reset_direct_edge_resolution_def reset_targets_def resolve_edge_def Let_def update_where_keys clear_edge_def resolved_edge_def)

lemma edges_only_trans: "edges_only db db1 \<Longrightarrow> edges_only db1 db2 \<Longrightarrow> edges_only db db2"
  by (simp add: edges_only_def)

lemma edges_only_resolve_all: "edges_only db0 db \<Longrightarrow> edges_only db0 (resolve_call_edges_filtered cfg parse only db)"
proof -
  have "edges_only db0 db \<Longrightarrow> edges_only db0 (fold (resolve_edge cfg parse d) xs db)" for d xs
    by (induction xs arbitrary: db) (simp_all add: edges_only_trans [OF _ edges_only_steps(3)])
  then show "edges_only db0 db \<Longrightarrow> edges_only db0 (resolve_call_edges_filtered cfg parse only db)"
    by (simp add: resolve_call_edges_filtered_def Let_def)
qed

lemma resolution_edges_only:
  "edges_only db (full_resolution cfg parse db)" "edges_only db (incremental_resolution cfg parse delta db)"
  by (simp_all add: full_resolution_def resolve_call_edges_def incremental_resolution_def Let_def edges_only_resolve_all edges_only_steps)

lemma edges_only_mirrored:
  assumes "edges_only db db'" "all_mirrored e db"
  shows "all_mirrored e db'"
proof -
  have same: "load_fact_document k n db' = load_fact_document k n db" "node_rows k n db' = node_rows k n db" "node_documents k n db' = node_documents k n db" for k n
    using assms(1) facts_cong(1) [of db' db] by (simp_all add: edges_only_def node_rows_def node_documents_def)
  show ?thesis using assms(2) mirrored_cong [OF same] by (simp add: all_mirrored_def)
qed

lemma edges_only_owned:
  assumes "edges_only db db'" "rows_owned db"
  shows "rows_owned db'"
proof -
  have "map snd (map (\<lambda>x. (e_id x, e_source_file x)) (i_edges db')) = map snd (map (\<lambda>x. (e_id x, e_source_file x)) (i_edges db))"
    using assms(1) by (simp add: edges_only_def)
  then have "set (map e_source_file (i_edges db')) = set (map e_source_file (i_edges db))" by (simp add: comp_def)
  then show ?thesis using assms by (force simp: rows_owned_def edges_only_def list_all_iff)
qed

lemma edges_only_index_ok:
  assumes "edges_only db db'" "index_ok db" "settled cfg parse db'"
  shows "index_ok db'"
proof -
  have "map fst (map (\<lambda>x. (e_id x, e_source_file x)) (i_edges db')) = map fst (map (\<lambda>x. (e_id x, e_source_file x)) (i_edges db))"
    using assms(1) by (simp add: edges_only_def)
  then have ids: "map e_id (i_edges db') = map e_id (i_edges db)" by (simp add: comp_def)
  have "list_all (\<lambda>k. k < seq_edges (i_seq db)) (map e_id (i_edges db))" using assms(2) by (simp add: index_ok_def list_all_iff)
  then have "list_all (\<lambda>x. e_id x < seq_edges (i_seq db)) (i_edges db')" unfolding ids [symmetric] by (simp add: list_all_iff)
  moreover have "list_all (\<lambda>c. c_edge_id c \<in> e_id ` set (i_edges db')) (i_candidates db')"
    using assms(3) unfolding settled_def list_all_iff list_ex_iff by (metis image_eqI)
  ultimately show ?thesis using assms(1,2) ids by (simp add: index_ok_def edges_only_def summaries_ok_def unique_documents_def)
qed

section \<open>Between scans\<close>

text \<open>The state of the index that scans leave behind.\<close>

definition standing :: "scan_env \<Rightarrow> PostprocessConfig \<Rightarrow> parser \<Rightarrow> index_db \<Rightarrow> bool" where
  "standing e pcfg parse db \<longleftrightarrow> index_ok db \<and> rows_owned db \<and> all_mirrored (sc_index e) db \<and> settled pcfg parse db"

lemma standing_by_resolution:
  assumes "scan_ok e watched db0 st db" "edges_only db db'" "settled pcfg parse db'"
  shows "standing e pcfg parse db'"
  using assms edges_only_index_ok edges_only_owned edges_only_mirrored by (auto simp: standing_def scan_ok_def)

lemma full_scan_standing:
  assumes "index_ok db0" "rows_owned db0" "all_mirrored (sc_index e) db0"
    and "\<forall>t \<in> set files. plain_path (fst t)" "\<And>xs. mset (sc_schedule e xs) = mset xs"
  obtains st db where "scan_full_writes e cfg small files db0 = (Inr st, db)" "f_path ` set (i_files db) \<subseteq> fst ` set files"
    "standing e pcfg parse (full_resolution pcfg parse db)"
proof -
  have start: "scan_ok e False db0 start_state db0" by (rule start_scan_ok [OF assms(1-3)]) simp
  obtain st db where run: "scan_full_writes e cfg small files db0 = (Inr st, db)" "scan_ok e False db0 st db" "f_path ` set (i_files db) \<subseteq> fst ` set files"
    using scan_full_run [OF start assms(4,5)] by blast
  have "distinct (map e_id (i_edges db))" using run(2) by (simp add: scan_ok_def index_ok_def)
  then have "standing e pcfg parse (full_resolution pcfg parse db)"
    by (intro standing_by_resolution [OF run(2) resolution_edges_only(1)] full_resolution_settled)
  then show thesis using that run by blast
qed

lemma incremental_scan_standing:
  assumes "standing e pcfg parse db0" "parse_array parse (lit ''[]'') = []"
    and "\<forall>r \<in> set requested. plain_path (fst r)" "\<And>xs. mset (sc_schedule e xs) = mset xs"
  obtains st db where "scan_files_writes e cfg join_root small requested db0 = (Inr st, db)"
    "i_edges (incremental_resolution pcfg parse (ss_delta st) db) = i_edges (full_resolution pcfg parse db)"
    "\<forall>i. rows_for i (incremental_resolution pcfg parse (ss_delta st) db) = rows_for i (full_resolution pcfg parse db)"
    "standing e pcfg parse (incremental_resolution pcfg parse (ss_delta st) db)"
proof -
  have ok: "index_ok db0" "rows_owned db0" "all_mirrored (sc_index e) db0" "settled pcfg parse db0" using assms(1) by (simp_all add: standing_def)
  have start: "scan_ok e True db0 start_state db0" by (rule start_scan_ok [OF ok])
  obtain st db where run: "scan_files_writes e cfg join_root small requested db0 = (Inr st, db)" and st: "scan_ok e True db0 st db"
    using scan_files_run [OF start assms(3,4)] by blast
  note agree = incremental_agrees [OF ok(4) tracked_hands_over [OF st ok(1)] assms(2)]
  have "standing e pcfg parse (incremental_resolution pcfg parse (ss_delta st) db)"
    using agree by (intro standing_by_resolution [OF st resolution_edges_only(2)]) blast
  then show thesis using that [OF run] agree by blast
qed

section \<open>Properties\<close>

text \<open>
  Scans keep the index in order.  The writes of a full scan, in whatever order the workers deliver, succeed on
  a well-formed index and leave no file outside the scanned ones; after the resolution the index is well
  formed, every document mirrors its node and every direct edge is resolved.  From such an index an
  incremental scan succeeds too, and its targeted resolution gives the edges and the candidates that
  resolving everything again would give and leaves the index in the same order for the next scan.
\<close>

theorem scans_keep_index:
  assumes "index_ok db0" "rows_owned db0" "all_mirrored (sc_index e) db0"
    and "\<forall>t \<in> set files \<union> set requested. plain_path (fst t)" "\<And>xs. mset (sc_schedule e xs) = mset xs" "parse_array parse (lit ''[]'') = []"
  shows "(\<exists>st db. scan_full_writes e cfg small files db0 = (Inr st, db) \<and> f_path ` set (i_files db) \<subseteq> fst ` set files \<and>
      standing e pcfg parse (full_resolution pcfg parse db)) \<and>
    (settled pcfg parse db0 \<longrightarrow> (\<exists>st db. scan_files_writes e cfg join_root small requested db0 = (Inr st, db) \<and>
      standing e pcfg parse (incremental_resolution pcfg parse (ss_delta st) db) \<and>
      i_edges (incremental_resolution pcfg parse (ss_delta st) db) = i_edges (full_resolution pcfg parse db) \<and>
      (\<forall>i. rows_for i (incremental_resolution pcfg parse (ss_delta st) db) = rows_for i (full_resolution pcfg parse db))))"
proof (intro conjI impI)
  have "\<forall>t \<in> set files. plain_path (fst t)" using assms(4) by blast
  then obtain st db where "scan_full_writes e cfg small files db0 = (Inr st, db)" "f_path ` set (i_files db) \<subseteq> fst ` set files"
    "standing e pcfg parse (full_resolution pcfg parse db)"
    by (rule full_scan_standing [OF assms(1-3) _ assms(5), of files cfg small pcfg parse])
  then show "\<exists>st db. scan_full_writes e cfg small files db0 = (Inr st, db) \<and> f_path ` set (i_files db) \<subseteq> fst ` set files \<and>
      standing e pcfg parse (full_resolution pcfg parse db)" by blast
  assume "settled pcfg parse db0"
  then have "standing e pcfg parse db0" using assms(1-3) by (simp add: standing_def)
  moreover have "\<forall>r \<in> set requested. plain_path (fst r)" using assms(4) by blast
  ultimately obtain st db where "scan_files_writes e cfg join_root small requested db0 = (Inr st, db)"
    "i_edges (incremental_resolution pcfg parse (ss_delta st) db) = i_edges (full_resolution pcfg parse db)"
    "\<forall>i. rows_for i (incremental_resolution pcfg parse (ss_delta st) db) = rows_for i (full_resolution pcfg parse db)"
    "standing e pcfg parse (incremental_resolution pcfg parse (ss_delta st) db)"
    by (rule incremental_scan_standing [OF _ assms(6) _ assms(5), of pcfg db0 requested cfg join_root small])
  then show "\<exists>st db. scan_files_writes e cfg join_root small requested db0 = (Inr st, db) \<and>
      standing e pcfg parse (incremental_resolution pcfg parse (ss_delta st) db) \<and>
      i_edges (incremental_resolution pcfg parse (ss_delta st) db) = i_edges (full_resolution pcfg parse db) \<and>
      (\<forall>i. rows_for i (incremental_resolution pcfg parse (ss_delta st) db) = rows_for i (full_resolution pcfg parse db))"
    by blast
qed

text \<open>The first incremental scan of a new index, with one Python file on disk.\<close>


definition demo_scan :: scan_env where
  "demo_scan = \<lparr>sc_index = demo_env, sc_strip_rust = id, sc_lower = id, sc_read = (\<lambda>_. Some (lit ''def f(): pass'')),
     sc_parse = (\<lambda>_ _ _. \<lparr>pa_identity = \<lparr>ci_contract_version = [], ci_backend = [], ci_environment = []\<rparr>, pa_imports = [],
       pa_import_bindings_json = lit ''[]'', pa_symbols = [demo_function], pa_edges = [], pa_patterns = []\<rparr>),
     sc_exists = (\<lambda>_. True), sc_schedule = rev\<rparr>"

lemma empty_index_standing: "standing demo_scan demo_config demo_parse empty_index"
  using empty_index_ok by (simp add: standing_def rows_owned_def settled_def demo_scan_def) (simp add: empty_index_def)

theorem scans_keep_index_witness:
  "\<exists>st db. scan_files_writes demo_scan \<lparr>exclusions = [], layers = []\<rparr> id True [(lit ''a.py'', lit ''/r/a.py'')] empty_index = (Inr st, db) \<and>
     standing demo_scan demo_config demo_parse (incremental_resolution demo_config demo_parse (ss_delta st) db)"
proof -
  have "\<forall>t \<in> set [] \<union> set [(lit ''a.py'', lit ''/r/a.py'')]. plain_path (fst t)"
    using demo_facts_ok(1) by (simp add: facts_ok_def) (simp add: demo_facts_def)
  moreover have "parse_array demo_parse (lit ''[]'') = []" by code_simp
  moreover have "mset (sc_schedule demo_scan xs) = mset xs" for xs by (simp add: demo_scan_def)
  ultimately show ?thesis
    using scans_keep_index [of empty_index demo_scan "[]" "[(lit ''a.py'', lit ''/r/a.py'')]" demo_parse "\<lparr>exclusions = [], layers = []\<rparr>" True demo_config id]
      empty_index_standing by (simp add: standing_def) blast
qed

end
