(* ===== verification/StageFrame.thy ===== *)
theory StageFrame
  imports Emission ScanCycle
begin

text \<open>
  What the stages after the resolution leave alone: the columns of files and symbols the resolution and the
  documents read, the direct edges and their candidates.
\<close>

section \<open>Columns that are read\<close>

text \<open>Rows without the columns of the later stages, the kind of a file and the bases of a type.\<close>

definition file_view :: "file_row \<Rightarrow> file_row" where
  "file_view f = f\<lparr>f_kind_hint := None\<rparr>"

definition symbol_view :: "symbol_row \<Rightarrow> symbol_row" where
  "symbol_view s = s\<lparr>s_bases := None\<rparr>"

definition same_view :: "index_db \<Rightarrow> index_db \<Rightarrow> bool" where
  "same_view db db' \<longleftrightarrow> map file_view (i_files db') = map file_view (i_files db) \<and> map symbol_view (i_symbols db') = map symbol_view (i_symbols db)"

lemma same_view_trans: "same_view a b \<Longrightarrow> same_view b c \<Longrightarrow> same_view a c"
  by (simp add: same_view_def)

lemma view_columns [simp]:
  "f_path (file_view f) = f_path f" "f_language (file_view f) = f_language f" "f_imports (file_view f) = f_imports f"
  "f_import_bindings (file_view f) = f_import_bindings f"
  "s_file_path (symbol_view s) = s_file_path s" "s_name (symbol_view s) = s_name s" "s_short_name (symbol_view s) = s_short_name s"
  "s_type (symbol_view s) = s_type s" "s_args (symbol_view s) = s_args s" "s_name_tokens (symbol_view s) = s_name_tokens s"
  "s_hash (symbol_view s) = s_hash s"
  "symbol_qualified (symbol_view s) = symbol_qualified s" "symbol_named callee (symbol_view s) = symbol_named callee s"
  by (simp_all add: file_view_def symbol_view_def symbol_qualified_def symbol_named_def)

lemma sort_key_view: "(\<And>x. k (v x) = k x) \<Longrightarrow> sort_key k (map v xs) = map v (sort_key k xs)"
proof -
  assume k: "\<And>x. k (v x) = k x"
  have "insort_key k (v x) (map v ys) = map v (insort_key k x ys)" for x ys by (induction ys) (simp_all add: k)
  then show ?thesis by (induction xs) simp_all
qed

lemma filter_view: "(\<And>x. P (v x) = P x) \<Longrightarrow> filter P (map v xs) = map v (filter P xs)"
  by (simp add: filter_map comp_def)

lemma find_view: "(\<And>x. P (v x) = P x) \<Longrightarrow> find P (map v xs) = map_option v (find P xs)"
  by (induction xs) simp_all

lemma same_views_map: "map v xs' = map v xs \<Longrightarrow> (\<And>x. g (v x) = g x) \<Longrightarrow> map g xs' = map g xs"
proof -
  assume eq: "map v xs' = map v xs" and g: "\<And>x. g (v x) = g x"
  have "map g (map v xs') = map g (map v xs)" using eq by simp
  then show "map g xs' = map g xs" by (simp add: g comp_def)
qed

lemma same_views_ex: "map v xs' = map v xs \<Longrightarrow> (\<And>x. P (v x) = P x) \<Longrightarrow> list_ex P xs' = list_ex P xs"
proof -
  assume v: "map v xs' = map v xs" and P: "\<And>x. P (v x) = P x"
  have "map P xs' = map P xs" by (rule same_views_map [OF v]) (rule P)
  then have "list_ex id (map P xs') = list_ex id (map P xs)" by simp
  then show ?thesis by (simp add: list_ex_iff)
qed

lemma same_views_find:
  assumes "map v xs' = map v xs" "\<And>x. P (v x) = P x" "\<And>x. g (v x) = g x"
  shows "map_option g (find P xs') = map_option g (find P xs)"
proof -
  have "map_option v (find P xs') = map_option v (find P xs)" using find_view [of P v, OF assms(2)] assms(1) by metis
  then have "map_option g (map_option v (find P xs')) = map_option g (map_option v (find P xs))" by simp
  then show ?thesis by (simp add: option.map_comp comp_def assms(3))
qed

lemma same_views_sorted:
  assumes "map v xs' = map v xs" "\<And>x. k (v x) = k x" "\<And>x. P (v x) = P x"
  shows "map v (sort_key k (filter P xs')) = map v (sort_key k (filter P xs))"
  using assms sort_key_view [of k v] filter_view [of P v] by metis

text \<open>The resolution reads the views only.\<close>

lemma view_derive: "same_view db db' \<Longrightarrow> derive_import_bindings parse db' = derive_import_bindings parse db"
proof -
  assume "same_view db db'"
  then have "map file_view (sort_key f_path (i_files db')) = map file_view (sort_key f_path (i_files db))"
    using same_views_sorted [of file_view "i_files db'" "i_files db" f_path "\<lambda>_. True"] by (simp add: same_view_def)
  note rows = this
  have "derive_row parse py (file_view f) = derive_row parse py f" for py f by (rule ext) (simp add: derive_row_def)
  then have run: "fold (derive_row parse py) (map file_view fs) d = fold (derive_row parse py) fs d" for py fs d
    by (induction fs arbitrary: d) simp_all
  have paths: "map f_path (sort_key f_path (i_files db')) = map f_path (sort_key f_path (i_files db))"
    by (rule same_views_map [OF rows]) simp
  show ?thesis unfolding derive_import_bindings_def Let_def paths using run rows by metis
qed

lemma view_candidates:
  assumes "same_view db db'"
  shows "edge_candidates cfg parse db' d e = edge_candidates cfg parse db d e"
proof -
  have files: "map file_view (i_files db') = map file_view (i_files db)" and symbols: "map symbol_view (i_symbols db') = map symbol_view (i_symbols db)"
    using assms by (simp_all add: same_view_def)
  have where_same: "symbols_where db' P = symbols_where db P" if "\<And>s. P (symbol_view s) = P s" for P
  proof -
    have "map symbol_view (sort_key (\<lambda>s. (s_file_path s, s_name s)) (filter P (i_symbols db'))) =
        map symbol_view (sort_key (\<lambda>s. (s_file_path s, s_name s)) (filter P (i_symbols db)))"
      by (rule same_views_sorted [OF symbols]) (simp_all add: that)
    then show ?thesis unfolding symbols_where_def by (rule same_views_map) simp
  qed
  have bind: "Option.bind (find (\<lambda>f. f_path f = p) (i_files db')) g = Option.bind (find (\<lambda>f. f_path f = p) (i_files db)) g" if "\<And>f. g (file_view f) = g f" for p g
  proof -
    have "map_option g (find (\<lambda>f. f_path f = p) (i_files db')) = map_option g (find (\<lambda>f. f_path f = p) (i_files db))"
      by (rule same_views_find [OF files]) (simp_all add: that)
    then show ?thesis by (cases "find (\<lambda>f. f_path f = p) (i_files db')"; cases "find (\<lambda>f. f_path f = p) (i_files db)") simp_all
  qed
  have language: "same_language db' p q = same_language db p q" for p q
  proof -
    have "list_ex (\<lambda>f. f_path f = q \<and> f_language f = Some l) (i_files db') = list_ex (\<lambda>f. f_path f = q \<and> f_language f = Some l) (i_files db)" for l
      by (rule same_views_ex [OF files]) simp
    then show ?thesis by (simp add: same_language_def bind split: option.split)
  qed
  have "import_list parse db' d = import_list parse db d" by (rule ext) (simp add: import_list_def bind)
  then have tiers: "tier_candidates cfg parse db' d p c = tier_candidates cfg parse db d p c" for p c
    by (simp add: tier_candidates_def Let_def where_same)
  have rest: "global_candidates cfg db' p c = global_candidates cfg db p c" for p c
    by (simp add: global_candidates_def language where_same)
  show ?thesis unfolding edge_candidates_def tiers rest by (rule refl)
qed

lemma view_settled:
  assumes "settled cfg parse db" "same_view db db'" "filter direct (i_edges db') = filter direct (i_edges db)" "i_candidates db' = i_candidates db"
    "distinct (map e_id (i_edges db'))"
  shows "settled cfg parse db'"
proof -
  have spec: "edge_spec cfg parse db' e = edge_spec cfg parse db e" "candidate_spec cfg parse db' e = candidate_spec cfg parse db e" for e
    using view_candidates [OF assms(2)] view_derive [OF assms(2)] by (simp_all add: edge_spec_def candidate_spec_def)
  have rows: "rows_for i db' = rows_for i db" for i using assms(4) by (simp add: rows_for_def)
  have member: "e \<in> set (i_edges db') \<and> direct e \<longleftrightarrow> e \<in> set (i_edges db) \<and> direct e" for e
    using arg_cong [OF assms(3), of set] by auto
  show ?thesis
    using assms(1,4,5) member unfolding settled_def list_all_iff list_ex_iff spec rows by metis
qed

section \<open>Documents\<close>

lemma view_documents:
  assumes "same_view db db'" "k \<noteq> lit ''cluster''"
  shows "load_fact_document k n db' = load_fact_document k n db"
proof -
  have files: "map file_view (i_files db') = map file_view (i_files db)" and symbols: "map symbol_view (i_symbols db') = map symbol_view (i_symbols db)"
    using assms by (simp_all add: same_view_def)
  have at: "map_option g (file_at db' p) = map_option g (file_at db p)" if "\<And>f. g (file_view f) = g f" for g p
    unfolding file_at_def by (rule same_views_find [OF files]) (simp_all add: that)
  have there: "file_at db' p \<noteq> None \<longleftrightarrow> file_at db p \<noteq> None" for p using at [of f_path p] by (cases "file_at db' p"; cases "file_at db p") simp_all
  have language: "Option.bind (file_at db' p) f_language = Option.bind (file_at db p) f_language" for p
    using at [of f_language p] by (cases "file_at db' p"; cases "file_at db p") simp_all
  have fact: "symbol_fact db' P = symbol_fact db P" if "\<And>s. P (symbol_view s) = P s" for P
  proof -
    let ?doc = "\<lambda>s. \<lparr>fd_language = Option.bind (file_at db (s_file_path s)) f_language, fd_symbol_type = Some (s_type s),
          fd_file_path = Some (s_file_path s), fd_name = Some (s_name s), fd_name_tokens = Some (s_name_tokens s), fd_signature = s_args s\<rparr>"
    have "map_option ?doc (find (\<lambda>s. P s \<and> file_at db (s_file_path s) \<noteq> None) (i_symbols db')) =
        map_option ?doc (find (\<lambda>s. P s \<and> file_at db (s_file_path s) \<noteq> None) (i_symbols db))"
      by (rule same_views_find [OF symbols]) (simp_all add: that)
    then show ?thesis unfolding symbol_fact_def there language by (simp add: map_option_case)
  qed
  have "symbol_document n db' = symbol_document n db" by (simp add: symbol_document_def fact split: option.split)
  moreover have "file_document n db' = file_document n db" unfolding file_document_def by (rule at) simp
  ultimately show ?thesis using assms(2) by (simp add: load_fact_document_def)
qed

section \<open>Clusters\<close>

text \<open>Steps on clusters change clusters and the summaries and documents of cluster nodes.\<close>

definition cluster_step :: "index_db \<Rightarrow> index_db \<Rightarrow> bool" where
  "cluster_step db db' \<longleftrightarrow>
     i_files db' = i_files db \<and> i_symbols db' = i_symbols db \<and> i_edges db' = i_edges db \<and> i_candidates db' = i_candidates db \<and>
     i_patterns db' = i_patterns db \<and> seq_edges (i_seq db') = seq_edges (i_seq db) \<and>
     (summaries_ok db \<and> unique_documents db \<longrightarrow> summaries_ok db' \<and> unique_documents db' \<and> nodes_kept ({lit ''cluster''} \<times> UNIV) db db')"

lemma cluster_step_refl: "cluster_step db db"
  by (simp add: cluster_step_def)

lemma cluster_step_trans: "cluster_step a b \<Longrightarrow> cluster_step b c \<Longrightarrow> cluster_step a c"
  unfolding cluster_step_def nodes_kept_def by auto

lemma cluster_step_fold: "(\<And>x db. x \<in> set xs \<Longrightarrow> cluster_step db (f x db)) \<Longrightarrow> cluster_step db (fold f xs db)"
  by (induction xs arbitrary: db) (auto intro: cluster_step_refl cluster_step_trans)

lemma cluster_step_nodes:
  "cluster_step db (refresh_node e (lit ''cluster'') n db)" "cluster_step db (delete_node (lit ''cluster'') n db)"
  "cluster_step db (snd (mark_current_summary_stale e (lit ''cluster'') n db))"
proof -
  have wide: "nodes_kept {(lit ''cluster'', n)} a b \<Longrightarrow> nodes_kept ({lit ''cluster''} \<times> UNIV) a b" for a b by (rule nodes_kept_mono) auto
  show "cluster_step db (refresh_node e (lit ''cluster'') n db)" "cluster_step db (delete_node (lit ''cluster'') n db)"
    using wide [OF refresh_kept(1)] wide [OF delete_kept(1)] unique_refresh by (simp_all add: cluster_step_def summaries_ok_def)
  show "cluster_step db (snd (mark_current_summary_stale e (lit ''cluster'') n db))"
    using wide [OF stale_kept(1)] stale_kept(3) mark_stale_documents(1) by (simp add: cluster_step_def)
qed

lemma cluster_step_tables:
  assumes "i_files db' = i_files db" "i_symbols db' = i_symbols db" "i_edges db' = i_edges db" "i_candidates db' = i_candidates db"
    "i_patterns db' = i_patterns db" "i_summaries db' = i_summaries db" "i_documents db' = i_documents db"
    "seq_edges (i_seq db') = seq_edges (i_seq db)" "seq_summaries (i_seq db') = seq_summaries (i_seq db)"
  shows "cluster_step db db'"
  using assms by (simp add: cluster_step_def summaries_ok_def unique_documents_def nodes_kept_def node_rows_def node_documents_def)

lemma cluster_step_detect: "cluster_step db (detect_clusters_for p scope db)"
proof -
  have insert: "cluster_step db (insert_cluster cfg name paths db)" for cfg name paths db
    by (rule cluster_step_tables) (simp_all add: insert_cluster_def Let_def)
  have add: "cluster_step db (add_cluster p existing g db)" for existing g db
  proof -
    obtain name paths where g: "g = (name, paths)" by (cases g)
    let ?db = "insert_cluster (pl_config p) name paths db"
    let ?marked = "if map_of existing name \<noteq> Some (btree_set paths) then snd (mark_current_summary_stale (pl_index p) (lit ''cluster'') name ?db) else ?db"
    have "cluster_step ?db ?marked" using cluster_step_nodes(3) cluster_step_refl by auto
    then have "cluster_step db (refresh_node (pl_index p) (lit ''cluster'') name ?marked)"
      by (rule cluster_step_trans [OF cluster_step_trans [OF insert] cluster_step_nodes(1)])
    then show ?thesis by (auto simp: add_cluster_def g Let_def cluster_step_refl)
  qed
  have drop: "cluster_step db (drop_clusters names db)" for names db by (rule cluster_step_tables) (simp_all add: drop_clusters_def)
  have counters: "cluster_step db (db\<lparr>i_counters := cs\<rparr>)" for db cs by (rule cluster_step_tables) simp_all
  have sweep: "cluster_step db (sweep_clusters scope names db)" for names db
    unfolding sweep_clusters_def Let_def by (rule cluster_step_trans [OF cluster_step_fold counters]) (rule cluster_step_nodes)
  show ?thesis unfolding detect_clusters_for_def Let_def
    by (rule cluster_step_trans [OF cluster_step_trans [OF drop cluster_step_fold [OF add]] sweep])
qed

section \<open>Synthesised edges\<close>

text \<open>The rows of a list of inferred edges: their facts, their fresh numbers and the table in front of them.\<close>

lemma insert_inferred_rows:
  "\<exists>new. i_edges (fold insert_inferred es db) = i_edges db @ new \<and>
     (\<forall>r \<in> set new. inferred r \<and> (\<exists>x \<in> set es. e_source_file r = ie_source_file x \<and> e_callee_file r = Some (ie_callee_file x))) \<and>
     (distinct (map e_id (i_edges db)) \<and> list_all (\<lambda>x. e_id x < seq_edges (i_seq db)) (i_edges db) \<longrightarrow>
        distinct (map e_id (i_edges (fold insert_inferred es db))) \<and>
        list_all (\<lambda>x. e_id x < seq_edges (i_seq (fold insert_inferred es db))) (i_edges (fold insert_inferred es db)))"
proof (induction es arbitrary: db)
  case Nil
  show ?case by (intro exI [of _ "[]"]) simp
next
  case (Cons x es)
  let ?db = "insert_inferred x db"
  obtain mine where mine: "i_edges ?db = i_edges db @ mine" "\<forall>r \<in> set mine. inferred r \<and> e_source_file r = ie_source_file x \<and> e_callee_file r = Some (ie_callee_file x)"
    "distinct (map e_id (i_edges db)) \<and> list_all (\<lambda>x. e_id x < seq_edges (i_seq db)) (i_edges db) \<longrightarrow>
        distinct (map e_id (i_edges ?db)) \<and> list_all (\<lambda>x. e_id x < seq_edges (i_seq ?db)) (i_edges ?db)"
  proof (cases "?db = db")
    case True
    then show thesis using that [of "[]"] by simp
  next
    case False
    then show thesis
      by (intro that [of "[last (i_edges ?db)]"]) (auto simp: insert_inferred_def inferred_def list_all_iff split: if_splits)
  qed
  obtain new where "i_edges (fold insert_inferred es ?db) = i_edges ?db @ new"
    "\<forall>r \<in> set new. inferred r \<and> (\<exists>x \<in> set es. e_source_file r = ie_source_file x \<and> e_callee_file r = Some (ie_callee_file x))"
    "distinct (map e_id (i_edges ?db)) \<and> list_all (\<lambda>x. e_id x < seq_edges (i_seq ?db)) (i_edges ?db) \<longrightarrow>
        distinct (map e_id (i_edges (fold insert_inferred es ?db))) \<and>
        list_all (\<lambda>x. e_id x < seq_edges (i_seq (fold insert_inferred es ?db))) (i_edges (fold insert_inferred es ?db))"
    using Cons.IH [of ?db] by blast
  then show ?case using mine by (intro exI [of _ "mine @ new"]) auto
qed

lemma insert_inferred_frame [simp]:
  "i_files (fold insert_inferred es db) = i_files db" "i_candidates (fold insert_inferred es db) = i_candidates db"
  "i_summaries (fold insert_inferred es db) = i_summaries db" "i_documents (fold insert_inferred es db) = i_documents db"
  "i_clusters (fold insert_inferred es db) = i_clusters db" "seq_summaries (i_seq (fold insert_inferred es db)) = seq_summaries (i_seq db)"
  by (induction es arbitrary: db; simp add: insert_inferred_def)+

lemma direct_not_inferred: "direct r \<longleftrightarrow> \<not> inferred r"
  by (simp add: direct_def inferred_def)

section \<open>The state between scans\<close>

definition edges_ok :: "index_db \<Rightarrow> bool" where
  "edges_ok db \<longleftrightarrow> distinct (map e_id (i_edges db)) \<and> list_all (\<lambda>x. e_id x < seq_edges (i_seq db)) (i_edges db) \<and>
     list_all (\<lambda>x. e_source_file x \<in> f_path ` set (i_files db)) (i_edges db)"

lemma standing_by_view:
  assumes st: "standing e cfg parse db" and view: "same_view db db'"
    and rows: "filter direct (i_edges db') = filter direct (i_edges db)" "i_candidates db' = i_candidates db" "i_patterns db' = i_patterns db"
    and edges: "edges_ok db'" and nodes: "summaries_ok db'" "unique_documents db'" "nodes_kept ({lit ''cluster''} \<times> UNIV) db db'"
  shows "standing e cfg parse db'"
proof -
  have files: "map file_view (i_files db') = map file_view (i_files db)" and symbols: "map symbol_view (i_symbols db') = map symbol_view (i_symbols db)"
    using view by (simp_all add: same_view_def)
  have paths: "map f_path (i_files db') = map f_path (i_files db)" by (rule same_views_map [OF files]) simp
  have keys: "map (\<lambda>s. (s_file_path s, s_name s, s_short_name s)) (i_symbols db') = map (\<lambda>s. (s_file_path s, s_name s, s_short_name s)) (i_symbols db)"
    by (rule same_views_map [OF symbols]) simp
  have pairs: "map (\<lambda>s. (s_file_path s, s_name s)) (i_symbols db') = map (\<lambda>s. (s_file_path s, s_name s)) (i_symbols db)"
    by (rule same_views_map [OF symbols]) simp
  have all: "list_all (\<lambda>s. P (s_file_path s) (s_short_name s)) (i_symbols db') = list_all (\<lambda>s. P (s_file_path s) (s_short_name s)) (i_symbols db)" for P
    using arg_cong [OF keys, of "list_all (\<lambda>(p, n, s). P p s)"] by (simp add: list_all_iff)
  have path_set: "f_path ` set (i_files db') = f_path ` set (i_files db)" using arg_cong [OF paths, of set] by simp
  have settled: "settled cfg parse db'"
    by (rule view_settled [OF _ view rows(1,2)]) (use st edges in \<open>auto simp: standing_def edges_ok_def\<close>)
  have "list_all (\<lambda>c. c_edge_id c \<in> e_id ` set (i_edges db')) (i_candidates db')"
    using settled unfolding settled_def list_all_iff list_ex_iff by (metis image_eqI)
  then have "index_ok db'"
    using st edges nodes paths pairs all [of "\<lambda>p s. s \<noteq> None \<and> plain_path p"] by (simp add: standing_def index_ok_def edges_ok_def)
  moreover have "rows_owned db'"
  proof -
    have "list_all (\<lambda>f. plain_path (f_path f)) (i_files db') = list_all (\<lambda>f. plain_path (f_path f)) (i_files db)"
      using arg_cong [OF paths, of "list_all plain_path"] by (simp add: list_all_iff)
    then show ?thesis
      using st edges all [of "\<lambda>p s. p \<in> f_path ` set (i_files db)"] by (simp add: standing_def rows_owned_def edges_ok_def path_set rows(3))
  qed
  moreover have "all_mirrored (sc_index e) db'"
  proof -
    have same: "mirrored (sc_index e) k n db' = mirrored (sc_index e) k n db" if "k \<noteq> lit ''cluster''" for k n
      by (rule mirrored_cong [OF view_documents [OF view that]]) (use nodes(3) that in \<open>auto simp: nodes_kept_def\<close>)
    have "lit ''symbol'' \<noteq> lit ''cluster''" "lit ''file'' \<noteq> lit ''cluster''" by (simp_all add: lit_def)
    then show ?thesis using st same by (simp add: standing_def all_mirrored_def)
  qed
  ultimately show ?thesis using settled by (simp add: standing_def)
qed

lemma standing_edges_ok: "standing e cfg parse db \<Longrightarrow> edges_ok db"
  by (simp add: standing_def index_ok_def rows_owned_def edges_ok_def)

section \<open>The bases of Rust types\<close>

lemma overwrite_bases_view:
  "overwrite_bases merged s db = db\<lparr>i_symbols := i_symbols (overwrite_bases merged s db)\<rparr>"
  "map symbol_view (i_symbols (overwrite_bases merged s db)) = map symbol_view (i_symbols db)"
  by (simp_all add: overwrite_bases_def update_where_def symbol_view_def)

lemma overwrite_view:
  "overwrite_rust_trait_bases db = db\<lparr>i_symbols := i_symbols (overwrite_rust_trait_bases db)\<rparr>"
  "map symbol_view (i_symbols (overwrite_rust_trait_bases db)) = map symbol_view (i_symbols db)"
proof -
  have "fold (overwrite_bases m) ss db = db\<lparr>i_symbols := i_symbols (fold (overwrite_bases m) ss db)\<rparr> \<and>
      map symbol_view (i_symbols (fold (overwrite_bases m) ss db)) = map symbol_view (i_symbols db)" for m ss db
  proof (induction ss arbitrary: db)
    case (Cons s ss)
    let ?db = "overwrite_bases m s db"
    have "fold (overwrite_bases m) ss ?db = ?db\<lparr>i_symbols := i_symbols (fold (overwrite_bases m) ss ?db)\<rparr>"
      "map symbol_view (i_symbols (fold (overwrite_bases m) ss ?db)) = map symbol_view (i_symbols ?db)" using Cons.IH by blast+
    moreover have "?db\<lparr>i_symbols := x\<rparr> = db\<lparr>i_symbols := x\<rparr>" for x using overwrite_bases_view(1) [of m s db] by (metis index_db.update_convs(2) index_db.surjective)
    ultimately show ?case using overwrite_bases_view(2) by simp
  qed simp
  then show "overwrite_rust_trait_bases db = db\<lparr>i_symbols := i_symbols (overwrite_rust_trait_bases db)\<rparr>"
    "map symbol_view (i_symbols (overwrite_rust_trait_bases db)) = map symbol_view (i_symbols db)"
    unfolding overwrite_rust_trait_bases_def by blast+
qed

section \<open>The kinds of files\<close>

lemma kinds_files:
  "compute_file_kinds_for p ps db = db\<lparr>i_files := map (\<lambda>f. if f_path f \<in> set ps then f\<lparr>f_kind_hint := Some (kind_of p db (f_path f))\<rparr> else f) (i_files db)\<rparr>"
proof -
  have "fold (set_kind p) ps db = db\<lparr>i_files := map (\<lambda>f. if f_path f \<in> set ps then f\<lparr>f_kind_hint := Some (kind_of p db (f_path f))\<rparr> else f) (i_files db)\<rparr>"
    for db
  proof (induction ps arbitrary: db)
    case (Cons q ps)
    have "kind_of p (set_kind p q db) r = kind_of p db r" for r by (simp add: kind_of_def set_kind_def)
    then show ?case using Cons by (simp add: set_kind_def update_where_def comp_def cong: if_cong)
  qed simp
  then show ?thesis by (simp add: compute_file_kinds_for_def)
qed

text \<open>Every file carries the kind its symbols and edges give.\<close>

definition kinds_settled :: "pipeline \<Rightarrow> index_db \<Rightarrow> bool" where
  "kinds_settled p db \<longleftrightarrow> list_all (\<lambda>f. f_kind_hint f = Some (kind_of p db (f_path f))) (i_files db)"

lemma kinds_view: "same_view db (compute_file_kinds_for p ps db)"
  by (simp add: same_view_def kinds_files file_view_def comp_def)

end
