(* ===== verification/Pipeline.thy ===== *)
theory Pipeline
  imports StageFrame
begin

text \<open>
  The stages after the write loop as a whole: from what scans keep in order they establish the same again, with
  settled kinds, and the incremental stages leave the files, symbols and edges that all stages would.
\<close>

section \<open>The stages, from the resolution on\<close>

definition later_stages :: "pipeline \<Rightarrow> index_db \<Rightarrow> index_db" where
  "later_stages p db = synth_run_all (pl_config p) (ie_parse (pl_index p)) (overwrite_rust_trait_bases (purge_heuristic_edges db))"

text \<open>The inferred edges of a finished scan name the file they lead to.\<close>

definition targets_named :: "index_db \<Rightarrow> bool" where
  "targets_named db \<longleftrightarrow> list_all (\<lambda>x. inferred x \<longrightarrow> e_callee_file x \<noteq> None) (i_edges db)"

lemma purge_standing: "standing e cfg parse db \<Longrightarrow> standing e cfg parse (purge_heuristic_edges db)"
  by (rule standing_by_view, assumption)
    (auto simp: purge_heuristic_edges_def same_view_def edges_ok_def standing_def index_ok_def rows_owned_def summaries_ok_def unique_documents_def
      nodes_kept_def node_rows_def node_documents_def list_all_iff distinct_map_filter)

lemma overwrite_standing: "standing e cfg parse db \<Longrightarrow> standing e cfg parse (overwrite_rust_trait_bases db)"
proof -
  assume st: "standing e cfg parse db"
  have tables: "i_files (overwrite_rust_trait_bases db) = i_files db" "i_edges (overwrite_rust_trait_bases db) = i_edges db"
    "i_candidates (overwrite_rust_trait_bases db) = i_candidates db" "i_patterns (overwrite_rust_trait_bases db) = i_patterns db"
    "i_summaries (overwrite_rust_trait_bases db) = i_summaries db" "i_documents (overwrite_rust_trait_bases db) = i_documents db"
    "i_seq (overwrite_rust_trait_bases db) = i_seq db"
    by (subst overwrite_view(1), simp)+
  show ?thesis
    by (rule standing_by_view [OF st])
      (use st standing_edges_ok [OF st] overwrite_view(2) in \<open>simp_all add: tables same_view_def edges_ok_def standing_def index_ok_def summaries_ok_def
        unique_documents_def nodes_kept_def node_rows_def node_documents_def\<close>)
qed

text \<open>Every synthesised edge starts in a file of the index.\<close>

lemma synth_sources:
  assumes "rows_owned db" "justified cfg parse db x"
  shows "ie_source_file x \<in> f_path ` set (i_files db)"
proof -
  have owned: "\<And>s. s \<in> set (i_symbols db) \<Longrightarrow> s_file_path s \<in> f_path ` set (i_files db)" "\<And>p. p \<in> set (i_patterns db) \<Longrightarrow> p_file_path p \<in> f_path ` set (i_files db)"
    using assms(1) by (simp_all add: rows_owned_def list_all_iff)
  have base: "ie_source_file x = s_file_path base" if "overrides db via base impl_path impl_type x" for via base impl_path impl_type
    using that by (auto simp: overrides_def override_edge_def Let_def)
  consider "event_facts (nat (synth_event_fanout_cap cfg)) db x" | "interface_facts parse db x" | "trait_facts db x" | "dispatch_facts parse db x"
    using assms(2) by (auto simp: justified_def)
  then show ?thesis
  proof cases
    case 1
    then obtain q where "q \<in> set (i_patterns db)" "ie_source_file x = p_file_path q" by (auto simp: event_facts_def event_related_def event_edge_def)
    then show ?thesis using owned(2) by simp
  next
    case 2
    then obtain b where "b \<in> set (i_symbols db)" "ie_source_file x = s_file_path b" unfolding interface_facts_def using base by blast
    then show ?thesis using owned(1) by simp
  next
    case 3
    then obtain b where "b \<in> set (i_symbols db)" "ie_source_file x = s_file_path b" unfolding trait_facts_def using base by blast
    then show ?thesis using owned(1) by simp
  next
    case 4
    then obtain caller enclosing p where "resolve_symbol db enclosing (Some p) = Some caller" "ie_source_file x = fst caller"
      unfolding dispatch_facts_def by (auto simp: dispatch_edge_def)
    then obtain s where "s \<in> set (i_symbols db)" "ie_source_file x = fst (symbol_key s)" using resolve_symbol_known by blast
    then show ?thesis using owned(1) by (simp add: symbol_key_def)
  qed
qed

lemma synth_run:
  assumes st: "standing e cfg parse db" "filter inferred (i_edges db) = []"
  shows "standing e cfg parse (synth_run_all c parse db)" "targets_named (synth_run_all c parse db)"
proof -
  let ?P = "justified c parse db"
  obtain es where es: "\<forall>x \<in> set es. ?P x" "synth_run_all c parse db = fold insert_inferred es db"
    using synth_adds [of c parse db] unfolding adds_edges_def same_facts_def by blast
  let ?db = "fold insert_inferred es db"
  obtain new where new: "i_edges ?db = i_edges db @ new"
    "\<forall>r \<in> set new. inferred r \<and> (\<exists>x \<in> set es. e_source_file r = ie_source_file x \<and> e_callee_file r = Some (ie_callee_file x))"
    "distinct (map e_id (i_edges ?db)) \<and> list_all (\<lambda>x. e_id x < seq_edges (i_seq ?db)) (i_edges ?db)"
    using insert_inferred_rows [of es db] standing_edges_ok [OF st(1)] by (auto simp: edges_ok_def)
  have sources: "\<forall>r \<in> set new. e_source_file r \<in> f_path ` set (i_files db)"
    using new(2) es(1) synth_sources [of db] st(1) unfolding standing_def by metis
  have same: "same_view db ?db" by (simp add: same_view_def)
  have direct: "filter direct (i_edges ?db) = filter direct (i_edges db)" using new(1,2) by (simp add: direct_not_inferred filter_empty_conv)
  have ok: "edges_ok ?db" using new(1,3) sources standing_edges_ok [OF st(1)] by (auto simp: edges_ok_def list_all_iff)
  have "standing e cfg parse ?db"
    by (rule standing_by_view [OF st(1) same direct _ _ ok])
      (use st(1) in \<open>simp_all add: standing_def index_ok_def summaries_ok_def unique_documents_def nodes_kept_def node_rows_def node_documents_def\<close>)
  then show "standing e cfg parse (synth_run_all c parse db)" by (simp add: es(2))
  have "targets_named ?db" using new(1,2) st(2) by (auto simp: targets_named_def list_all_iff filter_empty_conv)
  then show "targets_named (synth_run_all c parse db)" by (simp add: es(2))
qed

lemma later_stages_run:
  assumes "standing e cfg (ie_parse (pl_index p)) db"
  shows "standing e cfg (ie_parse (pl_index p)) (later_stages p db)" "targets_named (later_stages p db)"
proof -
  have "i_edges (overwrite_rust_trait_bases (purge_heuristic_edges db)) = filter direct (i_edges db)"
    by (subst overwrite_view(1)) (simp add: purge_heuristic_edges_def)
  then have "filter inferred (i_edges (overwrite_rust_trait_bases (purge_heuristic_edges db))) = []"
    by (simp add: direct_not_inferred filter_empty_conv)
  then show "standing e cfg (ie_parse (pl_index p)) (later_stages p db)" "targets_named (later_stages p db)"
    unfolding later_stages_def using synth_run [OF overwrite_standing [OF purge_standing [OF assms]]] by blast+
qed

lemma kinds_standing: "standing e cfg parse db \<Longrightarrow> standing e cfg parse (compute_file_kinds_for p ps db)"
proof -
  assume st: "standing e cfg parse db"
  have "f_path ` set (map (\<lambda>f. if f_path f \<in> set ps then f\<lparr>f_kind_hint := Some (kind_of p db (f_path f))\<rparr> else f) (i_files db)) = f_path ` set (i_files db)"
    (is "f_path ` set ?fs = _")
  proof -
    have "map f_path ?fs = map f_path (i_files db)" by simp
    then show ?thesis by (metis list.set_map)
  qed
  then show ?thesis
    using st standing_edges_ok [OF st] by (intro standing_by_view [OF st kinds_view])
      (simp_all add: kinds_files edges_ok_def standing_def index_ok_def summaries_ok_def unique_documents_def nodes_kept_def node_rows_def node_documents_def)
qed

lemma clusters_standing: "standing e cfg parse db \<Longrightarrow> standing e cfg parse (detect_clusters_for p scope db)"
proof -
  assume st: "standing e cfg parse db"
  have "cluster_step db (detect_clusters_for p scope db)" by (rule cluster_step_detect)
  then show ?thesis
    using st standing_edges_ok [OF st] by (intro standing_by_view [OF st]) (simp_all add: cluster_step_def same_view_def edges_ok_def standing_def index_ok_def)
qed

text \<open>What scans leave behind: in order, with every kind up to date.\<close>

definition finished :: "scan_env \<Rightarrow> pipeline \<Rightarrow> index_db \<Rightarrow> bool" where
  "finished e p db \<longleftrightarrow> standing e (pl_config p) (ie_parse (pl_index p)) db \<and> kinds_settled p db \<and> targets_named db"

lemma cluster_finished:
  assumes "standing e (pl_config p) (ie_parse (pl_index p)) db" "kinds_settled p db" "targets_named db"
  shows "finished e p (detect_clusters_for p scope db)"
  using clusters_standing [OF assms(1), of p scope] cluster_step_detect [of db p scope] assms(2,3)
  by (simp add: finished_def cluster_step_def kinds_settled_def targets_named_def kind_of_def)

lemma full_kinds_settled: "kinds_settled p (compute_file_kinds p db)"
  by (auto simp: kinds_settled_def compute_file_kinds_def kinds_files kind_of_def list_all_iff)

lemma postprocess_later: "postprocess_run p db = detect_clusters p (compute_file_kinds p (later_stages p (full_resolution (pl_config p) (ie_parse (pl_index p)) db)))"
  by (simp add: postprocess_run_def later_stages_def Let_def)

lemma full_finished:
  assumes "standing e (pl_config p) (ie_parse (pl_index p)) (full_resolution (pl_config p) (ie_parse (pl_index p)) db)"
  shows "finished e p (postprocess_run p db)"
proof -
  note later = later_stages_run [OF assms]
  have "targets_named (compute_file_kinds p (later_stages p (full_resolution (pl_config p) (ie_parse (pl_index p)) db)))"
    using later(2) by (simp add: targets_named_def compute_file_kinds_def kinds_files)
  then show ?thesis
    unfolding postprocess_later detect_clusters_def
    by (intro cluster_finished full_kinds_settled) (simp_all add: compute_file_kinds_def kinds_standing later(1))
qed

section \<open>The candidates play no part\<close>

lemma resolve_all_tables: "\<exists>es cs. fold (resolve_edge cfg parse d) xs db = db\<lparr>i_edges := es, i_candidates := cs\<rparr>"
proof (induction xs arbitrary: db)
  case Nil
  show ?case by (intro exI [of _ "i_edges db"] exI [of _ "i_candidates db"]) simp
next
  case (Cons x xs)
  have "\<exists>es cs. resolve_edge cfg parse d x db = db\<lparr>i_edges := es, i_candidates := cs\<rparr>"
    by (intro exI [of _ "i_edges (resolve_edge cfg parse d x db)"] exI [of _ "i_candidates (resolve_edge cfg parse d x db)"]) (simp add: resolve_edge_def Let_def)
  then obtain es cs where one: "resolve_edge cfg parse d x db = db\<lparr>i_edges := es, i_candidates := cs\<rparr>" by blast
  obtain es' cs' where "fold (resolve_edge cfg parse d) xs (resolve_edge cfg parse d x db) = (resolve_edge cfg parse d x db)\<lparr>i_edges := es', i_candidates := cs'\<rparr>"
    using Cons.IH by blast
  then show ?case unfolding one by (intro exI [of _ es'] exI [of _ cs']) (simp add: one)
qed

lemma resolution_tables:
  obtains es cs where "full_resolution cfg parse db = db\<lparr>i_edges := es, i_candidates := cs\<rparr>"
proof -
  obtain es cs where "full_resolution cfg parse db = (reset_direct_edge_resolution db)\<lparr>i_edges := es, i_candidates := cs\<rparr>"
    unfolding full_resolution_def resolve_call_edges_def resolve_call_edges_filtered_def Let_def using resolve_all_tables by blast
  then show thesis by (intro that) (simp add: reset_direct_edge_resolution_def)
qed

lemma targeted_tables:
  obtains es cs where "incremental_resolution cfg parse delta db = db\<lparr>i_edges := es, i_candidates := cs\<rparr>"
proof -
  obtain es cs where "incremental_resolution cfg parse delta db = (reset_targets (target_ids parse delta db) db)\<lparr>i_edges := es, i_candidates := cs\<rparr>"
    unfolding incremental_resolution_def resolve_call_edges_filtered_def Let_def using resolve_all_tables by blast
  then show thesis by (intro that) (simp add: reset_targets_def)
qed

text \<open>With the same edges the two resolutions differ in the table of candidates at most.\<close>

lemma resolutions_differ:
  assumes "i_edges (incremental_resolution cfg parse delta db) = i_edges (full_resolution cfg parse db)"
  shows "full_resolution cfg parse db = (incremental_resolution cfg parse delta db)\<lparr>i_candidates := i_candidates (full_resolution cfg parse db)\<rparr>"
proof -
  obtain es cs where full: "full_resolution cfg parse db = db\<lparr>i_edges := es, i_candidates := cs\<rparr>" by (rule resolution_tables)
  obtain es' cs' where some: "incremental_resolution cfg parse delta db = db\<lparr>i_edges := es', i_candidates := cs'\<rparr>" by (rule targeted_tables)
  show ?thesis using assms unfolding full some by simp
qed

lemma overwrite_symbols: "i_symbols (overwrite_rust_trait_bases (db\<lparr>i_candidates := c\<rparr>)) = i_symbols (overwrite_rust_trait_bases db)"
proof -
  have run: "i_symbols (fold (overwrite_bases m) ss (x\<lparr>i_candidates := c\<rparr>)) = i_symbols (fold (overwrite_bases m) ss x)" for m ss x
  proof (induction ss arbitrary: x)
    case (Cons s ss)
    have "overwrite_bases m s (x\<lparr>i_candidates := c\<rparr>) = (overwrite_bases m s x)\<lparr>i_candidates := c\<rparr>" by (simp add: overwrite_bases_def)
    then show ?case using Cons by simp
  qed simp
  have "same_facts db (db\<lparr>i_candidates := c\<rparr>)" by (simp add: same_facts_def)
  note reads = same_facts_reads [OF this]
  have "add_trait (db\<lparr>i_candidates := c\<rparr>) = add_trait db" by (simp add: add_trait_def reads)
  then have "merged_traits (db\<lparr>i_candidates := c\<rparr>) = merged_traits db" by (simp add: merged_traits_def reads)
  then show ?thesis by (simp add: overwrite_rust_trait_bases_def run)
qed

lemma later_candidates: "later_stages p (db\<lparr>i_candidates := c\<rparr>) = (later_stages p db)\<lparr>i_candidates := c\<rparr>"
proof -
  let ?d = "purge_heuristic_edges db"
  have purge: "purge_heuristic_edges (db\<lparr>i_candidates := c\<rparr>) = ?d\<lparr>i_candidates := c\<rparr>" by (simp add: purge_heuristic_edges_def)
  have over: "overwrite_rust_trait_bases (?d\<lparr>i_candidates := c\<rparr>) = (overwrite_rust_trait_bases ?d)\<lparr>i_candidates := c\<rparr>"
  proof -
    have "overwrite_rust_trait_bases (?d\<lparr>i_candidates := c\<rparr>) = ?d\<lparr>i_candidates := c, i_symbols := i_symbols (overwrite_rust_trait_bases (?d\<lparr>i_candidates := c\<rparr>))\<rparr>"
      by (rule overwrite_view(1))
    also have "\<dots> = (?d\<lparr>i_symbols := i_symbols (overwrite_rust_trait_bases ?d)\<rparr>)\<lparr>i_candidates := c\<rparr>" by (simp add: overwrite_symbols)
    also have "?d\<lparr>i_symbols := i_symbols (overwrite_rust_trait_bases ?d)\<rparr> = overwrite_rust_trait_bases ?d" by (rule overwrite_view(1) [symmetric])
    finally show ?thesis .
  qed
  have insert: "fold insert_inferred es (x\<lparr>i_candidates := c\<rparr>) = (fold insert_inferred es x)\<lparr>i_candidates := c\<rparr>" for es x
  proof (induction es arbitrary: x)
    case (Cons y es)
    have "insert_inferred y (x\<lparr>i_candidates := c\<rparr>) = (insert_inferred y x)\<lparr>i_candidates := c\<rparr>" by (simp add: insert_inferred_def)
    then show ?case using Cons by simp
  qed simp
  have synth: "synth_run_all k parse (x\<lparr>i_candidates := c\<rparr>) = (synth_run_all k parse x)\<lparr>i_candidates := c\<rparr>" for k parse x
  proof -
    obtain es where "\<forall>x'. same_facts x x' \<longrightarrow> synth_run_all k parse x' = fold insert_inferred es x'"
      using synth_adds [of k parse x] unfolding adds_edges_def by blast
    then have "synth_run_all k parse (x\<lparr>i_candidates := c\<rparr>) = fold insert_inferred es (x\<lparr>i_candidates := c\<rparr>)" "synth_run_all k parse x = fold insert_inferred es x"
      by (simp_all add: same_facts_def)
    then show ?thesis by (simp add: insert)
  qed
  show ?thesis unfolding later_stages_def purge over synth ..
qed

section \<open>Files that are not affected\<close>

definition affected_files :: "pipeline \<Rightarrow> ScanDelta \<Rightarrow> index_db \<Rightarrow> ucs list" where
  "affected_files p delta db =
     (let cfg = pl_config p; parse = ie_parse (pl_index p); ids = target_ids parse delta db; db1 = incremental_resolution cfg parse delta db
      in btree_set (touched_files delta @ target_files ids db @ map e_source_file (filter (\<lambda>x. e_id x \<in> set ids) (i_edges db)) @
           target_files ids db1 @ snapshot_changes (inferred_snapshot db1) (inferred_snapshot (later_stages p db1))))"

lemma incremental_later:
  "run_incremental p delta db = detect_clusters_for p (btree_set (map top_group (affected_files p delta db)))
     (compute_file_kinds_for p (affected_files p delta db) (later_stages p (incremental_resolution (pl_config p) (ie_parse (pl_index p)) delta db)))"
  unfolding run_incremental_def affected_files_def later_stages_def Let_def append_assoc ..

lemma count_by_key:
  assumes "\<And>k. P k \<Longrightarrow> count_where (\<lambda>k'. k' = k) xs = count_where (\<lambda>k'. k' = k) ys"
  shows "count_where P xs = count_where P ys"
proof -
  have size: "count_where Q zs = size (filter_mset Q (mset zs))" for Q and zs :: "'a list" by (simp add: count_where_def flip: mset_filter)
  have count: "count_where (\<lambda>k'. k' = k) zs = Multiset.count (mset zs) k" for k and zs :: "'a list"
    by (induction zs) (auto simp: count_where_def)
  have "filter_mset P (mset xs) = filter_mset P (mset ys)"
    by (rule multiset_eqI) (use assms in \<open>simp add: count\<close>)
  then show ?thesis by (simp add: size)
qed

lemma snapshot_same:
  assumes "path \<notin> set (snapshot_changes older newer)" "fst k = path"
  shows "count_where (\<lambda>k'. k' = k) older = count_where (\<lambda>k'. k' = k) newer"
proof (rule ccontr)
  assume differ: "\<not> ?thesis"
  have "count_where (\<lambda>k'. k' = k) xs = 0" if "k \<notin> set xs" for xs using that by (auto simp: count_where_def filter_empty_conv)
  then have "k \<in> set older \<or> k \<in> set newer" using differ by metis
  then have "k \<in> set (older @ newer)" by simp
  then have km: "k \<in> set (filter (\<lambda>k. count_where (\<lambda>k'. k' = k) older \<noteq> count_where (\<lambda>k'. k' = k) newer) (older @ newer))" using differ by simp
  obtain source callee_file q where k: "k = (source, callee_file, q)" by (cases k)
  have "(if callee_file = [] then [source] else [source, callee_file]) \<in> set (map (\<lambda>(source_file, callee_file, _).
      if callee_file = [] then [source_file] else [source_file, callee_file]) (filter (\<lambda>k. count_where (\<lambda>k'. k' = k) older \<noteq> count_where (\<lambda>k'. k' = k) newer) (older @ newer)))"
    unfolding set_map by (rule image_eqI [OF _ km]) (simp add: k)
  moreover have "path \<in> set (if callee_file = [] then [source] else [source, callee_file])" using assms(2) k by simp
  ultimately have "path \<in> set (snapshot_changes older newer)" unfolding snapshot_changes_def set_concat by blast
  then show False using assms(1) by simp
qed

text \<open>The edges inside a file, counted for its kind.\<close>

definition inside :: "ucs \<Rightarrow> edge_row \<Rightarrow> bool" where
  "inside path x \<longleftrightarrow> e_source_file x = path \<and> e_callee_file x = Some path"

lemma count_split: "count_where P xs = count_where (\<lambda>x. P x \<and> Q x) xs + count_where (\<lambda>x. P x \<and> \<not> Q x) xs"
  by (induction xs) (auto simp: count_where_def)

lemma snapshot_inside:
  assumes "\<forall>x \<in> set (i_edges db). inferred x \<and> e_source_file x = path \<longrightarrow> e_callee_file x \<noteq> None"
  shows "count_where (\<lambda>x. inside path x \<and> inferred x) (i_edges db) = count_where (\<lambda>k. fst k = path \<and> fst (snd k) = path) (inferred_snapshot db)"
proof -
  have "filter (\<lambda>x. inside path x \<and> inferred x) (i_edges db) = filter (\<lambda>x. fst (snapshot_key x) = path \<and> fst (snd (snapshot_key x)) = path) (filter inferred (i_edges db))"
    unfolding filter_filter by (rule filter_cong) (use assms in \<open>auto simp: inside_def snapshot_key_def split: option.splits\<close>)
  then show ?thesis by (simp add: count_where_def inferred_snapshot_def filter_map comp_def)
qed

section \<open>Agreement\<close>

lemma untouched_same:
  assumes "filter (\<lambda>x. k x \<notin> set ts) xs = filter (\<lambda>x. k x \<notin> set ts) ys" "path \<notin> set ts"
  shows "filter (\<lambda>x. k x = path) xs = filter (\<lambda>x. k x = path) ys"
proof -
  have "filter (\<lambda>x. k x = path) zs = filter (\<lambda>x. k x = path) (filter (\<lambda>x. k x \<notin> set ts) zs)" for zs
    unfolding filter_filter by (rule filter_cong) (use assms(2) in auto)
  then show ?thesis using assms(1) by metis
qed

lemma kind_unaffected:
  assumes tracked: "tracked delta db0 db" and named: "targets_named db0" and ids: "distinct (map e_id (i_edges db))"
    and path: "path \<notin> set (affected_files p delta db)"
  defines "later \<equiv> later_stages p (incremental_resolution (pl_config p) (ie_parse (pl_index p)) delta db)"
  assumes later: "targets_named later" "same_view db later"
    and direct: "filter direct (i_edges later) = filter direct (i_edges (incremental_resolution (pl_config p) (ie_parse (pl_index p)) delta db))"
  shows "kind_of p later path = kind_of p db0 path"
proof -
  let ?parse = "ie_parse (pl_index p)" and ?ids = "target_ids (ie_parse (pl_index p)) delta db"
  let ?db1 = "incremental_resolution (pl_config p) (ie_parse (pl_index p)) delta db"
  have out: "path \<notin> set (touched_files delta)" "path \<notin> set (map e_source_file (filter (\<lambda>x. e_id x \<in> set ?ids) (i_edges db)))"
    "path \<notin> set (snapshot_changes (inferred_snapshot ?db1) (inferred_snapshot later))"
    using path unfolding affected_files_def Let_def later_def by simp_all
  have symbols: "count_where (\<lambda>s. s_file_path s = path) (i_symbols later) = count_where (\<lambda>s. s_file_path s = path) (i_symbols db0)"
  proof -
    have "map symbol_view (i_symbols later) = map symbol_view (i_symbols db)" using later(2) by (simp add: same_view_def)
    then have "map s_file_path (i_symbols later) = map s_file_path (i_symbols db)" by (rule same_views_map) simp
    moreover have "count_where (\<lambda>s. s_file_path s = path) ss = length (filter (\<lambda>q. q = path) (map s_file_path ss))" for ss
      by (simp add: count_where_def filter_map comp_def)
    note count = this
    ultimately have "count_where (\<lambda>s. s_file_path s = path) (i_symbols later) = count_where (\<lambda>s. s_file_path s = path) (i_symbols db)" by (simp only: count)
    moreover have "filter (\<lambda>s. s_file_path s = path) (i_symbols db) = filter (\<lambda>s. s_file_path s = path) (i_symbols db0)"
      by (rule untouched_same [OF _ out(1)]) (use tracked in \<open>simp add: tracked_def\<close>)
    ultimately show ?thesis by (simp add: count_where_def)
  qed
  have old: "filter (\<lambda>x. e_source_file x = path) (i_edges db) = filter (\<lambda>x. e_source_file x = path) (i_edges db0)"
    by (rule untouched_same [OF _ out(1)]) (use tracked in \<open>simp add: tracked_def\<close>)
  have "?ids = map e_id (filter (targeted ?parse delta db) (i_edges db))" by (simp add: target_ids_def targeted_def [abs_def] Let_def)
  then have "\<not> targeted ?parse delta db x" if "x \<in> set (i_edges db)" "e_source_file x = path" for x
    using out(2) that by auto
  then have "filter (\<lambda>x. e_source_file x = path) (i_edges ?db1) = filter (\<lambda>x. e_source_file x = path) (i_edges db)"
  proof -
    have source: "e_source_file (if targeted ?parse delta db x then edge_spec (pl_config p) ?parse db x else x) = e_source_file x" for x
      by (simp add: edge_spec_def resolved_edge_def clear_edge_def Let_def)
    show "filter (\<lambda>x. e_source_file x = path) (i_edges ?db1) = filter (\<lambda>x. e_source_file x = path) (i_edges db)"
      if "\<And>x. x \<in> set (i_edges db) \<Longrightarrow> e_source_file x = path \<Longrightarrow> \<not> targeted ?parse delta db x"
      unfolding incremental_resolution_rows(1) [OF ids] filter_map comp_def source by (rule map_idI) (use that in auto)
  qed
  then have same: "filter (\<lambda>x. e_source_file x = path) (i_edges ?db1) = filter (\<lambda>x. e_source_file x = path) (i_edges db0)" using old by simp
  have parts: "count_where (\<lambda>x. inside path x \<and> Q x) xs = length (filter (\<lambda>x. inside path x \<and> Q x) (filter (\<lambda>x. e_source_file x = path) xs))" for Q xs
    unfolding filter_filter count_where_def by (rule arg_cong [where f = length], rule filter_cong) (auto simp: inside_def)
  have "count_where (\<lambda>x. inside path x \<and> \<not> inferred x) (i_edges later) = count_where (\<lambda>x. inside path x) (filter direct (i_edges later))"
    by (simp add: count_where_def direct_not_inferred conj_commute)
  also have "\<dots> = count_where (\<lambda>x. inside path x \<and> \<not> inferred x) (i_edges ?db1)"
    unfolding direct by (simp add: count_where_def direct_not_inferred conj_commute)
  also have "\<dots> = count_where (\<lambda>x. inside path x \<and> \<not> inferred x) (i_edges db0)" unfolding parts same ..
  finally have directs: "count_where (\<lambda>x. inside path x \<and> \<not> inferred x) (i_edges later) = count_where (\<lambda>x. inside path x \<and> \<not> inferred x) (i_edges db0)" .
  have "x \<in> set (i_edges db0)" if "x \<in> set (i_edges ?db1)" "e_source_file x = path" for x
    using arg_cong [OF same, of set] that by auto
  then have named1: "\<forall>x \<in> set (i_edges ?db1). inferred x \<and> e_source_file x = path \<longrightarrow> e_callee_file x \<noteq> None"
    using named by (auto simp: targets_named_def list_all_iff)
  have "count_where (\<lambda>x. inside path x \<and> inferred x) (i_edges later) = count_where (\<lambda>k. fst k = path \<and> fst (snd k) = path) (inferred_snapshot later)"
    by (rule snapshot_inside) (use later(1) in \<open>auto simp: targets_named_def list_all_iff\<close>)
  also have "\<dots> = count_where (\<lambda>k. fst k = path \<and> fst (snd k) = path) (inferred_snapshot ?db1)"
    by (rule count_by_key) (use snapshot_same [OF out(3)] in auto)
  also have "\<dots> = count_where (\<lambda>x. inside path x \<and> inferred x) (i_edges ?db1)" using snapshot_inside [OF named1] by simp
  also have "\<dots> = count_where (\<lambda>x. inside path x \<and> inferred x) (i_edges db0)" unfolding parts same ..
  finally have "count_where (inside path) (i_edges later) = count_where (inside path) (i_edges db0)"
    using directs count_split [of "inside path" "i_edges later" inferred] count_split [of "inside path" "i_edges db0" inferred] by simp
  then show ?thesis using symbols by (simp add: kind_of_def inside_def [abs_def])
qed

lemma later_frame:
  "i_files (later_stages p db) = i_files db" "i_candidates (later_stages p db) = i_candidates db"
  "filter direct (i_edges (later_stages p db)) = filter direct (i_edges db)" "same_view db (later_stages p db)"
proof -
  let ?d = "overwrite_rust_trait_bases (purge_heuristic_edges db)"
  have d: "i_files ?d = i_files db" "i_candidates ?d = i_candidates db" "i_edges ?d = filter direct (i_edges db)"
    by (subst overwrite_view(1), simp add: purge_heuristic_edges_def)+
  have v: "same_view db ?d" using overwrite_view(2) [of "purge_heuristic_edges db"] d(1) by (simp add: same_view_def purge_heuristic_edges_def)
  obtain es where es: "later_stages p db = fold insert_inferred es ?d"
    using synth_adds [of "pl_config p" "ie_parse (pl_index p)" ?d] unfolding adds_edges_def later_stages_def by (auto simp: same_facts_def)
  obtain new where "i_edges (fold insert_inferred es ?d) = i_edges ?d @ new" "\<forall>r \<in> set new. inferred r" using insert_inferred_rows [of es ?d] by blast
  moreover from this(2) have "filter direct new = []" by (simp add: direct_not_inferred filter_empty_conv)
  ultimately show "i_files (later_stages p db) = i_files db" "i_candidates (later_stages p db) = i_candidates db"
    "filter direct (i_edges (later_stages p db)) = filter direct (i_edges db)" "same_view db (later_stages p db)"
    using d v by (simp_all add: es same_view_def)
qed

lemma incremental_kinds:
  assumes tracked: "tracked delta db0 db" and old: "targets_named db0" "kinds_settled p db0" and ids: "distinct (map e_id (i_edges db))"
  defines "later \<equiv> later_stages p (incremental_resolution (pl_config p) (ie_parse (pl_index p)) delta db)"
  assumes named: "targets_named later"
  shows "compute_file_kinds_for p (affected_files p delta db) later = compute_file_kinds p later"
proof -
  have files: "i_files later = i_files db" by (simp add: later_def later_frame)
  have "same_view db (incremental_resolution (pl_config p) (ie_parse (pl_index p)) delta db)" by (simp add: same_view_def)
  then have view: "same_view db later" unfolding later_def using later_frame(4) same_view_trans by blast
  have kept: "f\<lparr>f_kind_hint := Some (kind_of p later (f_path f))\<rparr> = f"
    if f: "f \<in> set (i_files later)" "f_path f \<notin> set (affected_files p delta db)" for f
  proof -
    have "f_path f \<notin> set (touched_files delta)" using f(2) by (simp add: affected_files_def Let_def)
    then have "f \<in> set (filter (\<lambda>f. f_path f \<notin> set (touched_files delta)) (i_files db))" using f(1) files by simp
    also have "\<dots> = set (filter (\<lambda>f. f_path f \<notin> set (touched_files delta)) (i_files db0))" using tracked by (simp add: tracked_def)
    finally have "f_kind_hint f = Some (kind_of p db0 (f_path f))" using old(2) by (simp add: kinds_settled_def list_all_iff)
    moreover have "kind_of p later (f_path f) = kind_of p db0 (f_path f)"
      unfolding later_def by (rule kind_unaffected [OF tracked old(1) ids f(2)])
        (use named view later_frame(3) in \<open>simp_all add: later_def\<close>)
    ultimately show ?thesis by simp
  qed
  show ?thesis
    unfolding compute_file_kinds_def kinds_files
    by (rule arg_cong [where f = "\<lambda>fs. later\<lparr>i_files := fs\<rparr>"], rule map_cong [OF refl]) (use kept in auto)
qed

lemma incremental_finished:
  assumes old: "finished e p db0" and scan: "scan_ok e True db0 st db" and empty: "parse_array (ie_parse (pl_index p)) (lit ''[]'') = []"
  shows "finished e p (run_incremental p (ss_delta st) db)"
    "i_files (run_incremental p (ss_delta st) db) = i_files (postprocess_run p db)"
    "i_symbols (run_incremental p (ss_delta st) db) = i_symbols (postprocess_run p db)"
    "i_edges (run_incremental p (ss_delta st) db) = i_edges (postprocess_run p db)"
    "rows_for i (run_incremental p (ss_delta st) db) = rows_for i (postprocess_run p db)"
proof -
  let ?cfg = "pl_config p" and ?parse = "ie_parse (pl_index p)" and ?delta = "ss_delta st"
  let ?inc = "incremental_resolution ?cfg ?parse ?delta db" and ?full = "full_resolution ?cfg ?parse db"
  have st: "standing e ?cfg ?parse db0" "kinds_settled p db0" "targets_named db0" using old by (simp_all add: finished_def)
  then have ok: "index_ok db0" "settled ?cfg ?parse db0" by (simp_all add: standing_def)
  note agree = incremental_agrees [OF ok(2) tracked_hands_over [OF scan ok(1)] empty]
  have inc: "standing e ?cfg ?parse ?inc" using agree by (intro standing_by_resolution [OF scan resolution_edges_only(2)]) blast
  note later = later_stages_run [OF inc]
  have tracked: "tracked ?delta db0 db" "distinct (map e_id (i_edges db))" using scan by (simp_all add: scan_ok_def index_ok_def)
  let ?kinds = "compute_file_kinds p (later_stages p ?inc)"
  have run: "run_incremental p ?delta db = detect_clusters_for p (btree_set (map top_group (affected_files p ?delta db))) ?kinds"
    unfolding incremental_later incremental_kinds [OF tracked(1) st(3,2) tracked(2) later(2)] ..
  have same: "later_stages p ?full = (later_stages p ?inc)\<lparr>i_candidates := i_candidates ?full\<rparr>"
    using agree resolutions_differ later_candidates by metis
  have kinds: "compute_file_kinds p (later_stages p ?full) = ?kinds\<lparr>i_candidates := i_candidates ?full\<rparr>"
    unfolding same by (simp add: compute_file_kinds_def kinds_files kind_of_def)
  show "finished e p (run_incremental p ?delta db)"
    unfolding run
  proof (rule cluster_finished [OF _ full_kinds_settled])
    show "standing e ?cfg ?parse ?kinds" unfolding compute_file_kinds_def by (rule kinds_standing [OF later(1)])
    show "targets_named ?kinds" using later(2) by (simp add: targets_named_def compute_file_kinds_def kinds_files)
  qed
  have step: "cluster_step ?kinds (run_incremental p ?delta db)" "cluster_step (compute_file_kinds p (later_stages p ?full)) (postprocess_run p db)"
    unfolding run postprocess_later detect_clusters_def by (rule cluster_step_detect)+
  then show "i_files (run_incremental p ?delta db) = i_files (postprocess_run p db)"
    "i_symbols (run_incremental p ?delta db) = i_symbols (postprocess_run p db)"
    "i_edges (run_incremental p ?delta db) = i_edges (postprocess_run p db)"
    unfolding kinds by (simp_all add: cluster_step_def)
  have "i_candidates ?kinds = i_candidates ?inc" by (simp add: compute_file_kinds_def kinds_files later_frame)
  then show "rows_for i (run_incremental p ?delta db) = rows_for i (postprocess_run p db)"
    using step agree unfolding kinds by (simp add: cluster_step_def rows_for_def)
qed

section \<open>Properties\<close>

text \<open>
  C9.  A whole scan, its writes with all the stages after them.  A full scan succeeds on a well-formed index, in
  whatever order its workers deliver, leaves no file outside the scanned ones and finishes: the index is well
  formed, documents mirror their nodes, direct edges are resolved, every file carries its kind.  From a finished
  index an incremental scan succeeds and finishes again, with the files and their kinds, the symbols with their bases,
  the edges, synthesised ones included, and the candidates that running every stage in full would give.
\<close>

theorem scans_finish:
  assumes "index_ok db0" "rows_owned db0" "all_mirrored (sc_index e) db0"
    and "\<forall>t \<in> set files \<union> set requested. plain_path (fst t)" "\<And>xs. mset (sc_schedule e xs) = mset xs"
    and "parse_array (ie_parse (pl_index p)) (lit ''[]'') = []"
  shows "(\<exists>st db. scan_full_writes e cfg small files db0 = (Inr st, db) \<and> f_path ` set (i_files db) \<subseteq> fst ` set files \<and>
      finished e p (postprocess_run p db)) \<and>
    (finished e p db0 \<longrightarrow> (\<exists>st db. scan_files_writes e cfg join_root small requested db0 = (Inr st, db) \<and>
      (let inc = run_incremental p (ss_delta st) db; full = postprocess_run p db
       in finished e p inc \<and> i_files inc = i_files full \<and> i_symbols inc = i_symbols full \<and> i_edges inc = i_edges full \<and>
          (\<forall>i. rows_for i inc = rows_for i full))))"
proof (intro conjI impI)
  have "\<forall>t \<in> set files. plain_path (fst t)" using assms(4) by blast
  then obtain st db where "scan_full_writes e cfg small files db0 = (Inr st, db)" "f_path ` set (i_files db) \<subseteq> fst ` set files"
    "standing e (pl_config p) (ie_parse (pl_index p)) (full_resolution (pl_config p) (ie_parse (pl_index p)) db)"
    by (rule full_scan_standing [OF assms(1-3) _ assms(5), of files cfg small "pl_config p" "ie_parse (pl_index p)"])
  then show "\<exists>st db. scan_full_writes e cfg small files db0 = (Inr st, db) \<and> f_path ` set (i_files db) \<subseteq> fst ` set files \<and>
      finished e p (postprocess_run p db)" using full_finished by blast
  assume old: "finished e p db0"
  then have "settled (pl_config p) (ie_parse (pl_index p)) db0" by (simp add: finished_def standing_def)
  then have start: "scan_ok e True db0 start_state db0" by (rule start_scan_ok [OF assms(1-3)])
  have "\<forall>r \<in> set requested. plain_path (fst r)" using assms(4) by blast
  then obtain st db where "scan_files_writes e cfg join_root small requested db0 = (Inr st, db)" "scan_ok e True db0 st db"
    using scan_files_run [OF start _ assms(5)] by blast
  then show "\<exists>st db. scan_files_writes e cfg join_root small requested db0 = (Inr st, db) \<and>
      (let inc = run_incremental p (ss_delta st) db; full = postprocess_run p db
       in finished e p inc \<and> i_files inc = i_files full \<and> i_symbols inc = i_symbols full \<and> i_edges inc = i_edges full \<and>
          (\<forall>i. rows_for i inc = rows_for i full))"
    unfolding Let_def using incremental_finished [OF old _ assms(6)] by blast
qed

definition demo_pipeline :: pipeline where
  "demo_pipeline = \<lparr>pl_config = demo_config, pl_index = demo_env, pl_low_cohesion = (\<lambda>intra n. 4 * intra < n), pl_sparse = (\<lambda>k n. 2 * k < n)\<rparr>"

lemma empty_index_finished: "finished demo_scan demo_pipeline empty_index"
  using empty_index_ok by (simp add: finished_def standing_def rows_owned_def settled_def demo_scan_def) (simp add: empty_index_def kinds_settled_def targets_named_def)

text \<open>The first incremental scan of a new index, with one Python file on disk.\<close>

theorem scans_finish_witness:
  "\<exists>st db. scan_files_writes demo_scan \<lparr>exclusions = [], layers = []\<rparr> id True [(lit ''a.py'', lit ''/r/a.py'')] empty_index = (Inr st, db) \<and>
     finished demo_scan demo_pipeline (run_incremental demo_pipeline (ss_delta st) db)"
proof -
  have "\<forall>t \<in> set [] \<union> set [(lit ''a.py'', lit ''/r/a.py'')]. plain_path (fst t)"
    using demo_facts_ok(1) by (simp add: facts_ok_def) (simp add: demo_facts_def)
  moreover have "parse_array (ie_parse (pl_index demo_pipeline)) (lit ''[]'') = []"
    by (simp add: demo_pipeline_def) code_simp
  moreover have "mset (sc_schedule demo_scan xs) = mset xs" for xs by (simp add: demo_scan_def)
  moreover note empty_index_finished
  moreover have "index_ok empty_index" "rows_owned empty_index" "all_mirrored (sc_index demo_scan) empty_index"
    using empty_index_finished by (simp_all add: finished_def standing_def)
  ultimately show ?thesis
    using scans_finish [of empty_index demo_scan "[]" "[(lit ''a.py'', lit ''/r/a.py'')]" demo_pipeline "\<lparr>exclusions = [], layers = []\<rparr>" True id]
    by (auto simp: Let_def)
qed

end
