(* ===== verification/Events.thy ===== *)
theory Events
  imports StageFrame
begin

text \<open>
  The edges of events are the pairs of an emitter and a handler of the same signal, all of them and no other.
\<close>

section \<open>Exact passes\<close>

text \<open>A pass adds edges with exactly these keys.\<close>

definition adds_exactly :: "(ucs \<times> ucs \<times> ucs \<times> ucs) set \<Rightarrow> (index_db \<Rightarrow> index_db) \<Rightarrow> index_db \<Rightarrow> bool" where
  "adds_exactly K pass db \<longleftrightarrow> (\<exists>es. edge_key ` set es = K \<and> (\<forall>db'. same_facts db db' \<longrightarrow> pass db' = fold insert_inferred es db'))"

lemma adds_exactly_comp:
  assumes "adds_exactly K f db" "adds_exactly L g db"
  shows "adds_exactly (K \<union> L) (\<lambda>d. g (f d)) db"
proof -
  obtain es where es: "edge_key ` set es = K" "\<forall>db'. same_facts db db' \<longrightarrow> f db' = fold insert_inferred es db'" using assms(1) unfolding adds_exactly_def by blast
  obtain es' where es': "edge_key ` set es' = L" "\<forall>db'. same_facts db db' \<longrightarrow> g db' = fold insert_inferred es' db'" using assms(2) unfolding adds_exactly_def by blast
  have "g (f db') = fold insert_inferred (es @ es') db'" if "same_facts db db'" for db'
  proof -
    have "same_facts db (fold insert_inferred es db')" using that by (simp add: same_facts_def)
    then show ?thesis using es(2) es'(2) that by simp
  qed
  then show ?thesis using es(1) es'(1) unfolding adds_exactly_def by (intro exI [of _ "es @ es'"]) auto
qed

lemma adds_exactly_fold: "(\<And>x. x \<in> set xs \<Longrightarrow> adds_exactly (K x) (f x) db) \<Longrightarrow> adds_exactly (\<Union>x \<in> set xs. K x) (fold f xs) db"
proof (induction xs)
  case Nil
  show ?case unfolding adds_exactly_def by (intro exI [of _ "[]"]) simp
next
  case (Cons x xs)
  then show ?case using adds_exactly_comp [of "K x" "f x" db "\<Union>x \<in> set xs. K x" "fold f xs"] by (simp add: comp_def)
qed

lemma pass_exact:
  assumes "emitting (\<lambda>x. edge_key x \<in> K) F" "\<And>k d. k \<in> K \<Longrightarrow> k \<in> set (fst (F ([], d)))"
    "\<And>db'. same_facts db db' \<Longrightarrow> pass db' = snd (F ([], db'))"
  shows "adds_exactly K pass db"
proof -
  obtain es where es: "\<forall>x \<in> set es. edge_key x \<in> K" "\<forall>db. F ([], db) = ([] @ map edge_key es, fold insert_inferred es db)"
    using assms(1) unfolding emitting_def by blast
  have "edge_key ` set es = K" using es assms(2) by auto
  then show ?thesis unfolding adds_exactly_def using assms(3) es(2) by (intro exI [of _ es]) simp
qed

text \<open>A key that one step of a fold always leaves behind stays.\<close>

lemma fold_leaves:
  assumes "\<And>x. x \<in> set xs \<Longrightarrow> emitting P (f x)" "x \<in> set xs" "\<And>st. k \<in> set (fst (f x st))"
  shows "k \<in> set (fst (fold f xs st))"
proof -
  have keeps: "set (fst st) \<subseteq> set (fst (F st))" if F: "emitting P F" for F st
  proof -
    obtain es where es: "\<forall>db. F (fst st, db) = (fst st @ map edge_key es, fold insert_inferred es db)" using F [unfolded emitting_def, THEN spec, of "fst st"] by blast
    from es [THEN spec, of "snd st"] show ?thesis by simp
  qed
  obtain ys zs where xs: "xs = ys @ x # zs" using split_list [OF assms(2)] by blast
  have "emitting P (fold f zs)" by (rule emitting_fold) (use assms(1) xs in simp)
  then show ?thesis using keeps [of "fold f zs" "f x (fold f ys st)"] assms(3) [of "fold f ys st"] by (auto simp: xs)
qed

section \<open>One pattern\<close>

definition event_keys :: "nat \<Rightarrow> index_db \<Rightarrow> ucs \<times> ucs \<times> ucs \<Rightarrow> (ucs \<times> ucs \<times> ucs \<times> ucs) set" where
  "event_keys cap db = (\<lambda>(emit_type, connect_type, via).
     {edge_key x | x. \<exists>p \<in> set (i_patterns db). \<exists>h \<in> set (i_patterns db). event_related cap db emit_type connect_type via p h x})"

lemma event_target_leaves:
  assumes "\<not> (p_file_path p = h_path \<and> func = h_func)"
  shows "edge_key (event_edge via p func h_path h_func) \<in> set (fst (event_target via p func (h_path, Some h_func) st))"
  using assms by (auto simp: event_target_def Let_def)

lemma list_not_nil: "x \<in> set xs \<Longrightarrow> xs \<noteq> []"
  by auto

lemma map_of_handlers: "map_values m s \<noteq> [] \<Longrightarrow> map_of m s = Some (map_values m s)"
  by (simp add: map_values_def split: option.splits)

lemma signal_pattern_exact: "adds_exactly (event_keys cap db (emit_type, connect_type, via)) (synthesize_signal_pattern cap (emit_type, connect_type, via)) db"
proof -
  let ?es = "emitters db emit_type" and ?names = "btree_set (List.map_filter p_signal_name (emitters db emit_type))"
  let ?targets = "handler_map (handlers db connect_type ?names)" and ?K = "event_keys cap db (emit_type, connect_type, via)"
  let ?F = "\<lambda>st. if ?es = [] \<or> ?names = [] then st else fold (event_emitter via cap ?targets) ?es st"
  have step: "emitting (\<lambda>x. edge_key x \<in> ?K) (event_emitter via cap ?targets p)" if p: "p \<in> set ?es" for p
  proof (rule event_emitter_emits)
    fix signal func h_path h_func ts
    assume eq: "p_signal_name p = Some signal" "p_handler p = Some func" "map_of ?targets signal = Some ts" "length ts \<le> cap"
      "(h_path, Some h_func) \<in> set ts" "\<not> (p_file_path p = h_path \<and> func = h_func)"
    have s: "signal \<in> set ?names" using p eq(1) signal_names_set by blast
    obtain h where h: "h \<in> set (i_patterns db)" "p_type h = connect_type" "p_signal_name h = Some signal" "(h_path, Some h_func) = (p_file_path h, p_handler h)"
      using signal_targets(2) [OF eq(3) s] eq(5) by blast
    have h': "p_file_path h = h_path" "p_handler h = Some h_func" using h(4) by simp_all
    have "count_where (\<lambda>q. p_type q = connect_type \<and> p_signal_name q = Some signal) (i_patterns db) \<le> cap"
      using signal_targets(1) [OF eq(3) s] eq(4) by simp
    then have "event_related cap db emit_type connect_type via p h (event_edge via p func h_path h_func)"
      using p h(1-3) h' eq by (auto simp: event_related_def emitters_set)
    then show "edge_key (event_edge via p func h_path h_func) \<in> ?K"
      unfolding event_keys_def using p h(1) by (auto simp: emitters_set)
  qed
  have complete: "k \<in> set (fst (?F ([], d)))" if k_in: "k \<in> ?K" for k d
  proof -
    obtain p h x where k: "k = edge_key x" "p \<in> set (i_patterns db)" "h \<in> set (i_patterns db)" and related: "event_related cap db emit_type connect_type via p h x"
      using k_in unfolding event_keys_def prod.case mem_Collect_eq by blast
    obtain signal func h_func where names: "p_signal_name p = Some signal" "p_handler p = Some func" "p_handler h = Some h_func" "p_signal_name h = Some signal"
      and types: "p_type p = emit_type" "p_type h = connect_type" and x: "x = event_edge via p func (p_file_path h) h_func"
      and differ: "\<not> (p_file_path p = p_file_path h \<and> func = h_func)"
      and small: "count_where (\<lambda>q. p_type q = connect_type \<and> p_signal_name q = Some signal) (i_patterns db) \<le> cap"
      using related unfolding event_related_def by auto
    have p: "p \<in> set ?es" using k(2) types by (simp add: emitters_set)
    have s: "signal \<in> set ?names" using p names(1) signal_names_set by blast
    have "h \<in> set (filter (\<lambda>q. p_signal_name q = Some signal) (handlers db connect_type ?names))"
      using k(3) types names(4) s by (simp add: handlers_def)
    then have "filter (\<lambda>q. p_signal_name q = Some signal) (handlers db connect_type ?names) \<noteq> []" by (rule list_not_nil)
    then have "map_values ?targets signal \<noteq> []" unfolding handler_map_values map_is_Nil_conv .
    then have "map_of ?targets signal = Some (map_values ?targets signal)" by (rule map_of_handlers)
    then obtain ts where ts: "map_of ?targets signal = Some ts" by (rule that)
    have target: "(p_file_path h, Some h_func) \<in> set ts" using signal_targets(2) [OF ts s] k(3) types names by auto
    have "length ts \<le> cap" using signal_targets(1) [OF ts s] small by simp
    then have run: "event_emitter via cap ?targets p = fold (event_target via p func) ts" by (intro ext) (simp add: event_emitter_def names ts)
    have any: "emitting (\<lambda>_. True) (event_target via p func t)" for t
      using event_target_emits [of "snd t" p "fst t" func "\<lambda>_. True" via] by simp
    have mine: "k \<in> set (fst (event_emitter via cap ?targets p st))" for st
      unfolding run k(1) x by (rule fold_leaves [OF any target]) (rule event_target_leaves [OF differ])
    have "k \<in> set (fst (fold (event_emitter via cap ?targets) ?es ([], d)))" by (rule fold_leaves [where f = "event_emitter via cap ?targets" and x = p and P = "\<lambda>x. edge_key x \<in> ?K"]) (rule step p mine | assumption)+
    moreover have "?es \<noteq> []" "?names \<noteq> []" using p s by auto
    ultimately show ?thesis by simp
  qed
  show ?thesis
  proof (rule pass_exact [where F = ?F])
    show "emitting (\<lambda>x. edge_key x \<in> ?K) ?F" by (intro emitting_if emitting_fold step)
    show "k \<in> set (fst (?F ([], d)))" if "k \<in> ?K" for k d by (rule complete [OF that])
    fix db' assume "same_facts db db'"
    then show "synthesize_signal_pattern cap (emit_type, connect_type, via) db' = snd (?F ([], db'))"
      by (simp add: synthesize_signal_pattern_def same_facts_reads Let_def)
  qed
qed

lemma event_keys_member:
  "(source_file, caller, qualified, via) \<in> event_keys cap db (emit_type, connect_type, v) \<longleftrightarrow>
     (\<exists>p \<in> set (i_patterns db). \<exists>h \<in> set (i_patterns db). \<exists>signal target.
         v = via \<and> p_type p = emit_type \<and> p_type h = connect_type \<and> p_signal_name p = Some signal \<and> p_signal_name h = Some signal \<and>
         p_file_path p = source_file \<and> p_handler p = Some caller \<and> p_handler h = Some target \<and> qualified = qualify (p_file_path h) target \<and>
         (source_file, caller) \<noteq> (p_file_path h, target) \<and>
         count_where (\<lambda>q. p_type q = connect_type \<and> p_signal_name q = Some signal) (i_patterns db) \<le> cap)"
proof -
  have pair: "(\<exists>x. event_related cap db emit_type connect_type v p h x \<and> edge_key x = (source_file, caller, qualified, via)) \<longleftrightarrow> (\<exists>signal target.
         v = via \<and> p_type p = emit_type \<and> p_type h = connect_type \<and> p_signal_name p = Some signal \<and> p_signal_name h = Some signal \<and>
         p_file_path p = source_file \<and> p_handler p = Some caller \<and> p_handler h = Some target \<and> qualified = qualify (p_file_path h) target \<and>
         (source_file, caller) \<noteq> (p_file_path h, target) \<and>
         count_where (\<lambda>q. p_type q = connect_type \<and> p_signal_name q = Some signal) (i_patterns db) \<le> cap)" for p h
    by (cases "p_signal_name p"; cases "p_handler p"; cases "p_handler h") (auto simp: event_related_def event_edge_def edge_key_def)
  show ?thesis unfolding pair [symmetric] event_keys_def prod.case mem_Collect_eq by metis
qed

section \<open>The rows\<close>

definition row_key :: "edge_row \<Rightarrow> ucs \<times> ucs \<times> ucs option \<times> ucs option" where
  "row_key r = (e_source_file r, e_caller r, e_callee_qualified r, e_via r)"

definition some_key :: "ucs \<times> ucs \<times> ucs \<times> ucs \<Rightarrow> ucs \<times> ucs \<times> ucs option \<times> ucs option" where
  "some_key = (\<lambda>(source_file, caller, qualified, via). (source_file, caller, Some qualified, Some via))"

lemma some_key_member: "(a, b, Some q, Some v) \<in> some_key ` K \<longleftrightarrow> (a, b, q, v) \<in> K"
  by (force simp: some_key_def)

definition inferred_rows :: "index_db \<Rightarrow> edge_row list" where
  "inferred_rows db = filter inferred (i_edges db)"

lemma insert_inferred_keys:
  "row_key ` set (inferred_rows (insert_inferred x db)) = insert (some_key (edge_key x)) (row_key ` set (inferred_rows db))"
  "distinct (map row_key (inferred_rows db)) \<Longrightarrow> distinct (map row_key (inferred_rows (insert_inferred x db)))"
proof -
  have found: "list_ex (\<lambda>r. inferred r \<and> e_source_file r = ie_source_file x \<and> e_caller r = ie_caller x \<and>
           e_callee_qualified r = Some (ie_callee_qualified x) \<and> e_via r = Some (ie_via x)) (i_edges db) \<longleftrightarrow>
      some_key (edge_key x) \<in> row_key ` set (inferred_rows db)"
    by (auto simp: list_ex_iff inferred_rows_def row_key_def some_key_def edge_key_def image_iff)
  have new: "some_key (edge_key x) \<notin> row_key ` set (inferred_rows db) \<Longrightarrow> \<exists>r. inferred_rows (insert_inferred x db) = inferred_rows db @ [r] \<and> row_key r = some_key (edge_key x)"
    unfolding insert_inferred_def found by (simp add: inferred_rows_def inferred_def row_key_def some_key_def edge_key_def)
  have old: "some_key (edge_key x) \<in> row_key ` set (inferred_rows db) \<Longrightarrow> insert_inferred x db = db" unfolding insert_inferred_def found by simp
  show "row_key ` set (inferred_rows (insert_inferred x db)) = insert (some_key (edge_key x)) (row_key ` set (inferred_rows db))"
    using new old by (cases "some_key (edge_key x) \<in> row_key ` set (inferred_rows db)") auto
  show "distinct (map row_key (inferred_rows db)) \<Longrightarrow> distinct (map row_key (inferred_rows (insert_inferred x db)))"
    using new old by (cases "some_key (edge_key x) \<in> row_key ` set (inferred_rows db)") auto
qed

lemma insert_all_keys:
  "row_key ` set (inferred_rows (fold insert_inferred es db)) = some_key ` edge_key ` set es \<union> row_key ` set (inferred_rows db)"
  "distinct (map row_key (inferred_rows db)) \<Longrightarrow> distinct (map row_key (inferred_rows (fold insert_inferred es db)))"
  by (induction es arbitrary: db) (auto simp: insert_inferred_keys)

section \<open>Properties\<close>




text \<open>
  C13.  The edges of events are exact: in an index without inferred edges the pass leaves an inferred edge from a
  caller to a target under a mechanism if and only if, for one of the three kinds of events, the caller emits a signal
  whose handler the target is, the two are not the same function, and the signal has no more handlers than the cap.
  No two of its edges are alike.
\<close>

theorem event_edges_exact:
  assumes "inferred_rows db = []"
  shows "((source_file, caller, Some qualified, Some via) \<in> row_key ` set (inferred_rows (synthesize_event_emitter_edges cap db)) \<longleftrightarrow>
      (\<exists>(emit_type, connect_type, v) \<in> set SIGNAL_PATTERNS. \<exists>p \<in> set (i_patterns db). \<exists>h \<in> set (i_patterns db). \<exists>signal target.
         v = via \<and> p_type p = emit_type \<and> p_type h = connect_type \<and> p_signal_name p = Some signal \<and> p_signal_name h = Some signal \<and>
         p_file_path p = source_file \<and> p_handler p = Some caller \<and> p_handler h = Some target \<and> qualified = qualify (p_file_path h) target \<and>
         (source_file, caller) \<noteq> (p_file_path h, target) \<and>
         count_where (\<lambda>q. p_type q = connect_type \<and> p_signal_name q = Some signal) (i_patterns db) \<le> cap)) \<and>
    distinct (map row_key (inferred_rows (synthesize_event_emitter_edges cap db)))"
proof -
  have "adds_exactly (\<Union>t \<in> set SIGNAL_PATTERNS. event_keys cap db t) (fold (synthesize_signal_pattern cap) SIGNAL_PATTERNS) db"
    by (rule adds_exactly_fold) (metis signal_pattern_exact prod_cases3)
  then obtain es where es: "edge_key ` set es = (\<Union>t \<in> set SIGNAL_PATTERNS. event_keys cap db t)"
    "fold (synthesize_signal_pattern cap) SIGNAL_PATTERNS db = fold insert_inferred es db"
    unfolding adds_exactly_def by (auto simp: same_facts_def)
  then have run: "synthesize_event_emitter_edges cap db = fold insert_inferred es db" by (simp add: synthesize_event_emitter_edges_def)
  have "(source_file, caller, Some qualified, Some via) \<in> row_key ` set (inferred_rows (synthesize_event_emitter_edges cap db)) \<longleftrightarrow>
      (source_file, caller, qualified, via) \<in> (\<Union>t \<in> set SIGNAL_PATTERNS. event_keys cap db t)"
    unfolding run insert_all_keys(1) assms es(1) by (simp add: some_key_member)
  also have "\<dots> \<longleftrightarrow> (\<exists>(emit_type, connect_type, v) \<in> set SIGNAL_PATTERNS. \<exists>p \<in> set (i_patterns db). \<exists>h \<in> set (i_patterns db). \<exists>signal target.
         v = via \<and> p_type p = emit_type \<and> p_type h = connect_type \<and> p_signal_name p = Some signal \<and> p_signal_name h = Some signal \<and>
         p_file_path p = source_file \<and> p_handler p = Some caller \<and> p_handler h = Some target \<and> qualified = qualify (p_file_path h) target \<and>
         (source_file, caller) \<noteq> (p_file_path h, target) \<and>
         count_where (\<lambda>q. p_type q = connect_type \<and> p_signal_name q = Some signal) (i_patterns db) \<le> cap)"
    by (rule trans [OF UN_iff bex_cong [OF refl]]) (simp add: event_keys_member split: prod.split)
  finally show ?thesis
    unfolding run using insert_all_keys(2) [of db es] assms by simp
qed

text \<open>A signal with one emitter and one handler.\<close>

definition demo_pattern :: "int \<Rightarrow> string \<Rightarrow> string \<Rightarrow> string \<Rightarrow> pattern_row" where
  "demo_pattern k path kind function_name = \<lparr>p_id = k, p_file_path = lit path, p_type = lit kind, p_signal_name = Some (lit ''saved''),
     p_handler = Some (lit function_name), p_line = Some k, p_metadata = None\<rparr>"

definition demo_signals :: index_db where
  "demo_signals = empty_index\<lparr>i_patterns := [demo_pattern 1 ''a.py'' ''observer_emit'' ''save'', demo_pattern 2 ''b.py'' ''observer_register'' ''on_saved'']\<rparr>"

theorem event_edges_exact_witness:
  "(lit ''a.py'', lit ''save'', Some (lit ''b.py::on_saved''), Some (lit ''observer'')) \<in>
     row_key ` set (inferred_rows (synthesize_event_emitter_edges 4 demo_signals))"
proof -
  have "inferred_rows demo_signals = []" by (simp add: demo_signals_def empty_index_def inferred_rows_def)
  note exact = event_edges_exact [OF this, of "lit ''a.py''" "lit ''save''" "lit ''b.py::on_saved''" "lit ''observer''" 4, THEN conjunct1]
  have "(lit ''observer_emit'', lit ''observer_register'', lit ''observer'') \<in> set SIGNAL_PATTERNS" by (simp add: SIGNAL_PATTERNS_def)
  moreover have "count_where (\<lambda>q. p_type q = lit ''observer_register'' \<and> p_signal_name q = Some (lit ''saved'')) (i_patterns demo_signals) \<le> 4"
    by (simp add: count_where_def demo_signals_def)
  moreover have "lit ''b.py::on_saved'' = qualify (lit ''b.py'') (lit ''on_saved'')" by (simp add: qualify_def lit_def SEP_def)
  moreover have "(lit ''a.py'', lit ''save'') \<noteq> (lit ''b.py'', lit ''on_saved'')" by (simp add: lit_def)
  ultimately show ?thesis unfolding exact
    by (intro bexI [of _ "(lit ''observer_emit'', lit ''observer_register'', lit ''observer'')"])
      (auto simp: demo_signals_def demo_pattern_def)
qed


end
