(* ===== verification/ClusterRows.thy ===== *)
theory ClusterRows
  imports Pipeline
begin

text \<open>
  The rows of clusters after a scan: all stages rebuild every row from the finished index, the incremental
  stages rebuild the rows of the directories of the affected files and keep the others.
\<close>

section \<open>The rows of a scope\<close>

definition cluster_view :: "cluster_row \<Rightarrow> ucs \<times> ucs \<times> int" where
  "cluster_view c = (cl_name c, cl_entry_symbols c, cl_file_count c)"

text \<open>The rows an index deserves for some of its top directories: its dense groups, with the symbols most called there.\<close>

definition due_clusters :: "pipeline \<Rightarrow> ucs list \<Rightarrow> index_db \<Rightarrow> (ucs \<times> ucs \<times> int) list" where
  "due_clusters p scope db =
     map (\<lambda>(name, paths). (name, dumps_default (JArray (map JString (entry_symbols (pl_config p) db paths))), int (length paths)))
       (filter (\<lambda>(_, paths). 2 \<le> length paths \<and> \<not> pl_sparse p (internal_edges db paths) (int (length paths)))
         (cluster_candidates (pl_config p) scope db))"

lemma edges_reads:
  assumes "i_edges db' = i_edges db"
  shows "entry_symbols cfg db' paths = entry_symbols cfg db paths" "internal_edges db' paths = internal_edges db paths"
  using assms by (simp_all add: entry_symbols_def called_from_def internal_edges_def)

lemma due_same:
  assumes "i_edges db' = i_edges db" "map f_path (i_files db') = map f_path (i_files db)"
  shows "due_clusters p scope db' = due_clusters p scope db"
proof -
  have "map f_path (sort_key f_path fs) = sort (map f_path fs)" for fs :: "file_row list"
    by (rule properties_for_sort [symmetric]) simp_all
  then have "cluster_candidates cfg scope db' = cluster_candidates cfg scope db" for cfg
    using assms(2) by (simp add: cluster_candidates_def)
  then show ?thesis using edges_reads [OF assms(1)] by (simp add: due_clusters_def)
qed

lemma add_cluster_rows:
  "\<exists>rows. i_clusters (add_cluster p existing (name, paths) db) = i_clusters db @ rows \<and>
     map cluster_view rows = (if 2 \<le> length paths \<and> \<not> pl_sparse p (internal_edges db paths) (int (length paths))
       then [(name, dumps_default (JArray (map JString (entry_symbols (pl_config p) db paths))), int (length paths))] else [])"
proof (cases "length paths < 2 \<or> pl_sparse p (internal_edges db paths) (int (length paths))")
  case True
  then show ?thesis by (intro exI [of _ "[]"]) (auto simp: add_cluster_def)
next
  case False
  let ?db = "insert_cluster (pl_config p) name paths db"
  have "i_clusters (add_cluster p existing (name, paths) db) = i_clusters ?db"
    using False by (simp add: add_cluster_def Let_def)
  then show ?thesis using False
    by (intro exI [of _ "[last (i_clusters ?db)]"]) (auto simp: insert_cluster_def Let_def cluster_view_def)
qed

lemma add_cluster_edges: "i_edges (add_cluster p existing g db) = i_edges db"
  by (cases g) (simp add: add_cluster_def insert_cluster_def Let_def)

lemma add_clusters_rows:
  "\<exists>rows. i_clusters (fold (add_cluster p existing) gs db) = i_clusters db @ rows \<and>
     map cluster_view rows = map (\<lambda>(name, paths). (name, dumps_default (JArray (map JString (entry_symbols (pl_config p) db paths))), int (length paths)))
       (filter (\<lambda>(_, paths). 2 \<le> length paths \<and> \<not> pl_sparse p (internal_edges db paths) (int (length paths))) gs)"
proof (induction gs arbitrary: db)
  case Nil
  then show ?case by simp
next
  case (Cons g gs)
  obtain name paths where g: "g = (name, paths)" by (cases g)
  let ?db = "add_cluster p existing g db"
  note reads = edges_reads [OF add_cluster_edges [of p existing g db]]
  obtain rows where rows: "i_clusters (fold (add_cluster p existing) gs ?db) = i_clusters ?db @ rows"
    "map cluster_view rows = map (\<lambda>(name, paths). (name, dumps_default (JArray (map JString (entry_symbols (pl_config p) db paths))), int (length paths)))
       (filter (\<lambda>(_, paths). 2 \<le> length paths \<and> \<not> pl_sparse p (internal_edges db paths) (int (length paths))) gs)"
    using Cons.IH [of ?db] unfolding reads by blast
  obtain first where "i_clusters ?db = i_clusters db @ first"
    "map cluster_view first = (if 2 \<le> length paths \<and> \<not> pl_sparse p (internal_edges db paths) (int (length paths))
       then [(name, dumps_default (JArray (map JString (entry_symbols (pl_config p) db paths))), int (length paths))] else [])"
    using add_cluster_rows unfolding g by blast
  with rows show ?case by (intro exI [of _ "first @ rows"]) (simp add: g)
qed

lemma sweep_clusters_rows: "i_clusters (sweep_clusters scope names db) = i_clusters db"
proof -
  have "i_clusters (fold (delete_node k) ns d) = i_clusters d" for k ns d
    by (induction ns arbitrary: d) simp_all
  then show ?thesis by (simp add: sweep_clusters_def Let_def)
qed

lemma detect_clusters_rows:
  "\<exists>rows. i_clusters (detect_clusters_for p scope db) = filter (\<lambda>c. cluster_group (cl_name c) \<notin> set scope) (i_clusters db) @ rows \<and>
     map cluster_view rows = due_clusters p scope (detect_clusters_for p scope db)"
proof -
  let ?names = "filter (\<lambda>n. cluster_group n \<in> set scope) (sort (map cl_name (i_clusters db)))"
  let ?db = "drop_clusters ?names db"
  have "due_clusters p scope (detect_clusters_for p scope db) = due_clusters p scope db"
    using cluster_step_detect [of db p scope] by (intro due_same) (simp_all add: cluster_step_def)
  moreover have "i_clusters ?db = filter (\<lambda>c. cluster_group (cl_name c) \<notin> set scope) (i_clusters db)"
    by (auto simp: drop_clusters_def intro!: filter_cong)
  moreover have "i_edges ?db = i_edges db" by (simp add: drop_clusters_def)
  ultimately show ?thesis
    using add_clusters_rows [of p "map (\<lambda>n. (n, members_of db n)) ?names" "cluster_candidates (pl_config p) scope db" ?db]
    by (simp add: detect_clusters_for_def Let_def sweep_clusters_rows due_clusters_def edges_reads [of ?db db])
qed

section \<open>Affected files\<close>

text \<open>
  The files an incremental scan counts as affected: the touched ones, both ends of the calls that are resolved again,
  before and after, and both ends of the inferred calls that come or go.
\<close>

definition affected_files :: "pipeline \<Rightarrow> ScanDelta \<Rightarrow> index_db \<Rightarrow> ucs list" where
  "affected_files p delta db =
     (let ids = target_ids (ie_parse (pl_index p)) delta db;
          before = incremental_resolution (pl_config p) (ie_parse (pl_index p)) delta db
      in btree_set (touched_files delta @ target_files ids db @ map e_source_file (filter (\<lambda>x. e_id x \<in> set ids) (i_edges db)) @
           target_files ids before @ snapshot_changes (inferred_snapshot before) (inferred_snapshot (later_stages p before))))"

lemma run_incremental_eq:
  "run_incremental p delta db =
     detect_clusters_for p (btree_set (map top_group (affected_files p delta db)))
       (compute_file_kinds_for p (affected_files p delta db)
         (later_stages p (incremental_resolution (pl_config p) (ie_parse (pl_index p)) delta db)))"
  by (simp add: run_incremental_def affected_files_def later_stages_def Let_def)

lemma later_clusters: "i_clusters (later_stages p db) = i_clusters db"
proof -
  obtain es where "later_stages p db = fold insert_inferred es (overwrite_rust_trait_bases (purge_heuristic_edges db))"
    using synth_adds [of "pl_config p" "ie_parse (pl_index p)" "overwrite_rust_trait_bases (purge_heuristic_edges db)"]
    unfolding adds_edges_def same_facts_def later_stages_def by blast
  moreover have "i_clusters (overwrite_rust_trait_bases d) = i_clusters d" for d by (subst overwrite_view(1)) simp
  ultimately show ?thesis by (simp add: purge_heuristic_edges_def)
qed

section \<open>Property\<close>

text \<open>
  C15.  The rows of clusters after a scan.  The incremental stages keep exactly the rows whose directory holds no
  affected file, in front, and append the rows the finished index deserves for the directories of the affected files;
  all stages together leave exactly the rows the finished index deserves, whatever rows were there.  So a kept
  row is as old as its last rebuilding: the edges of a deleted file are gone before the affected files are collected,
  and the entry symbols of the directories it called into stay as they were.
\<close>

theorem cluster_rows_exact:
  "(\<exists>rows. i_clusters (run_incremental p delta db) =
       filter (\<lambda>c. cluster_group (cl_name c) \<notin> top_group ` set (affected_files p delta db)) (i_clusters db) @ rows \<and>
     map cluster_view rows = due_clusters p (map top_group (affected_files p delta db)) (run_incremental p delta db)) \<and>
   map cluster_view (i_clusters (postprocess_run p db)) =
     due_clusters p (map (top_group \<circ> f_path) (i_files (postprocess_run p db))) (postprocess_run p db)"
proof
  let ?db1 = "incremental_resolution (pl_config p) (ie_parse (pl_index p)) delta db"
  let ?scope = "btree_set (map top_group (affected_files p delta db))"
  have "i_clusters (compute_file_kinds_for p ps (later_stages p ?db1)) = i_clusters db" for ps
    using resolution_edges_only(2) [of db "pl_config p" "ie_parse (pl_index p)" delta]
    by (simp add: kinds_files later_clusters edges_only_def)
  moreover have "set (map top_group (affected_files p delta db)) = set ?scope" by simp
  then have "due_clusters p (map top_group (affected_files p delta db)) d = due_clusters p ?scope d" for d
    by (simp only: due_clusters_def cluster_candidates_def)
  ultimately show "\<exists>rows. i_clusters (run_incremental p delta db) =
       filter (\<lambda>c. cluster_group (cl_name c) \<notin> top_group ` set (affected_files p delta db)) (i_clusters db) @ rows \<and>
     map cluster_view rows = due_clusters p (map top_group (affected_files p delta db)) (run_incremental p delta db)"
    using detect_clusters_rows [of p ?scope "compute_file_kinds_for p (affected_files p delta db) (later_stages p ?db1)"]
    by (simp add: run_incremental_eq)
next
  obtain db1 where run: "postprocess_run p db = detect_clusters p db1" by (simp add: postprocess_run_def Let_def)
  let ?scope = "btree_set (map top_group (map f_path (i_files db1)) @ map (\<lambda>c. cluster_group (cl_name c)) (i_clusters db1))"
  have files: "i_files (postprocess_run p db) = i_files db1"
    using cluster_step_detect [of db1 p ?scope] by (simp add: run detect_clusters_def cluster_step_def)
  have "due_clusters p ?scope d = due_clusters p (map (top_group \<circ> f_path) (i_files d)) d" if "i_files d = i_files db1" for d
  proof -
    have "filter (\<lambda>path. top_group path \<in> set ?scope) (map f_path (sort_key f_path (i_files d))) =
        filter (\<lambda>path. top_group path \<in> set (map (top_group \<circ> f_path) (i_files d))) (map f_path (sort_key f_path (i_files d)))"
      using that by (intro filter_cong) auto
    then show ?thesis by (simp only: due_clusters_def cluster_candidates_def)
  qed
  moreover have "filter (\<lambda>c. cluster_group (cl_name c) \<notin> set ?scope) (i_clusters db1) = []"
    by (auto simp: filter_empty_conv)
  ultimately show "map cluster_view (i_clusters (postprocess_run p db)) =
     due_clusters p (map (top_group \<circ> f_path) (i_files (postprocess_run p db))) (postprocess_run p db)"
    using detect_clusters_rows [of p ?scope db1] files unfolding run detect_clusters_def by auto
qed

end
