(* ===== verification/ScanFindings.thy ===== *)
theory ScanFindings
  imports ClusterRows Languages
begin

text \<open>
  Two places where the code does less than it promises, each shown on a concrete index.
\<close>

section \<open>Entry symbols of a cluster\<close>

definition py_file :: "string \<Rightarrow> file_row" where
  "py_file path = \<lparr>f_path = lit path, f_struct_hash = lit ''old'', f_language = Some (lit ''PythonParser''), f_layer = None, f_imports = None,
     f_kind_hint = None, f_actual_kind = None, f_contract_version = ci_contract_version python_identity, f_backend = ci_backend python_identity,
     f_environment = ci_environment python_identity, f_import_bindings = lit ''[]''\<rparr>"

definition py_function :: "int \<Rightarrow> string \<Rightarrow> string \<Rightarrow> symbol_row" where
  "py_function k path name = \<lparr>s_id = k, s_file_path = lit path, s_name = lit name, s_short_name = Some (lit name), s_type = lit ''function'',
     s_args = None, s_lineno = None, s_end_lineno = None, s_hash = None, s_bases = None, s_name_tokens = []\<rparr>"

definition py_call :: "int \<Rightarrow> string \<Rightarrow> string \<Rightarrow> string \<Rightarrow> edge_row" where
  "py_call k path caller callee = \<lparr>e_id = k, e_source_file = lit path, e_caller = lit caller, e_callee = lit callee, e_callee_file = None,
     e_callee_qualified = None, e_line = None, e_provenance = None, e_synthesized_from = None, e_via = None, e_call_form = lit ''name''\<rparr>"

text \<open>Three files, two of them in a directory of their own; one function of the directory is called from outside it.\<close>

definition three_files :: index_db where
  "three_files = empty_index\<lparr>i_files := [py_file ''a.py'', py_file ''b/y.py'', py_file ''b/z.py''],
     i_symbols := [py_function 1 ''a.py'' ''m'', py_function 2 ''b/y.py'' ''u'', py_function 3 ''b/y.py'' ''v'', py_function 4 ''b/z.py'' ''k''],
     i_edges := [py_call 1 ''a.py'' ''m'' ''u'', py_call 2 ''b/z.py'' ''k'' ''v''],
     i_seq := \<lparr>seq_symbols = 5, seq_edges = 3, seq_patterns = 1, seq_clusters = 1, seq_summaries = 1, seq_documents = 1\<rparr>\<rparr>"

text \<open>Digests play no part here.\<close>

definition plain_env :: index_env where
  "plain_env = \<lparr>ie_parse = (\<lambda>_. None), ie_sha256 = (\<lambda>_. []), ie_md5 = (\<lambda>_. []), ie_now = (\<lambda>_. [])\<rparr>"

definition one_entry :: pipeline where
  "one_entry = \<lparr>pl_config = demo_config\<lparr>cluster_entry_count := 1, file_kind_min_symbols := 1\<rparr>, pl_index = plain_env,
     pl_low_cohesion = (\<lambda>intra n. 4 * intra < n), pl_sparse = (\<lambda>k n. 2 * k < n)\<rparr>"

text \<open>What all stages make of them: resolved calls, and a cluster whose one entry symbol is the smaller name of the two that are called.\<close>

definition resolved :: "string \<Rightarrow> string \<Rightarrow> edge_row \<Rightarrow> edge_row" where
  "resolved path name x = x\<lparr>e_callee_file := Some (lit path), e_callee_qualified := Some (qualify (lit path) (lit name)), e_provenance := Some (lit ''probable'')\<rparr>"

definition directory_cluster :: "string \<Rightarrow> cluster_row" where
  "directory_cluster entry = \<lparr>cl_id = 1, cl_name = lit ''b'', cl_label = None, cl_entry_symbols = lit entry, cl_file_count = 2\<rparr>"

definition three_scanned :: index_db where
  "three_scanned = three_files\<lparr>i_files := map (\<lambda>f. f\<lparr>f_kind_hint := Some (lit ''low_cohesion'')\<rparr>) (i_files three_files),
     i_edges := [resolved ''b/y.py'' ''u'' (py_call 1 ''a.py'' ''m'' ''u''), resolved ''b/y.py'' ''v'' (py_call 2 ''b/z.py'' ''k'' ''v'')],
     i_clusters := [directory_cluster ''[\"b/y.py::u\"]''],
     i_members := [\<lparr>cm_cluster_id = 1, cm_file_path = lit ''b/y.py''\<rparr>, \<lparr>cm_cluster_id = 1, cm_file_path = lit ''b/z.py''\<rparr>],
     i_counters := [\<lparr>nc_node_kind = lit ''cluster'', nc_node_ref = lit ''b'', nc_child_changes = 0, nc_leaf_count = 0\<rparr>],
     i_documents := [(new_document 1 (lit ''cluster'') (lit ''b''))\<lparr>d_name := Some (lit ''b''), d_name_tokens := Some (lit ''b'')\<rparr>],
     i_seq := \<lparr>seq_symbols = 5, seq_edges = 3, seq_patterns = 1, seq_clusters = 2, seq_summaries = 1, seq_documents = 2\<rparr>\<rparr>"

lemma three_run: "postprocess_run one_entry three_files = three_scanned"
  by code_simp

text \<open>The file outside the directory is deleted.\<close>

definition deleted_file :: scan_env where
  "deleted_file = \<lparr>sc_index = plain_env, sc_strip_rust = id, sc_lower = id, sc_read = (\<lambda>_. None),
     sc_parse = (\<lambda>_ _ _. \<lparr>pa_identity = python_identity, pa_imports = [], pa_import_bindings_json = [], pa_symbols = [], pa_edges = [], pa_patterns = []\<rparr>),
     sc_exists = (\<lambda>full. full \<noteq> lit ''/r/a.py''), sc_schedule = id\<rparr>"

definition deleted_state :: scan_state where
  "deleted_state = \<lparr>ss_delta = \<lparr>touched_files = [lit ''a.py''], delta_names = [lit ''m''], added_py = [], removed_py = [lit ''a.py'']\<rparr>,
     ss_discovered = [lit ''a.py''], ss_successful = [lit ''a.py''], ss_failed = [], ss_deleted = [lit ''a.py''], ss_errors = []\<rparr>"

definition two_left :: index_db where
  "two_left = three_scanned\<lparr>i_files := tl (i_files three_scanned), i_symbols := tl (i_symbols three_scanned), i_edges := tl (i_edges three_scanned)\<rparr>"

abbreviation no_rules :: ScanConfig where
  "no_rules \<equiv> \<lparr>exclusions = [], layers = []\<rparr>"

lemma nothing_excluded [simp]: "is_path_excluded no_rules = (\<lambda>p. False)"
  by (rule ext) (simp add: is_path_excluded_def Let_def)

lemma identities_valid: "identity_invalid_paths no_rules three_scanned = []"
proof -
  have name: "language_resolve (rsplit_last 47 (lit ''a.py'')) = Some Python" "language_resolve (rsplit_last 47 (lit ''b/y.py'')) = Some Python"
    "language_resolve (rsplit_last 47 (lit ''b/z.py'')) = Some Python" by code_simp+
  show ?thesis
    by (simp add: identity_invalid_paths_def filter_empty_conv three_scanned_def three_files_def py_file_def name file_identity_def)
qed

lemma removal_run:
  "remove_path (lit ''a.py'') (start_state\<lparr>ss_successful := [], ss_discovered := [lit ''a.py'']\<rparr>) three_scanned =
     (Inr (deleted_state\<lparr>ss_successful := []\<rparr>), two_left)"
  by code_simp

lemma op_return_bind: "op_bind (op_return x) f = f x"
  by (rule ext) (simp add: op_bind_def op_basic_simps)

lemma deleted_run:
  "scan_files_writes deleted_file no_rules id True [(lit ''a.py'', lit ''/r/a.py'')] three_scanned = (Inr deleted_state, two_left)"
proof -
  let ?targets = "[(lit ''a.py'', lit ''/r/a.py'')]"
  have targets: "scan_targets no_rules id ?targets [] = ?targets" by (simp add: scan_targets_def btree_set_def)
  have gone: "sc_exists deleted_file (lit ''/r/a.py'') = False" and order: "sc_schedule deleted_file = id" by (simp_all add: deleted_file_def)
  let ?delete = "op_bind (remove_path (lit ''a.py'') (start_state\<lparr>ss_successful := [], ss_discovered := [lit ''a.py'']\<rparr>))
      (\<lambda>st. op_return (st\<lparr>ss_successful := ss_successful st @ [lit ''a.py'']\<rparr>))"
  have "scan_files_writes deleted_file no_rules id True ?targets three_scanned = ?delete three_scanned"
    unfolding scan_files_writes_def op_get_bind nothing_excluded filter_False op_fold.simps op_return_bind identities_valid targets Let_def
    by (simp add: gone order op_return_bind identities_valid targets op_bind_def op_basic_simps split: sum.split prod.split)
  then show ?thesis
    by (simp add: op_bind_Inr [where m = "remove_path (lit ''a.py'') (start_state\<lparr>ss_successful := [], ss_discovered := [lit ''a.py'']\<rparr>)", OF removal_run]
        op_basic_simps deleted_state_def)
qed

lemma deleted_incremental: "i_clusters (run_incremental one_entry (ss_delta deleted_state) two_left) = [directory_cluster ''[\"b/y.py::u\"]'']"
  by code_simp

lemma deleted_full: "map cl_entry_symbols (i_clusters (postprocess_run one_entry two_left)) = [lit ''[\"b/y.py::v\"]'']"
  by code_simp

text \<open>
  An incremental scan can leave the entry symbols of a cluster out of date, contrary to what the code states of
  it: when a file that calls into a directory is deleted, the incremental stages keep its callee as the entry
  symbol of the cluster of the directory, while all stages in full give the function that is still called.
\<close>

theorem stale_entry_symbols:
  "\<exists>st db. scan_files_writes deleted_file no_rules id True [(lit ''a.py'', lit ''/r/a.py'')] (postprocess_run one_entry three_files) = (Inr st, db) \<and>
     map cl_entry_symbols (i_clusters (run_incremental one_entry (ss_delta st) db)) = [lit ''[\"b/y.py::u\"]''] \<and>
     map cl_entry_symbols (i_clusters (postprocess_run one_entry db)) = [lit ''[\"b/y.py::v\"]'']"
  unfolding three_run deleted_run
  by (intro exI conjI, rule refl) (simp_all only: deleted_incremental deleted_full, simp add: directory_cluster_def)

section \<open>Names of classes as patterns\<close>

text \<open>A class inherits from the empty class \<^verbatim>\<open>A_B\<close>; a class \<^verbatim>\<open>AxB\<close> in the same file has a method.\<close>

definition py_class :: "int \<Rightarrow> string \<Rightarrow> string \<Rightarrow> string option \<Rightarrow> symbol_row" where
  "py_class k path name bases = (py_function k path name)\<lparr>s_type := lit ''class'', s_bases := map_option lit bases\<rparr>"

definition py_method :: "int \<Rightarrow> string \<Rightarrow> string \<Rightarrow> string \<Rightarrow> symbol_row" where
  "py_method k path name short = (py_function k path name)\<lparr>s_short_name := Some (lit short)\<rparr>"

definition similar_names :: index_db where
  "similar_names = empty_index\<lparr>i_symbols := [py_class 1 ''b.py'' ''A_B'' None, py_class 2 ''b.py'' ''AxB'' None, py_method 3 ''b.py'' ''AxB.run'' ''run'',
     py_class 4 ''i.py'' ''C'' (Some ''x''), py_method 5 ''i.py'' ''C.run'' ''run'']\<rparr>"

definition base_list :: parser where
  "base_list text = (if text = lit ''x'' then Some (JArray [JString (lit ''A_B'')]) else None)"

text \<open>
  The methods of a class are looked up with its name as a pattern in which an underscore stands for any
  character: a class that inherits from \<^verbatim>\<open>A_B\<close>, which has no methods, gets an edge from a method of the
  unrelated class \<^verbatim>\<open>AxB\<close>.
\<close>

theorem override_of_unrelated_class:
  "map (\<lambda>r. (e_caller r, e_callee_qualified r)) (i_edges (synthesize_interface_override_edges base_list 8 similar_names)) =
     [(lit ''AxB.run'', Some (lit ''i.py::C.run''))]"
  by code_simp

end
