(* ===== verification/GraphBfs.thy ===== *)
theory GraphBfs
  imports IndexDb
begin

text \<open>
  The level-by-level searches of the query server, \<^verbatim>\<open>remy-cc/src/mcp/graph.rs\<close> and the lookups of
  \<^verbatim>\<open>remy-cc/src/mcp/common.rs\<close> they print: callers, callees and the impact of files.  A set of names is
  a list in some order; the results are shown to depend on the set only.  The database is absent
  when it could not be opened.
\<close>

type_synonym Levels = "(int \<times> ucs list) list"

record McpConfig =
  mcp_result_limit :: int
  mcp_bfs_max_depth :: int

definition CHUNK :: nat where "CHUNK = 400"
definition IMPACT_LABELS_PER_LEVEL :: nat where "IMPACT_LABELS_PER_LEVEL = 5"

definition DB_NOT_FOUND :: ucs where
  "DB_NOT_FOUND = lit ''Error: logic_index.db not found. Run /remy-index to initialize the project index.''"

section \<open>Searching by levels\<close>

function chunks :: "nat \<Rightarrow> 'a list \<Rightarrow> 'a list list" where
  "chunks n xs = (if xs = [] \<or> n = 0 then [] else take n xs # chunks n (drop n xs))"
  by pat_completeness auto
termination by (relation "measure (\<lambda>(n, xs). length xs)") auto

declare chunks.simps [simp del]

fun bfs_loop :: "(ucs list \<Rightarrow> ucs list) \<Rightarrow> nat \<Rightarrow> int \<Rightarrow> ucs list \<Rightarrow> ucs list \<Rightarrow> Levels \<Rightarrow> Levels" where
  "bfs_loop query 0 depth visited current levels = levels"
| "bfs_loop query (Suc n) depth visited current levels =
     (if current = [] then levels
      else let all_rows = concat (map query (chunks CHUNK current));
               next_level = btree_set (filter (\<lambda>row. row \<notin> set visited) all_rows)
           in if next_level = [] then levels
              else bfs_loop query n (depth + 1) (visited @ next_level) next_level (levels @ [(depth, next_level)]))"

definition bfs :: "(ucs list \<Rightarrow> ucs list) \<Rightarrow> ucs list \<Rightarrow> int \<Rightarrow> Levels" where
  "bfs query targets max_depth = bfs_loop query (nat max_depth) 1 targets targets []"

section \<open>The queries\<close>

definition static_provenance :: "edge_row \<Rightarrow> bool" where
  "static_provenance e \<longleftrightarrow> e_provenance e \<in> {Some (lit ''definite''), Some (lit ''probable'')}"

definition prov_clause :: "bool \<Rightarrow> edge_row \<Rightarrow> bool" where
  "prov_clause static_only e \<longleftrightarrow> (static_only \<longrightarrow> static_provenance e)"

definition callee_in :: "ucs list \<Rightarrow> edge_row \<Rightarrow> bool" where
  "callee_in names e \<longleftrightarrow> (case e_callee_qualified e of None \<Rightarrow> False | Some q \<Rightarrow> q \<in> set names)"

definition callers_query :: "index_db \<Rightarrow> bool \<Rightarrow> ucs list \<Rightarrow> ucs list" where
  "callers_query db static_only names =
     remdups (map edge_source (filter (\<lambda>e. callee_in names e \<and> prov_clause static_only e) (i_edges db)))"

definition callees_query :: "index_db \<Rightarrow> bool \<Rightarrow> ucs list \<Rightarrow> ucs list" where
  "callees_query db static_only names =
     remdups (List.map_filter e_callee_qualified
       (filter (\<lambda>e. edge_source e \<in> set names \<and> prov_clause static_only e) (i_edges db)))"

text \<open>The rows of the join of the edges with their candidates.\<close>

definition edge_candidate_pairs :: "index_db \<Rightarrow> (edge_row \<times> candidate_row) list" where
  "edge_candidate_pairs db =
     concat (map (\<lambda>e. map (Pair e) (filter (\<lambda>c. c_edge_id c = e_id e) (i_candidates db))) (i_edges db))"

definition callers_ambiguous_query :: "index_db \<Rightarrow> bool \<Rightarrow> ucs list \<Rightarrow> ucs list" where
  "callers_ambiguous_query db static_only names =
     remdups (callers_query db static_only names @
       map (\<lambda>(e, c). edge_source e)
         (filter (\<lambda>(e, c). c_qualified c \<in> set names \<and> prov_clause static_only e) (edge_candidate_pairs db)))"

definition callees_ambiguous_query :: "index_db \<Rightarrow> bool \<Rightarrow> ucs list \<Rightarrow> ucs list" where
  "callees_ambiguous_query db static_only names =
     remdups (callees_query db static_only names @
       map (\<lambda>(e, c). c_qualified c)
         (filter (\<lambda>(e, c). edge_source e \<in> set names \<and> prov_clause static_only e) (edge_candidate_pairs db)))"

definition bfs_callers :: "index_db \<Rightarrow> ucs list \<Rightarrow> int \<Rightarrow> bool \<Rightarrow> Levels" where
  "bfs_callers db targets max_depth static_only = bfs (callers_query db static_only) targets max_depth"

definition bfs_callees :: "index_db \<Rightarrow> ucs list \<Rightarrow> int \<Rightarrow> bool \<Rightarrow> Levels" where
  "bfs_callees db targets max_depth static_only = bfs (callees_query db static_only) targets max_depth"

definition bfs_callers_ambiguous :: "index_db \<Rightarrow> ucs list \<Rightarrow> int \<Rightarrow> bool \<Rightarrow> Levels" where
  "bfs_callers_ambiguous db targets max_depth static_only = bfs (callers_ambiguous_query db static_only) targets max_depth"

definition bfs_callees_ambiguous :: "index_db \<Rightarrow> ucs list \<Rightarrow> int \<Rightarrow> bool \<Rightarrow> Levels" where
  "bfs_callees_ambiguous db targets max_depth static_only = bfs (callees_ambiguous_query db static_only) targets max_depth"

definition resolve_targets :: "index_db \<Rightarrow> ucs \<Rightarrow> ucs list" where
  "resolve_targets db symbol =
     (if contains_ucs symbol SEP then [symbol]
      else remdups (map symbol_qualified (filter (symbol_named symbol) (i_symbols db))))"

section \<open>Rendering\<close>

definition get_layer :: "index_db \<Rightarrow> ucs \<Rightarrow> ucs" where
  "get_layer db file_path =
     (case find (\<lambda>f. f_path f = file_path) (i_files db) of
        None \<Rightarrow> lit ''Unknown''
      | Some f \<Rightarrow> (case f_layer f of None \<Rightarrow> lit ''Unknown'' | Some l \<Rightarrow> l))"

definition truthy_line :: "int option \<Rightarrow> int option" where
  "truthy_line v = (case v of None \<Rightarrow> None | Some i \<Rightarrow> if i = 0 then None else Some i)"

definition get_line_range :: "index_db \<Rightarrow> ucs \<Rightarrow> ucs" where
  "get_line_range db qualified =
     (case split_once_str SEP qualified of None \<Rightarrow> []
      | Some (fpath, name) \<Rightarrow>
          (case find (\<lambda>s. s_file_path s = fpath \<and> s_name s = name) (i_symbols db) of None \<Rightarrow> []
           | Some s \<Rightarrow>
               (case (truthy_line (s_lineno s), truthy_line (s_end_lineno s)) of
                  (Some start, Some until) \<Rightarrow> lit '' [L'' @ str_of_int start @ lit ''-L'' @ str_of_int until @ lit '']''
                | (Some start, None) \<Rightarrow> lit '' [L'' @ str_of_int start @ lit '']''
                | _ \<Rightarrow> [])))"

definition file_of :: "ucs \<Rightarrow> ucs" where
  "file_of qualified = (case split_once_str SEP qualified of None \<Rightarrow> qualified | Some (f, _) \<Rightarrow> f)"

fun level_lines :: "index_db \<Rightarrow> int \<Rightarrow> int \<Rightarrow> ucs list \<Rightarrow> ucs list" where
  "level_lines db limit printed [] = []"
| "level_lines db limit printed (q # qs) =
     (if limit \<le> printed then [lit ''  ... ('' @ str_of_int (int (length (q # qs))) @ lit '' more)'']
      else (lit ''  '' @ q @ get_line_range db q @ lit '' ('' @ get_layer db (file_of q) @ lit '')'')
             # level_lines db limit (printed + 1) qs)"

definition level_total :: "Levels \<Rightarrow> nat" where
  "level_total levels = sum_list (map (\<lambda>(d, qs). length qs) levels)"

definition format_bfs_result :: "index_db \<Rightarrow> McpConfig \<Rightarrow> ucs \<Rightarrow> Levels \<Rightarrow> int \<Rightarrow> ucs" where
  "format_bfs_result db cfg title levels max_depth =
     (if levels = [] then title @ lit '' ('' @ str_of_int max_depth @ lit '' levels): no results''
      else join_with [10]
        ((title @ lit '' ('' @ str_of_int max_depth @ lit '' levels, '' @ str_of_nat (level_total levels) @ lit '' results)'' @ [10]) #
         concat (map (\<lambda>(depth, qs).
           [lit ''[depth '' @ str_of_int depth @ lit '']'' @ (if depth = 1 then lit '' direct:'' else [])] @
           level_lines db (mcp_result_limit cfg) 0 qs @ [[]]) levels)))"

definition bfs_query :: "index_db option \<Rightarrow> McpConfig \<Rightarrow> ucs \<Rightarrow> int \<Rightarrow> bool \<Rightarrow> bool \<Rightarrow> bool \<Rightarrow> ucs" where
  "bfs_query opened cfg symbol depth include_ambiguous static_only callers =
     (case opened of None \<Rightarrow> DB_NOT_FOUND
      | Some db \<Rightarrow>
          (let depth = min depth (mcp_bfs_max_depth cfg); targets = resolve_targets db symbol
           in if targets = [] then lit ''No symbols found matching '' @ [39] @ symbol @ [39]
              else (let levels = (if callers
                      then (if include_ambiguous then bfs_callers_ambiguous db targets depth static_only
                            else bfs_callers db targets depth static_only)
                      else (if include_ambiguous then bfs_callees_ambiguous db targets depth static_only
                            else bfs_callees db targets depth static_only));
                      title = (if callers then lit ''callers of '' @ symbol else lit ''callees of '' @ symbol)
                in format_bfs_result db cfg title levels depth)))"

definition impact_level_files :: "ucs list \<Rightarrow> ucs list" where
  "impact_level_files qs = foldl (\<lambda>files q. if file_of q \<in> set files then files else files @ [file_of q]) [] qs"

definition impact_line :: "int \<Rightarrow> ucs list \<Rightarrow> ucs" where
  "impact_line depth qs =
     (let files = impact_level_files qs; shown = take (min (length files) IMPACT_LABELS_PER_LEVEL) files
      in lit ''  [depth '' @ str_of_int depth @ lit ''] '' @ str_of_nat (length files) @ lit '' file(s), '' @
         str_of_nat (length qs) @ lit '' symbol(s): '' @ join_with (lit '', '') shown @
         (if length shown < length files
          then lit '' ... +'' @ str_of_nat (length files - length shown) @ lit '' more file(s)'' else []))"

definition impact_section :: "ucs \<Rightarrow> Levels \<Rightarrow> ucs list" where
  "impact_section title levels =
     [title] @ (if levels = [] then [lit ''  (none)''] else map (\<lambda>(d, qs). impact_line d qs) levels) @ [[]]"

definition format_impact_result :: "ucs list \<Rightarrow> Levels \<Rightarrow> Levels \<Rightarrow> ucs" where
  "format_impact_result target_files upstream downstream =
     (let all_files = remdups (concat (map (\<lambda>(d, qs). impact_level_files qs) (upstream @ downstream)))
      in join_with [10]
        ([lit ''impact analysis for: '' @ join_with (lit '', '') target_files @ [10]] @
         impact_section (lit ''upstream (callers into these files):'') upstream @
         impact_section (lit ''downstream (called by these files):'') downstream @
         [lit ''summary: '' @ str_of_nat (length all_files) @ lit '' files affected, '' @
          str_of_nat (level_total upstream) @ lit '' upstream + '' @
          str_of_nat (level_total downstream) @ lit '' downstream symbols'']))"

definition impact_targets :: "index_db \<Rightarrow> ucs list \<Rightarrow> ucs list" where
  "impact_targets db files =
     filter (\<lambda>p. list_ex (\<lambda>f. f_path f = p) (i_files db)) (map (replace_char 92 [47]) files)"

definition impact_seeds :: "index_db \<Rightarrow> ucs list \<Rightarrow> ucs list" where
  "impact_seeds db target_files =
     remdups (concat (map (\<lambda>tf. map symbol_qualified (filter (\<lambda>s. s_file_path s = tf) (i_symbols db))) target_files))"

definition query_impact_impl :: "index_db option \<Rightarrow> McpConfig \<Rightarrow> ucs list \<Rightarrow> int \<Rightarrow> int \<Rightarrow> bool \<Rightarrow> bool \<Rightarrow> ucs" where
  "query_impact_impl opened cfg files depth_up depth_down include_ambiguous static_only =
     (case opened of None \<Rightarrow> DB_NOT_FOUND
      | Some db \<Rightarrow>
          (let depth_up = min depth_up (mcp_bfs_max_depth cfg); depth_down = min depth_down (mcp_bfs_max_depth cfg);
               target_files = impact_targets db files; seeds = impact_seeds db target_files
           in if target_files = [] then lit ''No indexed files found matching: '' @ join_with (lit '', '') files
              else if seeds = [] then lit ''No symbols found in: '' @ join_with (lit '', '') target_files
              else format_impact_result target_files
                (if depth_up > 0 then (if include_ambiguous then bfs_callers_ambiguous db seeds depth_up static_only
                                       else bfs_callers db seeds depth_up static_only) else [])
                (if depth_down > 0 then (if include_ambiguous then bfs_callees_ambiguous db seeds depth_down static_only
                                         else bfs_callees db seeds depth_down static_only) else [])))"

section \<open>Levels are distances\<close>

text \<open>The nodes at a given least number of steps from a set.\<close>

definition at_distance :: "('n \<times> 'n) set \<Rightarrow> 'n set \<Rightarrow> nat \<Rightarrow> 'n set" where
  "at_distance R T d = (R ^^ d) `` T - (\<Union>k<d. (R ^^ k) `` T)"

definition within :: "('n \<times> 'n) set \<Rightarrow> 'n set \<Rightarrow> nat \<Rightarrow> 'n set" where
  "within R T d = (\<Union>k\<le>d. (R ^^ k) `` T)"

lemma within_0 [simp]: "within R T 0 = T" and at_distance_0 [simp]: "at_distance R T 0 = T"
  by (auto simp: within_def at_distance_def)

lemma at_distance_Suc: "at_distance R T (Suc d) = (R ^^ Suc d) `` T - within R T d"
  by (auto simp: at_distance_def within_def less_Suc_eq_le)

lemma within_Suc: "within R T (Suc d) = within R T d \<union> at_distance R T (Suc d)"
  unfolding at_distance_Suc within_def atMost_Suc by (auto simp del: relpow.simps)

lemma relpow_Suc_Image: "(R ^^ Suc d) `` T = R `` ((R ^^ d) `` T)"
  by auto

lemma at_distance_step: "at_distance R T (Suc d) = R `` at_distance R T d - within R T d"
proof
  show "at_distance R T (Suc d) \<subseteq> R `` at_distance R T d - within R T d"
  proof
    fix y assume "y \<in> at_distance R T (Suc d)"
    then have y: "y \<in> (R ^^ Suc d) `` T" "y \<notin> within R T d" by (auto simp: at_distance_Suc)
    then obtain x where x: "x \<in> (R ^^ d) `` T" "(x, y) \<in> R" unfolding relpow_Suc_Image by auto
    have "x \<notin> (R ^^ k) `` T" if "k < d" for k
    proof
      assume "x \<in> (R ^^ k) `` T"
      then have "y \<in> (R ^^ Suc k) `` T" using x(2) unfolding relpow_Suc_Image by auto
      then show False using y(2) that by (auto simp: within_def simp del: relpow.simps)
    qed
    then show "y \<in> R `` at_distance R T d - within R T d" using x y(2) by (auto simp: at_distance_def)
  qed
  show "R `` at_distance R T d - within R T d \<subseteq> at_distance R T (Suc d)"
    unfolding at_distance_Suc relpow_Suc_Image by (auto simp: at_distance_def)
qed

lemma at_distance_empty: "at_distance R T d = {} \<Longrightarrow> d \<le> k \<Longrightarrow> at_distance R T k = {}"
proof (induction k)
  case (Suc k)
  then show ?case by (cases "d = Suc k") (simp_all add: at_distance_step [of R T k])
qed simp

lemma concat_chunks: "0 < n \<Longrightarrow> concat (chunks n xs) = xs"
  by (induction n xs rule: chunks.induct) (subst chunks.simps, auto)

text \<open>The contract of a query: over a list of names it answers the neighbours of any of them.\<close>

locale neighbour_query =
  fixes query :: "ucs list \<Rightarrow> ucs list" and R :: "(ucs \<times> ucs) set"
  assumes query_neighbours: "set (query names) = R `` set names"
begin

lemma all_rows: "set (concat (map query (chunks CHUNK names))) = R `` set names"
proof -
  have "set (concat (map query (chunks CHUNK names))) = R `` set (concat (chunks CHUNK names))"
    by (auto simp: query_neighbours)
  then show ?thesis by (simp add: concat_chunks CHUNK_def)
qed

lemma bfs_loop_levels:
  assumes "set visited = within R T d" "set current = at_distance R T d"
  shows "bfs_loop query n (int d + 1) visited current levels =
    levels @ map (\<lambda>k. (int k, sorted_list_of_set (at_distance R T k)))
      (filter (\<lambda>k. at_distance R T k \<noteq> {}) [Suc d..<Suc d + n])"
  using assms
proof (induction n arbitrary: d visited current levels)
  case (Suc n)
  let ?next = "btree_set (filter (\<lambda>row. row \<notin> set visited) (concat (map query (chunks CHUNK current))))"
  have fresh: "set ?next = at_distance R T (Suc d)"
    using Suc.prems by (auto simp: at_distance_step simp del: set_concat simp: all_rows)
  then have sorted: "?next = sorted_list_of_set (at_distance R T (Suc d))"
    by (metis distinct_btree_set sorted_btree_set sorted_list_of_set.idem_if_sorted_distinct)
  have stop: "filter (\<lambda>k. at_distance R T k \<noteq> {}) [Suc d..<Suc d + Suc n] = []" if "at_distance R T (Suc d) = {}"
    using at_distance_empty [OF that] by (auto simp: filter_empty_conv)
  show ?case
  proof (cases "at_distance R T (Suc d) = {}")
    case True
    then have "?next = []" using fresh by (metis set_empty)
    then show ?thesis using stop [OF True] by (simp add: Let_def)
  next
    case False
    then have "?next \<noteq> []" using fresh by (metis set_empty)
    moreover have "current \<noteq> []" using False Suc.prems(2) at_distance_step [of R T d] by auto
    ultimately have ne: "?next \<noteq> []" "current \<noteq> []" by blast+
    have "bfs_loop query (Suc n) (int d + 1) visited current levels =
        bfs_loop query n (int (Suc d) + 1) (visited @ ?next) ?next (levels @ [(int d + 1, ?next)])"
      using ne by (simp add: Let_def)
    also have "\<dots> = (levels @ [(int d + 1, ?next)]) @ map (\<lambda>k. (int k, sorted_list_of_set (at_distance R T k)))
        (filter (\<lambda>k. at_distance R T k \<noteq> {}) [Suc (Suc d)..<Suc (Suc d) + n])"
      using Suc.prems(1) fresh by (intro Suc.IH) (auto simp: within_Suc)
    also have "[Suc d..<Suc d + Suc n] = Suc d # [Suc (Suc d)..<Suc (Suc d) + n]"
      by (simp add: upt_conv_Cons)
    ultimately show ?thesis using False sorted by (simp add: add.commute)
  qed
qed simp

lemma bfs_levels:
  "bfs query targets max_depth =
    map (\<lambda>k. (int k, sorted_list_of_set (at_distance R (set targets) k)))
      (filter (\<lambda>k. at_distance R (set targets) k \<noteq> {}) [1..<Suc (nat max_depth)])"
  using bfs_loop_levels [of targets "set targets" 0 targets "nat max_depth" "[]"] by (simp add: bfs_def)

end

text \<open>The call relations of the index, from a name to the names one step away.\<close>

definition caller_rel :: "index_db \<Rightarrow> bool \<Rightarrow> (ucs \<times> ucs) set" where
  "caller_rel db static_only = {(q, edge_source e) | e q. e \<in> set (i_edges db) \<and> e_callee_qualified e = Some q \<and> prov_clause static_only e}"

definition candidate_rel :: "index_db \<Rightarrow> bool \<Rightarrow> (ucs \<times> ucs) set" where
  "candidate_rel db static_only = {(c_qualified c, edge_source e) | e c. e \<in> set (i_edges db) \<and> c \<in> set (i_candidates db) \<and>
     c_edge_id c = e_id e \<and> prov_clause static_only e}"

lemma set_map_filter: "set (List.map_filter f xs) = {y. \<exists>x \<in> set xs. f x = Some y}"
  by (induction xs) (auto simp: List.map_filter_def)

lemma set_edge_candidate_pairs:
  "set (edge_candidate_pairs db) = {(e, c). e \<in> set (i_edges db) \<and> c \<in> set (i_candidates db) \<and> c_edge_id c = e_id e}"
  by (auto simp: edge_candidate_pairs_def)

interpretation callers: neighbour_query "callers_query db so" "caller_rel db so" for db so
  by unfold_locales (auto simp: callers_query_def callee_in_def caller_rel_def split: option.splits)

interpretation callees: neighbour_query "callees_query db so" "(caller_rel db so)\<inverse>" for db so
  by unfold_locales (auto simp: callees_query_def caller_rel_def set_map_filter)

interpretation ambiguous_callers: neighbour_query "callers_ambiguous_query db so" "caller_rel db so \<union> candidate_rel db so" for db so
proof
  fix names
  have "set (callers_ambiguous_query db so names) = caller_rel db so `` set names \<union> candidate_rel db so `` set names"
    unfolding callers_ambiguous_query_def
    by (simp only: set_remdups set_append set_map set_filter callers.query_neighbours set_edge_candidate_pairs)
      (force simp: candidate_rel_def)
  then show "set (callers_ambiguous_query db so names) = (caller_rel db so \<union> candidate_rel db so) `` set names" by auto
qed

interpretation ambiguous_callees: neighbour_query "callees_ambiguous_query db so" "(caller_rel db so \<union> candidate_rel db so)\<inverse>" for db so
proof
  fix names
  have "set (callees_ambiguous_query db so names) = (caller_rel db so)\<inverse> `` set names \<union> (candidate_rel db so)\<inverse> `` set names"
    unfolding callees_ambiguous_query_def
    by (simp only: set_remdups set_append set_map set_filter callees.query_neighbours set_edge_candidate_pairs)
      (force simp: candidate_rel_def)
  then show "set (callees_ambiguous_query db so names) = (caller_rel db so \<union> candidate_rel db so)\<inverse> `` set names" by auto
qed

section \<open>Properties of the searches\<close>

text \<open>
  C33. The four searches answer exactly the nodes by distance: for every depth up to the limit that has any, the
  names whose shortest chain of calls to (or from) a target has that many edges, in order and without
  repetition.  With the ambiguous candidates the calls of the candidates count as edges too.
\<close>

theorem bfs_exact:
  "bfs_callers db targets max_depth so =
     map (\<lambda>k. (int k, sorted_list_of_set (at_distance (caller_rel db so) (set targets) k)))
       (filter (\<lambda>k. at_distance (caller_rel db so) (set targets) k \<noteq> {}) [1..<Suc (nat max_depth)]) \<and>
   bfs_callees db targets max_depth so =
     map (\<lambda>k. (int k, sorted_list_of_set (at_distance ((caller_rel db so)\<inverse>) (set targets) k)))
       (filter (\<lambda>k. at_distance ((caller_rel db so)\<inverse>) (set targets) k \<noteq> {}) [1..<Suc (nat max_depth)]) \<and>
   bfs_callers_ambiguous db targets max_depth so =
     map (\<lambda>k. (int k, sorted_list_of_set (at_distance (caller_rel db so \<union> candidate_rel db so) (set targets) k)))
       (filter (\<lambda>k. at_distance (caller_rel db so \<union> candidate_rel db so) (set targets) k \<noteq> {}) [1..<Suc (nat max_depth)]) \<and>
   bfs_callees_ambiguous db targets max_depth so =
     map (\<lambda>k. (int k, sorted_list_of_set (at_distance ((caller_rel db so \<union> candidate_rel db so)\<inverse>) (set targets) k)))
       (filter (\<lambda>k. at_distance ((caller_rel db so \<union> candidate_rel db so)\<inverse>) (set targets) k \<noteq> {}) [1..<Suc (nat max_depth)])"
  unfolding bfs_callers_def bfs_callees_def bfs_callers_ambiguous_def bfs_callees_ambiguous_def
  by (intro conjI callers.bfs_levels callees.bfs_levels ambiguous_callers.bfs_levels ambiguous_callees.bfs_levels)

end
