(* ===== verification/GraphPath.thy ===== *)
theory GraphPath
  imports GraphBfs
begin

text \<open>
  The call path between two symbols, \<^verbatim>\<open>remy-cc/src/mcp/graph.rs\<close>: the graph loaded from the index, the
  bidirectional search and the reconstruction of the path from the two parent maps.  A map is an
  association list with the newest entry first.  The walk along parents has the size of the map as
  fuel; running out of it, or looking up an absent node (a panic), is \<open>None\<close>, and both are shown not
  to happen.
\<close>

type_synonym label = "ucs option \<times> ucs option"
type_synonym Adjacency = "(int \<times> (int \<times> label) list) list"
type_synonym ParentMap = "(int \<times> int option \<times> label) list"
type_synonym PathStep = "int \<times> label"

record Graph =
  adj_fwd :: Adjacency
  adj_bwd :: Adjacency
  name_to_id :: "(ucs \<times> int) list"
  id_to_info :: "(int \<times> ucs \<times> ucs \<times> ucs \<times> int option \<times> ucs) list"

section \<open>Loading\<close>

definition load_symbol :: "symbol_row \<Rightarrow> Graph \<Rightarrow> Graph" where
  "load_symbol s g = g\<lparr>name_to_id := (symbol_qualified s, s_id s) # name_to_id g,
     id_to_info := (s_id s, symbol_qualified s, s_file_path s, s_name s, s_lineno s, s_type s) # id_to_info g\<rparr>"

definition load_edge :: "edge_row \<Rightarrow> Graph \<Rightarrow> Graph" where
  "load_edge e g =
     (case (map_of (name_to_id g) (edge_source e), Option.bind (e_callee_qualified e) (map_of (name_to_id g))) of
        (Some src_id, Some tgt_id) \<Rightarrow>
          g\<lparr>adj_fwd := map_extend src_id [(tgt_id, e_provenance e, e_via e)] (adj_fwd g),
            adj_bwd := map_extend tgt_id [(src_id, e_provenance e, e_via e)] (adj_bwd g)\<rparr>
      | _ \<Rightarrow> g)"

definition load_graph :: "index_db \<Rightarrow> bool \<Rightarrow> Graph" where
  "load_graph db static_only =
     (let edge_rows = filter (\<lambda>e. e_callee_qualified e \<noteq> None \<and> prov_clause static_only e) (i_edges db);
          named = fold load_symbol (i_symbols db) \<lparr>adj_fwd = [], adj_bwd = [], name_to_id = [], id_to_info = []\<rparr>
      in fold load_edge edge_rows named)"

section \<open>The search\<close>

fun expand :: "(int \<times> int \<times> label) list \<Rightarrow> ParentMap \<Rightarrow> ParentMap \<Rightarrow> int list \<Rightarrow> (int \<times> ParentMap) + (ParentMap \<times> int list)" where
  "expand [] other parents next_front = Inr (parents, next_front)"
| "expand ((nid, t, l) # es) other parents next_front =
     (let fresh = map_of parents t = None;
          parents' = (if fresh then (t, Some nid, l) # parents else parents);
          next' = (if fresh then next_front @ [t] else next_front)
      in if map_of other t \<noteq> None then Inl (t, parents') else expand es other parents' next')"

definition front_edges :: "Adjacency \<Rightarrow> int list \<Rightarrow> (int \<times> int \<times> label) list" where
  "front_edges adj front = concat (map (\<lambda>nid. map (Pair nid) (map_values adj nid)) front)"

fun walk_parents :: "nat \<Rightarrow> ParentMap \<Rightarrow> int option \<Rightarrow> PathStep list option" where
  "walk_parents fuel m None = Some []"
| "walk_parents 0 m (Some n) = None"
| "walk_parents (Suc fuel) m (Some n) =
     (case map_of m n of None \<Rightarrow> None | Some (par, l) \<Rightarrow> map_option (Cons (n, l)) (walk_parents fuel m par))"

definition edge_label :: "Graph \<Rightarrow> int \<Rightarrow> int \<Rightarrow> label" where
  "edge_label g prev nid =
     (case find (\<lambda>(t, _). t = nid) (map_values (adj_fwd g) prev) of None \<Rightarrow> (None, None) | Some (_, l) \<Rightarrow> l)"

fun link_steps :: "Graph \<Rightarrow> int \<Rightarrow> int list \<Rightarrow> PathStep list" where
  "link_steps g prev [] = []"
| "link_steps g prev (n # ns) = (n, edge_label g prev n) # link_steps g n ns"

definition reconstruct_path :: "Graph \<Rightarrow> int \<Rightarrow> ParentMap \<Rightarrow> ParentMap \<Rightarrow> PathStep list option" where
  "reconstruct_path g meet fwd_parent bwd_parent =
     Option.bind (walk_parents (length fwd_parent) fwd_parent (Some meet)) (\<lambda>fwd_half.
     Option.bind (map_of bwd_parent meet) (\<lambda>(first, _).
     Option.bind (walk_parents (length bwd_parent) bwd_parent first) (\<lambda>bwd_half.
     Some (rev fwd_half @ link_steps g meet (map fst bwd_half)))))"

text \<open>The outer option is \<open>None\<close> for a panic, the inner one is the result.\<close>

fun bidir_loop :: "nat \<Rightarrow> Graph \<Rightarrow> int \<Rightarrow> ParentMap \<Rightarrow> ParentMap \<Rightarrow> int list \<Rightarrow> int list \<Rightarrow> PathStep list option option" where
  "bidir_loop 0 g max_visited fwd bwd front_f front_b = Some None"
| "bidir_loop (Suc n) g max_visited fwd bwd front_f front_b =
     (if int (length fwd + length bwd) > max_visited then Some None
      else if front_f = [] \<and> front_b = [] then Some None
      else (case expand (front_edges (adj_fwd g) front_f) bwd fwd [] of
          Inl (meet, fwd') \<Rightarrow> map_option Some (reconstruct_path g meet fwd' bwd)
        | Inr (fwd', next_f) \<Rightarrow>
            (case expand (front_edges (adj_bwd g) front_b) fwd' bwd [] of
               Inl (meet, bwd') \<Rightarrow> map_option Some (reconstruct_path g meet fwd' bwd')
             | Inr (bwd', next_b) \<Rightarrow> bidir_loop n g max_visited fwd' bwd' next_f next_b)))"

definition bidir_bfs :: "Graph \<Rightarrow> int \<Rightarrow> int \<Rightarrow> int \<Rightarrow> int \<Rightarrow> PathStep list option option" where
  "bidir_bfs g src_id tgt_id max_depth max_visited =
     (if src_id = tgt_id then Some (Some [(src_id, None, None)])
      else bidir_loop (nat max_depth) g max_visited [(src_id, None, None, None)] [(tgt_id, None, None, None)] [src_id] [tgt_id])"

section \<open>The loaded graph\<close>

definition fwd_edges :: "Graph \<Rightarrow> (int \<times> int \<times> label) set" where
  "fwd_edges g = {(n, t, l). (t, l) \<in> set (map_values (adj_fwd g) n)}"

definition bwd_edges :: "Graph \<Rightarrow> (int \<times> int \<times> label) set" where
  "bwd_edges g = {(n, s, l). (s, l) \<in> set (map_values (adj_bwd g) n)}"

definition reversed :: "Graph \<Rightarrow> bool" where
  "reversed g \<longleftrightarrow> (\<forall>n s l. (n, s, l) \<in> bwd_edges g \<longleftrightarrow> (s, n, l) \<in> fwd_edges g)"

lemma reversed_load_edge: "reversed g \<Longrightarrow> reversed (load_edge e g)"
  by (auto simp: reversed_def load_edge_def fwd_edges_def bwd_edges_def map_values_extend split: option.splits)

lemma reversed_fold: "reversed g \<Longrightarrow> reversed (fold load_edge es g)"
  by (induction es arbitrary: g) (auto intro: reversed_load_edge)

lemma reversed_load_graph: "reversed (load_graph db so)"
proof -
  have "adj_fwd (fold load_symbol ss g) = adj_fwd g \<and> adj_bwd (fold load_symbol ss g) = adj_bwd g" for ss g
    by (induction ss arbitrary: g) (auto simp: load_symbol_def)
  then show ?thesis unfolding load_graph_def Let_def
    by (intro reversed_fold) (simp add: reversed_def fwd_edges_def bwd_edges_def map_values_def)
qed

section \<open>Parent maps are trees\<close>

inductive tree :: "(int \<times> int \<times> label) set \<Rightarrow> int \<Rightarrow> ParentMap \<Rightarrow> bool" for E r where
  root: "tree E r [(r, None, None, None)]"
| child: "tree E r m \<Longrightarrow> map_of m n = None \<Longrightarrow> map_of m p \<noteq> None \<Longrightarrow> (p, n, l) \<in> E \<Longrightarrow> tree E r ((n, Some p, l) # m)"

text \<open>A sequence of steps that follows edges, with their labels.\<close>

fun steps :: "(int \<times> int \<times> label) set \<Rightarrow> int \<Rightarrow> PathStep list \<Rightarrow> bool" where
  "steps E n [] = True"
| "steps E n ((t, l) # ss) \<longleftrightarrow> (n, t, l) \<in> E \<and> steps E t ss"

definition end_of :: "int \<Rightarrow> PathStep list \<Rightarrow> int" where
  "end_of n ss = (if ss = [] then n else fst (last ss))"

lemma end_of_Cons [simp]: "end_of n (s # ss) = end_of (fst s) ss"
  by (simp add: end_of_def)

lemma steps_snoc: "steps E n (ss @ [(t, l)]) \<longleftrightarrow> steps E n ss \<and> (end_of n ss, t, l) \<in> E"
  by (induction E n ss rule: steps.induct) (auto simp: end_of_def)

lemma steps_append: "steps E n (ss @ ts) \<longleftrightarrow> steps E n ss \<and> steps E (end_of n ss) ts"
  by (induction E n ss rule: steps.induct) (auto simp: end_of_def)

lemma walk_cons: "walk_parents k m par = Some w \<Longrightarrow> map_of m t = None \<Longrightarrow> walk_parents k ((t, x) # m) par = Some w"
  by (induction k m par arbitrary: w rule: walk_parents.induct) (auto split: option.splits)

lemma walk_Suc: "walk_parents k m par = Some w \<Longrightarrow> walk_parents (Suc k) m par = Some w"
proof (induction k arbitrary: par w)
  case 0
  then show ?case by (cases par) auto
next
  case (Suc k)
  show ?case
  proof (cases par)
    case (Some n)
    then obtain a l w' where a: "map_of m n = Some (a, l)" "walk_parents k m a = Some w'" "w = (n, l) # w'"
      using Suc.prems by (auto split: option.splits)
    have "walk_parents (Suc k) m a = Some w'" using a(2) by (rule Suc.IH)
    then show ?thesis using a Some by (simp only: walk_parents.simps(3) option.case prod.case option.map)
  qed (use Suc.prems in simp)
qed

lemma tree_walk:
  "tree E r m \<Longrightarrow> map_of m n \<noteq> None \<Longrightarrow>
   \<exists>ss. walk_parents (length m) m (Some n) = Some (rev ((r, None, None) # ss)) \<and> steps E r ss \<and> end_of r ss = n"
proof (induction arbitrary: n rule: tree.induct)
  case root
  then show ?case by (intro exI [of _ "[]"]) (auto simp: end_of_def split: if_splits)
next
  case (child m n' p l)
  show ?case
  proof (cases "n = n'")
    case False
    then have "map_of m n \<noteq> None" using child.prems by simp
    from child.IH [OF this] obtain ss where
      "walk_parents (length m) m (Some n) = Some (rev ((r, None, None) # ss))" "steps E r ss" "end_of r ss = n" by blast
    then show ?thesis using walk_Suc [OF walk_cons [OF _ child.hyps(2)]] by (metis length_Cons)
  next
    case True
    from child.IH [OF child.hyps(3)] obtain ss where
      ss: "walk_parents (length m) m (Some p) = Some (rev ((r, None, None) # ss))" "steps E r ss" "end_of r ss = p" by blast
    have "walk_parents (length ((n', Some p, l) # m)) ((n', Some p, l) # m) (Some n) =
        Some (rev ((r, None, None) # ss @ [(n', l)]))"
      using walk_cons [OF ss(1) child.hyps(2)] True by simp
    moreover have "steps E r (ss @ [(n', l)])" using ss child.hyps(4) by (simp add: steps_snoc)
    ultimately show ?thesis using True by (intro exI [of _ "ss @ [(n', l)]"]) (simp add: end_of_def)
  qed
qed

section \<open>The path is sound\<close>

lemma expand_tree:
  assumes "tree E r parents" "\<And>n t l. (n, t, l) \<in> set es \<Longrightarrow> map_of parents n \<noteq> None \<and> (n, t, l) \<in> E"
  shows "case expand es other parents next_front of
      Inl (meet, parents') \<Rightarrow> tree E r parents' \<and> map_of parents' meet \<noteq> None \<and> map_of other meet \<noteq> None
    | Inr (parents', next') \<Rightarrow> tree E r parents'"
  using assms
proof (induction es other parents next_front rule: expand.induct)
  case (2 nid t l es other parents next_front)
  let ?p = "if map_of parents t = None then (t, Some nid, l) # parents else parents"
  have e: "map_of parents nid \<noteq> None" "(nid, t, l) \<in> E" using 2(3) [of nid t l] by simp_all
  have t: "tree E r ?p" using 2(2) e by (auto intro: tree.child)
  have es: "map_of ?p n \<noteq> None \<and> (n, u, k) \<in> E" if "(n, u, k) \<in> set es" for n u k
    using 2(3) [of n u k] that by auto
  show ?case
  proof (cases "map_of other t = None")
    case True
    then show ?thesis using 2(1) [OF refl refl refl _ t es] by (simp add: Let_def)
  next
    case False
    then show ?thesis using t by (auto simp: Let_def)
  qed
qed simp

lemma front_edges_set: "(n, t, l) \<in> set (front_edges adj front) \<longleftrightarrow> n \<in> set front \<and> (t, l) \<in> set (map_values adj n)"
  by (auto simp: front_edges_def)

lemma edge_label_edge:
  assumes "(prev, n, l) \<in> fwd_edges g"
  shows "(prev, n, edge_label g prev n) \<in> fwd_edges g"
proof -
  have "(n, l) \<in> set (map_values (adj_fwd g) prev)" using assms by (simp add: fwd_edges_def)
  then obtain x where "find (\<lambda>(t, _). t = n) (map_values (adj_fwd g) prev) = Some x"
    by (cases "find (\<lambda>(t, _). t = n) (map_values (adj_fwd g) prev)") (auto simp: find_None_mem)
  with find_Some_iff_mem [OF this] show ?thesis
    by (auto simp: edge_label_def fwd_edges_def split: prod.splits)
qed

text \<open>Linking the nodes of a backward chain follows forward edges to its start.\<close>

lemma link_chain:
  assumes "reversed g" "steps (bwd_edges g) tgt ss"
  shows "steps (fwd_edges g) (end_of tgt ss) (link_steps g (end_of tgt ss) (tl (rev (tgt # map fst ss)))) \<and>
    end_of (end_of tgt ss) (link_steps g (end_of tgt ss) (tl (rev (tgt # map fst ss)))) = tgt"
  using assms(2)
proof (induction ss rule: rev_induct)
  case (snoc s ss)
  obtain t l where s: "s = (t, l)" by (cases s)
  have prev: "steps (bwd_edges g) tgt ss" "(end_of tgt ss, t, l) \<in> bwd_edges g" using snoc.prems s by (simp_all add: steps_snoc)
  have "(t, end_of tgt ss, l) \<in> fwd_edges g" using prev(2) assms(1) unfolding reversed_def by blast
  then have e: "(t, end_of tgt ss, edge_label g t (end_of tgt ss)) \<in> fwd_edges g" by (rule edge_label_edge)
  have split: "rev (tgt # map fst ss) = end_of tgt ss # tl (rev (tgt # map fst ss))"
    by (cases ss rule: rev_cases) (auto simp: end_of_def)
  have t: "tl (rev (tgt # map fst (ss @ [s]))) = end_of tgt ss # tl (rev (tgt # map fst ss))"
    using split by simp
  have n: "end_of tgt (ss @ [s]) = t" by (simp add: end_of_def s)
  show ?case unfolding t n link_steps.simps steps.simps end_of_Cons fst_conv
    using snoc.IH [OF prev(1)] e by blast
qed (simp add: end_of_def)

lemma reconstruct_sound:
  assumes "reversed g" "tree (fwd_edges g) src fwd" "tree (bwd_edges g) tgt bwd"
    and "map_of fwd meet \<noteq> None" "map_of bwd meet \<noteq> None"
  shows "\<exists>ss. reconstruct_path g meet fwd bwd = Some ((src, None, None) # ss) \<and> steps (fwd_edges g) src ss \<and> end_of src ss = tgt"
proof -
  from tree_walk [OF assms(2,4)] obtain fs where
    fs: "walk_parents (length fwd) fwd (Some meet) = Some (rev ((src, None, None) # fs))" "steps (fwd_edges g) src fs" "end_of src fs = meet"
    by blast
  from tree_walk [OF assms(3,5)] obtain bs where
    bs: "walk_parents (length bwd) bwd (Some meet) = Some (rev ((tgt, None, None) # bs))" "steps (bwd_edges g) tgt bs" "end_of tgt bs = meet"
    by blast
  from assms(5) obtain first l where first: "map_of bwd meet = Some (first, l)" by auto
  then obtain k where k: "length bwd = Suc k" by (cases bwd) auto
  have "walk_parents k bwd first = Some (tl (rev ((tgt, None, None) # bs)))"
    using bs(1) first unfolding k by (auto split: option.splits) (metis list.sel(3))
  then have tail: "walk_parents (length bwd) bwd first = Some (tl (rev ((tgt, None, None) # bs)))"
    unfolding k by (rule walk_Suc)
  let ?link = "link_steps g meet (tl (rev (tgt # map fst bs)))"
  have "map fst (tl (rev ((tgt, None, None) # bs))) = tl (rev (tgt # map fst bs))"
    by (simp add: map_tl rev_map)
  then have "reconstruct_path g meet fwd bwd = Some ((src, None, None) # fs @ ?link)"
    using fs(1) first tail by (simp add: reconstruct_path_def)
  moreover have "steps (fwd_edges g) src (fs @ ?link)"
    using link_chain [OF assms(1) bs(2)] fs(2,3) bs(3) by (simp add: steps_append)
  moreover have "end_of src (fs @ ?link) = tgt"
    using link_chain [OF assms(1) bs(2)] fs(3) bs(3) by (auto simp: end_of_def split: if_splits)
  ultimately show ?thesis by blast
qed

section \<open>The search is complete within its depth\<close>

definition fwd_rel :: "Graph \<Rightarrow> (int \<times> int) set" where
  "fwd_rel g = {(n, t). \<exists>l. (n, t, l) \<in> fwd_edges g}"

definition keys :: "ParentMap \<Rightarrow> int set" where
  "keys m = fst ` set m"

lemma keys_map_of: "n \<in> keys m \<longleftrightarrow> map_of m n \<noteq> None"
  by (simp add: keys_def map_of_eq_None_iff)

lemma expand_no_meet:
  assumes "expand es other parents next_front = Inr (parents', next')"
  shows "keys parents' = keys parents \<union> (\<lambda>(n, t, l). t) ` set es \<and>
    set next' = set next_front \<union> ((\<lambda>(n, t, l). t) ` set es - keys parents) \<and>
    (\<lambda>(n, t, l). t) ` set es \<inter> keys other = {}"
  using assms
proof (induction es other parents next_front rule: expand.induct)
  case (2 nid t l es other parents next_front)
  let ?fresh = "map_of parents t = None"
  let ?p = "if ?fresh then (t, Some nid, l) # parents else parents" and ?n = "if ?fresh then next_front @ [t] else next_front"
  have no: "map_of other t = None" using 2(2) by (cases "map_of other t") (auto simp: Let_def)
  have rest: "expand es other ?p ?n = Inr (parents', next')" using 2(2) no by (simp add: Let_def)
  define T where "T = (\<lambda>(n, t, l). t) ` set es"
  have IH: "keys parents' = keys ?p \<union> T" "set next' = set ?n \<union> (T - keys ?p)" "T \<inter> keys other = {}"
    using 2(1) [OF refl refl refl _ rest] no unfolding T_def by simp_all
  have fresh: "t \<in> keys parents \<longleftrightarrow> \<not> ?fresh" "t \<notin> keys other" using no by (simp_all add: keys_map_of)
  moreover have "keys ?p = insert t (keys parents)" using fresh(1) by (auto simp: keys_def)
  ultimately have k: "keys ?p = insert t (keys parents)" "t \<in> keys parents \<longleftrightarrow> \<not> ?fresh" "t \<notin> keys other" by blast+
  have targets: "(\<lambda>(n, t, l). t) ` set ((nid, t, l) # es) = insert t T" by (simp add: T_def)
  show ?case unfolding targets IH(1,2) using IH(3) k by (cases ?fresh) auto
qed simp

lemma front_targets: "(\<lambda>(n, t, l). t) ` set (front_edges adj front) = {(n, t). \<exists>l. (t, l) \<in> set (map_values adj n)} `` set front"
  by (force simp: front_edges_def)

lemma front_targets_fwd: "(\<lambda>(n, t, l). t) ` set (front_edges (adj_fwd g) front) = fwd_rel g `` set front"
  by (simp add: front_targets fwd_rel_def fwd_edges_def)

lemma front_targets_bwd:
  assumes "reversed g"
  shows "(\<lambda>(n, t, l). t) ` set (front_edges (adj_bwd g) front) = (fwd_rel g)\<inverse> `` set front"
proof -
  have "(fwd_rel g)\<inverse> = {(n, t). \<exists>l. (n, t, l) \<in> bwd_edges g}"
    using assms unfolding fwd_rel_def reversed_def by blast
  then show ?thesis by (simp add: front_targets bwd_edges_def)
qed

text \<open>
  The state of the search after some rounds without a meeting: the forward map holds the nodes within that
  many steps of the source, the backward map those within that many steps of the target.
\<close>

definition search_inv :: "Graph \<Rightarrow> int \<Rightarrow> int \<Rightarrow> nat \<Rightarrow> ParentMap \<Rightarrow> ParentMap \<Rightarrow> int list \<Rightarrow> int list \<Rightarrow> bool" where
  "search_inv g src tgt d fwd bwd front_f front_b \<longleftrightarrow>
     tree (fwd_edges g) src fwd \<and> tree (bwd_edges g) tgt bwd \<and> keys fwd \<inter> keys bwd = {} \<and>
     keys fwd = within (fwd_rel g) {src} d \<and> set front_f = at_distance (fwd_rel g) {src} d \<and>
     keys bwd = within ((fwd_rel g)\<inverse>) {tgt} d \<and> set front_b = at_distance ((fwd_rel g)\<inverse>) {tgt} d"

lemma at_distance_within: "at_distance R T d \<subseteq> within R T d"
  by (auto simp: at_distance_def within_def)

lemma within_next: "within R T (Suc d) = within R T d \<union> R `` at_distance R T d"
  by (auto simp: within_Suc at_distance_step)

text \<open>One round either meets, and then both maps are trees that contain the meeting point, or preserves the invariant.\<close>

lemma round_fwd:
  assumes "search_inv g src tgt d fwd bwd front_f front_b"
  shows "case expand (front_edges (adj_fwd g) front_f) bwd fwd [] of
      Inl (meet, fwd') \<Rightarrow> tree (fwd_edges g) src fwd' \<and> map_of fwd' meet \<noteq> None \<and> map_of bwd meet \<noteq> None
    | Inr (fwd', next_f) \<Rightarrow> tree (fwd_edges g) src fwd' \<and> keys fwd' = within (fwd_rel g) {src} (Suc d) \<and>
        set next_f = at_distance (fwd_rel g) {src} (Suc d) \<and> keys fwd' \<inter> keys bwd = {}"
proof -
  let ?es = "front_edges (adj_fwd g) front_f"
  have inv: "tree (fwd_edges g) src fwd" "keys fwd = within (fwd_rel g) {src} d"
    "set front_f = at_distance (fwd_rel g) {src} d" "keys fwd \<inter> keys bwd = {}"
    using assms by (auto simp: search_inv_def)
  have es: "map_of fwd n \<noteq> None \<and> (n, t, l) \<in> fwd_edges g" if "(n, t, l) \<in> set ?es" for n t l
  proof
    show "map_of fwd n \<noteq> None" unfolding keys_map_of [symmetric]
      using that inv(2,3) at_distance_within [of "fwd_rel g" "{src}" d] by (auto simp: front_edges_set)
    show "(n, t, l) \<in> fwd_edges g" using that by (simp only: front_edges_set fwd_edges_def mem_Collect_eq prod.case)
  qed
  note t = expand_tree [OF inv(1) es, of ?es bwd "[]"]
  show ?thesis
  proof (cases "expand ?es bwd fwd []")
    case (Inl x)
    then show ?thesis using t by (auto split: prod.splits)
  next
    case (Inr x)
    obtain fwd' next_f where x: "x = (fwd', next_f)" by (cases x)
    note nm = expand_no_meet [OF Inr [unfolded x], unfolded front_targets_fwd]
    have "keys fwd' = within (fwd_rel g) {src} (Suc d)" using nm inv by (auto simp: within_next)
    moreover have "set next_f = at_distance (fwd_rel g) {src} (Suc d)" using nm inv by (auto simp: at_distance_step)
    moreover have "keys fwd' \<inter> keys bwd = {}" using nm inv(4) by blast
    ultimately show ?thesis using t Inr x by simp
  qed
qed

lemma round_bwd:
  assumes "reversed g" "search_inv g src tgt d fwd bwd front_f front_b"
    and "tree (fwd_edges g) src fwd'" "keys fwd' \<inter> keys bwd = {}"
  shows "case expand (front_edges (adj_bwd g) front_b) fwd' bwd [] of
      Inl (meet, bwd') \<Rightarrow> tree (bwd_edges g) tgt bwd' \<and> map_of bwd' meet \<noteq> None \<and> map_of fwd' meet \<noteq> None
    | Inr (bwd', next_b) \<Rightarrow> tree (bwd_edges g) tgt bwd' \<and> keys bwd' = within ((fwd_rel g)\<inverse>) {tgt} (Suc d) \<and>
        set next_b = at_distance ((fwd_rel g)\<inverse>) {tgt} (Suc d) \<and> keys fwd' \<inter> keys bwd' = {}"
proof -
  let ?es = "front_edges (adj_bwd g) front_b"
  have inv: "tree (bwd_edges g) tgt bwd" "keys bwd = within ((fwd_rel g)\<inverse>) {tgt} d"
    "set front_b = at_distance ((fwd_rel g)\<inverse>) {tgt} d"
    using assms(2) by (auto simp: search_inv_def)
  have es: "map_of bwd n \<noteq> None \<and> (n, t, l) \<in> bwd_edges g" if "(n, t, l) \<in> set ?es" for n t l
  proof
    show "map_of bwd n \<noteq> None" unfolding keys_map_of [symmetric]
      using that inv(2,3) at_distance_within [of "(fwd_rel g)\<inverse>" "{tgt}" d] by (auto simp: front_edges_set)
    show "(n, t, l) \<in> bwd_edges g" using that by (simp only: front_edges_set bwd_edges_def mem_Collect_eq prod.case)
  qed
  note t = expand_tree [OF inv(1) es, of ?es fwd' "[]"]
  show ?thesis
  proof (cases "expand ?es fwd' bwd []")
    case (Inl x)
    then show ?thesis using t by (auto split: prod.splits)
  next
    case (Inr x)
    obtain bwd' next_b where x: "x = (bwd', next_b)" by (cases x)
    note nm = expand_no_meet [OF Inr [unfolded x], unfolded front_targets_bwd [OF assms(1)]]
    have "keys bwd' = within ((fwd_rel g)\<inverse>) {tgt} (Suc d)" using nm inv by (auto simp: within_next)
    moreover have "set next_b = at_distance ((fwd_rel g)\<inverse>) {tgt} (Suc d)" using nm inv by (auto simp: at_distance_step)
    moreover have "keys fwd' \<inter> keys bwd' = {}" using nm assms(4) by blast
    ultimately show ?thesis using t Inr x by simp
  qed
qed

lemma search_start:
  "src \<noteq> tgt \<Longrightarrow> search_inv g src tgt 0 [(src, None, None, None)] [(tgt, None, None, None)] [src] [tgt]"
  by (simp add: search_inv_def tree.root keys_def)

text \<open>One round of the search, as the invariant sees it.\<close>

lemma bidir_round:
  assumes "reversed g" "search_inv g src tgt d fwd bwd front_f front_b"
    "\<not> int (length fwd + length bwd) > max_visited" "\<not> (front_f = [] \<and> front_b = [])"
  shows "(\<exists>ss. bidir_loop (Suc n) g max_visited fwd bwd front_f front_b = Some (Some ((src, None, None) # ss)) \<and>
           steps (fwd_edges g) src ss \<and> end_of src ss = tgt) \<or>
         (\<exists>fwd' bwd' next_f next_b. search_inv g src tgt (Suc d) fwd' bwd' next_f next_b \<and>
           bidir_loop (Suc n) g max_visited fwd bwd front_f front_b = bidir_loop n g max_visited fwd' bwd' next_f next_b)"
proof (cases "expand (front_edges (adj_fwd g) front_f) bwd fwd []")
  case (Inl x)
  obtain meet fwd' where x: "x = (meet, fwd')" by (cases x)
  have bwd: "tree (bwd_edges g) tgt bwd" using assms(2) by (simp add: search_inv_def)
  have f: "tree (fwd_edges g) src fwd'" "map_of fwd' meet \<noteq> None" "map_of bwd meet \<noteq> None"
    using round_fwd [OF assms(2)] unfolding Inl x sum.case prod.case by blast+
  show ?thesis using reconstruct_sound [OF assms(1) f(1) bwd f(2,3)] assms(3,4) Inl x by auto
next
  case (Inr x)
  obtain fwd' next_f where x: "x = (fwd', next_f)" by (cases x)
  have f: "tree (fwd_edges g) src fwd'" "keys fwd' = within (fwd_rel g) {src} (Suc d)"
    "set next_f = at_distance (fwd_rel g) {src} (Suc d)" "keys fwd' \<inter> keys bwd = {}"
    using round_fwd [OF assms(2)] unfolding Inr x sum.case prod.case by blast+
  show ?thesis
  proof (cases "expand (front_edges (adj_bwd g) front_b) fwd' bwd []")
    case (Inl y)
    obtain meet bwd' where y: "y = (meet, bwd')" by (cases y)
    have b: "tree (bwd_edges g) tgt bwd'" "map_of bwd' meet \<noteq> None" "map_of fwd' meet \<noteq> None"
      using round_bwd [OF assms(1,2) f(1,4)] unfolding Inl y sum.case prod.case by blast+
    show ?thesis using reconstruct_sound [OF assms(1) f(1) b(1,3,2)] assms(3,4) Inr x Inl y by auto
  next
    case inr: (Inr y)
    obtain bwd' next_b where y: "y = (bwd', next_b)" by (cases y)
    have b: "tree (bwd_edges g) tgt bwd'" "keys bwd' = within ((fwd_rel g)\<inverse>) {tgt} (Suc d)"
      "set next_b = at_distance ((fwd_rel g)\<inverse>) {tgt} (Suc d)" "keys fwd' \<inter> keys bwd' = {}"
      using round_bwd [OF assms(1,2) f(1,4)] unfolding inr y sum.case prod.case by blast+
    have "search_inv g src tgt (Suc d) fwd' bwd' next_f next_b"
      using f b unfolding search_inv_def by blast
    moreover have "bidir_loop (Suc n) g max_visited fwd bwd front_f front_b = bidir_loop n g max_visited fwd' bwd' next_f next_b"
      using assms(3,4) Inr x inr y by auto
    ultimately show ?thesis by blast
  qed
qed

lemma bidir_loop_sound:
  assumes "reversed g" "search_inv g src tgt d fwd bwd front_f front_b"
  shows "bidir_loop n g v fwd bwd front_f front_b = Some None \<or>
    (\<exists>ss. bidir_loop n g v fwd bwd front_f front_b = Some (Some ((src, None, None) # ss)) \<and>
       steps (fwd_edges g) src ss \<and> end_of src ss = tgt)"
  using assms(2)
proof (induction n arbitrary: d fwd bwd front_f front_b)
  case (Suc n)
  show ?case
  proof (cases "int (length fwd + length bwd) > v \<or> (front_f = [] \<and> front_b = [])")
    case True
    then show ?thesis by auto
  next
    case False
    then show ?thesis using bidir_round [OF assms(1) Suc.prems] Suc.IH by metis
  qed
qed simp

lemma relpow_converse:
  fixes R :: "('n \<times> 'n) set"
  shows "(R\<inverse>) ^^ n = (R ^^ n)\<inverse>"
proof (induction n)
  case (Suc n)
  have "(R\<inverse>) ^^ Suc n = (R ^^ n)\<inverse> O R\<inverse>" by (simp add: Suc)
  also have "\<dots> = (R O R ^^ n)\<inverse>" by (rule converse_relcomp [symmetric])
  also have "R O R ^^ n = R ^^ Suc n" by (simp add: relpow_commute)
  finally show ?case .
qed auto

lemma tree_keys: "tree E r m \<Longrightarrow> length m = card (keys m)"
proof (induction rule: tree.induct)
  case (child m n p l)
  then have "n \<notin> keys m" by (simp add: keys_map_of)
  then show ?case using child by (simp add: keys_def)
qed (simp add: keys_def)

lemma within_bounded: "T \<subseteq> N \<Longrightarrow> R \<subseteq> N \<times> N \<Longrightarrow> within R T d \<subseteq> N"
proof (induction d)
  case (Suc d)
  then show ?case unfolding within_next using at_distance_within by fastforce
qed simp

lemma no_short_path:
  assumes "search_inv g src tgt d fwd bwd front_f front_b" "k \<le> 2 * d"
  shows "(src, tgt) \<notin> fwd_rel g ^^ k"
proof
  assume path: "(src, tgt) \<in> fwd_rel g ^^ k"
  have "k = min k d + (k - min k d)" "k - min k d \<le> d" using assms(2) by auto
  then obtain i j where ij: "k = i + j" "i \<le> d" "j \<le> d" by (metis min.cobounded2)
  then obtain m where "(src, m) \<in> fwd_rel g ^^ i" "(m, tgt) \<in> fwd_rel g ^^ j" using path by (auto simp: relpow_add)
  then have "m \<in> within (fwd_rel g) {src} d" "m \<in> within ((fwd_rel g)\<inverse>) {tgt} d"
    using ij unfolding within_def relpow_converse by blast+
  then show False using assms(1) by (auto simp: search_inv_def)
qed

lemma no_path_at_all:
  assumes "search_inv g src tgt d fwd bwd [] front_b"
  shows "(src, tgt) \<notin> fwd_rel g ^^ k"
proof
  assume "(src, tgt) \<in> fwd_rel g ^^ k"
  then have "tgt \<in> within (fwd_rel g) {src} (max k d)" by (force simp: within_def)
  moreover have "at_distance (fwd_rel g) {src} d = {}" using assms by (simp add: search_inv_def)
  then have "within (fwd_rel g) {src} (d + i) = within (fwd_rel g) {src} d" for i
    using at_distance_empty [of "fwd_rel g" "{src}" d] by (induction i) (auto simp: within_Suc)
  then have "within (fwd_rel g) {src} (max k d) = within (fwd_rel g) {src} d"
    by (metis le_Suc_ex max.cobounded2)
  moreover have "tgt \<in> within ((fwd_rel g)\<inverse>) {tgt} d" by (force simp: within_def)
  ultimately show False using assms by (auto simp: search_inv_def)
qed

lemma bidir_loop_complete:
  assumes "reversed g" "search_inv g src tgt d fwd bwd front_f front_b"
    and "finite N" "src \<in> N" "tgt \<in> N" "fwd_rel g \<subseteq> N \<times> N" "2 * int (card N) \<le> v"
    and "bidir_loop n g v fwd bwd front_f front_b = Some None" "k \<le> 2 * (d + n)"
  shows "(src, tgt) \<notin> fwd_rel g ^^ k"
  using assms(2,8,9)
proof (induction n arbitrary: d fwd bwd front_f front_b)
  case 0
  then show ?case using no_short_path by auto
next
  case (Suc n)
  have budget: "length fwd + length bwd \<le> 2 * card N"
  proof -
    have "keys fwd \<subseteq> N" "keys bwd \<subseteq> N"
      using Suc.prems(1) assms(4-6) within_bounded [of "{src}" N "fwd_rel g" d] within_bounded [of "{tgt}" N "(fwd_rel g)\<inverse>" d]
      by (auto simp: search_inv_def)
    moreover have "length fwd = card (keys fwd)" "length bwd = card (keys bwd)"
      using Suc.prems(1) tree_keys by (auto simp: search_inv_def)
    ultimately show ?thesis using card_mono [OF assms(3)] by (metis add_mono mult_2)
  qed
  then have within: "\<not> int (length fwd + length bwd) > v" using assms(7) by linarith
  show ?case
  proof (cases "front_f = []")
    case True
    then show ?thesis using no_path_at_all Suc.prems(1) by blast
  next
    case False
    then show ?thesis
      using bidir_round [OF assms(1) Suc.prems(1) within, of n] Suc.prems(2,3) Suc.IH by fastforce
  qed
qed

section \<open>Properties of the path search\<close>

text \<open>
  C34. On the graph loaded from an index the search always ends with an answer.  A path it answers starts at the source,
  ends at the target, and each of its steps follows an edge of the call graph with the label of such an edge.
\<close>

theorem flow_path_sound:
  "let g = load_graph db so in
   bidir_bfs g src tgt max_depth max_visited = Some None \<or>
   (\<exists>ss. bidir_bfs g src tgt max_depth max_visited = Some (Some ((src, None, None) # ss)) \<and>
      steps (fwd_edges g) src ss \<and> end_of src ss = tgt)"
  using bidir_loop_sound [OF reversed_load_graph search_start, of src tgt]
  by (auto simp: bidir_bfs_def Let_def end_of_def)

text \<open>
  C35. When the budget of visited nodes covers the graph twice, the answer that there is no path means that no chain of at most
  twice the depth limit many calls leads from the source to the target.
\<close>

theorem flow_path_complete:
  assumes "finite N" "src \<in> N" "tgt \<in> N" "fwd_rel (load_graph db so) \<subseteq> N \<times> N" "2 * int (card N) \<le> max_visited"
    and "bidir_bfs (load_graph db so) src tgt max_depth max_visited = Some None" "k \<le> 2 * nat max_depth"
  shows "(src, tgt) \<notin> fwd_rel (load_graph db so) ^^ k"
proof -
  have ne: "src \<noteq> tgt" using assms(6) by (auto simp: bidir_bfs_def)
  show ?thesis
    using bidir_loop_complete [OF reversed_load_graph search_start [OF ne] assms(1-5), of "nat max_depth" k] assms(6,7) ne
    by (simp add: bidir_bfs_def)
qed

definition no_rows :: index_db where
  "no_rows = \<lparr>i_files = [], i_symbols = [], i_occurrences = [], i_edges = [], i_candidates = [], i_patterns = [],
     i_clusters = [], i_members = [], i_summaries = [], i_counters = [], i_documents = [], i_meta = [],
     i_seq = \<lparr>seq_symbols = 1, seq_edges = 1, seq_patterns = 1, seq_clusters = 1, seq_summaries = 1, seq_documents = 1\<rparr>\<rparr>"

theorem flow_path_complete_witness: "(1, 2) \<notin> fwd_rel (load_graph no_rows False) ^^ 3"
proof -
  have e: "fwd_rel (load_graph no_rows False) \<subseteq> {1, 2} \<times> {1, 2}"
    by (simp add: fwd_rel_def fwd_edges_def load_graph_def no_rows_def map_values_def)
  have r: "bidir_bfs (load_graph no_rows False) 1 2 2 10 = Some None" by code_simp
  show ?thesis
    using flow_path_complete [OF _ _ _ e _ r, of 3] by simp
qed

end
