(* ===== verification/ScanOutcome.thy ===== *)
theory ScanOutcome
  imports Worker Orders "HOL-Library.Char_ord"
begin

text \<open>
  The result a scan prints, \<^verbatim>\<open>remy-cc/scanner-core/src/result.rs\<close>, its progress events, and the
  contract between them and the supervisor that reads them in the daemon.
\<close>

record StageError =
  se_stage :: string
  se_path :: "string option"
  se_message :: string

datatype RunStatus = RunSuccess | RunPartial | RunFailed

fun run_status_value :: "RunStatus \<Rightarrow> string" where
  "run_status_value RunSuccess = ''success''"
| "run_status_value RunPartial = ''partial''"
| "run_status_value RunFailed = ''failed''"

fun exit_code :: "RunStatus \<Rightarrow> int" where
  "exit_code RunSuccess = 0"
| "exit_code RunPartial = 2"
| "exit_code RunFailed = 1"

record ScanResult =
  sr_status :: RunStatus
  sr_discovered_paths :: "string list"
  sr_successful_paths :: "string list"
  sr_failed_paths :: "string list"
  sr_deleted_paths :: "string list"
  sr_errors :: "StageError list"
  sr_postprocess_complete :: bool

definition from_parts ::
    "string list \<Rightarrow> string list \<Rightarrow> string list \<Rightarrow> string list \<Rightarrow> StageError list \<Rightarrow> bool \<Rightarrow> ScanResult" where
  "from_parts discovered_paths successful_paths failed_paths deleted_paths errors postprocess_complete =
     (let discovered = btree_set discovered_paths; successful = btree_set successful_paths;
          failed = btree_set failed_paths; deleted = btree_set deleted_paths;
          run_status = (if errors = [] then RunSuccess
                        else if successful \<noteq> [] \<or> deleted \<noteq> [] then RunPartial else RunFailed)
      in \<lparr>sr_status = run_status, sr_discovered_paths = discovered, sr_successful_paths = successful,
          sr_failed_paths = failed, sr_deleted_paths = deleted, sr_errors = errors,
          sr_postprocess_complete = postprocess_complete\<rparr>)"

definition json_paths :: "string list \<Rightarrow> string json_value" where
  "json_paths ps = JArray (map JString ps)"

definition stage_error_value :: "StageError \<Rightarrow> string json_value" where
  "stage_error_value e =
     JObject [(''stage'', JString (se_stage e)),
              (''path'', case se_path e of None \<Rightarrow> JNull | Some p \<Rightarrow> JString p),
              (''message'', JString (se_message e))]"

text \<open>The value that is printed on one line; its text is the work of the JSON encoder.\<close>

definition to_json_value :: "ScanResult \<Rightarrow> string json_value" where
  "to_json_value r =
     JObject [(''type'', JString ''scan_result''),
              (''schema_version'', JNumber (NInt 1)),
              (''outcome'', JString (run_status_value (sr_status r))),
              (''successful_paths'', json_paths (sr_successful_paths r)),
              (''failed_paths'', json_paths (sr_failed_paths r)),
              (''deleted_paths'', json_paths (sr_deleted_paths r)),
              (''postprocess_complete'', JBool (sr_postprocess_complete r)),
              (''errors'', JArray (map stage_error_value (sr_errors r)))]"

section \<open>Progress events\<close>

text \<open>The value of one progress line, with the milliseconds since the start of the scan.\<close>

definition progress_event :: "nat \<Rightarrow> string \<times> nat option \<Rightarrow> string json_value" where
  "progress_event elapsed_ms = (\<lambda>(stage, files).
     JObject ([(''type'', JString ''progress''), (''stage'', JString stage), (''elapsed_ms'', JNumber (NInt (int elapsed_ms)))] @
       (case files of None \<Rightarrow> [] | Some n \<Rightarrow> [(''files'', JNumber (NInt (int n)))])))"

text \<open>The events of the write loop of a full scan: one after every 250th file.\<close>

definition write_events :: "nat \<Rightarrow> (string \<times> nat option) list" where
  "write_events n = map (\<lambda>written. (''write'', Some written)) (filter (\<lambda>written. 250 dvd written) [1..<Suc n])"

definition full_scan_events :: "nat \<Rightarrow> (string \<times> nat option) list" where
  "full_scan_events n =
     [(''lock_acquired'', None)] @ write_events n @ [(''parse_done'', Some n), (''postprocess_done'', None)]"

definition scan_files_events :: "(string \<times> nat option) list" where
  "scan_files_events = [(''lock_acquired'', None), (''parse_done'', None), (''postprocess_done'', None)]"

definition progress_values :: "(nat \<Rightarrow> nat) \<Rightarrow> (string \<times> nat option) list \<Rightarrow> string json_value list" where
  "progress_values clock events = map (\<lambda>(i, ev). progress_event (clock i) ev) (enumerate 0 events)"

section \<open>The printed value is valid\<close>

lemma to_json_value_result: "result_value (to_json_value r)"
  by (simp add: result_value_def to_json_value_def json_str_field_def has_exact_keys_def scan_result_keys_def json_access_defs)

lemma valid_json_paths: "valid_string_array (json_paths ps)"
  by (simp add: valid_string_array_def json_paths_def json_access_defs list_all_iff)

lemma valid_stage_errors: "valid_error_array (JArray (map stage_error_value es))"
  by (auto simp: valid_error_array_def stage_error_value_def has_exact_keys_def opt_holds_def json_access_defs
      list_all_iff split: option.splits)

lemma to_json_value_fields:
  "json_str_field ''outcome'' (to_json_value r) = Some (run_status_value (sr_status r))"
  "Option.bind (json_get ''schema_version'' (to_json_value r)) as_u64 = Some 1"
  "json_index (to_json_value r) ''successful_paths'' = json_paths (sr_successful_paths r)"
  "json_index (to_json_value r) ''failed_paths'' = json_paths (sr_failed_paths r)"
  "json_index (to_json_value r) ''deleted_paths'' = json_paths (sr_deleted_paths r)"
  "json_index (to_json_value r) ''postprocess_complete'' = JBool (sr_postprocess_complete r)"
  "json_index (to_json_value r) ''errors'' = JArray (map stage_error_value (sr_errors r))"
  "json_get ''errors'' (to_json_value r) = Some (JArray (map stage_error_value (sr_errors r)))"
  by (simp_all add: to_json_value_def json_str_field_def json_access_defs)

lemma to_json_value_valid: "valid_scan_result (to_json_value r)"
  by (cases "sr_status r")
    (simp_all add: valid_scan_result_def to_json_value_fields valid_json_paths valid_stage_errors is_boolean_def)

section \<open>Which events the supervisor knows\<close>

lemma progress_event_type: "json_str_field ''type'' (progress_event ms ev) = Some ''progress''"
  by (cases ev) (simp add: progress_event_def json_str_field_def json_access_defs)

lemma progress_event_valid:
  "valid_progress_line (progress_event ms (stage, files)) \<longleftrightarrow> stage \<in> {''lock_acquired'', ''parse_done'', ''postprocess_done''}"
  by (cases files) (auto simp: progress_event_def valid_progress_line_def json_str_field_def json_access_defs)

definition known_stage :: "string \<times> nat option \<Rightarrow> bool" where
  "known_stage ev \<longleftrightarrow> fst ev \<in> {''lock_acquired'', ''parse_done'', ''postprocess_done''}"

lemma progress_values_valid: "list_all progress_value (progress_values clock events) \<longleftrightarrow> list_all known_stage events"
proof -
  have "list_all progress_value (map (\<lambda>(i, ev). progress_event (clock i) ev) (enumerate n events)) \<longleftrightarrow> list_all known_stage events" for n
  proof (induction events arbitrary: n)
    case (Cons ev events)
    have "progress_value (progress_event (clock n) ev) \<longleftrightarrow> known_stage ev"
      by (cases ev) (simp add: progress_value_def progress_event_type progress_event_valid known_stage_def)
    then show ?case using Cons by simp
  qed simp
  then show ?thesis by (simp add: progress_values_def)
qed

lemma write_events_empty: "write_events n = [] \<longleftrightarrow> n < 250"
proof -
  have "(\<exists>w \<in> set [1..<Suc n]. 250 dvd w) \<longleftrightarrow> 250 \<le> n"
  proof
    assume "\<exists>w \<in> set [1..<Suc n]. 250 dvd w"
    then show "250 \<le> n" by (auto dest: dvd_imp_le)
  next
    assume "250 \<le> n"
    then have "250 \<in> set [1..<Suc n]" by auto
    moreover have "250 dvd (250 :: nat)" by (rule dvd_refl)
    ultimately show "\<exists>w \<in> set [1..<Suc n]. 250 dvd w" by blast
  qed
  then show ?thesis unfolding write_events_def map_is_Nil_conv filter_empty_conv by fastforce
qed

lemma write_events_stage: "ev \<in> set (write_events n) \<Longrightarrow> fst ev = ''write''"
  by (auto simp: write_events_def)

text \<open>An event the supervisor does not know ends the judgement with a failure.\<close>

lemma judge_unknown_stage:
  assumes "list_all2 (\<lambda>l x. json_from_str e l = Inr x) ls (good @ bad # rest)" "list_all progress_value good"
    and "json_str_field ''type'' bad = Some ''progress''" "\<not> valid_progress_line bad"
  shows "judge_lines e code err trunc ls None =
    Inr (Inl (WFailed (error_value ''invalid_output'' ''worker emitted an unknown progress stage'' code ''finalizing'' [] False [])))"
  using assms(1,2)
proof (induction good arbitrary: ls)
  case Nil
  then show ?case using assms(3,4) by (auto simp: list_all2_Cons2)
next
  case (Cons g good)
  then obtain l ls' where "ls = l # ls'" "json_from_str e l = Inr g" "list_all2 (\<lambda>l x. json_from_str e l = Inr x) ls' (good @ bad # rest)"
    by (auto simp: list_all2_Cons2)
  then show ?case using Cons by (auto simp: progress_value_def)
qed

section \<open>Properties of the result\<close>

text \<open>
  A scan succeeds exactly when it met no error; with errors it is partial as soon as it indexed
  or removed a file.  The reported paths are in order and without repetition.
\<close>

lemma from_parts_status:
  "let r = from_parts d s f x errs c in
   (sr_status r = RunSuccess \<longleftrightarrow> errs = []) \<and>
   (sr_status r = RunPartial \<longleftrightarrow> errs \<noteq> [] \<and> (s \<noteq> [] \<or> x \<noteq> [])) \<and>
   sr_errors r = errs \<and>
   (sorted_wrt (<) (sr_successful_paths r) \<and> set (sr_successful_paths r) = set s) \<and>
   (sorted_wrt (<) (sr_failed_paths r) \<and> set (sr_failed_paths r) = set f) \<and>
   (sorted_wrt (<) (sr_deleted_paths r) \<and> set (sr_deleted_paths r) = set x)"
  by (simp add: from_parts_def Let_def strict_sorted_iff)

text \<open>
  C37. The daemon and the scanner agree on the outcome of a scan.  When a scanner process prints
  well-formed progress lines and its result as the last line and exits with the code of its status, the
  supervisor records a success with that result unless the scan failed; then it records a failure
  that carries the scan's stage errors.
\<close>

theorem scan_result_accepted:
  assumes "\<not> cap_truncated out" "utf8_valid (cap_bytes out)"
    and "list_all2 (\<lambda>l x. json_from_str e l = Inr x) (str_lines (cap_bytes out)) (ps @ [to_json_value r])"
    and "list_all progress_value ps"
  shows "evaluate e home (Some (exit_code (sr_status r))) out err =
    Inr (if sr_status r = RunFailed
         then WFailed (error_value ''worker_failed'' ''scanner worker failed'' (Some 1) ''scanning''
                (sanitize home (from_utf8_lossy (cap_bytes err))) (cap_truncated err) (map stage_error_value (sr_errors r)))
         else WSucceeded (to_json_value r))"
proof -
  have "judge_lines e c er t (str_lines (cap_bytes out)) None = Inr (Inr (Some (to_json_value r)))" for c er t
    unfolding judge_lines_result using assms(3,4) to_json_value_result by blast
  then show ?thesis
    using assms(1,2) to_json_value_valid [of r]
    by (cases "sr_status r") (simp_all add: evaluate_def Let_def to_json_value_fields as_array_def)
qed

definition sample_env :: env where
  "sample_env = \<lparr>clock_nanos = 0, fs_is_dir = (\<lambda>_. True), fs_exists = (\<lambda>_. True), fs_canonicalize = Inr,
     json_to_string = (\<lambda>_. Inr ''r''), json_from_str = (\<lambda>_. Inr (to_json_value (from_parts [] [''a''] [] [] [] True)))\<rparr>"

theorem scan_result_accepted_witness:
  "evaluate sample_env None (Some 0) \<lparr>cap_bytes = ''r'', cap_truncated = False\<rparr> \<lparr>cap_bytes = [], cap_truncated = False\<rparr> =
    Inr (WSucceeded (to_json_value (from_parts [] [''a''] [] [] [] True)))"
proof -
  let ?r = "from_parts [] [''a''] [] [] [] True" and ?out = "\<lparr>cap_bytes = ''r'', cap_truncated = False\<rparr>"
  have status: "sr_status ?r = RunSuccess" by (simp add: from_parts_def Let_def)
  have "utf8_valid (cap_bytes ?out)" by code_simp
  moreover have "str_lines (cap_bytes ?out) = [''r'']" by code_simp
  then have "list_all2 (\<lambda>l x. json_from_str sample_env l = Inr x) (str_lines (cap_bytes ?out)) ([] @ [to_json_value ?r])"
    by (simp add: sample_env_def)
  ultimately show ?thesis
    using scan_result_accepted [of ?out sample_env "[]" ?r None "\<lparr>cap_bytes = [], cap_truncated = False\<rparr>"] status by simp
qed

text \<open>
  C38. The progress events the scanner prints and those the supervisor accepts differ: a full scan reports a stage of
  its own after every 250th file, which the supervisor does not know.  The lines of an incremental
  scan and of a full scan of fewer than 250 files are all accepted; a longer full scan is recorded as a failure
  with invalid output, whatever its result and its exit code.
\<close>

theorem large_full_scan_rejected:
  "list_all progress_value (progress_values clock scan_files_events) \<and>
   (list_all progress_value (progress_values clock (full_scan_events n)) \<longleftrightarrow> n < 250) \<and>
   (250 \<le> n \<and> \<not> cap_truncated out \<and> utf8_valid (cap_bytes out) \<and>
    list_all2 (\<lambda>l x. json_from_str e l = Inr x) (str_lines (cap_bytes out))
      (progress_values clock (full_scan_events n) @ [to_json_value r]) \<longrightarrow>
    evaluate e home code out err =
      Inr (WFailed (error_value ''invalid_output'' ''worker emitted an unknown progress stage'' code ''finalizing'' [] False [])))"
proof (intro conjI impI)
  show "list_all progress_value (progress_values clock scan_files_events)"
    by (simp add: progress_values_valid scan_files_events_def known_stage_def)
  have "list_all known_stage (write_events n) \<longleftrightarrow> write_events n = []"
    using write_events_stage [of _ n] by (cases "write_events n") (auto simp: known_stage_def)
  then show "list_all progress_value (progress_values clock (full_scan_events n)) \<longleftrightarrow> n < 250"
    by (simp add: progress_values_valid full_scan_events_def write_events_empty known_stage_def)
next
  assume h: "250 \<le> n \<and> \<not> cap_truncated out \<and> utf8_valid (cap_bytes out) \<and>
    list_all2 (\<lambda>l x. json_from_str e l = Inr x) (str_lines (cap_bytes out)) (progress_values clock (full_scan_events n) @ [to_json_value r])"
  then obtain ev evs where w: "write_events n = ev # evs" using write_events_empty [of n] by (cases "write_events n") auto
  then have unknown: "\<not> known_stage ev" using write_events_stage [of ev n] by (simp add: known_stage_def)
  let ?good = "[progress_event (clock 0) (''lock_acquired'', None)]" and ?bad = "progress_event (clock 1) ev"
  obtain rest where split: "progress_values clock (full_scan_events n) = ?good @ ?bad # rest"
    by (simp add: progress_values_def full_scan_events_def w)
  have good: "list_all progress_value ?good" by (simp add: progress_value_def progress_event_type progress_event_valid)
  have bad: "\<not> valid_progress_line ?bad" using unknown by (cases ev) (simp add: progress_event_valid known_stage_def)
  have lines: "list_all2 (\<lambda>l x. json_from_str e l = Inr x) (str_lines (cap_bytes out)) (?good @ ?bad # rest @ [to_json_value r])"
    using h unfolding split by simp
  show "evaluate e home code out err =
      Inr (WFailed (error_value ''invalid_output'' ''worker emitted an unknown progress stage'' code ''finalizing'' [] False []))"
    using h judge_unknown_stage [OF lines good progress_event_type bad] by (simp add: evaluate_def Let_def)
qed

definition large_scan_lines :: "string json_value list" where
  "large_scan_lines = progress_values (\<lambda>i. i) (full_scan_events 250) @ [to_json_value (from_parts [] [''a''] [] [] [] True)]"

definition large_scan_env :: env where
  "large_scan_env = sample_env\<lparr>json_from_str := (\<lambda>l. Inr (large_scan_lines ! length l))\<rparr>"

theorem large_full_scan_rejected_witness:
  "evaluate large_scan_env None (Some 0) \<lparr>cap_bytes = concat (map (\<lambda>k. replicate k CHR ''x'' @ [char_of (10 :: nat)]) [0..<5]), cap_truncated = False\<rparr>
     \<lparr>cap_bytes = [], cap_truncated = False\<rparr> =
   Inr (WFailed (error_value ''invalid_output'' ''worker emitted an unknown progress stage'' (Some 0) ''finalizing'' [] False []))"
proof -
  let ?out = "\<lparr>cap_bytes = concat (map (\<lambda>k. replicate k CHR ''x'' @ [char_of (10 :: nat)]) [0..<5]), cap_truncated = False\<rparr>"
  let ?r = "from_parts [] [''a''] [] [] [] True"
  have "[1..<Suc 250] = [1..<Suc 249] @ [250 :: nat]" by (simp add: upt_rec)
  then have "write_events 250 = write_events 249 @ [(''write'', Some 250)]" unfolding write_events_def by simp
  then have w: "write_events 250 = [(''write'', Some 250)]" using write_events_empty [of 249] by simp
  then have n: "length large_scan_lines = 5"
    by (simp add: large_scan_lines_def progress_values_def full_scan_events_def)
  have l: "str_lines (cap_bytes ?out) = map (\<lambda>k. replicate k CHR ''x'') [0..<5]" by code_simp
  have "list_all2 (\<lambda>l x. json_from_str large_scan_env l = Inr x) (str_lines (cap_bytes ?out)) large_scan_lines"
    unfolding l list_all2_conv_all_nth by (simp add: n large_scan_env_def)
  moreover have "utf8_valid (cap_bytes ?out)" by code_simp
  ultimately show ?thesis
    using large_full_scan_rejected [of "\<lambda>i. i" 250 ?out large_scan_env ?r None "Some 0" "\<lparr>cap_bytes = [], cap_truncated = False\<rparr>"]
    by (simp add: large_scan_lines_def)
qed

end
