(* ===== verification/PyRepr.thy ===== *)
theory PyRepr
  imports PyJson
begin

text \<open>
  The replication of Python's literals, \<^verbatim>\<open>remy-cc/scanner-core/src/py_repr.rs\<close>: splitting and
  decoding a string literal, the representation of strings, bytes and integers.  Text is a list
  of code points, bytes are numbers below 256.  The 32-bit accumulator of the hexadecimal reader is
  a natural number; eight digits stay below \<open>2 ^ 32\<close> (\<open>take_hex_bound\<close>).
\<close>

datatype LiteralValue = Str ucs | Bytes "nat list"

record LiteralPrefix =
  lp_raw :: bool
  lp_bytes :: bool
  lp_format :: bool
  lp_unicode :: bool

definition default_prefix :: LiteralPrefix where
  "default_prefix = \<lparr>lp_raw = False, lp_bytes = False, lp_format = False, lp_unicode = False\<rparr>"

section \<open>Splitting a literal\<close>

fun take_prefix :: "LiteralPrefix \<Rightarrow> ucs \<Rightarrow> (LiteralPrefix \<times> ucs) option" where
  "take_prefix p [] = None"
| "take_prefix p (c # cs) =
     (if c = 114 \<or> c = 82 then take_prefix (p\<lparr>lp_raw := True\<rparr>) cs
      else if c = 98 \<or> c = 66 then take_prefix (p\<lparr>lp_bytes := True\<rparr>) cs
      else if c = 102 \<or> c = 70 then take_prefix (p\<lparr>lp_format := True\<rparr>) cs
      else if c = 117 \<or> c = 85 then take_prefix (p\<lparr>lp_unicode := True\<rparr>) cs
      else if c = 39 \<or> c = 34 then Some (p, c # cs) else None)"

fun try_quotes :: "ucs list \<Rightarrow> ucs \<Rightarrow> (ucs \<times> ucs) option" where
  "try_quotes [] cs = None"
| "try_quotes (q # qs) cs =
     (case strip_prefix q cs of
        None \<Rightarrow> try_quotes qs cs
      | Some body \<Rightarrow> (case strip_suffix q body of None \<Rightarrow> None | Some b \<Rightarrow> Some (q, b)))"

definition split_literal :: "ucs \<Rightarrow> (LiteralPrefix \<times> ucs \<times> ucs) option" where
  "split_literal cs =
     (case take_prefix default_prefix cs of None \<Rightarrow> None
      | Some (p, r) \<Rightarrow>
          (case try_quotes [[34, 34, 34], [39, 39, 39], [34], [39]] r of None \<Rightarrow> None
           | Some (q, body) \<Rightarrow> Some (p, q, body)))"

section \<open>Decoding a body\<close>

definition encode_utf8 :: "nat \<Rightarrow> nat list" where
  "encode_utf8 c =
     (if c < 128 then [c]
      else if c < 2048 then [192 + c div 64, 128 + c mod 64]
      else if c < 65536 then [224 + c div 4096, 128 + c div 64 mod 64, 128 + c mod 64]
      else [240 + c div 262144, 128 + c div 4096 mod 64, 128 + c div 64 mod 64, 128 + c mod 64])"

definition from_u32 :: "nat \<Rightarrow> nat option" where
  "from_u32 v = (if scalar v then Some v else None)"

fun take_octal :: "nat \<Rightarrow> nat \<Rightarrow> ucs \<Rightarrow> nat \<times> ucs" where
  "take_octal 0 v cs = (v, cs)"
| "take_octal (Suc n) v [] = (v, [])"
| "take_octal (Suc n) v (c # cs) =
     (if 48 \<le> c \<and> c \<le> 55 then take_octal n (v * 8 + (c - 48)) cs else (v, c # cs))"

definition push_char :: "bool \<Rightarrow> nat \<Rightarrow> nat list" where
  "push_char b c = (if b then encode_utf8 c else [c])"

definition simple_escape :: "nat \<Rightarrow> nat option" where
  "simple_escape c =
     (if c = 92 then Some 92 else if c = 39 then Some 39 else if c = 34 then Some 34
      else if c = 97 then Some 7 else if c = 98 then Some 8 else if c = 102 then Some 12
      else if c = 110 then Some 10 else if c = 114 then Some 13 else if c = 116 then Some 9
      else if c = 118 then Some 11 else None)"

text \<open>A decoded code point that is not a character makes the whole literal undecodable.\<close>

definition push_code :: "bool \<Rightarrow> nat option \<times> ucs \<Rightarrow> (nat list \<times> ucs) option" where
  "push_code b = (\<lambda>(v, r). case v of None \<Rightarrow> None
     | Some v \<Rightarrow> (case from_u32 v of None \<Rightarrow> None | Some c \<Rightarrow> Some (push_char b c, r)))"

definition hex_code :: "nat \<Rightarrow> ucs \<Rightarrow> nat option \<times> ucs" where
  "hex_code n r = (case take_hex n 0 r of None \<Rightarrow> (None, r) | Some (v, r') \<Rightarrow> (Some v, r'))"

text \<open>One escape sequence, after the backslash: what it adds to the value and what is left.\<close>

definition escape_step :: "bool \<Rightarrow> nat \<Rightarrow> ucs \<Rightarrow> (nat list \<times> ucs) option" where
  "escape_step b e r =
     (if e = 10 then Some ([], r)
      else if simple_escape e \<noteq> None then push_code b (simple_escape e, r)
      else if 48 \<le> e \<and> e \<le> 55 then
        (case take_octal 2 (e - 48) r of
           (v, r') \<Rightarrow> if b then (if 255 < v then None else Some ([v], r')) else push_code b (Some v, r'))
      else if e = 120 then
        (case take_hex 2 0 r of None \<Rightarrow> None
         | Some (v, r') \<Rightarrow> if b then Some ([v mod 256], r') else push_code b (Some v, r'))
      else if e = 117 \<and> \<not> b then push_code b (hex_code 4 r)
      else if e = 85 \<and> \<not> b then push_code b (hex_code 8 r)
      else if e = 78 \<and> \<not> b then None
      else Some (92 # push_char b e, r))"

lemma take_octal_shorter: "take_octal n v cs = (w, r) \<Longrightarrow> length r \<le> length cs"
  by (induction n v cs rule: take_octal.induct) (auto split: if_splits)

lemma push_code_rest: "push_code b (v, r) = Some (out, r') \<Longrightarrow> r' = r"
  by (auto simp: push_code_def split: option.splits)

lemma hex_code_shorter: "push_code b (hex_code n r) = Some (out, r') \<Longrightarrow> length r' \<le> length r"
  by (auto simp: hex_code_def dest!: push_code_rest take_hex_shorter split: option.splits)

lemma escape_step_shorter: "escape_step b e r = Some (out, r') \<Longrightarrow> length r' \<le> length r"
  unfolding escape_step_def
  by (auto split: if_splits option.splits prod.splits
      dest!: hex_code_shorter push_code_rest dest: take_octal_shorter take_hex_shorter)

function decode_body :: "bool \<Rightarrow> nat list \<Rightarrow> ucs \<Rightarrow> nat list option" where
  "decode_body b acc [] = Some acc"
| "decode_body b acc (c # cs) =
     (if c \<noteq> 92 then decode_body b (acc @ push_char b c) cs
      else case cs of [] \<Rightarrow> None
        | e # r \<Rightarrow> (case escape_step b e r of None \<Rightarrow> None
            | Some (out, r') \<Rightarrow> decode_body b (acc @ out) r'))"
  by pat_completeness auto
termination
  by (relation "measure (\<lambda>(b, acc, cs). length cs)") (auto dest!: escape_step_shorter)

definition decode_literal_body :: "LiteralPrefix \<Rightarrow> ucs \<Rightarrow> LiteralValue option" where
  "decode_literal_body p body =
     (if lp_raw p then Some (if lp_bytes p then Bytes (concat (map encode_utf8 body)) else Str body)
      else (case decode_body (lp_bytes p) [] body of None \<Rightarrow> None
            | Some out \<Rightarrow> Some (if lp_bytes p then Bytes out else Str out)))"

section \<open>Representations\<close>

definition in_range :: "nat \<Rightarrow> nat \<Rightarrow> nat \<Rightarrow> bool" where
  "in_range lo hi c \<longleftrightarrow> lo \<le> c \<and> c \<le> hi"

definition unprintable_ranges :: "(nat \<times> nat) list" where
  "unprintable_ranges =
     [(0x80, 0x9f), (0xa0, 0xa0), (0x1680, 0x1680), (0x2000, 0x200a), (0x202f, 0x202f), (0x205f, 0x205f),
      (0x3000, 0x3000), (0x2028, 0x2028), (0x2029, 0x2029), (0xad, 0xad), (0x600, 0x605), (0x61c, 0x61c),
      (0x6dd, 0x6dd), (0x70f, 0x70f), (0x890, 0x890), (0x891, 0x891), (0x8e2, 0x8e2), (0x180e, 0x180e),
      (0x200b, 0x200f), (0x202a, 0x202e), (0x2060, 0x2064), (0x2066, 0x206f), (0xfeff, 0xfeff),
      (0xfff9, 0xfffb), (0x110bd, 0x110bd), (0x110cd, 0x110cd), (0x13430, 0x1343f), (0x1bca0, 0x1bca3),
      (0x1d173, 0x1d17a), (0xe0001, 0xe0001), (0xe0020, 0xe007f), (0xd800, 0xdfff), (0xe000, 0xf8ff),
      (0xf0000, 0xffffd), (0x100000, 0x10fffd)]"

definition is_printable :: "nat \<Rightarrow> bool" where
  "is_printable c \<longleftrightarrow>
     (if c < 0x80 then 0x20 \<le> c \<and> c < 0x7f
      else \<not> list_ex (\<lambda>(lo, hi). in_range lo hi c) unprintable_ranges)"

definition pick_quote :: "nat list \<Rightarrow> nat" where
  "pick_quote s = (if 39 \<in> set s \<and> 34 \<notin> set s then 34 else 39)"

definition push_escaped_char :: "nat \<Rightarrow> nat \<Rightarrow> ucs" where
  "push_escaped_char quote c =
     (if c = 92 then [92, 92] else if c = 9 then [92, 116] else if c = 10 then [92, 110]
      else if c = 13 then [92, 114] else if c = quote then [92, c]
      else if is_printable c then [c]
      else if c < 0x100 then [92, 120] @ hex_pad 2 c
      else if c < 0x10000 then [92, 117] @ hex_pad 4 c
      else [92, 85] @ hex_pad 8 c)"

definition repr_str :: "ucs \<Rightarrow> ucs" where
  "repr_str s = (let quote = pick_quote s in [quote] @ concat (map (push_escaped_char quote) s) @ [quote])"

definition escape_byte :: "nat \<Rightarrow> nat \<Rightarrow> ucs" where
  "escape_byte quote c =
     (if c = 92 then [92, 92] else if c = 9 then [92, 116] else if c = 10 then [92, 110]
      else if c = 13 then [92, 114] else if c = quote then [92, c]
      else if 0x20 \<le> c \<and> c \<le> 0x7e then [c]
      else [92, 120] @ hex_pad 2 c)"

definition repr_bytes :: "nat list \<Rightarrow> ucs" where
  "repr_bytes s = (let quote = pick_quote s in [98, quote] @ concat (map (escape_byte quote) s) @ [quote])"

definition to_ascii_lowercase :: "nat \<Rightarrow> nat" where
  "to_ascii_lowercase c = (if 65 \<le> c \<and> c \<le> 90 then c + 32 else c)"

text \<open>
  \<^verbatim>\<open>i128::from_str_radix\<close>: an optional sign, at least one digit, every digit below the radix, a value
  in the range of the type.
\<close>

fun radix_value :: "nat \<Rightarrow> nat \<Rightarrow> ucs \<Rightarrow> nat option" where
  "radix_value radix v [] = Some v"
| "radix_value radix v (c # cs) =
     (case to_digit16 c of None \<Rightarrow> None
      | Some d \<Rightarrow> if d < radix then radix_value radix (v * radix + d) cs else None)"

definition from_str_radix :: "nat \<Rightarrow> ucs \<Rightarrow> int option" where
  "from_str_radix radix cs =
     (let neg = (cs \<noteq> [] \<and> hd cs = 45); digits = (if cs \<noteq> [] \<and> (hd cs = 43 \<or> hd cs = 45) then tl cs else cs)
      in if digits = [] then None
         else (case radix_value radix 0 digits of None \<Rightarrow> None
               | Some v \<Rightarrow> (let i = (if neg then - int v else int v)
                   in if - (2 ^ 127) \<le> i \<and> i < 2 ^ 127 then Some i else None)))"

definition repr_int_literal :: "ucs \<Rightarrow> ucs option" where
  "repr_int_literal cs =
     (let cleaned = filter (\<lambda>c. c \<noteq> 95) cs; lower = map to_ascii_lowercase cleaned;
          radix = (\<lambda>r digits. map_option (\<lambda>i. lit (int_to_string i)) (from_str_radix r digits))
      in case strip_prefix [48, 120] lower of
           Some rest \<Rightarrow> radix 16 rest
         | None \<Rightarrow>
             (case strip_prefix [48, 111] lower of
                Some rest \<Rightarrow> radix 8 rest
              | None \<Rightarrow>
                  (case strip_prefix [48, 98] lower of
                     Some rest \<Rightarrow> radix 2 rest
                   | None \<Rightarrow>
                       (let trimmed = dropWhile (\<lambda>c. c = 48) cleaned;
                            normalized = (if trimmed = [] then [48] else trimmed)
                        in if list_all (\<lambda>c. 48 \<le> c \<and> c \<le> 57) normalized then Some normalized else None))))"

section \<open>Facts\<close>

lemma take_hex_bound: "take_hex n v cs = Some (w, r) \<Longrightarrow> w < (v + 1) * 16 ^ n"
proof (induction n v cs rule: take_hex.induct)
  case (3 n v c cs)
  then obtain d where d: "to_digit16 c = Some d" "take_hex n (v * 16 + d) cs = Some (w, r)"
    by (auto split: option.splits)
  then have "d < 16" by (auto simp: to_digit16_def split: if_splits)
  then have "(v * 16 + d + 1) * 16 ^ n \<le> ((v + 1) * 16) * 16 ^ n" by (intro mult_right_mono) auto
  also have "((v + 1) * 16) * 16 ^ n = (v + 1) * 16 ^ Suc n" by (simp only: power_Suc mult.assoc)
  finally show ?case using 3(1) [OF d] by (rule order.strict_trans2 [rotated])
qed auto

lemma take_hex_pad2: "v < 256 \<Longrightarrow> take_hex 2 0 (hex_pad 2 v @ rest) = Some (v, rest)"
  using take_hex_pad [of v 2 0 rest] by simp

lemma take_hex_pad8: "v < 4294967296 \<Longrightarrow> take_hex 8 0 (hex_pad 8 v @ rest) = Some (v, rest)"
  using take_hex_pad [of v 8 0 rest] by simp

lemma pick_quote_cases: "pick_quote s = 39 \<or> pick_quote s = 34"
  by (simp add: pick_quote_def)

lemma decode_escape:
  "escape_step b e r = Some (out, r') \<Longrightarrow> decode_body b acc (92 # e # r) = decode_body b (acc @ out) r'"
  by simp

lemma decode_escaped_char:
  assumes c: "scalar c" and q: "q = 39 \<or> q = 34"
  shows "decode_body False acc (push_escaped_char q c @ rest) = decode_body False (acc @ [c]) rest"
proof -
  have x: "escape_step False 120 (hex_pad 2 c @ rest) = Some ([c], rest)" if "c < 256"
    using that c by (simp add: escape_step_def simple_escape_def take_hex_pad2 push_code_def from_u32_def push_char_def)
  have u: "escape_step False 117 (hex_pad 4 c @ rest) = Some ([c], rest)" if "c < 65536"
    using that c by (simp add: escape_step_def simple_escape_def take_hex_pad4 hex_code_def push_code_def from_u32_def push_char_def)
  have big: "c < 4294967296" using c by (auto simp: scalar_def)
  then have U: "escape_step False 85 (hex_pad 8 c @ rest) = Some ([c], rest)"
    using c by (simp add: escape_step_def simple_escape_def take_hex_pad8 hex_code_def push_code_def from_u32_def push_char_def)
  have s: "escape_step False e rest = Some ([c], rest)" if "simple_escape e = Some c" "e \<noteq> 10" for e
    using that c by (simp add: escape_step_def push_code_def from_u32_def push_char_def)
  have simples: "simple_escape 92 = Some 92" "simple_escape 116 = Some 9" "simple_escape 110 = Some 10"
    "simple_escape 114 = Some 13" "simple_escape 39 = Some 39" "simple_escape 34 = Some 34"
    by (simp_all add: simple_escape_def)
  show ?thesis
    using q x u U s simples
    by (simp add: push_escaped_char_def decode_escape del: decode_body.simps(2)) (auto simp: push_char_def)
qed

lemma decode_escaped_byte:
  assumes c: "c < 256" and q: "q = 39 \<or> q = 34"
  shows "decode_body True acc (escape_byte q c @ rest) = decode_body True (acc @ [c]) rest"
proof -
  have x: "escape_step True 120 (hex_pad 2 c @ rest) = Some ([c], rest)"
    using c by (simp add: escape_step_def simple_escape_def take_hex_pad2)
  have s: "escape_step True e rest = Some ([c], rest)" if "simple_escape e = Some c" "e \<noteq> 10" "c < 128" for e
    using that by (simp add: escape_step_def push_code_def from_u32_def push_char_def scalar_def encode_utf8_def)
  have simples: "simple_escape 92 = Some 92" "simple_escape 116 = Some 9" "simple_escape 110 = Some 10"
    "simple_escape 114 = Some 13" "simple_escape 39 = Some 39" "simple_escape 34 = Some 34"
    by (simp_all add: simple_escape_def)
  show ?thesis
    using q x s simples
    by (simp add: escape_byte_def decode_escape del: decode_body.simps(2)) (auto simp: push_char_def encode_utf8_def)
qed

lemma decode_written_str:
  "list_all scalar s \<Longrightarrow> q = 39 \<or> q = 34 \<Longrightarrow>
   decode_body False acc (concat (map (push_escaped_char q) s)) = Some (acc @ s)"
proof (induction s arbitrary: acc)
  case (Cons c s)
  then show ?case using decode_escaped_char [of c q acc] by simp
qed simp

lemma decode_written_bytes:
  "list_all (\<lambda>c. c < 256) s \<Longrightarrow> q = 39 \<or> q = 34 \<Longrightarrow>
   decode_body True acc (concat (map (escape_byte q) s)) = Some (acc @ s)"
proof (induction s arbitrary: acc)
  case (Cons c s)
  then show ?case using decode_escaped_byte [of c q acc] by simp
qed simp

text \<open>A quoted body that does not begin with its quote is split at the quotes.\<close>

lemma try_quotes_quoted:
  assumes q: "q = 39 \<or> q = 34" and body: "body = [] \<or> hd body \<noteq> q"
  shows "try_quotes [[34, 34, 34], [39, 39, 39], [34], [39]] (q # body @ [q]) = Some ([q], body)"
proof -
  have suf: "strip_suffix [q] (body @ [q]) = Some body" by (simp add: strip_suffix_Some)
  have triple: "strip_prefix [x, x, x] (q # body @ [q]) = None" for x
    using body by (cases body) (auto simp: strip_prefix_def starts_with_def)
  show ?thesis using q suf triple by (auto simp: strip_prefix_def starts_with_def)
qed

lemma split_quoted:
  assumes q: "q = 39 \<or> q = 34" and body: "body = [] \<or> hd body \<noteq> q"
  shows "split_literal (q # body @ [q]) = Some (default_prefix, [q], body)"
    and "split_literal (98 # q # body @ [q]) = Some (default_prefix\<lparr>lp_bytes := True\<rparr>, [q], body)"
proof -
  have t: "take_prefix p (q # r) = Some (p, q # r)" for p r using q by (elim disjE) simp_all
  have b: "take_prefix p (98 # r) = take_prefix (p\<lparr>lp_bytes := True\<rparr>) r" for p r by simp
  note step = split_literal_def t b try_quotes_quoted [OF q body] option.case prod.case
  show "split_literal (q # body @ [q]) = Some (default_prefix, [q], body)"
    by (simp only: step)
  show "split_literal (98 # q # body @ [q]) = Some (default_prefix\<lparr>lp_bytes := True\<rparr>, [q], body)"
    by (simp only: step)
qed

lemma hd_escaped:
  assumes "\<And>c. f c \<noteq> []" "\<And>c. hd (f c) \<noteq> q"
  shows "concat (map f s) = [] \<or> hd (concat (map f s)) \<noteq> q"
  using assms by (cases s) auto

lemma hd_push_escaped: "q = 39 \<or> q = 34 \<Longrightarrow> push_escaped_char q c \<noteq> [] \<and> hd (push_escaped_char q c) \<noteq> q"
  by (auto simp: push_escaped_char_def)

lemma hd_escape_byte: "q = 39 \<or> q = 34 \<Longrightarrow> escape_byte q c \<noteq> [] \<and> hd (escape_byte q c) \<noteq> q"
  by (auto simp: escape_byte_def)

lemma printable_ascii: "32 \<le> c \<Longrightarrow> c \<le> 126 \<Longrightarrow> is_printable c"
  by (simp add: is_printable_def)

lemma hex_pad_printable: "v < 16 ^ n \<Longrightarrow> c \<in> set (hex_pad n v) \<Longrightarrow> is_printable c"
  using hex_pad_range [of v n c] printable_ascii [of c] by simp

lemma push_escaped_printable:
  assumes "scalar c" "q = 39 \<or> q = 34"
  shows "list_all is_printable (push_escaped_char q c)"
proof -
  have h: "list_all is_printable (hex_pad n c)" if "c < 16 ^ n" for n
    using hex_pad_printable [OF that] by (simp add: list_all_iff)
  have "c < 16 ^ 8" using assms(1) by (auto simp: scalar_def)
  then have "list_all is_printable (hex_pad 8 c)" by (rule h)
  moreover have "c < 256 \<Longrightarrow> list_all is_printable (hex_pad 2 c)" using h [of 2] by simp
  moreover have "c < 65536 \<Longrightarrow> list_all is_printable (hex_pad 4 c)" using h [of 4] by simp
  ultimately show ?thesis using assms(2) by (auto simp: push_escaped_char_def printable_ascii)
qed

lemma list_all_concat_map:
  "list_all P xs \<Longrightarrow> (\<And>x. P x \<Longrightarrow> list_all Q (f x)) \<Longrightarrow> list_all Q (concat (map f xs))"
  by (induction xs) auto

text \<open>A literal with a radix, in any case and with separators, is rewritten in decimal.\<close>

lemma radix_value_hex: "v < 16 ^ n \<Longrightarrow> radix_value 16 a (hex_pad n v) = Some (a * 16 ^ n + v)"
proof (induction n arbitrary: v a)
  case (Suc n)
  have d: "v div 16 ^ n < 16" using Suc.prems by (simp add: less_mult_imp_div_less)
  have "radix_value 16 a (hex_pad (Suc n) v) = Some ((a * 16 + v div 16 ^ n) * 16 ^ n + v mod 16 ^ n)"
    using Suc.IH [of "v mod 16 ^ n" "a * 16 + v div 16 ^ n"] d by (simp add: to_digit16_hex [OF d])
  also have "(a * 16 + v div 16 ^ n) * 16 ^ n + v mod 16 ^ n = a * 16 ^ Suc n + v"
    by (simp add: algebra_simps)
  finally show ?case .
qed simp

lemma repr_int_hex:
  assumes "0 < k" "n < 16 ^ k" "map to_ascii_lowercase (filter (\<lambda>c. c \<noteq> 95) cs) = [48, 120] @ hex_pad k n"
  shows "repr_int_literal cs = (if n < 2 ^ 127 then Some (lit (int_to_string (int n))) else None)"
proof -
  obtain d r where h: "hex_pad k n = d # r" using assms(1) by (cases k) auto
  have "48 \<le> d" using hex_pad_range [OF assms(2), of d] h by simp
  then have "from_str_radix 16 (hex_pad k n) = (if int n < 2 ^ 127 then Some (int n) else None)"
    using radix_value_hex [OF assms(2), of 0] by (simp add: from_str_radix_def Let_def h)
  moreover have "int n < 2 ^ 127 \<longleftrightarrow> n < 2 ^ 127" by (metis of_nat_less_iff of_nat_numeral of_nat_power)
  ultimately show ?thesis
    by (simp only: repr_int_literal_def Let_def assms(3)) (simp add: strip_prefix_def starts_with_def)
qed

lemma repr_int_decimal:
  assumes "list_all (\<lambda>c. 48 \<le> c \<and> c \<le> 57) ds" "filter (\<lambda>c. c \<noteq> 95) cs = replicate k 48 @ ds" "ds \<noteq> []" "hd ds \<noteq> 48"
  shows "repr_int_literal cs = Some ds"
proof -
  have digits: "list_all (\<lambda>c. 48 \<le> c \<and> c \<le> 57) (replicate k 48 @ ds)"
    using assms(1) by (auto simp: list_all_iff)
  have same: "map to_ascii_lowercase xs = xs" if "list_all (\<lambda>c. 48 \<le> c \<and> c \<le> 57) xs" for xs
    using that by (induction xs) (auto simp: to_ascii_lowercase_def)
  have no: "strip_prefix [48, x] xs = None" if "list_all (\<lambda>c. 48 \<le> c \<and> c \<le> 57) xs" "57 < x" for x :: nat and xs
  proof -
    have "\<nexists>t. xs = [48, x] @ t" using that by auto
    then show ?thesis by (simp add: strip_prefix_def starts_with_append)
  qed
  have "dropWhile (\<lambda>c. c = 48) (replicate k 48 @ ds) = ds"
    using assms(3,4) by (induction k) (auto simp: neq_Nil_conv)
  then show ?thesis
    using assms(1,3) no [OF digits]
    by (simp only: repr_int_literal_def Let_def assms(2) same [OF digits]) simp
qed

section \<open>Properties of the literals\<close>

text \<open>
  The representation of a string is one printable literal that reads back as that string:
  splitting it finds no prefix and the chosen quote, and decoding its body gives every character
  back, whatever quotes, control characters or unprintable characters the string has.
\<close>

theorem repr_str_roundtrip:
  assumes "list_all scalar s"
  shows "(\<exists>body. split_literal (repr_str s) = Some (default_prefix, [pick_quote s], body) \<and>
            decode_literal_body default_prefix body = Some (Str s)) \<and> list_all is_printable (repr_str s)"
proof -
  let ?q = "pick_quote s"
  let ?body = "concat (map (push_escaped_char ?q) s)"
  have q: "?q = 39 \<or> ?q = 34" by (rule pick_quote_cases)
  have "?body = [] \<or> hd ?body \<noteq> ?q" using hd_push_escaped [OF q] by (intro hd_escaped) simp_all
  then have "split_literal (repr_str s) = Some (default_prefix, [?q], ?body)"
    using split_quoted(1) [OF q] by (simp add: repr_str_def Let_def)
  moreover have "decode_literal_body default_prefix ?body = Some (Str s)"
    using decode_written_str [OF assms q] by (simp add: decode_literal_body_def default_prefix_def)
  moreover have "list_all is_printable (repr_str s)"
  proof -
    have "is_printable ?q" using q printable_ascii [of 39] printable_ascii [of 34] by auto
    then show ?thesis
      using assms push_escaped_printable [OF _ q] by (simp add: repr_str_def Let_def list_all_concat_map)
  qed
  ultimately show ?thesis by (intro conjI exI)
qed

theorem repr_str_roundtrip_witness:
  "(\<exists>body. split_literal (repr_str [39, 10, 8232, 128512]) = Some (default_prefix, [pick_quote [39, 10, 8232, 128512]], body) \<and>
     decode_literal_body default_prefix body = Some (Str [39, 10, 8232, 128512])) \<and>
   list_all is_printable (repr_str [39, 10, 8232, 128512])"
  by (rule repr_str_roundtrip) (simp add: scalar_def)

text \<open>
  The representation of a sequence of bytes is a bytes literal that reads back as those bytes.
\<close>

theorem repr_bytes_roundtrip:
  assumes "list_all (\<lambda>c. c < 256) s"
  shows "\<exists>body. split_literal (repr_bytes s) = Some (default_prefix\<lparr>lp_bytes := True\<rparr>, [pick_quote s], body) \<and>
    decode_literal_body (default_prefix\<lparr>lp_bytes := True\<rparr>) body = Some (Bytes s)"
proof -
  let ?q = "pick_quote s"
  let ?body = "concat (map (escape_byte ?q) s)"
  have q: "?q = 39 \<or> ?q = 34" by (rule pick_quote_cases)
  have "?body = [] \<or> hd ?body \<noteq> ?q" using hd_escape_byte [OF q] by (intro hd_escaped) simp_all
  then have "split_literal (repr_bytes s) = Some (default_prefix\<lparr>lp_bytes := True\<rparr>, [?q], ?body)"
    using split_quoted(2) [OF q] by (simp add: repr_bytes_def Let_def)
  moreover have "decode_literal_body (default_prefix\<lparr>lp_bytes := True\<rparr>) ?body = Some (Bytes s)"
    using decode_written_bytes [OF assms q] by (simp add: decode_literal_body_def default_prefix_def)
  ultimately show ?thesis by blast
qed

theorem repr_bytes_roundtrip_witness:
  "\<exists>body. split_literal (repr_bytes [0, 39, 255]) = Some (default_prefix\<lparr>lp_bytes := True\<rparr>, [pick_quote [0, 39, 255]], body) \<and>
    decode_literal_body (default_prefix\<lparr>lp_bytes := True\<rparr>) body = Some (Bytes [0, 39, 255])"
  by (rule repr_bytes_roundtrip) simp

end
