(* ===== verification/Discovery.thy ===== *)
theory Discovery
  imports ScanConfig Languages
begin

text \<open>
  The discovery of source files, \<^verbatim>\<open>remy-cc/scanner-core/src/discovery.rs\<close>, with the relative paths of
  \<^verbatim>\<open>parse_c_cpp.rs\<close>, on a POSIX system.  The file system is a tree; a directory that cannot be read fails the walk.
  A symbolic link is an entry that is no directory, as its type says.
\<close>

section \<open>Relative paths\<close>

datatype piece = Root | Here | Up | Name ucs

type_synonym path = "piece list"

definition normpath_step :: "path \<times> path \<Rightarrow> piece \<Rightarrow> path \<times> path" where
  "normpath_step = (\<lambda>(prefix, parts) c.
     case c of
       Root \<Rightarrow> ([Root], parts)
     | Here \<Rightarrow> (prefix, parts)
     | Up \<Rightarrow> if parts \<noteq> [] \<and> last parts \<noteq> Up then (prefix, butlast parts)
             else if prefix = [] then (prefix, parts @ [Up]) else (prefix, parts)
     | Name p \<Rightarrow> (prefix, parts @ [Name p]))"

definition normpath :: "path \<Rightarrow> path" where
  "normpath path =
     (let (prefix, parts) = foldl normpath_step ([], []) path; out = prefix @ parts in if out = [] then [Here] else out)"

fun piece_text :: "piece \<Rightarrow> ucs" where
  "piece_text Root = [47]"
| "piece_text Here = [46]"
| "piece_text Up = [46, 46]"
| "piece_text (Name p) = p"

fun common_count :: "path \<Rightarrow> path \<Rightarrow> nat" where
  "common_count (a # as) (b # bs) = (if a = b then Suc (common_count as bs) else 0)"
| "common_count _ _ = 0"

definition relpath_slash :: "path \<Rightarrow> path \<Rightarrow> ucs" where
  "relpath_slash path base =
     (let path_parts = normpath path; base_parts = normpath base; common = common_count path_parts base_parts;
          segments = replicate (length base_parts - common) [46, 46] @ map piece_text (drop common path_parts)
      in if segments = [] then [46] else join_with [47] segments)"

text \<open>Joining the text of two paths: an absolute one replaces what is before it.\<close>

definition absolute_text :: "ucs \<Rightarrow> bool" where
  "absolute_text t \<longleftrightarrow> starts_with [47] t"

definition path_join :: "ucs \<Rightarrow> ucs \<Rightarrow> ucs" where
  "path_join a b = (if absolute_text b then b else if a = [] \<or> ends_with [47] a then a @ b else a @ [47] @ b)"

section \<open>The walk\<close>

datatype fs = FileEntry | DirEntry "(ucs \<times> fs) list" | BadDir

definition is_dir :: "fs \<Rightarrow> bool" where
  "is_dir node \<longleftrightarrow> node \<noteq> FileEntry"

record DiscoveredFile =
  df_full_path :: path
  df_rel_path :: ucs

definition visit_entry :: "ScanConfig \<Rightarrow> path \<Rightarrow> path \<Rightarrow> ucs \<times> fs \<Rightarrow> (path \<times> fs) list \<times> DiscoveredFile list \<Rightarrow> (path \<times> fs) list \<times> DiscoveredFile list" where
  "visit_entry cfg root dir = (\<lambda>(name, node) (stack, discovered).
     let path = dir @ [Name name]; rel = relpath_slash path root
     in if is_dir node then (if is_excluded cfg rel True then (stack, discovered) else (stack @ [(path, node)], discovered))
        else if is_excluded cfg rel False then (stack, discovered)
        else if language_resolve name = None then (stack, discovered)
        else (stack, discovered @ [\<lparr>df_full_path = path, df_rel_path = rel\<rparr>]))"

definition stack_size :: "(path \<times> fs) list \<Rightarrow> nat" where
  "stack_size stack = sum_list (map (\<lambda>d. size (snd d)) stack)"

lemma visit_entries_size:
  "stack_size (fst (fold (visit_entry cfg root dir) es (stack, found))) \<le> stack_size stack + sum_list (map (\<lambda>e. size (snd e)) es)"
proof (induction es arbitrary: stack found)
  case (Cons e es)
  obtain stack' found' where step: "visit_entry cfg root dir e (stack, found) = (stack', found')" by (cases "visit_entry cfg root dir e (stack, found)")
  then have "stack_size stack' \<le> stack_size stack + size (snd e)"
    by (auto simp: visit_entry_def Let_def stack_size_def split: prod.splits if_splits)
  then show ?case using Cons.IH [of stack' found'] by (simp add: step)
qed simp

lemma dir_entry_size: "sum_list (map (\<lambda>e. size (snd e)) es) < size (DirEntry es)"
proof -
  have "sum_list (map (\<lambda>e. size (snd e)) es) \<le> size_list (size_prod (\<lambda>_. 0) size) es"
    by (induction es) auto
  then show ?thesis by simp
qed

function discover_loop :: "ScanConfig \<Rightarrow> path \<Rightarrow> (path \<times> fs) list \<Rightarrow> DiscoveredFile list \<Rightarrow> DiscoveredFile list option" where
  "discover_loop cfg root stack discovered =
     (if stack = [] then Some discovered
      else case last stack of
        (dir, DirEntry entries) \<Rightarrow>
          (case fold (visit_entry cfg root dir) entries (butlast stack, discovered) of (stack', discovered') \<Rightarrow> discover_loop cfg root stack' discovered')
      | _ \<Rightarrow> None)"
  by pat_completeness auto
termination
proof (relation "measure (\<lambda>(_, _, stack, _). stack_size stack)", goal_cases)
  case (2 cfg root stack discovered dir node entries stack' discovered')
  then have last: "last stack = (dir, DirEntry entries)" "stack' = fst (fold (visit_entry cfg root dir) entries (butlast stack, discovered))"
    by (simp, metis fst_conv)
  have "stack_size (butlast stack @ [last stack]) = stack_size (butlast stack) + size (DirEntry entries)"
    by (simp add: stack_size_def last(1))
  then have "stack_size stack = stack_size (butlast stack) + size (DirEntry entries)" using 2(1) by simp
  then show ?case
    using visit_entries_size [of cfg root dir entries "butlast stack" discovered] dir_entry_size [of entries] last(2) by simp
qed simp

declare discover_loop.simps [simp del]

definition discover :: "ScanConfig \<Rightarrow> path \<Rightarrow> fs \<Rightarrow> DiscoveredFile list option" where
  "discover cfg root tree = discover_loop cfg root [(root, tree)] []"

section \<open>Below the root\<close>

text \<open>A root is an absolute path; the path of an entry below it, relative to it, is the names on the way.\<close>

lemma foldl_names: "foldl normpath_step (prefix, parts) (map Name cs) = (prefix, parts @ map Name cs)"
  by (induction cs arbitrary: parts) (simp_all add: normpath_step_def)

lemma normpath_below:
  assumes "root = Root # rest"
  shows "\<exists>parts. \<forall>cs. normpath (root @ map Name cs) = [Root] @ parts @ map Name cs"
proof -
  have keep: "fst (foldl normpath_step ([Root], parts) p) = [Root]" for parts p
    by (induction p arbitrary: parts) (auto simp: normpath_step_def split: piece.split)
  obtain prefix parts where step: "foldl normpath_step ([], []) root = (prefix, parts)" by (cases "foldl normpath_step ([], []) root")
  have "prefix = [Root]" using keep [of "[]" rest] step assms by (simp add: normpath_step_def)
  then show ?thesis using step by (intro exI [of _ parts]) (simp add: normpath_def foldl_names)
qed

lemma common_prefix: "common_count (xs @ ys) xs = length xs"
  by (induction xs) simp_all

lemma relpath_below:
  assumes "root = Root # rest"
  shows "relpath_slash (root @ map Name cs) root = (if cs = [] then [46] else join_with [47] cs)"
proof -
  obtain parts where parts: "\<And>cs. normpath (root @ map Name cs) = [Root] @ parts @ map Name cs" using normpath_below [OF assms] by blast
  have base: "normpath root = [Root] @ parts" using parts [of "[]"] by simp
  have "common_count (([Root] @ parts) @ map Name cs) ([Root] @ parts) = length ([Root] @ parts)" by (rule common_prefix)
  then have count: "common_count (normpath (root @ map Name cs)) (normpath root) = length (normpath root)" unfolding parts base by simp
  have "map piece_text (map Name cs) = cs" by (simp add: comp_def)
  then show ?thesis unfolding relpath_slash_def Let_def count unfolding parts base by (simp add: comp_def)
qed

section \<open>What the walk finds\<close>

text \<open>The node at the end of a chain of names.\<close>

fun lies :: "fs \<Rightarrow> ucs list \<Rightarrow> fs \<Rightarrow> bool" where
  "lies node [] n = (n = node)"
| "lies (DirEntry es) (d # ds) n = list_ex (\<lambda>e. fst e = d \<and> lies (snd e) ds n) es"
| "lies _ (d # ds) n = False"

text \<open>The same from a directory with a chain above it, with every test of the walk.\<close>

fun wanted :: "ScanConfig \<Rightarrow> ucs list \<Rightarrow> fs \<Rightarrow> ucs list \<Rightarrow> bool" where
  "wanted cfg cs node [] = False"
| "wanted cfg cs (DirEntry es) (d # ds) = (\<exists>node. (d, node) \<in> set es \<and>
     (if is_dir node then \<not> is_excluded cfg (join_with [47] (cs @ [d])) True \<and> wanted cfg (cs @ [d]) node ds
      else ds = [] \<and> \<not> is_excluded cfg (join_with [47] (cs @ [d])) False \<and> language_resolve d \<noteq> None))"
| "wanted cfg cs _ (d # ds) = False"

lemma lies_file: "lies FileEntry ds n \<Longrightarrow> ds = [] \<and> n = FileEntry"
  by (cases ds) auto

lemma wanted_lies:
  "wanted cfg cs node ds \<longleftrightarrow> ds \<noteq> [] \<and> lies node ds FileEntry \<and>
     (\<forall>i < length ds - 1. \<not> is_excluded cfg (join_with [47] (cs @ take (i + 1) ds)) True) \<and>
     \<not> is_excluded cfg (join_with [47] (cs @ ds)) False \<and> language_resolve (last ds) \<noteq> None"
proof (induction cfg cs node ds rule: wanted.induct)
  case (2 cfg cs es d ds)
  have split: "(\<forall>i < length (d # ds) - 1. \<not> is_excluded cfg (join_with [47] (cs @ take (i + 1) (d # ds))) True) \<longleftrightarrow>
      (ds \<noteq> [] \<longrightarrow> \<not> is_excluded cfg (join_with [47] (cs @ [d])) True \<and>
        (\<forall>i < length ds - 1. \<not> is_excluded cfg (join_with [47] (cs @ d # take (i + 1) ds)) True))"
    by (cases ds) (auto simp: All_less_Suc2)
  have one: "(if is_dir node then \<not> is_excluded cfg (join_with [47] (cs @ [d])) True \<and> wanted cfg (cs @ [d]) node ds
      else ds = [] \<and> \<not> is_excluded cfg (join_with [47] (cs @ [d])) False \<and> language_resolve d \<noteq> None) \<longleftrightarrow>
    lies node ds FileEntry \<and> (\<forall>i < length (d # ds) - 1. \<not> is_excluded cfg (join_with [47] (cs @ take (i + 1) (d # ds))) True) \<and>
     \<not> is_excluded cfg (join_with [47] (cs @ d # ds)) False \<and> language_resolve (last (d # ds)) \<noteq> None" if "(d, node) \<in> set es" for node
  proof (cases "is_dir node")
    case True
    have "wanted cfg (cs @ [d]) node ds \<longleftrightarrow> ds \<noteq> [] \<and> lies node ds FileEntry \<and>
       (\<forall>i < length ds - 1. \<not> is_excluded cfg (join_with [47] ((cs @ [d]) @ take (i + 1) ds)) True) \<and>
       \<not> is_excluded cfg (join_with [47] ((cs @ [d]) @ ds)) False \<and> language_resolve (last ds) \<noteq> None"
      by (rule "2.IH") (use that True in auto)
    moreover have "ds = [] \<Longrightarrow> \<not> lies node ds FileEntry" using True by (auto simp: is_dir_def)
    ultimately show ?thesis unfolding split using True by auto
  next
    case False
    then have "node = FileEntry" by (simp add: is_dir_def)
    then show ?thesis unfolding split using False lies_file [of ds FileEntry] by auto
  qed
  show ?case (is "_ \<longleftrightarrow> ?R")
  proof -
    have "?R \<longleftrightarrow> (\<exists>node. (d, node) \<in> set es \<and> (lies node ds FileEntry \<and>
        (\<forall>i < length (d # ds) - 1. \<not> is_excluded cfg (join_with [47] (cs @ take (i + 1) (d # ds))) True) \<and>
        \<not> is_excluded cfg (join_with [47] (cs @ d # ds)) False \<and> language_resolve (last (d # ds)) \<noteq> None))"
      by (force simp: list_ex_iff simp del: last.simps take_Suc_Cons)
    then show ?thesis unfolding wanted.simps using one by (metis (no_types, lifting))
  qed
qed auto

text \<open>The stack holds directories below the root.\<close>

definition below :: "path \<Rightarrow> (ucs list \<times> fs) list \<Rightarrow> (path \<times> fs) list" where
  "below root items = map (\<lambda>(cs, node). (root @ map Name cs, node)) items"

definition found_at :: "path \<Rightarrow> ucs list \<Rightarrow> DiscoveredFile" where
  "found_at root cs = \<lparr>df_full_path = root @ map Name cs, df_rel_path = join_with [47] cs\<rparr>"

definition all_wanted :: "ScanConfig \<Rightarrow> path \<Rightarrow> (ucs list \<times> fs) list \<Rightarrow> DiscoveredFile set" where
  "all_wanted cfg root items = {found_at root (cs @ ds) | cs node ds. (cs, node) \<in> set items \<and> wanted cfg cs node ds}"

lemma all_wanted_append: "all_wanted cfg root (xs @ ys) = all_wanted cfg root xs \<union> all_wanted cfg root ys"
  unfolding all_wanted_def by auto

text \<open>A directory that cannot be read, at the end of a chain of directories that are not excluded.\<close>

fun broken :: "ScanConfig \<Rightarrow> ucs list \<Rightarrow> fs \<Rightarrow> ucs list \<Rightarrow> bool" where
  "broken cfg cs node [] = (node = BadDir)"
| "broken cfg cs (DirEntry es) (d # ds) = (\<exists>node. (d, node) \<in> set es \<and> is_dir node \<and> \<not> is_excluded cfg (join_with [47] (cs @ [d])) True \<and> broken cfg (cs @ [d]) node ds)"
| "broken cfg cs _ (d # ds) = False"

definition any_broken :: "ScanConfig \<Rightarrow> (ucs list \<times> fs) list \<Rightarrow> bool" where
  "any_broken cfg items \<longleftrightarrow> (\<exists>(cs, node) \<in> set items. \<exists>ds. broken cfg cs node ds)"

lemma any_broken_append: "any_broken cfg (xs @ ys) \<longleftrightarrow> any_broken cfg xs \<or> any_broken cfg ys"
  unfolding any_broken_def by auto

lemma broken_lies:
  "broken cfg cs node ds \<longleftrightarrow> lies node ds BadDir \<and> (\<forall>i < length ds. \<not> is_excluded cfg (join_with [47] (cs @ take (i + 1) ds)) True)"
proof (induction cfg cs node ds rule: broken.induct)
  case (2 cfg cs es d ds)
  have dir: "is_dir node" if "lies node ds BadDir" for node using that by (cases node; cases ds) (auto simp: is_dir_def)
  have "lies (DirEntry es) (d # ds) BadDir \<and> (\<forall>i < length (d # ds). \<not> is_excluded cfg (join_with [47] (cs @ take (i + 1) (d # ds))) True) \<longleftrightarrow>
     (\<exists>node. (d, node) \<in> set es \<and> is_dir node \<and> \<not> is_excluded cfg (join_with [47] (cs @ [d])) True \<and>
       lies node ds BadDir \<and> (\<forall>i < length ds. \<not> is_excluded cfg (join_with [47] ((cs @ [d]) @ take (i + 1) ds)) True))"
    using dir by (force simp: list_ex_iff All_less_Suc2)
  then show ?case unfolding broken.simps using "2.IH" by (metis (no_types, lifting))
qed auto

lemma visit_entries:
  assumes "root = Root # rest"
  shows "\<exists>items' found'. fold (visit_entry cfg root (root @ map Name cs)) es (below root items, found) = (below root (items @ items'), found') \<and>
    set found' \<union> all_wanted cfg root items' = set found \<union> all_wanted cfg root [(cs, DirEntry es)] \<and>
    (any_broken cfg items' \<longleftrightarrow> any_broken cfg [(cs, DirEntry es)]) \<and> (\<forall>(cs', node) \<in> set items'. is_dir node)"
proof (induction es arbitrary: items found)
  case Nil
  have "wanted cfg cs (DirEntry []) ds = False" for ds by (cases ds) simp_all
  moreover have "broken cfg cs (DirEntry []) ds = False" for ds by (cases ds) simp_all
  ultimately show ?case by (intro exI [of _ "[]"] exI [of _ found]) (simp add: all_wanted_def any_broken_def)
next
  case (Cons e es)
  obtain name node where e: "e = (name, node)" by (cases e)
  let ?cs = "cs @ [name]"
  have path: "(root @ map Name cs) @ [Name name] = root @ map Name ?cs" by simp
  have rel: "relpath_slash ((root @ map Name cs) @ [Name name]) root = join_with [47] ?cs" unfolding path relpath_below [OF assms] by simp
  have more: "all_wanted cfg root [(cs, DirEntry (e # es))] = all_wanted cfg root [(cs, DirEntry es)] \<union>
      (if is_dir node then (if is_excluded cfg (join_with [47] ?cs) True then {} else all_wanted cfg root [(?cs, node)])
       else if is_excluded cfg (join_with [47] ?cs) False \<or> language_resolve name = None then {} else {found_at root ?cs})" (is "?L = ?A \<union> ?B")
  proof -
    have w: "wanted cfg cs (DirEntry (e # es)) ds \<longleftrightarrow> wanted cfg cs (DirEntry es) ds \<or>
        (\<exists>ds'. ds = name # ds' \<and> (if is_dir node then \<not> is_excluded cfg (join_with [47] ?cs) True \<and> wanted cfg ?cs node ds'
           else ds' = [] \<and> \<not> is_excluded cfg (join_with [47] ?cs) False \<and> language_resolve name \<noteq> None))" for ds
      by (cases ds) (auto simp: e)
    have "?L = ?A \<union> {found_at root (cs @ name # ds') | ds'. if is_dir node then \<not> is_excluded cfg (join_with [47] ?cs) True \<and> wanted cfg ?cs node ds'
           else ds' = [] \<and> \<not> is_excluded cfg (join_with [47] ?cs) False \<and> language_resolve name \<noteq> None}"
      unfolding all_wanted_def using w by auto
    also have "{found_at root (cs @ name # ds') | ds'. if is_dir node then \<not> is_excluded cfg (join_with [47] ?cs) True \<and> wanted cfg ?cs node ds'
           else ds' = [] \<and> \<not> is_excluded cfg (join_with [47] ?cs) False \<and> language_resolve name \<noteq> None} = ?B"
      unfolding all_wanted_def by auto
    finally show ?thesis .
  qed
  have more': "any_broken cfg [(cs, DirEntry (e # es))] \<longleftrightarrow> any_broken cfg [(cs, DirEntry es)] \<or>
      is_dir node \<and> \<not> is_excluded cfg (join_with [47] ?cs) True \<and> any_broken cfg [(?cs, node)]"
  proof -
    have "broken cfg cs (DirEntry (e # es)) ds \<longleftrightarrow> broken cfg cs (DirEntry es) ds \<or>
        (\<exists>ds'. ds = name # ds' \<and> is_dir node \<and> \<not> is_excluded cfg (join_with [47] ?cs) True \<and> broken cfg ?cs node ds')" for ds
      by (cases ds) (auto simp: e)
    then show ?thesis unfolding any_broken_def by auto
  qed
  consider (push) "is_dir node" "\<not> is_excluded cfg (join_with [47] ?cs) True" | (found) "\<not> is_dir node" "\<not> (is_excluded cfg (join_with [47] ?cs) False \<or> language_resolve name = None)"
    | (skip) "is_dir node" "is_excluded cfg (join_with [47] ?cs) True" | (skip') "\<not> is_dir node" "is_excluded cfg (join_with [47] ?cs) False \<or> language_resolve name = None" by blast
  then show ?case
  proof cases
    case push
    then have run: "visit_entry cfg root (root @ map Name cs) e (below root items, found) = (below root (items @ [(?cs, node)]), found)"
      unfolding visit_entry_def e prod.case Let_def rel by (simp add: below_def)
    obtain items' found' where "fold (visit_entry cfg root (root @ map Name cs)) es (below root (items @ [(?cs, node)]), found) = (below root ((items @ [(?cs, node)]) @ items'), found')"
      "set found' \<union> all_wanted cfg root items' = set found \<union> all_wanted cfg root [(cs, DirEntry es)]"
      "any_broken cfg items' \<longleftrightarrow> any_broken cfg [(cs, DirEntry es)]" "\<forall>(cs', node) \<in> set items'. is_dir node"
      using Cons.IH by blast
    then show ?thesis unfolding more more' using push all_wanted_append [of cfg root "[(?cs, node)]" items'] any_broken_append [of cfg "[(?cs, node)]" items']
      by (intro exI [of _ "(?cs, node) # items'"] exI [of _ found']) (auto simp: run)
  next
    case found
    let ?f = "found_at root ?cs"
    have run: "visit_entry cfg root (root @ map Name cs) e (below root items, found) = (below root items, found @ [?f])"
      using found unfolding visit_entry_def e prod.case Let_def rel by (simp add: found_at_def)
    obtain items' found' where "fold (visit_entry cfg root (root @ map Name cs)) es (below root items, found @ [?f]) = (below root (items @ items'), found')"
      "set found' \<union> all_wanted cfg root items' = set (found @ [?f]) \<union> all_wanted cfg root [(cs, DirEntry es)]"
      "any_broken cfg items' \<longleftrightarrow> any_broken cfg [(cs, DirEntry es)]" "\<forall>(cs', node) \<in> set items'. is_dir node"
      using Cons.IH by blast
    then show ?thesis unfolding more more' using found by (intro exI [of _ items'] exI [of _ found']) (auto simp: run)
  next
    case skip
    then have run: "visit_entry cfg root (root @ map Name cs) e (below root items, found) = (below root items, found)"
      unfolding visit_entry_def e prod.case Let_def rel by simp
    show ?thesis unfolding more more' using skip Cons.IH [of items found] by (simp add: run)
  next
    case skip'
    then have run: "visit_entry cfg root (root @ map Name cs) e (below root items, found) = (below root items, found)"
      unfolding visit_entry_def e prod.case Let_def rel by auto
    show ?thesis unfolding more more' using skip' Cons.IH [of items found] by (simp add: run)
  qed
qed

lemma below_append: "below root (xs @ ys) = below root xs @ below root ys"
  by (simp add: below_def)

lemma discover_loop_result:
  assumes "root = Root # rest" "\<forall>(cs, node) \<in> set items. is_dir node"
  shows "if any_broken cfg items then discover_loop cfg root (below root items) found = None
    else \<exists>found'. discover_loop cfg root (below root items) found = Some found' \<and> set found' = set found \<union> all_wanted cfg root items"
  using assms(2)
proof (induction "stack_size (below root items)" arbitrary: items found rule: less_induct)
  case less
  show ?case
  proof (cases items rule: rev_cases)
    case Nil
    then show ?thesis by (simp add: below_def any_broken_def all_wanted_def discover_loop.simps [of cfg root "[]"])
  next
    case (snoc items0 item)
    obtain cs node where item: "item = (cs, node)" by (cases item)
    have stack: "below root items = below root items0 @ [(root @ map Name cs, node)]" by (simp add: snoc item below_def)
    have dir: "is_dir node" using less.prems snoc item by simp
    show ?thesis
    proof (cases node)
      case BadDir
      then have "\<exists>ds. broken cfg cs node ds" by (intro exI [of _ "[]"]) simp
      then have "any_broken cfg items" unfolding any_broken_def snoc item by simp
      then show ?thesis using BadDir by (simp add: stack discover_loop.simps [of cfg root "below root items0 @ [(root @ map Name cs, BadDir)]"])
    next
      case (DirEntry es)
      obtain items' found' where run: "fold (visit_entry cfg root (root @ map Name cs)) es (below root items0, found) = (below root (items0 @ items'), found')"
        and keep: "set found' \<union> all_wanted cfg root items' = set found \<union> all_wanted cfg root [(cs, DirEntry es)]"
          "any_broken cfg items' \<longleftrightarrow> any_broken cfg [(cs, DirEntry es)]" "\<forall>(cs', node) \<in> set items'. is_dir node"
        using visit_entries [OF assms(1), of cfg cs es items0 found] by blast
      have smaller: "stack_size (below root (items0 @ items')) < stack_size (below root items)"
        using visit_entries_size [of cfg root "root @ map Name cs" es "below root items0" found] dir_entry_size [of es]
        unfolding run stack by (simp add: stack_size_def DirEntry)
      have next_step: "discover_loop cfg root (below root items) found = discover_loop cfg root (below root (items0 @ items')) found'"
        unfolding stack DirEntry by (subst discover_loop.simps) (simp add: run)
      have "\<forall>(cs, node) \<in> set (items0 @ items'). is_dir node" using keep(3) less.prems snoc by auto
      from less.hyps [OF smaller this, of found'] show ?thesis
        unfolding next_step using keep(1,2) by (auto simp: snoc item DirEntry all_wanted_append any_broken_append split: if_splits)
    qed (use dir in \<open>simp add: is_dir_def\<close>)
  qed
qed

text \<open>C16.  Discovery finds exactly the source files of the tree below an absolute root: the files whose name one of
  the languages handles, that are not excluded themselves and have no excluded directory above them, each with the
  names on the way as its relative path.  It fails just when it has to read a directory that cannot be read.\<close>

theorem discover_exact:
  assumes "root = Root # rest" "is_dir tree"
  shows "case discover cfg root tree of
      None \<Rightarrow> \<exists>ds. lies tree ds BadDir \<and> (\<forall>i < length ds. \<not> is_excluded cfg (join_with [47] (take (i + 1) ds)) True)
    | Some found \<Rightarrow>
        (\<forall>ds. lies tree ds BadDir \<longrightarrow> (\<exists>i < length ds. is_excluded cfg (join_with [47] (take (i + 1) ds)) True)) \<and>
        set found = {\<lparr>df_full_path = root @ map Name ds, df_rel_path = join_with [47] ds\<rparr> | ds.
          ds \<noteq> [] \<and> lies tree ds FileEntry \<and> language_resolve (last ds) \<noteq> None \<and>
          \<not> is_excluded cfg (join_with [47] ds) False \<and>
          (\<forall>i < length ds - 1. \<not> is_excluded cfg (join_with [47] (take (i + 1) ds)) True)}"
proof -
  have start: "[(root, tree)] = below root [([], tree)]" by (simp add: below_def)
  have found: "all_wanted cfg root [([], tree)] = {\<lparr>df_full_path = root @ map Name ds, df_rel_path = join_with [47] ds\<rparr> | ds.
          ds \<noteq> [] \<and> lies tree ds FileEntry \<and> language_resolve (last ds) \<noteq> None \<and>
          \<not> is_excluded cfg (join_with [47] ds) False \<and>
          (\<forall>i < length ds - 1. \<not> is_excluded cfg (join_with [47] (take (i + 1) ds)) True)}"
    unfolding all_wanted_def found_at_def using wanted_lies [of cfg "[]" tree] by auto
  have broken: "any_broken cfg [([], tree)] \<longleftrightarrow>
      (\<exists>ds. lies tree ds BadDir \<and> (\<forall>i < length ds. \<not> is_excluded cfg (join_with [47] (take (i + 1) ds)) True))"
    unfolding any_broken_def using broken_lies [of cfg "[]" tree] by auto
  show ?thesis
  proof (cases "any_broken cfg [([], tree)]")
    case True
    then show ?thesis
      using discover_loop_result [OF assms(1), of "[([], tree)]" cfg "[]"] assms(2) unfolding discover_def start
      by (simp add: broken [unfolded One_nat_def, simplified, symmetric])
  next
    case False
    then obtain out where out: "discover cfg root tree = Some out" "set out = all_wanted cfg root [([], tree)]"
      using discover_loop_result [OF assms(1), of "[([], tree)]" cfg "[]"] assms(2) unfolding discover_def start by auto
    have "\<forall>ds. lies tree ds BadDir \<longrightarrow> (\<exists>i < length ds. is_excluded cfg (join_with [47] (take (i + 1) ds)) True)"
      using False unfolding broken by blast
    then show ?thesis unfolding out(1) option.case out(2) found by (rule conjI) (rule refl)
  qed
qed

definition tree0 :: fs where
  "tree0 = DirEntry [(lit ''gen'', DirEntry [(lit ''a.py'', FileEntry)]), (lit ''src'', DirEntry [(lit ''b.py'', FileEntry), (lit ''notes.md'', FileEntry)])]"

theorem discover_exact_witness:
  "lies tree0 [lit ''src'', lit ''b.py''] FileEntry \<and>
   discover \<lparr>exclusions = [lit ''gen/''], layers = []\<rparr> [Root] tree0 =
     Some [\<lparr>df_full_path = [Root, Name (lit ''src''), Name (lit ''b.py'')], df_rel_path = lit ''src/b.py''\<rparr>]"
proof -
  let ?cfg = "\<lparr>exclusions = [lit ''gen/''], layers = []\<rparr>"
  have run: "discover ?cfg [Root] tree0 = Some [\<lparr>df_full_path = [Root, Name (lit ''src''), Name (lit ''b.py'')], df_rel_path = lit ''src/b.py''\<rparr>]"
    by code_simp
  have "case discover ?cfg [Root] tree0 of None \<Rightarrow> True | Some found \<Rightarrow> 
    \<lparr>df_full_path = [Root] @ map Name [lit ''src'', lit ''b.py''], df_rel_path = join_with [47] [lit ''src'', lit ''b.py'']\<rparr> \<in> set found"
    unfolding run by code_simp
  then show ?thesis using discover_exact [of "[Root]" "[]" tree0 ?cfg] run by (auto simp: is_dir_def tree0_def)
qed

text \<open>A pattern without a slash prunes a directory of that name, so discovery never sees what is below it, while the
  test of a stored path does not look at the directories above: it admits the same file.\<close>

theorem pruned_path_admitted:
  "discover \<lparr>exclusions = [lit ''gen''], layers = []\<rparr> [Root] tree0 =
     Some [\<lparr>df_full_path = [Root, Name (lit ''src''), Name (lit ''b.py'')], df_rel_path = lit ''src/b.py''\<rparr>] \<and>
   discover \<lparr>exclusions = [], layers = []\<rparr> [Root] tree0 \<noteq>
     discover \<lparr>exclusions = [lit ''gen''], layers = []\<rparr> [Root] tree0 \<and>
   \<not> is_path_excluded \<lparr>exclusions = [lit ''gen''], layers = []\<rparr> (lit ''gen/a.py'')"
  by code_simp

end
