(* ===== verification/Settings.thy ===== *)
theory Settings
  imports Resolve JsonValue "HOL-Library.Log_Nat"
begin

text \<open>
  The settings of the scanner, \<^verbatim>\<open>remy-cc/scanner-core/src/rconfig.rs\<close>: the values of a configuration
  file, the candidates of a setting in the order of their precedence, its reading and its bounds, and the whole
  configuration.  A file is its contents, none when it cannot be read; the environment is a map; the reader of JSON
  documents is a parameter.  Reading integers and floating-point numbers is the standard library's, written out: a
  finite number is the rational it stands for, so the two zeros are one.
\<close>

section \<open>Numbers\<close>

definition is_digit :: "nat \<Rightarrow> bool" where "is_digit c \<longleftrightarrow> 48 \<le> c \<and> c \<le> 57"

definition digits_value :: "ucs \<Rightarrow> nat" where
  "digits_value = foldl (\<lambda>v c. 10 * v + (c - 48)) 0"

definition split_sign :: "ucs \<Rightarrow> bool \<times> ucs" where
  "split_sign s = (case s of [] \<Rightarrow> (False, [])
     | c # r \<Rightarrow> if c = 45 then (True, r) else if c = 43 then (False, r) else (False, s))"

definition parse_i64 :: "ucs \<Rightarrow> int option" where
  "parse_i64 s = (let (negative, ds) = split_sign s; v = (if negative then - int (digits_value ds) else int (digits_value ds))
     in if ds = [] \<or> \<not> list_all is_digit ds \<or> v < - (2 ^ 63) \<or> 2 ^ 63 \<le> v then None else Some v)"

datatype f64 = Finite rat | Infinite bool | NaN

definition round_half_even :: "rat \<Rightarrow> int" where
  "round_half_even q =
     (let n = floor q; r = q - of_int n in if r < 1 / 2 \<or> r = 1 / 2 \<and> even n then n else n + 1)"

definition pow2 :: "int \<Rightarrow> rat" where
  "pow2 e = (if 0 \<le> e then 2 ^ nat e else 1 / 2 ^ nat (- e))"

text \<open>The nearest number with 53 bits of precision, ties to even: \<open>p / q\<close> lies between \<open>pow2 (e0 + 52)\<close> and
  \<open>pow2 (e0 + 54)\<close>, and no exponent is below the smallest one.\<close>

definition nearest_f64 :: "bool \<Rightarrow> nat \<Rightarrow> nat \<Rightarrow> f64" where
  "nearest_f64 negative p q =
     (if p = 0 then Finite 0
      else let x = of_nat p / of_nat q; e0 = int (floorlog 2 p) - int (floorlog 2 q) - 53;
               e = max (- 1074) (if x / pow2 e0 < 2 ^ 53 then e0 else e0 + 1);
               v = of_int (round_half_even (x / pow2 e)) * pow2 e
           in if 2 ^ 1024 \<le> v then Infinite negative else Finite (if negative then - v else v))"

definition to_lower :: "ucs \<Rightarrow> ucs" where
  "to_lower s = map (\<lambda>c. if 65 \<le> c \<and> c \<le> 90 then c + 32 else c) s"

definition parse_exponent :: "ucs \<Rightarrow> int option" where
  "parse_exponent s = (case s of [] \<Rightarrow> Some 0
     | c # r \<Rightarrow> (let (negative, ds) = split_sign r
         in if c \<in> {69, 101} \<and> ds \<noteq> [] \<and> list_all is_digit ds then Some (if negative then - int (digits_value ds) else int (digits_value ds))
            else None))"

definition parse_f64 :: "ucs \<Rightarrow> f64 option" where
  "parse_f64 s =
     (let (negative, r) = split_sign s
      in if to_lower r \<in> {lit ''inf'', lit ''infinity''} then Some (Infinite negative)
         else if to_lower r = lit ''nan'' then Some NaN
         else let whole = takeWhile is_digit r; rest = dropWhile is_digit r;
                  (fraction, rest) = (case rest of [] \<Rightarrow> ([], []) | c # t \<Rightarrow> if c = 46 then (takeWhile is_digit t, dropWhile is_digit t) else ([], rest))
              in if whole = [] \<and> fraction = [] then None
                 else map_option (\<lambda>e. let e = e - int (length fraction); v = digits_value (whole @ fraction)
                        in if 0 \<le> e then nearest_f64 negative (v * 10 ^ nat e) 1 else nearest_f64 negative v (10 ^ nat (- e)))
                      (parse_exponent rest))"

section \<open>The values of a file\<close>

datatype setting_source = Environment | Project | User | Default

datatype settings_error =
    InvalidFile | UnsupportedSchema | ValuesNotObject | FieldNotString ucs
  | InvalidInt ucs setting_source | InvalidFloat ucs setting_source | InvalidBool ucs setting_source
  | BelowMinimum ucs setting_source | AboveMaximum ucs setting_source

type_synonym settings = "ucs \<Rightarrow> ucs option"

definition CONFIG_SCHEMA_VERSION :: ucs where "CONFIG_SCHEMA_VERSION = lit ''1.0.0''"

fun insert_values :: "(ucs \<times> ucs json_value) list \<Rightarrow> settings \<Rightarrow> settings_error + settings" where
  "insert_values [] result = Inr result"
| "insert_values ((key, value) # rest) result =
     (case as_str value of None \<Rightarrow> Inl (FieldNotString key)
      | Some t \<Rightarrow> insert_values rest (result(key \<mapsto> t)))"

definition read_config_values :: "parser \<Rightarrow> ucs option \<Rightarrow> settings_error + settings" where
  "read_config_values parse contents =
     (case contents of None \<Rightarrow> Inr Map.empty
      | Some bytes \<Rightarrow>
          (case parse bytes of None \<Rightarrow> Inl InvalidFile
           | Some document \<Rightarrow>
               (if Option.bind (json_get (lit ''schema_version'') document) as_str \<noteq> Some CONFIG_SCHEMA_VERSION then Inl UnsupportedSchema
                else case Option.bind (json_get (lit ''values'') document) as_object of
                    None \<Rightarrow> Inl ValuesNotObject
                  | Some vs \<Rightarrow> insert_values vs Map.empty)))"

section \<open>One setting\<close>

definition candidates :: "settings \<Rightarrow> ucs \<Rightarrow> settings \<Rightarrow> settings \<Rightarrow> ucs \<Rightarrow> (setting_source \<times> ucs) list" where
  "candidates env key project user dflt =
     (case env key of None \<Rightarrow> [] | Some v \<Rightarrow> [(Environment, v)]) @
     (case project key of None \<Rightarrow> [] | Some v \<Rightarrow> [(Project, v)]) @
     (case user key of None \<Rightarrow> [] | Some v \<Rightarrow> [(User, v)]) @ [(Default, dflt)]"

definition int_setting :: "settings \<Rightarrow> ucs \<Rightarrow> settings \<Rightarrow> settings \<Rightarrow> ucs \<Rightarrow> int \<Rightarrow> int \<Rightarrow> settings_error + int" where
  "int_setting env key project user dflt minimum maximum =
     (let (source, raw) = hd (candidates env key project user dflt)
      in case parse_i64 (ucs_trim raw) of None \<Rightarrow> Inl (InvalidInt key source)
         | Some v \<Rightarrow> if v < minimum then Inl (BelowMinimum key source)
                     else if maximum < v then Inl (AboveMaximum key source) else Inr v)"

definition float_setting :: "settings \<Rightarrow> ucs \<Rightarrow> settings \<Rightarrow> settings \<Rightarrow> ucs \<Rightarrow> rat \<Rightarrow> rat option \<Rightarrow> settings_error + rat" where
  "float_setting env key project user dflt minimum maximum =
     (let (source, raw) = hd (candidates env key project user dflt)
      in case parse_f64 (ucs_trim raw) of
           Some (Finite v) \<Rightarrow> if v < minimum then Inl (BelowMinimum key source)
             else if (case maximum of None \<Rightarrow> False | Some m \<Rightarrow> m < v) then Inl (AboveMaximum key source) else Inr v
         | _ \<Rightarrow> Inl (InvalidFloat key source))"

definition bool_setting :: "settings \<Rightarrow> ucs \<Rightarrow> settings \<Rightarrow> settings \<Rightarrow> ucs \<Rightarrow> settings_error + bool" where
  "bool_setting env key project user dflt =
     (let (source, raw) = hd (candidates env key project user dflt)
      in if to_lower raw = lit ''true'' then Inr True
         else if to_lower raw = lit ''false'' then Inr False
         else Inl (InvalidBool key source))"

section \<open>The configuration\<close>

record LoadedConfig = PostprocessConfig +
  cluster_density_threshold :: rat
  file_kind_low_cohesion_threshold :: rat
  scan_lock_timeout :: rat

definition load_settings :: "settings \<Rightarrow> settings \<Rightarrow> settings \<Rightarrow> settings_error + LoadedConfig" where
  "load_settings env p u =
     (let int = (\<lambda>key dflt lo hi. int_setting env (lit key) p u (lit dflt) lo hi);
          float = (\<lambda>key dflt hi. float_setting env (lit key) p u (lit dflt) 0 hi) in
      res_bind (bool_setting env (lit ''REMY_LOGIC_INDEX_FILTER_SMALL'') p u (lit ''false'')) (\<lambda>small.
      res_bind (float ''REMY_CLUSTER_DENSITY_THRESHOLD'' ''0.5'' None) (\<lambda>density.
      res_bind (int ''REMY_CLUSTER_MAX_SIZE'' ''15'' 2 200) (\<lambda>max_size.
      res_bind (int ''REMY_CLUSTER_ENTRY_COUNT'' ''3'' 1 20) (\<lambda>entry_count.
      res_bind (int ''REMY_SYNTH_INTERFACE_FANOUT_CAP'' ''10'' 1 100) (\<lambda>interface_cap.
      res_bind (int ''REMY_SYNTH_EVENT_FANOUT_CAP'' ''20'' 1 200) (\<lambda>event_cap.
      res_bind (int ''REMY_RESOLVE_FANOUT_CAP'' ''10'' 1 100) (\<lambda>resolve_cap.
      res_bind (int ''REMY_RESOLVE_SCORE_SAME_FILE'' ''2'' 0 100) (\<lambda>same_file.
      res_bind (int ''REMY_RESOLVE_SCORE_DIRECT_IMPORT'' ''1'' 0 100) (\<lambda>direct_import.
      res_bind (int ''REMY_RESOLVE_SCORE_GLOBAL'' ''0'' 0 100) (\<lambda>global.
      res_bind (int ''REMY_FILE_KIND_MIN_SYMBOLS'' ''5'' 1 50) (\<lambda>min_symbols.
      res_bind (float ''REMY_FILE_KIND_LOW_COHESION_THRESHOLD'' ''0.25'' (Some 1)) (\<lambda>cohesion.
      res_bind (float ''REMY_INDEX_SCAN_LOCK_TIMEOUT'' ''30'' (Some 300)) (\<lambda>lock_timeout.
      res_bind (int ''REMY_STRUCT_SCAN_TIMEOUT'' ''60'' 10 300) (\<lambda>struct_timeout.
      res_bind (int ''REMY_FULL_SCAN_TIMEOUT'' ''1800'' 60 86400) (\<lambda>full_timeout.
        Inr \<lparr>filter_small = small, cluster_max_size = max_size, cluster_entry_count = entry_count,
          synth_interface_fanout_cap = interface_cap, synth_event_fanout_cap = event_cap, resolve_fanout_cap = resolve_cap,
          resolve_score_same_file = same_file, resolve_score_direct_import = direct_import, resolve_score_global = global,
          file_kind_min_symbols = min_symbols, struct_scan_timeout = struct_timeout, full_scan_timeout = full_timeout,
          cluster_density_threshold = density, file_kind_low_cohesion_threshold = cohesion, scan_lock_timeout = lock_timeout\<rparr>))))))))))))))))"

text \<open>The user's file is read only when there is a home.\<close>

definition load_from :: "parser \<Rightarrow> settings \<Rightarrow> ucs option \<Rightarrow> ucs option option \<Rightarrow> settings_error + LoadedConfig" where
  "load_from parse env project_file home_file =
     res_bind (case home_file of None \<Rightarrow> Inr Map.empty | Some contents \<Rightarrow> read_config_values parse contents) (\<lambda>user.
     res_bind (read_config_values parse project_file) (\<lambda>project.
       load_settings env project user))"

section \<open>What a loaded configuration is\<close>

text \<open>The value that decides a setting.\<close>

definition deciding :: "settings \<Rightarrow> settings \<Rightarrow> settings \<Rightarrow> ucs \<Rightarrow> ucs \<Rightarrow> ucs" where
  "deciding env project user key dflt =
     (case env key of Some v \<Rightarrow> v | None \<Rightarrow> (case project key of Some v \<Rightarrow> v | None \<Rightarrow> (case user key of Some v \<Rightarrow> v | None \<Rightarrow> dflt)))"

lemma hd_candidates: "snd (hd (candidates env key project user dflt)) = deciding env project user key dflt"
  by (simp add: candidates_def deciding_def split: option.splits)

lemma int_setting_Inr:
  "int_setting env key project user dflt lo hi = Inr v \<longleftrightarrow>
     parse_i64 (ucs_trim (deciding env project user key dflt)) = Some v \<and> lo \<le> v \<and> v \<le> hi"
  unfolding hd_candidates [symmetric] int_setting_def Let_def
  by (cases "hd (candidates env key project user dflt)") (auto split: option.splits)

lemma float_setting_Inr:
  "float_setting env key project user dflt lo hi = Inr v \<longleftrightarrow>
     parse_f64 (ucs_trim (deciding env project user key dflt)) = Some (Finite v) \<and> lo \<le> v \<and> (\<forall>m. hi = Some m \<longrightarrow> v \<le> m)"
  unfolding hd_candidates [symmetric] float_setting_def Let_def
  by (cases "hd (candidates env key project user dflt)") (auto split: option.splits f64.splits)

lemma bool_setting_Inr:
  "bool_setting env key project user dflt = Inr b \<longleftrightarrow>
     to_lower (deciding env project user key dflt) = (if b then lit ''true'' else lit ''false'')"
  unfolding hd_candidates [symmetric] bool_setting_def Let_def
  by (cases "hd (candidates env key project user dflt)") (auto simp: lit_def)

lemma res_bind_Inr: "res_bind r f = Inr y \<longleftrightarrow> (\<exists>x. r = Inr x \<and> f x = Inr y)"
  by (cases r) (simp_all add: res_bind_def)

definition setting_int :: "settings \<Rightarrow> settings \<Rightarrow> settings \<Rightarrow> string \<Rightarrow> string \<Rightarrow> int option" where
  "setting_int env p u key dflt = parse_i64 (ucs_trim (deciding env p u (lit key) (lit dflt)))"

definition setting_f64 :: "settings \<Rightarrow> settings \<Rightarrow> settings \<Rightarrow> string \<Rightarrow> string \<Rightarrow> f64 option" where
  "setting_f64 env p u key dflt = parse_f64 (ucs_trim (deciding env p u (lit key) (lit dflt)))"

text \<open>C17.  The configuration loads exactly when, of each setting, the value with the highest precedence - environment, project,
  user, dflt - reads as a number or truth value within its bounds; then the configuration holds these values.  So no
  setting is silently replaced, and every integer is at least zero and far below the width it is cast to.\<close>

theorem load_settings_exact:
  "load_settings env p u = Inr cfg \<longleftrightarrow>
     to_lower (deciding env p u (lit ''REMY_LOGIC_INDEX_FILTER_SMALL'') (lit ''false'')) = (if filter_small cfg then lit ''true'' else lit ''false'') \<and>
     (\<forall>(v, key, dflt, lo, hi) \<in> set
        [(cluster_max_size cfg, ''REMY_CLUSTER_MAX_SIZE'', ''15'', 2, 200),
         (cluster_entry_count cfg, ''REMY_CLUSTER_ENTRY_COUNT'', ''3'', 1, 20),
         (synth_interface_fanout_cap cfg, ''REMY_SYNTH_INTERFACE_FANOUT_CAP'', ''10'', 1, 100),
         (synth_event_fanout_cap cfg, ''REMY_SYNTH_EVENT_FANOUT_CAP'', ''20'', 1, 200),
         (resolve_fanout_cap cfg, ''REMY_RESOLVE_FANOUT_CAP'', ''10'', 1, 100),
         (resolve_score_same_file cfg, ''REMY_RESOLVE_SCORE_SAME_FILE'', ''2'', 0, 100),
         (resolve_score_direct_import cfg, ''REMY_RESOLVE_SCORE_DIRECT_IMPORT'', ''1'', 0, 100),
         (resolve_score_global cfg, ''REMY_RESOLVE_SCORE_GLOBAL'', ''0'', 0, 100),
         (file_kind_min_symbols cfg, ''REMY_FILE_KIND_MIN_SYMBOLS'', ''5'', 1, 50),
         (struct_scan_timeout cfg, ''REMY_STRUCT_SCAN_TIMEOUT'', ''60'', 10, 300),
         (full_scan_timeout cfg, ''REMY_FULL_SCAN_TIMEOUT'', ''1800'', 60, 86400)].
        setting_int env p u key dflt = Some v \<and> lo \<le> v \<and> v \<le> hi) \<and>
     setting_f64 env p u ''REMY_CLUSTER_DENSITY_THRESHOLD'' ''0.5'' = Some (Finite (cluster_density_threshold cfg)) \<and> 0 \<le> cluster_density_threshold cfg \<and>
     setting_f64 env p u ''REMY_FILE_KIND_LOW_COHESION_THRESHOLD'' ''0.25'' = Some (Finite (file_kind_low_cohesion_threshold cfg)) \<and>
       0 \<le> file_kind_low_cohesion_threshold cfg \<and> file_kind_low_cohesion_threshold cfg \<le> 1 \<and>
     setting_f64 env p u ''REMY_INDEX_SCAN_LOCK_TIMEOUT'' ''30'' = Some (Finite (scan_lock_timeout cfg)) \<and> 0 \<le> scan_lock_timeout cfg \<and> scan_lock_timeout cfg \<le> 300"
  unfolding load_settings_def Let_def res_bind_Inr int_setting_Inr float_setting_Inr bool_setting_Inr setting_int_def [symmetric] setting_f64_def [symmetric]
  by (cases cfg) auto

definition settings0 :: settings where "settings0 = [lit ''REMY_CLUSTER_MAX_SIZE'' \<mapsto> lit '' +42 '', lit ''REMY_INDEX_SCAN_LOCK_TIMEOUT'' \<mapsto> lit ''2.5e1'']"

definition loaded0 :: LoadedConfig where
  "loaded0 = \<lparr>filter_small = False, cluster_max_size = 42, cluster_entry_count = 3, synth_interface_fanout_cap = 10,
     synth_event_fanout_cap = 20, resolve_fanout_cap = 10, resolve_score_same_file = 2, resolve_score_direct_import = 1,
     resolve_score_global = 0, file_kind_min_symbols = 5, struct_scan_timeout = 60, full_scan_timeout = 1800,
     cluster_density_threshold = 1 / 2, file_kind_low_cohesion_threshold = 1 / 4, scan_lock_timeout = 25\<rparr>"

lemma deciding0:
  "deciding Map.empty settings0 Map.empty (lit k) d =
     (if k = ''REMY_CLUSTER_MAX_SIZE'' then lit '' +42 '' else if k = ''REMY_INDEX_SCAN_LOCK_TIMEOUT'' then lit ''2.5e1'' else d)"
  by (simp add: deciding_def settings0_def lit_eq)

lemma int0: "parse_i64 (ucs_trim (lit ''15'')) = Some 15" "parse_i64 (ucs_trim (lit ''3'')) = Some 3"
  "parse_i64 (ucs_trim (lit ''10'')) = Some 10" "parse_i64 (ucs_trim (lit ''20'')) = Some 20" "parse_i64 (ucs_trim (lit ''2'')) = Some 2"
  "parse_i64 (ucs_trim (lit ''1'')) = Some 1" "parse_i64 (ucs_trim (lit ''0'')) = Some 0" "parse_i64 (ucs_trim (lit ''5'')) = Some 5"
  "parse_i64 (ucs_trim (lit ''60'')) = Some 60" "parse_i64 (ucs_trim (lit ''1800'')) = Some 1800" "parse_i64 (ucs_trim (lit '' +42 '')) = Some 42"
  by (simp_all add: parse_i64_def ucs_trim_def lit_def is_white_def split_sign_def digits_value_def is_digit_def)

lemma nearest0: "nearest_f64 False 5 10 = Finite (1 / 2)" "nearest_f64 False 25 100 = Finite (1 / 4)" "nearest_f64 False 25 1 = Finite 25"
  by (simp_all add: nearest_f64_def compute_floorlog round_half_even_def pow2_def)

lemma f640: "parse_f64 (ucs_trim (lit ''0.5'')) = Some (Finite (1 / 2))" "parse_f64 (ucs_trim (lit ''0.25'')) = Some (Finite (1 / 4))"
  "parse_f64 (ucs_trim (lit ''2.5e1'')) = Some (Finite 25)"
  by (simp_all add: parse_f64_def ucs_trim_def lit_def is_white_def split_sign_def digits_value_def is_digit_def to_lower_def
    parse_exponent_def nearest0 [simplified])

lemma false0: "to_lower (lit ''false'') = lit ''false''"
  by (simp add: to_lower_def lit_def)

theorem load_settings_exact_witness: "load_settings Map.empty settings0 Map.empty = Inr loaded0"
  unfolding load_settings_exact by (simp add: setting_int_def setting_f64_def deciding0 int0 f640 loaded0_def false0)

end
