(* ===== verification/QuerySettings.thy ===== *)
theory QuerySettings
  imports Settings Discovery GraphBfs
begin

text \<open>
  The settings of the query server, \<^verbatim>\<open>remy-cc/src/mcp/config.rs\<close>.  Here a value that does not read is passed
  over for the next candidate, with a diagnostic, and some settings are not taken from the file of a project.  The file
  system is three functions: the contents of a file, whether a path exists, and its canonical form.  An index into a
  map of settings that is not there would panic: the configuration is then none.
\<close>

section \<open>Fields\<close>

datatype Kind = IntKind int int | BoolKind | TextKind bool | ProjectPath

record Field =
  fd_key :: ucs
  fd_default :: ucs
  fd_kind :: Kind

definition fld :: "string \<Rightarrow> string \<Rightarrow> Kind \<Rightarrow> Field" where
  "fld key dflt kind = \<lparr>fd_key = lit key, fd_default = lit dflt, fd_kind = kind\<rparr>"

definition FIELDS :: "Field list" where
  "FIELDS =
    [fld ''REMY_MCP_SERVER_ENABLED'' ''true'' BoolKind,
     fld ''REMY_MCP_BFS_MAX_DEPTH'' ''5'' (IntKind 1 10),
     fld ''REMY_MCP_RESULT_LIMIT'' ''50'' (IntKind 10 500),
     fld ''REMY_MCP_STATIC_ONLY_DEFAULT'' ''false'' BoolKind,
     fld ''REMY_FLOW_MAX_DEPTH'' ''15'' (IntKind 1 50),
     fld ''REMY_FLOW_MAX_VISITED'' ''2000'' (IntKind 100 50000),
     fld ''REMY_NAVIGATE_CANDIDATE_CLUSTERS'' ''5'' (IntKind 1 50),
     fld ''REMY_NAVIGATE_CANDIDATE_FILES'' ''10'' (IntKind 1 50),
     fld ''REMY_NAVIGATE_CANDIDATE_SYMBOLS'' ''10'' (IntKind 1 50),
     fld ''REMY_LLM_API_KEY'' '''' (TextKind True),
     fld ''REMY_LLM_BASE_URL'' ''https://api.deepseek.com/v1/chat/completions'' (TextKind False),
     fld ''REMY_LLM_MODEL'' ''deepseek-v4-flash'' (TextKind False),
     fld ''REMY_LLM_MAX_TOKENS'' ''32768'' (IntKind 1024 1048576),
     fld ''REMY_LLM_RETRY_LIMIT'' ''8'' (IntKind 0 32),
     fld ''REMY_LLM_TIMEOUT'' ''300'' (IntKind 30 3600),
     fld ''REMY_LLM_TLS_INSECURE'' ''false'' BoolKind,
     fld ''REMY_LOGIC_INDEX_DB_PATH'' ''.claude/logic_index.db'' ProjectPath]"

definition PROJECT_FORBIDDEN_KEYS :: "ucs list" where
  "PROJECT_FORBIDDEN_KEYS = [lit ''REMY_LLM_API_KEY'', lit ''REMY_LLM_TLS_INSECURE'']"

datatype Coerced = CInt int | CBool bool | CText ucs

datatype rejection = MustNotBeEmpty | IntSyntax | Below int | Above int | BoolSyntax

definition coerce :: "Field \<Rightarrow> ucs \<Rightarrow> rejection + Coerced" where
  "coerce field raw =
     (if raw = [] \<and> fd_kind field \<noteq> TextKind True then Inl MustNotBeEmpty
      else case fd_kind field of
        IntKind lo hi \<Rightarrow>
          (case parse_i64 raw of None \<Rightarrow> Inl IntSyntax
           | Some v \<Rightarrow> if v < lo then Inl (Below lo) else if hi < v then Inl (Above hi) else Inr (CInt v))
      | BoolKind \<Rightarrow>
          if to_lower raw = lit ''true'' then Inr (CBool True)
          else if to_lower raw = lit ''false'' then Inr (CBool False) else Inl BoolSyntax
      | TextKind _ \<Rightarrow> Inr (CText raw)
      | ProjectPath \<Rightarrow> Inr (CText raw))"

section \<open>Files and the root of a project\<close>

datatype diagnostic =
    BadFile bool | BadSchema bool | BadValues bool | NotAllowed ucs | NotString bool ucs
  | Rejected ucs rejection setting_source

definition read_value :: "bool \<Rightarrow> ucs \<times> ucs json_value \<Rightarrow> settings \<times> diagnostic list \<Rightarrow> settings \<times> diagnostic list" where
  "read_value project = (\<lambda>(key, v) (result, diagnostics).
     if project \<and> key \<in> set PROJECT_FORBIDDEN_KEYS then (result, diagnostics @ [NotAllowed key])
     else case as_str v of Some t \<Rightarrow> (result(key \<mapsto> t), diagnostics) | None \<Rightarrow> (result, diagnostics @ [NotString project key]))"

definition read_settings :: "parser \<Rightarrow> ucs option \<Rightarrow> bool \<Rightarrow> diagnostic list \<Rightarrow> settings \<times> diagnostic list" where
  "read_settings parse contents project diagnostics =
     (case contents of None \<Rightarrow> (Map.empty, diagnostics)
      | Some bytes \<Rightarrow>
          (case parse bytes of None \<Rightarrow> (Map.empty, diagnostics @ [BadFile project])
           | Some document \<Rightarrow>
               (if Option.bind (json_get (lit ''schema_version'') document) as_str \<noteq> Some CONFIG_SCHEMA_VERSION
                then (Map.empty, diagnostics @ [BadSchema project])
                else case Option.bind (json_get (lit ''values'') document) as_object of
                    None \<Rightarrow> (Map.empty, diagnostics @ [BadValues project])
                  | Some vs \<Rightarrow> fold (read_value project) vs (Map.empty, diagnostics))))"

record files =
  fs_read :: "path \<Rightarrow> ucs option"
  fs_exists :: "path \<Rightarrow> bool"
  fs_canonical :: "path \<Rightarrow> path option"

definition ROOT_MARKERS :: "ucs list" where
  "ROOT_MARKERS = [lit ''remy-config.json'', lit ''logic_index_config'', lit ''logic_index.db'']"

definition parent :: "path \<Rightarrow> path option" where
  "parent p = (if p = [] \<or> last p = Root then None else Some (butlast p))"

definition canonical :: "files \<Rightarrow> path \<Rightarrow> path" where
  "canonical files p = (case fs_canonical files p of None \<Rightarrow> p | Some q \<Rightarrow> q)"

definition marked :: "files \<Rightarrow> path \<Rightarrow> bool" where
  "marked files p = list_ex (\<lambda>name. fs_exists files (p @ [Name (lit ''.claude''), Name name])) ROOT_MARKERS"

function discover_loop_up :: "files \<Rightarrow> path option \<Rightarrow> path \<Rightarrow> path option" where
  "discover_loop_up files stop current =
     (if (case stop of None \<Rightarrow> False | Some s \<Rightarrow> canonical files current = s) then None
      else if marked files current then Some current
      else case parent current of None \<Rightarrow> None | Some up \<Rightarrow> discover_loop_up files stop up)"
  by pat_completeness auto
termination
  by (relation "measure (\<lambda>(_, _, current). length current)") (auto simp: parent_def split: if_splits)

declare discover_loop_up.simps [simp del]

definition discover_project_root :: "files \<Rightarrow> path \<Rightarrow> path option \<Rightarrow> path option" where
  "discover_project_root files start home = discover_loop_up files (map_option (canonical files) home) start"

definition path_text :: "path \<Rightarrow> ucs" where
  "path_text p = (case p of Root # q \<Rightarrow> [47] @ join_with [47] (map piece_text q) | _ \<Rightarrow> join_with [47] (map piece_text p))"

definition expand_user :: "ucs \<Rightarrow> path option \<Rightarrow> ucs" where
  "expand_user t home =
     (case (case strip_prefix [126, 47] t of None \<Rightarrow> strip_prefix [126, 92] t | Some r \<Rightarrow> Some r) of
        Some rest \<Rightarrow> (case home of Some h \<Rightarrow> path_join (path_text h) rest | None \<Rightarrow> t)
      | None \<Rightarrow> t)"

definition resolve_db_path :: "ucs \<Rightarrow> path option \<Rightarrow> path option \<Rightarrow> ucs" where
  "resolve_db_path raw project_root home =
     (let expanded = expand_user raw home
      in if absolute_text expanded then expanded
         else case project_root of Some r \<Rightarrow> path_join (path_text r) expanded | None \<Rightarrow> expanded)"

section \<open>Loading\<close>

record loading =
  ld_ints :: "ucs \<Rightarrow> int option"
  ld_bools :: "ucs \<Rightarrow> bool option"
  ld_texts :: "ucs \<Rightarrow> ucs option"
  ld_diagnostics :: "diagnostic list"

fun try_candidates :: "Field \<Rightarrow> (setting_source \<times> ucs) list \<Rightarrow> loading \<Rightarrow> loading" where
  "try_candidates field [] st = st"
| "try_candidates field ((source, raw) # rest) st =
     (case coerce field raw of
        Inr (CInt v) \<Rightarrow> st\<lparr>ld_ints := (ld_ints st)(fd_key field \<mapsto> v)\<rparr>
      | Inr (CBool v) \<Rightarrow> st\<lparr>ld_bools := (ld_bools st)(fd_key field \<mapsto> v)\<rparr>
      | Inr (CText v) \<Rightarrow> st\<lparr>ld_texts := (ld_texts st)(fd_key field \<mapsto> v)\<rparr>
      | Inl m \<Rightarrow> try_candidates field rest (st\<lparr>ld_diagnostics := ld_diagnostics st @ [Rejected (fd_key field) m source]\<rparr>))"

definition load_fields :: "settings \<Rightarrow> settings \<Rightarrow> settings \<Rightarrow> Field list \<Rightarrow> loading \<Rightarrow> loading" where
  "load_fields env p u = fold (\<lambda>field. try_candidates field (candidates env (fd_key field) p u (fd_default field)))"

record McpSettings = McpConfig +
  mcp_server_enabled :: bool
  mcp_flow_max_depth :: int
  mcp_flow_max_visited :: int
  mcp_nav_clusters :: int
  mcp_nav_files :: int
  mcp_nav_symbols :: int
  mcp_llm_api_key :: ucs
  mcp_llm_base_url :: ucs
  mcp_llm_model :: ucs
  mcp_llm_max_tokens :: int
  mcp_llm_retry_limit :: int
  mcp_llm_timeout :: int
  mcp_llm_tls_insecure :: bool
  mcp_db_path :: ucs
  mcp_diagnostics :: "diagnostic list"

definition or_default :: "ucs option \<Rightarrow> ucs" where "or_default t = (case t of None \<Rightarrow> [] | Some v \<Rightarrow> v)"

definition assemble :: "loading \<Rightarrow> ucs \<Rightarrow> McpSettings option" where
  "assemble st db_path =
     (let int = (\<lambda>k. Option.bind (ld_ints st (lit k))); bool = (\<lambda>k. Option.bind (ld_bools st (lit k)));
          str = (\<lambda>k. or_default (ld_texts st (lit k))) in
      bool ''REMY_MCP_SERVER_ENABLED'' (\<lambda>enabled. int ''REMY_MCP_BFS_MAX_DEPTH'' (\<lambda>bfs.
      int ''REMY_MCP_RESULT_LIMIT'' (\<lambda>limit. int ''REMY_FLOW_MAX_DEPTH'' (\<lambda>flow_depth.
      int ''REMY_FLOW_MAX_VISITED'' (\<lambda>visited. int ''REMY_NAVIGATE_CANDIDATE_CLUSTERS'' (\<lambda>clusters.
      int ''REMY_NAVIGATE_CANDIDATE_FILES'' (\<lambda>nav_files. int ''REMY_NAVIGATE_CANDIDATE_SYMBOLS'' (\<lambda>symbols.
      int ''REMY_LLM_MAX_TOKENS'' (\<lambda>tokens. int ''REMY_LLM_RETRY_LIMIT'' (\<lambda>retry.
      int ''REMY_LLM_TIMEOUT'' (\<lambda>timeout. bool ''REMY_LLM_TLS_INSECURE'' (\<lambda>insecure.
        Some \<lparr>mcp_result_limit = limit, mcp_bfs_max_depth = bfs, mcp_server_enabled = enabled, mcp_flow_max_depth = flow_depth,
          mcp_flow_max_visited = visited, mcp_nav_clusters = clusters, mcp_nav_files = nav_files, mcp_nav_symbols = symbols,
          mcp_llm_api_key = str ''REMY_LLM_API_KEY'', mcp_llm_base_url = str ''REMY_LLM_BASE_URL'', mcp_llm_model = str ''REMY_LLM_MODEL'',
          mcp_llm_max_tokens = tokens, mcp_llm_retry_limit = retry, mcp_llm_timeout = timeout, mcp_llm_tls_insecure = insecure,
          mcp_db_path = db_path, mcp_diagnostics = ld_diagnostics st\<rparr>)))))))))))))"

definition config_file :: "path \<Rightarrow> path" where
  "config_file dir = dir @ [Name (lit ''.claude''), Name (lit ''remy-config.json'')]"

definition mcp_load_from :: "parser \<Rightarrow> files \<Rightarrow> path \<Rightarrow> path option \<Rightarrow> settings \<Rightarrow> McpSettings option" where
  "mcp_load_from parse files cwd home env =
     (let project_root = discover_project_root files cwd home;
          (u, diagnostics) = (case home of None \<Rightarrow> (Map.empty, []) | Some h \<Rightarrow> read_settings parse (fs_read files (config_file h)) False []);
          (p, diagnostics) = (case project_root of None \<Rightarrow> (Map.empty, diagnostics)
             | Some r \<Rightarrow> read_settings parse (fs_read files (config_file r)) True diagnostics);
          st = load_fields env p u FIELDS \<lparr>ld_ints = Map.empty, ld_bools = Map.empty, ld_texts = Map.empty, ld_diagnostics = diagnostics\<rparr>;
          db_raw = (case ld_texts st (lit ''REMY_LOGIC_INDEX_DB_PATH'') of None \<Rightarrow> lit ''.claude/logic_index.db'' | Some t \<Rightarrow> t)
      in assemble st (resolve_db_path db_raw project_root home))"

section \<open>The value that decides\<close>

text \<open>The first candidate that is accepted.\<close>

fun accepted :: "Field \<Rightarrow> ucs list \<Rightarrow> Coerced option" where
  "accepted field [] = None"
| "accepted field (raw # rest) = (case coerce field raw of Inr v \<Rightarrow> Some v | Inl _ \<Rightarrow> accepted field rest)"

definition setting_of :: "settings \<Rightarrow> settings \<Rightarrow> settings \<Rightarrow> Field \<Rightarrow> Coerced option" where
  "setting_of env p u field = accepted field
     (map the (filter (\<lambda>v. v \<noteq> None) [env (fd_key field), p (fd_key field), u (fd_key field), Some (fd_default field)]))"

lemma try_candidates_views:
  "ld_ints (try_candidates field cs st) =
     (case accepted field (map snd cs) of Some (CInt v) \<Rightarrow> (ld_ints st)(fd_key field \<mapsto> v) | _ \<Rightarrow> ld_ints st)"
  "ld_bools (try_candidates field cs st) =
     (case accepted field (map snd cs) of Some (CBool v) \<Rightarrow> (ld_bools st)(fd_key field \<mapsto> v) | _ \<Rightarrow> ld_bools st)"
  "ld_texts (try_candidates field cs st) =
     (case accepted field (map snd cs) of Some (CText v) \<Rightarrow> (ld_texts st)(fd_key field \<mapsto> v) | _ \<Rightarrow> ld_texts st)"
  by (induction field cs st rule: try_candidates.induct) (simp_all split: sum.split Coerced.split option.split)

lemma candidates_setting: "accepted field (map snd (candidates env (fd_key field) p u (fd_default field))) = setting_of env p u field"
  by (cases "env (fd_key field)"; cases "p (fd_key field)"; cases "u (fd_key field)") (simp_all add: candidates_def setting_of_def)

lemmas field_views = try_candidates_views candidates_setting

lemma load_fields_other:
  assumes "k \<notin> fd_key ` set fs"
  shows "ld_ints (load_fields env p u fs st) k = ld_ints st k \<and> ld_bools (load_fields env p u fs st) k = ld_bools st k \<and>
    ld_texts (load_fields env p u fs st) k = ld_texts st k"
  using assms
proof (induction fs arbitrary: st)
  case (Cons f fs)
  then show ?case unfolding load_fields_def by (simp add: field_views split: option.split Coerced.split)
qed (simp add: load_fields_def)

lemma load_fields_setting:
  assumes "distinct (map fd_key fs)" "f \<in> set fs"
  shows "(case setting_of env p u f of Some (CInt v) \<Rightarrow> ld_ints (load_fields env p u fs st) (fd_key f) = Some v
     | Some (CBool v) \<Rightarrow> ld_bools (load_fields env p u fs st) (fd_key f) = Some v
     | Some (CText v) \<Rightarrow> ld_texts (load_fields env p u fs st) (fd_key f) = Some v | None \<Rightarrow> True)"
  using assms
proof (induction fs arbitrary: st)
  case (Cons g fs)
  let ?st = "try_candidates g (candidates env (fd_key g) p u (fd_default g)) st"
  have step: "load_fields env p u (g # fs) st = load_fields env p u fs ?st" by (simp add: load_fields_def)
  show ?case
  proof (cases "f = g")
    case True
    then have "fd_key f \<notin> fd_key ` set fs" using Cons.prems(1) by auto
    from load_fields_other [OF this, of env p u ?st] show ?thesis
      unfolding step True by (simp add: field_views split: option.split Coerced.split)
  next
    case False
    then show ?thesis unfolding step using Cons.IH [of ?st] Cons.prems by auto
  qed
qed simp

definition of_kind :: "Kind \<Rightarrow> Coerced \<Rightarrow> bool" where
  "of_kind kind v = (case kind of IntKind lo hi \<Rightarrow> (case v of CInt i \<Rightarrow> lo \<le> i \<and> i \<le> hi | _ \<Rightarrow> False)
     | BoolKind \<Rightarrow> (case v of CBool _ \<Rightarrow> True | _ \<Rightarrow> False) | _ \<Rightarrow> (case v of CText _ \<Rightarrow> True | _ \<Rightarrow> False))"

lemma coerce_kind: "coerce field raw = Inr v \<Longrightarrow> of_kind (fd_kind field) v"
  by (auto simp: coerce_def of_kind_def split: if_splits Kind.splits option.splits)

lemma accepted_kind: "accepted field raws = Some v \<Longrightarrow> of_kind (fd_kind field) v"
  by (induction raws) (auto split: sum.splits dest: coerce_kind)

lemma accepted_last: "is_ok (coerce field d) \<Longrightarrow> accepted field (raws @ [d]) \<noteq> None"
  by (induction raws) (auto simp: is_ok_def split: sum.splits)

lemma setting_kind:
  assumes "is_ok (coerce field (fd_default field))"
  shows "\<exists>v. setting_of env p u field = Some v \<and> of_kind (fd_kind field) v"
proof -
  let ?own = "[env (fd_key field), p (fd_key field), u (fd_key field)]"
  have "map the (filter (\<lambda>v. v \<noteq> None) (?own @ [Some (fd_default field)])) = map the (filter (\<lambda>v. v \<noteq> None) ?own) @ [fd_default field]"
    unfolding filter_append by simp
  then have "setting_of env p u field \<noteq> None"
    unfolding setting_of_def using accepted_last [OF assms, of "map the (filter (\<lambda>v. v \<noteq> None) ?own)"] by (metis append_Cons append_Nil)
  then show ?thesis using accepted_kind unfolding setting_of_def by blast
qed

lemma defaults_accepted: "\<forall>f \<in> set FIELDS. is_ok (coerce f (fd_default f))"
  by (simp add: FIELDS_def fld_def coerce_def is_ok_def to_lower_def lit_def parse_i64_def split_sign_def digits_value_def is_digit_def)

lemma fields_distinct: "distinct (map fd_key FIELDS)"
  by (simp add: FIELDS_def fld_def lit_eq)

section \<open>The configuration is complete\<close>

lemma read_value_forbidden:
  "k \<in> set PROJECT_FORBIDDEN_KEYS \<Longrightarrow> fst (fold (read_value True) vs (result, ds)) k = result k"
proof (induction vs arbitrary: result ds)
  case (Cons v vs)
  obtain key x where v: "v = (key, x)" by (cases v)
  show ?case using Cons by (cases "key \<in> set PROJECT_FORBIDDEN_KEYS"; cases "as_str x") (auto simp: v read_value_def)
qed simp

lemma project_file_forbidden:
  assumes "k \<in> set PROJECT_FORBIDDEN_KEYS" shows "fst (read_settings parse contents True ds) k = None"
  using read_value_forbidden [OF assms, where result = Map.empty] by (simp add: read_settings_def split: option.split)

text \<open>What the files contribute.\<close>

definition user_settings :: "parser \<Rightarrow> files \<Rightarrow> path option \<Rightarrow> settings \<times> diagnostic list" where
  "user_settings parse files home =
     (case home of None \<Rightarrow> (Map.empty, []) | Some h \<Rightarrow> read_settings parse (fs_read files (config_file h)) False [])"

definition project_settings :: "parser \<Rightarrow> files \<Rightarrow> path \<Rightarrow> path option \<Rightarrow> settings \<times> diagnostic list" where
  "project_settings parse files cwd home =
     (case discover_project_root files cwd home of None \<Rightarrow> (Map.empty, snd (user_settings parse files home))
      | Some r \<Rightarrow> read_settings parse (fs_read files (config_file r)) True (snd (user_settings parse files home)))"

definition int_of :: "Coerced option \<Rightarrow> int" where "int_of v = (case v of Some (CInt i) \<Rightarrow> i | _ \<Rightarrow> 0)"
definition bool_of :: "Coerced option \<Rightarrow> bool" where "bool_of v = (case v of Some (CBool b) \<Rightarrow> b | _ \<Rightarrow> False)"
definition text_of :: "Coerced option \<Rightarrow> ucs" where "text_of v = (case v of Some (CText t) \<Rightarrow> t | _ \<Rightarrow> [])"

lemma field_setting:
  assumes "f \<in> set FIELDS"
  shows "case fd_kind f of
      IntKind lo hi \<Rightarrow> setting_of env p u f = Some (CInt (int_of (setting_of env p u f))) \<and> ld_ints (load_fields env p u FIELDS st) (fd_key f) = Some (int_of (setting_of env p u f))
    | BoolKind \<Rightarrow> setting_of env p u f = Some (CBool (bool_of (setting_of env p u f))) \<and> ld_bools (load_fields env p u FIELDS st) (fd_key f) = Some (bool_of (setting_of env p u f))
    | _ \<Rightarrow> setting_of env p u f = Some (CText (text_of (setting_of env p u f))) \<and> ld_texts (load_fields env p u FIELDS st) (fd_key f) = Some (text_of (setting_of env p u f))"
proof -
  have "is_ok (coerce f (fd_default f))" using defaults_accepted assms by blast
  then obtain v where v: "setting_of env p u f = Some v" "of_kind (fd_kind f) v" using setting_kind by blast
  show ?thesis using load_fields_setting [OF fields_distinct assms, of env p u st] v
    by (auto simp: of_kind_def int_of_def bool_of_def text_of_def split: Kind.splits Coerced.splits)
qed

lemma field_setting_at:
  "fld key d (IntKind lo hi) \<in> set FIELDS \<Longrightarrow> setting_of env p u (fld key d (IntKind lo hi)) = Some (CInt (int_of (setting_of env p u (fld key d (IntKind lo hi))))) \<and>
     ld_ints (load_fields env p u FIELDS st) (lit key) = Some (int_of (setting_of env p u (fld key d (IntKind lo hi))))"
  "fld key d BoolKind \<in> set FIELDS \<Longrightarrow> setting_of env p u (fld key d BoolKind) = Some (CBool (bool_of (setting_of env p u (fld key d BoolKind)))) \<and>
     ld_bools (load_fields env p u FIELDS st) (lit key) = Some (bool_of (setting_of env p u (fld key d BoolKind)))"
  "fld key d (TextKind e) \<in> set FIELDS \<Longrightarrow> setting_of env p u (fld key d (TextKind e)) = Some (CText (text_of (setting_of env p u (fld key d (TextKind e))))) \<and>
     ld_texts (load_fields env p u FIELDS st) (lit key) = Some (text_of (setting_of env p u (fld key d (TextKind e))))"
  "fld key d ProjectPath \<in> set FIELDS \<Longrightarrow> setting_of env p u (fld key d ProjectPath) = Some (CText (text_of (setting_of env p u (fld key d ProjectPath)))) \<and>
     ld_texts (load_fields env p u FIELDS st) (lit key) = Some (text_of (setting_of env p u (fld key d ProjectPath)))"
  using field_setting [of "fld key d _" env p u st] by (fastforce simp: fld_def)+

text \<open>C18.  The query server always gets its configuration, whatever the files hold: no lookup of a setting can fail.  Every
  setting is the first accepted one of environment, project, user and default and within its bounds; the key and the
  transport security of the language model never come from the file of a project.\<close>

theorem mcp_settings_complete:
  "\<exists>cfg p u raw. mcp_load_from parse files cwd home env = Some cfg \<and>
     u = fst (user_settings parse files home) \<and> p = fst (project_settings parse files cwd home) \<and>
     p (lit ''REMY_LLM_API_KEY'') = None \<and> p (lit ''REMY_LLM_TLS_INSECURE'') = None \<and>
     map (setting_of env p u) (take 3 FIELDS @ drop 4 FIELDS) =
       map Some [CBool (mcp_server_enabled cfg), CInt (mcp_bfs_max_depth cfg), CInt (mcp_result_limit cfg), CInt (mcp_flow_max_depth cfg),
         CInt (mcp_flow_max_visited cfg), CInt (mcp_nav_clusters cfg), CInt (mcp_nav_files cfg), CInt (mcp_nav_symbols cfg),
         CText (mcp_llm_api_key cfg), CText (mcp_llm_base_url cfg), CText (mcp_llm_model cfg), CInt (mcp_llm_max_tokens cfg),
         CInt (mcp_llm_retry_limit cfg), CInt (mcp_llm_timeout cfg), CBool (mcp_llm_tls_insecure cfg), CText raw] \<and>
     mcp_db_path cfg = resolve_db_path raw (discover_project_root files cwd home) home \<and>
     list_all (\<lambda>f. case setting_of env p u f of Some v \<Rightarrow> of_kind (fd_kind f) v | None \<Rightarrow> False) FIELDS"
proof -
  define u where "u = fst (user_settings parse files home)"
  define p where "p = fst (project_settings parse files cwd home)"
  define st where "st = load_fields env p u FIELDS \<lparr>ld_ints = Map.empty, ld_bools = Map.empty, ld_texts = Map.empty, ld_diagnostics = snd (project_settings parse files cwd home)\<rparr>"
  have load: "mcp_load_from parse files cwd home env =
      assemble st (resolve_db_path (case ld_texts st (lit ''REMY_LOGIC_INDEX_DB_PATH'') of None \<Rightarrow> lit ''.claude/logic_index.db'' | Some t \<Rightarrow> t)
        (discover_project_root files cwd home) home)"
    unfolding mcp_load_from_def Let_def st_def p_def u_def project_settings_def user_settings_def
    by (auto split: option.split prod.split)
  have none: "p (lit ''REMY_LLM_API_KEY'') = None" "p (lit ''REMY_LLM_TLS_INSECURE'') = None"
    unfolding p_def project_settings_def by (auto simp: project_file_forbidden PROJECT_FORBIDDEN_KEYS_def split: option.split)
  have kinds: "list_all (\<lambda>f. case setting_of env p u f of Some v \<Rightarrow> of_kind (fd_kind f) v | None \<Rightarrow> False) FIELDS"
    unfolding list_all_iff using defaults_accepted setting_kind by (fastforce split: option.split)
  note at = field_setting_at [where env = env and p = p and u = u and st = "\<lparr>ld_ints = Map.empty, ld_bools = Map.empty, ld_texts = Map.empty, ld_diagnostics = snd (project_settings parse files cwd home)\<rparr>", folded st_def]
  note facts = at(2) [of "''REMY_MCP_SERVER_ENABLED''" "''true''" ]
      at(1) [of "''REMY_MCP_BFS_MAX_DEPTH''" "''5''" 1 10]
      at(1) [of "''REMY_MCP_RESULT_LIMIT''" "''50''" 10 500]
      at(2) [of "''REMY_MCP_STATIC_ONLY_DEFAULT''" "''false''" ]
      at(1) [of "''REMY_FLOW_MAX_DEPTH''" "''15''" 1 50]
      at(1) [of "''REMY_FLOW_MAX_VISITED''" "''2000''" 100 50000]
      at(1) [of "''REMY_NAVIGATE_CANDIDATE_CLUSTERS''" "''5''" 1 50]
      at(1) [of "''REMY_NAVIGATE_CANDIDATE_FILES''" "''10''" 1 50]
      at(1) [of "''REMY_NAVIGATE_CANDIDATE_SYMBOLS''" "''10''" 1 50]
      at(3) [of "''REMY_LLM_API_KEY''" "''''" True]
      at(3) [of "''REMY_LLM_BASE_URL''" "''https://api.deepseek.com/v1/chat/completions''" False]
      at(3) [of "''REMY_LLM_MODEL''" "''deepseek-v4-flash''" False]
      at(1) [of "''REMY_LLM_MAX_TOKENS''" "''32768''" 1024 1048576]
      at(1) [of "''REMY_LLM_RETRY_LIMIT''" "''8''" 0 32]
      at(1) [of "''REMY_LLM_TIMEOUT''" "''300''" 30 3600]
      at(2) [of "''REMY_LLM_TLS_INSECURE''" "''false''" ]
      at(4) [of "''REMY_LOGIC_INDEX_DB_PATH''" "''.claude/logic_index.db''" ]
  note setting_of = facts [unfolded FIELDS_def list.set insert_iff simp_thms, OF TrueI]
  have own: "take 3 FIELDS @ drop 4 FIELDS = [
      fld ''REMY_MCP_SERVER_ENABLED'' ''true'' BoolKind,
      fld ''REMY_MCP_BFS_MAX_DEPTH'' ''5'' (IntKind 1 10),
      fld ''REMY_MCP_RESULT_LIMIT'' ''50'' (IntKind 10 500),
      fld ''REMY_FLOW_MAX_DEPTH'' ''15'' (IntKind 1 50),
      fld ''REMY_FLOW_MAX_VISITED'' ''2000'' (IntKind 100 50000),
      fld ''REMY_NAVIGATE_CANDIDATE_CLUSTERS'' ''5'' (IntKind 1 50),
      fld ''REMY_NAVIGATE_CANDIDATE_FILES'' ''10'' (IntKind 1 50),
      fld ''REMY_NAVIGATE_CANDIDATE_SYMBOLS'' ''10'' (IntKind 1 50),
      fld ''REMY_LLM_API_KEY'' '''' (TextKind True),
      fld ''REMY_LLM_BASE_URL'' ''https://api.deepseek.com/v1/chat/completions'' (TextKind False),
      fld ''REMY_LLM_MODEL'' ''deepseek-v4-flash'' (TextKind False),
      fld ''REMY_LLM_MAX_TOKENS'' ''32768'' (IntKind 1024 1048576),
      fld ''REMY_LLM_RETRY_LIMIT'' ''8'' (IntKind 0 32),
      fld ''REMY_LLM_TIMEOUT'' ''300'' (IntKind 30 3600),
      fld ''REMY_LLM_TLS_INSECURE'' ''false'' BoolKind,
      fld ''REMY_LOGIC_INDEX_DB_PATH'' ''.claude/logic_index.db'' ProjectPath]" by (simp add: FIELDS_def)
  note lookups = setting_of [THEN conjunct2] and readings = setting_of [THEN conjunct1, symmetric]
  show ?thesis
    unfolding load assemble_def Let_def u_def [symmetric] p_def [symmetric] own
    using none kinds by (simp add: lookups readings or_default_def) (use readings in metis)
qed

section \<open>The root of a project\<close>

function ancestors :: "path \<Rightarrow> path list" where
  "ancestors p = p # (case parent p of None \<Rightarrow> [] | Some up \<Rightarrow> ancestors up)"
  by pat_completeness auto
termination by (relation "measure length") (auto simp: parent_def split: if_splits)

declare ancestors.simps [simp del]

definition home_stop :: "files \<Rightarrow> path option \<Rightarrow> path \<Rightarrow> bool" where
  "home_stop files home p \<longleftrightarrow> map_option (canonical files) home = Some (canonical files p)"

text \<open>The root of the project is the nearest directory, from the start upward, with one of the markers, unless the
  home of the user comes first or is that directory: then there is none.\<close>

theorem discover_project_root_exact:
  "discover_project_root files start home =
     (case find (\<lambda>p. home_stop files home p \<or> marked files p) (ancestors start) of None \<Rightarrow> None
      | Some p \<Rightarrow> if home_stop files home p then None else Some p)"
proof -
  have stop: "(case map_option (canonical files) home of None \<Rightarrow> False | Some s \<Rightarrow> canonical files p = s) \<longleftrightarrow> home_stop files home p" for p
    by (auto simp: home_stop_def split: option.split)
  show ?thesis unfolding discover_project_root_def
  proof (induction start rule: ancestors.induct)
    case (1 p)
    show ?case unfolding discover_loop_up.simps [of files _ p] ancestors.simps [of p] stop using "1.IH" by (cases "parent p") simp_all
  qed
qed

end
