(* ===== verification/Dependencies.thy ===== *)
theory Dependencies
  imports Incremental GraphBfs "HOL-Library.AList"
begin

text \<open>
  The file dependencies the query server answers, \<^verbatim>\<open>remy-cc/src/mcp/deps.rs\<close>: the import graph of the index, the
  search by levels in both directions, and the rendered answer.  A set in the graph is a list of its members.
\<close>

section \<open>The import graph\<close>

record ImportGraph =
  ig_forward :: "(ucs \<times> ucs list) list"
  ig_indexed :: "ucs list"

definition stored_targets :: "parser \<Rightarrow> file_row \<Rightarrow> ucs list" where
  "stored_targets parse f = (case f_imports f of None \<Rightarrow> [] | Some text \<Rightarrow> string_items (parse_array parse text))"

definition add_file :: "parser \<Rightarrow> file_row \<Rightarrow> ImportGraph \<Rightarrow> ImportGraph" where
  "add_file parse f g =
     (let g = g\<lparr>ig_indexed := ig_indexed g @ [f_path f]\<rparr>; targets = stored_targets parse f
      in if targets = [] then g else g\<lparr>ig_forward := AList.update (f_path f) targets (ig_forward g)\<rparr>)"

definition build_import_graph :: "parser \<Rightarrow> index_db \<Rightarrow> ImportGraph" where
  "build_import_graph parse db =
     (let g = fold (add_file parse) (sort_key f_path (i_files db)) \<lparr>ig_forward = [], ig_indexed = []\<rparr>
      in g\<lparr>ig_forward := fold (\<lambda>(source, extra). map_extend source extra) (supplements (derive_import_bindings parse db)) (ig_forward g)\<rparr>)"

section \<open>The search\<close>

definition step_up :: "ImportGraph \<Rightarrow> ucs list \<Rightarrow> ucs list" where
  "step_up g nodes = concat (map (\<lambda>node. map fst (filter (\<lambda>(source, targets). node \<in> set targets) (ig_forward g))) nodes)"

definition step_down :: "ImportGraph \<Rightarrow> ucs list \<Rightarrow> ucs list" where
  "step_down g nodes = concat (map (\<lambda>node. case map_of (ig_forward g) node of None \<Rightarrow> [] | Some targets \<Rightarrow> targets) nodes)"

fun import_loop :: "ImportGraph \<Rightarrow> bool \<Rightarrow> nat \<Rightarrow> int \<Rightarrow> ucs list \<Rightarrow> ucs list \<Rightarrow> Levels \<Rightarrow> Levels" where
  "import_loop g reverse 0 level visited frontier levels = levels"
| "import_loop g reverse (Suc n) level visited frontier levels =
     (if frontier = [] then levels
      else let found = btree_set (filter (\<lambda>x. x \<notin> set visited) (if reverse then step_up g frontier else step_down g frontier))
           in if found = [] then levels
              else import_loop g reverse n (level + 1) (visited @ found) found (levels @ [(level + 1, found)]))"

definition import_bfs :: "ImportGraph \<Rightarrow> ucs list \<Rightarrow> int \<Rightarrow> bool \<Rightarrow> Levels" where
  "import_bfs g seeds depth reverse = import_loop g reverse (nat depth) 0 seeds (btree_set seeds) []"

section \<open>The answer\<close>

definition file_label :: "ImportGraph \<Rightarrow> ucs \<Rightarrow> ucs" where
  "file_label g path = (if path \<in> set (ig_indexed g) then path else path @ lit '' (not indexed)'')"

definition render_section :: "ucs \<Rightarrow> Levels \<Rightarrow> ImportGraph \<Rightarrow> ucs list" where
  "render_section title levels g =
     [title] @
     (if levels = [] then [lit ''  (none)'']
      else map (\<lambda>(depth, files). lit ''  [depth '' @ str_of_int depth @ lit ''] '' @ str_of_nat (length files) @ lit '' file(s): '' @
             join_with (lit '', '') (map (file_label g) files)) levels) @ [[]]"

definition dependency_targets :: "index_db \<Rightarrow> ucs list \<Rightarrow> ucs list" where
  "dependency_targets db files =
     foldl (\<lambda>acc f. let normalized = replace_char 92 [47] f
        in if normalized \<in> set (map f_path (i_files db)) \<and> normalized \<notin> set acc then acc @ [normalized] else acc) [] files"

definition query_dependencies_impl :: "parser \<Rightarrow> index_db option \<Rightarrow> McpConfig \<Rightarrow> ucs list \<Rightarrow> ucs \<Rightarrow> int \<Rightarrow> ucs" where
  "query_dependencies_impl parse opened cfg files direction depth =
     (if direction \<notin> {lit ''up'', lit ''down'', lit ''both''} then lit ''Error: direction must be one of up/down/both.''
      else case opened of None \<Rightarrow> DB_NOT_FOUND
      | Some db \<Rightarrow>
          (let depth = min depth (mcp_bfs_max_depth cfg); target_files = dependency_targets db files
           in if target_files = [] then lit ''No indexed files found matching: '' @ join_with (lit '', '') files
              else let g = build_import_graph parse db;
                  up = (direction = lit ''up'' \<or> direction = lit ''both''); down = (direction = lit ''down'' \<or> direction = lit ''both'');
                  upstream = import_bfs g target_files depth True; downstream = import_bfs g target_files depth False
                in join_with [10]
                  ([lit ''dependency analysis for: '' @ join_with (lit '', '') target_files @ [10]] @
                   (if up then render_section (lit ''imported by (upstream importers):'') upstream g else []) @
                   (if down then render_section (lit ''imports (downstream dependencies):'') downstream g else []) @
                   [lit ''summary: '' @ join_with (lit '', '')
                      ((if up then [str_of_nat (level_total upstream) @ lit '' upstream file(s)''] else []) @
                       (if down then [str_of_nat (level_total downstream) @ lit '' downstream file(s)''] else []))])))"

section \<open>Levels are distances over imports\<close>

definition forward_rel :: "ImportGraph \<Rightarrow> (ucs \<times> ucs) set" where
  "forward_rel g = {(a, b). b \<in> set (map_values (ig_forward g) a)}"

definition importer_rel :: "ImportGraph \<Rightarrow> (ucs \<times> ucs) set" where
  "importer_rel g = {(b, a). \<exists>targets. (a, targets) \<in> set (ig_forward g) \<and> b \<in> set targets}"

interpretation imported: neighbour_query "step_down g" "forward_rel g" for g
  by unfold_locales (auto simp: step_down_def forward_rel_def map_values_def)

interpretation importers: neighbour_query "step_up g" "importer_rel g" for g
  by unfold_locales (force simp: step_up_def importer_rel_def)

lemma import_loop_bfs:
  assumes "\<And>xs ys. query (xs @ ys) = query xs @ query ys" "query [] = []" "query = (if reverse then step_up g else step_down g)"
  shows "import_loop g reverse n level visited frontier levels = bfs_loop query n (level + 1) visited frontier levels"
proof (induction n arbitrary: level visited frontier levels)
  case (Suc n)
  have "concat (map query xss) = query (concat xss)" for xss
    by (induction xss) (simp_all add: assms(1,2))
  then have "concat (map query (chunks CHUNK frontier)) = query frontier" by (simp add: concat_chunks CHUNK_def)
  moreover have "(if reverse then step_up g frontier else step_down g frontier) = query frontier" by (simp add: assms(3))
  ultimately show ?case by (simp add: Let_def Suc.IH add.commute)
qed simp

lemma import_bfs_down:
  "import_bfs g seeds depth False =
     map (\<lambda>k. (int k, sorted_list_of_set (at_distance (forward_rel g) (set seeds) k)))
       (filter (\<lambda>k. at_distance (forward_rel g) (set seeds) k \<noteq> {}) [1..<Suc (nat depth)])"
proof -
  have "import_bfs g seeds depth False = bfs_loop (step_down g) (nat depth) (0 + 1) seeds (btree_set seeds) []"
    unfolding import_bfs_def by (rule import_loop_bfs) (simp_all add: step_down_def)
  then show ?thesis using imported.bfs_loop_levels [of seeds g "set seeds" 0 "btree_set seeds" "nat depth" "[]"] by simp
qed

lemma import_bfs_up:
  "import_bfs g seeds depth True =
     map (\<lambda>k. (int k, sorted_list_of_set (at_distance (importer_rel g) (set seeds) k)))
       (filter (\<lambda>k. at_distance (importer_rel g) (set seeds) k \<noteq> {}) [1..<Suc (nat depth)])"
proof -
  have "import_bfs g seeds depth True = bfs_loop (step_up g) (nat depth) (0 + 1) seeds (btree_set seeds) []"
    unfolding import_bfs_def by (rule import_loop_bfs) (simp_all add: step_up_def)
  then show ?thesis using importers.bfs_loop_levels [of seeds g "set seeds" 0 "btree_set seeds" "nat depth" "[]"] by simp
qed

section \<open>The graph holds the imports of the resolution\<close>

lemma keys_map_extend: "fst ` set (map_extend k vs m) = insert k (fst ` set m)"
  by (induction k vs m rule: map_extend.induct) auto

lemma distinct_map_extend: "distinct (map fst m) \<Longrightarrow> distinct (map fst (map_extend k vs m))"
proof (induction k vs m rule: map_extend.induct)
  case (2 k vs k' ws m)
  then show ?case using keys_map_extend [of k vs m] by auto
qed simp

lemma supplements_distinct: "distinct (map fst (supplements (derive_import_bindings parse db)))"
proof -
  have one: "distinct (map fst (supplements d)) \<Longrightarrow> distinct (map fst (supplements (derive_binding py src b d)))" for py src b d
    by (simp add: derive_binding_def Let_def distinct_map_extend)
  have row: "distinct (map fst (supplements d)) \<Longrightarrow> distinct (map fst (supplements (fold (derive_binding py src) bs d)))" for py src bs d
    by (induction bs arbitrary: d) (simp_all add: one)
  have "distinct (map fst (supplements d)) \<Longrightarrow> distinct (map fst (supplements (fold (derive_row parse py) rows d)))" for py rows d
    by (induction rows arbitrary: d) (simp_all add: row derive_row_def)
  then show ?thesis by (simp add: derive_import_bindings_def Let_def)
qed

lemma extend_all:
  assumes "distinct (map fst xs)"
  shows "map_values (fold (\<lambda>(source, extra). map_extend source extra) xs m) k = map_values m k @ map_values xs k"
  using assms
proof (induction xs arbitrary: m)
  case (Cons x xs)
  have "k = fst x \<Longrightarrow> map_of xs k = None" using Cons.prems by (simp add: map_of_eq_None_iff)
  then show ?case using Cons by (cases x) (auto simp: map_values_extend map_values_def [of "_ # _"] map_values_def [of xs])
qed simp

lemma extend_all_distinct: "distinct (map fst m) \<Longrightarrow> distinct (map fst (fold (\<lambda>(source, extra). map_extend source extra) xs m))"
  by (induction xs arbitrary: m) (auto simp: distinct_map_extend)

lemma files_forward:
  assumes "distinct (map f_path fs)" "\<forall>f \<in> set fs. f_path f \<notin> fst ` set (ig_forward g)"
  shows "map_values (ig_forward (fold (add_file parse) fs g)) k =
     (case find (\<lambda>f. f_path f = k) fs of None \<Rightarrow> map_values (ig_forward g) k | Some f \<Rightarrow> stored_targets parse f)"
  using assms
proof (induction fs arbitrary: g)
  case (Cons f fs)
  let ?g = "add_file parse f g"
  have keys: "fst ` set (ig_forward ?g) \<subseteq> insert (f_path f) (fst ` set (ig_forward g))"
    by (auto simp: add_file_def Let_def update_conv simp flip: dom_map_of_conv_image_fst split: if_splits)
  have ne: "\<forall>f' \<in> set fs. f_path f' \<noteq> f_path f" 
  proof -
    have "f_path f \<notin> set (map f_path fs)" using Cons.prems(1) by simp
    then show ?thesis by (metis image_eqI list.set_map)
  qed
  have fresh: "\<forall>f' \<in> set fs. f_path f' \<notin> fst ` set (ig_forward ?g)" 
    using Cons.prems(2) keys ne by (metis insertE list.set_intros(2) subsetD)
  have rest: "find (\<lambda>f'. f_path f' = f_path f) fs = None" using ne by (simp add: find_None_iff)
  have none: "map_of (ig_forward g) (f_path f) = None" using Cons.prems(2) by (simp add: map_of_eq_None_iff)
  show ?case using Cons.IH [OF _ fresh] Cons.prems(1) rest none
    by (auto simp: add_file_def Let_def map_values_def update_conv split: option.split)
qed simp

lemma files_forward_distinct: "distinct (map fst (ig_forward g)) \<Longrightarrow> distinct (map fst (ig_forward (fold (add_file parse) fs g)))"
  by (induction fs arbitrary: g) (auto simp: add_file_def Let_def distinct_update)

lemma find_filter: "find P xs = (case filter P xs of [] \<Rightarrow> None | x # _ \<Rightarrow> Some x)"
  by (induction xs) auto

lemma find_sort_key: "find (\<lambda>f. f_path f = k) (sort_key f_path fs) = find (\<lambda>f. f_path f = k) fs"
  unfolding find_filter by (simp add: sort_key_stable)

lemma set_foldl_new: "set (foldl (\<lambda>acc extra. if extra \<in> set acc then acc else acc @ [extra]) xs ys) = set xs \<union> set ys"
  by (induction ys arbitrary: xs) auto

text \<open>A file, and the files it imports as the resolution of calls sees them.\<close>

definition import_rel :: "parser \<Rightarrow> index_db \<Rightarrow> (ucs \<times> ucs) set" where
  "import_rel parse db = {(a, b). b \<in> set (import_list parse db (derive_import_bindings parse db) a)}"

lemma graph_rel:
  assumes "distinct (map f_path (i_files db))"
  shows "forward_rel (build_import_graph parse db) = import_rel parse db \<and> importer_rel (build_import_graph parse db) = (import_rel parse db)\<inverse>"
proof -
  let ?fs = "sort_key f_path (i_files db)" and ?g = "build_import_graph parse db"
  have fs: "distinct (map f_path ?fs)" using assms by (metis distinct_map distinct_sort set_sort)
  have entries: "map_values (ig_forward ?g) k = (case find (\<lambda>f. f_path f = k) (i_files db) of None \<Rightarrow> [] | Some f \<Rightarrow> stored_targets parse f) @
      map_values (supplements (derive_import_bindings parse db)) k" for k
    using files_forward [OF fs, of "\<lparr>ig_forward = [], ig_indexed = []\<rparr>" parse k]
    by (simp add: build_import_graph_def Let_def extend_all [OF supplements_distinct] find_sort_key split: option.split)
  have "set (map_values (ig_forward ?g) k) = set (import_list parse db (derive_import_bindings parse db) k)" for k
    
    unfolding entries import_list_def Let_def set_foldl_new by (cases "find (\<lambda>f. f_path f = k) (i_files db)") (simp_all add: stored_targets_def split: option.split)
  then have forward: "forward_rel ?g = import_rel parse db" by (simp add: forward_rel_def import_rel_def)
  have "distinct (map fst (ig_forward ?g))"
    by (simp add: build_import_graph_def Let_def extend_all_distinct files_forward_distinct)
  then have "importer_rel ?g = (forward_rel ?g)\<inverse>" by (auto simp: importer_rel_def forward_rel_def map_values_def split: option.splits)
  then show ?thesis using forward by simp
qed

text \<open>C19.  The levels of the import search are distances: in either direction, level \<open>k\<close> holds exactly the files whose
  shortest chain of imports from a given file has length \<open>k\<close>, in order and up to the depth, where a file imports just
  what the resolution of calls takes it to import.\<close>

theorem import_levels:
  assumes "distinct (map f_path (i_files db))"
  shows "import_bfs (build_import_graph parse db) files depth False =
       map (\<lambda>k. (int k, sorted_list_of_set (at_distance (import_rel parse db) (set files) k)))
         (filter (\<lambda>k. at_distance (import_rel parse db) (set files) k \<noteq> {}) [1..<Suc (nat depth)]) \<and>
     import_bfs (build_import_graph parse db) files depth True =
       map (\<lambda>k. (int k, sorted_list_of_set (at_distance ((import_rel parse db)\<inverse>) (set files) k)))
         (filter (\<lambda>k. at_distance ((import_rel parse db)\<inverse>) (set files) k \<noteq> {}) [1..<Suc (nat depth)])"
  unfolding import_bfs_down import_bfs_up using graph_rel [OF assms, of parse] by simp

definition import_index :: index_db where
  "import_index = (demo_index [])\<lparr>i_files := [demo_file ''b'' ''c'', demo_file ''a'' [], demo_file ''c'' []]\<rparr>"

theorem import_levels_witness:
  "distinct (map f_path (i_files import_index)) \<and>
   import_bfs (build_import_graph demo_parse import_index) [lit ''c''] 3 True = [(1, [lit ''b''])] \<and>
   at_distance ((import_rel demo_parse import_index)\<inverse>) (set [lit ''c'']) 1 \<noteq> {}"
proof -
  have paths: "distinct (map f_path (i_files import_index))" by code_simp
  have run: "import_bfs (build_import_graph demo_parse import_index) [lit ''c''] 3 True = [(1, [lit ''b''])]" by code_simp
  moreover have "at_distance ((import_rel demo_parse import_index)\<inverse>) (set [lit ''c'']) 1 \<noteq> {}"
  proof -
    have "(1::int) \<in> fst ` set (import_bfs (build_import_graph demo_parse import_index) [lit ''c''] 3 True)" unfolding run by simp
    then show ?thesis unfolding conjunct2 [OF import_levels [OF paths]] by auto
  qed
  ultimately show ?thesis using paths by blast
qed

end
