(* ===== verification/InstallSettings.thy ===== *)
theory InstallSettings
  imports Discovery IndexDb
begin

text \<open>
  The ownership of entries in the settings of the editor, \<^verbatim>\<open>remy-cc/src/install/settings.rs\<close>: a template is merged
  into the document, the entries it stands for are claimed, a claim can be verified and removed.  Roots are the text of
  their paths, on a POSIX system.  An object is a list of its fields; removing a field puts the last one in its place.
  The rendering of a JSON value as text is a parameter.
\<close>

type_synonym json = "ucs json_value"
type_synonym fields_list = "(ucs \<times> json) list"

datatype InstallError = Metadata string | Runtime string | RuntimeAt string ucs | UnmanagedConflicts "(ucs \<times> ucs \<times> ucs) list"

section \<open>Objects\<close>

fun put_field :: "ucs \<Rightarrow> json \<Rightarrow> fields_list \<Rightarrow> fields_list" where
  "put_field k v [] = [(k, v)]"
| "put_field k v ((j, w) # m) = (if j = k then (j, v) # m else (j, w) # put_field k v m)"

definition entry_or :: "ucs \<Rightarrow> json \<Rightarrow> fields_list \<Rightarrow> json" where
  "entry_or k d m = (case map_of m k of Some v \<Rightarrow> v | None \<Rightarrow> d)"

definition swap_remove :: "ucs \<Rightarrow> fields_list \<Rightarrow> fields_list" where
  "swap_remove k m =
     (let front = takeWhile (\<lambda>f. fst f \<noteq> k) m
      in case dropWhile (\<lambda>f. fst f \<noteq> k) m of [] \<Rightarrow> m
         | _ # rest \<Rightarrow> if rest = [] then front else front @ last rest # butlast rest)"

definition field_array :: "ucs \<Rightarrow> fields_list \<Rightarrow> json list option" where
  "field_array k m = Option.bind (map_of m k) as_array"

fun res_fold :: "('a \<Rightarrow> 's \<Rightarrow> 'e + 's) \<Rightarrow> 'a list \<Rightarrow> 's \<Rightarrow> 'e + 's" where
  "res_fold f [] s = Inr s"
| "res_fold f (x # xs) s = res_bind (f x s) (res_fold f xs)"

section \<open>Claims\<close>

record ClaimedHook =
  ch_event :: ucs
  ch_matcher :: ucs
  ch_command :: ucs

record SettingsClaim =
  cl_hooks :: "ClaimedHook list"
  cl_permissions :: "ucs list"

definition hook_to_value :: "ClaimedHook \<Rightarrow> json" where
  "hook_to_value h = JObject [(lit ''event'', JString (ch_event h)), (lit ''matcher'', JString (ch_matcher h)), (lit ''command'', JString (ch_command h))]"

definition claim_to_value :: "SettingsClaim \<Rightarrow> json" where
  "claim_to_value c = JObject [(lit ''hooks'', JArray (map hook_to_value (cl_hooks c))), (lit ''permissions'', JArray (map JString (cl_permissions c)))]"

definition hook_from_value :: "json \<Rightarrow> InstallError + ClaimedHook" where
  "hook_from_value v =
     (let bad = Metadata ''invalid manifest Hook claim''
      in case as_object v of None \<Rightarrow> Inl bad
         | Some m \<Rightarrow>
             (case (Option.bind (map_of m (lit ''event'')) as_str, Option.bind (map_of m (lit ''matcher'')) as_str, Option.bind (map_of m (lit ''command'')) as_str) of
                (Some e, Some t, Some c) \<Rightarrow> Inr \<lparr>ch_event = e, ch_matcher = t, ch_command = c\<rparr>
              | _ \<Rightarrow> Inl bad))"

definition permission_from_value :: "json \<Rightarrow> InstallError + ucs" where
  "permission_from_value v = (case as_str v of None \<Rightarrow> Inl (Metadata ''invalid manifest permission claim'') | Some t \<Rightarrow> Inr t)"

definition claim_from_value :: "json \<Rightarrow> InstallError + SettingsClaim" where
  "claim_from_value v =
     (case as_object v of None \<Rightarrow> Inl (Metadata ''manifest settings_claim must be an object'')
      | Some m \<Rightarrow>
          (case (field_array (lit ''hooks'') m, field_array (lit ''permissions'') m) of
             (Some hooks, Some permissions) \<Rightarrow>
               res_bind (res_collect hook_from_value hooks) (\<lambda>hs.
               res_bind (res_collect permission_from_value permissions) (\<lambda>ps. Inr \<lparr>cl_hooks = hs, cl_permissions = ps\<rparr>))
           | _ \<Rightarrow> Inl (Metadata ''invalid manifest settings_claim'')))"

section \<open>Commands\<close>

definition ENRICH_PLACEHOLDER :: ucs where "ENRICH_PLACEHOLDER = lit ''__REMY_ENRICH_COMMAND__''"
definition DIRTY_PLACEHOLDER :: ucs where "DIRTY_PLACEHOLDER = lit ''__REMY_DIRTY_COMMAND__''"
definition CLAUDE_HOME_PLACEHOLDER :: ucs where "CLAUDE_HOME_PLACEHOLDER = lit ''~/.claude/''"

definition TARGET_HOOKS :: "(ucs \<times> ucs \<times> ucs) list" where
  "TARGET_HOOKS = [(lit ''PreToolUse'', lit ''Read|Glob|Grep'', lit ''logic_enrichment_hook.py''),
                   (lit ''PostToolUse'', lit ''Edit|Write'', lit ''logic_dirty_tracker.py'')]"

record HookCommands =
  hc_enrich :: ucs
  hc_dirty :: ucs

definition quote_command_arg :: "ucs \<Rightarrow> InstallError + ucs" where
  "quote_command_arg t =
     (if 34 \<in> set t \<or> 13 \<in> set t \<or> 10 \<in> set t then Inl (Runtime ''managed command path contains unsupported characters'')
      else Inr ([34] @ t @ [34]))"

definition is_windows_path :: "ucs \<Rightarrow> bool" where
  "is_windows_path t \<longleftrightarrow> starts_with [92, 92] t \<or> (case t of a # b # _ \<Rightarrow> a < 128 \<and> b = 58 | _ \<Rightarrow> False)"

definition managed_exe_name :: "ucs \<Rightarrow> ucs" where
  "managed_exe_name remy_root = (if is_windows_path remy_root then lit ''remy-cc.exe'' else lit ''remy-cc'')"

definition legacy_exe_name :: "ucs \<Rightarrow> ucs" where
  "legacy_exe_name remy_root = (if is_windows_path remy_root then lit ''remy-daemon.exe'' else lit ''remy-daemon'')"

definition hook_commands :: "ucs \<Rightarrow> InstallError + HookCommands" where
  "hook_commands remy_root =
     res_bind (quote_command_arg (path_join (path_join remy_root (lit ''bin'')) (managed_exe_name remy_root))) (\<lambda>prefix.
       Inr \<lparr>hc_enrich = prefix @ lit '' hook enrich'', hc_dirty = prefix @ lit '' hook dirty''\<rparr>)"

fun replace_loop :: "nat \<Rightarrow> ucs \<Rightarrow> ucs \<Rightarrow> ucs \<Rightarrow> ucs" where
  "replace_loop n needle r [] = []"
| "replace_loop (Suc n) needle r (c # s) = replace_loop n needle r s"
| "replace_loop 0 needle r (c # s) =
     (if starts_with needle (c # s) then r @ replace_loop (length needle - 1) needle r s else c # replace_loop 0 needle r s)"

text \<open>Replacing every occurrence of a non-empty text, from the left; the number counts the characters still to be dropped.\<close>

definition replace_text :: "ucs \<Rightarrow> ucs \<Rightarrow> ucs \<Rightarrow> ucs" where
  "replace_text needle r s = replace_loop 0 needle r s"

definition slashes :: "ucs \<Rightarrow> ucs" where "slashes t = replace_char 92 [47] t"

definition is_legacy_default :: "ucs \<Rightarrow> ucs \<Rightarrow> ucs \<Rightarrow> bool" where
  "is_legacy_default command claude_root script_name =
     (let normalized = slashes command; absolute = slashes (path_join (path_join claude_root (lit ''hooks'')) script_name)
      in normalized = lit ''python \"'' @ CLAUDE_HOME_PLACEHOLDER @ lit ''hooks/'' @ script_name @ [34] \<or>
         normalized = lit ''python \"'' @ absolute @ [34])"

definition is_legacy_daemon_default :: "ucs \<Rightarrow> ucs \<Rightarrow> bool" where
  "is_legacy_daemon_default command remy_root =
     (case quote_command_arg (path_join (path_join remy_root (lit ''bin'')) (legacy_exe_name remy_root)) of Inl _ \<Rightarrow> False
      | Inr prefix \<Rightarrow> slashes command = slashes prefix @ lit '' hook enrich'' \<or> slashes command = slashes prefix @ lit '' hook dirty'')"

definition hook_command :: "json \<Rightarrow> ucs option" where
  "hook_command hook = map_option ucs_trim (Option.bind (json_get (lit ''command'') hook) as_str)"

definition retain_nonempty_entries :: "json list \<Rightarrow> json list" where
  "retain_nonempty_entries entries = filter (\<lambda>e. case Option.bind (json_get (lit ''hooks'') e) as_array of None \<Rightarrow> False | Some l \<Rightarrow> l \<noteq> []) entries"

definition string_view :: "(json \<Rightarrow> ucs) \<Rightarrow> json option \<Rightarrow> ucs" where
  "string_view render v = (case v of None \<Rightarrow> [] | Some (JString t) \<Rightarrow> t | Some other \<Rightarrow> render other)"

section \<open>The template\<close>

definition render_hook :: "ucs \<Rightarrow> HookCommands \<Rightarrow> json \<Rightarrow> json" where
  "render_hook claude_prefix commands hook =
     (case as_object hook of None \<Rightarrow> hook
      | Some m \<Rightarrow>
          (let command = (case Option.bind (map_of m (lit ''command'')) as_str of None \<Rightarrow> [] | Some t \<Rightarrow> t)
           in JObject (put_field (lit ''command'') (JString
                (replace_text CLAUDE_HOME_PLACEHOLDER claude_prefix
                  (replace_text DIRTY_PLACEHOLDER (hc_dirty commands)
                    (replace_text ENRICH_PLACEHOLDER (hc_enrich commands) command)))) m)))"

definition render_entry :: "ucs \<Rightarrow> HookCommands \<Rightarrow> json \<Rightarrow> json" where
  "render_entry claude_prefix commands entry =
     (case entry of JObject m \<Rightarrow>
        (case field_array (lit ''hooks'') m of None \<Rightarrow> entry
         | Some l \<Rightarrow> JObject (put_field (lit ''hooks'') (JArray (map (render_hook claude_prefix commands) l)) m))
      | _ \<Rightarrow> entry)"

definition render_event :: "ucs \<Rightarrow> HookCommands \<Rightarrow> json \<Rightarrow> json" where
  "render_event claude_prefix commands entries =
     (case entries of JArray es \<Rightarrow> JArray (map (render_entry claude_prefix commands) es) | _ \<Rightarrow> entries)"

definition render_template :: "json \<Rightarrow> ucs \<Rightarrow> HookCommands \<Rightarrow> json" where
  "render_template template claude_root commands =
     (case template of JObject m \<Rightarrow>
        (case Option.bind (map_of m (lit ''hooks'')) as_object of None \<Rightarrow> template
         | Some hooks \<Rightarrow> JObject (put_field (lit ''hooks'')
             (JObject (map (\<lambda>(event, entries). (event, render_event (slashes claude_root @ [47]) commands entries)) hooks)) m))
      | _ \<Rightarrow> template)"

section \<open>Hooks of earlier installations\<close>

definition own_command :: "ucs \<Rightarrow> ucs \<Rightarrow> ucs list \<Rightarrow> ucs \<Rightarrow> ucs \<Rightarrow> bool" where
  "own_command claude_root remy_root claimed script_name command \<longleftrightarrow>
     command \<in> set claimed \<or> is_legacy_default command claude_root script_name \<or> is_legacy_daemon_default command remy_root"

definition retain_hook :: "ucs \<Rightarrow> ucs \<Rightarrow> ucs list \<Rightarrow> ucs \<Rightarrow> json \<Rightarrow> json list \<Rightarrow> InstallError + json list" where
  "retain_hook claude_root remy_root claimed script_name hook retained =
     (case hook_command hook of None \<Rightarrow> Inr (retained @ [hook])
      | Some command \<Rightarrow>
          if own_command claude_root remy_root claimed script_name command then Inr retained
          else if contains_ucs command script_name \<or> contains_ucs command (lit ''remy-cc'') \<and> contains_ucs command (lit '' hook '')
          then Inl (Runtime ''an existing target Hook command was modified'')
          else Inr (retained @ [hook]))"

definition clean_entry :: "(json \<Rightarrow> ucs) \<Rightarrow> ucs \<Rightarrow> ucs \<Rightarrow> ucs list \<Rightarrow> ucs \<Rightarrow> ucs \<Rightarrow> json \<Rightarrow> InstallError + json" where
  "clean_entry render claude_root remy_root claimed matcher script_name entry =
     (case entry of JObject m \<Rightarrow>
        (if string_view render (map_of m (lit ''matcher'')) \<noteq> matcher then Inr entry
         else case field_array (lit ''hooks'') m of None \<Rightarrow> Inr entry
           | Some l \<Rightarrow> res_bind (res_fold (retain_hook claude_root remy_root claimed script_name) l [])
               (\<lambda>retained. Inr (JObject (put_field (lit ''hooks'') (JArray retained) m))))
      | _ \<Rightarrow> Inr entry)"

definition clean_target :: "(json \<Rightarrow> ucs) \<Rightarrow> ucs \<Rightarrow> ucs \<Rightarrow> ucs list \<Rightarrow> ucs \<times> ucs \<times> ucs \<Rightarrow> fields_list \<Rightarrow> InstallError + fields_list" where
  "clean_target render claude_root remy_root claimed = (\<lambda>(event, matcher, script_name) hooks.
     case field_array event hooks of None \<Rightarrow> Inr hooks
     | Some entries \<Rightarrow>
         res_bind (res_collect (clean_entry render claude_root remy_root claimed matcher script_name) entries) (\<lambda>entries.
           let entries = retain_nonempty_entries entries
           in Inr (if entries = [] then swap_remove event hooks else put_field event (JArray entries) hooks)))"

definition remove_prior_target_hooks :: "(json \<Rightarrow> ucs) \<Rightarrow> ucs \<Rightarrow> ucs \<Rightarrow> SettingsClaim option \<Rightarrow> fields_list \<Rightarrow> InstallError + fields_list" where
  "remove_prior_target_hooks render claude_root remy_root prior_claim settings =
     (case map_of settings (lit ''hooks'') of None \<Rightarrow> Inr settings
      | Some v \<Rightarrow>
          (case as_object v of None \<Rightarrow> Inl (Metadata ''settings hooks must be an object'')
           | Some hooks \<Rightarrow>
               (let claimed = (case prior_claim of None \<Rightarrow> [] | Some c \<Rightarrow> map (\<lambda>h. ucs_trim (ch_command h)) (cl_hooks c))
                in res_bind (res_fold (clean_target render claude_root remy_root claimed) TARGET_HOOKS hooks) (\<lambda>hooks.
                     Inr (put_field (lit ''hooks'') (JObject hooks) settings)))))"

section \<open>Verification of a claim\<close>

definition entry_holds :: "(json \<Rightarrow> ucs) \<Rightarrow> ucs \<Rightarrow> ucs \<Rightarrow> json \<Rightarrow> bool" where
  "entry_holds render matcher command entry =
     (case as_object entry of None \<Rightarrow> False
      | Some m \<Rightarrow> string_view render (map_of m (lit ''matcher'')) = matcher \<and>
          (case field_array (lit ''hooks'') m of None \<Rightarrow> False | Some l \<Rightarrow> list_ex (\<lambda>hook. hook_command hook = Some command) l))"

definition claim_found :: "(json \<Rightarrow> ucs) \<Rightarrow> fields_list \<Rightarrow> ClaimedHook \<Rightarrow> bool" where
  "claim_found render hooks item =
     (case field_array (ch_event item) hooks of None \<Rightarrow> False
      | Some entries \<Rightarrow> list_ex (entry_holds render (ch_matcher item) (ch_command item)) entries)"

definition object_or :: "string \<Rightarrow> json option \<Rightarrow> InstallError + fields_list" where
  "object_or message v = (case v of None \<Rightarrow> Inr [] | Some w \<Rightarrow> (case as_object w of None \<Rightarrow> Inl (Metadata message) | Some m \<Rightarrow> Inr m))"

definition array_or :: "string \<Rightarrow> json option \<Rightarrow> InstallError + json list" where
  "array_or message v = (case v of None \<Rightarrow> Inr [] | Some w \<Rightarrow> (case as_array w of None \<Rightarrow> Inl (Metadata message) | Some l \<Rightarrow> Inr l))"

definition verify_settings_claim :: "(json \<Rightarrow> ucs) \<Rightarrow> json \<Rightarrow> SettingsClaim \<Rightarrow> InstallError + unit" where
  "verify_settings_claim render settings claim =
     res_bind (object_or ''settings hooks must be an object'' (json_get (lit ''hooks'') settings)) (\<lambda>hooks.
     if \<not> list_all (claim_found render hooks) (cl_hooks claim) then Inl (Runtime ''a managed settings Hook was modified'')
     else res_bind (object_or ''settings permissions must be an object'' (json_get (lit ''permissions'') settings)) (\<lambda>section.
     res_bind (array_or ''settings permissions.allow must be an array'' (map_of section (lit ''allow''))) (\<lambda>allow.
     if \<not> list_all (\<lambda>p. list_ex (\<lambda>item. as_str item = Some p) allow) (cl_permissions claim)
     then Inl (Runtime ''a managed settings permission was modified'') else Inr ())))"

section \<open>Merging\<close>

definition merge_hook :: "ucs \<Rightarrow> ucs \<Rightarrow> json \<Rightarrow> json list \<times> SettingsClaim \<Rightarrow> InstallError + json list \<times> SettingsClaim" where
  "merge_hook event matcher hook = (\<lambda>(hooks, claim).
     case Option.bind (json_get (lit ''command'') hook) as_str of None \<Rightarrow> Inl (Metadata ''settings hook command must be a string'')
     | Some t \<Rightarrow>
         (let command = ucs_trim t
          in Inr (if list_ex (\<lambda>current. hook_command current = Some command) hooks then hooks else hooks @ [hook],
                  claim\<lparr>cl_hooks := cl_hooks claim @ [\<lparr>ch_event = event, ch_matcher = matcher, ch_command = command\<rparr>]\<rparr>)))"

definition matches_entry :: "(json \<Rightarrow> ucs) \<Rightarrow> ucs \<Rightarrow> json \<Rightarrow> bool" where
  "matches_entry render matcher item =
     (case as_object item of None \<Rightarrow> False | Some m \<Rightarrow> string_view render (map_of m (lit ''matcher'')) = matcher)"

text \<open>The first item that matches is updated.\<close>

fun update_first :: "('a \<Rightarrow> bool) \<Rightarrow> ('a \<Rightarrow> 'e + 'a \<times> 's) \<Rightarrow> 'a list \<Rightarrow> 's \<Rightarrow> 'e + 'a list \<times> 's" where
  "update_first P f [] s = Inr ([], s)"
| "update_first P f (x # xs) s =
     (if P x then res_bind (f x) (\<lambda>(y, s'). Inr (y # xs, s')) else res_bind (update_first P f xs s) (\<lambda>(ys, s'). Inr (x # ys, s')))"

definition merge_target :: "ucs \<Rightarrow> ucs \<Rightarrow> json list \<Rightarrow> SettingsClaim \<Rightarrow> json \<Rightarrow> InstallError + json \<times> SettingsClaim" where
  "merge_target event matcher new claim item =
     (case item of JObject m \<Rightarrow>
        (case as_array (entry_or (lit ''hooks'') (JArray []) m) of None \<Rightarrow> Inl (Metadata ''settings hooks list must be an array'')
         | Some hooks \<Rightarrow> res_bind (res_fold (merge_hook event matcher) new (hooks, claim)) (\<lambda>(hooks, claim).
             Inr (JObject (put_field (lit ''hooks'') (JArray hooks) m), claim)))
      | _ \<Rightarrow> Inr (item, claim))"

definition merge_entry :: "(json \<Rightarrow> ucs) \<Rightarrow> ucs \<Rightarrow> json \<Rightarrow> json list \<times> SettingsClaim \<Rightarrow> InstallError + json list \<times> SettingsClaim" where
  "merge_entry render event entry = (\<lambda>(destination, claim).
     case as_object entry of None \<Rightarrow> Inl (Metadata ''settings hook entry must be an object'')
     | Some m \<Rightarrow>
         (let matcher = string_view render (map_of m (lit ''matcher''));
              destination = (if list_ex (matches_entry render matcher) destination then destination
                else destination @ [JObject [(lit ''matcher'', JString matcher), (lit ''hooks'', JArray [])]]);
              new = (case field_array (lit ''hooks'') m of None \<Rightarrow> [] | Some l \<Rightarrow> l)
          in update_first (matches_entry render matcher) (merge_target event matcher new claim) destination claim))"

definition merge_event :: "(json \<Rightarrow> ucs) \<Rightarrow> ucs \<times> json \<Rightarrow> fields_list \<times> SettingsClaim \<Rightarrow> InstallError + fields_list \<times> SettingsClaim" where
  "merge_event render = (\<lambda>(event, entries) (hooks, claim).
     case as_array entries of None \<Rightarrow> Inl (Metadata ''settings template hooks must be arrays'')
     | Some es \<Rightarrow>
         (case as_array (entry_or event (JArray []) hooks) of None \<Rightarrow> Inl (Metadata ''settings event hooks must be arrays'')
          | Some destination \<Rightarrow> res_bind (res_fold (merge_entry render event) es (destination, claim)) (\<lambda>(destination, claim).
              Inr (put_field event (JArray destination) hooks, claim))))"

definition merge_permission :: "ucs list \<Rightarrow> ucs \<Rightarrow> json list \<times> SettingsClaim \<Rightarrow> json list \<times> SettingsClaim" where
  "merge_permission prior permission = (\<lambda>(allow, claim).
     if \<not> list_ex (\<lambda>item. as_str item = Some permission) allow
     then (allow @ [JString permission], claim\<lparr>cl_permissions := cl_permissions claim @ [permission]\<rparr>)
     else if permission \<in> set prior then (allow, claim\<lparr>cl_permissions := cl_permissions claim @ [permission]\<rparr>)
     else (allow, claim))"

definition as_object_or :: "string \<Rightarrow> json \<Rightarrow> InstallError + fields_list" where
  "as_object_or message v = (case as_object v of None \<Rightarrow> Inl (Metadata message) | Some m \<Rightarrow> Inr m)"

definition as_array_or :: "string \<Rightarrow> json \<Rightarrow> InstallError + json list" where
  "as_array_or message v = (case as_array v of None \<Rightarrow> Inl (Metadata message) | Some l \<Rightarrow> Inr l)"

definition string_list :: "json \<Rightarrow> InstallError + ucs list" where
  "string_list v = (case as_array v of None \<Rightarrow> Inl (Metadata ''settings template permissions must be strings'')
     | Some items \<Rightarrow> if list_all is_string items then Inr (List.map_filter as_str items)
         else Inl (Metadata ''settings template permissions must be strings''))"

definition merge_hooks :: "(json \<Rightarrow> ucs) \<Rightarrow> json \<Rightarrow> fields_list \<Rightarrow> InstallError + fields_list \<times> SettingsClaim" where
  "merge_hooks render rendered result =
     res_bind (object_or ''settings template hooks must be arrays'' (json_get (lit ''hooks'') rendered)) (\<lambda>rendered_hooks.
     res_bind (as_object_or ''settings hooks must be an object'' (entry_or (lit ''hooks'') (JObject []) result)) (\<lambda>hooks.
     res_bind (res_fold (merge_event render) rendered_hooks (hooks, \<lparr>cl_hooks = [], cl_permissions = []\<rparr>)) (\<lambda>(hooks, claim).
       Inr (put_field (lit ''hooks'') (JObject hooks) result, claim))))"

definition merge_permissions :: "json \<Rightarrow> SettingsClaim option \<Rightarrow> fields_list \<times> SettingsClaim \<Rightarrow> InstallError + fields_list \<times> SettingsClaim" where
  "merge_permissions rendered prior_claim = (\<lambda>(result, claim).
     res_bind (string_list (case Option.bind (json_get (lit ''permissions'') rendered) (json_get (lit ''allow'')) of None \<Rightarrow> JArray [] | Some v \<Rightarrow> v)) (\<lambda>permissions.
     res_bind (as_object_or ''settings permissions must be an object'' (entry_or (lit ''permissions'') (JObject []) result)) (\<lambda>section.
     res_bind (as_array_or ''settings permissions.allow must be an array'' (entry_or (lit ''allow'') (JArray []) section)) (\<lambda>allow.
       let prior = (case prior_claim of None \<Rightarrow> [] | Some c \<Rightarrow> cl_permissions c);
           (allow, claim) = fold (merge_permission prior) permissions (allow, claim)
       in Inr (put_field (lit ''permissions'') (JObject (put_field (lit ''allow'') (JArray allow) section)) result, claim)))))"

definition merge_env :: "json \<Rightarrow> fields_list \<Rightarrow> InstallError + fields_list" where
  "merge_env rendered result =
     res_bind (as_object_or ''settings env must be an object'' (case json_get (lit ''env'') rendered of None \<Rightarrow> JObject [] | Some v \<Rightarrow> v)) (\<lambda>new.
     res_bind (as_object_or ''settings env must be an object'' (entry_or (lit ''env'') (JObject []) result)) (\<lambda>env.
       Inr (put_field (lit ''env'') (JObject (fold (\<lambda>(k, v) env. if map_of env k = None then env @ [(k, v)] else env) new env)) result)))"

definition merge_plain :: "json \<Rightarrow> ucs \<Rightarrow> fields_list \<Rightarrow> fields_list" where
  "merge_plain rendered key result =
     (if map_of result key \<noteq> None then result
      else case json_get key rendered of None \<Rightarrow> result | Some v \<Rightarrow> put_field key v result)"

definition merge_settings_document :: "(json \<Rightarrow> ucs) \<Rightarrow> json \<Rightarrow> json \<Rightarrow> ucs \<Rightarrow> ucs \<Rightarrow> HookCommands \<Rightarrow> SettingsClaim option \<Rightarrow> InstallError + json \<times> SettingsClaim" where
  "merge_settings_document render existing template claude_root remy_root commands prior_claim =
     (case as_object existing of None \<Rightarrow> Inl (Metadata ''settings.json must be an object'')
      | Some result \<Rightarrow>
          (let rendered = render_template template claude_root commands in
           res_bind (case prior_claim of None \<Rightarrow> Inr () | Some claim \<Rightarrow> verify_settings_claim render existing claim) (\<lambda>_.
           res_bind (remove_prior_target_hooks render claude_root remy_root prior_claim result) (\<lambda>result.
           res_bind (merge_hooks render rendered result) (\<lambda>merged.
           res_bind (merge_permissions rendered prior_claim merged) (\<lambda>(result, claim).
           res_bind (merge_env rendered result) (\<lambda>result.
             let result = merge_plain rendered (lit ''spinnerTipsEnabled'') (merge_plain rendered (lit ''outputStyle'') result)
             in Inr (JObject (swap_remove (lit ''mcpServers'') result), claim))))))))"

section \<open>Removing a claim\<close>

definition drop_command :: "(json \<Rightarrow> ucs) \<Rightarrow> ClaimedHook \<Rightarrow> json \<Rightarrow> json" where
  "drop_command render item entry =
     (case entry of JObject m \<Rightarrow>
        (if string_view render (map_of m (lit ''matcher'')) \<noteq> ch_matcher item then entry
         else case field_array (lit ''hooks'') m of None \<Rightarrow> entry
           | Some l \<Rightarrow> JObject (put_field (lit ''hooks'') (JArray (filter (\<lambda>hook. hook_command hook \<noteq> Some (ch_command item)) l)) m))
      | _ \<Rightarrow> entry)"

definition remove_claimed :: "(json \<Rightarrow> ucs) \<Rightarrow> ClaimedHook \<Rightarrow> fields_list \<Rightarrow> fields_list" where
  "remove_claimed render item hooks =
     (case field_array (ch_event item) hooks of None \<Rightarrow> hooks
      | Some entries \<Rightarrow>
          (let entries = retain_nonempty_entries (map (drop_command render item) entries)
           in if entries = [] then swap_remove (ch_event item) hooks else put_field (ch_event item) (JArray entries) hooks))"

definition remove_hooks :: "(json \<Rightarrow> ucs) \<Rightarrow> SettingsClaim \<Rightarrow> fields_list \<Rightarrow> fields_list" where
  "remove_hooks render claim result =
     (case Option.bind (map_of result (lit ''hooks'')) as_object of None \<Rightarrow> result
      | Some hooks \<Rightarrow>
          (let hooks = fold (remove_claimed render) (cl_hooks claim) hooks
           in if hooks = [] then swap_remove (lit ''hooks'') result else put_field (lit ''hooks'') (JObject hooks) result))"

definition remove_permissions :: "SettingsClaim \<Rightarrow> fields_list \<Rightarrow> fields_list" where
  "remove_permissions claim result =
     (case Option.bind (map_of result (lit ''permissions'')) as_object of None \<Rightarrow> result
      | Some permissions \<Rightarrow>
          (let permissions = (case field_array (lit ''allow'') permissions of None \<Rightarrow> permissions
               | Some allow \<Rightarrow>
                   (let allow = filter (\<lambda>item. case as_str item of None \<Rightarrow> True | Some t \<Rightarrow> t \<notin> set (cl_permissions claim)) allow
                    in if allow = [] then swap_remove (lit ''allow'') permissions else put_field (lit ''allow'') (JArray allow) permissions))
           in if permissions = [] then swap_remove (lit ''permissions'') result else put_field (lit ''permissions'') (JObject permissions) result))"

definition remove_settings_claim_lenient :: "(json \<Rightarrow> ucs) \<Rightarrow> json \<Rightarrow> SettingsClaim \<Rightarrow> json" where
  "remove_settings_claim_lenient render existing claim =
     (case as_object existing of None \<Rightarrow> existing
      | Some result \<Rightarrow> JObject (remove_permissions claim (remove_hooks render claim result)))"

end
