(* ===== verification/Manifest.thy ===== *)
theory Manifest
  imports InstallSettings
begin

text \<open>
  The manifest of an installation, \<^verbatim>\<open>remy-cc/src/install/manifest.rs\<close>: its rendering, the validation of the current
  schema, the acceptance of the previous one, and what is written and loaded.  The file is the document it holds, absent
  when there is none; the text of the document is the JSON library's.
\<close>

section \<open>Records\<close>

record FileRecord =
  fr_root :: ucs
  fr_path :: ucs
  fr_sha256 :: ucs
  fr_role :: ucs

record Manifest =
  mf_suite_version :: ucs
  mf_installed_at :: ucs
  mf_artifact_sha256 :: "ucs option"
  mf_files :: "FileRecord list"
  mf_settings_claim :: SettingsClaim

datatype LoadedManifest = CurrentManifest Manifest | V3Migration Manifest

definition MANIFEST_SCHEMA_VERSION :: nat where "MANIFEST_SCHEMA_VERSION = 4"
definition V3_SCHEMA_VERSION :: nat where "V3_SCHEMA_VERSION = 3"
definition OWNER :: ucs where "OWNER = lit ''remy-cc''"
definition ROOT_CLAUDE :: ucs where "ROOT_CLAUDE = lit ''claude''"
definition ROOT_REMY :: ucs where "ROOT_REMY = lit ''remy''"

definition record_to_value :: "FileRecord \<Rightarrow> json" where
  "record_to_value r = JObject
     [(lit ''root'', JString (fr_root r)), (lit ''path'', JString (fr_path r)), (lit ''sha256'', JString (fr_sha256 r)),
      (lit ''owner'', JString OWNER), (lit ''role'', JString (fr_role r))]"

definition manifest_to_value :: "Manifest \<Rightarrow> json" where
  "manifest_to_value m = JObject
     [(lit ''schema_version'', JNumber (NInt (int MANIFEST_SCHEMA_VERSION))),
      (lit ''suite_version'', JString (mf_suite_version m)),
      (lit ''installed_at'', JString (mf_installed_at m)),
      (lit ''artifact_sha256'', (case mf_artifact_sha256 m of None \<Rightarrow> JNull | Some d \<Rightarrow> JString d)),
      (lit ''files'', JArray (map record_to_value (mf_files m))),
      (lit ''settings_claim'', claim_to_value (mf_settings_claim m))]"

section \<open>Validation\<close>

definition lower_hex :: "nat \<Rightarrow> bool" where
  "lower_hex c \<longleftrightarrow> 48 \<le> c \<and> c \<le> 57 \<or> 97 \<le> c \<and> c \<le> 102"

definition is_sha256 :: "ucs \<Rightarrow> bool" where
  "is_sha256 digest \<longleftrightarrow> length digest = 64 \<and> list_all lower_hex digest"

text \<open>The components of a relative path are its non-empty pieces; a dot counts at the front only.\<close>

definition all_normal :: "ucs \<Rightarrow> bool" where
  "all_normal t \<longleftrightarrow> hd (split_on 47 t) \<noteq> [46] \<and> [46, 46] \<notin> set (split_on 47 t)"

definition normalize_relative_path :: "ucs \<Rightarrow> InstallError + ucs" where
  "normalize_relative_path t =
     (if t = [] \<or> 92 \<in> set t \<or> starts_with [47] t \<or> (case t of a # b # _ \<Rightarrow> a < 128 \<and> b = 58 | _ \<Rightarrow> False) \<or> \<not> all_normal t
      then Inl (Metadata ''managed path must be a non-empty POSIX relative path'') else Inr t)"

definition expect_keys :: "json \<Rightarrow> string list \<Rightarrow> InstallError + fields_list" where
  "expect_keys v expected =
     (case as_object v of None \<Rightarrow> Inl (Metadata ''unsupported manifest schema'')
      | Some m \<Rightarrow> if length m \<noteq> length expected \<or> \<not> list_all (\<lambda>k. map_of m (lit k) \<noteq> None) expected
                  then Inl (Metadata ''unsupported manifest schema'') else Inr m)"

definition record_object :: "json \<Rightarrow> fields_list option" where
  "record_object raw =
     (case as_object raw of None \<Rightarrow> None
      | Some m \<Rightarrow> if length m = 5 \<and> list_all (\<lambda>k. map_of m (lit k) \<noteq> None) [''root'', ''path'', ''sha256'', ''owner'', ''role''] then Some m else None)"

definition str_field :: "fields_list \<Rightarrow> string \<Rightarrow> ucs option" where
  "str_field m k = Option.bind (map_of m (lit k)) as_str"

definition file_record :: "json \<Rightarrow> (ucs \<times> ucs) list \<Rightarrow> InstallError + FileRecord" where
  "file_record raw seen =
     (case record_object raw of None \<Rightarrow> Inl (Metadata ''invalid manifest file record'')
      | Some m \<Rightarrow>
          (case (str_field m ''root'', str_field m ''path'', str_field m ''sha256'', str_field m ''owner'', str_field m ''role'') of
             (Some r, Some path, Some digest, Some owner, Some role) \<Rightarrow>
               (if (r \<noteq> ROOT_CLAUDE \<and> r \<noteq> ROOT_REMY) \<or> path = [] \<or> digest = [] \<or> owner = [] \<or> role = []
                then Inl (Metadata ''invalid manifest file identity'')
                else if owner \<noteq> OWNER then Inl (Metadata ''invalid manifest owner'')
                else res_bind (normalize_relative_path path) (\<lambda>normalized.
                  if \<not> is_sha256 digest then Inl (Metadata ''invalid manifest sha256'')
                  else if (r, normalized) \<in> set seen then Inl (Metadata ''duplicate manifest file record'')
                  else Inr \<lparr>fr_root = r, fr_path = normalized, fr_sha256 = digest, fr_role = role\<rparr>))
           | _ \<Rightarrow> Inl (Metadata ''invalid manifest file identity'')))"

fun file_records :: "json list \<Rightarrow> (ucs \<times> ucs) list \<Rightarrow> InstallError + FileRecord list" where
  "file_records [] seen = Inr []"
| "file_records (raw # rest) seen =
     res_bind (file_record raw seen) (\<lambda>r. res_bind (file_records rest ((fr_root r, fr_path r) # seen)) (\<lambda>rs. Inr (r # rs)))"

definition shared_fields :: "fields_list \<Rightarrow> ucs option \<Rightarrow> InstallError + Manifest" where
  "shared_fields m artifact =
     (case (str_field m ''suite_version'', str_field m ''installed_at'') of
        (Some suite, Some at) \<Rightarrow>
          (case field_array (lit ''files'') m of None \<Rightarrow> Inl (Metadata ''manifest files must be an array'')
           | Some raw \<Rightarrow>
               res_bind (file_records raw []) (\<lambda>files.
               res_bind (claim_from_value (case map_of m (lit ''settings_claim'') of None \<Rightarrow> JNull | Some v \<Rightarrow> v)) (\<lambda>claim.
                 Inr \<lparr>mf_suite_version = suite, mf_installed_at = at, mf_artifact_sha256 = artifact, mf_files = files, mf_settings_claim = claim\<rparr>)))
      | _ \<Rightarrow> Inl (Metadata ''invalid manifest identity fields''))"

definition schema_version :: "fields_list \<Rightarrow> nat option" where
  "schema_version m = Option.bind (map_of m (lit ''schema_version'')) as_u64"

definition validate_v4 :: "json \<Rightarrow> InstallError + Manifest" where
  "validate_v4 v =
     res_bind (expect_keys v [''schema_version'', ''suite_version'', ''installed_at'', ''artifact_sha256'', ''files'', ''settings_claim'']) (\<lambda>m.
       if schema_version m \<noteq> Some MANIFEST_SCHEMA_VERSION then Inl (Metadata ''unsupported manifest schema'')
       else (case map_of m (lit ''artifact_sha256'') of
               Some JNull \<Rightarrow> shared_fields m None
             | Some (JString digest) \<Rightarrow> if is_sha256 digest then shared_fields m (Some digest) else Inl (Metadata ''invalid manifest artifact_sha256'')
             | _ \<Rightarrow> Inl (Metadata ''invalid manifest artifact_sha256'')))"

definition parse_v3 :: "json \<Rightarrow> InstallError + Manifest" where
  "parse_v3 v =
     res_bind (expect_keys v [''schema_version'', ''suite_version'', ''hook_mode'', ''installed_at'', ''files'', ''settings_claim'']) (\<lambda>m.
       if schema_version m \<noteq> Some V3_SCHEMA_VERSION then Inl (Metadata ''unsupported manifest schema'')
       else if str_field m ''hook_mode'' \<notin> {Some (lit ''python''), Some (lit ''rust'')} then Inl (Metadata ''invalid manifest hook_mode'')
       else shared_fields m None)"

section \<open>The file\<close>

text \<open>The canonical form of a document sorts the keys of every object.\<close>

fun sorted_keys :: "json \<Rightarrow> json" where
  "sorted_keys (JObject m) = JObject (sort_key fst (map (\<lambda>(k, v). (k, sorted_keys v)) m))"
| "sorted_keys (JArray xs) = JArray (map sorted_keys xs)"
| "sorted_keys v = v"

definition canonical_json :: "(json \<Rightarrow> ucs) \<Rightarrow> json \<Rightarrow> ucs" where
  "canonical_json pretty document = pretty (sorted_keys document) @ [10]"

definition load_json :: "(ucs \<Rightarrow> json option) \<Rightarrow> ucs \<Rightarrow> InstallError + json" where
  "load_json parse text =
     (case parse text of None \<Rightarrow> Inl (Metadata ''invalid managed metadata: manifest.json'')
      | Some v \<Rightarrow> if as_object v = None then Inl (Metadata ''managed metadata must be a JSON object'') else Inr v)"

definition write_manifest :: "(json \<Rightarrow> ucs) \<Rightarrow> Manifest \<Rightarrow> InstallError + ucs" where
  "write_manifest pretty m = res_bind (validate_v4 (manifest_to_value m)) (\<lambda>_. Inr (canonical_json pretty (manifest_to_value m)))"

definition load_manifest :: "(ucs \<Rightarrow> json option) \<Rightarrow> ucs option \<Rightarrow> InstallError + LoadedManifest option" where
  "load_manifest parse stored =
     (case stored of None \<Rightarrow> Inr None
      | Some text \<Rightarrow> res_bind (load_json parse text) (\<lambda>v.
          let version = Option.bind (json_get (lit ''schema_version'') v) as_u64
          in if version = Some MANIFEST_SCHEMA_VERSION then res_bind (validate_v4 v) (\<lambda>m. Inr (Some (CurrentManifest m)))
             else if version = Some V3_SCHEMA_VERSION then res_bind (parse_v3 v) (\<lambda>m. Inr (Some (V3Migration m)))
             else Inl (Metadata ''unsupported manifest schema'')))"

section \<open>The canonical form\<close>

lemma sorted_keys_get:
  assumes "distinct (map fst m)"
  shows "\<exists>m'. sorted_keys (JObject m) = JObject m' \<and> length m' = length m \<and> (\<forall>k. map_of m' k = map_option sorted_keys (map_of m k))"
proof -
  let ?m = "map (\<lambda>(k, v). (k, sorted_keys v)) m"
  have keys: "map fst ?m = map fst m" by (simp add: comp_def case_prod_beta)
  have "set (sort_key fst ?m) = set ?m" by simp
  moreover have "distinct (map fst (sort_key fst ?m))"
  proof -
    have "mset (map fst (sort_key fst ?m)) = mset (map fst ?m)" by (simp only: mset_map mset_sort)
    then show ?thesis using assms keys by (metis mset_eq_imp_distinct_iff)
  qed
  ultimately have "map_of (sort_key fst ?m) = map_of ?m" using assms keys by (metis map_of_inject_set)
  moreover have "map_of ?m k = map_option sorted_keys (map_of m k)" for k
    by (induction m) auto
  ultimately show ?thesis by (intro exI [of _ "sort_key fst ?m"]) simp
qed

section \<open>Round trip\<close>

definition record_ok :: "FileRecord \<Rightarrow> bool" where
  "record_ok r \<longleftrightarrow> fr_root r \<in> {ROOT_CLAUDE, ROOT_REMY} \<and> is_ok (normalize_relative_path (fr_path r)) \<and> is_sha256 (fr_sha256 r) \<and> fr_role r \<noteq> []"

definition manifest_ok :: "Manifest \<Rightarrow> bool" where
  "manifest_ok m \<longleftrightarrow> list_all record_ok (mf_files m) \<and> distinct (map (\<lambda>r. (fr_root r, fr_path r)) (mf_files m)) \<and>
     (case mf_artifact_sha256 m of None \<Rightarrow> True | Some d \<Rightarrow> is_sha256 d)"

text \<open>The document of a value in any order of its keys: rendered, or rendered and sorted.\<close>

definition rendered :: "bool \<Rightarrow> json \<Rightarrow> json" where
  "rendered canonical v = (if canonical then sorted_keys v else v)"

lemma rendered_simps [simp]: "rendered b (JString t) = JString t" "rendered b (JNumber n) = JNumber n" "rendered b JNull = JNull"
  "rendered b (JArray xs) = JArray (map (rendered b) xs)"
  by (cases b; simp add: rendered_def [abs_def])+

lemma rendered_object:
  assumes "distinct (map fst m)"
  obtains m' where "rendered b (JObject m) = JObject m'" "length m' = length m" "\<And>k. map_of m' k = map_option (rendered b) (map_of m k)"
proof (cases b)
  case True
  then show ?thesis using sorted_keys_get [OF assms] that by (auto simp: rendered_def [abs_def])
next
  case False
  then show ?thesis using that [of m] by (simp add: rendered_def [abs_def] option.map_ident)
qed

lemma hook_rendered: "hook_from_value (rendered b (hook_to_value h)) = Inr h"
proof -
  have "distinct (map fst [(lit ''event'', JString (ch_event h)), (lit ''matcher'', JString (ch_matcher h)), (lit ''command'', JString (ch_command h))])"
    by (simp add: lit_eq)
  then obtain m' where m': "rendered b (hook_to_value h) = JObject m'"
    "\<And>k. map_of m' k = map_option (rendered b) (map_of [(lit ''event'', JString (ch_event h)), (lit ''matcher'', JString (ch_matcher h)), (lit ''command'', JString (ch_command h))] k)"
    unfolding hook_to_value_def by (rule rendered_object [of _ b]) blast
  show ?thesis unfolding m'(1) hook_from_value_def by (simp add: json_access_defs m'(2) lit_eq)
qed

lemma claim_rendered: "claim_from_value (rendered b (claim_to_value c)) = Inr c"
proof -
  have hooks: "res_collect hook_from_value (map (rendered b) (map hook_to_value hs)) = Inr hs" for hs
    by (induction hs) (simp_all add: hook_rendered)
  have permissions: "res_collect permission_from_value (map JString ps) = Inr ps" for ps
    by (induction ps) (simp_all add: permission_from_value_def as_str_def)
  let ?m = "[(lit ''hooks'', JArray (map hook_to_value (cl_hooks c))), (lit ''permissions'', JArray (map JString (cl_permissions c)))]"
  have "distinct (map fst ?m)" by (simp add: lit_eq)
  then obtain m' where m': "rendered b (claim_to_value c) = JObject m'" "\<And>k. map_of m' k = map_option (rendered b) (map_of ?m k)"
    unfolding claim_to_value_def by (rule rendered_object [of _ b]) blast
  show ?thesis unfolding m'(1) claim_from_value_def
    using hooks [unfolded map_map] by (simp add: json_access_defs field_array_def m'(2) lit_eq permissions res_bind_def comp_def)
qed

lemma file_record_fields:
  assumes "length m = 5" "map_of m (lit ''root'') = Some (JString r)" "map_of m (lit ''path'') = Some (JString path)"
    "map_of m (lit ''sha256'') = Some (JString digest)" "map_of m (lit ''owner'') = Some (JString OWNER)" "map_of m (lit ''role'') = Some (JString role)"
  shows "file_record (JObject m) seen = Inr r' \<longleftrightarrow> r' = \<lparr>fr_root = r, fr_path = path, fr_sha256 = digest, fr_role = role\<rparr> \<and> record_ok r' \<and> (r, path) \<notin> set seen"
proof -
  have fields: "record_object (JObject m) = Some m" "str_field m ''root'' = Some r" "str_field m ''path'' = Some path" "str_field m ''sha256'' = Some digest"
      "str_field m ''owner'' = Some OWNER" "str_field m ''role'' = Some role"
    using assms by (simp_all add: record_object_def str_field_def json_access_defs)
  have path: "is_ok (normalize_relative_path t) \<longleftrightarrow> normalize_relative_path t = Inr t" for t
    by (simp add: normalize_relative_path_def is_ok_def)
  have path': "normalize_relative_path t = Inr t \<or> (\<exists>e. normalize_relative_path t = Inl e)" for t
    by (simp add: normalize_relative_path_def)
  have no: "normalize_relative_path [] \<noteq> Inr []" "\<not> is_sha256 []" "OWNER \<noteq> []"
    by (simp_all add: normalize_relative_path_def is_sha256_def OWNER_def lit_def)
  show ?thesis
  proof (cases "normalize_relative_path path = Inr path \<and> path \<noteq> [] \<and> digest \<noteq> []")
    case True
    then show ?thesis unfolding file_record_def fields option.case prod.case using no(3) by (auto simp: record_ok_def path res_bind_def)
  next
    case False
    then have "\<not> record_ok \<lparr>fr_root = r, fr_path = path, fr_sha256 = digest, fr_role = role\<rparr>" using no by (auto simp: record_ok_def path)
    moreover have "file_record (JObject m) seen \<noteq> Inr r'"
      unfolding file_record_def fields option.case prod.case using False path' [of path] no(3) by (auto simp: res_bind_def)
    ultimately show ?thesis by auto
  qed
qed

lemma record_rendered:
  "file_record (rendered b (record_to_value r)) seen = Inr r' \<longleftrightarrow> r' = r \<and> record_ok r \<and> (fr_root r, fr_path r) \<notin> set seen"
proof -
  let ?m = "[(lit ''root'', JString (fr_root r)), (lit ''path'', JString (fr_path r)), (lit ''sha256'', JString (fr_sha256 r)),
      (lit ''owner'', JString OWNER), (lit ''role'', JString (fr_role r))]"
  have "distinct (map fst ?m)" by (simp add: lit_eq)
  then obtain m' where m': "rendered b (record_to_value r) = JObject m'" "length m' = length ?m" "\<And>k. map_of m' k = map_option (rendered b) (map_of ?m k)"
    unfolding record_to_value_def by (rule rendered_object [of _ b]) blast
  have "file_record (JObject m') seen = Inr r' \<longleftrightarrow>
      r' = \<lparr>fr_root = fr_root r, fr_path = fr_path r, fr_sha256 = fr_sha256 r, fr_role = fr_role r\<rparr> \<and> record_ok r' \<and> (fr_root r, fr_path r) \<notin> set seen"
    by (rule file_record_fields) (simp_all add: m'(2,3) lit_eq)
  moreover have "\<lparr>fr_root = fr_root r, fr_path = fr_path r, fr_sha256 = fr_sha256 r, fr_role = fr_role r\<rparr> = r" by (cases r) simp
  ultimately show ?thesis unfolding m'(1) by auto
qed

lemma records_rendered:
  "file_records (map (rendered b) (map record_to_value rs)) seen = Inr rs' \<longleftrightarrow>
     rs' = rs \<and> list_all record_ok rs \<and> distinct (map (\<lambda>r. (fr_root r, fr_path r)) rs) \<and> (\<forall>r \<in> set rs. (fr_root r, fr_path r) \<notin> set seen)"
proof (induction rs arbitrary: seen rs')
  case (Cons r rs)
  have "file_records (map (rendered b) (map record_to_value (r # rs))) seen = Inr rs' \<longleftrightarrow>
      (\<exists>q qs. file_record (rendered b (record_to_value r)) seen = Inr q \<and>
         file_records (map (rendered b) (map record_to_value rs)) ((fr_root q, fr_path q) # seen) = Inr qs \<and> rs' = q # qs)"
    by (auto simp: res_bind_def split: sum.splits)
  moreover have "distinct (map (\<lambda>r. (fr_root r, fr_path r)) (r # rs)) \<longleftrightarrow>
      (\<forall>q \<in> set rs. (fr_root q, fr_path q) \<noteq> (fr_root r, fr_path r)) \<and> distinct (map (\<lambda>r. (fr_root r, fr_path r)) rs)"
    by (simp only: list.map distinct.simps set_map image_iff) metis
  ultimately show ?case unfolding record_rendered Cons.IH by (simp only: list.pred_inject list.set ball_simps insert_iff) blast
qed auto

lemma validated_ok:
  assumes "file_records raw seen = Inr rs"
  shows "list_all record_ok rs \<and> distinct (map (\<lambda>r. (fr_root r, fr_path r)) rs) \<and> (\<forall>r \<in> set rs. (fr_root r, fr_path r) \<notin> set seen)"
  using assms
proof (induction raw arbitrary: seen rs)
  case (Cons v raw)
  obtain r qs where step: "file_record v seen = Inr r" "file_records raw ((fr_root r, fr_path r) # seen) = Inr qs" "rs = r # qs"
    using Cons.prems by (auto simp: res_bind_def split: sum.splits)
  have norm: "normalize_relative_path t = Inr u \<Longrightarrow> normalize_relative_path u = Inr u" for t u by (auto simp: normalize_relative_path_def split: if_splits)
  have "record_ok r \<and> (fr_root r, fr_path r) \<notin> set seen"
    using step(1) by (auto simp: file_record_def res_bind_def record_ok_def is_ok_def dest: norm split: option.splits if_splits sum.splits)
  then show ?case using Cons.IH [OF step(2)] by (auto simp: step(3))
qed simp

lemma shared_ok: "shared_fields m a = Inr mf \<Longrightarrow> mf_artifact_sha256 mf = a \<and> list_all record_ok (mf_files mf) \<and> distinct (map (\<lambda>r. (fr_root r, fr_path r)) (mf_files mf))"
  by (auto simp: shared_fields_def res_bind_def dest: validated_ok split: option.splits sum.splits)

lemma validate_ok: "validate_v4 v = Inr mf \<Longrightarrow> manifest_ok mf"
  by (auto simp: validate_v4_def res_bind_def manifest_ok_def dest!: shared_ok split: sum.splits if_splits option.splits json_value.splits)

lemma validate_rendered: "validate_v4 (rendered b (manifest_to_value m)) = Inr m' \<longleftrightarrow> m' = m \<and> manifest_ok m"
proof -
  let ?fields = "[(lit ''schema_version'', JNumber (NInt (int MANIFEST_SCHEMA_VERSION))), (lit ''suite_version'', JString (mf_suite_version m)),
      (lit ''installed_at'', JString (mf_installed_at m)), (lit ''artifact_sha256'', (case mf_artifact_sha256 m of None \<Rightarrow> JNull | Some d \<Rightarrow> JString d)),
      (lit ''files'', JArray (map record_to_value (mf_files m))), (lit ''settings_claim'', claim_to_value (mf_settings_claim m))]"
  have "distinct (map fst ?fields)" by (simp add: lit_eq)
  then obtain f where f: "rendered b (manifest_to_value m) = JObject f" "length f = length ?fields" "\<And>k. map_of f k = map_option (rendered b) (map_of ?fields k)"
    unfolding manifest_to_value_def by (rule rendered_object [of _ b]) blast
  have keys: "expect_keys (JObject f) [''schema_version'', ''suite_version'', ''installed_at'', ''artifact_sha256'', ''files'', ''settings_claim''] = Inr f"
    using f(2) by (simp add: expect_keys_def f(3) lit_eq as_object_def)
  have version: "schema_version f = Some MANIFEST_SCHEMA_VERSION"
    by (simp add: schema_version_def f(3) as_u64_def MANIFEST_SCHEMA_VERSION_def)
  have shared: "shared_fields f a = Inr m' \<longleftrightarrow> m' = m\<lparr>mf_artifact_sha256 := a\<rparr> \<and> list_all record_ok (mf_files m) \<and> distinct (map (\<lambda>r. (fr_root r, fr_path r)) (mf_files m))" for a
  proof -
    have parts: "str_field f ''suite_version'' = Some (mf_suite_version m)" "str_field f ''installed_at'' = Some (mf_installed_at m)"
      "field_array (lit ''files'') f = Some (map (rendered b) (map record_to_value (mf_files m)))"
      "map_of f (lit ''settings_claim'') = Some (rendered b (claim_to_value (mf_settings_claim m)))"
      by (simp_all add: str_field_def field_array_def f(3) lit_eq as_str_def as_array_def)
    show ?thesis
    proof (cases "file_records (map (rendered b) (map record_to_value (mf_files m))) []")
      case (Inl e)
      then have "\<not> (list_all record_ok (mf_files m) \<and> distinct (map (\<lambda>r. (fr_root r, fr_path r)) (mf_files m)))"
        using records_rendered [of b "mf_files m" "[]" "mf_files m"] by auto
      then show ?thesis unfolding shared_fields_def parts option.case prod.case Inl res_bind_def sum.case by auto
    next
      case (Inr rs)
      then have "rs = mf_files m \<and> list_all record_ok (mf_files m) \<and> distinct (map (\<lambda>r. (fr_root r, fr_path r)) (mf_files m))"
        using records_rendered [of b "mf_files m" "[]" rs] by blast
      then show ?thesis unfolding shared_fields_def parts option.case prod.case Inr claim_rendered res_bind_def sum.case by auto
    qed
  qed
  have artifact: "map_of f (lit ''artifact_sha256'') = Some (case mf_artifact_sha256 m of None \<Rightarrow> JNull | Some d \<Rightarrow> JString d)"
    by (simp add: f(3) lit_eq split: option.split)
  show ?thesis unfolding validate_v4_def f(1) keys
    by (cases "mf_artifact_sha256 m") (auto simp: res_bind_def version artifact shared manifest_ok_def)
qed

lemma written_loads:
  assumes "parse (canonical_json pretty (manifest_to_value m)) = Some (sorted_keys (manifest_to_value m))"
  shows "case write_manifest pretty m of Inl _ \<Rightarrow> \<not> manifest_ok m
    | Inr text \<Rightarrow> manifest_ok m \<and> text = canonical_json pretty (manifest_to_value m) \<and> load_manifest parse (Some text) = Inr (Some (CurrentManifest m))"
proof -
  have plain: "validate_v4 (manifest_to_value m) = Inr m' \<longleftrightarrow> m' = m \<and> manifest_ok m" for m'
    using validate_rendered [of False m m'] by (simp add: rendered_def)
  have sorted: "validate_v4 (sorted_keys (manifest_to_value m)) = Inr m' \<longleftrightarrow> m' = m \<and> manifest_ok m" for m'
    using validate_rendered [of True m m'] by (simp add: rendered_def)
  show ?thesis
  proof (cases "manifest_ok m")
    case True
    have read: "validate_v4 (sorted_keys (manifest_to_value m)) = Inr m" using sorted True by blast
    obtain f where f: "sorted_keys (manifest_to_value m) = JObject f" by (simp add: manifest_to_value_def)
    have version: "Option.bind (json_get (lit ''schema_version'') (JObject f)) as_u64 = Some MANIFEST_SCHEMA_VERSION"
    proof (rule ccontr)
      assume "Option.bind (json_get (lit ''schema_version'') (JObject f)) as_u64 \<noteq> Some MANIFEST_SCHEMA_VERSION"
      then have "validate_v4 (JObject f) \<noteq> Inr m"
        by (auto simp: validate_v4_def expect_keys_def json_access_defs schema_version_def res_bind_def)
      then show False using read f by simp
    qed
    have "write_manifest pretty m = Inr (canonical_json pretty (manifest_to_value m))"
      using plain [of m] True by (simp add: write_manifest_def res_bind_def)
    moreover have "load_manifest parse (Some (canonical_json pretty (manifest_to_value m))) = Inr (Some (CurrentManifest m))"
      using read version by (simp add: load_manifest_def load_json_def assms f as_object_def res_bind_def)
    ultimately show ?thesis using True by simp
  next
    case False
    then obtain e where "validate_v4 (manifest_to_value m) = Inl e" using plain by (metis sum.exhaust)
    then show ?thesis using False by (simp add: write_manifest_def res_bind_def)
  qed
qed

text \<open>C22.  A manifest is written only when it is valid - every file under a known root at a relative path with a digest and a
  role, no file twice, and the digest of the artifact well formed - and what is written loads as the same manifest, in
  its canonical key order; validation never lets an invalid one through.\<close>

theorem manifest_write_load:
  assumes "parse (canonical_json pretty (manifest_to_value m)) = Some (sorted_keys (manifest_to_value m))"
  shows "(case write_manifest pretty m of Inl _ \<Rightarrow> \<not> manifest_ok m
      | Inr text \<Rightarrow> manifest_ok m \<and> load_manifest parse (Some text) = Inr (Some (CurrentManifest m))) \<and>
    (\<forall>v. validate_v4 v = Inr m \<longrightarrow> manifest_ok m)"
  using written_loads [of parse pretty m, OF assms] validate_ok by (auto split: sum.splits)

definition demo_manifest :: "string list \<Rightarrow> Manifest" where
  "demo_manifest paths = \<lparr>mf_suite_version = lit ''4'', mf_installed_at = lit ''t'', mf_artifact_sha256 = None,
     mf_files = map (\<lambda>path. \<lparr>fr_root = ROOT_CLAUDE, fr_path = lit path, fr_sha256 = replicate 64 48, fr_role = lit ''r''\<rparr>) paths,
     mf_settings_claim = \<lparr>cl_hooks = [], cl_permissions = []\<rparr>\<rparr>"

lemma demo_digest: "is_sha256 (replicate 64 48)"
  by (simp add: is_sha256_def list_all_length lower_hex_def)

lemma demo_path: "normalize_relative_path (lit ''a/b'') = Inr (lit ''a/b'')" "normalize_relative_path (lit ''a/./b'') = Inr (lit ''a/./b'')"
  by (simp_all add: normalize_relative_path_def lit_def starts_with_def all_normal_def)

lemma demo_manifest_ok: "manifest_ok (demo_manifest [''a/b'', ''a/./b''])"
  by (simp add: manifest_ok_def demo_manifest_def record_ok_def demo_digest demo_path is_ok_def lit_eq) (simp add: lit_def)

theorem manifest_write_load_witness:
  "\<exists>text. write_manifest (\<lambda>_. []) (demo_manifest [''a/b'', ''a/./b'']) = Inr text \<and>
     load_manifest (\<lambda>_. Some (sorted_keys (manifest_to_value (demo_manifest [''a/b'', ''a/./b''])))) (Some text) =
       Inr (Some (CurrentManifest (demo_manifest [''a/b'', ''a/./b''])))"
  using manifest_write_load [of "\<lambda>_. Some (sorted_keys (manifest_to_value (demo_manifest [''a/b'', ''a/./b''])))" "\<lambda>_. []" "demo_manifest [''a/b'', ''a/./b'']"]
    demo_manifest_ok by (auto split: sum.splits)

end
