(* ===== verification/InstallClaims.thy ===== *)
theory InstallClaims
  imports InstallSettings
begin

text \<open>
  What merging, verifying and removing do to a settings document: a document is seen as the set of its hooks, each with
  its event and the matcher of its entry, and the set of its allowed permissions.
\<close>

section \<open>Fields\<close>

lemma map_of_put_field [simp]: "map_of (put_field k v m) j = (if j = k then Some v else map_of m j)"
  by (induction k v m rule: put_field.induct) auto

lemma keys_put_field: "fst ` set (put_field k v m) = insert k (fst ` set m)"
  by (induction k v m rule: put_field.induct) auto

lemma distinct_put_field: "distinct (map fst m) \<Longrightarrow> distinct (map fst (put_field k v m))"
proof (induction k v m rule: put_field.induct)
  case (2 k v j w m)
  then show ?case using keys_put_field [of k v m] by auto
qed simp

lemma swap_remove_perm:
  assumes "distinct (map fst m)"
  shows "set (swap_remove k m) = {f \<in> set m. fst f \<noteq> k} \<and> distinct (map fst (swap_remove k m))"
proof (cases "dropWhile (\<lambda>f. fst f \<noteq> k) m")
  case Nil
  then have "swap_remove k m = m" unfolding swap_remove_def Let_def by (simp only: list.case)
  moreover have "\<forall>f \<in> set m. fst f \<noteq> k" using Nil by (simp add: dropWhile_eq_Nil_conv)
  ultimately show ?thesis using assms by auto
next
  case (Cons f rest)
  let ?front = "takeWhile (\<lambda>f. fst f \<noteq> k) m"
  have m: "m = ?front @ f # rest" using Cons by (metis takeWhile_dropWhile_id)
  have k: "fst f = k" using Cons by (metis (mono_tags) dropWhile_eq_Cons_conv)
  have d: "distinct (map fst (?front @ f # rest))" using assms m by metis
  have split: "rest \<noteq> [] \<Longrightarrow> set (last rest # butlast rest) = set rest" by (cases rest rule: rev_cases) auto
  have perm: "rest \<noteq> [] \<Longrightarrow> distinct (map fst (last rest # butlast rest)) = distinct (map fst rest)"
    by (cases rest rule: rev_cases) auto
  have out: "swap_remove k m = (if rest = [] then ?front else ?front @ last rest # butlast rest)"
    using Cons by (simp add: swap_remove_def Let_def)
  have "set (swap_remove k m) = set ?front \<union> set rest" unfolding out using split by auto
  moreover have "{g \<in> set m. fst g \<noteq> k} = set ?front \<union> set rest"
  proof -
    have "{g \<in> set (?front @ f # rest). fst g \<noteq> k} = set ?front \<union> set rest" using d k by (auto dest: set_takeWhileD) (metis fst_conv image_eqI)
    then show ?thesis using m by metis
  qed
  moreover have "distinct (map fst (swap_remove k m))"
  proof (cases "rest = []")
    case True
    then show ?thesis unfolding out using d by simp
  next
    case False
    have "fst ` set ?front \<inter> fst ` set (last rest # butlast rest) = {}" unfolding split [OF False] using d by auto
    then show ?thesis unfolding out using False d perm [OF False] by (auto simp: image_iff)
  qed
  ultimately show ?thesis by simp
qed

lemma map_of_swap_remove:
  assumes "distinct (map fst m)"
  shows "map_of (swap_remove k m) j = (if j = k then None else map_of m j)"
proof -
  note perm = swap_remove_perm [OF assms, of k]
  have "map_of (swap_remove k m) j = Some v \<longleftrightarrow> j \<noteq> k \<and> map_of m j = Some v" for v
    using perm assms by (auto simp: map_of_eq_Some_iff)
  then show ?thesis by (metis option.exhaust)
qed

lemma field_array_put: "field_array j (put_field k v m) = (if j = k then as_array v else field_array j m)"
  by (simp add: field_array_def)

lemma as_array_simps [simp]: "as_array (JArray xs) = Some xs" "as_array (JObject m) = None" "as_object (JObject m) = Some m" "as_object (JArray xs) = None"
  by (simp_all add: json_access_defs)

lemma as_object_Some: "as_object v = Some m \<longleftrightarrow> v = JObject m"
  by (cases v) (simp_all add: json_access_defs)

lemma as_array_Some: "as_array v = Some xs \<longleftrightarrow> v = JArray xs"
  by (cases v) (simp_all add: json_access_defs)

lemma res_bind_Inr_iff: "res_bind r f = Inr y \<longleftrightarrow> (\<exists>x. r = Inr x \<and> f x = Inr y)"
  by (cases r) (simp_all add: res_bind_def)

lemma res_fold_inv:
  "res_fold f xs s = Inr s' \<Longrightarrow> P s \<Longrightarrow> (\<And>x s s'. x \<in> set xs \<Longrightarrow> P s \<Longrightarrow> f x s = Inr s' \<Longrightarrow> P s') \<Longrightarrow> P s'"
proof (induction xs arbitrary: s)
  case (Cons x xs)
  then obtain t where t: "f x s = Inr t" "res_fold f xs t = Inr s'" by (auto simp: res_bind_Inr_iff)
  have "P t" by (rule Cons.prems(3) [OF _ Cons.prems(2) t(1)]) simp
  then show ?case by (rule Cons.IH [OF t(2)]) (rule Cons.prems(3), simp_all)
qed simp

lemma update_first_cases:
  assumes "update_first P f xs s = Inr (ys, s')"
  shows "(\<exists>pre x post y. xs = pre @ x # post \<and> ys = pre @ y # post \<and> P x \<and> f x = Inr (y, s')) \<or> \<not> list_ex P xs \<and> ys = xs \<and> s' = s"
  using assms
proof (induction xs arbitrary: ys)
  case (Cons x xs)
  show ?case
  proof (cases "P x")
    case True
    then obtain y where "f x = Inr (y, s')" "ys = y # xs" using Cons.prems by (auto simp: res_bind_Inr_iff)
    then show ?thesis using True by (metis append_Nil)
  next
    case False
    then obtain zs where zs: "update_first P f xs s = Inr (zs, s')" "ys = x # zs" using Cons.prems by (auto simp: res_bind_Inr_iff)
    from Cons.IH [OF zs(1)] show ?thesis
    proof
      assume "\<exists>pre z post y. xs = pre @ z # post \<and> zs = pre @ y # post \<and> P z \<and> f z = Inr (y, s')"
      then obtain pre z post y where "x # xs = (x # pre) @ z # post" "ys = (x # pre) @ y # post" "P z" "f z = Inr (y, s')" using zs(2) by auto
      then show ?thesis by blast
    qed (use False zs(2) in simp)
  qed
qed simp

section \<open>The hooks of a document\<close>

type_synonym placed_hook = "ucs \<times> ucs \<times> json"

definition entry_hooks :: "(json \<Rightarrow> ucs) \<Rightarrow> ucs \<Rightarrow> json \<Rightarrow> placed_hook set" where
  "entry_hooks render event entry =
     (case entry of JObject m \<Rightarrow> (case field_array (lit ''hooks'') m of None \<Rightarrow> {}
        | Some l \<Rightarrow> (\<lambda>h. (event, string_view render (map_of m (lit ''matcher'')), h)) ` set l) | _ \<Rightarrow> {})"

definition entries_hooks :: "(json \<Rightarrow> ucs) \<Rightarrow> ucs \<Rightarrow> json list \<Rightarrow> placed_hook set" where
  "entries_hooks render event entries = (\<Union>e \<in> set entries. entry_hooks render event e)"

definition hooks_of :: "(json \<Rightarrow> ucs) \<Rightarrow> fields_list \<Rightarrow> placed_hook set" where
  "hooks_of render hooks = {x. case field_array (fst x) hooks of None \<Rightarrow> False | Some es \<Rightarrow> x \<in> entries_hooks render (fst x) es}"

definition doc_hooks :: "(json \<Rightarrow> ucs) \<Rightarrow> json \<Rightarrow> placed_hook set" where
  "doc_hooks render doc = (case Option.bind (json_get (lit ''hooks'') doc) as_object of None \<Rightarrow> {} | Some hooks \<Rightarrow> hooks_of render hooks)"

definition doc_allowed :: "json \<Rightarrow> json set" where
  "doc_allowed doc = (case Option.bind (Option.bind (json_get (lit ''permissions'') doc) as_object) (field_array (lit ''allow'')) of None \<Rightarrow> {} | Some l \<Rightarrow> set l)"

text \<open>A hook is claimed when the claim names its event, its matcher and its command.\<close>

definition claimed :: "SettingsClaim \<Rightarrow> placed_hook \<Rightarrow> bool" where
  "claimed claim = (\<lambda>(event, matcher, h). list_ex (\<lambda>i. ch_event i = event \<and> ch_matcher i = matcher \<and> hook_command h = Some (ch_command i)) (cl_hooks claim))"

lemma entry_hooks_event: "x \<in> entry_hooks render event e \<Longrightarrow> fst x = event"
  by (auto simp: entry_hooks_def split: json_value.splits option.splits)

lemma entries_hooks_event: "x \<in> entries_hooks render event es \<Longrightarrow> fst x = event"
  by (auto simp: entries_hooks_def dest: entry_hooks_event)

lemma entries_hooks_simps [simp]:
  "entries_hooks render event [] = {}"
  "entries_hooks render event (e # es) = entry_hooks render event e \<union> entries_hooks render event es"
  "entries_hooks render event (es @ fs) = entries_hooks render event es \<union> entries_hooks render event fs"
  by (auto simp: entries_hooks_def)

lemma hooks_of_put:
  "hooks_of render (put_field event (JArray es) hooks) = {x \<in> hooks_of render hooks. fst x \<noteq> event} \<union> entries_hooks render event es"
  by (auto simp: hooks_of_def field_array_put dest: entries_hooks_event split: if_splits)

lemma hooks_of_remove:
  "distinct (map fst hooks) \<Longrightarrow> hooks_of render (swap_remove event hooks) = {x \<in> hooks_of render hooks. fst x \<noteq> event}"
  by (auto simp: hooks_of_def field_array_def map_of_swap_remove split: option.splits)

lemma hooks_of_event: "{x \<in> hooks_of render hooks. fst x = event} = (case field_array event hooks of None \<Rightarrow> {} | Some es \<Rightarrow> entries_hooks render event es)"
proof -
  have "x \<in> hooks_of render hooks \<and> fst x = event \<longleftrightarrow> (\<exists>es. field_array event hooks = Some es \<and> x \<in> entries_hooks render event es)" for x
    using entries_hooks_event by (fastforce simp: hooks_of_def split: option.splits)
  then show ?thesis by (auto split: option.split)
qed

text \<open>Dropping the entries without hooks drops no hook.\<close>

lemma retain_nonempty_hooks: "entries_hooks render event (retain_nonempty_entries es) = entries_hooks render event es"
proof -
  have "entry_hooks render event e = {}" if "\<not> (case Option.bind (json_get (lit ''hooks'') e) as_array of None \<Rightarrow> False | Some l \<Rightarrow> l \<noteq> [])" for e
    using that by (cases e) (auto simp: entry_hooks_def json_get_def field_array_def split: option.splits)
  then show ?thesis by (fastforce simp: entries_hooks_def retain_nonempty_entries_def)
qed

lemma claim_found_iff:
  "claim_found render hooks item \<longleftrightarrow> (\<exists>h. (ch_event item, ch_matcher item, h) \<in> hooks_of render hooks \<and> hook_command h = Some (ch_command item))"
proof -
  have "entry_holds render mt c e \<longleftrightarrow> (\<exists>h. (ev, mt, h) \<in> entry_hooks render ev e \<and> hook_command h = Some c)" for mt c e ev
    by (cases e) (auto simp: entry_holds_def entry_hooks_def json_access_defs list_ex_iff split: option.splits)
  note holds = this [where ev = "ch_event item"]
  show ?thesis unfolding claim_found_def hooks_of_def list_ex_iff holds by (auto simp: entries_hooks_def split: option.split)
qed

section \<open>Merging extends\<close>

text \<open>How a step of the merge changes a set of hooks and the claim: nothing is lost, what is new is claimed, and what is
  newly claimed is there.\<close>

definition extends :: "placed_hook set \<Rightarrow> SettingsClaim \<Rightarrow> placed_hook set \<Rightarrow> SettingsClaim \<Rightarrow> bool" where
  "extends M c M' c' \<longleftrightarrow> M \<subseteq> M' \<and> (\<forall>x \<in> M'. x \<in> M \<or> claimed c' x) \<and> set (cl_hooks c) \<subseteq> set (cl_hooks c') \<and>
     (\<forall>i \<in> set (cl_hooks c'). i \<in> set (cl_hooks c) \<or> (\<exists>h. (ch_event i, ch_matcher i, h) \<in> M' \<and> hook_command h = Some (ch_command i))) \<and>
     cl_permissions c' = cl_permissions c"

lemma claimed_mono: "set (cl_hooks c) \<subseteq> set (cl_hooks c') \<Longrightarrow> claimed c x \<Longrightarrow> claimed c' x"
  by (auto simp: claimed_def list_ex_iff)

lemma extends_refl: "extends M c M c"
  by (auto simp: extends_def)

lemma extends_trans: "extends M c M' c' \<Longrightarrow> extends M' c' M'' c'' \<Longrightarrow> extends M c M'' c''"
  unfolding extends_def using claimed_mono [of c' c''] by (metis subset_iff)

lemma extends_frame: "extends M c M' c' \<Longrightarrow> extends (N \<union> M) c (N \<union> M') c'"
  unfolding extends_def by blast

lemma merge_hook_extends:
  assumes "merge_hook event matcher hook (hooks, claim) = Inr (hooks', claim')"
  shows "extends ((\<lambda>h. (event, matcher, h)) ` set hooks) claim ((\<lambda>h. (event, matcher, h)) ` set hooks') claim'"
proof -
  obtain t where t: "Option.bind (json_get (lit ''command'') hook) as_str = Some t"
    using assms by (auto simp: merge_hook_def split: option.splits)
  then have command: "hook_command hook = Some (ucs_trim t)" by (simp add: hook_command_def)
  let ?i = "\<lparr>ch_event = event, ch_matcher = matcher, ch_command = ucs_trim t\<rparr>"
  have claim': "claim' = claim\<lparr>cl_hooks := cl_hooks claim @ [?i]\<rparr>"
    and hooks': "hooks' = (if list_ex (\<lambda>h. hook_command h = Some (ucs_trim t)) hooks then hooks else hooks @ [hook])"
    using assms t by (auto simp: merge_hook_def Let_def)
  have "claimed claim' (event, matcher, hook)" by (simp add: claimed_def claim' command)
  then have new: "\<forall>x \<in> (\<lambda>h. (event, matcher, h)) ` set hooks'. x \<in> (\<lambda>h. (event, matcher, h)) ` set hooks \<or> claimed claim' x"
    by (auto simp: hooks')
  have "\<exists>h \<in> set hooks'. hook_command h = Some (ucs_trim t)" by (auto simp: hooks' command list_ex_iff)
  then have here: "\<exists>h. (ch_event ?i, ch_matcher ?i, h) \<in> (\<lambda>h. (event, matcher, h)) ` set hooks' \<and> hook_command h = Some (ch_command ?i)" by auto
  have more: "set (cl_hooks claim') = insert ?i (set (cl_hooks claim))" "cl_permissions claim' = cl_permissions claim" by (simp_all add: claim')
  have "set hooks \<subseteq> set hooks'" by (auto simp: hooks')
  then show ?thesis unfolding extends_def more using new here by blast
qed

lemma merge_hooks_list_extends:
  assumes "res_fold (merge_hook event matcher) new (hooks, claim) = Inr (hooks', claim')"
  shows "extends ((\<lambda>h. (event, matcher, h)) ` set hooks) claim ((\<lambda>h. (event, matcher, h)) ` set hooks') claim'"
proof -
  have "case (hooks', claim') of (hs, c) \<Rightarrow> extends ((\<lambda>h. (event, matcher, h)) ` set hooks) claim ((\<lambda>h. (event, matcher, h)) ` set hs) c"
    using assms by (rule res_fold_inv) (auto simp: extends_refl intro: extends_trans merge_hook_extends)
  then show ?thesis by simp
qed

lemma hooks_not_matcher: "lit ''hooks'' \<noteq> lit ''matcher''"
  by (simp add: lit_def)

lemma merge_target_extends:
  assumes "merge_target event matcher new claim item = Inr (item', claim')" "matches_entry render matcher item"
  shows "extends (entry_hooks render event item) claim (entry_hooks render event item') claim'"
proof -
  obtain m where m: "item = JObject m" "string_view render (map_of m (lit ''matcher'')) = matcher"
    using assms(2) by (auto simp: matches_entry_def as_object_Some split: option.splits)
  obtain hooks hooks' where run: "as_array (entry_or (lit ''hooks'') (JArray []) m) = Some hooks"
      "res_fold (merge_hook event matcher) new (hooks, claim) = Inr (hooks', claim')" "item' = JObject (put_field (lit ''hooks'') (JArray hooks') m)"
    using assms(1) by (auto simp: merge_target_def m(1) res_bind_Inr_iff split: option.splits)
  have "entry_hooks render event item = (\<lambda>h. (event, matcher, h)) ` set hooks"
    using run(1) by (auto simp: m entry_hooks_def field_array_def entry_or_def split: option.splits)
  moreover have "entry_hooks render event item' = (\<lambda>h. (event, matcher, h)) ` set hooks'"
    using m(2) hooks_not_matcher by (simp add: run(3) entry_hooks_def field_array_put)
  ultimately show ?thesis using merge_hooks_list_extends [OF run(2)] by simp
qed

lemma merge_entry_extends:
  assumes "merge_entry render event entry (dest, claim) = Inr (dest', claim')"
  shows "extends (entries_hooks render event dest) claim (entries_hooks render event dest') claim'"
proof -
  obtain m where m: "as_object entry = Some m" using assms by (auto simp: merge_entry_def split: option.splits)
  define matcher where "matcher = string_view render (map_of m (lit ''matcher''))"
  define d where "d = (if list_ex (matches_entry render matcher) dest then dest else dest @ [JObject [(lit ''matcher'', JString matcher), (lit ''hooks'', JArray [])]])"
  have same: "entries_hooks render event d = entries_hooks render event dest"
    using hooks_not_matcher by (simp add: d_def entry_hooks_def field_array_def)
  obtain new where run: "update_first (matches_entry render matcher) (merge_target event matcher new claim) d claim = Inr (dest', claim')"
    using assms that unfolding merge_entry_def prod.case m option.case Let_def matcher_def [symmetric] d_def [symmetric] by blast
  from update_first_cases [OF this] show ?thesis
  proof
    assume "\<exists>pre x post y. d = pre @ x # post \<and> dest' = pre @ y # post \<and> matches_entry render matcher x \<and> merge_target event matcher new claim x = Inr (y, claim')"
    then obtain pre x post y where parts: "d = pre @ x # post" "dest' = pre @ y # post" "matches_entry render matcher x" "merge_target event matcher new claim x = Inr (y, claim')"
      by blast
    have "extends ((entries_hooks render event pre \<union> entries_hooks render event post) \<union> entry_hooks render event x) claim
        ((entries_hooks render event pre \<union> entries_hooks render event post) \<union> entry_hooks render event y) claim'"
      by (rule extends_frame) (rule merge_target_extends [OF parts(4,3)])
    then show ?thesis unfolding same [symmetric] parts(1,2) by (simp add: Un_ac)
  next
    assume "\<not> list_ex (matches_entry render matcher) d \<and> dest' = d \<and> claim' = claim"
    then show ?thesis unfolding same [symmetric] by (simp add: extends_refl)
  qed
qed

lemma merge_event_extends:
  assumes "merge_event render (event, entries) (hooks, claim) = Inr (hooks', claim')"
  shows "extends (hooks_of render hooks) claim (hooks_of render hooks') claim' \<and> (distinct (map fst hooks) \<longrightarrow> distinct (map fst hooks'))"
proof -
  obtain es dest dest' where run: "as_array entries = Some es" "as_array (entry_or event (JArray []) hooks) = Some dest"
      "res_fold (merge_entry render event) es (dest, claim) = Inr (dest', claim')" "hooks' = put_field event (JArray dest') hooks"
    using assms by (auto simp: merge_event_def res_bind_Inr_iff split: option.splits)
  have old: "hooks_of render hooks = {x \<in> hooks_of render hooks. fst x \<noteq> event} \<union> entries_hooks render event dest"
  proof -
    have "{x \<in> hooks_of render hooks. fst x = event} = entries_hooks render event dest"
      unfolding hooks_of_event using run(2) by (auto simp: field_array_def entry_or_def as_array_Some split: option.splits)
    then show ?thesis by blast
  qed
  have "case (dest', claim') of (d, c) \<Rightarrow> extends (entries_hooks render event dest) claim (entries_hooks render event d) c"
    using run(3) by (rule res_fold_inv) (auto simp: extends_refl intro: extends_trans merge_entry_extends)
  then have "extends ({x \<in> hooks_of render hooks. fst x \<noteq> event} \<union> entries_hooks render event dest) claim
      ({x \<in> hooks_of render hooks. fst x \<noteq> event} \<union> entries_hooks render event dest') claim'"
    by (intro extends_frame) simp
  then show ?thesis unfolding run(4) hooks_of_put using old by (simp add: distinct_put_field)
qed

section \<open>Hooks of earlier installations\<close>

definition gone :: "ucs \<Rightarrow> ucs \<Rightarrow> ucs list \<Rightarrow> ucs \<times> ucs \<times> ucs \<Rightarrow> placed_hook \<Rightarrow> bool" where
  "gone claude_root remy_root commands = (\<lambda>(event, matcher, script) (e, mt, h).
     e = event \<and> mt = matcher \<and> (case hook_command h of None \<Rightarrow> False | Some c \<Rightarrow> own_command claude_root remy_root commands script c))"

text \<open>The hooks an installation replaces: at the places of the two hooks, with a claimed or a retired command.\<close>

definition own_hook :: "ucs \<Rightarrow> ucs \<Rightarrow> SettingsClaim option \<Rightarrow> placed_hook \<Rightarrow> bool" where
  "own_hook claude_root remy_root prior_claim x \<longleftrightarrow>
     list_ex (\<lambda>target. gone claude_root remy_root (case prior_claim of None \<Rightarrow> [] | Some c \<Rightarrow> map (\<lambda>h. ucs_trim (ch_command h)) (cl_hooks c)) target x) TARGET_HOOKS"

lemma retain_hooks:
  assumes "res_fold (retain_hook cr rr cmds script) l acc = Inr r"
  shows "set r = set acc \<union> {h \<in> set l. \<not> (case hook_command h of None \<Rightarrow> False | Some c \<Rightarrow> own_command cr rr cmds script c)}"
  using assms
proof (induction l arbitrary: acc)
  case (Cons h l)
  then obtain acc' where step: "retain_hook cr rr cmds script h acc = Inr acc'" "res_fold (retain_hook cr rr cmds script) l acc' = Inr r"
    by (auto simp: res_bind_Inr_iff)
  have "set acc' = set acc \<union> {k. k = h \<and> \<not> (case hook_command h of None \<Rightarrow> False | Some c \<Rightarrow> own_command cr rr cmds script c)}"
    using step(1) by (auto simp: retain_hook_def split: option.splits if_splits)
  then show ?case using Cons.IH [OF step(2)] by auto
qed simp

lemma clean_entry_hooks:
  assumes "clean_entry render cr rr cmds matcher script entry = Inr entry'"
  shows "entry_hooks render event entry' = {x \<in> entry_hooks render event entry. \<not> gone cr rr cmds (event, matcher, script) x}"
proof (cases "\<exists>m l. entry = JObject m \<and> string_view render (map_of m (lit ''matcher'')) = matcher \<and> field_array (lit ''hooks'') m = Some l")
  case True
  then obtain m l where m: "entry = JObject m" "string_view render (map_of m (lit ''matcher'')) = matcher" "field_array (lit ''hooks'') m = Some l" by blast
  obtain r where r: "res_fold (retain_hook cr rr cmds script) l [] = Inr r" "entry' = JObject (put_field (lit ''hooks'') (JArray r) m)"
    using assms m by (auto simp: clean_entry_def res_bind_Inr_iff)
  have "entry_hooks render event entry' = (\<lambda>h. (event, matcher, h)) ` set r"
    using m(2) hooks_not_matcher by (simp add: r(2) entry_hooks_def field_array_put)
  moreover have "entry_hooks render event entry = (\<lambda>h. (event, matcher, h)) ` set l" by (simp add: m entry_hooks_def)
  ultimately show ?thesis using retain_hooks [OF r(1)] by (auto simp: gone_def)
next
  case False
  then have "entry' = entry" using assms by (auto simp: clean_entry_def split: json_value.splits option.splits if_splits)
  moreover have "\<not> gone cr rr cmds (event, matcher, script) x" if "x \<in> entry_hooks render event entry" for x
    using that False by (auto simp: entry_hooks_def gone_def split: json_value.splits option.splits)
  ultimately show ?thesis by auto
qed

lemma clean_entries_hooks:
  "res_collect (clean_entry render cr rr cmds matcher script) es = Inr es' \<Longrightarrow>
     entries_hooks render event es' = {x \<in> entries_hooks render event es. \<not> gone cr rr cmds (event, matcher, script) x}"
proof (induction es arbitrary: es')
  case (Cons e es)
  then obtain e' fs where step: "clean_entry render cr rr cmds matcher script e = Inr e'" "res_collect (clean_entry render cr rr cmds matcher script) es = Inr fs" "es' = e' # fs"
    by (auto split: sum.splits)
  show ?case using clean_entry_hooks [OF step(1), of event] Cons.IH [OF step(2)] by (auto simp: step(3))
qed simp

lemma clean_target_hooks:
  assumes "clean_target render cr rr cmds (event, matcher, script) hooks = Inr hooks'" "distinct (map fst hooks)"
  shows "hooks_of render hooks' = {x \<in> hooks_of render hooks. \<not> gone cr rr cmds (event, matcher, script) x} \<and> distinct (map fst hooks')"
proof (cases "field_array event hooks")
  case None
  then have same: "hooks' = hooks" using assms(1) by (simp add: clean_target_def)
  have "\<not> gone cr rr cmds (event, matcher, script) x" if "x \<in> hooks_of render hooks" for x
    using that None by (auto simp: hooks_of_def gone_def)
  then show ?thesis using same assms(2) by auto
next
  case (Some es)
  obtain fs where fs: "res_collect (clean_entry render cr rr cmds matcher script) es = Inr fs"
      "hooks' = (if retain_nonempty_entries fs = [] then swap_remove event hooks else put_field event (JArray (retain_nonempty_entries fs)) hooks)"
    using assms(1) by (auto simp: clean_target_def Some res_bind_Inr_iff Let_def)
  have here: "{x \<in> hooks_of render hooks. fst x = event} = entries_hooks render event es" unfolding hooks_of_event Some by simp
  have now: "entries_hooks render event (retain_nonempty_entries fs) = {x \<in> entries_hooks render event es. \<not> gone cr rr cmds (event, matcher, script) x}"
    unfolding retain_nonempty_hooks by (rule clean_entries_hooks [OF fs(1)])
  have "hooks_of render hooks' = {x \<in> hooks_of render hooks. fst x \<noteq> event} \<union> entries_hooks render event (retain_nonempty_entries fs)"
    unfolding fs(2) using hooks_of_remove [OF assms(2)] hooks_of_put by (cases "retain_nonempty_entries fs = []") auto
  also have "\<dots> = {x \<in> hooks_of render hooks. \<not> gone cr rr cmds (event, matcher, script) x}"
    unfolding now here [symmetric] by (auto simp: gone_def)
  finally show ?thesis using assms(2) swap_remove_perm [OF assms(2)] by (auto simp: fs(2) distinct_put_field)
qed

section \<open>Documents\<close>

text \<open>An object has no key twice; this matters for the document and for its sections of hooks and permissions.\<close>

definition unique_keys :: "json \<Rightarrow> bool" where
  "unique_keys doc = (case doc of JObject m \<Rightarrow> distinct (map fst m) \<and>
       (case map_of m (lit ''hooks'') of Some (JObject h) \<Rightarrow> distinct (map fst h) | _ \<Rightarrow> True) \<and>
       (case map_of m (lit ''permissions'') of Some (JObject h) \<Rightarrow> distinct (map fst h) | _ \<Rightarrow> True)
     | _ \<Rightarrow> False)"

lemma doc_hooks_object: "doc_hooks render (JObject m) = (case map_of m (lit ''hooks'') of Some (JObject h) \<Rightarrow> hooks_of render h | _ \<Rightarrow> {})"
  by (auto simp: doc_hooks_def json_access_defs split: option.splits json_value.splits)

lemma doc_allowed_object:
  "doc_allowed (JObject m) = (case map_of m (lit ''permissions'') of Some (JObject s) \<Rightarrow> (case field_array (lit ''allow'') s of None \<Rightarrow> {} | Some l \<Rightarrow> set l) | _ \<Rightarrow> {})"
  by (auto simp: doc_allowed_def json_access_defs split: option.splits json_value.splits)

lemma names_differ: "lit ''permissions'' \<noteq> lit ''hooks''" "lit ''hooks'' \<noteq> lit ''permissions''" "lit ''env'' \<noteq> lit ''hooks''" "lit ''env'' \<noteq> lit ''permissions''"
  "lit ''outputStyle'' \<noteq> lit ''hooks''" "lit ''outputStyle'' \<noteq> lit ''permissions''" "lit ''spinnerTipsEnabled'' \<noteq> lit ''hooks''"
  "lit ''spinnerTipsEnabled'' \<noteq> lit ''permissions''" "lit ''mcpServers'' \<noteq> lit ''hooks''" "lit ''mcpServers'' \<noteq> lit ''permissions''"
  by (simp_all add: lit_def)

lemma prior_hooks:
  assumes "remove_prior_target_hooks render cr rr prior m = Inr m'" "unique_keys (JObject m)"
  shows "doc_hooks render (JObject m') = {x \<in> doc_hooks render (JObject m). \<not> own_hook cr rr prior x} \<and>
    unique_keys (JObject m') \<and> (\<forall>k. k \<noteq> lit ''hooks'' \<longrightarrow> map_of m' k = map_of m k)"
proof (cases "map_of m (lit ''hooks'')")
  case None
  then have "m' = m" using assms(1) by (simp add: remove_prior_target_hooks_def)
  then show ?thesis using None assms(2) by (simp add: doc_hooks_object)
next
  case (Some v)
  let ?cmds = "case prior of None \<Rightarrow> [] | Some c \<Rightarrow> map (\<lambda>h. ucs_trim (ch_command h)) (cl_hooks c)"
  obtain hooks hooks' where run: "v = JObject hooks" "res_fold (clean_target render cr rr ?cmds) TARGET_HOOKS hooks = Inr hooks'"
      "m' = put_field (lit ''hooks'') (JObject hooks') m"
    using assms(1) Some by (auto simp: remove_prior_target_hooks_def res_bind_Inr_iff Let_def as_object_Some split: option.splits)
  have dist: "distinct (map fst hooks)" using assms(2) Some run(1) by (simp add: unique_keys_def)
  have "(\<forall>x. x \<in> hooks_of render hs' \<longleftrightarrow> x \<in> hooks_of render hs \<and> \<not> list_ex (\<lambda>t. gone cr rr cmds t x) ts) \<and> distinct (map fst hs')"
    if "res_fold (clean_target render cr rr cmds) ts hs = Inr hs'" "distinct (map fst hs)" for cmds ts hs hs'
    using that
  proof (induction ts arbitrary: hs)
    case (Cons t ts)
    obtain e mt sc where t: "t = (e, mt, sc)" by (cases t)
    obtain h where h: "clean_target render cr rr cmds (e, mt, sc) hs = Inr h" "res_fold (clean_target render cr rr cmds) ts h = Inr hs'"
      using Cons.prems(1) by (auto simp: res_bind_Inr_iff t)
    show ?case using clean_target_hooks [OF h(1) Cons.prems(2)] Cons.IH [OF h(2)] by (auto simp: t)
  qed simp
  from this [OF run(2) dist] have "hooks_of render hooks' = {x \<in> hooks_of render hooks. \<not> own_hook cr rr prior x}" "distinct (map fst hooks')"
    by (auto simp: own_hook_def)
  then show ?thesis using assms(2) Some run(1) by (simp add: names_differ run(3) doc_hooks_object unique_keys_def distinct_put_field)
qed

lemma merge_hooks_extends:
  assumes "merge_hooks render rendered m = Inr (m', claim)" "unique_keys (JObject m)"
  shows "extends (doc_hooks render (JObject m)) \<lparr>cl_hooks = [], cl_permissions = []\<rparr> (doc_hooks render (JObject m')) claim \<and>
    unique_keys (JObject m') \<and> (\<forall>k. k \<noteq> lit ''hooks'' \<longrightarrow> map_of m' k = map_of m k) \<and> (\<exists>h. map_of m' (lit ''hooks'') = Some (JObject h))"
proof -
  obtain new hooks hooks' where run: "as_object_or ''settings hooks must be an object'' (entry_or (lit ''hooks'') (JObject []) m) = Inr hooks"
      "res_fold (merge_event render) new (hooks, \<lparr>cl_hooks = [], cl_permissions = []\<rparr>) = Inr (hooks', claim)" "m' = put_field (lit ''hooks'') (JObject hooks') m"
    using assms(1) by (auto simp: merge_hooks_def res_bind_Inr_iff)
  have old: "doc_hooks render (JObject m) = hooks_of render hooks" "distinct (map fst hooks)"
    using run(1) assms(2) by (cases "map_of m (lit ''hooks'')";
      auto simp: doc_hooks_object as_object_or_def entry_or_def as_object_Some unique_keys_def hooks_of_def field_array_def split: option.splits)+
  have "case (hooks', claim) of (hs, c) \<Rightarrow> extends (hooks_of render hooks) \<lparr>cl_hooks = [], cl_permissions = []\<rparr> (hooks_of render hs) c \<and> distinct (map fst hs)"
    using run(2)
  proof (rule res_fold_inv)
    show "case (hooks, \<lparr>cl_hooks = [], cl_permissions = []\<rparr>) of (hs, c) \<Rightarrow> extends (hooks_of render hooks) \<lparr>cl_hooks = [], cl_permissions = []\<rparr> (hooks_of render hs) c \<and> distinct (map fst hs)"
      using old(2) by (simp add: extends_refl)
  next
    fix x s s'
    assume "case s of (hs, c) \<Rightarrow> extends (hooks_of render hooks) \<lparr>cl_hooks = [], cl_permissions = []\<rparr> (hooks_of render hs) c \<and> distinct (map fst hs)"
      "merge_event render x s = Inr s'"
    then show "case s' of (hs, c) \<Rightarrow> extends (hooks_of render hooks) \<lparr>cl_hooks = [], cl_permissions = []\<rparr> (hooks_of render hs) c \<and> distinct (map fst hs)"
      using merge_event_extends by (cases x; cases s; cases s') (auto intro: extends_trans)
  qed
  then show ?thesis unfolding old(1) using assms(2) by (simp add: run(3) doc_hooks_object unique_keys_def names_differ distinct_put_field)
qed

lemma as_str_Some: "as_str item = Some p \<longleftrightarrow> item = JString p"
  by (cases item) (simp_all add: as_str_def)

lemma merge_permission_fold:
  "fold (merge_permission prior) ps (allow, claim) = (allow', claim') \<Longrightarrow>
     set allow' = set allow \<union> JString ` set ps \<and> cl_hooks claim' = cl_hooks claim \<and>
     set (cl_permissions claim') = set (cl_permissions claim) \<union> {p \<in> set ps. JString p \<notin> set allow \<or> p \<in> set prior}"
proof (induction ps arbitrary: allow claim)
  case (Cons p ps)
  have str: "list_ex (\<lambda>item. as_str item = Some p) allow \<longleftrightarrow> JString p \<in> set allow"
    by (auto simp: list_ex_iff as_str_Some)
  consider (new) "JString p \<notin> set allow" | (kept) "JString p \<in> set allow" "p \<in> set prior" | (foreign) "JString p \<in> set allow" "p \<notin> set prior" by blast
  then show ?case
  proof cases
    case new
    then have step: "fold (merge_permission prior) ps (allow @ [JString p], claim\<lparr>cl_permissions := cl_permissions claim @ [p]\<rparr>) = (allow', claim')"
      using Cons.prems by (simp add: merge_permission_def [of prior p] str)
    show ?thesis using Cons.IH [OF step] new by auto
  next
    case kept
    then have step: "fold (merge_permission prior) ps (allow, claim\<lparr>cl_permissions := cl_permissions claim @ [p]\<rparr>) = (allow', claim')"
      using Cons.prems by (simp add: merge_permission_def [of prior p] str)
    show ?thesis using Cons.IH [OF step] kept by auto
  next
    case foreign
    then have step: "fold (merge_permission prior) ps (allow, claim) = (allow', claim')"
      using Cons.prems by (simp add: merge_permission_def [of prior p] str)
    show ?thesis using Cons.IH [OF step] foreign by auto
  qed
qed auto

text \<open>The permissions a template offers, and the fields of the sections of permissions and of the environment.\<close>

definition offered_permissions :: "json \<Rightarrow> ucs list" where
  "offered_permissions template =
     (case Option.bind (Option.bind (json_get (lit ''permissions'') template) (json_get (lit ''allow''))) as_array of None \<Rightarrow> []
      | Some items \<Rightarrow> List.map_filter as_str items)"

definition section_field :: "string \<Rightarrow> ucs \<Rightarrow> json \<Rightarrow> json option" where
  "section_field name j doc = Option.bind (Option.bind (json_get (lit name) doc) as_object) (\<lambda>m. map_of m j)"

definition claimed_permissions :: "SettingsClaim option \<Rightarrow> ucs list" where
  "claimed_permissions prior = (case prior of None \<Rightarrow> [] | Some c \<Rightarrow> cl_permissions c)"

lemma merge_permissions_result:
  assumes "merge_permissions rendered prior (m, claim) = Inr (m', claim')" "unique_keys (JObject m)" "cl_permissions claim = []"
  shows "doc_allowed (JObject m') = doc_allowed (JObject m) \<union> JString ` set (offered_permissions rendered) \<and>
    set (cl_permissions claim') = {p \<in> set (offered_permissions rendered). JString p \<notin> doc_allowed (JObject m) \<or> p \<in> set (claimed_permissions prior)} \<and>
    cl_hooks claim' = cl_hooks claim \<and> unique_keys (JObject m') \<and> (\<forall>k. k \<noteq> lit ''permissions'' \<longrightarrow> map_of m' k = map_of m k) \<and>
    (\<forall>j. j \<noteq> lit ''allow'' \<longrightarrow> section_field ''permissions'' j (JObject m') = section_field ''permissions'' j (JObject m)) \<and>
    (\<exists>s l. map_of m' (lit ''permissions'') = Some (JObject s) \<and> map_of s (lit ''allow'') = Some (JArray l))"
proof -
  let ?prior = "case prior of None \<Rightarrow> [] | Some c \<Rightarrow> cl_permissions c"
  obtain ps s allow where start: "string_list (case Option.bind (json_get (lit ''permissions'') rendered) (json_get (lit ''allow'')) of None \<Rightarrow> JArray [] | Some v \<Rightarrow> v) = Inr ps"
      "as_object_or ''settings permissions must be an object'' (entry_or (lit ''permissions'') (JObject []) m) = Inr s"
      "as_array_or ''settings permissions.allow must be an array'' (entry_or (lit ''allow'') (JArray []) s) = Inr allow"
      "(case fold (merge_permission ?prior) ps (allow, claim) of (allow, claim) \<Rightarrow>
          Inr (put_field (lit ''permissions'') (JObject (put_field (lit ''allow'') (JArray allow) s)) m, claim)) = (Inr (m', claim') :: InstallError + _)"
    using assms(1) unfolding merge_permissions_def prod.case res_bind_Inr_iff Let_def by blast
  obtain allow' c where fold: "fold (merge_permission ?prior) ps (allow, claim) = (allow', c)" by (cases "fold (merge_permission ?prior) ps (allow, claim)")
  then have run: "as_object_or ''settings permissions must be an object'' (entry_or (lit ''permissions'') (JObject []) m) = Inr s"
      "as_array_or ''settings permissions.allow must be an array'' (entry_or (lit ''allow'') (JArray []) s) = Inr allow"
      "fold (merge_permission ?prior) ps (allow, claim) = (allow', claim')"
      "m' = put_field (lit ''permissions'') (JObject (put_field (lit ''allow'') (JArray allow') s)) m"
    using start by simp_all
  have offered: "ps = offered_permissions rendered"
  proof (cases "Option.bind (json_get (lit ''permissions'') rendered) (json_get (lit ''allow''))")
    case None
    then show ?thesis using start(1) unfolding offered_permissions_def None by (simp add: string_list_def List.map_filter_def)
  next
    case (Some v)
    then show ?thesis using start(1) unfolding offered_permissions_def Some by (auto simp: string_list_def split: option.splits if_splits)
  qed
  have old: "doc_allowed (JObject m) = set allow" "distinct (map fst s)" "section_field ''permissions'' j (JObject m) = map_of s j" for j
    using run(1,2) assms(2) by (cases "map_of m (lit ''permissions'')";
      auto simp: doc_allowed_object as_object_or_def as_array_or_def entry_or_def as_object_Some as_array_Some unique_keys_def field_array_def
        section_field_def json_get_def split: option.splits)+
  have now: "doc_allowed (JObject m') = set allow'" "section_field ''permissions'' j (JObject m') = (if j = lit ''allow'' then Some (JArray allow') else map_of s j)" for j
    by (simp_all add: doc_allowed_object run(4) field_array_put section_field_def json_get_def)
  have unique: "unique_keys (JObject m')" using assms(2) old(2) by (simp add: unique_keys_def run(4) distinct_put_field names_differ)
  show ?thesis unfolding old(1,3) now using merge_permission_fold [OF run(3)] unique assms(3)
    by (simp add: run(4) offered claimed_permissions_def)
qed

lemma unique_keys_put:
  "unique_keys (JObject m) \<Longrightarrow> k \<noteq> lit ''hooks'' \<Longrightarrow> k \<noteq> lit ''permissions'' \<Longrightarrow> unique_keys (JObject (put_field k v m))"
  by (simp add: unique_keys_def distinct_put_field)

lemma add_missing: "map_of (fold (\<lambda>(k, v) env. if map_of env k = None then env @ [(k, v)] else env) new env) j =
    (case map_of env j of None \<Rightarrow> map_of new j | Some v \<Rightarrow> Some v)"
proof (induction new arbitrary: env)
  case Nil
  then show ?case by (simp split: option.split)
next
  case (Cons kv new)
  obtain k v where kv: "kv = (k, v)" by (cases kv)
  have "map_of (if map_of env k = None then env @ [(k, v)] else env) j = (case map_of env j of None \<Rightarrow> if j = k then Some v else None | Some w \<Rightarrow> Some w)"
    by (auto simp: map_add_def split: option.split)
  then show ?case by (simp add: Cons.IH kv split: option.split)
qed

lemma merge_env_frame:
  assumes "merge_env rendered m = Inr m'" "unique_keys (JObject m)"
  shows "unique_keys (JObject m') \<and> (\<forall>k. k \<noteq> lit ''env'' \<longrightarrow> map_of m' k = map_of m k) \<and> map_of m' (lit ''env'') \<noteq> None \<and>
    (\<forall>j. section_field ''env'' j (JObject m') = (case section_field ''env'' j (JObject m) of None \<Rightarrow> section_field ''env'' j rendered | Some v \<Rightarrow> Some v))"
proof -
  obtain new env where run: "as_object_or ''settings env must be an object'' (case json_get (lit ''env'') rendered of None \<Rightarrow> JObject [] | Some v \<Rightarrow> v) = Inr new"
      "as_object_or ''settings env must be an object'' (entry_or (lit ''env'') (JObject []) m) = Inr env"
      "m' = put_field (lit ''env'') (JObject (fold (\<lambda>(k, v) env. if map_of env k = None then env @ [(k, v)] else env) new env)) m"
    using assms(1) by (auto simp: merge_env_def res_bind_Inr_iff)
  have "section_field ''env'' j rendered = map_of new j" "section_field ''env'' j (JObject m) = map_of env j" for j
    using run(1,2) by (auto simp: section_field_def as_object_or_def entry_or_def as_object_Some json_get_def split: option.splits)
  moreover have "section_field ''env'' j (JObject m') = (case map_of env j of None \<Rightarrow> map_of new j | Some v \<Rightarrow> Some v)" for j
    by (simp add: section_field_def json_get_def run(3) add_missing)
  ultimately show ?thesis using unique_keys_put [OF assms(2), of "lit ''env''"] by (simp add: run(3) names_differ cong: option.case_cong)
qed

lemma merge_plain_frame:
  assumes "unique_keys (JObject m)" "key \<noteq> lit ''hooks''" "key \<noteq> lit ''permissions''"
  shows "unique_keys (JObject (merge_plain rendered key m)) \<and> (\<forall>k. map_of (merge_plain rendered key m) k =
     (case map_of m k of None \<Rightarrow> if k = key then json_get key rendered else None | Some v \<Rightarrow> Some v))"
proof (cases "map_of m key = None \<and> json_get key rendered \<noteq> None")
  case True
  then show ?thesis using assms unique_keys_put [of m key] by (auto simp: merge_plain_def split: option.split)
next
  case False
  then have "merge_plain rendered key m = m" by (auto simp: merge_plain_def split: option.split)
  then show ?thesis using assms(1) False by (auto split: option.split)
qed

lemma swap_remove_frame:
  assumes "unique_keys (JObject m)" "key \<noteq> lit ''hooks''" "key \<noteq> lit ''permissions''"
  shows "unique_keys (JObject (swap_remove key m)) \<and> (\<forall>k. map_of (swap_remove key m) k = (if k = key then None else map_of m k))"
proof -
  have "distinct (map fst m)" using assms(1) by (simp add: unique_keys_def)
  note this = map_of_swap_remove [OF this] conjunct2 [OF swap_remove_perm [OF this]]
  then show ?thesis using assms by (simp add: unique_keys_def)
qed

text \<open>Filling in the placeholders changes the hooks of a template only.\<close>

lemma render_template_frame:
  assumes "k \<noteq> lit ''hooks''"
  shows "json_get k (render_template template cr commands) = json_get k template"
  using assms by (cases template) (auto simp: render_template_def json_get_def split: option.splits)

text \<open>The merge as a whole.\<close>

lemma merge_result:
  assumes "merge_settings_document render existing template cr rr commands prior = Inr (result, claim)" "unique_keys existing"
  shows "extends {x \<in> doc_hooks render existing. \<not> own_hook cr rr prior x} \<lparr>cl_hooks = [], cl_permissions = []\<rparr>
      (doc_hooks render result) (claim\<lparr>cl_permissions := []\<rparr>) \<and>
    doc_allowed result = doc_allowed existing \<union> JString ` set (offered_permissions template) \<and>
    set (cl_permissions claim) = {p \<in> set (offered_permissions template). JString p \<notin> doc_allowed existing \<or> p \<in> set (claimed_permissions prior)} \<and>
    unique_keys result \<and>
    (\<forall>j. j \<noteq> lit ''allow'' \<longrightarrow> section_field ''permissions'' j result = section_field ''permissions'' j existing) \<and>
    (\<forall>j. section_field ''env'' j result = (case section_field ''env'' j existing of None \<Rightarrow> section_field ''env'' j template | Some v \<Rightarrow> Some v)) \<and>
    (\<forall>k. k \<notin> {lit ''hooks'', lit ''permissions'', lit ''env'', lit ''mcpServers''} \<longrightarrow> json_get k result =
       (case json_get k existing of None \<Rightarrow> if k \<in> {lit ''outputStyle'', lit ''spinnerTipsEnabled''} then json_get k template else None | Some v \<Rightarrow> Some v)) \<and>
    json_get (lit ''mcpServers'') result = None \<and>
    (\<exists>h s l. json_get (lit ''hooks'') result = Some (JObject h) \<and> json_get (lit ''permissions'') result = Some (JObject s) \<and> map_of s (lit ''allow'') = Some (JArray l))"
proof -
  let ?rendered = "render_template template cr commands"
  obtain m m1 m2 claim2 m3 m4 where run: "existing = JObject m" "remove_prior_target_hooks render cr rr prior m = Inr m1"
      "merge_hooks render ?rendered m1 = Inr (m2, claim2)" "merge_permissions ?rendered prior (m2, claim2) = Inr (m3, claim)" "merge_env ?rendered m3 = Inr m4"
      "result = JObject (swap_remove (lit ''mcpServers'') (merge_plain ?rendered (lit ''spinnerTipsEnabled'') (merge_plain ?rendered (lit ''outputStyle'') m4)))"
    using assms(1) by (auto simp: merge_settings_document_def Let_def res_bind_Inr_iff as_object_Some split: option.splits prod.splits)
  let ?m5 = "merge_plain ?rendered (lit ''outputStyle'') m4"
  let ?m6 = "merge_plain ?rendered (lit ''spinnerTipsEnabled'') ?m5"
  let ?m7 = "swap_remove (lit ''mcpServers'') ?m6"
  have get: "json_get k ?rendered = json_get k template" if "k \<noteq> lit ''hooks''" for k using that by (rule render_template_frame)
  have offers: "offered_permissions ?rendered = offered_permissions template" "section_field ''env'' j ?rendered = section_field ''env'' j template" for j
    by (simp_all add: offered_permissions_def section_field_def get names_differ)
  note 1 = prior_hooks [OF run(2) assms(2) [unfolded run(1)]]
  note 2 = merge_hooks_extends [OF run(3)]
  have u1: "unique_keys (JObject m1)" using 1 by blast
  note 2 = 2 [OF u1]
  have u2: "unique_keys (JObject m2)" and p2: "cl_permissions claim2 = []" using 2 by (auto simp: extends_def)
  note 3 = merge_permissions_result [OF run(4) u2 p2, unfolded offers(1)]
  have u3: "unique_keys (JObject m3)" using 3 by blast
  note 4 = merge_env_frame [OF run(5) u3, unfolded offers(2)]
  have u4: "unique_keys (JObject m4)" using 4 by blast
  have 5: "unique_keys (JObject ?m5) \<and> (\<forall>k. map_of ?m5 k = (case map_of m4 k of None \<Rightarrow> if k = lit ''outputStyle'' then json_get (lit ''outputStyle'') ?rendered else None | Some v \<Rightarrow> Some v))"
    by (rule merge_plain_frame [OF u4]) (simp_all add: names_differ)
  have 6: "unique_keys (JObject ?m6) \<and> (\<forall>k. map_of ?m6 k = (case map_of ?m5 k of None \<Rightarrow> if k = lit ''spinnerTipsEnabled'' then json_get (lit ''spinnerTipsEnabled'') ?rendered else None | Some v \<Rightarrow> Some v))"
    by (rule merge_plain_frame) (use 5 in \<open>simp_all add: names_differ\<close>)
  have 7: "unique_keys (JObject ?m7) \<and> (\<forall>k. map_of ?m7 k = (if k = lit ''mcpServers'' then None else map_of ?m6 k))"
    by (rule swap_remove_frame) (use 6 in \<open>simp_all add: names_differ\<close>)
  have full: "map_of ?m7 k = map_of m4 k" if "map_of m4 k \<noteq> None" "k \<noteq> lit ''mcpServers''" for k using that 5 6 7 by auto
  have tail: "map_of ?m7 k = map_of m3 k" if "k = lit ''hooks'' \<or> k = lit ''permissions''" for k
  proof -
    have m: "map_of m3 k \<noteq> None" "k \<noteq> lit ''env''" "k \<noteq> lit ''mcpServers''"
      using that 2 3 names_differ by auto
    then show ?thesis using 4 full [of k] by simp
  qed
  have hooks: "map_of ?m7 (lit ''hooks'') = map_of m2 (lit ''hooks'')" using tail [of "lit ''hooks''"] 3 names_differ by simp
  have perms: "map_of ?m7 (lit ''permissions'') = map_of m3 (lit ''permissions'')" using tail [of "lit ''permissions''"] by simp
  have env: "map_of ?m7 (lit ''env'') = map_of m4 (lit ''env'')" by (rule full) (use 4 in \<open>simp_all add: lit_def\<close>)
  have dh: "doc_hooks render result = doc_hooks render (JObject m2)" unfolding run(6) doc_hooks_object hooks ..
  have da: "doc_allowed result = doc_allowed (JObject m3)" unfolding run(6) doc_allowed_object perms ..
  have m2p: "map_of m2 k = map_of m k" if "k \<noteq> lit ''hooks''" for k using 1 2 that by simp
  have da0: "doc_allowed (JObject m2) = doc_allowed existing" unfolding run(1) doc_allowed_object m2p [OF names_differ(1)] ..
  have sections: "section_field ''permissions'' j result = section_field ''permissions'' j (JObject m3)" "section_field ''permissions'' j (JObject m2) = section_field ''permissions'' j existing"
      "section_field ''env'' j result = section_field ''env'' j (JObject m4)" "section_field ''env'' j (JObject m3) = section_field ''env'' j existing" for j
    using 3 m2p perms env by (simp_all add: section_field_def json_get_def run(1,6) names_differ)
  have ext: "extends {x \<in> doc_hooks render existing. \<not> own_hook cr rr prior x} \<lparr>cl_hooks = [], cl_permissions = []\<rparr> (doc_hooks render result) (claim\<lparr>cl_permissions := []\<rparr>)"
  proof -
    have "cl_hooks claim = cl_hooks claim2" using 3 by blast
    then have "claim\<lparr>cl_permissions := []\<rparr> = claim2" using p2 by simp
    then show ?thesis using 1 2 unfolding dh run(1) by simp
  qed
  have other: "json_get k result =
      (case json_get k existing of None \<Rightarrow> if k \<in> {lit ''outputStyle'', lit ''spinnerTipsEnabled''} then json_get k template else None | Some v \<Rightarrow> Some v)"
    if "k \<notin> {lit ''hooks'', lit ''permissions'', lit ''env'', lit ''mcpServers''}" for k
  proof -
    have k: "k \<noteq> lit ''hooks''" "k \<noteq> lit ''permissions''" "k \<noteq> lit ''env''" "k \<noteq> lit ''mcpServers''" using that by simp_all
    have "map_of m4 k = map_of m k" using k m2p 3 4 by simp
    moreover have "map_of ?m7 k = (case map_of m4 k of None \<Rightarrow> if k \<in> {lit ''outputStyle'', lit ''spinnerTipsEnabled''} then json_get k ?rendered else None | Some v \<Rightarrow> Some v)"
      using k 5 6 7 by (auto split: option.split)
    ultimately show ?thesis by (simp add: run(1,6) json_get_def [of k "JObject _"] get [OF k(1)] cong: option.case_cong)
  qed
  have shape: "\<exists>h s l. json_get (lit ''hooks'') result = Some (JObject h) \<and> json_get (lit ''permissions'') result = Some (JObject s) \<and> map_of s (lit ''allow'') = Some (JArray l)"
    using 2 3 hooks perms by (simp add: run(6) json_get_def)
  have retired: "json_get (lit ''mcpServers'') result = None" using 7 by (simp add: run(6) json_get_def)
  have "unique_keys result" unfolding run(6) using 7 by blast
  moreover have "\<forall>j. j \<noteq> lit ''allow'' \<longrightarrow> section_field ''permissions'' j result = section_field ''permissions'' j existing"
    unfolding sections using 3 unfolding sections by (elim conjE)
  moreover have "\<forall>j. section_field ''env'' j result = (case section_field ''env'' j existing of None \<Rightarrow> section_field ''env'' j template | Some v \<Rightarrow> Some v)"
    unfolding sections using 4 unfolding sections by (elim conjE)
  moreover have "doc_allowed result = doc_allowed existing \<union> JString ` set (offered_permissions template)"
      "set (cl_permissions claim) = {p \<in> set (offered_permissions template). JString p \<notin> doc_allowed existing \<or> p \<in> set (claimed_permissions prior)}"
    unfolding da da0 [symmetric] using 3 by blast+
  ultimately show ?thesis using ext other shape retired by (intro conjI allI impI) (assumption | blast)+
qed

section \<open>Removal\<close>

definition names_hook :: "ClaimedHook \<Rightarrow> placed_hook \<Rightarrow> bool" where
  "names_hook i = (\<lambda>(event, matcher, h). ch_event i = event \<and> ch_matcher i = matcher \<and> hook_command h = Some (ch_command i))"

lemma claimed_iff: "claimed claim x \<longleftrightarrow> (\<exists>i \<in> set (cl_hooks claim). names_hook i x)"
  by (auto simp: claimed_def names_hook_def list_ex_iff)

lemma drop_command_hooks:
  "entry_hooks render (ch_event i) (drop_command render i e) = {x \<in> entry_hooks render (ch_event i) e. \<not> names_hook i x}"
  using hooks_not_matcher
  by (cases e) (auto simp: drop_command_def entry_hooks_def names_hook_def field_array_put split: option.splits)

lemma remove_claimed_hooks:
  assumes "distinct (map fst hooks)"
  shows "hooks_of render (remove_claimed render i hooks) = {x \<in> hooks_of render hooks. \<not> names_hook i x} \<and> distinct (map fst (remove_claimed render i hooks))"
proof (cases "field_array (ch_event i) hooks")
  case None
  then have "\<not> names_hook i x" if "x \<in> hooks_of render hooks" for x using that by (auto simp: hooks_of_def names_hook_def)
  then show ?thesis using None assms by (auto simp: remove_claimed_def)
next
  case (Some es)
  let ?es = "retain_nonempty_entries (map (drop_command render i) es)"
  have here: "{x \<in> hooks_of render hooks. fst x = ch_event i} = entries_hooks render (ch_event i) es" unfolding hooks_of_event Some by simp
  have now: "entries_hooks render (ch_event i) ?es = {x \<in> entries_hooks render (ch_event i) es. \<not> names_hook i x}"
    unfolding retain_nonempty_hooks by (auto simp: entries_hooks_def drop_command_hooks)
  have "hooks_of render (remove_claimed render i hooks) = {x \<in> hooks_of render hooks. fst x \<noteq> ch_event i} \<union> entries_hooks render (ch_event i) ?es"
    using hooks_of_remove [OF assms] hooks_of_put by (cases "?es = []") (auto simp: remove_claimed_def Some Let_def)
  also have "\<dots> = {x \<in> hooks_of render hooks. \<not> names_hook i x}" unfolding now here [symmetric] by (auto simp: names_hook_def)
  finally show ?thesis using assms swap_remove_perm [OF assms] by (auto simp: remove_claimed_def Some Let_def distinct_put_field)
qed

lemma remove_hooks_result:
  assumes "unique_keys (JObject m)"
  shows "doc_hooks render (JObject (remove_hooks render claim m)) = {x \<in> doc_hooks render (JObject m). \<not> claimed claim x} \<and>
    unique_keys (JObject (remove_hooks render claim m)) \<and> (\<forall>k. k \<noteq> lit ''hooks'' \<longrightarrow> map_of (remove_hooks render claim m) k = map_of m k)"
proof (cases "Option.bind (map_of m (lit ''hooks'')) as_object")
  case None
  then have "remove_hooks render claim m = m" "doc_hooks render (JObject m) = {}" by (simp_all add: remove_hooks_def doc_hooks_def json_get_def)
  then show ?thesis using assms by simp
next
  case (Some hooks)
  have m: "map_of m (lit ''hooks'') = Some (JObject hooks)" using Some by (auto simp: as_object_Some split: bind_splits)
  have dist: "distinct (map fst m)" "distinct (map fst hooks)" using assms m by (simp_all add: unique_keys_def)
  let ?hs = "fold (remove_claimed render) (cl_hooks claim) hooks"
  have "hooks_of render (fold (remove_claimed render) is hs) = {x \<in> hooks_of render hs. \<forall>i \<in> set is. \<not> names_hook i x} \<and> distinct (map fst (fold (remove_claimed render) is hs))"
    if "distinct (map fst hs)" for "is" hs
    using that
  proof (induction "is" arbitrary: hs)
    case (Cons i "is")
    show ?case using remove_claimed_hooks [OF Cons.prems, of render i] Cons.IH [of "remove_claimed render i hs"] by auto
  qed simp
  from this [OF dist(2)] have hs: "hooks_of render ?hs = {x \<in> hooks_of render hooks. \<not> claimed claim x}" "distinct (map fst ?hs)"
    by (auto simp: claimed_iff)
  note swap = map_of_swap_remove [OF dist(1)] conjunct2 [OF swap_remove_perm [OF dist(1)]]
  show ?thesis
  proof (cases "?hs = []")
    case True
    then have out: "remove_hooks render claim m = swap_remove (lit ''hooks'') m" by (simp add: remove_hooks_def Some)
    have "hooks_of render ?hs = {}" unfolding True by (simp add: hooks_of_def field_array_def)
    then show ?thesis unfolding out using hs(1) assms by (simp add: doc_hooks_object swap m unique_keys_def names_differ)
  next
    case False
    then have out: "remove_hooks render claim m = put_field (lit ''hooks'') (JObject ?hs) m" by (simp add: remove_hooks_def Some Let_def)
    then show ?thesis unfolding out using hs assms by (simp add: doc_hooks_object m unique_keys_def names_differ distinct_put_field)
  qed
qed

lemma remove_permissions_result:
  assumes "unique_keys (JObject m)"
  shows "doc_allowed (JObject (remove_permissions claim m)) = {x \<in> doc_allowed (JObject m). x \<notin> JString ` set (cl_permissions claim)} \<and>
    (\<forall>k. k \<noteq> lit ''permissions'' \<longrightarrow> map_of (remove_permissions claim m) k = map_of m k) \<and>
    (\<forall>j. j \<noteq> lit ''allow'' \<longrightarrow> section_field ''permissions'' j (JObject (remove_permissions claim m)) = section_field ''permissions'' j (JObject m))"
proof (cases "Option.bind (map_of m (lit ''permissions'')) as_object")
  case None
  then have "remove_permissions claim m = m" "doc_allowed (JObject m) = {}" by (simp_all add: remove_permissions_def doc_allowed_def json_get_def)
  then show ?thesis by simp
next
  case (Some sec)
  have m: "map_of m (lit ''permissions'') = Some (JObject sec)" using Some by (auto simp: as_object_Some split: bind_splits)
  have dist: "distinct (map fst m)" "distinct (map fst sec)" using assms m by (simp_all add: unique_keys_def)
  note swap = map_of_swap_remove [OF dist(1)] map_of_swap_remove [OF dist(2)]
  have str: "(case as_str item of None \<Rightarrow> True | Some t \<Rightarrow> t \<notin> set (cl_permissions claim)) \<longleftrightarrow> item \<notin> JString ` set (cl_permissions claim)" for item
    by (cases item) (auto simp: as_str_def)
  define after_allow where "after_allow = (case field_array (lit ''allow'') sec of None \<Rightarrow> sec
    | Some allow \<Rightarrow> (let allow = filter (\<lambda>item. case as_str item of None \<Rightarrow> True | Some t \<Rightarrow> t \<notin> set (cl_permissions claim)) allow
        in if allow = [] then swap_remove (lit ''allow'') sec else put_field (lit ''allow'') (JArray allow) sec))"
  have out: "remove_permissions claim m = (if after_allow = [] then swap_remove (lit ''permissions'') m else put_field (lit ''permissions'') (JObject after_allow) m)"
    by (simp add: remove_permissions_def Some after_allow_def Let_def)
  have set: "(case field_array (lit ''allow'') after_allow of None \<Rightarrow> {} | Some l \<Rightarrow> set l) =
      {x \<in> (case field_array (lit ''allow'') sec of None \<Rightarrow> {} | Some l \<Rightarrow> set l). x \<notin> JString ` set (cl_permissions claim)}"
  proof (cases "field_array (lit ''allow'') sec")
    case (Some allow)
    let ?allow = "filter (\<lambda>item. item \<notin> JString ` set (cl_permissions claim)) allow"
    have aa: "after_allow = (if ?allow = [] then swap_remove (lit ''allow'') sec else put_field (lit ''allow'') (JArray ?allow) sec)"
      by (simp only: after_allow_def Some option.case Let_def str)
    show ?thesis
    proof (cases "?allow = []")
      case True
      then have "field_array (lit ''allow'') after_allow = None" by (simp add: aa field_array_def swap)
      then show ?thesis using True by (auto simp: Some filter_empty_conv)
    qed (simp add: aa field_array_put Some)
  qed (simp add: after_allow_def)
  have others: "map_of after_allow j = map_of sec j" if "j \<noteq> lit ''allow''" for j
    using that by (simp add: after_allow_def Let_def swap split: option.split)
  have before: "section_field ''permissions'' j (JObject m) = map_of sec j" for j by (simp add: section_field_def json_get_def m)
  show ?thesis
  proof (cases "after_allow = []")
    case True
    have "map_of sec j = None" if "j \<noteq> lit ''allow''" for j using others [OF that] by (simp add: True)
    moreover have "section_field ''permissions'' j (JObject (swap_remove (lit ''permissions'') m)) = None" for j
      by (simp add: section_field_def json_get_def swap)
    moreover from True have "{} = {x \<in> (case field_array (lit ''allow'') sec of None \<Rightarrow> {} | Some l \<Rightarrow> set l). x \<notin> JString ` set (cl_permissions claim)}"
      using set by (simp add: field_array_def)
    ultimately show ?thesis unfolding out before using True by (simp add: doc_allowed_object m swap)
  next
    case False
    have "section_field ''permissions'' j (JObject (put_field (lit ''permissions'') (JObject after_allow) m)) = map_of after_allow j" for j
      by (simp add: section_field_def json_get_def)
    then show ?thesis unfolding out before using set False others by (simp add: doc_allowed_object m)
  qed
qed

lemma remove_result:
  assumes "unique_keys doc"
  shows "doc_hooks render (remove_settings_claim_lenient render doc claim) = {x \<in> doc_hooks render doc. \<not> claimed claim x} \<and>
    doc_allowed (remove_settings_claim_lenient render doc claim) = {x \<in> doc_allowed doc. x \<notin> JString ` set (cl_permissions claim)} \<and>
    (\<forall>j. j \<noteq> lit ''allow'' \<longrightarrow> section_field ''permissions'' j (remove_settings_claim_lenient render doc claim) = section_field ''permissions'' j doc) \<and>
    (\<forall>k. k \<notin> {lit ''hooks'', lit ''permissions''} \<longrightarrow> json_get k (remove_settings_claim_lenient render doc claim) = json_get k doc)"
proof -
  obtain m where m: "doc = JObject m" using assms by (cases doc) (simp_all add: unique_keys_def)
  have out: "remove_settings_claim_lenient render doc claim = JObject (remove_permissions claim (remove_hooks render claim m))"
    by (simp add: remove_settings_claim_lenient_def m)
  note 1 = remove_hooks_result [OF assms [unfolded m], of render claim]
  then have "unique_keys (JObject (remove_hooks render claim m))" by blast
  note 2 = remove_permissions_result [OF this, of claim]
  have "doc_hooks render (JObject (remove_permissions claim (remove_hooks render claim m))) = doc_hooks render (JObject (remove_hooks render claim m))"
    using 2 names_differ by (simp add: doc_hooks_object)
  moreover have "doc_allowed (JObject (remove_hooks render claim m)) = doc_allowed doc" using 1 names_differ by (simp add: doc_allowed_object m)
  moreover have "section_field ''permissions'' j (JObject (remove_hooks render claim m)) = section_field ''permissions'' j doc" for j
    using 1 names_differ by (simp add: section_field_def json_get_def m)
  ultimately show ?thesis using 1 2 unfolding m out [unfolded m] by (simp add: json_get_def)
qed

section \<open>An example\<close>

definition demo_hook :: "string \<Rightarrow> json" where
  "demo_hook command = JObject [(lit ''type'', JString (lit ''command'')), (lit ''command'', JString (lit command))]"

definition demo_entry :: "string \<Rightarrow> json list \<Rightarrow> json" where
  "demo_entry matcher hooks = JObject [(lit ''matcher'', JString (lit matcher)), (lit ''hooks'', JArray hooks)]"

definition demo_template :: "string \<Rightarrow> json" where
  "demo_template event = JObject
     [(lit ''hooks'', JObject [(lit event, JArray [demo_entry ''Edit|Write'' [demo_hook ''d'']])]),
      (lit ''permissions'', JObject [(lit ''allow'', JArray [JString (lit ''p'')])])]"

definition demo_user :: json where
  "demo_user = JObject [(lit ''hooks'', JObject [(lit ''Stop'', JArray [demo_entry [] [demo_hook ''u'']])]), (lit ''model'', JString (lit ''m''))]"

definition demo_commands :: HookCommands where
  "demo_commands = \<lparr>hc_enrich = lit ''e'', hc_dirty = lit ''d''\<rparr>"

definition demo_merge :: "json \<Rightarrow> string \<Rightarrow> SettingsClaim option \<Rightarrow> InstallError + json \<times> SettingsClaim" where
  "demo_merge existing event prior = merge_settings_document (\<lambda>_. []) existing (demo_template event) (lit ''/c'') (lit ''/r'') demo_commands prior"

definition demo_claim :: "string \<Rightarrow> SettingsClaim" where
  "demo_claim event = \<lparr>cl_hooks = [\<lparr>ch_event = lit event, ch_matcher = lit ''Edit|Write'', ch_command = lit ''d''\<rparr>], cl_permissions = [lit ''p'']\<rparr>"

definition demo_result :: "string list \<Rightarrow> json" where
  "demo_result events = JObject
     [(lit ''hooks'', JObject ((lit ''Stop'', JArray [demo_entry [] [demo_hook ''u'']]) #
        map (\<lambda>event. (lit event, JArray [demo_entry ''Edit|Write'' [demo_hook ''d'']])) events)),
      (lit ''model'', JString (lit ''m'')), (lit ''permissions'', JObject [(lit ''allow'', JArray [JString (lit ''p'')])]), (lit ''env'', JObject [])]"

lemma demo_texts:
  "ucs_trim (lit ''d'') = lit ''d''"
  "ucs_trim (lit ''u'') = lit ''u''"
  "replace_text CLAUDE_HOME_PLACEHOLDER r (replace_text DIRTY_PLACEHOLDER r' (replace_text ENRICH_PLACEHOLDER r'' (lit ''d''))) = lit ''d''"
  by (simp_all add: ucs_trim_def is_white_def lit_def replace_text_def CLAUDE_HOME_PLACEHOLDER_def DIRTY_PLACEHOLDER_def ENRICH_PLACEHOLDER_def starts_with_def)

lemmas demo_eval = demo_merge_def merge_settings_document_def demo_user_def demo_template_def demo_entry_def demo_hook_def demo_commands_def
  render_template_def render_event_def render_entry_def render_hook_def remove_prior_target_hooks_def TARGET_HOOKS_def clean_target_def
  merge_hooks_def object_or_def as_object_or_def array_or_def as_array_or_def entry_or_def merge_event_def merge_entry_def matches_entry_def merge_target_def merge_hook_def
  merge_permissions_def merge_permission_def string_list_def merge_env_def merge_plain_def swap_remove_def demo_result_def demo_claim_def
  json_access_defs field_array_def res_bind_def Let_def lit_eq string_view_def hook_command_def demo_texts List.map_filter_def

lemma demo_merged: "demo_merge demo_user ''Setup'' None = Inr (demo_result [''Setup''], demo_claim ''Setup'')"
  by (simp add: demo_eval)

lemma demo_unique: "unique_keys demo_user"
  by (simp add: unique_keys_def demo_user_def lit_eq)

section \<open>Installing and uninstalling\<close>

lemma merged_claim_holds:
  assumes "merge_settings_document render existing template claude_root remy_root commands prior = Inr (result, claim)" "unique_keys existing"
  obtains h s l where "json_get (lit ''hooks'') result = Some (JObject h)" "json_get (lit ''permissions'') result = Some (JObject s)" "map_of s (lit ''allow'') = Some (JArray l)"
    "list_all (claim_found render h) (cl_hooks claim)" "JString ` set (cl_permissions claim) \<subseteq> set l"
proof -
  note merged = merge_result [OF assms]
  have "\<exists>h s l. json_get (lit ''hooks'') result = Some (JObject h) \<and> json_get (lit ''permissions'') result = Some (JObject s) \<and> map_of s (lit ''allow'') = Some (JArray l)"
    using merged by (elim conjE)
  then obtain h s l where shape: "json_get (lit ''hooks'') result = Some (JObject h)" "json_get (lit ''permissions'') result = Some (JObject s)" "map_of s (lit ''allow'') = Some (JArray l)"
    by blast
  have "claim_found render h i" if "i \<in> set (cl_hooks claim)" for i
  proof -
    have "doc_hooks render result = hooks_of render h" by (simp add: doc_hooks_def shape)
    then show ?thesis using merged that by (auto simp: extends_def claim_found_iff)
  qed
  then have hooks: "list_all (claim_found render h) (cl_hooks claim)" by (simp add: list_all_iff)
  have "doc_allowed result = set l" by (simp add: doc_allowed_def shape field_array_def)
  then have "JString ` set (cl_permissions claim) \<subseteq> set l" using merged by auto
  then show thesis using that shape hooks by blast
qed

lemma claim_verifies:
  assumes "json_get (lit ''hooks'') result = Some (JObject h)" "json_get (lit ''permissions'') result = Some (JObject s)" "map_of s (lit ''allow'') = Some (JArray l)"
    "list_all (claim_found render h) (cl_hooks claim)" "JString ` set (cl_permissions claim) \<subseteq> set l"
  shows "verify_settings_claim render result claim = Inr ()"
proof -
  have "list_all (\<lambda>p. list_ex (\<lambda>item. as_str item = Some p) l) (cl_permissions claim)"
    using assms(5) by (auto simp: list_all_iff list_ex_iff as_str_def intro!: bexI [where x = "JString _"])
  then show ?thesis using assms(4) by (simp add: verify_settings_claim_def assms(1-3) object_or_def array_or_def res_bind_def)
qed

text \<open>The settings a successful merge produces pass the verification of the claim it returns, so a later installation
  or check of untouched settings never reports a modified entry.\<close>

theorem merged_claim_verifies:
  assumes "unique_keys existing" "merge_settings_document render existing template claude_root remy_root commands prior = Inr (result, claim)"
  shows "verify_settings_claim render result claim = Inr ()"
  by (rule merged_claim_holds [OF assms(2,1)]) (rule claim_verifies)

text \<open>What is left of an installation after the uninstallation, part by part.\<close>

lemma merged_then_removed:
  assumes "unique_keys existing" "merge_settings_document render existing template claude_root remy_root commands prior = Inr (result, claim)"
  shows "doc_hooks render (remove_settings_claim_lenient render result claim) =
      {x \<in> doc_hooks render existing. \<not> own_hook claude_root remy_root prior x \<and> \<not> claimed claim x}" (is ?hooks)
    and "doc_allowed (remove_settings_claim_lenient render result claim) =
      {x \<in> doc_allowed existing. x \<notin> JString ` (set (offered_permissions template) \<inter> set (claimed_permissions prior))}" (is ?allowed)
proof -
  note merged = merge_result [OF assms(2,1)]
  then have "unique_keys result" by (elim conjE)
  note removed = remove_result [OF this, of render claim]
  have ext: "extends {x \<in> doc_hooks render existing. \<not> own_hook claude_root remy_root prior x} \<lparr>cl_hooks = [], cl_permissions = []\<rparr>
      (doc_hooks render result) (claim\<lparr>cl_permissions := []\<rparr>)" using merged by (elim conjE)
  have same: "claimed (claim\<lparr>cl_permissions := []\<rparr>) x \<longleftrightarrow> claimed claim x" for x by (simp add: claimed_iff)
  show ?hooks using removed ext unfolding extends_def same by blast
  have "doc_allowed result = doc_allowed existing \<union> JString ` set (offered_permissions template)"
    "set (cl_permissions claim) = {p \<in> set (offered_permissions template). JString p \<notin> doc_allowed existing \<or> p \<in> set (claimed_permissions prior)}"
    subgoal using merged by (elim conjE)
    subgoal using merged by (elim conjE)
    done
  moreover have "doc_allowed (remove_settings_claim_lenient render result claim) = {x \<in> doc_allowed result. x \<notin> JString ` set (cl_permissions claim)}"
    using removed by (elim conjE)
  ultimately show ?allowed by auto
qed

text \<open>C20.  What an installation followed by its uninstallation makes of the user's settings, part by part and exactly.  Of the
  hooks those stay that neither an earlier installation put there nor the claim names.  The allowed permissions are those
  before, less the ones an earlier claim names and the template still offers; the other fields of the permissions are
  untouched.  The environment keeps its entries and gains the missing ones of the template, which are not taken out again.
  Every other setting is the one before, and where there was none, it is absent, but for the output style and the spinner
  tips, which stay as the template has them.  The retired server list is gone.\<close>

theorem uninstall_after_install:
  assumes "unique_keys existing" "merge_settings_document render existing template claude_root remy_root commands prior = Inr (result, claim)"
  defines "cleaned \<equiv> remove_settings_claim_lenient render result claim"
  shows "doc_hooks render cleaned = {x \<in> doc_hooks render existing. \<not> own_hook claude_root remy_root prior x \<and> \<not> claimed claim x} \<and>
    doc_allowed cleaned = {x \<in> doc_allowed existing. x \<notin> JString ` (set (offered_permissions template) \<inter> set (claimed_permissions prior))} \<and>
    (\<forall>j. j \<noteq> lit ''allow'' \<longrightarrow> section_field ''permissions'' j cleaned = section_field ''permissions'' j existing) \<and>
    (\<forall>j. section_field ''env'' j cleaned = (case section_field ''env'' j existing of None \<Rightarrow> section_field ''env'' j template | Some v \<Rightarrow> Some v)) \<and>
    (\<forall>k. k \<notin> {lit ''hooks'', lit ''permissions'', lit ''env'', lit ''mcpServers''} \<longrightarrow> json_get k cleaned =
       (case json_get k existing of None \<Rightarrow> if k \<in> {lit ''outputStyle'', lit ''spinnerTipsEnabled''} then json_get k template else None | Some v \<Rightarrow> Some v)) \<and>
    json_get (lit ''mcpServers'') cleaned = None"
proof -
  note merged = merge_result [OF assms(2,1)]
  then have "unique_keys result" by (elim conjE)
  note removed = remove_result [OF this, of render claim, folded cleaned_def]
  have keys: "\<forall>k. k \<notin> {lit ''hooks'', lit ''permissions''} \<longrightarrow> json_get k cleaned = json_get k result"
    and fields: "\<forall>j. j \<noteq> lit ''allow'' \<longrightarrow> section_field ''permissions'' j cleaned = section_field ''permissions'' j result"
    subgoal using removed by (elim conjE)
    subgoal using removed by (elim conjE)
    done
  have "section_field ''env'' j cleaned = section_field ''env'' j result" for j
    using keys by (simp add: section_field_def names_differ)
  moreover have "json_get (lit ''mcpServers'') cleaned = json_get (lit ''mcpServers'') result" using keys by (simp add: names_differ)
  ultimately show ?thesis
    using merged keys fields merged_then_removed [OF assms(1,2), folded cleaned_def] by (elim conjE) simp
qed

theorem merged_claim_verifies_witness:
  "unique_keys demo_user \<and> demo_merge demo_user ''Setup'' None = Inr (demo_result [''Setup''], demo_claim ''Setup'') \<and>
   verify_settings_claim (\<lambda>_. []) (demo_result [''Setup'']) (demo_claim ''Setup'') = Inr ()"
  using merged_claim_verifies [OF demo_unique demo_merged [unfolded demo_merge_def]] demo_unique demo_merged by blast

lemma demo_user_hooks: "(lit ''Stop'', lit [], demo_hook ''u'') \<in> doc_hooks (\<lambda>_. []) demo_user"
  by (simp add: doc_hooks_object demo_user_def hooks_of_def field_array_def entry_hooks_def demo_entry_def string_view_def lit_def)

lemma demo_user_not_own: "\<not> own_hook (lit ''/c'') (lit ''/r'') None (lit ''Stop'', lit [], demo_hook ''u'')" "\<not> claimed (demo_claim ''Setup'') (lit ''Stop'', lit [], demo_hook ''u'')"
  by (simp_all add: own_hook_def TARGET_HOOKS_def gone_def claimed_def demo_claim_def lit_def)

theorem uninstall_after_install_witness:
  "unique_keys demo_user \<and> demo_merge demo_user ''Setup'' None = Inr (demo_result [''Setup''], demo_claim ''Setup'') \<and>
   (lit ''Stop'', lit [], demo_hook ''u'') \<in> doc_hooks (\<lambda>_. []) (remove_settings_claim_lenient (\<lambda>_. []) (demo_result [''Setup'']) (demo_claim ''Setup'')) \<and>
   doc_allowed (remove_settings_claim_lenient (\<lambda>_. []) (demo_result [''Setup'']) (demo_claim ''Setup'')) = {} \<and>
   json_get (lit ''outputStyle'') (remove_settings_claim_lenient (\<lambda>_. []) (demo_result [''Setup'']) (demo_claim ''Setup'')) = None"
proof -
  note left = uninstall_after_install [OF demo_unique demo_merged [unfolded demo_merge_def]]
  have "doc_allowed demo_user = {}" by (simp add: doc_allowed_object demo_user_def lit_eq)
  moreover have "json_get (lit ''outputStyle'') demo_user = None" "json_get (lit ''outputStyle'') (demo_template ''Setup'') = None"
    by (simp_all add: json_get_def demo_user_def demo_template_def lit_eq)
  moreover have "lit ''outputStyle'' \<notin> {lit ''hooks'', lit ''permissions'', lit ''env'', lit ''mcpServers''}" by (simp add: lit_eq)
  ultimately show ?thesis using left demo_unique demo_merged demo_user_hooks demo_user_not_own by auto
qed

text \<open>The place of a hook is one of the two of the tool hooks.\<close>

definition target_place :: "placed_hook \<Rightarrow> bool" where
  "target_place = (\<lambda>(event, matcher, h). list_ex (\<lambda>(e, mt, script). e = event \<and> mt = matcher) TARGET_HOOKS)"

lemma ucs_trim_twice: "ucs_trim (ucs_trim t) = ucs_trim t"
proof -
  have front: "dropWhile is_white (ucs_trim t) = ucs_trim t"
  proof (cases "dropWhile is_white t")
    case Nil
    have "ucs_trim t = []" unfolding ucs_trim_def Nil by simp
    then show ?thesis by simp
  next
    case (Cons c cs)
    then have c: "\<not> is_white c" by (metis dropWhile_eq_Cons_conv)
    then have "dropWhile is_white (rev cs @ [c]) = dropWhile is_white (rev cs) @ [c]"
      by (induction cs rule: rev_induct) auto
    then have "ucs_trim t = c # rev (dropWhile is_white (rev cs))" by (simp add: ucs_trim_def Cons)
    then show ?thesis using c by simp
  qed
  have "dropWhile P (dropWhile P xs) = dropWhile P xs" for P and xs :: ucs by (induction xs) auto
  then show ?thesis unfolding ucs_trim_def [of "ucs_trim t"] front by (simp add: ucs_trim_def)
qed

lemma own_claimed_hook:
  assumes "claimed c x"
  shows "own_hook claude_root remy_root (Some c) x \<longleftrightarrow> target_place x"
proof -
  obtain event matcher h where x: "x = (event, matcher, h)" by (cases x)
  obtain i where i: "i \<in> set (cl_hooks c)" "hook_command h = Some (ch_command i)"
    using assms by (auto simp: claimed_def x list_ex_iff)
  obtain t where "ch_command i = ucs_trim t" using i(2) by (auto simp: hook_command_def dest: sym)
  then have "ucs_trim (ch_command i) = ch_command i" by (simp add: ucs_trim_twice)
  then have "ch_command i \<in> set (map (\<lambda>h. ucs_trim (ch_command h)) (cl_hooks c))" using i(1) by force
  then have "own_command claude_root remy_root (map (\<lambda>h. ucs_trim (ch_command h)) (cl_hooks c)) script (ch_command i)" for script
    by (simp add: own_command_def)
  then have "gone claude_root remy_root (map (\<lambda>h. ucs_trim (ch_command h)) (cl_hooks c)) target x \<longleftrightarrow>
      (case target of (e, mt, script) \<Rightarrow> e = event \<and> mt = matcher)" for target
    by (cases target) (auto simp: gone_def x i(2))
  then show ?thesis by (simp add: own_hook_def target_place_def x)
qed

text \<open>C21.  What an update and then the uninstallation leave of the hooks an earlier installation put in: all that are outside
  the two places of the tool hooks and not named by the new claim.  So a hook the new template moves to another event
  or drops stays in the settings for good, although the earlier claim names it; in the witness it moves from one event
  to another.\<close>

theorem dropped_hook_stays:
  assumes "unique_keys existing" "merge_settings_document render existing template claude_root remy_root commands (Some earlier) = Inr (result, claim)"
  shows "{x \<in> doc_hooks render (remove_settings_claim_lenient render result claim). claimed earlier x} =
    {x \<in> doc_hooks render existing. claimed earlier x \<and> \<not> target_place x \<and> \<not> claimed claim x}"
  unfolding merged_then_removed(1) [OF assms] using own_claimed_hook by blast

lemma demo_updated: "demo_merge (demo_result [''Setup'']) ''Boot'' (Some (demo_claim ''Setup'')) = Inr (demo_result [''Setup'', ''Boot''], demo_claim ''Boot'')"
  by (simp add: demo_eval verify_settings_claim_def claim_found_def entry_holds_def clean_entry_def as_str_def)

theorem dropped_hook_stays_witness:
  "demo_merge (demo_result [''Setup'']) ''Boot'' (Some (demo_claim ''Setup'')) = Inr (demo_result [''Setup'', ''Boot''], demo_claim ''Boot'') \<and>
   claimed (demo_claim ''Setup'') (lit ''Setup'', lit ''Edit|Write'', demo_hook ''d'') \<and>
   (lit ''Setup'', lit ''Edit|Write'', demo_hook ''d'') \<in>
     doc_hooks (\<lambda>_. []) (remove_settings_claim_lenient (\<lambda>_. []) (demo_result [''Setup'', ''Boot'']) (demo_claim ''Boot''))"
proof -
  let ?x = "(lit ''Setup'', lit ''Edit|Write'', demo_hook ''d'')"
  have unique: "unique_keys (demo_result [''Setup''])" by (simp add: unique_keys_def demo_result_def lit_eq)
  have "hook_command (demo_hook ''d'') = Some (lit ''d'')"
    by (simp add: hook_command_def demo_hook_def json_access_defs lit_eq demo_texts)
  then have "claimed (demo_claim ''Setup'') ?x" "\<not> claimed (demo_claim ''Boot'') ?x" "\<not> target_place ?x"
    by (simp_all add: claimed_def demo_claim_def target_place_def TARGET_HOOKS_def lit_eq)
  moreover have "?x \<in> doc_hooks (\<lambda>_. []) (demo_result [''Setup''])"
    by (simp add: doc_hooks_object demo_result_def hooks_of_def field_array_def entry_hooks_def demo_entry_def string_view_def lit_eq)
  ultimately show ?thesis
    using dropped_hook_stays [OF unique demo_updated [unfolded demo_merge_def]] demo_updated by blast
qed

end
