(* ===== verification/Deployment.thy ===== *)
theory Deployment
  imports Manifest InstallClaims "HOL-Library.Product_Lexorder"
begin

text \<open>
  The installation, \<^verbatim>\<open>remy-cc/src/install/ops.rs\<close>: the plan of the files, the guards of ownership, the order of the
  writes and the commit by the manifest.  The disk is a map from a root and a path below it to contents, with the text of the
  settings and of the manifest apart; digests and the JSON library are parameters.  The payload is given as the code embeds
  it, the binary and the runtime descriptor as their contents.  Failing input and output, and the deferred deletion of locked
  files, are left out.
\<close>

text \<open>Digests, and the reader and the printers of JSON.\<close>

record libraries =
  lib_sha256 :: "ucs \<Rightarrow> ucs"
  lib_parse :: "ucs \<Rightarrow> json option"
  lib_pretty :: "json \<Rightarrow> ucs"
  lib_render :: "json \<Rightarrow> ucs"

section \<open>Runtime descriptor\<close>

record RuntimeDescriptor =
  rd_executable :: ucs
  rd_version :: "nat \<times> nat \<times> nat"
  rd_implementation :: ucs
  rd_platform :: ucs
  rd_probed_at :: ucs

definition RUNTIME_SCHEMA_VERSION :: nat where "RUNTIME_SCHEMA_VERSION = 1"
definition DESCRIPTOR_RELATIVE_PATH :: ucs where "DESCRIPTOR_RELATIVE_PATH = lit ''runtime/python.json''"

definition number :: "nat \<Rightarrow> json" where "number n = JNumber (NInt (int n))"

definition descriptor_to_value :: "RuntimeDescriptor \<Rightarrow> fields_list" where
  "descriptor_to_value d =
     (case rd_version d of (a, b, c) \<Rightarrow>
       [(lit ''schema_version'', number RUNTIME_SCHEMA_VERSION), (lit ''executable'', JString (rd_executable d)),
        (lit ''version'', JArray [number a, number b, number c]), (lit ''implementation'', JString (rd_implementation d)),
        (lit ''platform'', JString (rd_platform d)), (lit ''probed_at'', JString (rd_probed_at d))])"

definition descriptor_bytes :: "libraries \<Rightarrow> RuntimeDescriptor \<Rightarrow> ucs option \<Rightarrow> ucs" where
  "descriptor_bytes lib descriptor existing =
     (let m = descriptor_to_value descriptor;
          m' = (case existing of None \<Rightarrow> m
            | Some text \<Rightarrow>
                (case load_json (lib_parse lib) text of Inl _ \<Rightarrow> m
                 | Inr previous \<Rightarrow>
                     if list_all (\<lambda>k. json_get (lit k) previous = map_of m (lit k)) [''schema_version'', ''executable'', ''version'', ''implementation'', ''platform'']
                     then (case Option.bind (json_get (lit ''probed_at'') previous) as_str of None \<Rightarrow> m
                           | Some at \<Rightarrow> put_field (lit ''probed_at'') (JString at) m)
                     else m))
      in canonical_json (lib_pretty lib) (JObject m'))"

definition parse_probe_payload :: "libraries \<Rightarrow> ucs \<Rightarrow> ucs \<Rightarrow> InstallError + RuntimeDescriptor" where
  "parse_probe_payload lib now stdout =
     (let invalid = Inl (Runtime ''Python interpreter returned an invalid probe'') in
      case lib_parse lib (ucs_trim stdout) of None \<Rightarrow> invalid
      | Some payload \<Rightarrow>
         (case (Option.bind (json_get (lit ''executable'') payload) as_str, Option.bind (json_get (lit ''version'') payload) as_array,
                Option.bind (json_get (lit ''implementation'') payload) as_str, Option.bind (json_get (lit ''platform'') payload) as_str) of
            (Some executable, Some items, Some implementation, Some platform) \<Rightarrow>
              (case List.map_filter as_u64 items of
                 [a, b, c] \<Rightarrow>
                   if (a, b, c) < (3, 10, 0) \<or> \<not> absolute_text executable then Inl (Runtime ''Python 3.10 or newer is required'')
                   else Inr \<lparr>rd_executable = executable, rd_version = (a, b, c), rd_implementation = implementation, rd_platform = platform, rd_probed_at = now\<rparr>
               | _ \<Rightarrow> Inl (Runtime ''Python 3.10 or newer is required''))
          | _ \<Rightarrow> invalid))"

section \<open>Plan\<close>

record PlannedFile =
  pf_root :: ucs
  pf_path :: ucs
  pf_payload :: ucs
  pf_digest :: ucs
  pf_role :: ucs

record ApprovedOverwrite =
  ao_root :: ucs
  ao_path :: ucs
  ao_sha256 :: ucs

record InstallParams =
  ip_claude_root :: ucs
  ip_remy_root :: ucs
  ip_language :: ucs
  ip_suite_version :: ucs
  ip_binary :: "ucs option"
  ip_python :: "InstallError + RuntimeDescriptor"
  ip_artifact_sha256 :: "ucs option"
  ip_approved_overwrites :: "ApprovedOverwrite list"
  ip_contents :: "(ucs \<times> ucs) list"
  ip_template :: ucs
  ip_mcp_template :: ucs
  ip_now :: ucs

record disk =
  dk_files :: "ucs \<times> ucs \<Rightarrow> ucs option"
  dk_settings :: "ucs option"
  dk_manifest :: "ucs option"
  dk_claude_json :: "ucs option"

definition role_for :: "ucs \<Rightarrow> ucs" where
  "role_for path =
     (if starts_with (lit ''hooks/'') path then lit ''python_hook''
      else if starts_with (lit ''skills/'') path then lit ''claude_skill''
      else if starts_with (lit ''output-styles/'') path then lit ''output_style''
      else if starts_with (lit ''remy-src/'') path then lit ''cli_runtime'' else lit ''claude_protocol'')"

definition description_for :: "ucs \<Rightarrow> json \<Rightarrow> ucs option" where
  "description_for language lang_map =
     (let text = (\<lambda>k. case Option.bind (json_get k lang_map) as_str of None \<Rightarrow> None | Some t \<Rightarrow> if t = [] then None else Some t)
      in case text language of None \<Rightarrow> text (lit ''en'') | Some t \<Rightarrow> Some t)"

text \<open>The first line that begins with the key decides; it is replaced when the key stands alone or before a blank.\<close>

fun patch_lines :: "nat \<Rightarrow> ucs \<Rightarrow> ucs list \<Rightarrow> ucs list" where
  "patch_lines 0 description ls = ls"
| "patch_lines (Suc n) description [] = []"
| "patch_lines (Suc n) description (l # ls) =
     (case strip_prefix (lit ''description:'') l of None \<Rightarrow> l # patch_lines n description ls
      | Some rest \<Rightarrow>
          if starts_with [32] rest \<or> list_all (\<lambda>c. c = 13 \<or> c = 10) rest \<or> starts_with [9] rest
          then (lit ''description: '' @ description @ [10]) # ls else l # ls)"

definition DESCRIPTION_SCAN_LINES :: nat where "DESCRIPTION_SCAN_LINES = 8"

fun patch_entry :: "ucs \<Rightarrow> ucs \<Rightarrow> (ucs \<times> ucs) list \<Rightarrow> (ucs \<times> ucs) list" where
  "patch_entry entry description [] = []"
| "patch_entry entry description ((path, text) # contents) =
     (if path = entry then (path, concat (patch_lines DESCRIPTION_SCAN_LINES description (pieces_incl text))) # contents
      else (path, text) # patch_entry entry description contents)"

definition patch_skill :: "ucs \<Rightarrow> ucs \<times> json \<Rightarrow> (ucs \<times> ucs) list \<Rightarrow> (ucs \<times> ucs) list" where
  "patch_skill language = (\<lambda>(skill, lang_map) contents.
     case description_for language lang_map of None \<Rightarrow> contents
     | Some description \<Rightarrow> patch_entry (lit ''skills/'' @ skill @ lit ''/SKILL.md'') description contents)"

definition patch_descriptions :: "libraries \<Rightarrow> (ucs \<times> ucs) list \<Rightarrow> ucs \<Rightarrow> InstallError + (ucs \<times> ucs) list" where
  "patch_descriptions lib contents language =
     (case find (\<lambda>(path, _). path = lit ''skills/skill_descriptions.json'') contents of None \<Rightarrow> Inr contents
      | Some (_, text) \<Rightarrow>
          (case Option.bind (lib_parse lib text) as_object of None \<Rightarrow> Inl (Metadata ''skill_descriptions.json is invalid'')
           | Some descriptions \<Rightarrow> Inr (fold (patch_skill language) descriptions contents)))"

definition plan_claude_contents :: "libraries \<Rightarrow> (ucs \<times> ucs) list \<Rightarrow> ucs \<Rightarrow> InstallError + PlannedFile list" where
  "plan_claude_contents lib contents language =
     res_bind (patch_descriptions lib contents language) (\<lambda>contents.
       let directive = (if language = lit ''zh-CN'' then lit ''Always respond in Chinese-simplified'' @ [10] else lit ''Always respond in English'' @ [10])
       in Inr (map (\<lambda>(path, bytes). \<lparr>pf_root = ROOT_CLAUDE, pf_path = path, pf_payload = bytes, pf_digest = lib_sha256 lib bytes, pf_role = role_for path\<rparr>)
            (contents @ [(lit ''language.md'', directive)])))"

definition plan_binary :: "libraries \<Rightarrow> InstallParams \<Rightarrow> InstallError + PlannedFile" where
  "plan_binary lib params =
     (case ip_binary params of None \<Rightarrow> Inl (Runtime ''no usable remy-cc binary was found'')
      | Some bytes \<Rightarrow> Inr \<lparr>pf_root = ROOT_REMY, pf_path = lit ''bin/'' @ managed_exe_name (ip_remy_root params), pf_payload = bytes,
          pf_digest = lib_sha256 lib bytes, pf_role = lit ''daemon_binary''\<rparr>)"

definition plan_files :: "libraries \<Rightarrow> InstallParams \<Rightarrow> disk \<Rightarrow> InstallError + PlannedFile list" where
  "plan_files lib params d =
     res_bind (plan_claude_contents lib (ip_contents params) (ip_language params)) (\<lambda>contents.
     res_bind (plan_binary lib params) (\<lambda>binary.
       Inr (contents @ [binary] @
         (case ip_python params of Inl _ \<Rightarrow> []
          | Inr descriptor \<Rightarrow>
              (let bytes = descriptor_bytes lib descriptor (dk_files d (ROOT_REMY, DESCRIPTOR_RELATIVE_PATH))
               in [\<lparr>pf_root = ROOT_REMY, pf_path = DESCRIPTOR_RELATIVE_PATH, pf_payload = bytes,
                   pf_digest = lib_sha256 lib bytes, pf_role = lit ''runtime_descriptor''\<rparr>])))))"

section \<open>Guards of ownership\<close>

definition pf_key :: "PlannedFile \<Rightarrow> ucs \<times> ucs" where "pf_key f = (pf_root f, pf_path f)"
definition fr_key :: "FileRecord \<Rightarrow> ucs \<times> ucs" where "fr_key r = (fr_root r, fr_path r)"

definition key_text :: "ucs \<times> ucs \<Rightarrow> ucs" where "key_text k = fst k @ [47] @ snd k"

definition disk_digest :: "libraries \<Rightarrow> disk \<Rightarrow> ucs \<times> ucs \<Rightarrow> ucs option" where
  "disk_digest lib d k = map_option (lib_sha256 lib) (dk_files d k)"

text \<open>Whether a planned file is written, and whether the file it replaces is copied first; or it is a conflict.\<close>

datatype verdict = Keep | Replace | BackupAndReplace | Conflict ucs

definition judge_file :: "InstallParams \<Rightarrow> PlannedFile \<Rightarrow> ucs option \<Rightarrow> FileRecord option \<Rightarrow> InstallError + verdict" where
  "judge_file params f disk old =
     (case disk of None \<Rightarrow> Inr Replace
      | Some d \<Rightarrow>
          if d = pf_digest f then Inr Keep
          else (case old of
              Some r \<Rightarrow> if d = fr_sha256 r then Inr Replace else Inl (Runtime ''a managed target changed after preflight'')
            | None \<Rightarrow>
                (case find (\<lambda>a. ao_root a = pf_root f \<and> ao_path a = pf_path f) (ip_approved_overwrites params) of
                   Some a \<Rightarrow> if ao_sha256 a = d then Inr BackupAndReplace else Inl (RuntimeAt ''an approved target changed after preflight: '' (key_text (pf_key f)))
                 | None \<Rightarrow> Inr (Conflict d))))"

fun judge_files :: "libraries \<Rightarrow> InstallParams \<Rightarrow> disk \<Rightarrow> PlannedFile list \<Rightarrow> FileRecord list \<Rightarrow> InstallError + verdict list \<times> FileRecord list" where
  "judge_files lib params d [] old = Inr ([], old)"
| "judge_files lib params d (f # fs) old =
     res_bind (judge_file params f (disk_digest lib d (pf_key f)) (find (\<lambda>r. fr_key r = pf_key f) old)) (\<lambda>v.
     res_bind (judge_files lib params d fs (filter (\<lambda>r. fr_key r \<noteq> pf_key f) old)) (\<lambda>(vs, rest). Inr (v # vs, rest)))"

fun conflicts :: "PlannedFile list \<Rightarrow> verdict list \<Rightarrow> (ucs \<times> ucs \<times> ucs) list" where
  "conflicts (f # fs) (Conflict d # vs) = (pf_root f, pf_path f, d) # conflicts fs vs"
| "conflicts (f # fs) (_ # vs) = conflicts fs vs"
| "conflicts _ _ = []"

fun obsolete :: "libraries \<Rightarrow> disk \<Rightarrow> FileRecord list \<Rightarrow> InstallError + (ucs \<times> ucs) list" where
  "obsolete lib d [] = Inr []"
| "obsolete lib d (r # rs) =
     (case disk_digest lib d (fr_key r) of None \<Rightarrow> obsolete lib d rs
      | Some digest \<Rightarrow> if digest = fr_sha256 r then res_bind (obsolete lib d rs) (\<lambda>ks. Inr (fr_key r # ks))
                       else Inl (Runtime ''an obsolete managed target was modified''))"

section \<open>Settings\<close>

definition load_json_object_or_empty :: "libraries \<Rightarrow> string \<Rightarrow> string \<Rightarrow> ucs option \<Rightarrow> InstallError + json" where
  "load_json_object_or_empty lib invalid no_object stored =
     (case stored of None \<Rightarrow> Inr (JObject [])
      | Some text \<Rightarrow> (case lib_parse lib text of None \<Rightarrow> Inl (Metadata invalid)
          | Some v \<Rightarrow> if as_object v = None then Inl (Metadata no_object) else Inr v))"

definition load_settings_file :: "libraries \<Rightarrow> ucs option \<Rightarrow> InstallError + json" where
  "load_settings_file lib stored = load_json_object_or_empty lib ''settings.json is invalid'' ''settings.json must be an object'' stored"

definition settings_write :: "libraries \<Rightarrow> ucs option \<Rightarrow> ucs \<Rightarrow> bool" where
  "settings_write lib stored text = (case stored of None \<Rightarrow> True | Some old \<Rightarrow> lib_sha256 lib old \<noteq> lib_sha256 lib text)"

section \<open>Actions\<close>

datatype action = Backup "ucs \<times> ucs" | WriteFile "ucs \<times> ucs" ucs | WriteSettings ucs | RemoveFile "ucs \<times> ucs"

definition bak :: "ucs \<times> ucs \<Rightarrow> ucs \<times> ucs" where "bak k = (fst k, snd k @ lit ''.bak'')"

fun perform :: "action \<Rightarrow> disk \<Rightarrow> disk" where
  "perform (Backup k) d = d\<lparr>dk_files := (dk_files d)(bak k := dk_files d k)\<rparr>"
| "perform (WriteFile k bytes) d = d\<lparr>dk_files := (dk_files d)(k \<mapsto> bytes)\<rparr>"
| "perform (WriteSettings text) d = d\<lparr>dk_settings := Some text\<rparr>"
| "perform (RemoveFile k) d = d\<lparr>dk_files := (dk_files d)(k := None)\<rparr>"

definition file_action :: "PlannedFile \<Rightarrow> verdict \<Rightarrow> action list" where
  "file_action f v =
     (case v of Replace \<Rightarrow> [WriteFile (pf_key f) (pf_payload f)]
      | BackupAndReplace \<Rightarrow> [Backup (pf_key f), WriteFile (pf_key f) (pf_payload f)]
      | _ \<Rightarrow> [])"

fun file_actions :: "PlannedFile list \<Rightarrow> verdict list \<Rightarrow> action list" where
  "file_actions (f # fs) (v # vs) = file_action f v @ file_actions fs vs"
| "file_actions _ _ = []"

fun changed :: "action list \<Rightarrow> ucs list" where
  "changed [] = []"
| "changed (a # as) =
     (case a of Backup k \<Rightarrow> key_text (bak k) # changed as
      | WriteFile k _ \<Rightarrow> key_text k # changed as
      | WriteSettings _ \<Rightarrow> lit ''claude/settings.json'' # changed as
      | RemoveFile _ \<Rightarrow> changed as)"

section \<open>Installation\<close>

record InstallPlan =
  pn_files :: "action list"
  pn_settings :: "action list"
  pn_obsolete :: "action list"
  pn_manifest :: Manifest

definition manifest_payload_equal :: "Manifest \<Rightarrow> Manifest \<Rightarrow> bool" where
  "manifest_payload_equal old new \<longleftrightarrow> mf_suite_version old = mf_suite_version new \<and> mf_artifact_sha256 old = mf_artifact_sha256 new \<and>
     mf_files old = mf_files new \<and> mf_settings_claim old = mf_settings_claim new"

definition file_record_of :: "PlannedFile \<Rightarrow> FileRecord" where
  "file_record_of f = \<lparr>fr_root = pf_root f, fr_path = pf_path f, fr_sha256 = pf_digest f, fr_role = pf_role f\<rparr>"

definition new_manifest :: "InstallParams \<Rightarrow> Manifest option \<Rightarrow> PlannedFile list \<Rightarrow> SettingsClaim \<Rightarrow> Manifest" where
  "new_manifest params old planned claim =
     (let m = \<lparr>mf_suite_version = ip_suite_version params, mf_installed_at = ip_now params, mf_artifact_sha256 = ip_artifact_sha256 params,
             mf_files = sort_key fr_key (map file_record_of planned), mf_settings_claim = claim\<rparr>
      in case old of Some previous \<Rightarrow> if manifest_payload_equal previous m then m\<lparr>mf_installed_at := mf_installed_at previous\<rparr> else m | None \<Rightarrow> m)"

definition old_manifest :: "LoadedManifest option \<Rightarrow> Manifest option" where
  "old_manifest loaded = map_option (\<lambda>l. case l of CurrentManifest m \<Rightarrow> m | V3Migration m \<Rightarrow> m) loaded"

definition old_records :: "Manifest option \<Rightarrow> FileRecord list" where
  "old_records old = (case old of None \<Rightarrow> [] | Some m \<Rightarrow> sort_key fr_key (mf_files m))"

definition merged_settings :: "libraries \<Rightarrow> InstallParams \<Rightarrow> disk \<Rightarrow> Manifest option \<Rightarrow> InstallError + json \<times> SettingsClaim" where
  "merged_settings lib params d old =
     res_bind (load_settings_file lib (dk_settings d)) (\<lambda>existing.
     res_bind (case lib_parse lib (ip_template params) of None \<Rightarrow> Inl (Metadata ''settings template is invalid'') | Some t \<Rightarrow> Inr t) (\<lambda>template.
     res_bind (hook_commands (ip_remy_root params)) (\<lambda>commands.
       merge_settings_document (lib_render lib) existing template (ip_claude_root params) (ip_remy_root params) commands (map_option mf_settings_claim old))))"

definition plan_settings :: "libraries \<Rightarrow> disk \<Rightarrow> json \<Rightarrow> action list" where
  "plan_settings lib d merged =
     (let text = canonical_json (lib_pretty lib) merged in if settings_write lib (dk_settings d) text then [WriteSettings text] else [])"

definition plan_install :: "libraries \<Rightarrow> InstallParams \<Rightarrow> disk \<Rightarrow> InstallError + InstallPlan" where
  "plan_install lib params d =
     res_bind (load_manifest (lib_parse lib) (dk_manifest d)) (\<lambda>loaded.
     let old = old_manifest loaded in
     res_bind (plan_files lib params d) (\<lambda>planned.
     res_bind (judge_files lib params d planned (old_records old)) (\<lambda>(verdicts, rest).
     if conflicts planned verdicts \<noteq> [] then Inl (UnmanagedConflicts (conflicts planned verdicts))
     else
     res_bind (obsolete lib d rest) (\<lambda>gone.
     res_bind (merged_settings lib params d old) (\<lambda>(merged, claim).
       Inr \<lparr>pn_files = file_actions planned verdicts, pn_settings = plan_settings lib d merged, pn_obsolete = map RemoveFile gone,
            pn_manifest = new_manifest params old planned claim\<rparr>)))))"

definition plan_actions :: "InstallPlan \<Rightarrow> action list" where
  "plan_actions p = pn_files p @ pn_settings p @ pn_obsolete p"

text \<open>Up to the commit by the manifest.  The list is of what changed.\<close>

definition commit_install :: "libraries \<Rightarrow> InstallParams \<Rightarrow> disk \<Rightarrow> (InstallError + ucs list) \<times> disk" where
  "commit_install lib params d =
     (case plan_install lib params d of Inl e \<Rightarrow> (Inl e, d)
      | Inr p \<Rightarrow>
          (let d' = fold perform (plan_actions p) d
           in case write_manifest (lib_pretty lib) (pn_manifest p) of Inl e \<Rightarrow> (Inl e, d')
              | Inr text \<Rightarrow> (Inr (changed (plan_actions p)), d'\<lparr>dk_manifest := Some text\<rparr>)))"

section \<open>After the commit\<close>

definition message :: "InstallError \<Rightarrow> ucs" where
  "message e = (case e of Metadata t \<Rightarrow> lit t | Runtime t \<Rightarrow> lit t | RuntimeAt t place \<Rightarrow> lit t @ place | UnmanagedConflicts _ \<Rightarrow> lit ''an unmanaged target has different content'')"

definition REMY_HOME_PLACEHOLDER :: ucs where "REMY_HOME_PLACEHOLDER = lit ''~/.remy-cc/''"

definition expand_placeholder :: "ucs \<Rightarrow> ucs \<Rightarrow> ucs \<Rightarrow> ucs" where
  "expand_placeholder claude_root remy_root v =
     (let claude_prefix = slashes claude_root; remy_prefix = slashes remy_root in
      if v = REMY_HOME_PLACEHOLDER @ lit ''bin/remy-cc'' then remy_prefix @ lit ''/bin/'' @ managed_exe_name remy_root
      else if contains_ucs v CLAUDE_HOME_PLACEHOLDER then replace_text CLAUDE_HOME_PLACEHOLDER (claude_prefix @ [47]) v
      else if contains_ucs v REMY_HOME_PLACEHOLDER then replace_text REMY_HOME_PLACEHOLDER (remy_prefix @ [47]) v
      else v)"

definition expand_server :: "(ucs \<Rightarrow> ucs) \<Rightarrow> json \<Rightarrow> json" where
  "expand_server expand config =
     (case config of JObject m \<Rightarrow>
        (let m1 = (case Option.bind (map_of m (lit ''command'')) as_str of None \<Rightarrow> m | Some t \<Rightarrow> put_field (lit ''command'') (JString (expand t)) m)
         in case field_array (lit ''args'') m1 of None \<Rightarrow> JObject m1
            | Some args \<Rightarrow> JObject (put_field (lit ''args'')
                (JArray (map (\<lambda>a. case as_str a of None \<Rightarrow> a | Some t \<Rightarrow> JString (expand t)) args)) m1))
      | _ \<Rightarrow> config)"

definition register_mcp :: "libraries \<Rightarrow> InstallParams \<Rightarrow> disk \<Rightarrow> InstallError + disk" where
  "register_mcp lib params d =
     res_bind (case Option.bind (lib_parse lib (ip_mcp_template params)) as_object of None \<Rightarrow> Inl (Metadata ''MCP template is invalid'') | Some m \<Rightarrow> Inr m) (\<lambda>template.
     res_bind (load_json_object_or_empty lib ''.claude.json is invalid'' ''.claude.json must be an object'' (dk_claude_json d)) (\<lambda>existing.
       case existing of JObject m \<Rightarrow>
         (case as_object (entry_or (lit ''mcpServers'') (JObject []) m) of None \<Rightarrow> Inl (Metadata ''.claude.json mcpServers must be an object'')
          | Some servers \<Rightarrow>
              (let servers' = fold (\<lambda>(name, config) s. put_field name
                     (expand_server (expand_placeholder (ip_claude_root params) (ip_remy_root params)) config) s) template servers
               in Inr (d\<lparr>dk_claude_json := Some (canonical_json (lib_pretty lib) (JObject (put_field (lit ''mcpServers'') (JObject servers') m)))\<rparr>)))
       | _ \<Rightarrow> Inl (Metadata ''.claude.json must be an object'')))"

definition CONFIG_KEY :: "ucs \<times> ucs" where "CONFIG_KEY = (ROOT_CLAUDE, lit ''remy-config.json'')"
definition LEGACY_MANIFEST_KEY :: "ucs \<times> ucs" where "LEGACY_MANIFEST_KEY = (ROOT_CLAUDE, lit ''.installer_manifest.json'')"
definition TRANSACTION_KEY :: "ucs \<times> ucs" where "TRANSACTION_KEY = (ROOT_REMY, lit ''install/transaction.json'')"

definition save_language :: "libraries \<Rightarrow> ucs \<Rightarrow> disk \<Rightarrow> disk" where
  "save_language lib language d =
     (let fresh = [(lit ''schema_version'', JString (lit ''1.0.0'')), (lit ''values'', JObject [])];
          document = (case dk_files d CONFIG_KEY of None \<Rightarrow> fresh
            | Some text \<Rightarrow> (case load_json (lib_parse lib) text of Inl _ \<Rightarrow> fresh
                | Inr v \<Rightarrow> (case as_object v of None \<Rightarrow> fresh
                    | Some m \<Rightarrow> (case Option.bind (map_of m (lit ''values'')) as_object of None \<Rightarrow> fresh | Some _ \<Rightarrow> m))));
          settings = (case Option.bind (map_of document (lit ''values'')) as_object of None \<Rightarrow> [] | Some vs \<Rightarrow> vs)
      in d\<lparr>dk_files := (dk_files d)(CONFIG_KEY \<mapsto> canonical_json (lib_pretty lib)
           (JObject (put_field (lit ''values'') (JObject (put_field (lit ''REMY_LANG'') (JString language) settings)) document)))\<rparr>)"

definition post_commit :: "libraries \<Rightarrow> InstallParams \<Rightarrow> disk \<Rightarrow> ucs list \<times> bool \<times> disk" where
  "post_commit lib params d =
     (let d1 = (case dk_files d LEGACY_MANIFEST_KEY of None \<Rightarrow> d
            | Some text \<Rightarrow> d\<lparr>dk_files := (dk_files d)(bak LEGACY_MANIFEST_KEY \<mapsto> text, LEGACY_MANIFEST_KEY := None)\<rparr>);
          d2 = perform (RemoveFile TRANSACTION_KEY) d1
      in case register_mcp lib params d2 of
           Inl e \<Rightarrow> ([lit ''MCP registration failed: '' @ message e], True, save_language lib (ip_language params) d2)
         | Inr d3 \<Rightarrow> ([], False, save_language lib (ip_language params) d3))"

record InstallReport =
  rp_changed :: "ucs list"
  rp_warnings :: "ucs list"
  rp_post_commit_failed :: bool

definition install :: "libraries \<Rightarrow> InstallParams \<Rightarrow> disk \<Rightarrow> (InstallError + InstallReport) \<times> disk" where
  "install lib params d =
     (case commit_install lib params d of (Inl e, d') \<Rightarrow> (Inl e, d')
      | (Inr names, d') \<Rightarrow>
          (let (warnings, failed, d'') = post_commit lib params d';
               probe = (case ip_python params of Inr _ \<Rightarrow> [] | Inl e \<Rightarrow>
                 [lit ''python probe unavailable ('' @ message e @ lit ''); runtime descriptor not refreshed (Python 3.10+ is a runtime prerequisite)''])
           in (Inr \<lparr>rp_changed = names, rp_warnings = probe @ warnings, rp_post_commit_failed = failed\<rparr>, d'')))"

section \<open>Verification and removal\<close>

text \<open>What is observed of the running system: the outcome of running an interpreter, whether the lock of the daemon is held
  or the error of asking, its token, and the version the daemon reports.\<close>

record observations =
  ob_version :: ucs
  ob_probe :: "ucs \<Rightarrow> InstallError option"
  ob_held :: "ucs + bool"
  ob_token :: "ucs option"
  ob_hello :: "ucs \<Rightarrow> ucs option"

definition running_daemon_version :: "observations \<Rightarrow> ucs list \<times> ucs option" where
  "running_daemon_version ob =
     (case ob_held ob of Inl e \<Rightarrow> ([lit ''cannot probe the daemon lock: '' @ e @ lit ''; daemon version check skipped''], None)
      | Inr False \<Rightarrow> ([], None)
      | Inr True \<Rightarrow> (case ob_token ob of
            None \<Rightarrow> ([lit ''daemon is running but its token is unreadable; daemon version check skipped''], None)
          | Some t \<Rightarrow> ([], ob_hello ob t)))"

definition verify_record :: "libraries \<Rightarrow> disk \<Rightarrow> FileRecord \<Rightarrow> ucs list" where
  "verify_record lib d r =
     (case disk_digest lib d (fr_key r) of None \<Rightarrow> [lit ''an owned file is missing: '' @ fr_path r]
      | Some digest \<Rightarrow> if digest = fr_sha256 r then [] else [lit ''an owned file was modified: '' @ fr_path r])"

definition verify_manifest :: "libraries \<Rightarrow> disk \<Rightarrow> ucs list" where
  "verify_manifest lib d =
     (case load_manifest (lib_parse lib) (dk_manifest d) of
        Inl e \<Rightarrow> [message e]
      | Inr None \<Rightarrow> [lit ''install manifest is missing'']
      | Inr (Some (V3Migration _)) \<Rightarrow> [lit ''install manifest is schema v3; run remy-cc install to migrate'']
      | Inr (Some (CurrentManifest m)) \<Rightarrow>
          concat (map (verify_record lib d) (mf_files m)) @
          (case load_settings_file lib (dk_settings d) of Inl e \<Rightarrow> [message e]
           | Inr doc \<Rightarrow> (case verify_settings_claim (lib_render lib) doc (mf_settings_claim m) of Inl e \<Rightarrow> [message e] | Inr _ \<Rightarrow> [])))"

definition verify_runtime :: "libraries \<Rightarrow> observations \<Rightarrow> disk \<Rightarrow> ucs list" where
  "verify_runtime lib ob d =
     (case Option.bind (dk_files d (ROOT_REMY, DESCRIPTOR_RELATIVE_PATH)) (\<lambda>text. case load_json (lib_parse lib) text of Inl _ \<Rightarrow> None | Inr v \<Rightarrow> Some v) of
        None \<Rightarrow> [lit ''runtime descriptor is missing (Python 3.10+ is a runtime prerequisite)'']
      | Some descriptor \<Rightarrow>
          (case Option.bind (json_get (lit ''executable'') descriptor) as_str of None \<Rightarrow> [lit ''runtime descriptor is invalid'']
           | Some executable \<Rightarrow> (case ob_probe ob executable of None \<Rightarrow> [] | Some e \<Rightarrow> [message e])))"

definition verify_daemon :: "observations \<Rightarrow> ucs list" where
  "verify_daemon ob =
     (case running_daemon_version ob of (warnings, running) \<Rightarrow>
        warnings @ (case running of None \<Rightarrow> []
          | Some v \<Rightarrow> if v = ob_version ob then []
              else [lit ''daemon runs '' @ v @ lit '' but this binary is '' @ ob_version ob @ lit ''; run remy-cc daemon restart'']))"

definition verify :: "libraries \<Rightarrow> observations \<Rightarrow> disk \<Rightarrow> ucs list" where
  "verify lib ob d = verify_manifest lib d @ verify_runtime lib ob d @ verify_daemon ob"

definition clean_settings :: "libraries \<Rightarrow> SettingsClaim \<Rightarrow> disk \<Rightarrow> ucs list \<times> ucs list \<times> disk" where
  "clean_settings lib claim d =
     (case dk_settings d of None \<Rightarrow> ([], [], d)
      | Some text \<Rightarrow>
          (case load_settings_file lib (Some text) of
             Inl e \<Rightarrow> ([], [lit ''settings cleanup skipped: '' @ message e], d)
           | Inr doc \<Rightarrow>
               (let cleaned = canonical_json (lib_pretty lib) (remove_settings_claim_lenient (lib_render lib) doc claim)
                in if settings_write lib (Some text) cleaned then ([lit ''claude/settings.json''], [], perform (WriteSettings cleaned) d) else ([], [], d))))"

definition uninstall :: "libraries \<Rightarrow> observations \<Rightarrow> bool \<Rightarrow> disk \<Rightarrow> (InstallError + InstallReport) \<times> disk" where
  "uninstall lib ob purge_state d =
     (case load_manifest (lib_parse lib) (dk_manifest d) of Inl e \<Rightarrow> (Inl e, d)
      | Inr loaded \<Rightarrow>
         (case old_manifest loaded of None \<Rightarrow> (Inl (Runtime ''install manifest is missing''), d)
          | Some m \<Rightarrow>
             if ob_held ob = Inr True then (Inl (Runtime ''daemon must be stopped before uninstall; run: remy-cc daemon stop''), d)
             else
               (let lock_warnings = (case ob_held ob of Inr _ \<Rightarrow> []
                      | Inl e \<Rightarrow> [lit ''cannot probe the daemon lock: '' @ e @ lit ''; continuing (locked files defer to the pending register)'']);
                    present = filter (\<lambda>r. dk_files d (fr_key r) \<noteq> None) (mf_files m);
                    d1 = fold perform (map (\<lambda>r. RemoveFile (fr_key r)) present) d;
                    (names, warnings, d2) = clean_settings lib (mf_settings_claim m) d1;
                    d3 = d2\<lparr>dk_manifest := None\<rparr>;
                    d4 = (if purge_state then d3\<lparr>dk_files := (\<lambda>k. if fst k = ROOT_REMY then None else dk_files d3 k)\<rparr> else d3)
                in (Inr \<lparr>rp_changed = map (\<lambda>r. key_text (fr_key r)) present @ names, rp_warnings = lock_warnings @ warnings, rp_post_commit_failed = False\<rparr>, d4))))"

end
