(* ===== verification/Rollout.thy ===== *)
theory Rollout
  imports Deployment
begin

text \<open>
  What an installation does to the disk: which contents it may change, that an interrupted run of its writes converges, and
  what its outcome is.
\<close>

section \<open>The judged files\<close>

text \<open>The planned files are at different places, and no backup of one is at the place of a planned or recorded file.\<close>

definition apart :: "PlannedFile list \<Rightarrow> FileRecord list \<Rightarrow> bool" where
  "apart planned records \<longleftrightarrow> distinct (map pf_key planned) \<and>
     (\<forall>f \<in> set planned. bak (pf_key f) \<notin> pf_key ` set planned \<and> bak (pf_key f) \<notin> fr_key ` set records)"

definition judged :: "libraries \<Rightarrow> InstallParams \<Rightarrow> disk \<Rightarrow> FileRecord list \<Rightarrow> PlannedFile \<Rightarrow> InstallError + verdict" where
  "judged lib params d records f = judge_file params f (disk_digest lib d (pf_key f)) (find (\<lambda>r. fr_key r = pf_key f) records)"

lemma bak_inj [simp]: "bak k = bak k' \<longleftrightarrow> k = k'"
  by (auto simp: bak_def prod_eq_iff)

lemma find_in_filter: "(\<And>x. x \<in> set xs \<Longrightarrow> P x \<Longrightarrow> Q x) \<Longrightarrow> find P (filter Q xs) = find P xs"
  by (induction xs) auto

lemma judge_files_iff:
  assumes "distinct (map pf_key fs)"
  shows "judge_files lib params d fs records = Inr (vs, rest) \<longleftrightarrow>
    list_all2 (\<lambda>f v. judged lib params d records f = Inr v) fs vs \<and> rest = filter (\<lambda>r. fr_key r \<notin> pf_key ` set fs) records"
  using assms
proof (induction fs arbitrary: records vs rest)
  case (Cons f fs)
  let ?records = "filter (\<lambda>r. fr_key r \<noteq> pf_key f) records"
  have other: "judged lib params d ?records g = judged lib params d records g" if "g \<in> set fs" for g
  proof -
    have "pf_key g \<noteq> pf_key f" using Cons.prems that by (metis distinct.simps(2) imageI list.set_map list.simps(9))
    then have "find (\<lambda>r. fr_key r = pf_key g) ?records = find (\<lambda>r. fr_key r = pf_key g) records" by (intro find_in_filter) auto
    then show ?thesis by (simp add: judged_def)
  qed
  have same: "list_all2 (\<lambda>f v. judged lib params d ?records f = Inr v) fs ws \<longleftrightarrow> list_all2 (\<lambda>f v. judged lib params d records f = Inr v) fs ws" for ws
    unfolding list_all2_iff using other by (intro conj_cong refl ball_cong) (auto dest: set_zip_leftD)
  have rest: "filter (\<lambda>r. fr_key r \<notin> pf_key ` set fs) ?records = filter (\<lambda>r. fr_key r \<notin> pf_key ` set (f # fs)) records"
    by (auto intro: filter_cong)
  have IH: "judge_files lib params d fs ?records = Inr (ws, rs) \<longleftrightarrow>
      list_all2 (\<lambda>f v. judged lib params d records f = Inr v) fs ws \<and> rs = filter (\<lambda>r. fr_key r \<notin> pf_key ` set (f # fs)) records" for ws rs
    using Cons.IH [of ?records ws rs] Cons.prems unfolding same rest by simp
  show ?case by (auto simp: res_bind_Inr_iff IH judged_def [symmetric] list_all2_Cons1)
qed auto

lemma conflicts_none: "conflicts fs vs = [] \<Longrightarrow> list_all2 R fs vs \<Longrightarrow> Conflict c \<notin> set vs"
  by (induction fs vs rule: conflicts.induct) auto

lemma conflicts_empty: "(\<And>c. Conflict c \<notin> set vs) \<Longrightarrow> conflicts fs vs = []"
  by (induction fs vs rule: conflicts.induct) auto

section \<open>The writes\<close>

definition writes :: "verdict \<Rightarrow> bool" where
  "writes v \<longleftrightarrow> v = Replace \<or> v = BackupAndReplace"

definition new_contents :: "PlannedFile list \<Rightarrow> verdict list \<Rightarrow> ((ucs \<times> ucs) \<times> ucs) list" where
  "new_contents fs vs = map (\<lambda>(f, v). (pf_key f, pf_payload f)) (filter (\<lambda>(f, v). writes v) (zip fs vs))"

definition saved :: "PlannedFile list \<Rightarrow> verdict list \<Rightarrow> ((ucs \<times> ucs) \<times> (ucs \<times> ucs)) list" where
  "saved fs vs = map (\<lambda>(f, v). (bak (pf_key f), pf_key f)) (filter (\<lambda>(f, v). v = BackupAndReplace) (zip fs vs))"

definition files_apart :: "PlannedFile list \<Rightarrow> bool" where
  "files_apart fs \<longleftrightarrow> distinct (map pf_key fs) \<and> (\<forall>f \<in> set fs. bak (pf_key f) \<notin> pf_key ` set fs)"

lemma files_apart_Cons: "files_apart (f # fs) \<Longrightarrow>
  files_apart fs \<and> pf_key f \<notin> pf_key ` set fs \<and> bak (pf_key f) \<noteq> pf_key f \<and> bak (pf_key f) \<notin> pf_key ` set fs \<and> (\<forall>g \<in> set fs. bak (pf_key g) \<noteq> pf_key f)"
  by (auto simp: files_apart_def)


lemma new_contents_keys: "map_of (new_contents fs vs) k = Some x \<Longrightarrow> k \<in> pf_key ` set fs"
  by (drule map_of_SomeD) (auto simp: new_contents_def dest: set_zip_leftD)

lemma saved_keys: "map_of (saved fs vs) k = Some k0 \<Longrightarrow> k = bak k0 \<and> k0 \<in> pf_key ` set fs"
  by (drule map_of_SomeD) (auto simp: saved_def dest: set_zip_leftD)

lemma contents_after:
  assumes "files_apart fs"
  shows "dk_files (fold perform (file_actions fs vs) d) k =
    (case map_of (new_contents fs vs) k of Some x \<Rightarrow> Some x
     | None \<Rightarrow> (case map_of (saved fs vs) k of Some k0 \<Rightarrow> dk_files d k0 | None \<Rightarrow> dk_files d k))"
  using assms
proof (induction fs vs arbitrary: d rule: file_actions.induct)
  case (1 f fs v vs)
  note ap = files_apart_Cons [OF "1.prems"]
  let ?d = "fold perform (file_action f v) d"
  have new: "map_of (new_contents fs vs) (pf_key f) = None" "map_of (new_contents fs vs) (bak (pf_key f)) = None"
    using ap new_contents_keys by (metis not_Some_eq)+
  have sav: "map_of (saved fs vs) (pf_key f) = None" "map_of (saved fs vs) (bak (pf_key f)) = None"
    using ap saved_keys by (metis (no_types, lifting) bak_inj imageE not_Some_eq)+
  have one: "dk_files ?d k = (if k = pf_key f \<and> writes v then Some (pf_payload f) else if k = bak (pf_key f) \<and> v = BackupAndReplace then dk_files d (pf_key f) else dk_files d k)" for k
    using ap by (cases v) (auto simp: file_action_def writes_def)
  have here: "dk_files ?d k0 = dk_files d k0" if "map_of (saved fs vs) k = Some k0" for k0
    using saved_keys [OF that] ap by (metis one)
  have IH: "dk_files (fold perform (file_actions fs vs) ?d) k =
      (case map_of (new_contents fs vs) k of Some x \<Rightarrow> Some x | None \<Rightarrow> (case map_of (saved fs vs) k of Some k0 \<Rightarrow> dk_files ?d k0 | None \<Rightarrow> dk_files ?d k))"
    using "1.IH" ap by blast
  have heads: "new_contents (f # fs) (v # vs) = (if writes v then [(pf_key f, pf_payload f)] else []) @ new_contents fs vs"
      "saved (f # fs) (v # vs) = (if v = BackupAndReplace then [(bak (pf_key f), pf_key f)] else []) @ saved fs vs"
    by (simp_all add: new_contents_def saved_def)
  have step: "dk_files (fold perform (file_actions (f # fs) (v # vs)) d) k = dk_files (fold perform (file_actions fs vs) ?d) k" by simp
  consider "k = pf_key f" | "k = bak (pf_key f)" "k \<noteq> pf_key f" | "k \<noteq> bak (pf_key f)" "k \<noteq> pf_key f" by blast
  then show ?case
  proof cases
    case 1 then show ?thesis unfolding step IH heads using ap by (simp add: new sav one writes_def)
  next
    case 2 then show ?thesis unfolding step IH heads using ap by (simp add: new sav one writes_def)
  next
    case 3
    then have far: "dk_files ?d k = dk_files d k" by (simp add: one)
    show ?thesis unfolding step IH heads
    proof (cases "map_of (new_contents fs vs) k")
      case None then show "(case map_of (new_contents fs vs) k of Some x \<Rightarrow> Some x | None \<Rightarrow> (case map_of (saved fs vs) k of Some k0 \<Rightarrow> dk_files ?d k0 | None \<Rightarrow> dk_files ?d k)) =
          (case map_of ((if writes v then [(pf_key f, pf_payload f)] else []) @ new_contents fs vs) k of Some x \<Rightarrow> Some x
           | None \<Rightarrow> (case map_of ((if v = BackupAndReplace then [(bak (pf_key f), pf_key f)] else []) @ saved fs vs) k of Some k0 \<Rightarrow> dk_files d k0 | None \<Rightarrow> dk_files d k))"
        using 3 here by (cases "map_of (saved fs vs) k") (auto simp: far)
    qed (use 3 in auto)
  qed
qed (simp_all add: new_contents_def saved_def)

lemma new_contents_at:
  assumes "distinct (map pf_key fs)" "(f, v) \<in> set (zip fs vs)"
  shows "map_of (new_contents fs vs) (pf_key f) = (if writes v then Some (pf_payload f) else None)"
  using assms
proof (induction fs arbitrary: vs)
  case (Cons g fs)
  obtain w ws where vs: "vs = w # ws" using Cons.prems(2) by (cases vs) auto
  have unique: "map_of (new_contents fs ws) (pf_key g) = None" using Cons.prems(1) new_contents_keys by (metis distinct.simps(2) list.set_map list.simps(9) not_Some_eq)
  show ?case
  proof (cases "(f, v) = (g, w)")
    case True then show ?thesis using unique by (simp add: vs new_contents_def)
  next
    case False
    then have "(f, v) \<in> set (zip fs ws)" using Cons.prems(2) by (auto simp: vs)
    moreover from set_zip_leftD [OF this] have "pf_key f \<noteq> pf_key g" using Cons.prems(1) by (metis distinct.simps(2) imageI list.set_map list.simps(9))
    ultimately show ?thesis using Cons.IH [of ws] Cons.prems(1) by (simp add: vs new_contents_def)
  qed
qed simp

lemma saved_at:
  assumes "distinct (map pf_key fs)" "(f, v) \<in> set (zip fs vs)"
  shows "map_of (saved fs vs) (bak (pf_key f)) = (if v = BackupAndReplace then Some (pf_key f) else None)"
  using assms
proof (induction fs arbitrary: vs)
  case (Cons g fs)
  obtain w ws where vs: "vs = w # ws" using Cons.prems(2) by (cases vs) auto
  have unique: "map_of (saved fs ws) (bak (pf_key g)) = None"
    using Cons.prems(1) saved_keys by (metis bak_inj distinct.simps(2) list.set_map list.simps(9) not_Some_eq)
  show ?case
  proof (cases "(f, v) = (g, w)")
    case True then show ?thesis using unique by (simp add: vs saved_def)
  next
    case False
    then have "(f, v) \<in> set (zip fs ws)" using Cons.prems(2) by (auto simp: vs)
    moreover from set_zip_leftD [OF this] have "pf_key f \<noteq> pf_key g" using Cons.prems(1) by (metis distinct.simps(2) imageI list.set_map list.simps(9))
    ultimately show ?thesis using Cons.IH [of ws] Cons.prems(1) by (simp add: vs saved_def)
  qed
qed simp

section \<open>Interruption\<close>

text \<open>A disk in the course of the writes: every planned file is as before or written, with its backup made when it needs one,
  and nothing else has changed but backups.\<close>

definition in_course :: "PlannedFile list \<Rightarrow> verdict list \<Rightarrow> disk \<Rightarrow> disk \<Rightarrow> bool" where
  "in_course fs vs d d' \<longleftrightarrow>
     (\<forall>(f, v) \<in> set (zip fs vs).
        (dk_files d' (pf_key f) = dk_files d (pf_key f) \<or>
         writes v \<and> dk_files d' (pf_key f) = Some (pf_payload f) \<and> (v = BackupAndReplace \<longrightarrow> dk_files d' (bak (pf_key f)) = dk_files d (pf_key f))) \<and>
        (v = BackupAndReplace \<longrightarrow> dk_files d' (bak (pf_key f)) \<in> {dk_files d (pf_key f), dk_files d (bak (pf_key f))})) \<and>
     (\<forall>k. k \<notin> pf_key ` set fs \<and> map_of (saved fs vs) k = None \<longrightarrow> dk_files d' k = dk_files d k)"

lemma in_course_at:
  assumes "in_course fs vs d d'" "(f, v) \<in> set (zip fs vs)"
  shows "dk_files d' (pf_key f) = dk_files d (pf_key f) \<or>
      writes v \<and> dk_files d' (pf_key f) = Some (pf_payload f) \<and> (v = BackupAndReplace \<longrightarrow> dk_files d' (bak (pf_key f)) = dk_files d (pf_key f))"
    "v = BackupAndReplace \<longrightarrow> dk_files d' (bak (pf_key f)) \<in> {dk_files d (pf_key f), dk_files d (bak (pf_key f))}"
  using bspec [OF conjunct1 [OF assms(1) [unfolded in_course_def]] assms(2)] by simp_all

lemma in_course_refl: "in_course fs vs d d"
  by (auto simp: in_course_def)

lemma in_course_Cons:
  assumes "files_apart (f # fs)" "in_course fs vs (fold perform (file_action f v) d) d'"
  shows "in_course (f # fs) (v # vs) d d'"
proof -
  note ap = files_apart_Cons [OF assms(1)]
  let ?d = "fold perform (file_action f v) d"
  have one: "dk_files ?d k = (if k = pf_key f \<and> writes v then Some (pf_payload f) else if k = bak (pf_key f) \<and> v = BackupAndReplace then dk_files d (pf_key f) else dk_files d k)" for k
    using ap by (cases v) (auto simp: file_action_def writes_def)
  have far: "dk_files ?d (pf_key g) = dk_files d (pf_key g)" "dk_files ?d (bak (pf_key g)) = dk_files d (bak (pf_key g))" if "g \<in> set fs" for g
  proof -
    have "pf_key g \<noteq> pf_key f" "pf_key g \<noteq> bak (pf_key f)" "bak (pf_key g) \<noteq> pf_key f" using ap that by (metis imageI)+
    then show "dk_files ?d (pf_key g) = dk_files d (pf_key g)" "dk_files ?d (bak (pf_key g)) = dk_files d (bak (pf_key g))"
      unfolding one by simp_all
  qed
  have sav: "map_of (saved fs vs) (pf_key f) = None" "map_of (saved fs vs) (bak (pf_key f)) = None"
    using ap saved_keys by (metis (no_types, lifting) bak_inj imageE not_Some_eq)+
  have rest: "\<forall>k. k \<notin> pf_key ` set fs \<and> map_of (saved fs vs) k = None \<longrightarrow> dk_files d' k = dk_files ?d k" using assms(2) by (simp add: in_course_def)
  then have now: "dk_files d' (pf_key f) = dk_files ?d (pf_key f)" "dk_files d' (bak (pf_key f)) = dk_files ?d (bak (pf_key f))" using ap sav by blast+
  have heads: "saved (f # fs) (v # vs) = (if v = BackupAndReplace then [(bak (pf_key f), pf_key f)] else []) @ saved fs vs" by (simp add: saved_def)
  show ?thesis unfolding in_course_def
  proof (intro conjI ballI allI impI)
    fix x assume "x \<in> set (zip (f # fs) (v # vs))"
    then consider "x = (f, v)" | "x \<in> set (zip fs vs)" by auto
    then show "case x of (f, v) \<Rightarrow>
        (dk_files d' (pf_key f) = dk_files d (pf_key f) \<or>
         writes v \<and> dk_files d' (pf_key f) = Some (pf_payload f) \<and> (v = BackupAndReplace \<longrightarrow> dk_files d' (bak (pf_key f)) = dk_files d (pf_key f))) \<and>
        (v = BackupAndReplace \<longrightarrow> dk_files d' (bak (pf_key f)) \<in> {dk_files d (pf_key f), dk_files d (bak (pf_key f))})"
    proof cases
      case 1 then show ?thesis using ap by (auto simp: now one writes_def)
    next
      case 2
      obtain g w where x: "x = (g, w)" by (cases x)
      have "g \<in> set fs" using 2 x by (auto dest: set_zip_leftD)
      from in_course_at [OF assms(2) 2 [unfolded x]] far [OF this] show ?thesis unfolding x by simp
    qed
  next
    fix k assume k: "k \<notin> pf_key ` set (f # fs) \<and> map_of (saved (f # fs) (v # vs)) k = None"
    then have "k \<notin> pf_key ` set fs" "map_of (saved fs vs) k = None" by (auto simp: heads split: if_splits)
    then have "dk_files d' k = dk_files ?d k" using rest by blast
    also have "\<dots> = dk_files d k" using k by (auto simp: one heads split: if_splits)
    finally show "dk_files d' k = dk_files d k" .
  qed
qed

lemma half_in_course:
  assumes "files_apart (f # fs)" "n < length (file_action f v)"
  shows "in_course (f # fs) (v # vs) d (fold perform (take n (file_action f v)) d)"
proof (cases "n = 0")
  case False
  then have v: "v = BackupAndReplace" "n = 1" using assms(2) by (auto simp: file_action_def split: verdict.splits)
  note ap = files_apart_Cons [OF assms(1)]
  let ?d = "fold perform (take n (file_action f v)) d"
  have d: "dk_files ?d k = (if k = bak (pf_key f) then dk_files d (pf_key f) else dk_files d k)" for k by (simp add: v file_action_def)
  have far: "dk_files ?d (pf_key g) = dk_files d (pf_key g)" "dk_files ?d (bak (pf_key g)) = dk_files d (bak (pf_key g))" if "g \<in> set fs" for g
  proof -
    have "pf_key g \<noteq> bak (pf_key f)" "pf_key g \<noteq> pf_key f" using ap that by (metis imageI)+
    then show "dk_files ?d (pf_key g) = dk_files d (pf_key g)" "dk_files ?d (bak (pf_key g)) = dk_files d (bak (pf_key g))"
      unfolding d by simp_all
  qed
  show ?thesis unfolding in_course_def
  proof (intro conjI ballI allI impI)
    fix x assume "x \<in> set (zip (f # fs) (v # vs))"
    then consider "x = (f, v)" | "x \<in> set (zip fs vs)" by auto
    then show "case x of (f, v) \<Rightarrow>
        (dk_files ?d (pf_key f) = dk_files d (pf_key f) \<or>
         writes v \<and> dk_files ?d (pf_key f) = Some (pf_payload f) \<and> (v = BackupAndReplace \<longrightarrow> dk_files ?d (bak (pf_key f)) = dk_files d (pf_key f))) \<and>
        (v = BackupAndReplace \<longrightarrow> dk_files ?d (bak (pf_key f)) \<in> {dk_files d (pf_key f), dk_files d (bak (pf_key f))})"
    proof cases
      case 1
      have "pf_key f \<noteq> bak (pf_key f)" using ap by metis
      then show ?thesis unfolding 1 prod.case d by simp
    next
      case 2
      obtain g w where x: "x = (g, w)" by (cases x)
      have "g \<in> set fs" using 2 x by (auto dest: set_zip_leftD)
      from far [OF this] show ?thesis unfolding x prod.case by simp
    qed
  next
    fix k assume "k \<notin> pf_key ` set (f # fs) \<and> map_of (saved (f # fs) (v # vs)) k = None"
    then have "k \<noteq> bak (pf_key f)" by (auto simp: saved_def v split: if_splits)
    then show "dk_files ?d k = dk_files d k" unfolding d by simp
  qed
qed (simp add: in_course_refl)

lemma interrupted_in_course:
  assumes "files_apart fs"
  shows "in_course fs vs d (fold perform (take n (file_actions fs vs)) d)"
  using assms
proof (induction fs vs arbitrary: d n rule: file_actions.induct)
  case (1 f fs v vs)
  show ?case
  proof (cases "n < length (file_action f v)")
    case True then show ?thesis using half_in_course [OF "1.prems" True] by simp
  next
    case False
    have "files_apart fs" using files_apart_Cons [OF "1.prems"] by blast
    from in_course_Cons [OF "1.prems" "1.IH" [OF this, of _ "n - length (file_action f v)"]] False show ?thesis by simp
  qed
qed (simp_all add: in_course_refl)

definition left_over :: "disk \<Rightarrow> disk \<Rightarrow> PlannedFile \<Rightarrow> verdict \<Rightarrow> verdict" where
  "left_over d d' f v = (if dk_files d' (pf_key f) = dk_files d (pf_key f) then v else Keep)"

lemma left_over_pairs:
  assumes "length vs = length fs" "(f, v) \<in> set (zip fs vs)"
  shows "(f, left_over d d' f v) \<in> set (zip fs (map2 (left_over d d') fs vs))"
proof -
  obtain i where "i < length fs" "f = fs ! i" "v = vs ! i" using assms by (auto simp: set_zip)
  then show ?thesis using assms(1) by (auto simp: set_zip)
qed

lemma rerun_same_disk:
  assumes "files_apart fs" "length vs = length fs" "in_course fs vs d d'"
  shows "dk_files (fold perform (file_actions fs (map2 (left_over d d') fs vs)) d') = dk_files (fold perform (file_actions fs vs) d)"
proof (rule ext)
  fix k
  let ?vs = "map2 (left_over d d') fs vs"
  have dist: "distinct (map pf_key fs)" and bak: "\<forall>f \<in> set fs. bak (pf_key f) \<notin> pf_key ` set fs" using assms(1) by (simp_all add: files_apart_def)
  have verdict: "\<exists>v. (f, v) \<in> set (zip fs vs)" if "f \<in> set fs" for f
    using assms(2) that by (metis in_set_impl_in_set_zip1)
  note pair = left_over_pairs [OF assms(2), of _ _ d d']
  show "dk_files (fold perform (file_actions fs ?vs) d') k = dk_files (fold perform (file_actions fs vs) d) k"
  proof (cases "k \<in> pf_key ` set fs")
    case True
    then obtain f v where fv: "k = pf_key f" "f \<in> set fs" "(f, v) \<in> set (zip fs vs)" using verdict by blast
    have no: "map_of (saved fs ws) k = None" for ws
    proof (cases "map_of (saved fs ws) k")
      case (Some k0)
      then obtain g where "g \<in> set fs" "k = bak (pf_key g)" using saved_keys by blast
      then show ?thesis using bak True by simp
    qed
    have "dk_files d' (pf_key f) = dk_files d (pf_key f) \<or> writes v \<and> dk_files d' (pf_key f) = Some (pf_payload f)"
      using in_course_at(1) [OF assms(3) fv(3)] by blast
    then show ?thesis unfolding contents_after [OF assms(1)] no option.case fv(1) new_contents_at [OF dist fv(3)] new_contents_at [OF dist pair [OF fv(3)]]
      by (auto simp: no [unfolded fv(1)] left_over_def writes_def)
  next
    case False
    then have new: "map_of (new_contents fs ws) k = None" for ws using new_contents_keys by (metis not_Some_eq)
    show ?thesis
    proof (cases "map_of (saved fs vs) k")
      case (Some k0)
      then obtain f v where fv: "k = bak (pf_key f)" "k0 = pf_key f" "(f, v) \<in> set (zip fs vs)" using verdict saved_keys [OF Some] by blast
      have v: "v = BackupAndReplace" using Some saved_at [OF dist fv(3)] by (simp add: fv(1) split: if_splits)
      have "dk_files d' (pf_key f) = dk_files d (pf_key f) \<or> dk_files d' (bak (pf_key f)) = dk_files d (pf_key f)"
        using in_course_at(1) [OF assms(3) fv(3)] v by blast
      then show ?thesis unfolding contents_after [OF assms(1)] new option.case fv(1) saved_at [OF dist fv(3)] saved_at [OF dist pair [OF fv(3)]]
        by (auto simp: new [unfolded fv(1)] left_over_def v)
    next
      case None
      have none: "map_of (saved fs ?vs) k = None"
      proof (rule ccontr)
        assume "map_of (saved fs ?vs) k \<noteq> None"
        then obtain k0 where k0: "map_of (saved fs ?vs) k = Some k0" by blast
        then obtain f v where fv: "k = bak (pf_key f)" "(f, v) \<in> set (zip fs vs)" using verdict saved_keys [OF k0] by blast
        have "v \<noteq> BackupAndReplace" using None saved_at [OF dist fv(2)] by (auto simp: fv(1))
        then show False using k0 saved_at [OF dist pair [OF fv(2)]] by (auto simp: fv(1) left_over_def split: if_splits)
      qed
      have "dk_files d' k = dk_files d k" using conjunct2 [OF assms(3) [unfolded in_course_def]] False None by blast
      then show ?thesis unfolding contents_after [OF assms(1)] new none None by simp
    qed
  qed
qed

text \<open>C25.  An installation interrupted anywhere among its writes of files converges when it is run again: the second run judges
  every file afresh, meets no conflict, leaves the same records over, and its writes lead to the same files as the run
  that was not interrupted, the backups included.\<close>

theorem interrupted_writes_converge:
  assumes "apart planned records" "\<forall>f \<in> set planned. pf_digest f = lib_sha256 lib (pf_payload f)"
    "judge_files lib params d planned records = Inr (vs, rest)" "conflicts planned vs = []"
    "d' = fold perform (take n (file_actions planned vs)) d"
  shows "\<exists>vs'. judge_files lib params d' planned records = Inr (vs', rest) \<and> conflicts planned vs' = [] \<and>
    dk_files (fold perform (file_actions planned vs') d') = dk_files (fold perform (file_actions planned vs) d)"
proof (intro exI conjI)
  let ?vs = "map2 (left_over d d') planned vs"
  have ap: "files_apart planned" and dist: "distinct (map pf_key planned)" using assms(1) by (auto simp: apart_def files_apart_def)
  have vs: "list_all2 (\<lambda>f v. judged lib params d records f = Inr v) planned vs" "rest = filter (\<lambda>r. fr_key r \<notin> pf_key ` set planned) records"
    using assms(3) judge_files_iff [OF dist] by blast+
  then have len: "length vs = length planned" by (simp add: list_all2_lengthD)
  have course: "in_course planned vs d d'" unfolding assms(5) by (rule interrupted_in_course [OF ap])
  have "judged lib params d' records f = Inr (left_over d d' f v)" if fv: "(f, v) \<in> set (zip planned vs)" for f v
  proof -
    have was: "judged lib params d records f = Inr v" using vs(1) fv by (auto simp: list_all2_iff)
    have f: "f \<in> set planned" using fv by (rule set_zip_leftD)
    have "dk_files d' (pf_key f) = dk_files d (pf_key f) \<or> dk_files d' (pf_key f) = Some (pf_payload f)"
      using in_course_at(1) [OF course fv] by blast
    then show ?thesis using was assms(2) f by (auto simp: left_over_def judged_def disk_digest_def judge_file_def)
  qed
  then have "list_all2 (\<lambda>f v. judged lib params d' records f = Inr v) planned ?vs"
    using len by (auto simp: list_all2_conv_all_nth set_zip)
  then show "judge_files lib params d' planned records = Inr (?vs, rest)" using judge_files_iff [OF dist] vs(2) by blast
  have "\<forall>c. Conflict c \<notin> set vs" using conflicts_none [OF assms(4) vs(1)] by blast
  then show "conflicts planned ?vs = []" by (intro conflicts_empty) (auto simp: left_over_def split: if_splits dest!: set_zip_rightD)
  show "dk_files (fold perform (file_actions planned ?vs) d') = dk_files (fold perform (file_actions planned vs) d)"
    by (rule rerun_same_disk [OF ap len course])
qed

section \<open>The plan\<close>

lemma plan_install_parts:
  assumes "plan_install lib params d = Inr p"
  obtains loaded planned vs rest dead merged claim where
    "load_manifest (lib_parse lib) (dk_manifest d) = Inr loaded" "plan_files lib params d = Inr planned"
    "judge_files lib params d planned (old_records (old_manifest loaded)) = Inr (vs, rest)" "conflicts planned vs = []"
    "obsolete lib d rest = Inr dead" "merged_settings lib params d (old_manifest loaded) = Inr (merged, claim)"
    "p = \<lparr>pn_files = file_actions planned vs, pn_settings = plan_settings lib d merged, pn_obsolete = map RemoveFile dead,
      pn_manifest = new_manifest params (old_manifest loaded) planned claim\<rparr>"
  using assms that by (auto simp: plan_install_def Let_def res_bind_Inr_iff split: if_splits)

lemma file_actions_frame:
  "dk_settings (fold perform (file_actions fs vs) d) = dk_settings d \<and> dk_manifest (fold perform (file_actions fs vs) d) = dk_manifest d \<and>
   dk_claude_json (fold perform (file_actions fs vs) d) = dk_claude_json d"
proof (induction fs vs arbitrary: d rule: file_actions.induct)
  case (1 f fs v vs)
  have "dk_settings (fold perform (file_action f v) d) = dk_settings d \<and> dk_manifest (fold perform (file_action f v) d) = dk_manifest d \<and>
      dk_claude_json (fold perform (file_action f v) d) = dk_claude_json d"
    by (cases v) (simp_all add: file_action_def)
  then show ?case using "1.IH" by simp
qed simp_all

lemma removals_after:
  "dk_files (fold perform (map RemoveFile ks) d) = (\<lambda>k. if k \<in> set ks then None else dk_files d k) \<and>
   dk_settings (fold perform (map RemoveFile ks) d) = dk_settings d \<and> dk_manifest (fold perform (map RemoveFile ks) d) = dk_manifest d"
  by (induction ks arbitrary: d) auto

lemma settings_after:
  "dk_settings (fold perform (plan_settings lib d0 merged) d) =
     (if settings_write lib (dk_settings d0) (canonical_json (lib_pretty lib) merged) then Some (canonical_json (lib_pretty lib) merged) else dk_settings d)"
  "dk_files (fold perform (plan_settings lib d0 merged) d) = dk_files d" "dk_manifest (fold perform (plan_settings lib d0 merged) d) = dk_manifest d"
  by (simp_all add: plan_settings_def Let_def)

lemma plan_after:
  assumes "p = \<lparr>pn_files = file_actions planned vs, pn_settings = plan_settings lib d merged, pn_obsolete = map RemoveFile dead, pn_manifest = m\<rparr>"
  shows "dk_files (fold perform (plan_actions p) d) k = (if k \<in> set dead then None else dk_files (fold perform (file_actions planned vs) d) k)"
    "dk_settings (fold perform (plan_actions p) d) =
       (if settings_write lib (dk_settings d) (canonical_json (lib_pretty lib) merged) then Some (canonical_json (lib_pretty lib) merged) else dk_settings d)"
    "dk_manifest (fold perform (plan_actions p) d) = dk_manifest d"
  by (simp_all add: assms plan_actions_def removals_after settings_after file_actions_frame)

lemma obsolete_at:
  "obsolete lib d records = Inr dead \<Longrightarrow>
   k \<in> set dead \<longleftrightarrow> (\<exists>r \<in> set records. fr_key r = k \<and> dk_files d k \<noteq> None)"
  "obsolete lib d records = Inr dead \<Longrightarrow> r \<in> set records \<Longrightarrow> dk_files d (fr_key r) = Some x \<Longrightarrow> fr_sha256 r = lib_sha256 lib x"
  by (induction records arbitrary: dead) (auto simp: disk_digest_def res_bind_Inr_iff split: option.splits if_splits)





section \<open>Documents in canonical order\<close>

lemma map_of_sort_key [simp]:
  fixes m :: "('a :: linorder \<times> 'b) list"
  shows "map_of (sort_key fst m) k = map_of m k"
proof -
  have filtered: "map_of xs k = map_of (filter (\<lambda>y. fst y = k) xs) k" for xs :: "('a \<times> 'b) list"
    by (induction xs) auto
  show ?thesis unfolding filtered [of "sort_key fst m"] filtered [of m] by (simp add: sort_key_stable)
qed

lemma json_get_sorted: "json_get k (sorted_keys v) = map_option sorted_keys (json_get k v)"
proof (cases v)
  case (JObject m)
  have "map_of (map (\<lambda>(k, v). (k, sorted_keys v)) m) k = map_option sorted_keys (map_of m k)" by (induction m) auto
  then show ?thesis by (simp add: JObject json_get_def as_object_def)
qed (simp_all add: json_get_def as_object_def)

lemma unique_keys_sorted: "unique_keys v \<Longrightarrow> unique_keys (sorted_keys v)"
proof -
  have dist: "distinct (map fst m')" if "sorted_keys (JObject m) = JObject m'" "distinct (map fst m)" for m m' :: fields_list
  proof -
    have "mset (map fst m') = mset (map fst (map (\<lambda>(k, v). (k, sorted_keys v)) m))" using that(1) by (auto simp only: sorted_keys.simps json_value.inject mset_map mset_sort)
    also have "map fst (map (\<lambda>(k, v). (k, sorted_keys v)) m) = map fst m" by (simp add: comp_def case_prod_beta)
    finally show ?thesis using that(2) by (metis mset_eq_imp_distinct_iff)
  qed
  assume u: "unique_keys v"
  then obtain m where v: "v = JObject m" by (cases v) (simp_all add: unique_keys_def)
  obtain m' where m': "sorted_keys v = JObject m'" by (simp add: v)
  have get: "map_of m' k = map_option sorted_keys (map_of m k)" for k
    using json_get_sorted [of k v] unfolding m' by (simp add: v json_get_def)
  have sec: "\<And>h'. map_of m' k = Some (JObject h') \<Longrightarrow> (case map_of m k of Some (JObject h) \<Rightarrow> distinct (map fst h) | _ \<Rightarrow> True) \<Longrightarrow> distinct (map fst h')" for k
  proof -
    fix h' assume h': "map_of m' k = Some (JObject h')" and d: "case map_of m k of Some (JObject h) \<Rightarrow> distinct (map fst h) | _ \<Rightarrow> True"
    from h' obtain w where w: "map_of m k = Some w" "sorted_keys w = JObject h'" unfolding get by blast
    from w(2) obtain h where h: "w = JObject h" by (cases w) simp_all
    have "distinct (map fst h)" using d by (simp add: w(1) h)
    with w(2) [unfolded h] show "distinct (map fst h')" by (rule dist)
  qed
  have part: "case map_of m' k of Some (JObject h) \<Rightarrow> distinct (map fst h) | _ \<Rightarrow> True"
    if "case map_of m k of Some (JObject h) \<Rightarrow> distinct (map fst h) | _ \<Rightarrow> True" for k
  proof (cases "map_of m' k")
    case (Some w)
    show ?thesis
    proof (cases "\<exists>h. w = JObject h")
      case True
      then obtain h where w: "w = JObject h" by blast
      have "distinct (map fst h)" by (rule sec [OF Some [unfolded w] that])
      then show ?thesis by (simp add: Some w)
    next
      case False
      then show ?thesis unfolding Some by (cases w) simp_all
    qed
  qed simp
  have "distinct (map fst m')" by (rule dist [OF m' [unfolded v]]) (use u in \<open>simp add: v unique_keys_def\<close>)
  then show ?thesis using part u [unfolded v unique_keys_def json_value.case] unfolding m' unique_keys_def json_value.case by blast
qed

lemma as_str_sorted [simp]: "as_str (sorted_keys v) = as_str v"
  by (cases v) (simp_all add: as_str_def)

lemma as_array_sorted: "as_array (sorted_keys v) = map_option (map sorted_keys) (as_array v)"
  by (cases v) (simp_all add: as_array_def)

lemma hook_command_sorted [simp]: "hook_command (sorted_keys v) = hook_command v"
  by (cases "json_get (lit ''command'') v") (simp_all add: hook_command_def json_get_sorted)

text \<open>Every matcher of a document is a text, or missing, or at least no array or object.\<close>

definition plain_matcher :: "json \<Rightarrow> bool" where
  "plain_matcher entry = (case json_get (lit ''matcher'') entry of Some (JObject _) \<Rightarrow> False | Some (JArray _) \<Rightarrow> False | _ \<Rightarrow> True)"

definition plain_matchers :: "json \<Rightarrow> bool" where
  "plain_matchers doc =
     (case json_get (lit ''hooks'') doc of Some (JObject h) \<Rightarrow>
        list_all (\<lambda>(event, entries). case as_array entries of None \<Rightarrow> True | Some es \<Rightarrow> list_all plain_matcher es) h
      | _ \<Rightarrow> True)"

lemma entry_holds_sorted:
  assumes "entry_holds render matcher command entry" "plain_matcher entry"
  shows "entry_holds render matcher command (sorted_keys entry)"
proof -
  obtain m where m: "entry = JObject m" using assms(1) by (cases entry) (simp_all add: entry_holds_def as_object_def)
  obtain m' where m': "sorted_keys entry = JObject m'" by (simp add: m)
  have get: "map_of m' k = map_option sorted_keys (map_of m k)" for k
    using json_get_sorted [of k entry] unfolding m' by (simp add: m json_get_def as_object_def)
  have matcher: "string_view render (map_of m' (lit ''matcher'')) = string_view render (map_of m (lit ''matcher''))"
    using assms(2) unfolding get by (cases "map_of m (lit ''matcher'')") (auto simp: plain_matcher_def m json_get_def as_object_def string_view_def split: json_value.splits)
  have list: "field_array (lit ''hooks'') m' = map_option (map sorted_keys) (field_array (lit ''hooks'') m)"
    by (cases "map_of m (lit ''hooks'')") (simp_all add: field_array_def get as_array_sorted)
  show ?thesis using assms(1) unfolding m'
    by (cases "field_array (lit ''hooks'') m") (simp_all add: entry_holds_def m as_object_def matcher list list_ex_iff)
qed

lemma claim_found_sorted:
  assumes "claim_found render h i" "\<forall>(event, entries) \<in> set h. case as_array entries of None \<Rightarrow> True | Some es \<Rightarrow> list_all plain_matcher es"
    "\<And>k. map_of h' k = map_option sorted_keys (map_of h k)"
  shows "claim_found render h' i"
proof -
  obtain v es e where e: "map_of h (ch_event i) = Some v" "as_array v = Some es" "e \<in> set es" "entry_holds render (ch_matcher i) (ch_command i) e"
    using assms(1) by (auto simp: claim_found_def field_array_def list_ex_iff split: option.splits bind_splits)
  have "plain_matcher e" using bspec [OF assms(2) map_of_SomeD [OF e(1)]] e(2,3) by (simp add: list_all_iff)
  from entry_holds_sorted [OF e(4) this] show ?thesis
    using e(1-3) by (auto simp: claim_found_def field_array_def assms(3) as_array_sorted list_ex_iff)
qed

lemma sorted_claim_verifies:
  assumes "merge_settings_document render existing template claude_root remy_root commands prior = Inr (result, claim)" "unique_keys existing"
    "plain_matchers result"
  shows "verify_settings_claim render (sorted_keys result) claim = Inr ()"
proof -
  obtain h s l where shape: "json_get (lit ''hooks'') result = Some (JObject h)" "json_get (lit ''permissions'') result = Some (JObject s)" "map_of s (lit ''allow'') = Some (JArray l)"
      and holds: "list_all (claim_found render h) (cl_hooks claim)" "JString ` set (cl_permissions claim) \<subseteq> set l"
    using merged_claim_holds [OF assms(1,2)] by metis
  obtain h' s' where h': "sorted_keys (JObject h) = JObject h'" and s': "sorted_keys (JObject s) = JObject s'" by simp
  have get: "map_of h' k = map_option sorted_keys (map_of h k)" "map_of s' k = map_option sorted_keys (map_of s k)" for k
    using json_get_sorted [of k "JObject h"] json_get_sorted [of k "JObject s"] unfolding h' s' by (simp_all add: json_get_def as_object_def)
  show ?thesis
  proof (rule claim_verifies)
    show "json_get (lit ''hooks'') (sorted_keys result) = Some (JObject h')" "json_get (lit ''permissions'') (sorted_keys result) = Some (JObject s')"
      by (simp_all add: json_get_sorted shape h' [simplified] s' [simplified])
    show "map_of s' (lit ''allow'') = Some (JArray (map sorted_keys l))" by (simp add: get shape)
    show "list_all (claim_found render h') (cl_hooks claim)"
      using holds(1) claim_found_sorted [OF _ _ get(1)] assms(3) by (auto simp: list_all_iff plain_matchers_def shape)
    show "JString ` set (cl_permissions claim) \<subseteq> set (map sorted_keys l)" using holds(2) by (force simp: image_iff)
  qed
qed

section \<open>The outcome\<close>

lemma plan_files_parts:
  assumes "plan_files lib params d = Inr planned"
  shows "\<forall>f \<in> set planned. pf_digest f = lib_sha256 lib (pf_payload f)"
    "\<forall>f \<in> set planned. pf_root f = ROOT_CLAUDE \<or> pf_key f = (ROOT_REMY, lit ''bin/'' @ managed_exe_name (ip_remy_root params)) \<or>
      is_ok (ip_python params) \<and> pf_key f = (ROOT_REMY, DESCRIPTOR_RELATIVE_PATH)"
  using assms
  by (auto simp: plan_files_def res_bind_Inr_iff plan_claude_contents_def plan_binary_def Let_def pf_key_def is_ok_def split: sum.splits option.splits)

lemma judge_files_rest: "judge_files lib params d fs records = Inr (vs, rest) \<Longrightarrow> rest = filter (\<lambda>r. fr_key r \<notin> pf_key ` set fs) records"
proof (induction fs arbitrary: records vs)
  case (Cons f fs)
  then show ?case by (fastforce simp: res_bind_Inr_iff intro: filter_cong)
qed simp

lemma save_language_frame:
  "dk_files (save_language lib language d) k = (if k = CONFIG_KEY then dk_files (save_language lib language d) CONFIG_KEY else dk_files d k)"
  "dk_settings (save_language lib language d) = dk_settings d" "dk_manifest (save_language lib language d) = dk_manifest d"
  by (simp_all add: save_language_def Let_def)

lemma register_mcp_frame:
  assumes "register_mcp lib params d = Inr d'"
  shows "dk_files d' = dk_files d \<and> dk_settings d' = dk_settings d \<and> dk_manifest d' = dk_manifest d"
proof -
  obtain template existing where "(case existing of JObject m \<Rightarrow>
         (case as_object (entry_or (lit ''mcpServers'') (JObject []) m) of None \<Rightarrow> Inl (Metadata ''.claude.json mcpServers must be an object'')
          | Some servers \<Rightarrow>
              (let servers' = fold (\<lambda>(name, config) s. put_field name
                     (expand_server (expand_placeholder (ip_claude_root params) (ip_remy_root params)) config) s) template servers
               in Inr (d\<lparr>dk_claude_json := Some (canonical_json (lib_pretty lib) (JObject (put_field (lit ''mcpServers'') (JObject servers') m)))\<rparr>)))
       | _ \<Rightarrow> Inl (Metadata ''.claude.json must be an object'')) = Inr d'"
    using assms unfolding register_mcp_def res_bind_Inr_iff by blast
  then have "\<exists>j. d\<lparr>dk_claude_json := j\<rparr> = d'" by (cases existing) (auto simp: Let_def split: option.split_asm)
  then show ?thesis by auto
qed

lemma post_commit_frame:
  assumes "post_commit lib params d = (warnings, failed, d')"
  shows "k \<notin> {CONFIG_KEY, LEGACY_MANIFEST_KEY, bak LEGACY_MANIFEST_KEY, TRANSACTION_KEY} \<Longrightarrow> dk_files d' k = dk_files d k"
    "dk_settings d' = dk_settings d" "dk_manifest d' = dk_manifest d"
proof -
  define d1 where "d1 = (case dk_files d LEGACY_MANIFEST_KEY of None \<Rightarrow> d
    | Some text \<Rightarrow> d\<lparr>dk_files := (dk_files d)(bak LEGACY_MANIFEST_KEY \<mapsto> text, LEGACY_MANIFEST_KEY := None)\<rparr>)"
  define d2 where "d2 = perform (RemoveFile TRANSACTION_KEY) d1"
  have d2: "j \<notin> {LEGACY_MANIFEST_KEY, bak LEGACY_MANIFEST_KEY, TRANSACTION_KEY} \<Longrightarrow> dk_files d2 j = dk_files d j"
      "dk_settings d2 = dk_settings d" "dk_manifest d2 = dk_manifest d" for j
    by (simp_all add: d2_def d1_def split: option.splits)
  obtain d3 where d3: "dk_files d3 = dk_files d2" "dk_settings d3 = dk_settings d2" "dk_manifest d3 = dk_manifest d2" "d' = save_language lib (ip_language params) d3"
  proof (cases "register_mcp lib params d2")
    case (Inl e)
    then have "d' = save_language lib (ip_language params) d2" using assms unfolding post_commit_def Let_def d1_def [symmetric] d2_def [symmetric] by simp
    then show thesis using that by blast
  next
    case (Inr d3)
    then have "d' = save_language lib (ip_language params) d3" using assms unfolding post_commit_def Let_def d1_def [symmetric] d2_def [symmetric] by simp
    then show thesis using that register_mcp_frame [OF Inr] by blast
  qed
  show "dk_files d' k = dk_files d k" if "k \<notin> {CONFIG_KEY, LEGACY_MANIFEST_KEY, bak LEGACY_MANIFEST_KEY, TRANSACTION_KEY}"
    unfolding d3(4) using save_language_frame(1) [of lib _ d3 k] that d2(1) by (simp add: d3)
  show "dk_settings d' = dk_settings d" "dk_manifest d' = dk_manifest d" by (simp_all add: d3 save_language_frame d2)
qed

lemma install_parts:
  assumes "install lib params d = (Inr report, d')"
  obtains p stored where "plan_install lib params d = Inr p" "write_manifest (lib_pretty lib) (pn_manifest p) = Inr stored"
    "\<And>k. k \<notin> {CONFIG_KEY, LEGACY_MANIFEST_KEY, bak LEGACY_MANIFEST_KEY, TRANSACTION_KEY} \<Longrightarrow> dk_files d' k = dk_files (fold perform (plan_actions p) d) k"
    "dk_settings d' = dk_settings (fold perform (plan_actions p) d)" "dk_manifest d' = Some stored"
    "ip_python params = Inl e \<Longrightarrow> lit ''python probe unavailable ('' @ message e @ lit ''); runtime descriptor not refreshed (Python 3.10+ is a runtime prerequisite)'' \<in> set (rp_warnings report)"
proof -
  obtain names d1 where c: "commit_install lib params d = (Inr names, d1)" using assms
    by (cases "commit_install lib params d") (auto simp: install_def split: sum.splits)
  obtain warnings failed d2 where post: "post_commit lib params d1 = (warnings, failed, d2)" by (cases "post_commit lib params d1") auto
  have d2: "d2 = d'" using assms by (auto simp: install_def c post split: sum.splits)
  obtain p stored where p: "plan_install lib params d = Inr p" "write_manifest (lib_pretty lib) (pn_manifest p) = Inr stored"
      "d1 = fold perform (plan_actions p) d\<lparr>dk_manifest := Some stored\<rparr>"
    using c by (auto simp: commit_install_def Let_def split: sum.splits)
  have "lit ''python probe unavailable ('' @ message e @ lit ''); runtime descriptor not refreshed (Python 3.10+ is a runtime prerequisite)'' \<in> set (rp_warnings report)"
    if "ip_python params = Inl e" using assms that by (auto simp: install_def c post)
  then show thesis using that [OF p(1,2)] post_commit_frame [OF post] by (simp add: p(3) d2)
qed







text \<open>C27.  When no Python interpreter is found, a later installation deletes the runtime descriptor an earlier one recorded,
  while its warning says the descriptor was not refreshed: without the descriptor in the plan, its record counts as that
  of an obsolete file.\<close>

theorem descriptor_removed:
  assumes "install lib params d = (Inr report, d')" "ip_python params = Inl e"
    "load_manifest (lib_parse lib) (dk_manifest d) = Inr loaded" "r \<in> set (old_records (old_manifest loaded))"
    "fr_key r = (ROOT_REMY, DESCRIPTOR_RELATIVE_PATH)" "dk_files d (ROOT_REMY, DESCRIPTOR_RELATIVE_PATH) = Some x"
  shows "dk_files d' (ROOT_REMY, DESCRIPTOR_RELATIVE_PATH) = None \<and>
    lit ''python probe unavailable ('' @ message e @ lit ''); runtime descriptor not refreshed (Python 3.10+ is a runtime prerequisite)'' \<in> set (rp_warnings report)"
proof -
  let ?key = "(ROOT_REMY, DESCRIPTOR_RELATIVE_PATH)"
  obtain p stored where p: "plan_install lib params d = Inr p"
      "\<And>k. k \<notin> {CONFIG_KEY, LEGACY_MANIFEST_KEY, bak LEGACY_MANIFEST_KEY, TRANSACTION_KEY} \<Longrightarrow> dk_files d' k = dk_files (fold perform (plan_actions p) d) k"
      "ip_python params = Inl e \<Longrightarrow> lit ''python probe unavailable ('' @ message e @ lit ''); runtime descriptor not refreshed (Python 3.10+ is a runtime prerequisite)'' \<in> set (rp_warnings report)"
    using install_parts [OF assms(1)] by metis
  obtain planned vs rest dead merged claim where parts: "plan_files lib params d = Inr planned"
    "judge_files lib params d planned (old_records (old_manifest loaded)) = Inr (vs, rest)" "obsolete lib d rest = Inr dead"
    "p = \<lparr>pn_files = file_actions planned vs, pn_settings = plan_settings lib d merged, pn_obsolete = map RemoveFile dead,
      pn_manifest = new_manifest params (old_manifest loaded) planned claim\<rparr>"
    using plan_install_parts [OF p(1)] assms(3) by (metis sum.inject(2))
  have "pf_key f \<noteq> ?key" if "f \<in> set planned" for f
    using bspec [OF plan_files_parts(2) [OF parts(1)] that]
    by (auto simp: pf_key_def assms(2) is_ok_def ROOT_CLAUDE_def ROOT_REMY_def DESCRIPTOR_RELATIVE_PATH_def lit_def)
  then have "?key \<notin> pf_key ` set planned" by (metis imageE)
  then have "r \<in> set rest" using assms(4,5) by (simp add: judge_files_rest [OF parts(2)])
  then have "?key \<in> set dead" using assms(5,6) by (auto simp: obsolete_at(1) [OF parts(3)])
  moreover have "?key \<notin> {CONFIG_KEY, LEGACY_MANIFEST_KEY, bak LEGACY_MANIFEST_KEY, TRANSACTION_KEY}"
    by (simp add: CONFIG_KEY_def LEGACY_MANIFEST_KEY_def TRANSACTION_KEY_def bak_def ROOT_CLAUDE_def ROOT_REMY_def DESCRIPTOR_RELATIVE_PATH_def lit_eq)
  ultimately show ?thesis using p(2,3) assms(2) plan_after(1) [OF parts(4)] by simp
qed

section \<open>An installation that verifies\<close>

lemma manifest_records: "mf_files (new_manifest params old planned claim) = sort_key fr_key (map file_record_of planned)"
  "mf_settings_claim (new_manifest params old planned claim) = claim"
  by (simp_all add: new_manifest_def Let_def split: option.split)

lemma record_key [simp]: "fr_key (file_record_of f) = pf_key f" "fr_sha256 (file_record_of f) = pf_digest f"
  by (simp_all add: fr_key_def file_record_of_def pf_key_def)

lemma planned_installed:
  assumes "files_apart planned" "f \<in> set planned" "pf_digest f = lib_sha256 lib (pf_payload f)"
    "list_all2 (\<lambda>f v. judged lib params d records f = Inr v) planned vs" "conflicts planned vs = []"
  shows "map_option (lib_sha256 lib) (dk_files (fold perform (file_actions planned vs) d) (pf_key f)) = Some (pf_digest f)"
proof -
  have dist: "distinct (map pf_key planned)" using assms(1) by (simp add: files_apart_def)
  obtain v where v: "(f, v) \<in> set (zip planned vs)" using list_all2_lengthD [OF assms(4)] assms(2) by (metis in_set_impl_in_set_zip1)
  have was: "judged lib params d records f = Inr v" using assms(4) v by (auto simp: list_all2_iff)
  have no: "map_of (saved planned vs) (pf_key f) = None"
  proof (cases "map_of (saved planned vs) (pf_key f)")
    case (Some k0)
    then obtain g where "g \<in> set planned" "pf_key f = bak (pf_key g)" using saved_keys by blast
    then show ?thesis using assms(1,2) by (metis files_apart_def imageI)
  qed
  show ?thesis
  proof (cases "writes v")
    case True
    then show ?thesis unfolding contents_after [OF assms(1)] new_contents_at [OF dist v] by (simp add: assms(3))
  next
    case False
    have "v \<noteq> Conflict c" for c using conflicts_none [OF assms(5,4)] set_zip_rightD [OF v] by blast
    then have "v = Keep" using False by (cases v) (auto simp: writes_def)
    then have "disk_digest lib d (pf_key f) = Some (pf_digest f)" using was by (auto simp: judged_def judge_file_def split: option.splits if_splits)
    then show ?thesis unfolding contents_after [OF assms(1)] new_contents_at [OF dist v] no using False by (simp add: disk_digest_def)
  qed
qed

text \<open>C24.  After a successful installation nothing that belongs to it is reported by the verification: every recorded file is
  there with its digest, the manifest loads, and the settings hold the claim.  Only the interpreter and the running daemon
  can still give warnings.\<close>

theorem verify_after_install:
  assumes "load_manifest (lib_parse lib) (dk_manifest d) = Inr loaded" "plan_files lib params d = Inr planned"
    "merged_settings lib params d (old_manifest loaded) = Inr (merged, claim)" "files_apart planned"
    "pf_key ` set planned \<inter> {CONFIG_KEY, LEGACY_MANIFEST_KEY, bak LEGACY_MANIFEST_KEY, TRANSACTION_KEY} = {}"
    "\<forall>v \<in> {merged, manifest_to_value (new_manifest params (old_manifest loaded) planned claim)}. lib_parse lib (canonical_json (lib_pretty lib) v) = Some (sorted_keys v)"
    "\<forall>doc. load_settings_file lib (dk_settings d) = Inr doc \<longrightarrow> unique_keys doc"
    "plain_matchers merged"
    "\<forall>t. dk_settings d = Some t \<and> lib_sha256 lib t = lib_sha256 lib (canonical_json (lib_pretty lib) merged) \<longrightarrow> t = canonical_json (lib_pretty lib) merged"
    "install lib params d = (Inr report, d')"
  shows "verify lib ob d' = verify_runtime lib ob d' @ verify_daemon ob"
proof -
  let ?m = "new_manifest params (old_manifest loaded) planned claim"
  let ?text = "canonical_json (lib_pretty lib) merged"
  obtain p stored where p: "plan_install lib params d = Inr p" "write_manifest (lib_pretty lib) (pn_manifest p) = Inr stored"
      "\<And>k. k \<notin> {CONFIG_KEY, LEGACY_MANIFEST_KEY, bak LEGACY_MANIFEST_KEY, TRANSACTION_KEY} \<Longrightarrow> dk_files d' k = dk_files (fold perform (plan_actions p) d) k"
      "dk_settings d' = dk_settings (fold perform (plan_actions p) d)" "dk_manifest d' = Some stored"
    using install_parts [OF assms(10)] by metis
  obtain vs rest dead where parts: "judge_files lib params d planned (old_records (old_manifest loaded)) = Inr (vs, rest)" "conflicts planned vs = []"
    "obsolete lib d rest = Inr dead" "p = \<lparr>pn_files = file_actions planned vs, pn_settings = plan_settings lib d merged, pn_obsolete = map RemoveFile dead, pn_manifest = ?m\<rparr>"
    using plan_install_parts [OF p(1)] assms(1-3) by (metis prod.inject sum.inject(2))
  have dist: "distinct (map pf_key planned)" using assms(4) by (simp add: files_apart_def)
  have vs: "list_all2 (\<lambda>f v. judged lib params d (old_records (old_manifest loaded)) f = Inr v) planned vs" using parts(1) judge_files_iff [OF dist] by blast
  have one: "verify_record lib d' (file_record_of f) = []" if f: "f \<in> set planned" for f
  proof -
    have "pf_key f \<notin> {CONFIG_KEY, LEGACY_MANIFEST_KEY, bak LEGACY_MANIFEST_KEY, TRANSACTION_KEY}" using f assms(5) by blast
    moreover have "pf_key f \<notin> set dead" using f by (auto simp: obsolete_at(1) [OF parts(3)] judge_files_rest [OF parts(1)])
    ultimately have "dk_files d' (pf_key f) = dk_files (fold perform (file_actions planned vs) d) (pf_key f)" using p(3) plan_after(1) [OF parts(4)] by simp
    then have "disk_digest lib d' (pf_key f) = Some (pf_digest f)"
      using planned_installed [OF assms(4) f _ vs parts(2)] plan_files_parts(1) [OF assms(2)] f by (simp add: disk_digest_def)
    then show ?thesis by (simp add: verify_record_def)
  qed
  have files: "concat (map (verify_record lib d') (mf_files ?m)) = []" unfolding manifest_records by (auto simp: concat_eq_Nil_conv one)
  have manifest: "load_manifest (lib_parse lib) (dk_manifest d') = Inr (Some (CurrentManifest ?m))"
    using written_loads [of "lib_parse lib" "lib_pretty lib" ?m] assms(6) p(2) by (auto simp: parts(4) p(5))
  have settings: "dk_settings d' = Some ?text"
    unfolding p(4) plan_after(2) [OF parts(4)] using assms(9) by (cases "dk_settings d") (auto simp: settings_write_def)
  obtain existing template commands where merge: "load_settings_file lib (dk_settings d) = Inr existing"
      "merge_settings_document (lib_render lib) existing template (ip_claude_root params) (ip_remy_root params) commands (map_option mf_settings_claim (old_manifest loaded)) = Inr (merged, claim)"
    using assms(3) by (auto simp: merged_settings_def res_bind_Inr_iff)
  have unique: "unique_keys existing" using assms(7) merge(1) by blast
  have "unique_keys merged" using merge_result [OF merge(2) unique] by (elim conjE)
  then obtain m where "merged = JObject m" by (cases merged) (simp_all add: unique_keys_def)
  then have "load_settings_file lib (dk_settings d') = Inr (sorted_keys merged)"
    using assms(6) by (simp add: settings load_settings_file_def load_json_object_or_empty_def as_object_def)
  moreover have "verify_settings_claim (lib_render lib) (sorted_keys merged) claim = Inr ()"
    by (rule sorted_claim_verifies [OF merge(2) unique assms(8)])
  ultimately have "verify_manifest lib d' = []" by (simp add: verify_manifest_def manifest files manifest_records(2))
  then show ?thesis by (simp add: verify_def)
qed

section \<open>An interruption before the commit\<close>

text \<open>A command that makes the cleaning fail when no claim covers it: the merge takes it for one the user changed.\<close>

definition refused_command :: "ucs \<Rightarrow> ucs \<Rightarrow> ucs \<Rightarrow> ucs \<Rightarrow> bool" where
  "refused_command claude_root remy_root script c \<longleftrightarrow> \<not> own_command claude_root remy_root [] script c \<and>
     (contains_ucs c script \<or> contains_ucs c (lit ''remy-cc'') \<and> contains_ucs c (lit '' hook ''))"

lemma slashes_append [simp]: "slashes (a @ b) = slashes a @ slashes b"
  by (simp add: slashes_def replace_char_def)

lemma contains_append: "contains_ucs (a @ needle @ b) needle"
proof -
  have "starts_with needle (needle @ b)" by (simp add: starts_with_def)
  then have "contains_ucs (needle @ b) needle" by (cases "needle @ b") auto
  then show ?thesis by (induction a) auto
qed

text \<open>The commands an installation writes are refused: they are not among the commands of the retired installers.\<close>

lemma own_commands_refused:
  assumes "hook_commands remy_root = Inr commands" "c \<in> {hc_enrich commands, hc_dirty commands}"
  shows "refused_command claude_root remy_root script c"
proof -
  let ?dir = "path_join remy_root (lit ''bin'')" and ?exe = "managed_exe_name remy_root" and ?old = "legacy_exe_name remy_root"
  define front where "front = (if ?dir = [] \<or> ends_with [47] ?dir then ?dir else ?dir @ [47])"
  have exe: "(?exe, ?old) \<in> {(lit ''remy-cc.exe'', lit ''remy-daemon.exe''), (lit ''remy-cc'', lit ''remy-daemon'')}"
    by (simp add: managed_exe_name_def legacy_exe_name_def)
  have join: "path_join ?dir ?exe = front @ ?exe" "path_join ?dir ?old = front @ ?old"
  proof -
    have "\<not> absolute_text ?exe" "\<not> absolute_text ?old" using exe by (auto simp: absolute_text_def starts_with_def lit_def)
    then show "path_join ?dir ?exe = front @ ?exe" "path_join ?dir ?old = front @ ?old" by (simp_all add: path_join_def [of ?dir] front_def)
  qed
  obtain prefix where prefix: "quote_command_arg (front @ ?exe) = Inr prefix" "commands = \<lparr>hc_enrich = prefix @ lit '' hook enrich'', hc_dirty = prefix @ lit '' hook dirty''\<rparr>"
    using assms(1) by (auto simp: hook_commands_def join res_bind_Inr_iff)
  have "prefix = [34] @ front @ ?exe @ [34]" using prefix(1) by (simp add: quote_command_arg_def split: if_splits)
  then obtain verb where c: "c = [34] @ front @ ?exe @ [34] @ lit '' hook '' @ verb"
    and verb: "verb \<in> {lit ''enrich'', lit ''dirty''}" using assms(2) that by (auto simp: prefix(2) lit_def)
  have 1: "\<not> is_legacy_default c claude_root script"
    by (simp add: is_legacy_default_def Let_def c) (simp add: slashes_def replace_char_def lit_def)
  have 2: "\<not> is_legacy_daemon_default c remy_root"
  proof -
    have differ: "slashes ?exe @ rest \<noteq> slashes ?old @ rest'" for rest rest'
      using exe by (auto simp: slashes_def replace_char_def lit_def)
    have "slashes c \<noteq> slashes ([34] @ front @ ?old @ [34]) @ rest" for rest
      unfolding c slashes_append append_assoc same_append_eq by (rule differ)
    then show ?thesis by (auto simp: is_legacy_daemon_default_def join quote_command_arg_def)
  qed
  have "\<exists>tail. ?exe = lit ''remy-cc'' @ tail" using exe by (auto simp: lit_def)
  then obtain tail where "c = ([34] @ front) @ lit ''remy-cc'' @ (tail @ [34] @ lit '' hook '' @ verb)" by (auto simp: c)
  then have 3: "contains_ucs c (lit ''remy-cc'')" by (metis contains_append)
  have "c = ([34] @ front @ ?exe @ [34]) @ lit '' hook '' @ verb" by (simp add: c)
  then have 4: "contains_ucs c (lit '' hook '')" by (metis contains_append)
  show ?thesis using 1 2 3 4 by (simp add: refused_command_def own_command_def)
qed

lemma retained_not_refused:
  "res_fold (retain_hook cr rr [] script) l acc = Inr r \<Longrightarrow> h \<in> set l \<Longrightarrow> hook_command h = Some c \<Longrightarrow> \<not> refused_command cr rr script c"
proof (induction l arbitrary: acc)
  case (Cons k l)
  obtain acc' where step: "retain_hook cr rr [] script k acc = Inr acc'" "res_fold (retain_hook cr rr [] script) l acc' = Inr r"
    using Cons.prems(1) by (auto simp: res_bind_Inr_iff)
  show ?case
  proof (cases "h = k")
    case True then show ?thesis using step(1) Cons.prems(3) by (auto simp: retain_hook_def refused_command_def split: if_splits)
  qed (use Cons.IH [OF step(2)] Cons.prems in auto)
qed simp

lemma cleaned_not_refused:
  assumes "clean_target render cr rr [] (event, matcher, script) hooks = Inr hooks'" "(event, matcher, h) \<in> hooks_of render hooks" "hook_command h = Some c"
  shows "\<not> refused_command cr rr script c"
proof -
  obtain es e where e: "field_array event hooks = Some es" "e \<in> set es" "(event, matcher, h) \<in> entry_hooks render event e"
    using assms(2) by (auto simp: hooks_of_def entries_hooks_def split: option.splits)
  obtain fs where fs: "res_collect (clean_entry render cr rr [] matcher script) es = Inr fs"
    using assms(1) by (auto simp: clean_target_def e(1) res_bind_Inr_iff)
  have "\<exists>e'. clean_entry render cr rr [] matcher script e = Inr e'"
    using fs e(2) by (induction es arbitrary: fs) (auto split: sum.splits)
  then obtain e' where e': "clean_entry render cr rr [] matcher script e = Inr e'" by blast
  obtain m l where m: "e = JObject m" "field_array (lit ''hooks'') m = Some l" "matcher = string_view render (map_of m (lit ''matcher''))" "h \<in> set l"
    using e(3) by (auto simp: entry_hooks_def split: json_value.splits option.splits)
  obtain r where "res_fold (retain_hook cr rr [] script) l [] = Inr r"
    using e' m by (auto simp: clean_entry_def res_bind_Inr_iff)
  then show ?thesis using m(4) assms(3) by (rule retained_not_refused)
qed

lemma merged_not_refused:
  assumes "merge_settings_document render doc template cr rr commands None = Inr out" "unique_keys doc"
    "(event, matcher, script) \<in> set TARGET_HOOKS" "(event, matcher, h) \<in> doc_hooks render doc" "hook_command h = Some c"
  shows "\<not> refused_command cr rr script c"
proof -
  obtain m hooks where m: "doc = JObject m" "map_of m (lit ''hooks'') = Some (JObject hooks)" "(event, matcher, h) \<in> hooks_of render hooks"
    using assms(2,4) by (cases doc) (auto simp: unique_keys_def doc_hooks_object split: option.splits json_value.splits)
  have dist: "distinct (map fst hooks)" using assms(2) by (simp add: m unique_keys_def)
  obtain t1 t2 where targets: "TARGET_HOOKS = [t1, t2]" "fst t1 \<noteq> fst t2" by (simp add: TARGET_HOOKS_def lit_eq)
  obtain e1 m1 s1 e2 m2 s2 where t: "t1 = (e1, m1, s1)" "t2 = (e2, m2, s2)" by (cases t1, cases t2)
  obtain m' where "remove_prior_target_hooks render cr rr None m = Inr m'"
    using assms(1) by (auto simp: merge_settings_document_def m Let_def res_bind_Inr_iff)
  then obtain h1 h2 where run: "clean_target render cr rr [] t1 hooks = Inr h1" "clean_target render cr rr [] t2 h1 = Inr h2"
    by (auto simp: remove_prior_target_hooks_def m(2) targets res_bind_Inr_iff)
  consider "t1 = (event, matcher, script)" | "t2 = (event, matcher, script)" using assms(3) by (auto simp: targets)
  then show ?thesis
  proof cases
    case 1 then show ?thesis using cleaned_not_refused [OF run(1) [unfolded 1] m(3) assms(5)] by simp
  next
    case 2
    have "(event, matcher, h) \<in> hooks_of render h1"
      using clean_target_hooks [OF run(1) [unfolded t] dist] m(3) targets(2) 2 by (auto simp: t gone_def)
    then show ?thesis using cleaned_not_refused [OF run(2) [unfolded 2] _ assms(5)] by blast
  qed
qed

text \<open>C26.  A first installation that is interrupted after its settings are written and before the commit can never be
  completed by running it again: without a manifest no claim covers the tool hook it has just written, and its command is not
  among those of the retired installers, so the merge refuses it as one the user changed, whatever the rest of the disk
  holds and whatever else the second run is given.\<close>

theorem interrupted_install_stuck:
  assumes "dk_manifest d = None" "plan_install lib params d = Inr p" "merged_settings lib params d None = Inr (merged, claim)"
    "length (pn_files p) < n" "pn_settings p \<noteq> []" "d' = fold perform (take n (plan_actions p)) d"
    "\<forall>doc. load_settings_file lib (dk_settings d) = Inr doc \<longrightarrow> unique_keys doc" "plain_matchers merged"
    "lib_parse lib (canonical_json (lib_pretty lib) merged) = Some (sorted_keys merged)"
    "i \<in> set (cl_hooks claim)" "(ch_event i, ch_matcher i, script) \<in> set TARGET_HOOKS"
    "hook_commands (ip_remy_root params) = Inr commands" "ch_command i \<in> {hc_enrich commands, hc_dirty commands}"
    "ip_claude_root rerun = ip_claude_root params" "ip_remy_root rerun = ip_remy_root params"
  shows "\<exists>e. commit_install lib rerun d' = (Inl e, d')"
proof -
  let ?text = "canonical_json (lib_pretty lib) merged"
  have loaded: "load_manifest (lib_parse lib) (dk_manifest d) = Inr None" by (simp add: assms(1) load_manifest_def)
  have old: "old_manifest None = None" by (simp add: old_manifest_def)
  obtain planned vs dead where parts: "p = \<lparr>pn_files = file_actions planned vs, pn_settings = plan_settings lib d merged, pn_obsolete = map RemoveFile dead,
      pn_manifest = new_manifest params None planned claim\<rparr>"
    using plan_install_parts [OF assms(2)] loaded assms(3) old by (metis prod.inject sum.inject(2))
  have settings: "pn_settings p = [WriteSettings ?text]" using assms(5) by (simp add: parts plan_settings_def Let_def split: if_splits)
  have "take n (plan_actions p) = file_actions planned vs @ [WriteSettings ?text] @ take (n - length (file_actions planned vs) - 1) (map RemoveFile dead)"
    using assms(4) settings by (simp add: plan_actions_def parts take_Cons')
  then have "take n (plan_actions p) = file_actions planned vs @ [WriteSettings ?text] @ map RemoveFile (take (n - length (file_actions planned vs) - 1) dead)"
    by (simp add: take_map)
  then have disk: "dk_manifest d' = None" "dk_settings d' = Some ?text" unfolding assms(6) by (simp_all add: removals_after file_actions_frame assms(1))
  obtain existing template other where merge: "load_settings_file lib (dk_settings d) = Inr existing"
      "merge_settings_document (lib_render lib) existing template (ip_claude_root params) (ip_remy_root params) other None = Inr (merged, claim)"
    using assms(3) by (auto simp: merged_settings_def res_bind_Inr_iff)
  have unique: "unique_keys existing" using assms(7) merge(1) by blast
  have verifies: "verify_settings_claim (lib_render lib) (sorted_keys merged) claim = Inr ()" by (rule sorted_claim_verifies [OF merge(2) unique assms(8)])
  have "unique_keys merged" using merge_result [OF merge(2) unique] by (elim conjE)
  note sorted = unique_keys_sorted [OF this]
  obtain m where m: "sorted_keys merged = JObject m" using sorted by (cases "sorted_keys merged") (simp_all add: unique_keys_def)
  obtain hooks where hooks: "object_or ''settings hooks must be an object'' (map_of m (lit ''hooks'')) = Inr hooks" "list_all (claim_found (lib_render lib) hooks) (cl_hooks claim)"
    using verifies by (auto simp: verify_settings_claim_def m json_get_def res_bind_Inr_iff split: if_splits)
  then have "claim_found (lib_render lib) hooks i" using assms(10) by (simp add: list_all_iff)
  then obtain h where h: "(ch_event i, ch_matcher i, h) \<in> hooks_of (lib_render lib) hooks" "hook_command h = Some (ch_command i)"
    unfolding claim_found_iff by blast
  then have "hooks \<noteq> []" by (auto simp: hooks_of_def field_array_def)
  then have "map_of m (lit ''hooks'') = Some (JObject hooks)" using hooks(1) by (auto simp: object_or_def as_object_Some split: option.splits)
  then have there: "(ch_event i, ch_matcher i, h) \<in> doc_hooks (lib_render lib) (sorted_keys merged)" using h(1) by (simp add: m doc_hooks_object)
  have "\<nexists>out. plan_install lib rerun d' = Inr out"
  proof
    assume "\<exists>out. plan_install lib rerun d' = Inr out"
    then obtain merged' claim' where "merged_settings lib rerun d' None = Inr (merged', claim')"
      by (auto simp: plan_install_def disk load_manifest_def old Let_def res_bind_Inr_iff res_bind_def [of "Inr _"] split: if_splits)
    moreover have "load_settings_file lib (dk_settings d') = Inr (sorted_keys merged)"
      by (simp add: disk load_settings_file_def load_json_object_or_empty_def assms(9) m as_object_def)
    ultimately obtain template' commands' where "merge_settings_document (lib_render lib) (sorted_keys merged) template' (ip_claude_root params) (ip_remy_root params) commands' None = Inr (merged', claim')"
      by (auto simp: merged_settings_def res_bind_Inr_iff assms(14,15))
    from merged_not_refused [OF this sorted assms(11) there h(2)] own_commands_refused [OF assms(12,13)] show False by blast
  qed
  then show ?thesis by (cases "plan_install lib rerun d'") (auto simp: commit_install_def)
qed

section \<open>An example\<close>

definition demo_digest_of :: "ucs \<Rightarrow> ucs" where "demo_digest_of t = replicate 64 (48 + length t mod 8)"

definition demo_dirty :: ucs where "demo_dirty = lit ''\"/r/bin/remy-cc\" hook dirty''"

definition demo_hooks :: "ucs \<Rightarrow> json" where
  "demo_hooks command = JObject [(lit ''PostToolUse'', JArray [JObject
     [(lit ''matcher'', JString (lit ''Edit|Write'')), (lit ''hooks'', JArray [JObject [(lit ''command'', JString command)]])]])]"

definition demo_merged :: json where
  "demo_merged = JObject [(lit ''hooks'', demo_hooks demo_dirty), (lit ''permissions'', JObject [(lit ''allow'', JArray [])]), (lit ''env'', JObject [])]"

definition demo_installed_claim :: SettingsClaim where
  "demo_installed_claim = \<lparr>cl_hooks = [\<lparr>ch_event = lit ''PostToolUse'', ch_matcher = lit ''Edit|Write'', ch_command = demo_dirty\<rparr>], cl_permissions = []\<rparr>"

definition demo_lib :: "Manifest \<Rightarrow> libraries" where
  "demo_lib m = \<lparr>lib_sha256 = demo_digest_of,
     lib_parse = (\<lambda>t. if t = [3] then Some (JObject [(lit ''hooks'', demo_hooks DIRTY_PLACEHOLDER)]) else if t = [4] then Some (JObject [])
       else if t = [5, 10] then Some (sorted_keys demo_merged) else if t = [6, 10] then Some (sorted_keys (manifest_to_value m)) else None),
     lib_pretty = (\<lambda>v. if json_get (lit ''hooks'') v = None then [6] else [5]), lib_render = (\<lambda>_. [])\<rparr>"

definition demo_params :: "ApprovedOverwrite list \<Rightarrow> InstallParams" where
  "demo_params approved = \<lparr>ip_claude_root = lit ''/c'', ip_remy_root = lit ''/r'', ip_language = lit ''en'', ip_suite_version = lit ''4'',
     ip_binary = Some [1, 2, 3], ip_python = Inl (Runtime ''x''), ip_artifact_sha256 = None, ip_approved_overwrites = approved, ip_contents = [],
     ip_template = [3], ip_mcp_template = [4], ip_now = lit ''t''\<rparr>"

definition demo_file :: PlannedFile where
  "demo_file = \<lparr>pf_root = ROOT_CLAUDE, pf_path = lit ''language.md'', pf_payload = lit ''Always respond in English'' @ [10],
     pf_digest = demo_digest_of (lit ''Always respond in English'' @ [10]), pf_role = lit ''claude_protocol''\<rparr>"

definition demo_binary :: PlannedFile where
  "demo_binary = \<lparr>pf_root = ROOT_REMY, pf_path = lit ''bin/remy-cc'', pf_payload = [1, 2, 3], pf_digest = demo_digest_of [1, 2, 3], pf_role = lit ''daemon_binary''\<rparr>"

definition demo_disk :: "(ucs \<times> ucs \<Rightarrow> ucs option) \<Rightarrow> ucs option \<Rightarrow> disk" where
  "demo_disk contents manifest = \<lparr>dk_files = contents, dk_settings = None, dk_manifest = manifest, dk_claude_json = None\<rparr>"

definition demo_new :: "Manifest option \<Rightarrow> Manifest" where
  "demo_new old = new_manifest (demo_params []) old [demo_file, demo_binary] demo_installed_claim"

lemma demo_plan_files: "plan_files (demo_lib m) (demo_params approved) d = Inr [demo_file, demo_binary]"
  by (simp add: plan_files_def plan_claude_contents_def patch_descriptions_def plan_binary_def demo_params_def demo_lib_def demo_file_def demo_binary_def
    res_bind_def Let_def role_for_def starts_with_def managed_exe_name_def is_windows_path_def lit_def)

lemma demo_names: "managed_exe_name (lit ''/r'') = lit ''remy-cc''"
  by (simp add: managed_exe_name_def is_windows_path_def starts_with_def lit_def)

lemma demo_commands_of: "hook_commands (lit ''/r'') = Inr \<lparr>hc_enrich = lit ''\"/r/bin/remy-cc\" hook enrich'', hc_dirty = demo_dirty\<rparr>"
  unfolding hook_commands_def demo_names by (simp add: path_join_def absolute_text_def quote_command_arg_def res_bind_def demo_dirty_def lit_def starts_with_def ends_with_def)

lemma demo_replaced: "replace_text CLAUDE_HOME_PLACEHOLDER p (replace_text DIRTY_PLACEHOLDER demo_dirty (replace_text ENRICH_PLACEHOLDER e DIRTY_PLACEHOLDER)) = demo_dirty"
  by (simp add: replace_text_def CLAUDE_HOME_PLACEHOLDER_def DIRTY_PLACEHOLDER_def ENRICH_PLACEHOLDER_def demo_dirty_def lit_def starts_with_def ends_with_def)

lemma demo_trimmed: "ucs_trim demo_dirty = demo_dirty"
  by (simp add: demo_dirty_def ucs_trim_def is_white_def lit_def)

lemma demo_merged_settings:
  assumes "prior = None \<or> (\<exists>m. prior = Some m \<and> mf_settings_claim m = \<lparr>cl_hooks = [], cl_permissions = []\<rparr>)"
  shows "merged_settings (demo_lib m) (demo_params approved) (demo_disk contents manifest) prior = Inr (demo_merged, demo_installed_claim)"
  using assms
  by (auto simp: merged_settings_def demo_disk_def load_settings_file_def load_json_object_or_empty_def demo_lib_def demo_params_def demo_commands_of
    demo_hooks_def demo_replaced demo_trimmed demo_merged_def demo_installed_claim_def demo_eval verify_settings_claim_def as_str_def)

lemma demo_texts_of:
  "canonical_json (lib_pretty (demo_lib m)) demo_merged = [5, 10]"
  "canonical_json (lib_pretty (demo_lib m)) (manifest_to_value m') = [6, 10]"
  by (simp_all add: canonical_json_def demo_lib_def json_get_sorted del: sorted_keys.simps)
    (simp_all add: demo_merged_def manifest_to_value_def json_get_def lit_eq)

lemma demo_parsed:
  "lib_parse (demo_lib m) [5, 10] = Some (sorted_keys demo_merged)" "lib_parse (demo_lib m) [6, 10] = Some (sorted_keys (manifest_to_value m))"
  by (simp_all add: demo_lib_def)

lemma demo_keys: "pf_key demo_file = (ROOT_CLAUDE, lit ''language.md'')" "pf_key demo_binary = (ROOT_REMY, lit ''bin/remy-cc'')"
  by (simp_all add: pf_key_def demo_file_def demo_binary_def)

lemma demo_apart: "files_apart [demo_file, demo_binary]" "apart [demo_file, demo_binary] []"
  by (simp_all add: files_apart_def apart_def demo_keys bak_def ROOT_CLAUDE_def ROOT_REMY_def lit_def)

lemma demo_hex: "is_sha256 (demo_digest_of t)"
proof -
  have "length t mod 8 < 8" by simp
  then show ?thesis by (auto simp: is_sha256_def demo_digest_of_def list_all_length lower_hex_def)
qed

lemma demo_record_ok: "record_ok (file_record_of demo_file)" "record_ok (file_record_of demo_binary)"
  by (simp_all add: record_ok_def file_record_of_def demo_file_def demo_binary_def demo_hex normalize_relative_path_def is_ok_def)
    (simp_all add: lit_def starts_with_def all_normal_def)

lemma demo_new_ok: "manifest_ok (demo_new old)"
proof -
  have "mset (map fr_key (sort_key fr_key (map file_record_of [demo_file, demo_binary]))) = mset (map fr_key (map file_record_of [demo_file, demo_binary]))"
    by (simp only: mset_map mset_sort)
  then have "distinct (map fr_key (sort_key fr_key (map file_record_of [demo_file, demo_binary])))"
    by (rule mset_eq_imp_distinct_iff [THEN iffD2]) (simp add: demo_keys ROOT_CLAUDE_def ROOT_REMY_def lit_eq)
  moreover have "list_all record_ok (sort_key fr_key (map file_record_of [demo_file, demo_binary]))" by (simp add: list_all_iff demo_record_ok)
  moreover have "mf_artifact_sha256 (demo_new old) = None" by (simp add: demo_new_def new_manifest_def Let_def demo_params_def split: option.split)
  moreover have "(\<lambda>r. (fr_root r, fr_path r)) = fr_key" by (simp add: fun_eq_iff fr_key_def)
  ultimately show ?thesis unfolding manifest_ok_def demo_new_def manifest_records by simp
qed

lemma demo_judged:
  assumes "contents (ROOT_CLAUDE, lit ''language.md'') = None" "contents (ROOT_REMY, lit ''bin/remy-cc'') = None"
  shows "judge_files (demo_lib m) params (demo_disk contents manifest) [demo_file, demo_binary] records =
    Inr ([Replace, Replace], filter (\<lambda>r. fr_key r \<notin> {(ROOT_CLAUDE, lit ''language.md''), (ROOT_REMY, lit ''bin/remy-cc'')}) records)"
  using assms by (simp add: judge_file_def disk_digest_def demo_disk_def demo_keys res_bind_def conj_commute)

lemma plan_install_eq:
  assumes "load_manifest (lib_parse lib) (dk_manifest d) = Inr loaded" "plan_files lib params d = Inr planned"
    "judge_files lib params d planned (old_records (old_manifest loaded)) = Inr (vs, rest)" "conflicts planned vs = []"
    "obsolete lib d rest = Inr dead" "merged_settings lib params d (old_manifest loaded) = Inr (merged, claim)"
  shows "plan_install lib params d = Inr \<lparr>pn_files = file_actions planned vs, pn_settings = plan_settings lib d merged, pn_obsolete = map RemoveFile dead,
    pn_manifest = new_manifest params (old_manifest loaded) planned claim\<rparr>"
  by (simp add: plan_install_def assms res_bind_def Let_def)

lemma demo_planned:
  assumes "load_manifest (lib_parse (demo_lib m)) manifest = Inr loaded" "old_records (old_manifest loaded) = records"
    "old_manifest loaded = None \<or> (\<exists>m. old_manifest loaded = Some m \<and> mf_settings_claim m = \<lparr>cl_hooks = [], cl_permissions = []\<rparr>)"
    "judge_files (demo_lib m) (demo_params approved) (demo_disk contents manifest) [demo_file, demo_binary] records = Inr (vs, rest)"
    "conflicts [demo_file, demo_binary] vs = []" "obsolete (demo_lib m) (demo_disk contents manifest) rest = Inr dead"
  shows "plan_install (demo_lib m) (demo_params approved) (demo_disk contents manifest) =
    Inr \<lparr>pn_files = file_actions [demo_file, demo_binary] vs, pn_settings = [WriteSettings [5, 10]], pn_obsolete = map RemoveFile dead, pn_manifest = demo_new (old_manifest loaded)\<rparr>"
proof -
  have "new_manifest (demo_params approved) old f c = new_manifest (demo_params []) old f c" for old f c by (simp add: new_manifest_def demo_params_def)
  moreover have "plan_settings (demo_lib m) (demo_disk contents manifest) demo_merged = [WriteSettings [5, 10]]"
    by (simp add: plan_settings_def Let_def demo_texts_of settings_write_def demo_disk_def)
  moreover have "dk_manifest (demo_disk contents manifest) = manifest" by (simp add: demo_disk_def)
  ultimately show ?thesis
    using plan_install_eq [where lib = "demo_lib m" and params = "demo_params approved" and d = "demo_disk contents manifest" and loaded = loaded,
      OF _ demo_plan_files _ assms(5,6) demo_merged_settings [OF assms(3)]] assms(1,2,4) by (simp add: demo_new_def)
qed

lemma demo_install:
  assumes "plan_install (demo_lib m) (demo_params approved) d = Inr p" "pn_manifest p = demo_new old"
  shows "\<exists>report d'. install (demo_lib m) (demo_params approved) d = (Inr report, d')"
proof -
  have "write_manifest (lib_pretty (demo_lib m)) (demo_new old) = Inr (canonical_json (lib_pretty (demo_lib m)) (manifest_to_value (demo_new old)))"
    using validate_rendered [of False "demo_new old" "demo_new old"] demo_new_ok by (simp add: write_manifest_def rendered_def res_bind_def)
  then show ?thesis
    by (cases "post_commit (demo_lib m) (demo_params approved) (fold perform (plan_actions p) d\<lparr>dk_manifest := Some (canonical_json (lib_pretty (demo_lib m)) (manifest_to_value (demo_new old)))\<rparr>)")
      (simp add: install_def commit_install_def assms Let_def)
qed

lemma demo_fresh:
  "plan_install (demo_lib m) (demo_params []) (demo_disk Map.empty None) =
    Inr \<lparr>pn_files = file_actions [demo_file, demo_binary] [Replace, Replace], pn_settings = [WriteSettings [5, 10]], pn_obsolete = [], pn_manifest = demo_new None\<rparr>"
  using demo_planned [where m = m and manifest = None and loaded = None and records = "[]" and approved = "[]" and contents = Map.empty and vs = "[Replace, Replace]" and rest = "[]" and dead = "[]"]
    demo_judged [where contents = Map.empty and m = m and params = "demo_params []" and manifest = None and records = "[]"]
  by (simp add: load_manifest_def old_manifest_def old_records_def)

lemma demo_plain: "plain_matchers demo_merged"
  by (simp add: plain_matchers_def demo_merged_def demo_hooks_def plain_matcher_def json_access_defs lit_eq)

lemma demo_no_settings: "load_settings_file (demo_lib m) (dk_settings (demo_disk contents manifest)) = Inr doc \<Longrightarrow> unique_keys doc"
  by (simp add: load_settings_file_def load_json_object_or_empty_def demo_disk_def) (auto simp: unique_keys_def)

theorem verify_after_install_witness:
  "\<exists>report d'. install (demo_lib (demo_new None)) (demo_params []) (demo_disk Map.empty None) = (Inr report, d') \<and>
     (\<forall>ob. verify (demo_lib (demo_new None)) ob d' = verify_runtime (demo_lib (demo_new None)) ob d' @ verify_daemon ob)"
proof -
  let ?lib = "demo_lib (demo_new None)" and ?d = "demo_disk Map.empty None"
  obtain report d' where run: "install ?lib (demo_params []) ?d = (Inr report, d')" using demo_install [OF demo_fresh] by fastforce
  have "verify ?lib ob d' = verify_runtime ?lib ob d' @ verify_daemon ob" for ob
  proof (rule verify_after_install [OF _ demo_plan_files _ demo_apart(1) _ _ _ demo_plain _ run])
    show "load_manifest (lib_parse ?lib) (dk_manifest ?d) = Inr None" by (simp add: load_manifest_def demo_disk_def)
    show "merged_settings ?lib (demo_params []) ?d (old_manifest None) = Inr (demo_merged, demo_installed_claim)"
      by (rule demo_merged_settings) (simp add: old_manifest_def)
    show "pf_key ` set [demo_file, demo_binary] \<inter> {CONFIG_KEY, LEGACY_MANIFEST_KEY, bak LEGACY_MANIFEST_KEY, TRANSACTION_KEY} = {}"
      by (simp add: demo_keys CONFIG_KEY_def LEGACY_MANIFEST_KEY_def TRANSACTION_KEY_def bak_def ROOT_CLAUDE_def ROOT_REMY_def lit_def)
    show "\<forall>v \<in> {demo_merged, manifest_to_value (new_manifest (demo_params []) (old_manifest None) [demo_file, demo_binary] demo_installed_claim)}.
        lib_parse ?lib (canonical_json (lib_pretty ?lib) v) = Some (sorted_keys v)"
      by (simp add: demo_texts_of demo_parsed demo_new_def old_manifest_def)
    show "\<forall>doc. load_settings_file ?lib (dk_settings ?d) = Inr doc \<longrightarrow> unique_keys doc" using demo_no_settings by blast
    show "\<forall>t. dk_settings ?d = Some t \<and> lib_sha256 ?lib t = lib_sha256 ?lib (canonical_json (lib_pretty ?lib) demo_merged) \<longrightarrow> t = canonical_json (lib_pretty ?lib) demo_merged"
      by (simp add: demo_disk_def)
  qed
  then show ?thesis using run by blast
qed

theorem interrupted_install_stuck_witness:
  "\<exists>p. plan_install (demo_lib (demo_new None)) (demo_params []) (demo_disk Map.empty None) = Inr p \<and>
     (\<exists>e. commit_install (demo_lib (demo_new None)) (demo_params []) (fold perform (take 3 (plan_actions p)) (demo_disk Map.empty None)) =
       (Inl e, fold perform (take 3 (plan_actions p)) (demo_disk Map.empty None)))"
proof (intro exI [of _ "\<lparr>pn_files = file_actions [demo_file, demo_binary] [Replace, Replace], pn_settings = [WriteSettings [5, 10]], pn_obsolete = [], pn_manifest = demo_new None\<rparr>"] conjI demo_fresh)
  let ?p = "\<lparr>pn_files = file_actions [demo_file, demo_binary] [Replace, Replace], pn_settings = [WriteSettings [5, 10]], pn_obsolete = [], pn_manifest = demo_new None\<rparr>"
  let ?lib = "demo_lib (demo_new None)" and ?d = "demo_disk Map.empty None"
  let ?i = "\<lparr>ch_event = lit ''PostToolUse'', ch_matcher = lit ''Edit|Write'', ch_command = demo_dirty\<rparr>"
  show "\<exists>e. commit_install ?lib (demo_params []) (fold perform (take 3 (plan_actions ?p)) ?d) = (Inl e, fold perform (take 3 (plan_actions ?p)) ?d)"
  proof (rule interrupted_install_stuck [OF _ demo_fresh _ _ _ refl _ demo_plain _ _ _ _ _ refl refl])
    show "dk_manifest ?d = None" by (simp add: demo_disk_def)
    show "merged_settings ?lib (demo_params []) ?d None = Inr (demo_merged, demo_installed_claim)" by (rule demo_merged_settings) simp
    show "length (pn_files ?p) < 3" "pn_settings ?p \<noteq> []" by (simp_all add: file_action_def)
    show "\<forall>doc. load_settings_file ?lib (dk_settings ?d) = Inr doc \<longrightarrow> unique_keys doc" using demo_no_settings by blast
    show "lib_parse ?lib (canonical_json (lib_pretty ?lib) demo_merged) = Some (sorted_keys demo_merged)" by (simp add: demo_texts_of demo_parsed)
    show "?i \<in> set (cl_hooks demo_installed_claim)" by (simp add: demo_installed_claim_def)
    show "(ch_event ?i, ch_matcher ?i, lit ''logic_dirty_tracker.py'') \<in> set TARGET_HOOKS" by (simp add: TARGET_HOOKS_def)
    show "hook_commands (ip_remy_root (demo_params [])) = Inr \<lparr>hc_enrich = lit ''\"/r/bin/remy-cc\" hook enrich'', hc_dirty = demo_dirty\<rparr>"
      by (simp add: demo_params_def demo_commands_of)
    show "ch_command ?i \<in> {hc_enrich \<lparr>hc_enrich = lit ''\"/r/bin/remy-cc\" hook enrich'', hc_dirty = demo_dirty\<rparr>,
        hc_dirty \<lparr>hc_enrich = lit ''\"/r/bin/remy-cc\" hook enrich'', hc_dirty = demo_dirty\<rparr>}" by simp
  qed
qed

definition demo_approved :: ApprovedOverwrite where
  "demo_approved = \<lparr>ao_root = ROOT_CLAUDE, ao_path = lit ''language.md'', ao_sha256 = demo_digest_of [9]\<rparr>"

definition demo_user_contents :: "ucs \<times> ucs \<Rightarrow> ucs option" where
  "demo_user_contents = [(ROOT_CLAUDE, lit ''language.md'') \<mapsto> [9]]"

lemma demo_digests: "demo_digest_of a = demo_digest_of b \<longleftrightarrow> length a mod 8 = length b mod 8"
  by (simp add: demo_digest_of_def)

lemma demo_judged_user:
  "judge_files (demo_lib m) (demo_params [demo_approved]) (demo_disk demo_user_contents manifest) [demo_file, demo_binary] [] = Inr ([BackupAndReplace, Replace], [])"
proof -
  have digest: "lib_sha256 (demo_lib m) = demo_digest_of" by (simp add: demo_lib_def)
  have differ: "demo_digest_of [9] \<noteq> pf_digest demo_file" by (simp add: demo_digests demo_file_def lit_def)
  have "judge_file (demo_params [demo_approved]) demo_file (Some (demo_digest_of [9])) None = Inr BackupAndReplace"
    using differ by (simp add: judge_file_def demo_params_def demo_approved_def) (simp add: demo_file_def)
  moreover have "disk_digest (demo_lib m) (demo_disk demo_user_contents manifest) (pf_key demo_file) = Some (demo_digest_of [9])"
      "disk_digest (demo_lib m) (demo_disk demo_user_contents manifest) (pf_key demo_binary) = None"
    by (simp_all add: disk_digest_def demo_disk_def demo_user_contents_def demo_keys digest ROOT_CLAUDE_def ROOT_REMY_def lit_eq)
  ultimately show ?thesis by (simp add: judge_file_def [of _ demo_binary] res_bind_def)
qed

theorem interrupted_writes_converge_witness:
  "judge_files (demo_lib (demo_new None)) (demo_params [demo_approved]) (demo_disk demo_user_contents None) [demo_file, demo_binary] [] = Inr ([BackupAndReplace, Replace], []) \<and>
   (\<exists>vs'. judge_files (demo_lib (demo_new None)) (demo_params [demo_approved])
       (fold perform (take 1 (file_actions [demo_file, demo_binary] [BackupAndReplace, Replace])) (demo_disk demo_user_contents None)) [demo_file, demo_binary] [] = Inr (vs', []))"
proof -
  have "\<forall>f \<in> set [demo_file, demo_binary]. pf_digest f = lib_sha256 (demo_lib (demo_new None)) (pf_payload f)"
    by (simp add: demo_file_def demo_binary_def demo_lib_def)
  from interrupted_writes_converge [OF demo_apart(2) this demo_judged_user _ refl, of 1] show ?thesis using demo_judged_user unfolding conflicts.simps by blast
qed


definition demo_old :: Manifest where
  "demo_old = \<lparr>mf_suite_version = lit ''3'', mf_installed_at = lit ''s'', mf_artifact_sha256 = None,
     mf_files = [\<lparr>fr_root = ROOT_REMY, fr_path = DESCRIPTOR_RELATIVE_PATH, fr_sha256 = demo_digest_of [7], fr_role = lit ''runtime_descriptor''\<rparr>],
     mf_settings_claim = \<lparr>cl_hooks = [], cl_permissions = []\<rparr>\<rparr>"

lemma demo_old_ok: "manifest_ok demo_old"
  by (simp add: manifest_ok_def demo_old_def record_ok_def demo_hex is_ok_def normalize_relative_path_def DESCRIPTOR_RELATIVE_PATH_def)
    (simp add: lit_def starts_with_def all_normal_def)

theorem descriptor_removed_witness:
  "\<exists>report d'. install (demo_lib demo_old) (demo_params []) (demo_disk [(ROOT_REMY, DESCRIPTOR_RELATIVE_PATH) \<mapsto> [7]] (Some [6, 10])) = (Inr report, d') \<and>
     dk_files d' (ROOT_REMY, DESCRIPTOR_RELATIVE_PATH) = None"
proof -
  let ?key = "(ROOT_REMY, DESCRIPTOR_RELATIVE_PATH)"
  let ?lib = "demo_lib demo_old" and ?d = "demo_disk [?key \<mapsto> [7]] (Some [6, 10])" and ?r = "hd (mf_files demo_old)"
  have loaded: "load_manifest (lib_parse ?lib) (Some [6, 10]) = Inr (Some (CurrentManifest demo_old))"
    using written_loads [of "lib_parse ?lib" "lib_pretty ?lib" demo_old] demo_old_ok by (simp add: demo_texts_of demo_parsed split: sum.splits)
  have old: "old_manifest (Some (CurrentManifest demo_old)) = Some demo_old" "old_records (Some demo_old) = [?r]"
    by (simp_all add: old_manifest_def old_records_def demo_old_def)
  have r: "fr_key ?r = ?key" "fr_sha256 ?r = demo_digest_of [7]" by (simp_all add: demo_old_def fr_key_def)
  have keys: "?key \<noteq> (ROOT_CLAUDE, lit ''language.md'')" "?key \<noteq> (ROOT_REMY, lit ''bin/remy-cc'')"
    by (simp_all add: ROOT_CLAUDE_def ROOT_REMY_def DESCRIPTOR_RELATIVE_PATH_def lit_eq)
  have dead: "obsolete ?lib ?d [?r] = Inr [?key]" by (simp add: disk_digest_def r demo_disk_def demo_lib_def res_bind_def)
  have judge: "judge_files ?lib (demo_params []) ?d [demo_file, demo_binary] [?r] = Inr ([Replace, Replace], [?r])"
    using demo_judged [of "[?key \<mapsto> [7]]" demo_old "demo_params []" "Some [6, 10]" "[?r]"] keys r(1) by auto
  have plan: "plan_install ?lib (demo_params []) ?d = Inr \<lparr>pn_files = file_actions [demo_file, demo_binary] [Replace, Replace],
      pn_settings = [WriteSettings [5, 10]], pn_obsolete = map RemoveFile [?key], pn_manifest = demo_new (old_manifest (Some (CurrentManifest demo_old)))\<rparr>"
  proof (rule demo_planned [OF loaded _ _ judge _ dead])
    show "old_records (old_manifest (Some (CurrentManifest demo_old))) = [?r]" unfolding old by simp
    show "old_manifest (Some (CurrentManifest demo_old)) = None \<or> (\<exists>m. old_manifest (Some (CurrentManifest demo_old)) = Some m \<and> mf_settings_claim m = \<lparr>cl_hooks = [], cl_permissions = []\<rparr>)"
      unfolding old by (simp add: demo_old_def)
  qed simp
  obtain report d' where run: "install ?lib (demo_params []) ?d = (Inr report, d')" using demo_install [OF plan] by fastforce
  have "dk_files d' ?key = None"
    using descriptor_removed [OF run, of "Runtime ''x''" "Some (CurrentManifest demo_old)" ?r "[7]"] loaded old r by (simp add: demo_params_def demo_disk_def)
  then show ?thesis using run by blast
qed

end
