(* ===== verification/Legacy.thy ===== *)
theory Legacy
    imports Rollout
begin

text \<open>
  The clean-up of installations of the retired installer, \<^verbatim>\<open>remy-cc/src/install/legacy.rs\<close>: the plan read from its
  manifest, which deletes only what is still byte for byte as recorded, and its execution.  The disk maps the names along
  an absolute path to contents, on a POSIX system; directories, and input and output that fails, are left out.
\<close>

section \<open>Paths\<close>

type_synonym names = "ucs list"

definition components :: "ucs \<Rightarrow> names" where
  "components t = filter (\<lambda>p. p \<noteq> [] \<and> p \<noteq> [46]) (split_on 47 t)"

definition resolve_record_path :: "ucs \<Rightarrow> ucs \<Rightarrow> names option" where
  "resolve_record_path path_text claude_root =
     (if [46, 46] \<in> set (components path_text) \<or> absolute_text path_text \<and> \<not> absolute_text claude_root then None
      else
        (let resolved = (if absolute_text path_text then components path_text else components claude_root @ components path_text)
         in if starts_with (components claude_root) resolved then Some resolved else None))"

section \<open>The plan\<close>

datatype RetainReason = HashMismatch | NoHash | OutsideClaudeRoot | Missing

record RetainedEntry =
  re_path :: ucs
  re_reason :: RetainReason

record LegacyPlan =
  lg_old_version :: ucs
  lg_deletable :: "names list"
  lg_retained :: "RetainedEntry list"

type_synonym legacy_disk = "names \<Rightarrow> ucs option"

definition inspect_record :: "libraries \<Rightarrow> ucs \<Rightarrow> legacy_disk \<Rightarrow> json \<Rightarrow> InstallError + RetainedEntry + names" where
  "inspect_record lib claude_root d record =
     (case Option.bind (json_get (lit ''path'') record) as_str of None \<Rightarrow> Inl (Metadata ''legacy installer manifest is unreadable'')
      | Some path_text \<Rightarrow>
          (let keep = (\<lambda>reason. Inr (Inl \<lparr>re_path = path_text, re_reason = reason\<rparr>)) in
           case resolve_record_path path_text claude_root of None \<Rightarrow> keep OutsideClaudeRoot
           | Some resolved \<Rightarrow>
               (case d resolved of None \<Rightarrow> keep Missing
                | Some text \<Rightarrow>
                    (case Option.bind (json_get (lit ''sha256'') record) as_str of None \<Rightarrow> keep NoHash
                     | Some recorded \<Rightarrow> if lib_sha256 lib text = recorded then Inr (Inr resolved) else keep HashMismatch))))"

fun inspect_records :: "libraries \<Rightarrow> ucs \<Rightarrow> legacy_disk \<Rightarrow> json list \<Rightarrow> InstallError + names list \<times> RetainedEntry list" where
  "inspect_records lib claude_root d [] = Inr ([], [])"
| "inspect_records lib claude_root d (r # rs) =
     res_bind (inspect_record lib claude_root d r) (\<lambda>outcome.
     res_bind (inspect_records lib claude_root d rs) (\<lambda>(deletable, retained).
       Inr (case outcome of Inl e \<Rightarrow> (deletable, e # retained) | Inr p \<Rightarrow> (p # deletable, retained))))"

definition legacy_manifest :: "ucs \<Rightarrow> names" where
  "legacy_manifest claude_root = components claude_root @ [lit ''.installer_manifest.json'']"

definition inspect :: "libraries \<Rightarrow> ucs \<Rightarrow> legacy_disk \<Rightarrow> InstallError + LegacyPlan option" where
  "inspect lib claude_root d =
     (case d (legacy_manifest claude_root) of None \<Rightarrow> Inr None
      | Some text \<Rightarrow>
          (case load_json (lib_parse lib) text of Inl _ \<Rightarrow> Inl (Metadata ''legacy installer manifest is unreadable'')
           | Inr document \<Rightarrow>
               (case (Option.bind (json_get (lit ''version'') document) as_str, Option.bind (json_get (lit ''files'') document) as_array) of
                  (Some version, Some records) \<Rightarrow>
                    res_bind (inspect_records lib claude_root d records) (\<lambda>(deletable, retained).
                      Inr (Some \<lparr>lg_old_version = version, lg_deletable = deletable, lg_retained = retained\<rparr>))
                | _ \<Rightarrow> Inl (Metadata ''legacy installer manifest is unreadable''))))"

section \<open>The clean-up of hooks\<close>

definition dead_command :: "ucs list \<Rightarrow> json \<Rightarrow> bool" where
  "dead_command script_names hook =
     (let command = slashes (case Option.bind (json_get (lit ''command'') hook) as_str of None \<Rightarrow> [] | Some t \<Rightarrow> t)
      in list_ex (\<lambda>name. contains_ucs command name) script_names)"

definition clean_dead_entry :: "ucs list \<Rightarrow> json \<Rightarrow> json \<times> bool" where
  "clean_dead_entry script_names entry =
     (case entry of JObject m \<Rightarrow>
        (case field_array (lit ''hooks'') m of None \<Rightarrow> (entry, False)
         | Some l \<Rightarrow> (let kept = filter (\<lambda>h. \<not> dead_command script_names h) l
             in (JObject (put_field (lit ''hooks'') (JArray kept) m), length kept \<noteq> length l)))
      | _ \<Rightarrow> (entry, False))"

definition has_hooks :: "json \<Rightarrow> bool" where
  "has_hooks entry = (case Option.bind (json_get (lit ''hooks'') entry) as_array of None \<Rightarrow> True | Some l \<Rightarrow> l \<noteq> [])"

definition clean_dead_event :: "ucs list \<Rightarrow> ucs \<times> json \<Rightarrow> (ucs \<times> json) \<times> bool \<times> bool" where
  "clean_dead_event script_names = (\<lambda>(event, entries).
     case as_array entries of None \<Rightarrow> ((event, entries), False, False)
     | Some es \<Rightarrow>
         (let cleaned = map (clean_dead_entry script_names) es; kept = filter has_hooks (map fst cleaned)
          in ((event, JArray kept), list_ex snd cleaned, kept = [])))"

definition remove_dead_hook_entries :: "libraries \<Rightarrow> ucs \<Rightarrow> ucs list \<Rightarrow> legacy_disk \<Rightarrow> legacy_disk \<times> ucs list" where
  "remove_dead_hook_entries lib claude_root deleted_scripts d =
     (let script_names = filter (\<lambda>name. ends_with (lit ''.py'') name) deleted_scripts;
          settings = components claude_root @ [lit ''settings.json''] in
      if script_names = [] then (d, [])
      else case d settings of None \<Rightarrow> (d, [])
       | Some text \<Rightarrow>
          (case load_json (lib_parse lib) text of Inl _ \<Rightarrow> (d, [lit ''settings.json is unreadable; stale hook entries were not cleaned''])
           | Inr document \<Rightarrow>
              (case document of JObject m \<Rightarrow>
                 (case Option.bind (map_of m (lit ''hooks'')) as_object of None \<Rightarrow> (d, [])
                  | Some hooks \<Rightarrow>
                      (let outcomes = map (clean_dead_event script_names) hooks;
                           empty_events = map (\<lambda>r. fst (fst r)) (filter (\<lambda>r. snd (snd r)) outcomes);
                           hooks' = fold swap_remove empty_events (map fst outcomes)
                       in if list_ex (\<lambda>r. fst (snd r)) outcomes \<or> empty_events \<noteq> []
                          then (d(settings \<mapsto> canonical_json (lib_pretty lib) (JObject (put_field (lit ''hooks'') (JObject hooks') m))), [])
                          else (d, [])))
               | _ \<Rightarrow> (d, []))))"

section \<open>Execution\<close>

fun delete_files :: "names list \<Rightarrow> legacy_disk \<Rightarrow> names list \<times> legacy_disk" where
  "delete_files [] d = ([], d)"
| "delete_files (p # ps) d =
     (if d p = None then delete_files ps d else (let (deleted, d') = delete_files ps (d(p := None)) in (p # deleted, d')))"

definition execute :: "libraries \<Rightarrow> LegacyPlan \<Rightarrow> ucs \<Rightarrow> legacy_disk \<Rightarrow> names list \<times> ucs list \<times> legacy_disk" where
  "execute lib plan claude_root d =
     (let (deleted, d1) = delete_files (lg_deletable plan) d;
          (d2, warnings) = remove_dead_hook_entries lib claude_root (map last deleted) d1;
          manifest = legacy_manifest claude_root;
          backup = components claude_root @ [lit ''.installer_manifest.json.bak'']
      in case d2 manifest of
           None \<Rightarrow> (deleted, warnings @ [lit ''could not rename the legacy manifest to .bak''], d2)
         | Some stored \<Rightarrow> (deleted, warnings, d2(backup \<mapsto> stored, manifest := None)))"

section \<open>What the clean-up may change\<close>

lemma inspect_records_deletable:
  "inspect_records lib claude_root d records = Inr (deletable, retained) \<Longrightarrow> p \<in> set deletable \<Longrightarrow>
   \<exists>r \<in> set records. \<exists>t x. Option.bind (json_get (lit ''path'') r) as_str = Some t \<and> resolve_record_path t claude_root = Some p \<and> d p = Some x \<and>
     Option.bind (json_get (lit ''sha256'') r) as_str = Some (lib_sha256 lib x)"
proof (induction records arbitrary: deletable retained)
  case (Cons r rs)
  obtain outcome ps es where step: "inspect_record lib claude_root d r = Inr outcome" "inspect_records lib claude_root d rs = Inr (ps, es)"
      "(deletable, retained) = (case outcome of Inl e \<Rightarrow> (ps, e # es) | Inr q \<Rightarrow> (q # ps, es))"
    using Cons.prems(1) by (auto simp: res_bind_Inr_iff)
  show ?case
  proof (cases "p \<in> set ps")
    case True
    then show ?thesis using Cons.IH [OF step(2)] by auto
  next
    case False
    then have "outcome = Inr p" using step(3) Cons.prems(2) by (auto split: sum.splits)
    then show ?thesis using step(1) by (auto simp: inspect_record_def Let_def split: option.splits if_splits)
  qed
qed simp

lemma delete_files_after:
  "delete_files ps d = (deleted, d') \<Longrightarrow> d' p = (if p \<in> set ps then None else d p) \<and> set deleted = {q \<in> set ps. d q \<noteq> None}"
proof (induction ps d arbitrary: deleted d' rule: delete_files.induct)
  case (2 q ps d)
  show ?case
  proof (cases "d q = None")
    case True
    then show ?thesis using "2.IH"(1) [OF True, of deleted d'] "2.prems" by auto
  next
    case False
    obtain dl e where run: "delete_files ps (d(q := None)) = (dl, e)" by fastforce
    have IH: "e p = (if p \<in> set ps then None else (d(q := None)) p)" "set dl = {r \<in> set ps. (d(q := None)) r \<noteq> None}"
      using "2.IH"(2) [OF False run] by simp_all
    have out: "deleted = q # dl" "d' = e" using "2.prems" False by (simp_all add: run)
    have "set (q # dl) = {r \<in> set (q # ps). d r \<noteq> None}" using False unfolding list.set IH(2) by (auto split: if_splits)
    then show ?thesis unfolding out using IH(1) by simp
  qed
qed simp

lemma dead_hooks_frame:
  "remove_dead_hook_entries lib claude_root scripts d = (d', warnings) \<Longrightarrow> p \<noteq> components claude_root @ [lit ''settings.json''] \<Longrightarrow> d' p = d p"
  by (auto simp: remove_dead_hook_entries_def Let_def split: if_splits option.splits sum.splits json_value.splits)

lemma resolved_below: "resolve_record_path t claude_root = Some p \<Longrightarrow> starts_with (components claude_root) p \<and> [46, 46] \<notin> set (drop (length (components claude_root)) p)"
proof -
  assume r: "resolve_record_path t claude_root = Some p"
  then have up: "[46, 46] \<notin> set (components t)" by (auto simp: resolve_record_path_def split: if_splits)
  show ?thesis using r up by (auto simp: resolve_record_path_def Let_def split: if_splits dest: in_set_dropD)
qed

text \<open>C28.  The clean-up of a retired installation is fail-closed: apart from the settings, the old manifest and its backup, a
  file it changes lies below the root, is named by a record of that manifest without any step upwards, and held exactly
  the contents whose digest the record gives.\<close>

theorem legacy_cleanup_safe:
  assumes "inspect lib claude_root d = Inr (Some plan)" "execute lib plan claude_root d = (deleted, warnings, d')"
    "d p = Some x" "d' p \<noteq> Some x"
    "p \<notin> (\<lambda>name. components claude_root @ [name]) ` {lit ''settings.json'', lit ''.installer_manifest.json'', lit ''.installer_manifest.json.bak''}"
  shows "starts_with (components claude_root) p \<and> [46, 46] \<notin> set (drop (length (components claude_root)) p) \<and> p \<in> set deleted \<and>
    (\<exists>document records r t. Option.bind (d (legacy_manifest claude_root)) (lib_parse lib) = Some document \<and>
       Option.bind (json_get (lit ''files'') document) as_array = Some records \<and> r \<in> set records \<and>
       Option.bind (json_get (lit ''path'') r) as_str = Some t \<and> resolve_record_path t claude_root = Some p \<and>
       Option.bind (json_get (lit ''sha256'') r) as_str = Some (lib_sha256 lib x))"
proof -
  obtain dl d1 where del: "delete_files (lg_deletable plan) d = (dl, d1)" by fastforce
  obtain d2 ws where dead: "remove_dead_hook_entries lib claude_root (map last dl) d1 = (d2, ws)" by fastforce
  have run: "deleted = dl" "d' p = d2 p"
    using assms(2,5) by (auto simp: execute_def del dead Let_def legacy_manifest_def split: option.splits)
  have "d2 p = d1 p" using dead_hooks_frame [OF dead] assms(5) by blast
  then have p: "p \<in> set (lg_deletable plan)" "p \<in> set deleted"
    using delete_files_after [OF del, of p] assms(3,4) run by (auto split: if_splits)
  obtain stored document records where m: "d (legacy_manifest claude_root) = Some stored" "load_json (lib_parse lib) stored = Inr document"
      "Option.bind (json_get (lit ''files'') document) as_array = Some records"
      "\<exists>retained. inspect_records lib claude_root d records = Inr (lg_deletable plan, retained)"
    using assms(1) by (auto simp: inspect_def res_bind_Inr_iff split: option.splits sum.splits)
  obtain r t y where r: "r \<in> set records" "Option.bind (json_get (lit ''path'') r) as_str = Some t" "resolve_record_path t claude_root = Some p" "d p = Some y"
      "Option.bind (json_get (lit ''sha256'') r) as_str = Some (lib_sha256 lib y)"
    using m(4) inspect_records_deletable p(1) by blast
  have "lib_parse lib stored = Some document" using m(2) by (auto simp: load_json_def split: option.splits if_splits)
  then have "Option.bind (d (legacy_manifest claude_root)) (lib_parse lib) = Some document" by (simp add: m(1))
  moreover have "y = x" using r(4) assms(3) by simp
  ultimately show ?thesis using resolved_below [OF r(3)] p(2) m(3) r by blast
qed

section \<open>An example\<close>

definition legacy_doc :: json where
  "legacy_doc = JObject [(lit ''version'', JString (lit ''2'')), (lit ''files'', JArray [JObject
     [(lit ''path'', JString (lit ''a.py'')), (lit ''sha256'', JString (demo_digest_of [9]))]])]"

definition users_hooks :: json where
  "users_hooks = JObject [(lit ''hooks'', JObject [(lit ''Stop'', JArray [JObject [(lit ''hooks'', JArray [JObject [(lit ''command'', JString (lit ''data.py''))]])]])])]"

definition legacy_lib :: libraries where
  "legacy_lib = \<lparr>lib_sha256 = demo_digest_of, lib_parse = (\<lambda>t. if t = [5] then Some legacy_doc else if t = [6] then Some users_hooks else None),
     lib_pretty = (\<lambda>v. if v = JObject [(lit ''hooks'', JObject [])] then [7] else [8]), lib_render = (\<lambda>_. [])\<rparr>"

definition legacy_files :: legacy_disk where
  "legacy_files = [[lit ''c'', lit ''a.py''] \<mapsto> [9], [lit ''c'', lit ''settings.json''] \<mapsto> [6], [lit ''c'', lit ''.installer_manifest.json''] \<mapsto> [5]]"

definition legacy_plan :: LegacyPlan where
  "legacy_plan = \<lparr>lg_old_version = lit ''2'', lg_deletable = [[lit ''c'', lit ''a.py'']], lg_retained = []\<rparr>"

lemma legacy_components: "components (lit ''/c'') = [lit ''c'']" "components (lit ''a.py'') = [lit ''a.py'']"
  by (simp_all add: components_def lit_def)

lemma legacy_inspected: "inspect legacy_lib (lit ''/c'') legacy_files = Inr (Some legacy_plan)"
proof -
  have path: "resolve_record_path (lit ''a.py'') (lit ''/c'') = Some [lit ''c'', lit ''a.py'']"
    by (simp add: resolve_record_path_def legacy_components starts_with_def) (simp add: absolute_text_def starts_with_def lit_def)
  show ?thesis
    by (simp add: inspect_def legacy_manifest_def legacy_components legacy_files_def lit_eq legacy_lib_def load_json_def legacy_doc_def json_access_defs res_bind_def
      inspect_record_def path legacy_plan_def)
qed

lemma legacy_executed:
  "execute legacy_lib legacy_plan (lit ''/c'') legacy_files =
     ([[lit ''c'', lit ''a.py'']], [], [[lit ''c'', lit ''settings.json''] \<mapsto> [7, 10], [lit ''c'', lit ''.installer_manifest.json.bak''] \<mapsto> [5]])"
proof -
  have dead: "dead_command [lit ''a.py''] (JObject [(lit ''command'', JString (lit ''data.py''))])"
    by (simp add: dead_command_def json_access_defs slashes_def replace_char_def lit_def starts_with_def)
  have py: "ends_with (lit ''.py'') (lit ''a.py'')" by (simp add: ends_with_def starts_with_def lit_def)
  show ?thesis
    by (rule ext prod_eqI; simp add: execute_def legacy_plan_def legacy_files_def lit_eq remove_dead_hook_entries_def py legacy_components legacy_lib_def load_json_def users_hooks_def
      json_access_defs clean_dead_event_def clean_dead_entry_def field_array_def dead has_hooks_def swap_remove_def canonical_json_def legacy_manifest_def Let_def)
qed

theorem legacy_cleanup_safe_witness:
  "inspect legacy_lib (lit ''/c'') legacy_files = Inr (Some legacy_plan) \<and> legacy_files [lit ''c'', lit ''a.py''] = Some [9] \<and>
   [lit ''c'', lit ''a.py''] \<in> set (fst (execute legacy_lib legacy_plan (lit ''/c'') legacy_files))"
proof -
  have there: "legacy_files [lit ''c'', lit ''a.py''] = Some [9]" by (simp add: legacy_files_def lit_eq)
  show ?thesis
    using legacy_cleanup_safe [OF legacy_inspected legacy_executed there] legacy_inspected there legacy_executed by (auto simp: legacy_components lit_eq)
qed

text \<open>The clean-up drops hooks of the user: a hook counts as a reference to a deleted script when its command merely
  contains the name, so deleting a.py drops a hook that runs data.py, and its event with it.\<close>

theorem users_hook_dropped:
  "legacy_files [lit ''c'', lit ''settings.json''] = Some [6] \<and> lib_parse legacy_lib [6] = Some users_hooks \<and>
   (case execute legacy_lib legacy_plan (lit ''/c'') legacy_files of (deleted, warnings, d') \<Rightarrow>
      map last deleted = [lit ''a.py''] \<and> d' [lit ''c'', lit ''settings.json''] = Some (canonical_json (lib_pretty legacy_lib) (JObject [(lit ''hooks'', JObject [])])))"
  by (simp add: legacy_executed lit_eq canonical_json_def) (simp add: legacy_files_def legacy_lib_def lit_eq)

end
