(* ===== verification/Spec2Isabelle.thy ===== *)
theory Spec2Isabelle
  imports Provider Pipeline Events ScanFindings GraphPath ScanOutcome PyRepr Discovery Settings QuerySettings Dependencies Legacy
begin

text \<open>
  A verification library of Remy-CC: the daemon that schedules scans (\<^verbatim>\<open>src/remy-cc/src\<close>), the scanner that builds the
  logic index of a project (\<^verbatim>\<open>src/remy-cc/scanner-core/src\<close>), the query server over that index
  (\<^verbatim>\<open>src/remy-cc/src/mcp\<close>) and the installer (\<^verbatim>\<open>src/remy-cc/src/install\<close>).  Paths below are relative to the first two.

  \<^bold>\<open>The program.\<close>  Clients send lines of JSON to the daemon.  The handler of a connection (\<^verbatim>\<open>server.rs\<close>) checks the token and
  the version and turns a request into a command of the scheduler (\<^verbatim>\<open>scheduler.rs\<close>), the only owner of the state store
  (\<^verbatim>\<open>state.rs\<close>), a database of jobs, projects and the published scanner.  The scheduler runs one job at a time: a
  worker (\<^verbatim>\<open>worker.rs\<close>) supervises a scanner process, bounds its output and its time, and judges the line it prints.
  The scanner (\<^verbatim>\<open>scan.rs\<close>) discovers the files, parses each into facts, chooses one symbol per name
  (\<^verbatim>\<open>selection.rs\<close>), writes the facts and their search documents (\<^verbatim>\<open>writer.rs\<close>, \<^verbatim>\<open>projection.rs\<close>), and then resolves calls
  (\<^verbatim>\<open>postprocess.rs\<close>), synthesises edges (\<^verbatim>\<open>synth.rs\<close>) and groups files (\<^verbatim>\<open>clusters.rs\<close>).  An incremental scan does this for a
  change set and has to leave what a full scan would.  The query server reads the index.  The installer deploys files,
  merges hooks into the settings of the editor and records both in a manifest.

  \<^bold>\<open>Conventions.\<close>  A fallible function returns a sum, the error on the left; an operation on a store is a function from the
  store to such a result and the new store (Prelude).  A table is the list of its rows in row order, a statement is a
  function on the table that fails on the constraints of the schema, and a transaction that fails leaves the table as it
  was.  Text is a list of code points, or of bytes where the code counts bytes (CodePoints, Text).  A document of JSON is a
  datatype, an object the list of its fields in order (JsonValue).  Clocks, digests, the JSON reader and printer, random
  tokens, threads, processes and files are arguments; a theorem names what it needs of them as a hypothesis, and its
  witness shows an instance.

  \<^bold>\<open>The daemon.\<close>
  \<^item> JobModel, StateDb, StateStore: the value types, the schema and every operation of \<^verbatim>\<open>StateStore\<close>.  StateLifecycle shows that
    every operation moves jobs along allowed transitions only (locale lifecycle_store, interpreted on the operations);
    StateGuards that the guards of the code make every statement succeed inside the schema; StateClaim, StateSubmit,
    StateFullScan and StateRecovery give the exact effect of each group of operations, StateFullScan with the locale
    row_invariant for the two invariants on full scans.  StateProperties states the properties.
  \<^item> Worker: capture, waiting, judgement of the output and the text of errors.  Scheduler: the loop over commands and events of
    workers as steps, the single slot and its invariants over all reachable states.  Server: requests, gates and
    responses.  Provider: validation and publication of the scanner at startup.

  \<^bold>\<open>The scanner.\<close>
  \<^item> Fnmatch, ScanConfig, Languages, Discovery, Settings: patterns against a declarative relation, the configuration and its
    exclusions on walked and on stored paths, languages and identities of parsers, the walk of the file tree, the settings.
  \<^item> Facts, Selection, PyJson, PyRepr: the facts of a file, the choice of a symbol per name, and the formats of Python the
    scanner reproduces.
  \<^item> IndexDb, Projection, Writer, with WriterFacts and WriterInvariant: the index, its documents and the writes of a file, which
    never violate a constraint and keep the invariant of the index.
  \<^item> ScanFiles, with ScanFacts, ScanTracking and ScanRuns: the write loops of full and incremental scans, and that the change set
    of an incremental scan covers what it changed.
  \<^item> Resolve and Incremental: the tiers of candidates of a call edge, and that the targeted resolution of an incremental scan
    gives what resolving everything would.  Synth, Dispatch and Events: the passes that synthesise edges, and exactly which
    edges events give and the reason of every other.  Clusters, with Emission, StageFrame, ScanCycle and Pipeline: the stages
    in order, and that scans end with a well-formed index whose kinds are settled.  ClusterRows gives the rows of clusters
    that full and incremental stages leave, and ScanFindings shows two places that do less than they promise.
  \<^item> ScanOutcome: the printed result and the progress of a scan against what the worker accepts.

  \<^bold>\<open>The query server.\<close>
  \<^item> GraphBfs and Dependencies: the searches by levels, each an instance of the locale neighbour_query, which proves once that the
    levels are the distances of a relation.  GraphPath: the bidirectional search for a call path.  QuerySettings: the
    lenient settings of the server.

  \<^bold>\<open>The installer.\<close>
  \<^item> InstallSettings and InstallClaims: merging the template into the settings, the claim of what was added, its verification and
    removal, and what an installation followed by its uninstallation leaves of every part of the document, seen as the set of
    its hooks and permissions and as its fields.  Manifest: the manifest and its round trip.
  \<^item> Deployment: the plan of an installation, its guards of ownership and the order of its writes (\<^verbatim>\<open>install/ops.rs\<close>), up to the
    commit by the manifest and after it, with verification and uninstallation.  Rollout: what an installation,
    with what follows its commit, may change, that interrupted writes of files converge, that an interruption between
    settings and manifest does not, and that a successful installation verifies.  Legacy: the clean-up of retired installations.

  \<^bold>\<open>Bounds and fuel.\<close>  Loops are structural or come with a measure, such as the size of the trees on the stack of Discovery.
  The chain of parents of GraphPath is followed with fuel; the invariant of the search makes the number of visited nodes
  enough.  The capture of the worker keeps the bound of 64 KiB, ids and ports their width, and the settings the bounds of the
  code.  Loops that wait, in Worker and Provider, run over the list of observations a host makes, and the theorems
  on their end say how many polls suffice.

  \<^bold>\<open>Not modelled.\<close>
  \<^item> The language parsers (\<^verbatim>\<open>parse_*.rs\<close>, \<^verbatim>\<open>py_unparse.rs\<close>) walk syntax trees of third-party grammars, which are not part of the
    repository; the facts a parse yields are an argument of the scan.  The order in which the pool of parsers delivers is
    any permutation.
  \<^item> Input and output: sockets, processes, files and their modes, the opening and migration of databases, locks
    (\<^verbatim>\<open>scanner-core/src/lock.rs\<close>, \<^verbatim>\<open>install/lock.rs\<close>, \<^verbatim>\<open>single_instance.rs\<close>), logging, downloads (\<^verbatim>\<open>install/update.rs\<close>), the deferred
    deletion of locked files (\<^verbatim>\<open>install/pending.rs\<close>), the hook client, the interface host and the command line.
  \<^item> The other queries of the server (\<^verbatim>\<open>mcp/facts.rs\<close>, \<^verbatim>\<open>freshness.rs\<close>, \<^verbatim>\<open>navigate.rs\<close>, \<^verbatim>\<open>search.rs\<close>): they render rows of the index, or
    rest on the full-text search of the database engine.
  \<^item> Windows: case folding of patterns, drive letters and backslashes, except where the code looks at their text.
\<close>

end
